(* ===== verification/Prelude.thy ===== *)
theory Prelude
  imports Complex_Main
    "HOL-Library.List_Lexorder" "HOL-Library.Char_ord"
    "HOL-Library.Product_Lexorder" "HOL-Library.Option_ord" "HOL-Library.Multiset"
begin

text \<open>
  Shared vocabulary of the development: the result type that stands for a Python function
  that may raise (\<open>Inl\<close> the exception, \<open>Inr\<close> the returned value), the sequencing and
  traversal combinators over it, and the generic facts on sorted lists, stable sorting,
  deduplication and half-open intervals that the component theories use.
\<close>

section \<open>Results: a value or a raised exception\<close>

definition res_bind :: "'e + 'a \<Rightarrow> ('a \<Rightarrow> 'e + 'b) \<Rightarrow> 'e + 'b" where
  "res_bind r f = (case r of Inl e \<Rightarrow> Inl e | Inr x \<Rightarrow> f x)"

definition res_map :: "('a \<Rightarrow> 'b) \<Rightarrow> 'e + 'a \<Rightarrow> 'e + 'b" where
  "res_map f r = (case r of Inl e \<Rightarrow> Inl e | Inr x \<Rightarrow> Inr (f x))"

definition res_guard :: "'e \<Rightarrow> bool \<Rightarrow> 'e + unit" where
  "res_guard e ok = (if ok then Inr () else Inl e)"

fun res_mapM :: "('a \<Rightarrow> 'e + 'b) \<Rightarrow> 'a list \<Rightarrow> 'e + 'b list" where
  "res_mapM f [] = Inr []"
| "res_mapM f (x # xs) =
     res_bind (f x) (\<lambda>y. res_bind (res_mapM f xs) (\<lambda>ys. Inr (y # ys)))"

fun res_foldM :: "('s \<Rightarrow> 'a \<Rightarrow> 'e + 's) \<Rightarrow> 's \<Rightarrow> 'a list \<Rightarrow> 'e + 's" where
  "res_foldM f s [] = Inr s"
| "res_foldM f s (x # xs) = res_bind (f s x) (\<lambda>s'. res_foldM f s' xs)"

named_theorems res_simps \<open>rewriting of results\<close>

lemma res_bind_Inl [simp, res_simps]: "res_bind (Inl e) f = Inl e"
  by (simp add: res_bind_def)

lemma res_bind_Inr [simp, res_simps]: "res_bind (Inr x) f = f x"
  by (simp add: res_bind_def)

lemma res_map_Inl [simp, res_simps]: "res_map f (Inl e) = Inl e"
  by (simp add: res_map_def)

lemma res_map_Inr [simp, res_simps]: "res_map f (Inr x) = Inr (f x)"
  by (simp add: res_map_def)

lemma res_guard_Inr_iff [simp, res_simps]: "res_guard e b = Inr u \<longleftrightarrow> b"
  by (simp add: res_guard_def)

lemma res_bind_eq_Inr_iff [res_simps]:
  "res_bind r f = Inr y \<longleftrightarrow> (\<exists>x. r = Inr x \<and> f x = Inr y)"
  by (cases r) auto

lemma res_bind_eq_Inl_iff [res_simps]:
  "res_bind r f = Inl e \<longleftrightarrow> r = Inl e \<or> (\<exists>x. r = Inr x \<and> f x = Inl e)"
  by (cases r) auto

lemma res_map_eq_Inr_iff [res_simps]: "res_map f r = Inr y \<longleftrightarrow> (\<exists>x. r = Inr x \<and> y = f x)"
  by (cases r) auto

lemma res_map_eq_Inl_iff [res_simps]: "res_map f r = Inl e \<longleftrightarrow> r = Inl e"
  by (cases r) auto

lemma res_mapM_Inr_iff:
  "res_mapM f xs = Inr ys \<longleftrightarrow> list_all2 (\<lambda>x y. f x = Inr y) xs ys"
  by (induction xs arbitrary: ys) (auto simp: res_bind_eq_Inr_iff list_all2_Cons1)

lemma res_mapM_cong_Inr: "(\<And>x. x \<in> set xs \<Longrightarrow> f x = Inr (g x)) \<Longrightarrow> res_mapM f xs = Inr (map g xs)"
  by (induction xs) auto

lemma res_mapM_cong [fundef_cong]:
  "xs = ys \<Longrightarrow> (\<And>x. x \<in> set ys \<Longrightarrow> f x = g x) \<Longrightarrow> res_mapM f xs = res_mapM g ys"
  by (induction xs arbitrary: ys) auto

lemma res_mapM_Inr_length: "res_mapM f xs = Inr ys \<Longrightarrow> length ys = length xs"
  by (auto simp: res_mapM_Inr_iff dest: list_all2_lengthD)

lemma res_mapM_Inr_set:
  "res_mapM f xs = Inr ys \<Longrightarrow> y \<in> set ys \<Longrightarrow> \<exists>x\<in>set xs. f x = Inr y"
  by (induction xs arbitrary: ys) (auto simp: res_bind_eq_Inr_iff)

section \<open>Sorting and deduplication\<close>

text \<open>Python's \<open>sorted(set)\<close>: the distinct elements in ascending order.\<close>

definition sorted_set :: "'a::linorder list \<Rightarrow> 'a list" where
  "sorted_set xs = sort (remdups xs)"

lemma set_sorted_set [simp]: "set (sorted_set xs) = set xs"
  by (simp add: sorted_set_def)

lemma sorted_wrt_less_iff: "sorted_wrt (<) (xs :: 'a::linorder list) \<longleftrightarrow> sorted xs \<and> distinct xs"
  by (simp add: strict_sorted_iff)

lemma strict_sorted_set [simp]: "sorted_wrt (<) (sorted_set xs)"
  by (simp add: sorted_wrt_less_iff sorted_set_def)

lemma sorted_set_Nil_iff [simp]: "sorted_set xs = [] \<longleftrightarrow> xs = []"
  by (metis set_empty set_sorted_set)

lemma sorted_set_empty [simp]: "sorted_set [] = []"
  by simp

lemma sorted_set_unique:
  "set xs = set ys \<Longrightarrow> sorted_set xs = sorted_set ys"
  unfolding sorted_set_def
  by (rule sorted_distinct_set_unique) auto

text \<open>A stable sort keeps every element and is unchanged on an already sorted list.\<close>

lemma sort_key_idem: "sort_key f (sort_key f xs) = sort_key f xs"
  by (rule sort_key_id_if_sorted) simp

lemma sort_key_Nil_iff [simp]: "sort_key f xs = [] \<longleftrightarrow> xs = []"
  by (metis length_0_conv length_sort)

lemma sort_key_perm_distinct:
  fixes f :: "'a \<Rightarrow> 'b::linorder"
  assumes "mset xs = mset ys" and "inj_on f (set xs)"
  shows "sort_key f xs = sort_key f ys"
  using assms by (intro sort_key_inj_key_eq) simp_all

text \<open>
  A Python \<^verbatim>\<open>set\<close> built by iteration keeps the first of several equal elements; \<open>f\<close> is the key
  that decides equality.
\<close>

fun dedup_first :: "('a \<Rightarrow> 'b) \<Rightarrow> 'a list \<Rightarrow> 'a list" where
  "dedup_first f [] = []"
| "dedup_first f (x # xs) = x # dedup_first f (filter (\<lambda>y. f y \<noteq> f x) xs)"

lemma dedup_first_subset: "set (dedup_first f xs) \<subseteq> set xs"
  by (induction f xs rule: dedup_first.induct) auto

lemma dedup_first_keys: "f ` set (dedup_first f xs) = f ` set xs"
  by (induction f xs rule: dedup_first.induct) auto

lemma dedup_first_distinct: "distinct (map f (dedup_first f xs))"
proof (induction f xs rule: dedup_first.induct)
  case (2 f x xs)
  then show ?case using dedup_first_subset [of f "filter (\<lambda>y. f y \<noteq> f x) xs"] by auto
qed simp

section \<open>Dictionaries\<close>

text \<open>\<^verbatim>\<open>d[k] = v\<close> on a dict in insertion order: an existing key keeps its place.\<close>

fun dict_set :: "('k \<times> 'v) list \<Rightarrow> 'k \<Rightarrow> 'v \<Rightarrow> ('k \<times> 'v) list" where
  "dict_set [] k v = [(k, v)]"
| "dict_set ((k', v') # d) k v = (if k' = k then (k, v) # d else (k', v') # dict_set d k v)"

lemma map_of_dict_set [simp]: "map_of (dict_set d k v) = (map_of d)(k \<mapsto> v)"
  by (induction d k v rule: dict_set.induct) (auto simp: fun_eq_iff)

lemma set_keys_dict_set [simp]: "fst ` set (dict_set d k v) = insert k (fst ` set d)"
  by (induction d k v rule: dict_set.induct) auto

lemma keys_dict_set_old: "k \<in> fst ` set d \<Longrightarrow> map fst (dict_set d k v) = map fst d"
  by (induction d k v rule: dict_set.induct) auto

lemma distinct_dict_set: "distinct (map fst d) \<Longrightarrow> distinct (map fst (dict_set d k v))"
proof (induction d k v rule: dict_set.induct)
  case (2 k' v' d k v)
  then show ?case using set_keys_dict_set [of d k v] by auto
qed simp

section \<open>Half-open intervals\<close>

text \<open>Adjacent pairs of a list, as \<^verbatim>\<open>zip(xs, xs[1:], strict=False)\<close> yields them.\<close>

fun adjacent_pairs :: "'a list \<Rightarrow> ('a \<times> 'a) list" where
  "adjacent_pairs (x # y # zs) = (x, y) # adjacent_pairs (y # zs)"
| "adjacent_pairs _ = []"

lemma adjacent_pairs_zip: "adjacent_pairs xs = zip xs (tl xs)"
  by (induction xs rule: adjacent_pairs.induct) auto

text \<open>The part of a concatenation that belongs to one of the distinct sources.\<close>

lemma filter_concat_map_key:
  assumes "distinct us" "u \<in> set us" "inj_on k (set us)"
    and "\<And>v r. v \<in> set us \<Longrightarrow> r \<in> set (F v) \<Longrightarrow> key r = k v"
  shows "filter (\<lambda>r. key r = k u) (concat (map F us)) = F u"
  using assms
proof (induction us)
  case (Cons v us)
  have "\<forall>r\<in>set (F v). key r = k v" using Cons.prems(4) by simp
  moreover have "k v = k u \<longleftrightarrow> v = u" using Cons.prems(2,3) by (auto simp: inj_on_def)
  ultimately have own: "filter (\<lambda>r. key r = k u) (F v) = (if v = u then F v else [])"
    by (auto simp: filter_empty_conv filter_id_conv)
  have rest: "filter (\<lambda>r. key r = k u) (concat (map F us)) = []" if "u = v"
    using Cons.prems that by (fastforce simp: filter_empty_conv inj_on_def)
  show ?case
    using Cons own rest by (cases "u = v") auto
qed simp

lemma sort_key_map: "sort_key f (map g xs) = map g (sort_key (\<lambda>x. f (g x)) xs)"
proof -
  have "insort_key f (g x) (map g ys) = map g (insort_key (\<lambda>x. f (g x)) x ys)" for x ys
    by (induction ys) auto
  then show ?thesis by (induction xs) simp_all
qed

section \<open>Grouping\<close>

text \<open>The first-element fold of Python's \<^verbatim>\<open>min\<close> and \<^verbatim>\<open>max\<close> over a non-empty iterable.\<close>

fun fold_first :: "('a \<Rightarrow> 'a \<Rightarrow> 'a) \<Rightarrow> 'a list \<Rightarrow> 'a option" where
  "fold_first f [] = None"
| "fold_first f (x # xs) = Some (foldl f x xs)"

text \<open>\<^verbatim>\<open>d.setdefault(k, []).append(v)\<close>, and the dictionary that a loop of them builds.\<close>

fun dict_append :: "('k \<times> 'v list) list \<Rightarrow> 'k \<Rightarrow> 'v \<Rightarrow> ('k \<times> 'v list) list" where
  "dict_append [] k v = [(k, [v])]"
| "dict_append ((k', vs) # d) k v = (if k' = k then (k', vs @ [v]) # d else (k', vs) # dict_append d k v)"

definition group_pairs :: "('k \<times> 'v) list \<Rightarrow> ('k \<times> 'v list) list" where
  "group_pairs kvs = foldl (\<lambda>d kv. dict_append d (fst kv) (snd kv)) [] kvs"

lemma map_of_dict_append:
  "map_of (dict_append d k v) =
     (map_of d)(k \<mapsto> (case map_of d k of None \<Rightarrow> [] | Some vs \<Rightarrow> vs) @ [v])"
  by (induction d k v rule: dict_append.induct) (auto simp: fun_eq_iff)

lemma keys_dict_append: "fst ` set (dict_append d k v) = insert k (fst ` set d)"
  by (induction d k v rule: dict_append.induct) auto

lemma distinct_dict_append: "distinct (map fst d) \<Longrightarrow> distinct (map fst (dict_append d k v))"
proof (induction d k v rule: dict_append.induct)
  case (2 k' vs d k v)
  then show ?case using keys_dict_append [of d k v] by auto
qed simp

lemma group_pairs_snoc:
  "group_pairs (kvs @ [(k, v)]) = dict_append (group_pairs kvs) k v"
  by (simp add: group_pairs_def)

lemma distinct_group_pairs: "distinct (map fst (group_pairs kvs))"
proof (induction kvs rule: rev_induct)
  case (snoc kv kvs)
  then show ?case by (cases kv) (simp add: group_pairs_snoc distinct_dict_append)
qed (simp add: group_pairs_def)

lemma map_of_group_pairs:
  "map_of (group_pairs kvs) k =
     (if k \<in> fst ` set kvs then Some (map snd (filter (\<lambda>kv. fst kv = k) kvs)) else None)"
proof (induction kvs rule: rev_induct)
  case (snoc kv kvs)
  show ?case
  proof (cases kv)
    case (Pair k' v)
    show ?thesis
      using snoc.IH
      by (cases "k' = k") (auto simp: Pair group_pairs_snoc map_of_dict_append filter_empty_conv image_iff
          split: option.splits)
  qed
qed (simp add: group_pairs_def)

text \<open>\<^verbatim>\<open>sorted(d.items())\<close> of a grouping: one entry per key, in key order, each with the values of the
  key in their original order.\<close>

lemma map_of_eq_map_keys:
  assumes "distinct (map fst d)"
  shows "d = map (\<lambda>k. (k, the (map_of d k))) (map fst d)"
proof -
  have "map (\<lambda>kv. (fst kv, the (map_of d (fst kv)))) d = d"
    using assms by (intro map_idI) auto
  then show ?thesis by (simp add: comp_def)
qed

lemma sorted_group_pairs:
  fixes kvs :: "('k::linorder \<times> 'v) list"
  shows "sort_key fst (group_pairs kvs) =
     map (\<lambda>k. (k, map snd (filter (\<lambda>kv. fst kv = k) kvs))) (sorted_set (map fst kvs))"
proof -
  let ?d = "sort_key fst (group_pairs kvs)"
  have d: "distinct (map fst ?d)"
    using distinct_group_pairs [of kvs]
    by (metis mset_map mset_sort mset_eq_imp_distinct_iff)
  have keys: "set (map fst ?d) = fst ` set kvs"
  proof -
    have "k \<in> fst ` set (group_pairs kvs) \<longleftrightarrow> k \<in> fst ` set kvs" for k
      using map_of_group_pairs [of kvs k] map_of_eq_None_iff [of "group_pairs kvs" k] by (auto split: if_splits)
    then show ?thesis by auto
  qed
  have "sorted (map fst ?d)" by simp
  then have "map fst ?d = sorted_set (map fst kvs)"
    using d keys by (intro sorted_distinct_set_unique) (auto simp: sorted_set_def)
  moreover have "map_of ?d = map_of (group_pairs kvs)"
    using distinct_group_pairs d by (intro map_of_inject_set [THEN iffD2]) simp_all
  ultimately have "?d = map (\<lambda>k. (k, the (map_of (group_pairs kvs) k))) (sorted_set (map fst kvs))"
    using map_of_eq_map_keys [OF d] by simp
  also have "\<dots> = map (\<lambda>k. (k, map snd (filter (\<lambda>kv. fst kv = k) kvs))) (sorted_set (map fst kvs))"
    by (rule map_cong) (auto simp: map_of_group_pairs)
  finally show ?thesis .
qed

end
