(* ===== verification/Py_Datetime.thy ===== *)
theory Py_Datetime
  imports Prelude
begin

text \<open>
  The part of Python's \<^verbatim>\<open>datetime\<close> module that the program uses. A \<open>datetime\<close> value carries
  its wall-clock reading, in microseconds since 0001-01-01T00:00, and its UTC offset (\<open>None\<close>
  for a naive value). Values that were checked or converted to UTC are plain \<open>int\<close> instants, so
  that comparison and \<^verbatim>\<open>timedelta\<close> arithmetic are those of \<open>int\<close>; the calendar fields
  (\<^verbatim>\<open>year\<close>, \<^verbatim>\<open>month\<close>, \<dots>, \<^verbatim>\<open>weekday()\<close>) are functions of the instant and
  \<^verbatim>\<open>replace(...)\<close> is \<open>dt_combine\<close> of the fields. The proleptic Gregorian calendar is
  written out; the overflow at year 10000 is not modelled.
\<close>

section \<open>Aware and naive values\<close>

record datetime =
  wall :: int
  utcoffset :: "int option"

definition instant :: "datetime \<Rightarrow> int" where
  "instant d = wall d - (case utcoffset d of None \<Rightarrow> 0 | Some off \<Rightarrow> off)"

definition is_aware :: "datetime \<Rightarrow> bool" where
  "is_aware d \<longleftrightarrow> utcoffset d \<noteq> None"

definition is_utc :: "datetime \<Rightarrow> bool" where
  "is_utc d \<longleftrightarrow> utcoffset d = Some 0"

definition utc :: "int \<Rightarrow> datetime" where
  "utc t = \<lparr>wall = t, utcoffset = Some 0\<rparr>"

lemma instant_utc [simp]: "instant (utc t) = t"
  by (simp add: instant_def utc_def)

lemma is_utc_utc [simp]: "is_utc (utc t)" "is_aware (utc t)"
  by (simp_all add: is_utc_def is_aware_def utc_def)

lemma is_utc_iff: "is_utc d \<longleftrightarrow> d = utc (instant d)"
  by (cases d) (auto simp: is_utc_def utc_def instant_def)

section \<open>The proleptic Gregorian calendar\<close>

definition is_leap :: "int \<Rightarrow> bool" where
  "is_leap y \<longleftrightarrow> 4 dvd y \<and> (\<not> 100 dvd y \<or> 400 dvd y)"

definition days_in_month :: "int \<Rightarrow> int \<Rightarrow> int" where
  "days_in_month y m =
     (if m = 2 then (if is_leap y then 29 else 28)
      else if m = 4 \<or> m = 6 \<or> m = 9 \<or> m = 11 then 30 else 31)"

definition days_before_year :: "int \<Rightarrow> int" where
  "days_before_year y = (y - 1) * 365 + (y - 1) div 4 - (y - 1) div 100 + (y - 1) div 400"

definition days_before_month :: "int \<Rightarrow> int \<Rightarrow> int" where
  "days_before_month y m = sum_list (map (days_in_month y) [1..m - 1])"

definition ymd2ord :: "int \<Rightarrow> int \<Rightarrow> int \<Rightarrow> int" where
  "ymd2ord y m d = days_before_year y + days_before_month y m + d"

lemma div_pred_step: "0 < k \<Longrightarrow> y div k = (y - 1) div k + (if k dvd y then 1 else 0)" for y k :: int
proof (cases "k dvd y")
  case True
  assume k: "0 < k"
  from True obtain q where q: "y = k * q" by blast
  have "(y - 1) div k = q - 1"
    using k q by (intro int_div_pos_eq [where r = "k - 1"]) (auto simp: algebra_simps)
  with q k True show ?thesis by simp
next
  case False
  assume k: "0 < k"
  have "0 < y mod k" "y mod k < k"
    using False k pos_mod_sign [of k y] pos_mod_bound [of k y]
    by (auto simp: dvd_eq_mod_eq_0 order_less_le)
  then have "(y - 1) div k = y div k"
    by (intro int_div_pos_eq [where r = "y mod k - 1"]) (auto simp: algebra_simps)
  with False show ?thesis by simp
qed

lemma days_before_year_step:
  "days_before_year (y + 1) = days_before_year y + (if is_leap y then 366 else 365)"
proof -
  have d: "400 dvd y \<longrightarrow> 100 dvd y" "100 dvd y \<longrightarrow> 4 dvd y"
    using dvd_trans [of 100 400 y] dvd_trans [of 4 100 y] by simp_all
  have tally: "365 + (if P then 1 else 0) - (if Q then 1 else 0) + (if R then 1 else 0) =
      (if P \<and> (\<not> Q \<or> R) then 366 else 365 :: int)" if "R \<longrightarrow> Q" "Q \<longrightarrow> P" for P Q R
    using that by (cases P; cases Q; cases R) simp_all
  have arrange: "a' = a + p \<Longrightarrow> b' = b + q \<Longrightarrow> c' = c + r \<Longrightarrow>
      y * 365 + a' - b' + c' = (y - 1) * 365 + a - b + c + (365 + p - q + r)"
    for a b c p q r a' b' c' :: int
    by (simp add: algebra_simps)
  have step4: "y div 4 = (y - 1) div 4 + (if 4 dvd y then 1 else 0)"
    and step100: "y div 100 = (y - 1) div 100 + (if 100 dvd y then 1 else 0)"
    and step400: "y div 400 = (y - 1) div 400 + (if 400 dvd y then 1 else 0)"
    by (rule div_pred_step, simp)+
  have "days_before_year (y + 1) = y * 365 + y div 4 - y div 100 + y div 400"
    by (simp add: days_before_year_def)
  also have "\<dots> = days_before_year y + (365 +
      (if 4 dvd y then 1 else 0) - (if 100 dvd y then 1 else 0) + (if 400 dvd y then 1 else 0))"
    unfolding days_before_year_def by (rule arrange [OF step4 step100 step400])
  also have "365 + (if 4 dvd y then 1 else 0) - (if 100 dvd y then 1 else 0) +
      (if 400 dvd y then 1 else 0) = (if is_leap y then 366 else 365 :: int)"
    unfolding is_leap_def by (rule tally [OF d])
  finally show ?thesis .
qed

lemma days_before_year_less: "days_before_year y + 365 \<le> days_before_year (y + 1)"
  by (simp add: days_before_year_step)

lemma days_before_year_mono: "y \<le> z \<Longrightarrow> days_before_year y \<le> days_before_year z"
proof (induction z rule: int_ge_induct)
  case (step i)
  then show ?case using days_before_year_less [of i] by simp
qed simp

lemma days_before_month_step:
  "1 \<le> m \<Longrightarrow> days_before_month y (m + 1) = days_before_month y m + days_in_month y m"
  by (simp add: days_before_month_def upto_rec2 [of 1 m])

lemma days_in_month_pos: "28 \<le> days_in_month y m" "days_in_month y m \<le> 31"
  by (simp_all add: days_in_month_def)

lemma days_before_month_1 [simp]: "days_before_month y 1 = 0"
  by (simp add: days_before_month_def)

lemma days_before_month_13: "days_before_month y 13 = (if is_leap y then 366 else 365)"
  by (simp add: days_before_month_def days_in_month_def upto_rec1)

lemma days_before_month_mono:
  assumes "1 \<le> m" and "m \<le> k"
  shows "days_before_month y m \<le> days_before_month y k"
  using assms(2)
proof (induction k rule: int_ge_induct)
  case (step i)
  then show ?case
    using days_before_month_step [of i y] days_in_month_pos(1) [of y i] assms(1) by simp
qed simp

text \<open>The year and the month of a day number: linear searches from a lower bound.\<close>

function year_search :: "int \<Rightarrow> int \<Rightarrow> int" where
  "year_search n y = (if days_before_year (y + 1) < n then year_search n (y + 1) else y)"
  by pat_completeness auto
termination
  by (relation "measure (\<lambda>(n, y). nat (n - days_before_year y))")
     (auto simp: days_before_year_step zless_nat_conj split: if_splits)

function month_search :: "int \<Rightarrow> int \<Rightarrow> int \<Rightarrow> int" where
  "month_search y r m =
     (if m < 12 \<and> days_before_month y (m + 1) < r then month_search y r (m + 1) else m)"
  by pat_completeness auto
termination
  by (relation "measure (\<lambda>(y, r, m). nat (12 - m))") auto

declare year_search.simps [simp del] month_search.simps [simp del]

definition ord_year :: "int \<Rightarrow> int" where
  "ord_year n = year_search n ((n - 1) div 366 + 1)"

definition ord_month :: "int \<Rightarrow> int" where
  "ord_month n = month_search (ord_year n) (n - days_before_year (ord_year n)) 1"

definition ord_day :: "int \<Rightarrow> int" where
  "ord_day n =
     n - days_before_year (ord_year n) - days_before_month (ord_year n) (ord_month n)"

lemma year_search_bounds:
  "days_before_year y < n \<Longrightarrow> y \<le> year_search n y \<and>
     days_before_year (year_search n y) < n \<and> n \<le> days_before_year (year_search n y + 1)"
proof (induction n y rule: year_search.induct)
  case (1 n y)
  then show ?case
    by (cases "days_before_year (y + 1) < n") (auto simp: year_search.simps [of n y])
qed

lemma month_search_bounds:
  "1 \<le> m \<Longrightarrow> m \<le> 12 \<Longrightarrow> days_before_month y m < r \<Longrightarrow> r \<le> days_before_month y 13 \<Longrightarrow>
     m \<le> month_search y r m \<and> month_search y r m \<le> 12 \<and>
     days_before_month y (month_search y r m) < r \<and>
     r \<le> days_before_month y (month_search y r m + 1)"
proof (induction y r m rule: month_search.induct)
  case (1 y r m)
  show ?case
  proof (cases "m < 12 \<and> days_before_month y (m + 1) < r")
    case True
    then show ?thesis using "1.IH" "1.prems" by (simp add: month_search.simps [of y r m])
  next
    case False
    then show ?thesis using "1.prems"
      by (cases "m = 12") (simp_all add: month_search.simps [of y r m] month_search.simps [of y r 12])
  qed
qed

lemma days_before_year_upper: "1 \<le> y \<Longrightarrow> days_before_year y \<le> (y - 1) * 366"
proof (induction y rule: int_ge_induct)
  case (step i)
  then show ?case by (auto simp: days_before_year_step)
qed (simp add: days_before_year_def)

lemma ord_year_bounds:
  assumes "1 \<le> n"
  shows "1 \<le> ord_year n" "days_before_year (ord_year n) < n" "n \<le> days_before_year (ord_year n + 1)"
proof -
  let ?y = "(n - 1) div 366 + 1"
  have y: "1 \<le> ?y" using assms by (simp add: pos_imp_zdiv_nonneg_iff)
  have "days_before_year ?y \<le> (n - 1) div 366 * 366"
    using days_before_year_upper [OF y] by simp
  also have "\<dots> < n"
    using pos_mod_sign [of 366 "n - 1"] div_mult_mod_eq [of "n - 1" 366] by linarith
  finally have "days_before_year ?y < n" .
  from year_search_bounds [OF this] y
  show "1 \<le> ord_year n" "days_before_year (ord_year n) < n" "n \<le> days_before_year (ord_year n + 1)"
    by (auto simp: ord_year_def)
qed

lemma ord_month_bounds:
  assumes "1 \<le> n"
  shows "1 \<le> ord_month n" "ord_month n \<le> 12" "1 \<le> ord_day n"
    "ord_day n \<le> days_in_month (ord_year n) (ord_month n)"
proof -
  let ?y = "ord_year n" and ?r = "n - days_before_year (ord_year n)"
  have "1 \<le> ord_month n \<and> ord_month n \<le> 12 \<and> days_before_month ?y (ord_month n) < ?r \<and>
      ?r \<le> days_before_month ?y (ord_month n + 1)"
    unfolding ord_month_def
    using ord_year_bounds [OF assms]
    by (intro month_search_bounds) (auto simp: days_before_month_13 days_before_year_step split: if_splits)
  then show "1 \<le> ord_month n" "ord_month n \<le> 12" "1 \<le> ord_day n"
    "ord_day n \<le> days_in_month (ord_year n) (ord_month n)"
    using days_before_month_step [of "ord_month n" ?y] by (auto simp: ord_day_def)
qed

lemma ymd2ord_fields: "ymd2ord (ord_year n) (ord_month n) (ord_day n) = n"
  by (simp add: ymd2ord_def ord_day_def)

lemma calendar_unique:
  assumes "1 \<le> n" and m: "1 \<le> m" "m \<le> 12" and d: "1 \<le> d" "d \<le> days_in_month y m"
    and n: "n = ymd2ord y m d"
  shows "ord_year n = y \<and> ord_month n = m \<and> ord_day n = d"
proof -
  note year = ord_year_bounds [OF assms(1)] and month = ord_month_bounds [OF assms(1)]
  have "0 \<le> days_before_month y m" using days_before_month_mono [of 1 m y] m by simp
  moreover have "days_before_month y m + d \<le> days_before_month y 13"
    using days_before_month_mono [of "m + 1" 13 y] days_before_month_step [of m y] m d by simp
  ultimately have in_year: "days_before_year y < n" "n \<le> days_before_year (y + 1)"
    using n d by (auto simp: ymd2ord_def days_before_year_step days_before_month_13)
  have y: "ord_year n = y"
    using in_year year days_before_year_mono [of "y + 1" "ord_year n"]
      days_before_year_mono [of "ord_year n + 1" y] by linarith
  let ?k = "ord_month n"
  have r: "days_before_month y m + d = days_before_month y ?k + ord_day n"
    using n y by (simp add: ymd2ord_def ord_day_def)
  have "\<not> m < ?k"
    using days_before_month_mono [of "m + 1" ?k y] days_before_month_step [of m y] month m d r by auto
  moreover have "\<not> ?k < m"
    using days_before_month_mono [of "?k + 1" m y] days_before_month_step [of ?k y] month m d r y by auto
  ultimately have "?k = m" by simp
  with r y show ?thesis by simp
qed

section \<open>Instants and their fields\<close>

definition second_us :: int where "second_us = 1000000"

definition minute_us :: int where "minute_us = 60 * second_us"

definition hour_us :: int where "hour_us = 60 * minute_us"

definition day_us :: int where "day_us = 24 * hour_us"

definition toordinal :: "int \<Rightarrow> int" where "toordinal t = t div day_us + 1"

definition dt_year :: "int \<Rightarrow> int" where "dt_year t = ord_year (toordinal t)"

definition dt_month :: "int \<Rightarrow> int" where "dt_month t = ord_month (toordinal t)"

definition dt_day :: "int \<Rightarrow> int" where "dt_day t = ord_day (toordinal t)"

definition dt_hour :: "int \<Rightarrow> int" where "dt_hour t = t div hour_us mod 24"

definition dt_minute :: "int \<Rightarrow> int" where "dt_minute t = t div minute_us mod 60"

definition dt_second :: "int \<Rightarrow> int" where "dt_second t = t div second_us mod 60"

definition dt_microsecond :: "int \<Rightarrow> int" where "dt_microsecond t = t mod second_us"

definition dt_weekday :: "int \<Rightarrow> int" where "dt_weekday t = (toordinal t + 6) mod 7"

definition dt_combine :: "int \<Rightarrow> int \<Rightarrow> int \<Rightarrow> int \<Rightarrow> int \<Rightarrow> int \<Rightarrow> int \<Rightarrow> int" where
  "dt_combine y mo d h mi s us =
     (ymd2ord y mo d - 1) * day_us + h * hour_us + mi * minute_us + s * second_us + us"

lemma us_pos [simp]: "0 < second_us" "0 < minute_us" "0 < hour_us" "0 < day_us"
  by (simp_all add: second_us_def minute_us_def hour_us_def day_us_def)

lemma day_us_nonneg [simp]: "0 \<le> day_us" "day_us \<noteq> 0"
  by (simp_all add: second_us_def minute_us_def hour_us_def day_us_def)

lemma mod_tower: "0 \<le> k \<Longrightarrow> t mod (w * k) = (t div w mod k) * w + t mod w" for t w k :: int
  by (subst zmod_zmult2_eq) (simp_all add: mult.commute)

lemma mod_minute_us: "t mod minute_us = dt_second t * second_us + dt_microsecond t"
  using mod_tower [of 60 t second_us]
  by (simp add: minute_us_def dt_second_def dt_microsecond_def mult.commute)

lemma mod_hour_us: "t mod hour_us = dt_minute t * minute_us + t mod minute_us"
  using mod_tower [of 60 t minute_us] by (simp add: hour_us_def dt_minute_def mult.commute)

lemma mod_day_us: "t mod day_us = dt_hour t * hour_us + t mod hour_us"
  using mod_tower [of 24 t hour_us] by (simp add: day_us_def dt_hour_def mult.commute)

lemma dt_date_part: "(ymd2ord (dt_year t) (dt_month t) (dt_day t) - 1) * day_us = t - t mod day_us"
  by (simp add: dt_year_def dt_month_def dt_day_def ymd2ord_fields toordinal_def
      minus_mod_eq_div_mult)

lemma dt_combine_fields:
  "dt_combine (dt_year t) (dt_month t) (dt_day t) (dt_hour t) (dt_minute t) (dt_second t)
     (dt_microsecond t) = t"
  by (simp add: dt_combine_def dt_date_part mod_day_us mod_hour_us mod_minute_us)

subsection \<open>Regular grids\<close>

text \<open>Truncating the clock fields is rounding down to a multiple of a fixed width.\<close>

definition grid_start :: "int \<Rightarrow> int \<Rightarrow> int" where
  "grid_start w t = t - t mod w"

lemma mod_multiple: "0 \<le> k \<Longrightarrow> t mod (k * w) = (t div w mod k) * w + t mod w" for t w k :: int
  using mod_tower [of k t w] by (simp add: mult.commute)

lemma combine_minute_grid:
  assumes "0 < k" and "k dvd 60"
  shows "dt_combine (dt_year t) (dt_month t) (dt_day t) (dt_hour t)
      (dt_minute t - dt_minute t mod k) 0 0 = grid_start (k * minute_us) t"
proof -
  have "dt_minute t mod k = t div minute_us mod k"
    using assms(2) by (simp add: dt_minute_def mod_mod_cancel)
  then have "t mod (k * minute_us) = dt_minute t mod k * minute_us + t mod minute_us"
    using mod_multiple [of k t minute_us] assms(1) by simp
  then show ?thesis
    unfolding dt_combine_def dt_date_part grid_start_def mod_day_us mod_hour_us
    by (simp add: left_diff_distrib)
qed

lemma combine_hour_grid:
  assumes "0 < k" and "k dvd 24"
  shows "dt_combine (dt_year t) (dt_month t) (dt_day t) (dt_hour t - dt_hour t mod k) 0 0 0 =
    grid_start (k * hour_us) t"
proof -
  have "dt_hour t mod k = t div hour_us mod k"
    using assms(2) by (simp add: dt_hour_def mod_mod_cancel)
  then have "t mod (k * hour_us) = dt_hour t mod k * hour_us + t mod hour_us"
    using mod_multiple [of k t hour_us] assms(1) by simp
  then show ?thesis
    unfolding dt_combine_def dt_date_part grid_start_def mod_day_us by (simp add: left_diff_distrib)
qed

lemma combine_day_grid:
  "dt_combine (dt_year t) (dt_month t) (dt_day t) 0 0 0 0 = grid_start day_us t"
  by (simp add: dt_combine_def dt_date_part grid_start_def)

lemma dt_weekday_eq: "dt_weekday t = t div day_us mod 7"
proof -
  have "toordinal t + 6 = t div day_us + 7" by (simp add: toordinal_def)
  then show ?thesis by (simp add: dt_weekday_def)
qed

lemma week_grid:
  "grid_start day_us (t - dt_weekday t * day_us) = grid_start (7 * day_us) t"
proof -
  have "(t - dt_weekday t * day_us) mod day_us = t mod day_us"
    by (simp add: mod_diff_eq [symmetric])
  then show ?thesis
    using mod_multiple [of 7 t day_us] by (simp add: grid_start_def dt_weekday_eq)
qed

lemma grid_start_bounds:
  "0 < w \<Longrightarrow> grid_start w t \<le> t \<and> t < grid_start w t + w"
  using pos_mod_bound [of w t] pos_mod_sign [of w t] by (simp add: grid_start_def)

lemma grid_start_eq_self_iff: "grid_start w t = t \<longleftrightarrow> w dvd t"
  by (auto simp: grid_start_def dvd_eq_mod_eq_0)

lemma grid_start_dvd: "w dvd grid_start w t"
  by (simp add: grid_start_def dvd_minus_mod)

lemma grid_start_unique:
  assumes "0 < w" and "w dvd b" and "b \<le> t" and "t < b + w"
  shows "grid_start w t = b"
proof -
  obtain q where "b = w * q" using assms(2) by blast
  moreover have "t mod w = t - b"
    using assms \<open>b = w * q\<close> by (intro int_mod_pos_eq [where q = q]) auto
  ultimately show ?thesis by (simp add: grid_start_def)
qed

subsection \<open>Months\<close>

definition month_start :: "int \<Rightarrow> int" where
  "month_start t = dt_combine (dt_year t) (dt_month t) 1 0 0 0 0"

definition month_next :: "int \<Rightarrow> int" where
  "month_next t =
     (if dt_month t = 12 then dt_combine (dt_year t + 1) 1 1 0 0 0 0
      else dt_combine (dt_year t) (dt_month t + 1) 1 0 0 0 0)"

lemma dt_combine_midnight: "dt_combine y m d 0 0 0 0 = (ymd2ord y m d - 1) * day_us"
  by (simp add: dt_combine_def)

lemma toordinal_midnight: "toordinal ((n - 1) * day_us) = n"
  by (simp add: toordinal_def)

lemma toordinal_pos: "0 \<le> t \<Longrightarrow> 1 \<le> toordinal t"
  by (simp add: toordinal_def pos_imp_zdiv_nonneg_iff)

lemma ymd2ord_next_month:
  assumes "1 \<le> m" "m \<le> 12"
  shows "(if m = 12 then ymd2ord (y + 1) 1 1 else ymd2ord y (m + 1) 1) = ymd2ord y m 1 + days_in_month y m"
  using assms days_before_month_step [of m y]
  by (auto simp: ymd2ord_def days_before_year_step days_before_month_13)

lemma month_next_eq:
  assumes "0 \<le> t"
  shows "month_next t = month_start t + days_in_month (dt_year t) (dt_month t) * day_us"
proof -
  have "month_next t = ((if dt_month t = 12 then ymd2ord (dt_year t + 1) 1 1
      else ymd2ord (dt_year t) (dt_month t + 1) 1) - 1) * day_us"
    by (simp add: month_next_def dt_combine_midnight)
  also have "\<dots> = (ymd2ord (dt_year t) (dt_month t) 1 + days_in_month (dt_year t) (dt_month t) - 1) * day_us"
    using ord_month_bounds [OF toordinal_pos [OF assms]]
    by (subst ymd2ord_next_month) (simp_all add: dt_month_def)
  finally show ?thesis
    by (simp add: month_start_def dt_combine_midnight algebra_simps)
qed

lemma month_start_eq: "month_start t = (toordinal t - dt_day t) * day_us"
proof -
  have "ymd2ord (dt_year t) (dt_month t) 1 - 1 = toordinal t - dt_day t"
    using ymd2ord_fields [of "toordinal t"]
    by (simp add: ymd2ord_def dt_year_def dt_month_def dt_day_def)
  then show ?thesis by (simp add: month_start_def dt_combine_midnight)
qed

lemma day_bounds: "(toordinal t - 1) * day_us \<le> t" "t < toordinal t * day_us"
  using grid_start_bounds [of day_us t]
  by (simp_all add: toordinal_def grid_start_def minus_mod_eq_div_mult algebra_simps)

lemma month_bounds:
  assumes "0 \<le> t"
  shows "month_start t \<le> t" "t < month_next t" "0 \<le> month_start t"
proof -
  let ?n = "toordinal t"
  note d = ord_month_bounds(3,4) [OF toordinal_pos [OF assms]]
  have "(?n - dt_day t) * day_us \<le> (?n - 1) * day_us"
    using d by (intro mult_right_mono) (auto simp: dt_day_def)
  then show "month_start t \<le> t" using day_bounds(1) [of t] unfolding month_start_eq by linarith
  have "?n * day_us \<le> (?n - dt_day t + days_in_month (dt_year t) (dt_month t)) * day_us"
    using d by (intro mult_right_mono) (auto simp: dt_day_def dt_year_def dt_month_def)
  then show "t < month_next t"
    using day_bounds(2) [of t]
    unfolding month_next_eq [OF assms] month_start_eq distrib_right by linarith
  have "1 \<le> ymd2ord (dt_year t) (dt_month t) 1"
    using days_before_year_mono [of 1 "dt_year t"] days_before_month_mono [of 1 "dt_month t" "dt_year t"]
      ord_year_bounds(1) [OF toordinal_pos [OF assms]] ord_month_bounds(1) [OF toordinal_pos [OF assms]]
    by (simp add: ymd2ord_def dt_year_def dt_month_def days_before_year_def [of 1])
  then show "0 \<le> month_start t"
    by (simp add: month_start_def dt_combine_midnight)
qed

text \<open>Every instant of a month has the same year and month, hence the same month start.\<close>

lemma same_month:
  assumes "0 \<le> b" and "month_start b = b" and "b \<le> t" and "t < month_next b"
  shows "dt_year t = dt_year b" "dt_month t = dt_month b" "month_start t = b"
proof -
  let ?y = "dt_year b" and ?m = "dt_month b"
  note m = ord_month_bounds(1,2) [OF toordinal_pos [OF assms(1)]]
  have b: "b = (ymd2ord ?y ?m 1 - 1) * day_us"
    using assms(2) by (simp add: month_start_def dt_combine_midnight)
  define d where "d = toordinal t - (ymd2ord ?y ?m 1 - 1)"
  have "t < (ymd2ord ?y ?m 1 - 1 + days_in_month ?y ?m) * day_us"
    using assms(4) month_next_eq [OF assms(1)] assms(2) b by (simp add: algebra_simps)
  then have "(toordinal t - 1) * day_us < (ymd2ord ?y ?m 1 - 1 + days_in_month ?y ?m) * day_us"
    using day_bounds(1) [of t] by linarith
  then have d_le: "d \<le> days_in_month ?y ?m"
    by (auto simp: d_def mult_less_cancel_right dest: less_imp_le)
  have "(ymd2ord ?y ?m 1 - 1) * day_us < toordinal t * day_us"
    using day_bounds(2) [of t] assms(3) b by linarith
  then have d_ge: "1 \<le> d"
    by (auto simp: d_def mult_less_cancel_right dest: less_imp_le)
  have "ord_year (toordinal t) = ?y \<and> ord_month (toordinal t) = ?m \<and> ord_day (toordinal t) = d"
    using toordinal_pos [of t] assms(1,3) m d_ge d_le
    by (intro calendar_unique) (auto simp: d_def ymd2ord_def dt_month_def)
  then show "dt_year t = ?y" "dt_month t = ?m" "month_start t = b"
    using b by (auto simp: dt_year_def dt_month_def month_start_def dt_combine_midnight)
qed

lemma midnight_fields:
  assumes "1 \<le> y" "1 \<le> m" "m \<le> 12" "1 \<le> d" "d \<le> days_in_month y m"
  shows "dt_year (dt_combine y m d 0 0 0 0) = y" "dt_month (dt_combine y m d 0 0 0 0) = m"
    "dt_day (dt_combine y m d 0 0 0 0) = d"
proof -
  have "0 \<le> days_before_year y" "0 \<le> days_before_month y m"
    using days_before_year_mono [of 1 y] days_before_month_mono [of 1 m y] assms
    by (simp_all add: days_before_year_def [of 1])
  then have "1 \<le> ymd2ord y m d" using assms by (simp add: ymd2ord_def)
  from calendar_unique [OF this assms(2-5) refl]
  show "dt_year (dt_combine y m d 0 0 0 0) = y" "dt_month (dt_combine y m d 0 0 0 0) = m"
    "dt_day (dt_combine y m d 0 0 0 0) = d"
    by (simp_all add: dt_year_def dt_month_def dt_day_def dt_combine_midnight toordinal_midnight)
qed

lemma month_start_midnight:
  "1 \<le> y \<Longrightarrow> 1 \<le> m \<Longrightarrow> m \<le> 12 \<Longrightarrow>
     month_start (dt_combine y m 1 0 0 0 0) = dt_combine y m 1 0 0 0 0"
  using midnight_fields [of y m 1] days_in_month_pos(1) [of y m] by (simp add: month_start_def)

lemma month_start_idem: "0 \<le> t \<Longrightarrow> month_start (month_start t) = month_start t"
  using month_start_midnight [of "dt_year t" "dt_month t"]
    ord_year_bounds(1) [OF toordinal_pos] ord_month_bounds(1,2) [OF toordinal_pos]
  by (simp add: month_start_def [of t] dt_year_def dt_month_def)

lemma month_start_next: "0 \<le> t \<Longrightarrow> month_start (month_next t) = month_next t"
  using ord_year_bounds(1) [OF toordinal_pos, of t] ord_month_bounds(1,2) [OF toordinal_pos, of t]
  by (auto simp: month_next_def dt_year_def dt_month_def intro!: month_start_midnight)

lemma month_start_fields:
  assumes "0 \<le> t"
  shows "dt_year (month_start t) = dt_year t" "dt_month (month_start t) = dt_month t"
    "dt_day (month_start t) = 1"
proof -
  have "1 \<le> dt_year t" "1 \<le> dt_month t" "dt_month t \<le> 12"
    using ord_year_bounds(1) [OF toordinal_pos [OF assms]] ord_month_bounds(1,2) [OF toordinal_pos [OF assms]]
    by (simp_all add: dt_year_def dt_month_def)
  then show "dt_year (month_start t) = dt_year t" "dt_month (month_start t) = dt_month t"
    "dt_day (month_start t) = 1"
    using midnight_fields [of "dt_year t" "dt_month t" 1]
      days_in_month_pos(1) [of "dt_year t" "dt_month t"]
    by (simp_all add: month_start_def)
qed

lemma month_next_start: "0 \<le> t \<Longrightarrow> month_next (month_start t) = month_next t"
  by (simp add: month_next_def month_start_fields)

end
