(* ===== verification/Py_Decimal.thy ===== *)
theory Py_Decimal
  imports Prelude
begin

text \<open>
  Finite values of Python's \<^verbatim>\<open>decimal.Decimal\<close>: sign, coefficient and exponent, with the
  arithmetic of a context of precision \<open>p\<close> and rounding \<^verbatim>\<open>ROUND_HALF_EVEN\<close>, following the
  specification the standard library implements (the result is computed exactly, or with a sticky
  last digit for a quotient, and then cut to \<open>p\<close> digits). NaN, the infinities and the exponent
  limits of a context are outside this type. \<open>rounds_to\<close> is the contract every operation meets
  and the locale \<open>decimal_context\<close> states it once for the clients.
\<close>

section \<open>Representation and value\<close>

datatype dec = Dec (dec_sign: bool) (dec_coeff: nat) (dec_exp: int)

fun dec_val :: "dec \<Rightarrow> rat" where
  "dec_val (Dec s c e) = (if s then -1 else 1) * of_nat c * 10 powi e"

definition dec_of_int :: "int \<Rightarrow> dec" where
  "dec_of_int i = Dec (i < 0) (nat \<bar>i\<bar>) 0"

abbreviation dec_zero :: dec where "dec_zero \<equiv> Dec False 0 0"

definition dec_lt :: "dec \<Rightarrow> dec \<Rightarrow> bool" where "dec_lt a b \<longleftrightarrow> dec_val a < dec_val b"

definition dec_le :: "dec \<Rightarrow> dec \<Rightarrow> bool" where "dec_le a b \<longleftrightarrow> dec_val a \<le> dec_val b"

definition dec_eq :: "dec \<Rightarrow> dec \<Rightarrow> bool" where "dec_eq a b \<longleftrightarrow> dec_val a = dec_val b"

text \<open>\<^verbatim>\<open>min(a, b)\<close> and \<^verbatim>\<open>max(a, b)\<close> return the first argument unless the second is strictly
  better.\<close>

definition dec_min :: "dec \<Rightarrow> dec \<Rightarrow> dec" where "dec_min a b = (if dec_lt b a then b else a)"

definition dec_max :: "dec \<Rightarrow> dec \<Rightarrow> dec" where "dec_max a b = (if dec_lt a b then b else a)"

fun num_digits :: "nat \<Rightarrow> nat" where
  "num_digits n = (if n < 10 then 1 else Suc (num_digits (n div 10)))"

declare num_digits.simps [simp del]

section \<open>Rounding to the precision of a context\<close>

definition half_even_div :: "nat \<Rightarrow> nat \<Rightarrow> nat" where
  "half_even_div c d =
     (let q = c div d; r = c mod d in
      if d < 2 * r \<or> (2 * r = d \<and> odd q) then q + 1 else q)"

fun dec_fix :: "nat \<Rightarrow> dec \<Rightarrow> dec" where
  "dec_fix p (Dec s c e) =
     (if num_digits c \<le> p then Dec s c e
      else let k = num_digits c - p; q = half_even_div c (10 ^ k) in
           if p < num_digits q then Dec s (q div 10) (e + int k + 1) else Dec s q (e + int k))"

section \<open>Arithmetic\<close>

definition dec_signed :: "dec \<Rightarrow> int \<Rightarrow> int" where
  "dec_signed a e = (if dec_sign a then -1 else 1) * int (dec_coeff a) * 10 ^ nat (dec_exp a - e)"

definition dec_add :: "nat \<Rightarrow> dec \<Rightarrow> dec \<Rightarrow> dec" where
  "dec_add p a b =
     (let e = min (dec_exp a) (dec_exp b); i = dec_signed a e + dec_signed b e;
          s = (if i = 0 then dec_coeff a = 0 \<and> dec_coeff b = 0 \<and> dec_sign a \<and> dec_sign b
               else i < 0)
      in dec_fix p (Dec s (nat \<bar>i\<bar>) e))"

definition dec_copy_negate :: "dec \<Rightarrow> dec" where
  "dec_copy_negate a = Dec (\<not> dec_sign a) (dec_coeff a) (dec_exp a)"

definition dec_sub :: "nat \<Rightarrow> dec \<Rightarrow> dec \<Rightarrow> dec" where
  "dec_sub p a b = dec_add p a (dec_copy_negate b)"

definition dec_neg :: "nat \<Rightarrow> dec \<Rightarrow> dec" where
  "dec_neg p a = dec_fix p (if dec_coeff a = 0 then Dec False 0 (dec_exp a) else dec_copy_negate a)"

definition dec_mul :: "nat \<Rightarrow> dec \<Rightarrow> dec \<Rightarrow> dec" where
  "dec_mul p a b =
     dec_fix p (Dec (dec_sign a \<noteq> dec_sign b) (dec_coeff a * dec_coeff b) (dec_exp a + dec_exp b))"

text \<open>An exact quotient drops trailing zeros until the exponent reaches the ideal one.\<close>

function strip_to :: "int \<Rightarrow> nat \<Rightarrow> int \<Rightarrow> nat \<times> int" where
  "strip_to ideal c e =
     (if e < ideal \<and> c mod 10 = 0 then strip_to ideal (c div 10) (e + 1) else (c, e))"
  by pat_completeness auto
termination by (relation "measure (\<lambda>(i, c, e). nat (i - e))") auto

declare strip_to.simps [simp del]

datatype dec_error = DivisionByZero | DivisionUndefined | InvalidOperation

definition quotient_digits :: "nat \<Rightarrow> nat \<Rightarrow> int \<Rightarrow> nat \<times> nat" where
  "quotient_digits a b shift =
     (let n = a * 10 ^ nat shift; d = b * 10 ^ nat (- shift) in (n div d, n mod d))"

definition dec_div :: "nat \<Rightarrow> dec \<Rightarrow> dec \<Rightarrow> dec_error + dec" where
  "dec_div p a b =
     (let s = (dec_sign a \<noteq> dec_sign b); ideal = dec_exp a - dec_exp b in
      if dec_coeff b = 0 then Inl (if dec_coeff a = 0 then DivisionUndefined else DivisionByZero)
      else if dec_coeff a = 0 then Inr (dec_fix p (Dec s 0 ideal))
      else
        let shift = int (num_digits (dec_coeff b)) - int (num_digits (dec_coeff a)) + int p + 1;
            (q, r) = quotient_digits (dec_coeff a) (dec_coeff b) shift;
            e = ideal - shift
        in if r \<noteq> 0 then Inr (dec_fix p (Dec s (if q mod 5 = 0 then q + 1 else q) e))
           else let (c', e') = strip_to ideal q e in Inr (dec_fix p (Dec s c' e')))"

section \<open>The contract of rounding\<close>

definition representable :: "nat \<Rightarrow> rat \<Rightarrow> bool" where
  "representable p y \<longleftrightarrow> (\<exists>s m f. m < 10 ^ p \<and> y = dec_val (Dec s m f))"

text \<open>
  \<open>rounds_to p x r\<close>: \<open>r\<close> never passes a value of \<open>p\<close> digits that \<open>x\<close> does not pass. Exactness on
  representable values, the sign and monotone bounds follow.
\<close>

definition rounds_to :: "nat \<Rightarrow> rat \<Rightarrow> rat \<Rightarrow> bool" where
  "rounds_to p x r \<longleftrightarrow> (\<forall>y. representable p y \<longrightarrow> (x \<le> y \<longrightarrow> r \<le> y) \<and> (y \<le> x \<longrightarrow> y \<le> r))"

lemma num_digits_bounds: "n < 10 ^ num_digits n \<and> (0 < n \<longrightarrow> 10 ^ (num_digits n - 1) \<le> n)"
proof (induction n rule: num_digits.induct)
  case (1 n)
  show ?case
  proof (cases "n < 10")
    case False
    obtain k where k: "num_digits (n div 10) = Suc k"
      by (metis num_digits.simps One_nat_def)
    have "n div 10 < 10 ^ Suc k" "10 ^ k \<le> n div 10"
      using 1 False k by auto
    then show ?thesis using False k by (subst (1 2) num_digits.simps) (auto)
  qed (simp add: num_digits.simps)
qed

lemma num_digits_pos: "0 < num_digits n"
  by (subst num_digits.simps) simp

lemma num_digits_le_iff: "0 < p \<Longrightarrow> num_digits n \<le> p \<longleftrightarrow> n < 10 ^ p"
proof
  assume "num_digits n \<le> p"
  then show "n < 10 ^ p"
    using num_digits_bounds [of n] power_increasing [of "num_digits n" p "10::nat"]
    by (meson less_le_trans one_le_numeral)
next
  assume p: "0 < p" and n: "n < 10 ^ p"
  show "num_digits n \<le> p"
  proof (rule ccontr)
    assume "\<not> num_digits n \<le> p"
    then have "10 ^ p \<le> (10::nat) ^ (num_digits n - 1)" by (intro power_increasing) auto
    moreover have "0 < n" using \<open>\<not> num_digits n \<le> p\<close> p by (cases n) (auto simp: num_digits.simps)
    ultimately show False using num_digits_bounds [of n] n by (meson le_trans not_le)
  qed
qed

lemma powi10_pos [simp]: "0 < (10::rat) powi e"
  by simp

lemma powi10_add: "(10::rat) powi (e + int k) = 10 ^ k * 10 powi e"
  by (simp add: power_int_add)

lemma powi10_split: "e \<le> f \<Longrightarrow> (10::rat) powi f = 10 ^ nat (f - e) * 10 powi e"
  using powi10_add [of e "nat (f - e)"] by simp

lemma powi10_le: "e \<le> f \<Longrightarrow> (10::rat) powi e \<le> 10 powi f"
  by (intro power_int_increasing) auto

lemma representable_gap:
  assumes p: "0 < p" and q: "10 ^ (p - 1) \<le> q" and y: "representable p y"
    and less: "of_nat q * 10 powi g < y"
  shows "of_nat (q + 1) * 10 powi g \<le> y"
proof -
  obtain s m f where m: "m < 10 ^ p" and y_eq: "y = dec_val (Dec s m f)"
    using y by (auto simp: representable_def)
  have nonneg: "0 \<le> of_nat q * (10::rat) powi g" "0 \<le> of_nat m * (10::rat) powi f" by auto
  have "\<not> s"
  proof
    assume s
    then have "y = - (of_nat m * 10 powi f)" using y_eq by simp
    then show False using less nonneg by linarith
  qed
  then have pos: "y = of_nat m * 10 powi f" using y_eq by simp
  have "g \<le> f"
  proof (rule ccontr)
    assume "\<not> g \<le> f"
    then have "(10::rat) powi g = 10 ^ nat (g - f) * 10 powi f" by (intro powi10_split) simp
    moreover have "(10::nat) ^ p = 10 ^ (p - 1) * 10" using p by (metis power_minus_mult)
    then have "(10::nat) ^ p \<le> q * 10 ^ nat (g - f)"
      using mult_le_mono [OF q self_le_power, of "10" "nat (g - f)"] \<open>\<not> g \<le> f\<close> by simp
    then have "(of_nat (10 ^ p) :: rat) * 10 powi f \<le> of_nat (q * 10 ^ nat (g - f)) * 10 powi f"
      by (intro mult_right_mono) (simp_all only: of_nat_le_iff, simp)
    ultimately have "of_nat (10 ^ p) * 10 powi f \<le> (of_nat q * 10 powi g :: rat)"
      by (simp add: mult.assoc)
    moreover have "of_nat m * (10::rat) powi f < of_nat (10 ^ p) * 10 powi f"
      using m by (intro mult_strict_right_mono) (auto simp del: of_nat_power)
    ultimately show False using less pos by linarith
  qed
  then have f: "(10::rat) powi f = of_nat (10 ^ nat (f - g)) * 10 powi g"
    by (simp add: powi10_split)
  then have "of_nat q < (of_nat (m * 10 ^ nat (f - g)) :: rat)"
    using less pos by (simp del: of_nat_power flip: mult.assoc)
  then have "q + 1 \<le> m * 10 ^ nat (f - g)" by (simp del: of_nat_power of_nat_mult)
  then have "(of_nat (q + 1) :: rat) \<le> of_nat (m * 10 ^ nat (f - g))" by (simp only: of_nat_le_iff)
  then show ?thesis
    using f pos by (metis (no_types, opaque_lifting) mult.assoc mult_right_mono of_nat_mult
        less_imp_le powi10_pos)
qed

text \<open>Choosing either end of a gap between neighbouring values is a rounding.\<close>

lemma rounds_to_gap:
  assumes "0 < p" "10 ^ (p - 1) \<le> q"
    and "of_nat q * 10 powi g \<le> x" "x \<le> of_nat (q + 1) * 10 powi g"
    and "r = of_nat q * 10 powi g \<and> x \<noteq> of_nat (q + 1) * 10 powi g \<or>
         r = of_nat (q + 1) * 10 powi g \<and> x \<noteq> of_nat q * 10 powi g"
  shows "rounds_to p x r"
  unfolding rounds_to_def
proof (intro allI impI)
  fix y assume "representable p y"
  then have gap: "of_nat q * 10 powi g < y \<longrightarrow> of_nat (q + 1) * 10 powi g \<le> y"
    using representable_gap assms(1,2) by blast
  show "(x \<le> y \<longrightarrow> r \<le> y) \<and> (y \<le> x \<longrightarrow> y \<le> r)"
    using assms(3-5) gap by linarith
qed

lemma rounds_to_refl [simp]: "rounds_to p x x"
  by (simp add: rounds_to_def)

lemma representable_mono: "p \<le> p' \<Longrightarrow> representable p y \<Longrightarrow> representable p' y"
  unfolding representable_def
  using less_le_trans [OF _ power_increasing [of p p' "10::nat"]] by fastforce

lemma rounds_to_trans: "rounds_to p' x z \<Longrightarrow> p \<le> p' \<Longrightarrow> rounds_to p z r \<Longrightarrow> rounds_to p x r"
  unfolding rounds_to_def using representable_mono by blast

lemma representable_uminus: "representable p y \<Longrightarrow> representable p (- y)"
  unfolding representable_def
proof (elim exE conjE)
  fix s m f assume "m < 10 ^ p" "y = dec_val (Dec s m f)"
  then show "\<exists>s m f. m < 10 ^ p \<and> - y = dec_val (Dec s m f)"
    by (intro exI [of _ "\<not> s"] exI [of _ m] exI [of _ f]) auto
qed

lemma rounds_to_uminus: "rounds_to p x r \<Longrightarrow> rounds_to p (- x) (- r)"
  unfolding rounds_to_def
  by (metis minus_le_iff le_minus_iff representable_uminus)

lemma rounds_to_signed:
  "rounds_to p x r \<Longrightarrow> rounds_to p ((if s then -1 else 1) * x) ((if s then -1 else 1) * r)"
  using rounds_to_uminus by simp

lemma dec_fix_sign: "dec_sign (dec_fix p a) = dec_sign a"
  by (cases a) (simp add: Let_def)

lemma half_even_div_cases:
  "0 < d \<Longrightarrow> half_even_div c d = c div d \<or> half_even_div c d = c div d + 1 \<and> c mod d \<noteq> 0"
  by (auto simp: half_even_div_def Let_def)

lemma half_even_div_rounds:
  assumes p: "0 < p" and n: "num_digits c = p + k" "0 < k"
  shows "rounds_to p (of_nat c * 10 powi e) (of_nat (half_even_div c (10 ^ k)) * 10 powi (e + int k))"
proof -
  define q where "q = c div 10 ^ k"
  have c: "c = q * 10 ^ k + c mod 10 ^ k" by (metis q_def div_mult_mod_eq)
  have "c mod 10 ^ k < 10 ^ k" by simp
  moreover have "10 ^ (p + k - 1) \<le> c" "0 < c"
    using num_digits_bounds [of c] n p by (auto intro: gr0I simp: num_digits.simps)
  then have "10 ^ (p - 1) \<le> q"
    unfolding q_def using p
    by (metis add.commute add_diff_assoc2 div_le_mono less_numeral_extra(3) nonzero_mult_div_cancel_left
        power_add power_not_zero zero_neq_numeral Suc_leI One_nat_def Nat.add_diff_assoc)
  moreover have x: "(of_nat c :: rat) * 10 powi e =
      of_nat q * 10 powi (e + int k) + of_nat (c mod 10 ^ k) * 10 powi e"
    by (subst c) (simp add: powi10_add algebra_simps)
  moreover have "half_even_div c (10 ^ k) = q \<or> half_even_div c (10 ^ k) = q + 1 \<and> c mod 10 ^ k \<noteq> 0"
    using half_even_div_cases [of "10 ^ k" c] q_def by simp
  moreover have "(of_nat (c mod 10 ^ k) :: rat) * 10 powi e < 10 powi (e + int k)"
    using \<open>c mod 10 ^ k < 10 ^ k\<close> unfolding powi10_add
    by (intro mult_strict_right_mono) (metis of_nat_less_iff of_nat_numeral of_nat_power, simp)
  moreover have "(0::rat) \<le> of_nat (c mod 10 ^ k) * 10 powi e" by simp
  moreover have "c mod 10 ^ k \<noteq> 0 \<longrightarrow> (0::rat) < of_nat (c mod 10 ^ k) * 10 powi e" by simp
  moreover have "(of_nat (q + 1) :: rat) * 10 powi (e + int k) =
      of_nat q * 10 powi (e + int k) + 10 powi (e + int k)"
    by (simp add: algebra_simps)
  ultimately show ?thesis
    using p by (intro rounds_to_gap [where q = q and g = "e + int k"]) (assumption | linarith | auto)+
qed

lemma half_even_div_le:
  assumes "num_digits c = p + k"
  shows "half_even_div c (10 ^ k) \<le> 10 ^ p"
proof -
  have "c < 10 ^ p * 10 ^ k" using num_digits_bounds [of c] assms by (simp add: power_add)
  then have "c div 10 ^ k < 10 ^ p" by (simp add: less_mult_imp_div_less)
  then show ?thesis using half_even_div_cases [of "10 ^ k" c] by auto
qed

lemma dec_fix_rounds:
  assumes p: "0 < p"
  shows "rounds_to p (dec_val a) (dec_val (dec_fix p a))"
proof (cases a)
  case (Dec s c e)
  define k where "k = num_digits c - p"
  define q where "q = half_even_div c (10 ^ k)"
  show ?thesis
  proof (cases "num_digits c \<le> p")
    case False
    then have n: "num_digits c = p + k" "0 < k" by (auto simp: k_def)
    have "dec_val (dec_fix p a) = (if s then -1 else 1) * (of_nat q * 10 powi (e + int k))"
    proof (cases "p < num_digits q")
      case True
      have "q = 10 ^ p"
        using True half_even_div_le [OF n(1)] num_digits_le_iff [OF p, of q] q_def by simp
      then have "q = 10 * (q div 10)" using p by (metis dvd_mult_div_cancel dvd_power)
      then have "(of_nat q :: rat) = 10 * of_nat (q div 10)" by (metis of_nat_mult of_nat_numeral)
      then show ?thesis
        using False True Dec by (simp add: k_def [symmetric] q_def [symmetric] Let_def power_int_add)
    qed (use False Dec in \<open>simp add: k_def [symmetric] q_def [symmetric] Let_def\<close>)
    then show ?thesis
      using rounds_to_signed [OF half_even_div_rounds [OF p n]] Dec q_def by (simp add: mult.assoc)
  qed (use Dec in simp)
qed

lemma dec_val_uminus [simp]: "dec_val (dec_copy_negate a) = - dec_val a"
  by (cases a) (simp add: dec_copy_negate_def)

lemma dec_signed_val:
  "e \<le> dec_exp a \<Longrightarrow> of_int (dec_signed a e) * 10 powi e = dec_val a"
  using powi10_split [of e "dec_exp a"] by (cases a) (simp add: dec_signed_def)

lemma dec_val_of_signed: "dec_val (Dec (i < 0) (nat \<bar>i\<bar>) e) = of_int i * 10 powi e"
  by (cases "i < 0") (simp_all add: of_nat_nat)

lemma dec_add_rounds: 
  assumes "0 < p"
  shows "rounds_to p (dec_val a + dec_val b) (dec_val (dec_add p a b))"
proof -
  define e where "e = min (dec_exp a) (dec_exp b)"
  define i where "i = dec_signed a e + dec_signed b e"
  have sum: "of_int i * 10 powi e = dec_val a + dec_val b"
    using dec_signed_val [of e a] dec_signed_val [of e b] by (simp add: i_def e_def algebra_simps)
  obtain s where s: "dec_add p a b = dec_fix p (Dec s (nat \<bar>i\<bar>) e)" "i \<noteq> 0 \<longrightarrow> s = (i < 0)"
    by (auto simp: dec_add_def Let_def e_def [symmetric] i_def [symmetric] )
  have "dec_val (Dec s (nat \<bar>i\<bar>) e) = of_int i * 10 powi e"
    using s(2) dec_val_of_signed [of i e] by (cases "i = 0") auto
  then show ?thesis using dec_fix_rounds [OF assms] s(1) sum by metis
qed

lemma dec_sub_rounds: "0 < p \<Longrightarrow> rounds_to p (dec_val a - dec_val b) (dec_val (dec_sub p a b))"
  using dec_add_rounds [of p a "dec_copy_negate b"] by (simp add: dec_sub_def)

lemma dec_mul_rounds: "0 < p \<Longrightarrow> rounds_to p (dec_val a * dec_val b) (dec_val (dec_mul p a b))"
proof -
  have "dec_val (Dec (dec_sign a \<noteq> dec_sign b) (dec_coeff a * dec_coeff b)
      (dec_exp a + dec_exp b)) = dec_val a * dec_val b"
    by (cases a; cases b) (simp add: power_int_add)
  then show "0 < p \<Longrightarrow> ?thesis" unfolding dec_mul_def by (metis dec_fix_rounds)
qed

lemma strip_to_val: "strip_to i c e = (c', e') \<Longrightarrow> of_nat c' * 10 powi e' = (of_nat c * 10 powi e :: rat)"
proof (induction i c e rule: strip_to.induct)
  case (1 i c e)
  show ?case
  proof (cases "e < i \<and> c mod 10 = 0")
    case True
    then have "c = 10 * (c div 10)" by auto
    then have "(of_nat c :: rat) = 10 * of_nat (c div 10)" by (metis of_nat_mult of_nat_numeral)
    then have "(of_nat (c div 10) :: rat) * 10 powi (e + 1) = of_nat c * 10 powi e"
      by (simp add: power_int_add)
    then show ?thesis using 1 True by (simp add: strip_to.simps [of i c e])
  qed (use 1(2) strip_to.simps [of i c e] in auto)
qed

lemma quotient_digits_val:
  assumes "0 < b" and "quotient_digits a b shift = (q, r)"
  shows "(of_nat a / of_nat b :: rat) * 10 powi shift =
           of_nat q + of_nat r / of_nat (b * 10 ^ nat (- shift))"
    and "r < b * 10 ^ nat (- shift)"
proof -
  define n d where "n = a * 10 ^ nat shift" and "d = b * 10 ^ nat (- shift)"
  have qr: "q = n div d" "r = n mod d" and d: "0 < d"
    using assms by (auto simp: quotient_digits_def Let_def n_def d_def)
  then show "r < b * 10 ^ nat (- shift)" by (simp add: d_def)
  have "(of_nat n / of_nat d :: rat) = of_nat q + of_nat r / of_nat d"
  proof -
    have "(of_nat n :: rat) = of_nat q * of_nat d + of_nat r"
      unfolding qr by (metis of_nat_add of_nat_mult div_mult_mod_eq)
    then show ?thesis using d by (simp add: field_simps)
  qed
  moreover have "(of_nat a / of_nat b :: rat) * 10 powi shift = of_nat n / of_nat d"
    unfolding n_def d_def by (cases "0 \<le> shift") (auto simp: power_int_def divide_simps)
  ultimately show "(of_nat a / of_nat b :: rat) * 10 powi shift =
           of_nat q + of_nat r / of_nat (b * 10 ^ nat (- shift))"
    by (simp add: d_def)
qed

lemma quotient_digits_large:
  assumes a: "0 < a" and b: "0 < b"
    and shift: "shift = int (num_digits b) - int (num_digits a) + int p + 1"
    and qr: "quotient_digits a b shift = (q, r)"
  shows "10 ^ p \<le> q"
proof -
  define na nb where "na = num_digits a" and "nb = num_digits b"
  have na: "0 < na" "10 ^ (na - 1) \<le> a" and nb: "b < 10 ^ nb"
    using num_digits_bounds [of a] num_digits_bounds [of b] a num_digits_pos
    by (auto simp: na_def nb_def)
  have exps: "na - 1 + nat shift = nb + nat (- shift) + p"
    using na(1) shift by (simp add: na_def nb_def)
  have "10 ^ p * (b * 10 ^ nat (- shift)) \<le> 10 ^ p * (10 ^ nb * 10 ^ nat (- shift))"
    using nb by (intro mult_le_mono) auto
  also have "\<dots> = 10 ^ (na - 1) * 10 ^ nat shift"
    using exps by (simp flip: power_add add: add.commute add.left_commute)
  also have "\<dots> \<le> a * 10 ^ nat shift" using na by simp
  finally show ?thesis
    using qr b by (auto simp: quotient_digits_def Let_def less_eq_div_iff_mult_less_eq)
qed

lemma dec_val_zero_iff: "dec_val a = 0 \<longleftrightarrow> dec_coeff a = 0"
  by (cases a) auto

lemma dec_val_signed: "dec_val (Dec s c e) = (if s then -1 else 1) * (of_nat c * 10 powi e)"
  by simp

lemma dec_quotient_signed:
  "dec_val a / dec_val b =
     (if dec_sign a \<noteq> dec_sign b then -1 else 1) *
       (of_nat (dec_coeff a) / of_nat (dec_coeff b) * 10 powi (dec_exp a - dec_exp b))"
  by (cases a; cases b) (simp add: power_int_diff)

lemma dec_div_rounds:
  assumes p: "0 < p" and d: "dec_div p a b = Inr c"
  shows "dec_val b \<noteq> 0" and "rounds_to p (dec_val a / dec_val b) (dec_val c)"
proof -
  define s where "s = (dec_sign a \<noteq> dec_sign b)"
  define ideal where "ideal = dec_exp a - dec_exp b"
  have b: "0 < dec_coeff b" using d by (auto simp: dec_div_def Let_def split: if_splits)
  then show "dec_val b \<noteq> 0" by (cases b) auto
  show "rounds_to p (dec_val a / dec_val b) (dec_val c)"
  proof (cases "dec_coeff a = 0")
    case True
    then have "c = dec_fix p (Dec s 0 ideal)" using d b by (simp add: dec_div_def s_def ideal_def Let_def del: dec_fix.simps)
    moreover have "dec_val a = 0" using True dec_val_zero_iff [of a] by simp
    ultimately show ?thesis
      using dec_fix_rounds [OF p, of "Dec s 0 ideal"] by (simp del: dec_fix.simps)
  next
    case False
    then have a: "0 < dec_coeff a" by simp
    define shift where "shift =
      int (num_digits (dec_coeff b)) - int (num_digits (dec_coeff a)) + int p + 1"
    obtain q r where qr: "quotient_digits (dec_coeff a) (dec_coeff b) shift = (q, r)"
      by fastforce
    define e where "e = ideal - shift"
    define t :: rat where "t = of_nat r / of_nat (dec_coeff b * 10 ^ nat (- shift))"
    have t: "0 \<le> t" "t < 1" "t = 0 \<longleftrightarrow> r = 0"
      using quotient_digits_val(2) [OF b qr] b by (auto simp: t_def simp flip: of_nat_mult)
    have "(10::rat) powi ideal = 10 powi shift * 10 powi e"
      by (simp add: e_def flip: power_int_add)
    then have x: "dec_val a / dec_val b = (if s then -1 else 1) * ((of_nat q + t) * 10 powi e)"
      using quotient_digits_val(1) [OF b qr]
      by (simp add: dec_quotient_signed s_def ideal_def t_def flip: mult.assoc)
    have large: "10 ^ (p + 1 - 1) \<le> q"
      using quotient_digits_large [OF a b shift_def qr] by simp
    define z where "z = (if r \<noteq> 0 \<and> q mod 5 = 0 then q + 1 else q)"
    obtain c' e' where c': "strip_to ideal q e = (c', e')" by fastforce
    have "dec_val c = dec_val (dec_fix p (if r = 0 then Dec s c' e' else Dec s z e))"
    proof -
      have "dec_div p a b = Inr (dec_fix p (if r = 0 then Dec s c' e' else Dec s z e))"
        using a b unfolding dec_div_def Let_def s_def [symmetric] ideal_def [symmetric]
          shift_def [symmetric] e_def [symmetric] qr prod.case c' z_def
        by (simp del: dec_fix.simps)
      then show ?thesis using d by simp
    qed
    moreover have "dec_val (if r = 0 then Dec s c' e' else Dec s z e) = dec_val (Dec s z e)"
      using strip_to_val [OF c'] by (simp add: z_def)
    ultimately have "rounds_to p (dec_val (Dec s z e)) (dec_val c)"
      using dec_fix_rounds [OF p] by metis
    moreover have "rounds_to (p + 1) ((of_nat q + t) * 10 powi e) (of_nat z * 10 powi e)"
      using t large by (intro rounds_to_gap [where q = q and g = e]) (auto simp: z_def)
    then have "rounds_to (p + 1) (dec_val a / dec_val b) (dec_val (Dec s z e))"
      unfolding x dec_val_signed by (rule rounds_to_signed)
    ultimately show ?thesis by (meson rounds_to_trans le_add1)
  qed
qed

lemma dec_div_total: "dec_coeff b \<noteq> 0 \<Longrightarrow> \<exists>c. dec_div p a b = Inr c"
  by (auto simp: dec_div_def Let_def split: prod.splits)

section \<open>The interface of a decimal context\<close>

text \<open>
  What a client of a context of \<open>p\<close> digits may rely on. The lemmas bound a computed value by any
  representable value that bounds the exact one.
\<close>

locale decimal_context =
  fixes p :: nat
    and add sub mul :: "dec \<Rightarrow> dec \<Rightarrow> dec"
    and quot :: "dec \<Rightarrow> dec \<Rightarrow> dec_error + dec"
  assumes add_rounds: "rounds_to p (dec_val a + dec_val b) (dec_val (add a b))"
    and sub_rounds: "rounds_to p (dec_val a - dec_val b) (dec_val (sub a b))"
    and mul_rounds: "rounds_to p (dec_val a * dec_val b) (dec_val (mul a b))"
    and div_rounds: "quot a b = Inr c \<Longrightarrow> rounds_to p (dec_val a / dec_val b) (dec_val c)"
    and div_total: "dec_val b \<noteq> 0 \<Longrightarrow> \<exists>c. quot a b = Inr c"
    and div_zero: "quot a b = Inr c \<Longrightarrow> dec_val b \<noteq> 0"
begin

lemma rounds_le: "rounds_to p x r \<Longrightarrow> representable p y \<Longrightarrow> x \<le> y \<Longrightarrow> r \<le> y"
  by (simp add: rounds_to_def)

lemma rounds_ge: "rounds_to p x r \<Longrightarrow> representable p y \<Longrightarrow> y \<le> x \<Longrightarrow> y \<le> r"
  by (simp add: rounds_to_def)

lemma rounds_exact: "rounds_to p x r \<Longrightarrow> representable p x \<Longrightarrow> r = x"
  by (meson order.refl order.antisym rounds_le rounds_ge)

lemma zero_representable: "representable p 0"
  unfolding representable_def by (intro exI [of _ False] exI [of _ 0] exI [of _ 0]) simp

lemma add_nonneg: "0 \<le> dec_val a \<Longrightarrow> 0 \<le> dec_val b \<Longrightarrow> 0 \<le> dec_val (add a b)"
  by (rule rounds_ge [OF add_rounds zero_representable]) simp

lemma sub_nonneg: "dec_val b \<le> dec_val a \<Longrightarrow> 0 \<le> dec_val (sub a b)"
  by (rule rounds_ge [OF sub_rounds zero_representable]) simp

lemma mul_nonneg: "0 \<le> dec_val a \<Longrightarrow> 0 \<le> dec_val b \<Longrightarrow> 0 \<le> dec_val (mul a b)"
  by (rule rounds_ge [OF mul_rounds zero_representable]) simp

lemma sub_le: "0 \<le> dec_val b \<Longrightarrow> representable p (dec_val a) \<Longrightarrow> dec_val (sub a b) \<le> dec_val a"
  by (rule rounds_le [OF sub_rounds]) simp_all

lemma mul_le:
  "0 \<le> dec_val a \<Longrightarrow> dec_val b \<le> 1 \<Longrightarrow> representable p (dec_val a) \<Longrightarrow> dec_val (mul a b) \<le> dec_val a"
  by (rule rounds_le [OF mul_rounds]) (simp_all add: mult_left_le)

lemma mul_ge:
  "0 \<le> dec_val a \<Longrightarrow> 1 \<le> dec_val b \<Longrightarrow> representable p (dec_val a) \<Longrightarrow> dec_val a \<le> dec_val (mul a b)"
  by (rule rounds_ge [OF mul_rounds]) (simp_all add: mult_le_cancel_left1)

lemma div_nonneg: "quot a b = Inr c \<Longrightarrow> 0 \<le> dec_val a \<Longrightarrow> 0 \<le> dec_val b \<Longrightarrow> 0 \<le> dec_val c"
  using rounds_ge [OF div_rounds zero_representable, of a b c] by (simp add: divide_nonneg_nonneg)

end

definition PREC_DEFAULT :: nat where "PREC_DEFAULT = 28"

lemma decimal_context_precision:
  "0 < p \<Longrightarrow> decimal_context p (dec_add p) (dec_sub p) (dec_mul p) (dec_div p)"
  by unfold_locales
    (auto intro: dec_add_rounds dec_sub_rounds dec_mul_rounds dec_div_rounds dec_div_total
      dest: dec_div_rounds simp: dec_val_zero_iff)

interpretation ctx28: decimal_context PREC_DEFAULT "dec_add PREC_DEFAULT" "dec_sub PREC_DEFAULT"
  "dec_mul PREC_DEFAULT" "dec_div PREC_DEFAULT"
  by (rule decimal_context_precision) (simp add: PREC_DEFAULT_def)

interpretation ctx50: decimal_context 50 "dec_add 50" "dec_sub 50" "dec_mul 50" "dec_div 50"
  by (rule decimal_context_precision) simp

section \<open>Exactness within the default precision\<close>

definition fits :: "dec \<Rightarrow> bool" where
  "fits a \<longleftrightarrow> num_digits (dec_coeff a) \<le> PREC_DEFAULT"

lemma fits_representable: "fits a \<Longrightarrow> representable PREC_DEFAULT (dec_val a)"
  unfolding representable_def fits_def
  by (intro exI [of _ "dec_sign a"] exI [of _ "dec_coeff a"] exI [of _ "dec_exp a"])
     (cases a, auto simp: num_digits_le_iff PREC_DEFAULT_def)

lemma representable_one: "representable PREC_DEFAULT 1"
  unfolding representable_def PREC_DEFAULT_def
  by (intro exI [of _ False] exI [of _ 1] exI [of _ 0]) simp

lemma coeff_representable: "dec_coeff a < 10 ^ p \<Longrightarrow> representable p (dec_val a)"
  unfolding representable_def
  by (intro exI [of _ "dec_sign a"] exI [of _ "dec_coeff a"] exI [of _ "dec_exp a"]) (cases a, simp)

lemma dec_fix_representable:
  assumes p: "0 < p"
  shows "representable p (dec_val (dec_fix p a))"
proof (cases a)
  case (Dec s c e)
  let ?q = "half_even_div c (10 ^ (num_digits c - p))"
  have "dec_coeff (dec_fix p a) < 10 ^ p"
  proof (cases "num_digits c \<le> p")
    case False
    then have "?q \<le> 10 ^ p" by (intro half_even_div_le) simp
    moreover have "(0::nat) < 10 ^ p" by simp
    ultimately have "?q div 10 < 10 ^ p" by linarith
    moreover have "\<not> p < num_digits ?q \<longrightarrow> ?q < 10 ^ p" using num_digits_le_iff [OF p, of ?q] by linarith
    ultimately show ?thesis using False Dec by (simp add: Let_def)
  qed (use Dec num_digits_le_iff [OF p, of c] in simp)
  then show ?thesis by (rule coeff_representable)
qed

lemma dec_add_representable: "0 < p \<Longrightarrow> representable p (dec_val (dec_add p a b))"
  by (simp add: dec_add_def Let_def dec_fix_representable del: dec_fix.simps)

lemma tiny_representable: "0 < p \<Longrightarrow> 0 < x \<Longrightarrow> \<exists>y. representable p y \<and> 0 < y \<and> y \<le> (x::rat)"
proof -
  assume p: "0 < p" and "0 < x"
  then obtain n where n: "0 < n" "inverse (of_nat n) < x" using ex_inverse_of_nat_less by blast
  have "n < 10 ^ n" by (rule power_gt_expt) simp
  then have "of_nat n \<le> (10::rat) ^ n"
    by (metis less_imp_le of_nat_le_iff of_nat_numeral of_nat_power)
  then have "inverse ((10::rat) ^ n) \<le> inverse (of_nat n)"
    using n(1) by (intro le_imp_inverse_le) simp_all
  moreover have "dec_val (Dec False 1 (- int n)) = inverse (10 ^ n)"
    by (simp add: power_int_minus)
  moreover have "(1::nat) < 10 ^ p" using p by (metis one_less_power one_less_numeral_iff semiring_norm(76))
  then have "representable p (dec_val (Dec False 1 (- int n)))"
    by (intro coeff_representable) simp
  ultimately show ?thesis using n(2)
    by (intro exI [of _ "inverse (10 ^ n)"]) (simp add: less_imp_le)
qed

lemma rounds_pos: "0 < p \<Longrightarrow> rounds_to p x r \<Longrightarrow> 0 < x \<Longrightarrow> 0 < r"
  using tiny_representable [of p x] unfolding rounds_to_def by (meson less_le_trans)

lemma rounds_neg: "0 < p \<Longrightarrow> rounds_to p x r \<Longrightarrow> x < 0 \<Longrightarrow> r < 0"
  using rounds_pos [OF _ rounds_to_uminus, of p x r] by simp

lemma rounds_zero_iff:
  assumes "0 < p" "rounds_to p x r"
  shows "r = 0 \<longleftrightarrow> x = 0"
proof (cases x "0 :: rat" rule: linorder_cases)
  case equal
  have "representable p 0" using coeff_representable [of dec_zero p] by simp
  then show ?thesis using equal assms(2) by (auto simp: rounds_to_def intro: order.antisym)
qed (use rounds_pos [OF assms] rounds_neg [OF assms] in auto)

lemma rounds_zero: "rounds_to PREC_DEFAULT x r \<Longrightarrow> r = 0 \<longleftrightarrow> x = 0"
  using rounds_zero_iff [of PREC_DEFAULT x r] by (simp add: PREC_DEFAULT_def)

lemma dec_val_min: "dec_val (dec_min a b) = min (dec_val a) (dec_val b)"
  by (simp add: dec_min_def dec_lt_def)

lemma dec_val_of_int [simp]: "dec_val (dec_of_int i) = of_int i"
  by (simp add: dec_of_int_def dec_val_of_signed)

text \<open>\<^verbatim>\<open>sum(values, Decimal(0))\<close>.\<close>

definition dec_sum :: "nat \<Rightarrow> dec list \<Rightarrow> dec" where
  "dec_sum p xs = foldl (dec_add p) dec_zero xs"

lemma foldl_add_sign:
  assumes "0 < p" "0 \<le> dec_val a" "\<forall>x\<in>set xs. 0 \<le> dec_val x"
  shows "0 \<le> dec_val (foldl (dec_add p) a xs) \<and>
    (dec_val (foldl (dec_add p) a xs) = 0 \<longleftrightarrow> dec_val a = 0 \<and> (\<forall>x\<in>set xs. dec_val x = 0))"
  using assms(2,3)
proof (induction xs arbitrary: a)
  case (Cons x xs)
  have r: "rounds_to p (dec_val a + dec_val x) (dec_val (dec_add p a x))"
    using assms(1) by (rule dec_add_rounds)
  have "dec_val (dec_add p a x) = 0 \<longleftrightarrow> dec_val a = 0 \<and> dec_val x = 0"
    using rounds_zero_iff [OF assms(1) r] Cons.prems by auto
  moreover have "0 \<le> dec_val (dec_add p a x)"
    using rounds_pos [OF assms(1) r] calculation Cons.prems
    by (cases "dec_val a + dec_val x = 0") (auto simp: add_nonneg_eq_0_iff less_le)
  ultimately show ?case using Cons.IH [of "dec_add p a x"] Cons.prems by auto
qed simp

lemma dec_sum_sign:
  assumes "0 < p" "\<forall>x\<in>set xs. 0 \<le> dec_val x"
  shows "0 \<le> dec_val (dec_sum p xs)" "dec_val (dec_sum p xs) = 0 \<longleftrightarrow> (\<forall>x\<in>set xs. dec_val x = 0)"
  using foldl_add_sign [OF assms(1) _ assms(2), of dec_zero] by (simp_all add: dec_sum_def)

lemma dec_sum_representable: "0 < p \<Longrightarrow> representable p (dec_val (dec_sum p xs))"
  unfolding dec_sum_def
  by (cases xs rule: rev_cases)
     (simp_all add: dec_add_representable coeff_representable [of dec_zero, simplified])

text \<open>Sums of numbers on a decimal grid are exact while they stay below \<open>10 ^ 28\<close> grid units.\<close>

definition on_grid :: "int \<Rightarrow> rat \<Rightarrow> bool" where
  "on_grid q x \<longleftrightarrow> (\<exists>k::int. x = of_int k * 10 powi q)"

lemma on_grid_arith: "on_grid q x \<Longrightarrow> on_grid q y \<Longrightarrow> on_grid q (x + y)" "on_grid q x \<Longrightarrow> on_grid q (- x)"
  unfolding on_grid_def by (metis distrib_right of_int_add) (metis mult_minus_left of_int_minus)

lemma grid_representable:
  assumes "on_grid q x" "\<bar>x\<bar> < 10 ^ PREC_DEFAULT * 10 powi q"
  shows "representable PREC_DEFAULT x"
proof -
  obtain k :: int where k: "x = of_int k * 10 powi q" using assms(1) by (auto simp: on_grid_def)
  have "of_int \<bar>k\<bar> * (10::rat) powi q < 10 ^ PREC_DEFAULT * 10 powi q"
    using assms(2) by (simp add: k abs_mult)
  then have "of_int \<bar>k\<bar> < (of_int (10 ^ PREC_DEFAULT) :: rat)"
    by (simp add: mult_less_cancel_right_pos)
  then have "\<bar>k\<bar> < 10 ^ PREC_DEFAULT" by (simp only: of_int_less_iff)
  then have "nat \<bar>k\<bar> < 10 ^ PREC_DEFAULT" by (simp add: nat_less_iff)
  then show ?thesis
    unfolding representable_def k
    by (intro exI [of _ "k < 0"] exI [of _ "nat \<bar>k\<bar>"] exI [of _ q]) (simp only: dec_val_of_signed simp_thms)
qed

end
