(* ===== verification/Py_Value.thy ===== *)
theory Py_Value
  imports Py_Datetime Py_Decimal Sha256
begin

text \<open>
  Python objects as JSON documents and database rows hand them to the program, and the text the
  program makes of them: decimal digits, ISO 8601 timestamps, \<^verbatim>\<open>str\<close> and \<^verbatim>\<open>format\<close> of a
  \<^verbatim>\<open>Decimal\<close>, and \<^verbatim>\<open>json.dumps(..., ensure_ascii=False, sort_keys=True, separators=(",", ":"))\<close>.
  Text is the byte string of its UTF-8 encoding; byte order and code point order agree there, so
  sorted keys are sorted the same way.
\<close>

section \<open>Digits\<close>

definition digit_char :: "nat \<Rightarrow> char" where "digit_char n = char_of (48 + n)"

definition is_digit :: "char \<Rightarrow> bool" where
  "is_digit c \<longleftrightarrow> 48 \<le> (of_char c :: nat) \<and> (of_char c :: nat) \<le> 57"

fun nat_str :: "nat \<Rightarrow> string" where
  "nat_str n = (if n < 10 then [digit_char n] else nat_str (n div 10) @ [digit_char (n mod 10)])"

declare nat_str.simps [simp del]

definition int_str :: "int \<Rightarrow> string" where
  "int_str i = (if i < 0 then ''-'' @ nat_str (nat (- i)) else nat_str (nat i))"

definition pad0 :: "nat \<Rightarrow> int \<Rightarrow> string" where
  "pad0 k n = (let s = nat_str (nat n) in replicate (k - length s) (CHR ''0'') @ s)"

section \<open>Timestamps\<close>

definition iso_date :: "int \<Rightarrow> string" where
  "iso_date t = pad0 4 (dt_year t) @ ''-'' @ pad0 2 (dt_month t) @ ''-'' @ pad0 2 (dt_day t)"

definition iso_time :: "int \<Rightarrow> string" where
  "iso_time t =
     pad0 2 (dt_hour t) @ '':'' @ pad0 2 (dt_minute t) @ '':'' @ pad0 2 (dt_second t) @
     (if dt_microsecond t = 0 then [] else ''.'' @ pad0 6 (dt_microsecond t))"

text \<open>\<^verbatim>\<open>isoformat()\<close> and \<^verbatim>\<open>str()\<close>; an offset of whole minutes is assumed.\<close>

definition iso_offset :: "int \<Rightarrow> string" where
  "iso_offset off =
     (let m = \<bar>off\<bar> div minute_us in
      (if off < 0 then ''-'' else ''+'') @ pad0 2 (m div 60) @ '':'' @ pad0 2 (m mod 60))"

definition iso_with :: "string \<Rightarrow> datetime \<Rightarrow> string" where
  "iso_with sep d =
     iso_date (wall d) @ sep @ iso_time (wall d) @
     (case utcoffset d of None \<Rightarrow> [] | Some off \<Rightarrow> iso_offset off)"

definition isoformat :: "datetime \<Rightarrow> string" where "isoformat d = iso_with ''T'' d"

definition datetime_str :: "datetime \<Rightarrow> string" where "datetime_str d = iso_with '' '' d"

section \<open>Text of a decimal\<close>

function strip_zeros :: "nat \<Rightarrow> int \<Rightarrow> nat \<times> int" where
  "strip_zeros c e = (if 0 < c \<and> c mod 10 = 0 then strip_zeros (c div 10) (e + 1) else (c, e))"
  by pat_completeness auto
termination by (relation "measure (\<lambda>(c, e). c)") auto

declare strip_zeros.simps [simp del]

definition dec_normalize :: "nat \<Rightarrow> dec \<Rightarrow> dec" where
  "dec_normalize p a =
     (case dec_fix p a of Dec s c e \<Rightarrow>
        if c = 0 then Dec s 0 0 else (case strip_zeros c e of (c', e') \<Rightarrow> Dec s c' e'))"

text \<open>\<^verbatim>\<open>format(value, "f")\<close>.\<close>

fun dec_format_f :: "dec \<Rightarrow> string" where
  "dec_format_f (Dec s c e) =
     (if s then ''-'' else []) @
     (if 0 \<le> e then nat_str (c * 10 ^ nat e)
      else
        let ds = nat_str c; k = nat (- e);
            ds' = replicate (Suc k - length ds) (CHR ''0'') @ ds;
            n = length ds' - k
        in take n ds' @ ''.'' @ drop n ds')"

text \<open>\<^verbatim>\<open>str(value)\<close>: plain notation unless the exponent is positive or the value is very small.\<close>

fun dec_str :: "dec \<Rightarrow> string" where
  "dec_str (Dec s c e) =
     (let ds = nat_str c; left = e + int (length ds) in
      if e \<le> 0 \<and> -6 < left then dec_format_f (Dec s c e)
      else
        (if s then ''-'' else []) @ take 1 ds @
        (if length ds = 1 then [] else ''.'' @ drop 1 ds) @
        (if left = 1 then []
         else ''E'' @ (if 0 \<le> left - 1 then ''+'' else []) @ int_str (left - 1)))"

section \<open>Parsing a decimal\<close>

text \<open>\<^verbatim>\<open>Decimal(text)\<close>: surrounding white space and underscores are dropped, then an optional sign
  and a number, an infinity or a NaN. \<open>None\<close> is \<^verbatim>\<open>decimal.InvalidOperation\<close>. Digits are the ASCII
  ones.\<close>

datatype py_number = NFin dec | NInf bool | NNan bool

definition is_space :: "char \<Rightarrow> bool" where
  "is_space c \<longleftrightarrow> (of_char c :: nat) \<in> {9, 10, 11, 12, 13, 28, 29, 30, 31, 32}"

definition strip :: "string \<Rightarrow> string" where
  "strip s = rev (dropWhile is_space (rev (dropWhile is_space s)))"

definition to_lower :: "char \<Rightarrow> char" where
  "to_lower c = (let n = (of_char c :: nat) in if 65 \<le> n \<and> n \<le> 90 then char_of (n + 32) else c)"

definition to_upper :: "char \<Rightarrow> char" where
  "to_upper c = (let n = (of_char c :: nat) in if 97 \<le> n \<and> n \<le> 122 then char_of (n - 32) else c)"

definition digits_val :: "string \<Rightarrow> nat" where
  "digits_val s = foldl (\<lambda>n c. n * 10 + (of_char c - 48)) 0 s"

definition take_sign :: "string \<Rightarrow> bool \<times> string" where
  "take_sign s =
     (case s of c # r \<Rightarrow> if c = CHR ''-'' then (True, r) else if c = CHR ''+'' then (False, r) else (False, s)
      | [] \<Rightarrow> (False, []))"

definition parse_exponent :: "string \<Rightarrow> int option" where
  "parse_exponent s =
     (case s of
        [] \<Rightarrow> Some 0
      | c # r \<Rightarrow>
          if to_lower c \<noteq> CHR ''e'' then None
          else let (neg, ds) = take_sign r in
            if ds \<noteq> [] \<and> list_all is_digit ds
            then Some (if neg then - int (digits_val ds) else int (digits_val ds)) else None)"

definition parse_finite :: "bool \<Rightarrow> string \<Rightarrow> py_number option" where
  "parse_finite neg s =
     (let ip = takeWhile is_digit s; rest = dropWhile is_digit s;
          (fp, rest') = (case rest of
             c # r \<Rightarrow> if c = CHR ''.'' then (takeWhile is_digit r, dropWhile is_digit r) else ([], rest)
           | [] \<Rightarrow> ([], []))
      in if ip = [] \<and> fp = [] then None
         else map_option (\<lambda>e. NFin (Dec neg (digits_val (ip @ fp)) (e - int (length fp))))
                (parse_exponent rest'))"

definition parse_decimal :: "string \<Rightarrow> py_number option" where
  "parse_decimal s =
     (let (neg, body) = take_sign (filter (\<lambda>c. c \<noteq> CHR ''_'') (strip s)); low = map to_lower body in
      if low = ''inf'' \<or> low = ''infinity'' then Some (NInf neg)
      else if take 3 low = ''nan'' \<and> list_all is_digit (drop 3 low) then Some (NNan False)
      else if take 4 low = ''snan'' \<and> list_all is_digit (drop 4 low) then Some (NNan True)
      else parse_finite neg body)"

text \<open>\<^verbatim>\<open>int(text)\<close>: surrounding blanks, one sign, digits with single underscores between them.\<close>

fun digit_groups :: "string \<Rightarrow> bool" where
  "digit_groups [] = False"
| "digit_groups [c] = is_digit c"
| "digit_groups (c # d # cs) =
     (is_digit c \<and> (if d = CHR ''_'' then cs \<noteq> [] \<and> digit_groups cs else digit_groups (d # cs)))"

definition parse_int :: "string \<Rightarrow> int option" where
  "parse_int s =
     (let (neg, body) = take_sign (strip s) in
      if digit_groups body
      then Some ((if neg then -1 else 1) * int (digits_val (filter (\<lambda>c. c \<noteq> CHR ''_'') body)))
      else None)"

section \<open>JSON\<close>

datatype json =
    JNull
  | JBool bool
  | JInt int
  | JFloat string
  | JStr string
  | JArr "json list"
  | JObj "(string \<times> json) list"

text \<open>A float is kept as its \<^verbatim>\<open>repr\<close>; an object is the association list of a dict in its
  insertion order.\<close>

definition hex4 :: "nat \<Rightarrow> string" where
  "hex4 n = map (\<lambda>i. hex_digit (n div 16 ^ (3 - i) mod 16)) [0..<4]"

definition json_esc :: "char \<Rightarrow> string" where
  "json_esc c =
     (if c = CHR 0x22 then [CHR 0x5C, CHR 0x22]
      else if c = CHR 0x5C then [CHR 0x5C, CHR 0x5C]
      else if c = CHR 0x08 then [CHR 0x5C, CHR ''b'']
      else if c = CHR 0x0C then [CHR 0x5C, CHR ''f'']
      else if c = CHR 0x0A then [CHR 0x5C, CHR ''n'']
      else if c = CHR 0x0D then [CHR 0x5C, CHR ''r'']
      else if c = CHR 0x09 then [CHR 0x5C, CHR ''t'']
      else if (of_char c :: nat) < 32 then [CHR 0x5C, CHR ''u''] @ hex4 (of_char c)
      else [c])"

definition json_string :: "string \<Rightarrow> string" where
  "json_string s = [CHR 0x22] @ concat (map json_esc s) @ [CHR 0x22]"

fun join :: "string \<Rightarrow> string list \<Rightarrow> string" where
  "join sep [] = []"
| "join sep [x] = x"
| "join sep (x # y # zs) = x @ sep @ join sep (y # zs)"

lemma size_list_mem: "x \<in> set xs \<Longrightarrow> f x < Suc (size_list f xs)"
  by (induction xs) auto

lemma size_dict_mem: "(k, v) \<in> set d \<Longrightarrow> f v < Suc (size_list (size_prod (\<lambda>x. 0) f) d)"
  by (induction d) auto

lemma size_zip_mem: "(x, y) \<in> set (zip xs ys) \<Longrightarrow> f x < Suc (size_list f xs)"
  by (auto intro: size_list_mem dest: set_zip_leftD)

function json_dumps :: "json \<Rightarrow> string" where
  "json_dumps JNull = ''null''"
| "json_dumps (JBool b) = (if b then ''true'' else ''false'')"
| "json_dumps (JInt i) = int_str i"
| "json_dumps (JFloat r) = r"
| "json_dumps (JStr s) = json_string s"
| "json_dumps (JArr xs) = ''['' @ join '','' (map json_dumps xs) @ '']''"
| "json_dumps (JObj d) =
     ''{'' @ join '','' (map (\<lambda>kv. json_string (fst kv) @ '':'' @ json_dumps (snd kv)) (sort_key fst d)) @ ''}''"
  by pat_completeness auto

termination
  by (relation "measure size") (auto intro: size_list_mem size_dict_mem)

section \<open>Python objects\<close>

datatype py_value =
    PyNone
  | PyBool bool
  | PyInt int
  | PyFloat string "rat option"
  | PyDecimal dec
  | PyDatetime datetime
  | PyStr string
  | PyList "py_value list"
  | PyDict "(string \<times> py_value) list"

text \<open>A float carries its \<^verbatim>\<open>repr\<close> and its exact value (\<open>None\<close> for NaN and the infinities).\<close>

type_synonym py_dict = "(string \<times> py_value) list"

definition dict_get :: "(string \<times> py_value) list \<Rightarrow> string \<Rightarrow> py_value" where
  "dict_get d k = (case map_of d k of None \<Rightarrow> PyNone | Some v \<Rightarrow> v)"

definition dict_get_default :: "(string \<times> py_value) list \<Rightarrow> string \<Rightarrow> py_value \<Rightarrow> py_value" where
  "dict_get_default d k v0 = (case map_of d k of None \<Rightarrow> v0 | Some v \<Rightarrow> v)"

text \<open>\<^verbatim>\<open>str(value)\<close>. The \<^verbatim>\<open>repr\<close> of text inside a container quotes it and escapes the
  ASCII control characters; other characters are printable.\<close>

definition hex2 :: "nat \<Rightarrow> string" where
  "hex2 n = [hex_digit (n div 16 mod 16), hex_digit (n mod 16)]"

definition repr_char :: "char \<Rightarrow> char \<Rightarrow> string" where
  "repr_char q c =
     (if c = q \<or> c = CHR 0x5C then [CHR 0x5C, c]
      else if c = CHR 0x0A then [CHR 0x5C, CHR ''n'']
      else if c = CHR 0x0D then [CHR 0x5C, CHR ''r'']
      else if c = CHR 0x09 then [CHR 0x5C, CHR ''t'']
      else if (of_char c :: nat) < 32 \<or> (of_char c :: nat) = 127
      then [CHR 0x5C, CHR ''x''] @ hex2 (of_char c)
      else [c])"

definition str_repr :: "string \<Rightarrow> string" where
  "str_repr s =
     (let q = (if CHR 0x27 \<in> set s \<and> CHR 0x22 \<notin> set s then CHR 0x22 else CHR 0x27)
      in [q] @ concat (map (repr_char q) s) @ [q])"

function py_repr :: "py_value \<Rightarrow> string" where
  "py_repr PyNone = ''None''"
| "py_repr (PyBool b) = (if b then ''True'' else ''False'')"
| "py_repr (PyInt i) = int_str i"
| "py_repr (PyFloat r v) = r"
| "py_repr (PyDecimal a) = ''Decimal('' @ str_repr (dec_str a) @ '')''"
| "py_repr (PyDatetime d) = ''datetime('' @ datetime_str d @ '')''"
| "py_repr (PyStr s) = str_repr s"
| "py_repr (PyList xs) = ''['' @ join '', '' (map py_repr xs) @ '']''"
| "py_repr (PyDict d) =
     ''{'' @ join '', '' (map (\<lambda>kv. str_repr (fst kv) @ '': '' @ py_repr (snd kv)) d) @ ''}''"
  by pat_completeness auto
termination
  by (relation "measure size") (auto intro: size_list_mem size_dict_mem)

fun py_str :: "py_value \<Rightarrow> string" where
  "py_str (PyStr s) = s"
| "py_str (PyDecimal a) = dec_str a"
| "py_str (PyDatetime d) = datetime_str d"
| "py_str v = py_repr v"

text \<open>\<^verbatim>\<open>==\<close>: numbers of different types compare by value, mappings without regard to order.\<close>

fun num_of :: "py_value \<Rightarrow> rat option" where
  "num_of (PyBool b) = Some (if b then 1 else 0)"
| "num_of (PyInt i) = Some (of_int i)"
| "num_of (PyFloat r v) = v"
| "num_of (PyDecimal a) = Some (dec_val a)"
| "num_of _ = None"

function py_eq :: "py_value \<Rightarrow> py_value \<Rightarrow> bool" where
  "py_eq a b =
     (case (num_of a, num_of b) of
        (Some x, Some y) \<Rightarrow> x = y
      | (None, None) \<Rightarrow>
          (case (a, b) of
             (PyNone, PyNone) \<Rightarrow> True
           | (PyFloat r v, PyFloat r' v') \<Rightarrow> r = r' \<and> r \<noteq> ''nan''
           | (PyStr s, PyStr s') \<Rightarrow> s = s'
           | (PyDatetime d, PyDatetime d') \<Rightarrow> is_aware d = is_aware d' \<and> instant d = instant d'
           | (PyList xs, PyList ys) \<Rightarrow>
               length xs = length ys \<and> list_all (\<lambda>xy. py_eq (fst xy) (snd xy)) (zip xs ys)
           | (PyDict d, PyDict d') \<Rightarrow>
               length d = length d' \<and>
               list_all (\<lambda>kv. case map_of d' (fst kv) of None \<Rightarrow> False | Some w \<Rightarrow> py_eq (snd kv) w) d
           | _ \<Rightarrow> False)
      | _ \<Rightarrow> False)"
  by pat_completeness auto
termination
  by (relation "measure (\<lambda>(a, b). size a)") (auto intro: size_zip_mem size_dict_mem)

declare py_eq.simps [simp del]

lemma py_eq_Str [simp]: "py_eq (PyStr s) b \<longleftrightarrow> b = PyStr s"
  by (cases b) (auto simp: py_eq.simps split: option.splits)

text \<open>\<^verbatim>\<open>json.dumps\<close> without a default raises on a \<^verbatim>\<open>Decimal\<close> or \<^verbatim>\<open>datetime\<close>; \<open>err\<close> is the
  exception.\<close>

function json_encode :: "'e \<Rightarrow> py_value \<Rightarrow> 'e + json" where
  "json_encode err PyNone = Inr JNull"
| "json_encode err (PyBool b) = Inr (JBool b)"
| "json_encode err (PyInt i) = Inr (JInt i)"
| "json_encode err (PyFloat r v) = Inr (JFloat r)"
| "json_encode err (PyDecimal a) = Inl err"
| "json_encode err (PyDatetime d) = Inl err"
| "json_encode err (PyStr s) = Inr (JStr s)"
| "json_encode err (PyList xs) = res_map JArr (res_mapM (json_encode err) xs)"
| "json_encode err (PyDict d) =
     res_map JObj (res_mapM (\<lambda>kv. res_map (Pair (fst kv)) (json_encode err (snd kv))) d)"
  by pat_completeness auto
termination
  by (relation "measure (\<lambda>(e, v). size v)") (auto intro: size_list_mem size_dict_mem)

text \<open>\<^verbatim>\<open>json.loads(json.dumps(value, default=str, sort_keys=True))\<close>: keys sorted at every level,
  decimals and timestamps as text.\<close>

function jsonable :: "py_value \<Rightarrow> json" where
  "jsonable PyNone = JNull"
| "jsonable (PyBool b) = JBool b"
| "jsonable (PyInt i) = JInt i"
| "jsonable (PyFloat r v) = JFloat r"
| "jsonable (PyDecimal a) = JStr (dec_str a)"
| "jsonable (PyDatetime d) = JStr (datetime_str d)"
| "jsonable (PyStr s) = JStr s"
| "jsonable (PyList xs) = JArr (map jsonable xs)"
| "jsonable (PyDict d) = JObj (map (\<lambda>kv. (fst kv, jsonable (snd kv))) (sort_key fst d))"
  by pat_completeness auto
termination
  by (relation "measure size") (auto intro: size_list_mem size_dict_mem)

text \<open>\<^verbatim>\<open>_checksum(value)\<close> of the modules that fingerprint a document: SHA-256 of its canonical
  JSON.\<close>

definition json_checksum :: "py_value \<Rightarrow> string" where
  "json_checksum v = sha256_hex (json_dumps (jsonable v))"

end
