(* ===== verification/Data_Foundation.thy ===== *)
theory Data_Foundation
  imports Py_Value
begin

text \<open>
  Model of \<^verbatim>\<open>packages/shared/goodmoneying_shared/data_foundation.py\<close>: the collection policy of a
  market, the classification of coverage evidence, the gaps inside a page of minute candles, and
  the rule by which a worker may claim a durable job. A \<^verbatim>\<open>ValueError\<close> of the source is a
  constructor of \<open>df_error\<close>; a comparison of a naive with an aware value is \<open>Df_TypeError\<close>.
\<close>

section \<open>Data\<close>

datatype coverage_state = Available | No_trade | Missing | Unavailable | Unverified

datatype durable_job_status =
  Pending | Leased | Running | Retry_wait | Succeeded | Failed | Dead_letter | Cancelled

datatype df_error =
    Df_NotUtc string
  | Df_StartNotBeforeChange
  | Df_NoDataTypes
  | Df_DuplicateDataTypes
  | Df_UnsupportedDataType
  | Df_UnsupportedCandleUnit
  | Df_RetentionOutOfRange
  | Df_PriorityOutOfRange
  | Df_EmptyRange
  | Df_TypeError

definition ALLOWED_COLLECTION_DATA_TYPES :: "string list" where
  "ALLOWED_COLLECTION_DATA_TYPES =
     [''source_candle'', ''trade_event'', ''orderbook_snapshot'', ''ticker_snapshot'']"

definition DEFAULT_KRW_START_AT :: datetime where
  "DEFAULT_KRW_START_AT = utc (dt_combine 2024 1 1 0 0 0 0)"

record market_catalog_item =
  mci_market_code :: string
  mci_korean_name :: string
  mci_english_name :: string
  mci_market_warning :: string
  mci_tradable :: bool
  mci_market_event :: "(string \<times> py_value) list"

record default_collection_target =
  dct_market_code :: string
  dct_data_type :: string
  dct_candle_unit :: "string option"
  dct_start_at :: datetime
  dct_continuous :: bool
  dct_retention_days :: "int option"
  dct_priority :: int

record coverage_evidence =
  before_listing :: bool
  after_trading_end :: bool
  outside_source_retention :: bool
  source_row_count :: int
  manifest_checksum :: "string option"
  request_succeeded :: bool
  no_trade_corroborated :: bool
  attempted :: bool
  retry_budget_exhausted :: bool
  market_trading_resumed :: bool

record durable_job_state =
  job_status :: durable_job_status
  job_lease_owner :: "string option"
  job_lease_expires_at :: "datetime option"

record market_collection_policy_settings =
  pol_start_at :: datetime
  pol_data_types :: "string list"
  pol_candle_unit :: string
  pol_retention_days :: "int option"
  pol_priority :: int
  pol_continuous :: bool

section \<open>Operations\<close>

text \<open>\<^verbatim>\<open>market_code.partition("-")\<close>: the text before the first dash, and the text after it.\<close>

definition quote_currency :: "market_catalog_item \<Rightarrow> string" where
  "quote_currency m = takeWhile (\<lambda>c. c \<noteq> CHR ''-'') (mci_market_code m)"

definition base_asset :: "market_catalog_item \<Rightarrow> string" where
  "base_asset m = drop 1 (dropWhile (\<lambda>c. c \<noteq> CHR ''-'') (mci_market_code m))"

definition require_utc :: "datetime \<Rightarrow> string \<Rightarrow> df_error + unit" where
  "require_utc v name = res_guard (Df_NotUtc name) (is_utc v)"

definition policy_validate :: "market_collection_policy_settings \<Rightarrow> datetime \<Rightarrow> df_error + unit" where
  "policy_validate p changed_at =
     res_bind (require_utc changed_at ''changed_at'') (\<lambda>_.
     res_bind (require_utc (pol_start_at p) ''start_at'') (\<lambda>_.
     if instant (pol_start_at p) \<ge> instant changed_at then Inl Df_StartNotBeforeChange
     else if pol_data_types p = [] then Inl Df_NoDataTypes
     else if length (pol_data_types p) \<noteq> card (set (pol_data_types p)) then Inl Df_DuplicateDataTypes
     else if \<not> set (pol_data_types p) \<subseteq> set ALLOWED_COLLECTION_DATA_TYPES then Inl Df_UnsupportedDataType
     else if pol_candle_unit p \<noteq> ''1m'' then Inl Df_UnsupportedCandleUnit
     else if (case pol_retention_days p of None \<Rightarrow> False | Some d \<Rightarrow> \<not> (1 \<le> d \<and> d \<le> 36500))
       then Inl Df_RetentionOutOfRange
     else if \<not> (1 \<le> pol_priority p \<and> pol_priority p \<le> 1000) then Inl Df_PriorityOutOfRange
     else Inr ()))"

definition build_default_krw_targets ::
  "market_catalog_item \<Rightarrow> datetime \<Rightarrow> df_error + default_collection_target list" where
  "build_default_krw_targets m observed_at =
     res_bind (require_utc observed_at ''observed_at'') (\<lambda>_.
     if quote_currency m \<noteq> ''KRW'' then Inr []
     else Inr (map (\<lambda>(data_type, candle_unit).
       \<lparr>dct_market_code = mci_market_code m, dct_data_type = data_type, dct_candle_unit = candle_unit,
        dct_start_at = DEFAULT_KRW_START_AT, dct_continuous = True, dct_retention_days = None,
        dct_priority = 100\<rparr>)
       [(''source_candle'', Some ''1m''), (''trade_event'', None),
        (''orderbook_snapshot'', None), (''ticker_snapshot'', None)]))"

definition classify_coverage :: "coverage_evidence \<Rightarrow> coverage_state" where
  "classify_coverage e =
     (if before_listing e \<or> outside_source_retention e \<or>
         (after_trading_end e \<and> \<not> market_trading_resumed e) then Unavailable
      else if source_row_count e > 0 \<and>
         (case manifest_checksum e of None \<Rightarrow> False | Some c \<Rightarrow> c \<noteq> []) then Available
      else if request_succeeded e \<and> no_trade_corroborated e then No_trade
      else if attempted e \<and> retry_budget_exhausted e then Missing
      else Unverified)"

definition minute_gaps :: "int list \<Rightarrow> (int \<times> int) list" where
  "minute_gaps starts =
     filter (\<lambda>(gap_start, following). gap_start < following)
       (map (\<lambda>(previous, following). (previous + minute_us, following)) (adjacent_pairs starts))"

definition internal_minute_candle_gaps ::
  "datetime \<Rightarrow> datetime \<Rightarrow> datetime list \<Rightarrow> df_error + (int \<times> int) list" where
  "internal_minute_candle_gaps requested_start_at requested_end_at candle_starts =
     res_bind (require_utc requested_start_at ''requested_start_at'') (\<lambda>_.
     res_bind (require_utc requested_end_at ''requested_end_at'') (\<lambda>_.
     if instant requested_start_at \<ge> instant requested_end_at then Inl Df_EmptyRange
     else if \<exists>c\<in>set candle_starts. \<not> is_aware c then Inl Df_TypeError
     else let bounded_starts = sort_key instant (dedup_first instant
                (filter (\<lambda>c. instant requested_start_at \<le> instant c \<and>
                   instant c < instant requested_end_at) candle_starts))
          in res_bind (res_mapM (\<lambda>c. require_utc c ''candle_starts'') bounded_starts) (\<lambda>_.
             Inr (minute_gaps (map instant bounded_starts)))))"

definition can_claim_job :: "durable_job_state \<Rightarrow> datetime \<Rightarrow> df_error + bool" where
  "can_claim_job job now =
     res_bind (require_utc now ''now'') (\<lambda>_.
     if job_status job = Pending \<or> job_status job = Retry_wait then Inr True
     else case job_lease_expires_at job of
       None \<Rightarrow> Inr False
     | Some expires \<Rightarrow>
         if \<not> (job_status job = Leased \<or> job_status job = Running) then Inr False
         else res_bind (require_utc expires ''lease_expires_at'') (\<lambda>_.
           Inr (instant expires \<le> instant now)))"

section \<open>Gaps of a minute page\<close>

lemma minute_gaps_Cons2:
  "minute_gaps (p # q # rest) =
     (if p + minute_us < q then [(p + minute_us, q)] else []) @ minute_gaps (q # rest)"
  by (simp add: minute_gaps_def)

lemma minute_gaps_short [simp]: "minute_gaps [] = []" "minute_gaps [p] = []"
  by (simp_all add: minute_gaps_def)

text \<open>
  Between the first and the last candle an instant lies in a reported gap exactly when no candle
  of the page covers it; no gap reaches outside that range.
\<close>

lemma minute_gaps_spec:
  assumes "sorted_wrt (<) starts" and "starts \<noteq> []"
  shows "(\<exists>(a, b)\<in>set (minute_gaps starts). a \<le> t \<and> t < b) \<longleftrightarrow>
    hd starts \<le> t \<and> t < last starts \<and> (\<forall>c\<in>set starts. \<not> (c \<le> t \<and> t < c + minute_us))"
  using assms
proof (induction starts rule: induct_list012)
  case (3 p q rest)
  have later: "\<forall>c\<in>set (q # rest). q \<le> c" and pq: "p < q" using 3 by auto
  have IH: "(\<exists>(a, b)\<in>set (minute_gaps (q # rest)). a \<le> t \<and> t < b) \<longleftrightarrow>
    q \<le> t \<and> t < last (q # rest) \<and> (\<forall>c\<in>set (q # rest). \<not> (c \<le> t \<and> t < c + minute_us))"
    using 3 by simp
  have "q \<le> last (q # rest)" using later last_in_set by blast
  show ?case
  proof (cases "t < q")
    case True
    then have "\<forall>c\<in>set (q # rest). \<not> (c \<le> t \<and> t < c + minute_us)" using later by fastforce
    moreover have "\<not> (\<exists>(a, b)\<in>set (minute_gaps (q # rest)). a \<le> t \<and> t < b)"
      using IH True by simp
    ultimately show ?thesis
      using True pq \<open>q \<le> last (q # rest)\<close> us_pos(2)
      by (auto simp: minute_gaps_Cons2 simp del: us_pos)
  next
    case False
    have "t < p + minute_us \<Longrightarrow> t < q + minute_us" using pq by simp
    then show ?thesis
      using IH False pq by (auto simp: minute_gaps_Cons2)
  qed
qed (auto simp: not_less)

lemma minute_gaps_nonempty: "(a, b) \<in> set (minute_gaps starts) \<Longrightarrow> a < b"
  by (auto simp: minute_gaps_def)

definition bounded_instants :: "datetime \<Rightarrow> datetime \<Rightarrow> datetime list \<Rightarrow> int list" where
  "bounded_instants s e cs =
     map instant (sort_key instant (dedup_first instant
       (filter (\<lambda>c. instant s \<le> instant c \<and> instant c < instant e) cs)))"

lemma set_bounded_instants:
  "set (bounded_instants s e cs) = {u \<in> instant ` set cs. instant s \<le> u \<and> u < instant e}"
  by (auto simp: bounded_instants_def dedup_first_keys)

lemma strict_sorted_bounded_instants: "sorted_wrt (<) (bounded_instants s e cs)"
proof -
  let ?ds = "dedup_first instant (filter (\<lambda>c. instant s \<le> instant c \<and> instant c < instant e) cs)"
  have "distinct (map instant (sort_key instant ?ds))"
    using dedup_first_distinct [of instant] by (simp add: distinct_map)
  then show ?thesis by (simp add: sorted_wrt_less_iff bounded_instants_def)
qed

lemma internal_minute_candle_gaps_utc:
  assumes "is_utc s" "is_utc e" "instant s < instant e" "\<forall>c\<in>set cs. is_utc c"
  shows "internal_minute_candle_gaps s e cs = Inr (minute_gaps (bounded_instants s e cs))"
proof -
  have aware: "\<not> (\<exists>c\<in>set cs. \<not> is_aware c)" using assms(4) by (auto simp: is_utc_def is_aware_def)
  let ?bs = "sort_key instant (dedup_first instant
      (filter (\<lambda>c. instant s \<le> instant c \<and> instant c < instant e) cs))"
  have "\<forall>c\<in>set ?bs. is_utc c" using assms(4) dedup_first_subset by fastforce
  then have "res_mapM (\<lambda>c. require_utc c ''candle_starts'') ?bs = Inr (map (\<lambda>_. ()) ?bs)"
    by (intro res_mapM_cong_Inr) (simp add: require_utc_def)
  then show ?thesis
    using assms(1-3) aware
    by (simp add: internal_minute_candle_gaps_def require_utc_def res_guard_def bounded_instants_def)
qed

lemma hd_last_strict_sorted:
  fixes xs :: "'a::linorder list"
  assumes "sorted_wrt (<) xs" and "xs \<noteq> []"
  shows "hd xs = Min (set xs)" "last xs = Max (set xs)"
proof -
  have s: "sorted xs" using assms(1) by (simp add: sorted_wrt_less_iff)
  show "hd xs = Min (set xs)"
    using s assms(2) by (cases xs) (auto intro!: Min_eqI [symmetric])
  show "last xs = Max (set xs)"
    using s assms(2)
    by (cases xs rule: rev_cases) (auto intro!: Max_eqI [symmetric] simp: sorted_append)
qed

section \<open>Properties\<close>

text \<open>
  Gap detection inside a page of minute candles is exact: for UTC input with a non-empty
  requested range the function returns, and an instant lies in a returned half-open gap exactly
  when it is between the first and the last candle start of the range and inside no candle's
  minute.
\<close>

theorem internal_minute_candle_gaps_exact:
  assumes "is_utc s" "is_utc e" "instant s < instant e" "\<forall>c\<in>set cs. is_utc c"
    and "B = {u \<in> instant ` set cs. instant s \<le> u \<and> u < instant e}"
  shows "\<exists>gaps. internal_minute_candle_gaps s e cs = Inr gaps \<and>
    (\<forall>t. (\<exists>(a, b)\<in>set gaps. a \<le> t \<and> t < b) \<longleftrightarrow>
      B \<noteq> {} \<and> Min B \<le> t \<and> t < Max B \<and> (\<forall>c\<in>B. \<not> (c \<le> t \<and> t < c + minute_us)))"
proof -
  let ?xs = "bounded_instants s e cs"
  have B: "set ?xs = B" using assms(5) by (simp add: set_bounded_instants)
  have "(\<exists>(a, b)\<in>set (minute_gaps ?xs). a \<le> t \<and> t < b) \<longleftrightarrow>
      B \<noteq> {} \<and> Min B \<le> t \<and> t < Max B \<and> (\<forall>c\<in>B. \<not> (c \<le> t \<and> t < c + minute_us))" for t
    using minute_gaps_spec [OF strict_sorted_bounded_instants, of s e cs t]
      hd_last_strict_sorted [OF strict_sorted_bounded_instants, of s e cs]
    by (cases "?xs = []") (auto simp: B [symmetric])
  then show ?thesis using internal_minute_candle_gaps_utc [OF assms(1-4)] by blast
qed

theorem internal_minute_candle_gaps_exact_witness:
  "\<exists>gaps. internal_minute_candle_gaps (utc 0) (utc 600000000) [utc 0, utc 180000000] = Inr gaps \<and>
     (\<forall>t. (\<exists>(a, b)\<in>set gaps. a \<le> t \<and> t < b) \<longleftrightarrow>
        {0::int, 180000000} \<noteq> {} \<and> Min {0, 180000000} \<le> t \<and> t < Max {0, 180000000} \<and>
        (\<forall>c\<in>{0, 180000000}. \<not> (c \<le> t \<and> t < c + minute_us)))"
  by (rule internal_minute_candle_gaps_exact) auto

text \<open>
  A durable job is handed to a worker exactly when it is waiting (pending or between retries)
  or its lease has expired; in particular a live lease and every finished job are refused.
\<close>

theorem can_claim_job_iff:
  "can_claim_job job now = Inr True \<longleftrightarrow>
     is_utc now \<and>
     (job_status job \<in> {Pending, Retry_wait} \<or>
      job_status job \<in> {Leased, Running} \<and>
      (\<exists>x. job_lease_expires_at job = Some x \<and> is_utc x \<and> instant x \<le> instant now))"
  by (auto simp: can_claim_job_def require_utc_def res_guard_def res_bind_eq_Inr_iff
      split: option.splits if_splits)

end
