(* ===== verification/Rollup_Grid.thy ===== *)
theory Rollup_Grid
  imports Py_Datetime
begin

text \<open>
  Model of the bucket arithmetic of \<^verbatim>\<open>aggregation.py\<close> (\<^verbatim>\<open>rollup_bucket_start\<close>) and of
  \<^verbatim>\<open>incremental_aggregation.py\<close>: the end of a bucket, the compression of changed source times
  and of coverage intervals into recomputation ranges of at most 512 buckets. The contract the
  range builders rely on is the locale \<open>bucket_grid\<close>, interpreted on the start and end functions
  of every aggregation unit.
\<close>

section \<open>Units and buckets\<close>

datatype agg_error =
    Agg_NaiveTimestamp
  | Agg_UnsupportedUnit string
  | Agg_DayOutOfRange
  | Agg_NotUtc

definition AGGREGATION_UNITS :: "string list" where
  "AGGREGATION_UNITS = [''1m'', ''3m'', ''5m'', ''10m'', ''15m'', ''30m'', ''1h'', ''4h'', ''1d'', ''1w'', ''1M'']"

definition MATERIALIZED_AGGREGATION_UNITS :: "string list" where
  "MATERIALIZED_AGGREGATION_UNITS = tl AGGREGATION_UNITS"

definition bucket_minute_units :: "(string \<times> int) list" where
  "bucket_minute_units =
     [(''1m'', 1), (''3m'', 3), (''5m'', 5), (''10m'', 10), (''15m'', 15), (''30m'', 30), (''1h'', 60)]"

definition rollup_bucket_start :: "string \<Rightarrow> datetime \<Rightarrow> agg_error + int" where
  "rollup_bucket_start unit source =
     (if \<not> is_aware source then Inl Agg_NaiveTimestamp
      else let s = instant source in
        case map_of bucket_minute_units unit of
          Some k \<Rightarrow> Inr (dt_combine (dt_year s) (dt_month s) (dt_day s) (dt_hour s)
                      (dt_minute s - dt_minute s mod k) 0 0)
        | None \<Rightarrow>
            if unit = ''4h'' then
              Inr (dt_combine (dt_year s) (dt_month s) (dt_day s) (dt_hour s - dt_hour s mod 4) 0 0 0)
            else if unit = ''1d'' then Inr (dt_combine (dt_year s) (dt_month s) (dt_day s) 0 0 0 0)
            else if unit = ''1w'' then
              let w = s - dt_weekday s * day_us
              in Inr (dt_combine (dt_year w) (dt_month w) (dt_day w) 0 0 0 0)
            else if unit = ''1M'' then Inr (dt_combine (dt_year s) (dt_month s) 1 0 0 0 0)
            else Inl (Agg_UnsupportedUnit unit))"

definition rollup_durations :: "(string \<times> int) list" where
  "rollup_durations =
     [(''3m'', 3 * minute_us), (''5m'', 5 * minute_us), (''10m'', 10 * minute_us),
      (''15m'', 15 * minute_us), (''30m'', 30 * minute_us), (''1h'', hour_us), (''4h'', 4 * hour_us),
      (''1d'', day_us), (''1w'', 7 * day_us)]"

text \<open>\<^verbatim>\<open>replace(month=...)\<close> raises when the target month has no such day.\<close>

definition replace_month :: "int \<Rightarrow> int \<Rightarrow> int \<Rightarrow> agg_error + int" where
  "replace_month t y m =
     (if dt_day t \<le> days_in_month y m
      then Inr (dt_combine y m (dt_day t) (dt_hour t) (dt_minute t) (dt_second t) (dt_microsecond t))
      else Inl Agg_DayOutOfRange)"

definition rollup_bucket_end :: "string \<Rightarrow> int \<Rightarrow> agg_error + int" where
  "rollup_bucket_end unit bucket_start =
     (if unit = ''1M'' then
        (if dt_month bucket_start = 12 then replace_month bucket_start (dt_year bucket_start + 1) 1
         else replace_month bucket_start (dt_year bucket_start) (dt_month bucket_start + 1))
      else case map_of rollup_durations unit of
        Some w \<Rightarrow> Inr (bucket_start + w)
      | None \<Rightarrow> Inl (Agg_UnsupportedUnit unit))"

section \<open>Invalidation ranges\<close>

definition MAX_OUTPUT_BUCKETS_PER_JOB :: int where
  "MAX_OUTPUT_BUCKETS_PER_JOB = 512"

record rollup_invalidation_range =
  rir_unit :: string
  rir_start_at :: int
  rir_end_at :: int
  rir_output_bucket_count :: int

fun group_ranges ::
  "string \<Rightarrow> int \<Rightarrow> int \<Rightarrow> int \<Rightarrow> int list \<Rightarrow> agg_error + rollup_invalidation_range list" where
  "group_ranges unit group_start previous cnt [] =
     res_map (\<lambda>e. [\<lparr>rir_unit = unit, rir_start_at = group_start, rir_end_at = e,
                     rir_output_bucket_count = cnt\<rparr>])
       (rollup_bucket_end unit previous)"
| "group_ranges unit group_start previous cnt (current # rest) =
     res_bind (rollup_bucket_end unit previous) (\<lambda>e.
       if current = e \<and> cnt < MAX_OUTPUT_BUCKETS_PER_JOB
       then group_ranges unit group_start current (cnt + 1) rest
       else res_map (\<lambda>rs. \<lparr>rir_unit = unit, rir_start_at = group_start, rir_end_at = e,
                            rir_output_bucket_count = cnt\<rparr> # rs)
              (group_ranges unit current current 1 rest))"

definition affected_unit_ranges ::
  "datetime list \<Rightarrow> string \<Rightarrow> agg_error + rollup_invalidation_range list" where
  "affected_unit_ranges changed_at unit =
     res_bind (res_mapM (rollup_bucket_start unit) changed_at) (\<lambda>buckets.
       case sorted_set buckets of
         [] \<Rightarrow> Inr []
       | b # rest \<Rightarrow> group_ranges unit b b 1 rest)"

definition affected_rollup_ranges ::
  "datetime list \<Rightarrow> string list \<Rightarrow> agg_error + rollup_invalidation_range list" where
  "affected_rollup_ranges changed_at units =
     (if \<exists>v\<in>set changed_at. \<not> is_utc v then Inl Agg_NotUtc
      else res_map concat (res_mapM (affected_unit_ranges changed_at) units))"

function fill_group :: "string \<Rightarrow> int \<Rightarrow> int \<Rightarrow> int \<Rightarrow> agg_error + (int \<times> int)" where
  "fill_group unit last_bucket current cnt =
     (if current \<le> last_bucket \<and> cnt < MAX_OUTPUT_BUCKETS_PER_JOB
      then res_bind (rollup_bucket_end unit current) (\<lambda>e. fill_group unit last_bucket e (cnt + 1))
      else Inr (current, cnt))"
  by pat_completeness auto
termination
  by (relation "measure (\<lambda>(u, l, c, n). nat (512 - n))") (auto simp: MAX_OUTPUT_BUCKETS_PER_JOB_def)

declare fill_group.simps [simp del]

lemma month_search_range: "1 \<le> m \<Longrightarrow> m \<le> 12 \<Longrightarrow> m \<le> month_search y r m \<and> month_search y r m \<le> 12"
proof (induction y r m rule: month_search.induct)
  case (1 y r m)
  then show ?case by (auto simp: month_search.simps [of y r m])
qed

lemma dt_month_range: "1 \<le> dt_month t" "dt_month t \<le> 12"
  using month_search_range [of 1] by (auto simp: dt_month_def ord_month_def)

lemma replace_next_month:
  assumes "replace_month t (if dt_month t = 12 then dt_year t + 1 else dt_year t)
      (if dt_month t = 12 then 1 else dt_month t + 1) = Inr e"
  shows "e = t + days_in_month (dt_year t) (dt_month t) * day_us"
proof -
  let ?y = "dt_year t" and ?m = "dt_month t"
  have next_ord: "(if ?m = 12 then ymd2ord (?y + 1) 1 d else ymd2ord ?y (?m + 1) d) =
      ymd2ord ?y ?m d + days_in_month ?y ?m" for d
    using ymd2ord_next_month [OF dt_month_range(1) [of t] dt_month_range(2) [of t], of ?y] by (auto simp: ymd2ord_def split: if_splits)
  have shift: "dt_combine y m d h mi s us =
      (ymd2ord y m d - ymd2ord y' m' d) * day_us + dt_combine y' m' d h mi s us" for y m y' m' d h mi s us
    by (simp add: dt_combine_def algebra_simps)
  show ?thesis
    using assms next_ord [of "dt_day t"] dt_combine_fields [of t]
      shift [of "?y + 1" 1 "dt_day t" "dt_hour t" "dt_minute t" "dt_second t" "dt_microsecond t" ?y ?m]
      shift [of ?y "?m + 1" "dt_day t" "dt_hour t" "dt_minute t" "dt_second t" "dt_microsecond t" ?y ?m]
    by (auto simp: replace_month_def split: if_splits)
qed

lemma rollup_bucket_end_month:
  "rollup_bucket_end ''1M'' t =
     replace_month t (if dt_month t = 12 then dt_year t + 1 else dt_year t)
       (if dt_month t = 12 then 1 else dt_month t + 1)"
  by (simp add: rollup_bucket_end_def)

lemma rollup_bucket_end_gt: "rollup_bucket_end unit t = Inr e \<Longrightarrow> t < e"
proof (cases "unit = ''1M''")
  case True
  assume "rollup_bucket_end unit t = Inr e"
  then have "e = t + days_in_month (dt_year t) (dt_month t) * day_us"
    using True replace_next_month by (simp add: rollup_bucket_end_month)
  moreover have "0 < days_in_month (dt_year t) (dt_month t)"
    using days_in_month_pos(1) [of "dt_year t" "dt_month t"] by simp
  ultimately show ?thesis by (simp add: zero_less_mult_iff)
next
  case False
  assume "rollup_bucket_end unit t = Inr e"
  then show ?thesis
    using False us_pos
    by (auto simp: rollup_bucket_end_def rollup_durations_def split: option.splits if_splits)
qed

lemma fill_group_ge: "fill_group unit l c n = Inr (c', n') \<Longrightarrow> c \<le> c' \<and> n \<le> n'"
proof (induction unit l c n rule: fill_group.induct)
  case (1 unit l c n)
  then show ?case
    using rollup_bucket_end_gt
    by (fastforce simp: fill_group.simps [of unit l c n] res_bind_eq_Inr_iff split: if_splits)
qed

lemma fill_group_progress:
  assumes "fill_group unit l c 0 = Inr (c', n)" and "c \<le> l"
  shows "c < c'"
proof -
  obtain e where "rollup_bucket_end unit c = Inr e" "fill_group unit l e 1 = Inr (c', n)"
    using assms by (auto simp: fill_group.simps [of unit l c 0] res_bind_eq_Inr_iff
        MAX_OUTPUT_BUCKETS_PER_JOB_def)
  then show ?thesis using rollup_bucket_end_gt fill_group_ge by fastforce
qed

function interval_groups :: "string \<Rightarrow> int \<Rightarrow> int \<Rightarrow> agg_error + rollup_invalidation_range list" where
  "interval_groups unit last_bucket current =
     (if current \<le> last_bucket
      then (case fill_group unit last_bucket current 0 of
          Inl e \<Rightarrow> Inl e
        | Inr (stop, cnt) \<Rightarrow>
            res_map (\<lambda>rs. \<lparr>rir_unit = unit, rir_start_at = current, rir_end_at = stop,
                             rir_output_bucket_count = cnt\<rparr> # rs)
              (interval_groups unit last_bucket stop))
      else Inr [])"
  by pat_completeness auto
termination
  by (relation "measure (\<lambda>(u, l, c). nat (l + 1 - c))") (auto dest: fill_group_progress)

declare interval_groups.simps [simp del]

definition interval_unit_ranges ::
  "int \<Rightarrow> int \<Rightarrow> string \<Rightarrow> agg_error + rollup_invalidation_range list" where
  "interval_unit_ranges start_at end_at unit =
     res_bind (rollup_bucket_start unit (utc start_at)) (\<lambda>current.
     res_bind (rollup_bucket_start unit (utc (end_at - 1))) (\<lambda>last_bucket.
       interval_groups unit last_bucket current))"

definition affected_rollup_ranges_for_interval ::
  "datetime \<Rightarrow> datetime \<Rightarrow> string list \<Rightarrow> agg_error + rollup_invalidation_range list" where
  "affected_rollup_ranges_for_interval start_at end_at units =
     (if \<not> is_utc start_at \<or> \<not> is_utc end_at then Inl Agg_NotUtc
      else if instant start_at \<ge> instant end_at then Inr []
      else res_map concat (res_mapM (interval_unit_ranges (instant start_at) (instant end_at)) units))"

section \<open>The contract of a bucket grid\<close>

text \<open>
  What the range builders need of a pair of bucket functions: \<open>bstart t\<close> is the start of the
  bucket of \<open>t\<close>, \<open>bnext b\<close> the start of the bucket after the one that starts at \<open>b\<close>, and the
  buckets tile the time axis.
\<close>

locale bucket_grid =
  fixes bstart bnext :: "int \<Rightarrow> int"
  assumes start_le: "0 \<le> t \<Longrightarrow> bstart t \<le> t"
    and start_nonneg: "0 \<le> t \<Longrightarrow> 0 \<le> bstart t"
    and start_idem: "0 \<le> t \<Longrightarrow> bstart (bstart t) = bstart t"
    and before_next: "0 \<le> t \<Longrightarrow> t < bnext (bstart t)"
    and start_next: "0 \<le> b \<Longrightarrow> bstart b = b \<Longrightarrow> bstart (bnext b) = bnext b"
    and same_bucket: "0 \<le> b \<Longrightarrow> bstart b = b \<Longrightarrow> b \<le> t \<Longrightarrow> t < bnext b \<Longrightarrow> bstart t = b"
begin

lemma next_gt: "0 \<le> b \<Longrightarrow> bstart b = b \<Longrightarrow> b < bnext b"
  using before_next [of b] by simp

lemma in_bucket_iff: "0 \<le> b \<Longrightarrow> bstart b = b \<Longrightarrow> 0 \<le> t \<Longrightarrow> b \<le> t \<and> t < bnext b \<longleftrightarrow> bstart t = b"
  using same_bucket start_le before_next by blast

lemma start_mono:
  assumes "0 \<le> s" "s \<le> t"
  shows "bstart s \<le> bstart t"
proof (rule ccontr)
  assume "\<not> bstart s \<le> bstart t"
  then have "bstart t < s" using start_le [of s] assms by linarith
  moreover have "s < bnext (bstart t)" using before_next [of t] assms by linarith
  ultimately have "bstart s = bstart t"
    using same_bucket [of "bstart t" s] start_idem start_nonneg assms by simp
  then show False using \<open>\<not> bstart s \<le> bstart t\<close> by simp
qed

text \<open>No bucket starts strictly inside another one.\<close>

lemma next_le:
  assumes "0 \<le> b" "bstart b = b" "bstart c = c" "b < c"
  shows "bnext b \<le> c"
proof (rule ccontr)
  assume "\<not> bnext b \<le> c"
  then have "bstart c = b" using same_bucket [of b c] assms by linarith
  then show False using assms by simp
qed

definition bucket_iter :: "nat \<Rightarrow> int \<Rightarrow> int" where
  "bucket_iter n b = (bnext ^^ n) b"

lemma bucket_iter_simps [simp]:
  "bucket_iter 0 b = b" "bucket_iter (Suc n) b = bucket_iter n (bnext b)"
  by (simp_all add: bucket_iter_def funpow_swap1)

lemma bucket_iter_Suc_right: "bucket_iter (Suc n) b = bnext (bucket_iter n b)"
  by (simp add: bucket_iter_def)

lemma bucket_iter_start:
  "0 \<le> b \<Longrightarrow> bstart b = b \<Longrightarrow> bstart (bucket_iter n b) = bucket_iter n b \<and> b \<le> bucket_iter n b"
proof (induction n arbitrary: b)
  case (Suc n)
  have "b < bnext b" "bstart (bnext b) = bnext b" using Suc.prems next_gt start_next by auto
  then show ?case using Suc.IH [of "bnext b"] Suc.prems by simp
qed simp

end

text \<open>Truncation to a fixed width satisfies the contract, and so do calendar months.\<close>

lemma grid_bucket_grid: "0 < w \<Longrightarrow> bucket_grid (grid_start w) (\<lambda>b. b + w)"
proof
  fix t :: int
  assume w: "0 < w" and t: "0 \<le> t"
  show "grid_start w t \<le> t" "t < grid_start w t + w" using grid_start_bounds [OF w, of t] by auto
  show "0 \<le> grid_start w t" using t w by (simp add: grid_start_def zmod_le_nonneg_dividend)
  show "grid_start w (grid_start w t) = grid_start w t"
    by (simp add: grid_start_eq_self_iff grid_start_dvd)
next
  fix b t :: int
  assume w: "0 < w" and b: "0 \<le> b" "grid_start w b = b"
  show "grid_start w (b + w) = b + w" using b by (simp add: grid_start_eq_self_iff)
  show "grid_start w t = b" if "b \<le> t" "t < b + w"
    using grid_start_unique [OF w _ that] b by (simp add: grid_start_eq_self_iff)
qed

lemma month_bucket_grid: "bucket_grid month_start month_next"
proof
  fix t :: int
  assume t: "0 \<le> t"
  show "month_start t \<le> t" "0 \<le> month_start t" using month_bounds [OF t] by auto
  show "month_start (month_start t) = month_start t" by (rule month_start_idem [OF t])
  show "t < month_next (month_start t)"
    unfolding month_next_start [OF t] by (rule month_bounds(2) [OF t])
next
  fix b t :: int
  assume b: "0 \<le> b" "month_start b = b"
  show "month_start (month_next b) = month_next b" by (rule month_start_next [OF b(1)])
  show "month_start t = b" if "b \<le> t" "t < month_next b" by (rule same_month(3) [OF b that])
qed

section \<open>The units of the program\<close>

datatype agg_unit = U1m | U3m | U5m | U10m | U15m | U30m | U1h | U4h | U1d | U1w | U1M

fun unit_name :: "agg_unit \<Rightarrow> string" where
  "unit_name U1m = ''1m''" | "unit_name U3m = ''3m''" | "unit_name U5m = ''5m''"
| "unit_name U10m = ''10m''" | "unit_name U15m = ''15m''" | "unit_name U30m = ''30m''"
| "unit_name U1h = ''1h''" | "unit_name U4h = ''4h''" | "unit_name U1d = ''1d''"
| "unit_name U1w = ''1w''" | "unit_name U1M = ''1M''"

fun unit_width :: "agg_unit \<Rightarrow> int" where
  "unit_width U1m = 1 * minute_us" | "unit_width U3m = 3 * minute_us" | "unit_width U5m = 5 * minute_us"
| "unit_width U10m = 10 * minute_us" | "unit_width U15m = 15 * minute_us"
| "unit_width U30m = 30 * minute_us" | "unit_width U1h = 60 * minute_us"
| "unit_width U4h = 4 * hour_us" | "unit_width U1d = day_us" | "unit_width U1w = 7 * day_us"
| "unit_width U1M = 0"

definition unit_start :: "agg_unit \<Rightarrow> int \<Rightarrow> int" where
  "unit_start u t = (if u = U1M then month_start t else grid_start (unit_width u) t)"

definition unit_next :: "agg_unit \<Rightarrow> int \<Rightarrow> int" where
  "unit_next u b = (if u = U1M then month_next b else b + unit_width u)"

lemma unit_width_pos: "u \<noteq> U1M \<Longrightarrow> 0 < unit_width u"
  by (cases u) simp_all

interpretation unit_grid: bucket_grid "unit_start u" "unit_next u" for u
proof (cases "u = U1M")
  case True
  then have "unit_start u = month_start" "unit_next u = month_next"
    by (auto simp: unit_start_def unit_next_def)
  then show "bucket_grid (unit_start u) (unit_next u)" using month_bucket_grid by simp
next
  case False
  then have "unit_start u = grid_start (unit_width u)" "unit_next u = (\<lambda>b. b + unit_width u)"
    by (auto simp: unit_start_def unit_next_def)
  then show "bucket_grid (unit_start u) (unit_next u)"
    using grid_bucket_grid [OF unit_width_pos [OF False]] by simp
qed

lemma UNIV_agg_unit: "UNIV = {U1m, U3m, U5m, U10m, U15m, U30m, U1h, U4h, U1d, U1w, U1M}"
  using agg_unit.exhaust by blast

lemma set_AGGREGATION_UNITS: "set AGGREGATION_UNITS = range unit_name"
  by (auto simp: AGGREGATION_UNITS_def UNIV_agg_unit)

lemma rollup_bucket_start_unit:
  "is_aware d \<Longrightarrow> rollup_bucket_start (unit_name u) d = Inr (unit_start u (instant d))"
  using combine_minute_grid [of 1 "instant d"]
  by (cases u) (simp_all add: rollup_bucket_start_def bucket_minute_units_def unit_start_def
      combine_minute_grid combine_hour_grid combine_day_grid week_grid month_start_def Let_def)

lemma unit_name_inj: "inj unit_name"
proof (rule injI)
  fix u v :: agg_unit
  assume "unit_name u = unit_name v"
  then show "u = v" by (cases u; cases v) simp_all
qed

lemma rollup_bucket_end_unit:
  assumes "u \<noteq> U1m" "0 \<le> b" "unit_start u b = b"
  shows "rollup_bucket_end (unit_name u) b = Inr (unit_next u b)"
proof (cases "u = U1M")
  case True
  then have b: "month_start b = b" using assms(3) by (simp add: unit_start_def)
  have "dt_day b = 1" using month_start_fields(3) [OF assms(2)] b by simp
  moreover have "1 \<le> days_in_month y m" for y m using days_in_month_pos(1) [of y m] by simp
  ultimately obtain e where e: "rollup_bucket_end ''1M'' b = Inr e"
    by (simp add: rollup_bucket_end_month replace_month_def)
  then have "e = b + days_in_month (dt_year b) (dt_month b) * day_us"
    by (intro replace_next_month) (simp add: rollup_bucket_end_month)
  then show ?thesis
    using e True b month_next_eq [OF assms(2)] by (simp add: unit_next_def)
next
  case False
  then show ?thesis
    using assms(1)
    by (cases u) (simp_all add: rollup_bucket_end_def rollup_durations_def unit_next_def hour_us_def)
qed

section \<open>Exactness of the invalidation ranges\<close>

text \<open>One range of a unit: whole buckets, at most 512 of them, counted correctly.\<close>

definition range_ok :: "agg_unit \<Rightarrow> rollup_invalidation_range \<Rightarrow> bool" where
  "range_ok u r \<longleftrightarrow>
     rir_unit r = unit_name u \<and> 0 \<le> rir_start_at r \<and> unit_start u (rir_start_at r) = rir_start_at r \<and>
     1 \<le> rir_output_bucket_count r \<and> rir_output_bucket_count r \<le> MAX_OUTPUT_BUCKETS_PER_JOB \<and>
     rir_end_at r = (unit_next u ^^ nat (rir_output_bucket_count r)) (rir_start_at r)"

definition in_range :: "int \<Rightarrow> rollup_invalidation_range \<Rightarrow> bool" where
  "in_range t r \<longleftrightarrow> rir_start_at r \<le> t \<and> t < rir_end_at r"

abbreviation ranges_ascending :: "rollup_invalidation_range list \<Rightarrow> bool" where
  "ranges_ascending \<equiv> sorted_wrt (\<lambda>r r'. rir_end_at r \<le> rir_start_at r')"

lemma iter_count_step:
  "0 \<le> n \<Longrightarrow> (f ^^ nat (n + 1)) x = f ((f ^^ nat n) x)" for f :: "int \<Rightarrow> int"
  by (simp add: nat_add_distrib)

lemma group_ranges_spec:
  assumes "u \<noteq> U1m" and gs: "0 \<le> gs" "unit_start u gs = gs"
    and prev: "unit_start u prev = prev" "prev = (unit_next u ^^ nat (cnt - 1)) gs"
    and "1 \<le> cnt" "cnt \<le> MAX_OUTPUT_BUCKETS_PER_JOB"
    and "sorted_wrt (<) (prev # rest)" and "\<forall>c\<in>set rest. unit_start u c = c"
  shows "\<exists>rs. group_ranges (unit_name u) gs prev cnt rest = Inr rs \<and>
    (\<forall>r\<in>set rs. range_ok u r \<and> gs \<le> rir_start_at r) \<and> ranges_ascending rs \<and>
    (\<forall>t\<ge>0. (\<exists>r\<in>set rs. in_range t r) \<longleftrightarrow> gs \<le> t \<and> t < unit_next u prev \<or> unit_start u t \<in> set rest)"
  using assms
proof (induction rest arbitrary: gs prev cnt)
  case Nil
  have p: "0 \<le> prev" "gs \<le> prev"
    using unit_grid.bucket_iter_start [OF Nil.prems(2,3), of "nat (cnt - 1)"] Nil.prems
    by (auto simp: unit_grid.bucket_iter_def)
  have e: "unit_next u prev = (unit_next u ^^ nat cnt) gs"
    using iter_count_step [of "cnt - 1" "unit_next u" gs] Nil.prems(5,6) by simp
  show ?case
    using Nil.prems rollup_bucket_end_unit [OF Nil.prems(1) p(1) Nil.prems(4)] e
    by (auto simp: range_ok_def in_range_def)
next
  case (Cons c rest)
  have p: "0 \<le> prev" "gs \<le> prev"
    using unit_grid.bucket_iter_start [OF Cons.prems(2,3), of "nat (cnt - 1)"] Cons.prems
    by (auto simp: unit_grid.bucket_iter_def)
  have e: "unit_next u prev = (unit_next u ^^ nat cnt) gs"
    using iter_count_step [of "cnt - 1" "unit_next u" gs] Cons.prems(5,6) by simp
  note bucket_end = rollup_bucket_end_unit [OF Cons.prems(1) p(1) Cons.prems(4)]
  have c: "unit_start u c = c" "prev < c" using Cons.prems by auto
  have c_ge: "unit_next u prev \<le> c" by (rule unit_grid.next_le [OF p(1) Cons.prems(4) c])
  have c_bucket: "c \<le> t \<and> t < unit_next u c \<longleftrightarrow> unit_start u t = c" if "0 \<le> t" for t
    using unit_grid.in_bucket_iff [of c u t] c p that by simp
  show ?case
  proof (cases "c = unit_next u prev \<and> cnt < MAX_OUTPUT_BUCKETS_PER_JOB")
    case True
    have gs_c: "gs \<le> t \<and> t < unit_next u c \<longleftrightarrow> gs \<le> t \<and> t < unit_next u prev \<or> unit_start u t = c"
      if "0 \<le> t" for t
      using c_bucket [OF that] True p c unit_grid.next_gt [of c u] by auto
    have "\<exists>rs. group_ranges (unit_name u) gs c (cnt + 1) rest = Inr rs \<and>
      (\<forall>r\<in>set rs. range_ok u r \<and> gs \<le> rir_start_at r) \<and> ranges_ascending rs \<and>
      (\<forall>t\<ge>0. (\<exists>r\<in>set rs. in_range t r) \<longleftrightarrow> gs \<le> t \<and> t < unit_next u c \<or> unit_start u t \<in> set rest)"
      using Cons.prems True e by (intro Cons.IH) auto
    then show ?thesis using True bucket_end gs_c by auto
  next
    case False
    have "\<exists>rs. group_ranges (unit_name u) c c 1 rest = Inr rs \<and>
      (\<forall>r\<in>set rs. range_ok u r \<and> c \<le> rir_start_at r) \<and> ranges_ascending rs \<and>
      (\<forall>t\<ge>0. (\<exists>r\<in>set rs. in_range t r) \<longleftrightarrow> c \<le> t \<and> t < unit_next u c \<or> unit_start u t \<in> set rest)"
      using Cons.prems c p by (intro Cons.IH) (auto simp: MAX_OUTPUT_BUCKETS_PER_JOB_def)
    then obtain rs where rs: "group_ranges (unit_name u) c c 1 rest = Inr rs"
      "\<forall>r\<in>set rs. range_ok u r \<and> c \<le> rir_start_at r" "ranges_ascending rs"
      "\<forall>t\<ge>0. (\<exists>r\<in>set rs. in_range t r) \<longleftrightarrow> c \<le> t \<and> t < unit_next u c \<or> unit_start u t \<in> set rest"
      by blast
    let ?r = "\<lparr>rir_unit = unit_name u, rir_start_at = gs, rir_end_at = unit_next u prev,
        rir_output_bucket_count = cnt\<rparr>"
    have "range_ok u ?r" using Cons.prems e by (simp add: range_ok_def)
    moreover have "group_ranges (unit_name u) gs prev cnt (c # rest) = Inr (?r # rs)"
      using False bucket_end rs(1) by auto
    moreover have "\<forall>r\<in>set rs. rir_end_at ?r \<le> rir_start_at r" using rs(2) c_ge by auto
    moreover have "\<forall>r\<in>set rs. gs \<le> rir_start_at r" using rs(2) c p by auto
    moreover have "in_range t ?r \<longleftrightarrow> gs \<le> t \<and> t < unit_next u prev" for t by (simp add: in_range_def)
    ultimately show ?thesis using rs c_bucket by auto
  qed
qed

lemma fill_group_spec:
  assumes "u \<noteq> U1m" "0 \<le> c" "unit_start u c = c" "0 \<le> n" "n \<le> MAX_OUTPUT_BUCKETS_PER_JOB"
  shows "\<exists>c' n'. fill_group (unit_name u) l c n = Inr (c', n') \<and>
    n \<le> n' \<and> n' \<le> MAX_OUTPUT_BUCKETS_PER_JOB \<and> c' = (unit_next u ^^ nat (n' - n)) c \<and>
    unit_start u c' = c' \<and> c \<le> c' \<and> (\<forall>t. c \<le> t \<and> t < c' \<longrightarrow> unit_start u t \<le> l)"
  using assms
proof (induction "unit_name u" l c n rule: fill_group.induct)
  case (1 l c n)
  show ?case
  proof (cases "c \<le> l \<and> n < MAX_OUTPUT_BUCKETS_PER_JOB")
    case True
    let ?e = "unit_next u c"
    have e: "c < ?e" "unit_start u ?e = ?e"
      using 1 unit_grid.next_gt unit_grid.start_next by auto
    note bucket_end = rollup_bucket_end_unit [OF "1.prems"(1,2,3)]
    have "\<exists>c' n'. fill_group (unit_name u) l ?e (n + 1) = Inr (c', n') \<and>
      n + 1 \<le> n' \<and> n' \<le> MAX_OUTPUT_BUCKETS_PER_JOB \<and> c' = (unit_next u ^^ nat (n' - (n + 1))) ?e \<and>
      unit_start u c' = c' \<and> ?e \<le> c' \<and> (\<forall>t. ?e \<le> t \<and> t < c' \<longrightarrow> unit_start u t \<le> l)"
      using "1.prems" True e by (intro "1.hyps") auto
    then obtain c' n' where h: "fill_group (unit_name u) l ?e (n + 1) = Inr (c', n')"
      "n + 1 \<le> n'" "n' \<le> MAX_OUTPUT_BUCKETS_PER_JOB" "c' = (unit_next u ^^ nat (n' - (n + 1))) ?e"
      "unit_start u c' = c'" "?e \<le> c'" "\<forall>t. ?e \<le> t \<and> t < c' \<longrightarrow> unit_start u t \<le> l"
      by blast
    have "nat (n' - n) = Suc (nat (n' - (n + 1)))" using h(2) by simp
    then have "c' = (unit_next u ^^ nat (n' - n)) c" using h(4) by (simp add: funpow_swap1)
    moreover have "unit_start u t \<le> l" if "c \<le> t" "t < c'" for t
      using that h(7) True "1.prems"(2,3) unit_grid.same_bucket [of c u t] by (cases "t < ?e") auto
    ultimately show ?thesis
      using True bucket_end h e by (auto simp: fill_group.simps [of "unit_name u" l c n])
  next
    case False
    then show ?thesis using "1.prems" by (auto simp: fill_group.simps [of "unit_name u" l c n])
  qed
qed

lemma interval_groups_spec:
  assumes "u \<noteq> U1m" "0 \<le> c" "unit_start u c = c" "unit_start u l = l"
  shows "\<exists>rs. interval_groups (unit_name u) l c = Inr rs \<and>
    (\<forall>r\<in>set rs. range_ok u r \<and> c \<le> rir_start_at r) \<and> ranges_ascending rs \<and>
    (\<forall>t\<ge>0. (\<exists>r\<in>set rs. in_range t r) \<longleftrightarrow> c \<le> t \<and> unit_start u t \<le> l)"
  using assms
proof (induction "unit_name u" l c rule: interval_groups.induct)
  case (1 l c)
  show ?case
  proof (cases "c \<le> l")
    case True
    obtain c' n where f: "fill_group (unit_name u) l c 0 = Inr (c', n)"
      "0 \<le> n" "n \<le> MAX_OUTPUT_BUCKETS_PER_JOB" "c' = (unit_next u ^^ nat n) c"
      "unit_start u c' = c'" "\<forall>t. c \<le> t \<and> t < c' \<longrightarrow> unit_start u t \<le> l"
      using fill_group_spec [of u c 0 l] "1.prems" by (auto simp: MAX_OUTPUT_BUCKETS_PER_JOB_def)
    have c': "c < c'" using fill_group_progress [OF f(1) True] .
    then have n: "1 \<le> n" using f(2,4) by (cases "n = 0") auto
    obtain rs where rs: "interval_groups (unit_name u) l c' = Inr rs"
      "\<forall>r\<in>set rs. range_ok u r \<and> c' \<le> rir_start_at r" "ranges_ascending rs"
      "\<forall>t\<ge>0. (\<exists>r\<in>set rs. in_range t r) \<longleftrightarrow> c' \<le> t \<and> unit_start u t \<le> l"
      using "1.hyps" [OF True f(1) refl] "1.prems" f(5) c' by auto
    let ?r = "\<lparr>rir_unit = unit_name u, rir_start_at = c, rir_end_at = c', rir_output_bucket_count = n\<rparr>"
    have eq: "interval_groups (unit_name u) l c = Inr (?r # rs)"
      using True f(1) rs(1) by (simp add: interval_groups.simps [of "unit_name u" l c])
    have "range_ok u ?r" using "1.prems" f n by (simp add: range_ok_def)
    moreover have "(in_range t ?r \<or> (c' \<le> t \<and> unit_start u t \<le> l)) \<longleftrightarrow> c \<le> t \<and> unit_start u t \<le> l" for t
      using f(6) c' by (auto simp: in_range_def)
    ultimately show ?thesis using eq rs c' by fastforce
  next
    case False
    have "\<not> (c \<le> t \<and> unit_start u t \<le> l)" if "0 \<le> t" for t
      using False unit_grid.start_mono [of c t u] "1.prems" by auto
    then show ?thesis using False by (simp add: interval_groups.simps [of "unit_name u" l c])
  qed
qed

text \<open>What a list of ranges promises for one unit, given the set of instants that changed.\<close>

definition unit_ranges_exact :: "agg_unit \<Rightarrow> int set \<Rightarrow> rollup_invalidation_range list \<Rightarrow> bool" where
  "unit_ranges_exact u changed rs \<longleftrightarrow>
     (\<forall>r\<in>set rs. range_ok u r) \<and> ranges_ascending rs \<and>
     (\<forall>t\<ge>0. (\<exists>r\<in>set rs. in_range t r) \<longleftrightarrow> (\<exists>c\<in>changed. unit_start u t = unit_start u c))"

lemma affected_unit_ranges_spec:
  assumes "u \<noteq> U1m" "\<forall>c\<in>set changed. is_utc c \<and> 0 \<le> instant c"
  shows "\<exists>rs. affected_unit_ranges changed (unit_name u) = Inr rs \<and>
    unit_ranges_exact u (instant ` set changed) rs"
proof -
  let ?bs = "map (\<lambda>c. unit_start u (instant c)) changed"
  have aware: "is_aware c" if "c \<in> set changed" for c
    using assms(2) that by (auto simp: is_utc_def is_aware_def)
  have starts: "res_mapM (rollup_bucket_start (unit_name u)) changed = Inr ?bs"
    by (rule res_mapM_cong_Inr) (use aware in \<open>simp add: rollup_bucket_start_unit\<close>)
  show ?thesis
  proof (cases "sorted_set ?bs")
    case Nil
    then show ?thesis
      using starts by (auto simp: affected_unit_ranges_def unit_ranges_exact_def)
  next
    case (Cons b rest)
    have set_b: "insert b (set rest) = unit_start u ` instant ` set changed"
      using set_sorted_set [of ?bs] by (simp add: Cons image_image)
    then have fixed: "\<forall>c\<in>insert b (set rest). 0 \<le> c \<and> unit_start u c = c"
      using assms(2) unit_grid.start_idem unit_grid.start_nonneg by auto
    have sorted: "sorted_wrt (<) (b # rest)" using strict_sorted_set [of ?bs] by (simp add: Cons)
    obtain rs where rs: "group_ranges (unit_name u) b b 1 rest = Inr rs"
      "\<forall>r\<in>set rs. range_ok u r" "ranges_ascending rs"
      "\<forall>t\<ge>0. (\<exists>r\<in>set rs. in_range t r) \<longleftrightarrow> b \<le> t \<and> t < unit_next u b \<or> unit_start u t \<in> set rest"
      using group_ranges_spec [of u b b 1 rest] assms(1) fixed sorted
      by (auto simp: MAX_OUTPUT_BUCKETS_PER_JOB_def)
    have "unit_start u t \<in> insert b (set rest) \<longleftrightarrow> (\<exists>r\<in>set rs. in_range t r)" if "0 \<le> t" for t
      using rs(4) that fixed unit_grid.in_bucket_iff [of b u t] by auto
    then have "unit_ranges_exact u (instant ` set changed) rs"
      using rs set_b by (auto simp: unit_ranges_exact_def)
    then show ?thesis using starts rs(1) Cons by (simp add: affected_unit_ranges_def)
  qed
qed

lemma interval_unit_ranges_spec:
  assumes "u \<noteq> U1m" "0 \<le> s" "s < e"
  shows "\<exists>rs. interval_unit_ranges s e (unit_name u) = Inr rs \<and> unit_ranges_exact u {s..<e} rs"
proof -
  let ?S = "unit_start u"
  obtain rs where rs: "interval_groups (unit_name u) (?S (e - 1)) (?S s) = Inr rs"
    "\<forall>r\<in>set rs. range_ok u r" "ranges_ascending rs"
    "\<forall>t\<ge>0. (\<exists>r\<in>set rs. in_range t r) \<longleftrightarrow> ?S s \<le> t \<and> ?S t \<le> ?S (e - 1)"
    using interval_groups_spec [of u "?S s" "?S (e - 1)"] assms unit_grid.start_nonneg [of s u]
      unit_grid.start_idem [of s u] unit_grid.start_idem [of "e - 1" u] by auto
  have "?S s \<le> t \<and> ?S t \<le> ?S (e - 1) \<longleftrightarrow> (\<exists>c\<in>{s..<e}. ?S t = ?S c)" if t: "0 \<le> t" for t
  proof
    assume h: "?S s \<le> t \<and> ?S t \<le> ?S (e - 1)"
    consider "t < s" | "s \<le> t" "t < e" | "e \<le> t" by linarith
    then show "\<exists>c\<in>{s..<e}. ?S t = ?S c"
    proof cases
      case 1
      have "?S (?S s) \<le> ?S t"
        using h unit_grid.start_mono [of "?S s" t u] unit_grid.start_nonneg [of s u] assms by auto
      then have "?S t = ?S s"
        using 1 t unit_grid.start_mono [of t s u] unit_grid.start_idem [of s u] assms by auto
      then show ?thesis using assms by (intro bexI [of _ s]) auto
    next
      case 2
      then show ?thesis by auto
    next
      case 3
      then have "?S t = ?S (e - 1)" using h unit_grid.start_mono [of "e - 1" t u] assms by auto
      then show ?thesis using assms by (intro bexI [of _ "e - 1"]) auto
    qed
  next
    assume "\<exists>c\<in>{s..<e}. ?S t = ?S c"
    then obtain c where c: "s \<le> c" "c < e" "?S t = ?S c" by auto
    then show "?S s \<le> t \<and> ?S t \<le> ?S (e - 1)"
      using unit_grid.start_mono [of s c u] unit_grid.start_mono [of c "e - 1" u]
        unit_grid.start_le [OF t, of u] assms by auto
  qed
  then have "unit_ranges_exact u {s..<e} rs" using rs by (simp add: unit_ranges_exact_def)
  then show ?thesis
    using rs(1) by (auto simp: interval_unit_ranges_def rollup_bucket_start_unit)
qed

lemma unit_ranges_concat:
  assumes "distinct us" and "\<forall>u\<in>set us. \<exists>rs. f (unit_name u) = Inr rs \<and> unit_ranges_exact u C rs"
  shows "\<exists>rs. res_map concat (res_mapM f (map unit_name us)) = Inr rs \<and>
    (\<forall>u\<in>set us. unit_ranges_exact u C (filter (\<lambda>r. rir_unit r = unit_name u) rs)) \<and>
    (\<forall>r\<in>set rs. \<exists>u\<in>set us. rir_unit r = unit_name u)"
proof -
  obtain F where F: "\<forall>u\<in>set us. f (unit_name u) = Inr (F u) \<and> unit_ranges_exact u C (F u)"
    using assms(2) by metis
  have unit_of: "rir_unit r = unit_name u" if "u \<in> set us" "r \<in> set (F u)" for u r
    using F that by (auto simp: unit_ranges_exact_def range_ok_def)
  have "res_mapM f (map unit_name us) = Inr (map F us)"
    using F by (induction us) auto
  moreover have "filter (\<lambda>r. rir_unit r = unit_name u) (concat (map F us)) = F u" if "u \<in> set us" for u
    using assms(1) that inj_on_subset [OF unit_name_inj] unit_of by (intro filter_concat_map_key) auto
  ultimately show ?thesis using F unit_of by auto
qed

section \<open>Properties\<close>

lemma interval_ranges_of_units:
  assumes "is_utc s" "is_utc e" "0 \<le> instant s" "instant s < instant e" "distinct us" "U1m \<notin> set us"
  shows "\<exists>rs. affected_rollup_ranges_for_interval s e (map unit_name us) = Inr rs \<and>
    (\<forall>u\<in>set us. unit_ranges_exact u {instant s..<instant e} (filter (\<lambda>r. rir_unit r = unit_name u) rs)) \<and>
    (\<forall>r\<in>set rs. \<exists>u\<in>set us. rir_unit r = unit_name u)"
proof -
  have "\<forall>u\<in>set us. \<exists>rs. interval_unit_ranges (instant s) (instant e) (unit_name u) = Inr rs \<and>
      unit_ranges_exact u {instant s..<instant e} rs"
    using assms(3,4,6) by (intro ballI interval_unit_ranges_spec) auto
  from unit_ranges_concat [OF assms(5) this] show ?thesis
    using assms(1,2,4) by (simp add: affected_rollup_ranges_for_interval_def)
qed

text \<open>
  Bucketing partitions time: for every supported unit and every aware timestamp the bucket
  start exists, does not exceed the timestamp and is its own bucket start; and for every derived
  unit the bucket end exists, lies after the timestamp, and exactly the instants from the start
  up to the end have that bucket.
\<close>

theorem rollup_bucket_partition:
  assumes "is_aware d" "0 \<le> instant d" "u \<noteq> U1m"
  shows "\<exists>b e. rollup_bucket_start (unit_name u) d = Inr b \<and> rollup_bucket_end (unit_name u) b = Inr e \<and>
    b \<le> instant d \<and> instant d < e \<and>
    (\<forall>t\<ge>0. rollup_bucket_start (unit_name u) (utc t) = Inr b \<longleftrightarrow> b \<le> t \<and> t < e)"
proof (intro exI conjI allI impI)
  let ?b = "unit_start u (instant d)"
  have b: "0 \<le> ?b" "unit_start u ?b = ?b"
    using assms(2) unit_grid.start_nonneg unit_grid.start_idem by auto
  show "rollup_bucket_start (unit_name u) d = Inr ?b" using assms(1) by (rule rollup_bucket_start_unit)
  show "rollup_bucket_end (unit_name u) ?b = Inr (unit_next u ?b)"
    by (rule rollup_bucket_end_unit [OF assms(3) b])
  show "?b \<le> instant d" "instant d < unit_next u ?b"
    using unit_grid.start_le [OF assms(2)] unit_grid.before_next [OF assms(2)] by auto
  fix t :: int
  assume "0 \<le> t"
  then show "rollup_bucket_start (unit_name u) (utc t) = Inr ?b \<longleftrightarrow> ?b \<le> t \<and> t < unit_next u ?b"
    using unit_grid.in_bucket_iff [OF b] by (simp add: rollup_bucket_start_unit)
qed

theorem rollup_bucket_partition_witness:
  "\<exists>b e. rollup_bucket_start (unit_name U1w) (utc 63839624400000000) = Inr b \<and>
     rollup_bucket_end (unit_name U1w) b = Inr e \<and>
     b \<le> instant (utc 63839624400000000) \<and> instant (utc 63839624400000000) < e \<and>
     (\<forall>t\<ge>0. rollup_bucket_start (unit_name U1w) (utc t) = Inr b \<longleftrightarrow> b \<le> t \<and> t < e)"
  by (rule rollup_bucket_partition) simp_all

text \<open>C36. 
  Changed source timestamps are compressed exactly: for UTC timestamps and distinct derived
  units the function returns, and for each unit the returned ranges are ascending and disjoint,
  hold between 1 and 512 whole buckets each with the correct count, and cover an instant exactly
  when its bucket is the bucket of a changed timestamp.
\<close>

theorem affected_rollup_ranges_exact:
  assumes "\<forall>c\<in>set changed. is_utc c \<and> 0 \<le> instant c" "distinct us" "U1m \<notin> set us"
  shows "\<exists>rs. affected_rollup_ranges changed (map unit_name us) = Inr rs \<and>
    (\<forall>u\<in>set us. unit_ranges_exact u (instant ` set changed) (filter (\<lambda>r. rir_unit r = unit_name u) rs)) \<and>
    (\<forall>r\<in>set rs. \<exists>u\<in>set us. rir_unit r = unit_name u)"
proof -
  have "\<forall>u\<in>set us. \<exists>rs. affected_unit_ranges changed (unit_name u) = Inr rs \<and>
      unit_ranges_exact u (instant ` set changed) rs"
    using assms(1,3) by (intro ballI affected_unit_ranges_spec) auto
  from unit_ranges_concat [OF assms(2) this] show ?thesis
    using assms(1) by (simp add: affected_rollup_ranges_def)
qed

theorem affected_rollup_ranges_exact_witness:
  "\<exists>rs. affected_rollup_ranges [utc 0, utc 180000000] (map unit_name [U3m, U1M]) = Inr rs \<and>
     (\<forall>u\<in>set [U3m, U1M]. unit_ranges_exact u (instant ` set [utc 0, utc 180000000])
        (filter (\<lambda>r. rir_unit r = unit_name u) rs)) \<and>
     (\<forall>r\<in>set rs. \<exists>u\<in>set [U3m, U1M]. rir_unit r = unit_name u)"
  by (rule affected_rollup_ranges_exact) simp_all

text \<open>
  The loop that splits a coverage transition terminates with exact ranges: for a non-empty
  UTC interval and distinct derived units, the ranges of each unit are ascending and disjoint,
  of at most 512 whole buckets, and cover an instant exactly when its bucket meets the interval.
\<close>

theorem affected_rollup_ranges_for_interval_exact:
  assumes "is_utc s" "is_utc e" "0 \<le> instant s" "instant s < instant e" "distinct us" "U1m \<notin> set us"
  shows "\<exists>rs. affected_rollup_ranges_for_interval s e (map unit_name us) = Inr rs \<and>
    (\<forall>u\<in>set us. unit_ranges_exact u {instant s..<instant e} (filter (\<lambda>r. rir_unit r = unit_name u) rs)) \<and>
    (\<forall>r\<in>set rs. \<exists>u\<in>set us. rir_unit r = unit_name u)"
  by (rule interval_ranges_of_units [OF assms])

theorem affected_rollup_ranges_for_interval_exact_witness:
  "\<exists>rs. affected_rollup_ranges_for_interval (utc 0) (utc 86400000000) (map unit_name [U1h, U1d]) = Inr rs \<and>
     (\<forall>u\<in>set [U1h, U1d]. unit_ranges_exact u {instant (utc 0)..<instant (utc 86400000000)}
        (filter (\<lambda>r. rir_unit r = unit_name u) rs)) \<and>
     (\<forall>r\<in>set rs. \<exists>u\<in>set [U1h, U1d]. rir_unit r = unit_name u)"
  by (rule affected_rollup_ranges_for_interval_exact) simp_all

end
