(* ===== verification/Coverage_Transition.thy ===== *)
theory Coverage_Transition
  imports Data_Foundation Rollup_Grid
begin

text \<open>
  Model of \<^verbatim>\<open>packages/shared/goodmoneying_shared/coverage_transition.py\<close>. The PostgreSQL tables
  the module reads and writes are lists of rows in one state record; an \<^verbatim>\<open>INSERT\<close> checks the
  constraints of the schema (\<^verbatim>\<open>docs/contracts/db/schema.sql\<close>) and raises when one is violated.
  The whole call runs in one transaction under the advisory locks of the target and of its market,
  so it is one atomic step. Timestamps are read in UTC.

  Shown: a replacement never violates the exclusion constraint, the stored coverage afterwards is
  the old one overwritten on the classified interval (a refinement of a function from instants to
  states), the recorded transitions are exactly the instants whose state changed, and the clamp to
  the source bounds loses no bucket that holds source data.
\<close>

section \<open>Rows and state\<close>

fun coverage_state_value :: "coverage_state \<Rightarrow> string" where
  "coverage_state_value Available = ''available''"
| "coverage_state_value No_trade = ''no_trade''"
| "coverage_state_value Missing = ''missing''"
| "coverage_state_value Unavailable = ''unavailable''"
| "coverage_state_value Unverified = ''unverified''"

record target_spec =
  ts_id :: int
  ts_market_id :: int
  ts_data_type :: string
  ts_candle_unit :: "string option"

record coverage_interval =
  ci_id :: int
  ci_target_spec_id :: int
  ci_start :: int
  ci_end :: int
  ci_status :: coverage_state
  ci_evidence :: json
  ci_manifest_id :: "int option"
  ci_assessed_at :: int

record quality_event =
  qe_id :: int
  qe_target_spec_id :: int
  qe_event_type :: string
  qe_previous_status :: "coverage_state option"
  qe_new_status :: coverage_state
  qe_start :: int
  qe_end :: int
  qe_fingerprint :: string
  qe_evidence :: json
  qe_manifest_id :: "int option"
  qe_detected_at :: int

record source_revision =
  sr_id :: int
  sr_instrument_id :: int
  sr_candle_start_at :: int

record indicator_invalidation =
  ii_instrument_id :: int
  ii_candle_unit :: string
  ii_changed_quality_event_id :: int
  ii_impact_start_at :: int
  ii_impact_end_at :: int
  ii_source_revision_through_id :: int
  ii_quality_event_through_id :: int
  ii_knowledge_at :: int

record rollup_invalidation =
  ri_id :: int
  ri_idempotency_key :: string
  ri_market_id :: int
  ri_instrument_id :: int
  ri_candle_unit :: string
  ri_calculation_version :: string
  ri_start :: int
  ri_end :: int
  ri_output_bucket_count :: int
  ri_source_revision_ids :: "int list"
  ri_source_revision_through_id :: int
  ri_quality_event_through_id :: int
  ri_coverage_snapshot :: json
  ri_coverage_snapshot_hash :: string
  ri_knowledge_at :: int

record recompute_job =
  rj_invalidation_id :: int
  rj_idempotency_key :: string
  rj_status :: string

record coverage_db =
  db_specs :: "target_spec list"
  db_markets :: "(int \<times> int option) list"  \<comment> \<open>market id, legacy instrument id\<close>
  db_intervals :: "coverage_interval list"
  db_interval_seq :: int
  db_events :: "quality_event list"
  db_event_seq :: int
  db_revisions :: "source_revision list"
  db_indicator_invalidations :: "indicator_invalidation list"
  db_rollup_invalidations :: "rollup_invalidation list"
  db_rollup_seq :: int
  db_recompute_jobs :: "recompute_job list"

datatype coverage_error =
    Cov_CheckViolation
  | Cov_ExclusionViolation
  | Cov_UniqueViolation
  | Cov_Rollup agg_error

definition CALCULATION_VERSION :: string where "CALCULATION_VERSION = ''candle-rollup-v2''"

section \<open>Replacing an interval\<close>

definition ranges_overlap :: "int \<Rightarrow> int \<Rightarrow> int \<Rightarrow> int \<Rightarrow> bool" where
  "ranges_overlap a b c d \<longleftrightarrow> a < d \<and> c < b"

definition overlapping :: "int \<Rightarrow> int \<Rightarrow> int \<Rightarrow> coverage_interval \<Rightarrow> bool" where
  "overlapping target a b i \<longleftrightarrow> ci_target_spec_id i = target \<and> ranges_overlap (ci_start i) (ci_end i) a b"

text \<open>\<^verbatim>\<open>INSERT INTO coverage_intervals\<close> under \<^verbatim>\<open>coverage_intervals_range_ck\<close> and the exclusion
  constraint on the ranges of a target.\<close>

definition insert_interval ::
  "coverage_db \<Rightarrow> int \<Rightarrow> int \<Rightarrow> int \<Rightarrow> coverage_state \<Rightarrow> json \<Rightarrow> int option \<Rightarrow> int \<Rightarrow> coverage_error + coverage_db" where
  "insert_interval db target a b status evidence manifest assessed_at =
     (if \<not> a < b then Inl Cov_CheckViolation
      else if list_ex (overlapping target a b) (db_intervals db) then Inl Cov_ExclusionViolation
      else Inr (db\<lparr>db_intervals := db_intervals db @
             [\<lparr>ci_id = db_interval_seq db, ci_target_spec_id = target, ci_start = a, ci_end = b,
               ci_status = status, ci_evidence = evidence, ci_manifest_id = manifest,
               ci_assessed_at = assessed_at\<rparr>],
             db_interval_seq := db_interval_seq db + 1\<rparr>))"

definition delete_interval :: "coverage_db \<Rightarrow> int \<Rightarrow> coverage_db" where
  "delete_interval db i = db\<lparr>db_intervals := filter (\<lambda>r. ci_id r \<noteq> i) (db_intervals db)\<rparr>"

type_synonym transition = "coverage_state option \<times> int \<times> int"

definition preserve_piece ::
  "int \<Rightarrow> coverage_interval \<Rightarrow> coverage_db \<Rightarrow> int \<times> int \<Rightarrow> coverage_error + coverage_db" where
  "preserve_piece target overlap db piece =
     (if fst piece \<ge> snd piece then Inr db
      else insert_interval db target (fst piece) (snd piece) (ci_status overlap)
             (ci_evidence overlap) (ci_manifest_id overlap) (ci_assessed_at overlap))"

definition replace_overlap ::
  "int \<Rightarrow> int \<Rightarrow> int \<Rightarrow> coverage_db \<Rightarrow> coverage_interval \<Rightarrow> coverage_error + coverage_db" where
  "replace_overlap target a b db overlap =
     res_foldM (preserve_piece target overlap) (delete_interval db (ci_id overlap))
       [(ci_start overlap, min (ci_end overlap) a), (max (ci_start overlap) b, ci_end overlap)]"

text \<open>The lists the loop over the overlaps collects: the covered parts of the interval, and those
  of them whose state changes.\<close>

definition covered_part :: "int \<Rightarrow> int \<Rightarrow> coverage_interval \<Rightarrow> int \<times> int" where
  "covered_part a b overlap = (max (ci_start overlap) a, min (ci_end overlap) b)"

definition covered_ranges :: "int \<Rightarrow> int \<Rightarrow> coverage_interval list \<Rightarrow> (int \<times> int) list" where
  "covered_ranges a b overlaps = filter (\<lambda>(s, e). s < e) (map (covered_part a b) overlaps)"

definition status_transitions ::
  "int \<Rightarrow> int \<Rightarrow> coverage_state \<Rightarrow> coverage_interval list \<Rightarrow> transition list" where
  "status_transitions a b status overlaps =
     map (\<lambda>o'. (Some (ci_status o'), covered_part a b o'))
       (filter (\<lambda>o'. ci_status o' \<noteq> status \<and> fst (covered_part a b o') < snd (covered_part a b o')) overlaps)"

fun uncovered_transitions :: "int \<Rightarrow> int \<Rightarrow> (int \<times> int) list \<Rightarrow> transition list" where
  "uncovered_transitions u b [] = (if u < b then [(None, u, b)] else [])"
| "uncovered_transitions u b ((c, d) # rest) =
     (if u < c then [(None, u, c)] else []) @ uncovered_transitions (max u d) b rest"

definition find_overlaps :: "coverage_db \<Rightarrow> int \<Rightarrow> int \<Rightarrow> int \<Rightarrow> coverage_interval list" where
  "find_overlaps db target a b = sort_key ci_start (filter (overlapping target a b) (db_intervals db))"

definition coverage_transitions ::
  "coverage_db \<Rightarrow> int \<Rightarrow> int \<Rightarrow> int \<Rightarrow> coverage_state \<Rightarrow> transition list" where
  "coverage_transitions db target a b status =
     (let overlaps = find_overlaps db target a b in
      status_transitions a b status overlaps @ uncovered_transitions a b (covered_ranges a b overlaps))"

section \<open>Quality events\<close>

definition opt_str :: "string option \<Rightarrow> py_value" where
  "opt_str s = (case s of None \<Rightarrow> PyNone | Some x \<Rightarrow> PyStr x)"

definition opt_int :: "int option \<Rightarrow> py_value" where
  "opt_int i = (case i of None \<Rightarrow> PyNone | Some x \<Rightarrow> PyInt x)"

definition transition_fingerprint ::
  "int \<Rightarrow> coverage_state \<Rightarrow> string \<Rightarrow> int option \<Rightarrow> transition \<Rightarrow> string" where
  "transition_fingerprint target status reason manifest tr =
     (case tr of (previous, s, e) \<Rightarrow>
        json_checksum (PyDict
          [(''targetSpecId'', PyInt target),
           (''previousStatus'', opt_str (map_option coverage_state_value previous)),
           (''newStatus'', PyStr (coverage_state_value status)),
           (''rangeStartAt'', PyDatetime (utc s)),
           (''rangeEndAt'', PyDatetime (utc e)),
           (''reasonCode'', PyStr reason),
           (''fetchManifestId'', opt_int manifest)]))"

definition event_conflict :: "quality_event \<Rightarrow> quality_event \<Rightarrow> bool" where
  "event_conflict x y \<longleftrightarrow>
     qe_id x = qe_id y \<or>
     (qe_target_spec_id x = qe_target_spec_id y \<and> qe_event_type x = qe_event_type y \<and>
      qe_detected_at x = qe_detected_at y \<and> qe_fingerprint x = qe_fingerprint y)"

definition record_transition ::
  "int \<Rightarrow> coverage_state \<Rightarrow> string \<Rightarrow> int option \<Rightarrow> (string \<times> py_value) list \<Rightarrow> int \<Rightarrow>
     coverage_db \<times> (int \<times> int \<times> int) list \<Rightarrow> transition \<Rightarrow> coverage_db \<times> (int \<times> int \<times> int) list" where
  "record_transition target status reason manifest evidence assessed_at st tr =
     (case (st, tr) of ((db, created), (previous, s, e)) \<Rightarrow>
        let qid = db_event_seq db;
            event = \<lparr>qe_id = qid, qe_target_spec_id = target, qe_event_type = reason,
              qe_previous_status = previous, qe_new_status = status, qe_start = s, qe_end = e,
              qe_fingerprint = transition_fingerprint target status reason manifest tr,
              qe_evidence = jsonable (PyDict (dict_set (dict_set evidence ''reasonCode'' (PyStr reason))
                 ''fetchManifestId'' (opt_int manifest))),
              qe_manifest_id = manifest, qe_detected_at = assessed_at\<rparr>;
            db' = db\<lparr>db_event_seq := qid + 1\<rparr>
        in if list_ex (event_conflict event) (db_events db) then (db', created)
           else (db'\<lparr>db_events := db_events db @ [event]\<rparr>, created @ [(qid, s, e)]))"

section \<open>Recomputation of derived data\<close>

definition source_bounds :: "coverage_db \<Rightarrow> int \<Rightarrow> (int \<times> int \<times> int) option" where
  "source_bounds db instrument =
     (let rows = filter (\<lambda>r. sr_instrument_id r = instrument) (db_revisions db) in
      if rows = [] then None
      else Some (Min (set (map sr_candle_start_at rows)), Max (set (map sr_candle_start_at rows)),
                 Max (set (map sr_id rows))))"

definition coverage_snapshot :: "coverage_db \<Rightarrow> int \<Rightarrow> int \<Rightarrow> int \<Rightarrow> json" where
  "coverage_snapshot db market a b =
     (let specs = filter (\<lambda>s. ts_market_id s = market \<and> ts_data_type s = ''source_candle'' \<and>
                     ts_candle_unit s \<in> {Some ''1m'', Some ''1d''}) (db_specs db);
          rows = concat (map (\<lambda>s. map (\<lambda>i. (s, i))
                   (filter (\<lambda>i. ci_target_spec_id i = ts_id s \<and>
                      ranges_overlap (ci_start i) (ci_end i) a b) (db_intervals db))) specs);
          ordered = sort_key (\<lambda>(s, i). (max (ci_start i) a, min (ci_end i) b,
                      the (ts_candle_unit s), coverage_state_value (ci_status i), ts_id s, ci_id i)) rows
      in JArr (map (\<lambda>(s, i). JObj
           [(''startAt'', JStr (isoformat (utc (max (ci_start i) a)))),
            (''endAt'', JStr (isoformat (utc (min (ci_end i) b)))),
            (''status'', JStr (coverage_state_value (ci_status i)))]) ordered))"

definition rollup_fingerprint :: "int \<Rightarrow> int \<Rightarrow> rollup_invalidation_range \<Rightarrow> int \<Rightarrow> string \<Rightarrow> string" where
  "rollup_fingerprint market instrument affected event_id coverage_hash =
     json_checksum (PyDict
       [(''marketId'', PyInt market),
        (''instrumentId'', PyInt instrument),
        (''unit'', PyStr (rir_unit affected)),
        (''startAt'', PyDatetime (utc (rir_start_at affected))),
        (''endAt'', PyDatetime (utc (rir_end_at affected))),
        (''calculationVersion'', PyStr CALCULATION_VERSION),
        (''qualityEventId'', PyInt event_id),
        (''coverageSnapshotHash'', PyStr coverage_hash)])"

text \<open>The \<^verbatim>\<open>CHECK\<close> constraints of \<^verbatim>\<open>candle_rollup_invalidations\<close>.\<close>

definition rollup_row_check :: "rollup_invalidation \<Rightarrow> bool" where
  "rollup_row_check r \<longleftrightarrow>
     ri_candle_unit r \<in> set MATERIALIZED_AGGREGATION_UNITS \<and> ri_start r < ri_end r \<and>
     length (ri_coverage_snapshot_hash r) = 64 \<and>
     set (ri_coverage_snapshot_hash r) \<subseteq> set HEX_DIGITS \<and>
     1 \<le> ri_output_bucket_count r \<and> ri_output_bucket_count r \<le> 512"

definition rollup_row ::
  "int \<Rightarrow> int \<Rightarrow> int \<Rightarrow> int \<Rightarrow> int \<Rightarrow> coverage_db \<Rightarrow> rollup_invalidation_range \<Rightarrow> rollup_invalidation" where
  "rollup_row market instrument event_id through_id knowledge_at db affected =
     (let snapshot = coverage_snapshot db market (rir_start_at affected) (rir_end_at affected);
          coverage_hash = sha256_hex (json_dumps snapshot)
      in \<lparr>ri_id = db_rollup_seq db,
          ri_idempotency_key = rollup_fingerprint market instrument affected event_id coverage_hash,
          ri_market_id = market, ri_instrument_id = instrument, ri_candle_unit = rir_unit affected,
          ri_calculation_version = CALCULATION_VERSION, ri_start = rir_start_at affected,
          ri_end = rir_end_at affected, ri_output_bucket_count = rir_output_bucket_count affected,
          ri_source_revision_ids = [], ri_source_revision_through_id = through_id,
          ri_quality_event_through_id = event_id, ri_coverage_snapshot = snapshot,
          ri_coverage_snapshot_hash = coverage_hash, ri_knowledge_at = knowledge_at\<rparr>)"

text \<open>\<^verbatim>\<open>ON CONFLICT (idempotency_key) DO NOTHING RETURNING id\<close>, then the job of a new row.\<close>

definition push_invalidation :: "coverage_db \<Rightarrow> rollup_invalidation \<Rightarrow> coverage_error + coverage_db" where
  "push_invalidation db row =
     (if \<not> rollup_row_check row then Inl Cov_CheckViolation
      else if list_ex (\<lambda>r. ri_idempotency_key r = ri_idempotency_key row) (db_rollup_invalidations db)
      then Inr (db\<lparr>db_rollup_seq := db_rollup_seq db + 1\<rparr>)
      else if list_ex (\<lambda>j. rj_invalidation_id j = ri_id row \<or> rj_idempotency_key j = ri_idempotency_key row)
                (db_recompute_jobs db)
      then Inl Cov_UniqueViolation
      else Inr (db\<lparr>db_rollup_invalidations := db_rollup_invalidations db @ [row],
             db_rollup_seq := db_rollup_seq db + 1,
             db_recompute_jobs := db_recompute_jobs db @
               [\<lparr>rj_invalidation_id = ri_id row, rj_idempotency_key = ri_idempotency_key row,
                 rj_status = ''pending''\<rparr>]\<rparr>))"

definition has_source :: "coverage_db \<Rightarrow> int \<Rightarrow> int \<Rightarrow> int \<Rightarrow> bool" where
  "has_source db instrument s e =
     list_ex (\<lambda>r. sr_instrument_id r = instrument \<and> s \<le> sr_candle_start_at r \<and> sr_candle_start_at r < e)
       (db_revisions db)"

definition enqueue_range ::
  "int \<Rightarrow> int \<Rightarrow> int \<Rightarrow> int \<Rightarrow> int \<Rightarrow> coverage_db \<Rightarrow> rollup_invalidation_range \<Rightarrow> coverage_error + coverage_db" where
  "enqueue_range market instrument event_id through_id knowledge_at db affected =
     (if \<not> has_source db instrument (rir_start_at affected) (rir_end_at affected) then Inr db
      else push_invalidation db (rollup_row market instrument event_id through_id knowledge_at db affected))"

definition enqueue_indicator ::
  "int \<Rightarrow> int \<Rightarrow> int \<Rightarrow> int \<Rightarrow> int \<Rightarrow> int \<Rightarrow> coverage_db \<Rightarrow> coverage_db" where
  "enqueue_indicator instrument event_id s e through_id knowledge_at db =
     (if list_ex (\<lambda>r. ii_changed_quality_event_id r = event_id) (db_indicator_invalidations db) then db
      else db\<lparr>db_indicator_invalidations := db_indicator_invalidations db @
             [\<lparr>ii_instrument_id = instrument, ii_candle_unit = ''1m'',
               ii_changed_quality_event_id = event_id, ii_impact_start_at = s, ii_impact_end_at = e,
               ii_source_revision_through_id = through_id,
               ii_quality_event_through_id = event_id, ii_knowledge_at = knowledge_at\<rparr>]\<rparr>)"

definition enqueue_quality_transition_recomputation ::
  "int \<Rightarrow> int \<Rightarrow> coverage_db \<Rightarrow> int \<times> int \<times> int \<Rightarrow> coverage_error + coverage_db" where
  "enqueue_quality_transition_recomputation target knowledge_at db event =
     (case event of (event_id, s, e) \<Rightarrow>
      case find (\<lambda>x. ts_id x = target) (db_specs db) of
        None \<Rightarrow> Inr db
      | Some spec \<Rightarrow>
          (case map_of (db_markets db) (ts_market_id spec) of
             None \<Rightarrow> Inr db
           | Some legacy \<Rightarrow>
               if ts_data_type spec \<noteq> ''source_candle'' \<or>
                  ts_candle_unit spec \<notin> {Some ''1m'', Some ''1d''} then Inr db
               else case legacy of
                 None \<Rightarrow> Inr db
               | Some instrument \<Rightarrow>
                   (case source_bounds db instrument of
                      None \<Rightarrow> Inr db
                    | Some (first_at, last_at, through_id) \<Rightarrow>
                        let db1 = (if ts_candle_unit spec = Some ''1m''
                                   then enqueue_indicator instrument event_id s e through_id knowledge_at db
                                   else db);
                            affected_start = max s (first_at - 32 * day_us);
                            affected_end = min e (last_at + 32 * day_us);
                            units = (if ts_candle_unit spec = Some ''1d'' then [''1d'', ''1w'', ''1M'']
                                     else MATERIALIZED_AGGREGATION_UNITS)
                        in case affected_rollup_ranges_for_interval (utc affected_start) (utc affected_end) units of
                             Inl err \<Rightarrow> Inl (Cov_Rollup err)
                           | Inr ranges \<Rightarrow>
                               res_foldM (enqueue_range (ts_market_id spec) instrument event_id
                                  through_id knowledge_at) db1 ranges)))"

section \<open>The whole operation\<close>

definition replace_coverage_with_classification ::
  "int \<Rightarrow> int \<Rightarrow> int \<Rightarrow> coverage_state \<Rightarrow> string \<Rightarrow> int option \<Rightarrow> (string \<times> py_value) list \<Rightarrow> int \<Rightarrow>
     coverage_db \<Rightarrow> coverage_error + coverage_db" where
  "replace_coverage_with_classification target a b status reason manifest evidence now db =
     (if a \<ge> b then Inr db
      else if find (\<lambda>x. ts_id x = target) (db_specs db) = None then Inr db
      else
        let overlaps = find_overlaps db target a b;
            transitions = coverage_transitions db target a b status
        in res_bind (res_foldM (replace_overlap target a b) db overlaps) (\<lambda>db1.
           res_bind (insert_interval db1 target a b status (jsonable (PyDict evidence)) manifest now) (\<lambda>db2.
             case foldl (record_transition target status reason manifest evidence now) (db2, []) transitions of
               (db3, created) \<Rightarrow>
                 res_foldM (enqueue_quality_transition_recomputation target now) db3 created)))"

section \<open>Abstract view and invariant\<close>

text \<open>What the interval table promises: a partial function from instants to states per target.\<close>

definition covers :: "int \<Rightarrow> int \<Rightarrow> coverage_interval \<Rightarrow> bool" where
  "covers target t i \<longleftrightarrow> ci_target_spec_id i = target \<and> ci_start i \<le> t \<and> t < ci_end i"

definition coverage_at :: "coverage_db \<Rightarrow> int \<Rightarrow> int \<Rightarrow> coverage_state option" where
  "coverage_at db target t = map_option ci_status (find (covers target t) (db_intervals db))"

definition disjoint_intervals :: "coverage_interval \<Rightarrow> coverage_interval \<Rightarrow> bool" where
  "disjoint_intervals i j \<longleftrightarrow>
     ci_target_spec_id i \<noteq> ci_target_spec_id j \<or> ci_end i \<le> ci_start j \<or> ci_end j \<le> ci_start i"

definition coverage_wf :: "coverage_db \<Rightarrow> bool" where
  "coverage_wf db \<longleftrightarrow>
     (\<forall>i\<in>set (db_intervals db). ci_start i < ci_end i \<and> ci_id i < db_interval_seq db) \<and>
     distinct (map ci_id (db_intervals db)) \<and>
     (\<forall>i\<in>set (db_intervals db). \<forall>j\<in>set (db_intervals db). i \<noteq> j \<longrightarrow> disjoint_intervals i j)"

lemma coverage_wfD:
  assumes "coverage_wf db"
  shows "i \<in> set (db_intervals db) \<Longrightarrow> ci_start i < ci_end i"
    and "i \<in> set (db_intervals db) \<Longrightarrow> ci_id i < db_interval_seq db"
    and "distinct (map ci_id (db_intervals db))"
    and "i \<in> set (db_intervals db) \<Longrightarrow> j \<in> set (db_intervals db) \<Longrightarrow> i \<noteq> j \<Longrightarrow> disjoint_intervals i j"
  using assms by (auto simp: coverage_wf_def)

definition stored :: "coverage_db \<Rightarrow> int \<Rightarrow> int \<Rightarrow> coverage_state \<Rightarrow> bool" where
  "stored db target t st \<longleftrightarrow> (\<exists>i\<in>set (db_intervals db). covers target t i \<and> ci_status i = st)"

lemma covers_unique:
  "coverage_wf db \<Longrightarrow> i \<in> set (db_intervals db) \<Longrightarrow> j \<in> set (db_intervals db) \<Longrightarrow>
   covers target t i \<Longrightarrow> covers target t j \<Longrightarrow> i = j"
  using coverage_wfD(4) [of db i j] by (fastforce simp: covers_def disjoint_intervals_def)

lemma coverage_at_Some_iff:
  assumes "coverage_wf db"
  shows "coverage_at db target t = Some st \<longleftrightarrow> stored db target t st"
proof
  assume "coverage_at db target t = Some st"
  then show "stored db target t st"
    by (auto simp: coverage_at_def stored_def find_Some_iff)
next
  assume "stored db target t st"
  then obtain i where i: "i \<in> set (db_intervals db)" "covers target t i" "ci_status i = st"
    by (auto simp: stored_def)
  then obtain j where j: "find (covers target t) (db_intervals db) = Some j"
    by (metis find_None_iff not_None_eq)
  then have "j \<in> set (db_intervals db)" "covers target t j"
    by (auto simp: find_Some_iff)
  then show "coverage_at db target t = Some st"
    using covers_unique [OF assms] i j by (auto simp: coverage_at_def)
qed

lemma coverage_at_None_iff:
  "coverage_wf db \<Longrightarrow> coverage_at db target t = None \<longleftrightarrow> (\<forall>st. \<not> stored db target t st)"
  by (metis coverage_at_Some_iff not_None_eq)

section \<open>The replacement loop\<close>

text \<open>The tables other than the intervals are left alone.\<close>

definition only_intervals :: "coverage_db \<Rightarrow> coverage_db \<Rightarrow> bool" where
  "only_intervals db db' \<longleftrightarrow>
     db_specs db' = db_specs db \<and> db_markets db' = db_markets db \<and> db_events db' = db_events db \<and>
     db_event_seq db' = db_event_seq db \<and> db_revisions db' = db_revisions db \<and>
     db_indicator_invalidations db' = db_indicator_invalidations db \<and>
     db_rollup_invalidations db' = db_rollup_invalidations db \<and> db_rollup_seq db' = db_rollup_seq db \<and>
     db_recompute_jobs db' = db_recompute_jobs db"

lemma only_intervals_refl [simp]: "only_intervals db db"
  by (simp add: only_intervals_def)

lemma only_intervals_trans: "only_intervals x y \<Longrightarrow> only_intervals y z \<Longrightarrow> only_intervals x z"
  by (simp add: only_intervals_def)

lemma insert_interval_ok:
  assumes wf: "coverage_wf db" and ab: "a < b"
    and free: "\<forall>i\<in>set (db_intervals db). \<not> overlapping target a b i"
  shows "\<exists>db'. insert_interval db target a b status ev mf at' = Inr db' \<and> coverage_wf db' \<and>
    (\<forall>i\<in>set (db_intervals db'). i \<in> set (db_intervals db) \<or>
       (ci_target_spec_id i = target \<and> ci_start i = a \<and> ci_end i = b)) \<and>
    set (db_intervals db) \<subseteq> set (db_intervals db') \<and>
    (\<forall>g t st. stored db' g t st \<longleftrightarrow> stored db g t st \<or> g = target \<and> a \<le> t \<and> t < b \<and> st = status) \<and>
    only_intervals db db'"
proof -
  have "\<not> list_ex (overlapping target a b) (db_intervals db)" using free by (simp add: list_ex_iff)
  moreover have "\<forall>i\<in>set (db_intervals db). ci_target_spec_id i = target \<longrightarrow> ci_end i \<le> a \<or> b \<le> ci_start i"
    using free by (force simp: overlapping_def ranges_overlap_def)
  moreover have "\<forall>i\<in>set (db_intervals db). ci_id i \<noteq> db_interval_seq db"
    using wf by (auto simp: coverage_wf_def)
  ultimately show ?thesis
    using wf ab
    by (auto simp: insert_interval_def coverage_wf_def stored_def covers_def disjoint_intervals_def
        only_intervals_def
        intro: less_trans)
qed

lemma preserve_piece_ok:
  assumes wf: "coverage_wf db"
    and free: "c < d \<Longrightarrow> \<forall>i\<in>set (db_intervals db). \<not> overlapping target c d i"
  shows "\<exists>db'. preserve_piece target o' db (c, d) = Inr db' \<and> coverage_wf db' \<and> only_intervals db db' \<and>
    set (db_intervals db) \<subseteq> set (db_intervals db') \<and>
    (\<forall>i\<in>set (db_intervals db'). i \<in> set (db_intervals db) \<or> ci_start i = c \<and> ci_end i = d) \<and>
    (\<forall>g t st. stored db' g t st \<longleftrightarrow>
       stored db g t st \<or> g = target \<and> c \<le> t \<and> t < d \<and> st = ci_status o')"
proof (cases "c < d")
  case True
  then show ?thesis
    using insert_interval_ok [OF wf True free [OF True], of "ci_status o'" "ci_evidence o'"
        "ci_manifest_id o'" "ci_assessed_at o'"]
    by (simp add: preserve_piece_def) blast
qed (use wf in \<open>auto simp: preserve_piece_def\<close>)

lemma delete_interval_ok:
  assumes wf: "coverage_wf db" and o': "o' \<in> set (db_intervals db)"
  shows "coverage_wf (delete_interval db (ci_id o'))"
    "set (db_intervals (delete_interval db (ci_id o'))) = set (db_intervals db) - {o'}"
    "only_intervals db (delete_interval db (ci_id o'))"
    "stored (delete_interval db (ci_id o')) g t st \<longleftrightarrow> stored db g t st \<and> \<not> covers g t o'"
proof -
  have inj: "inj_on ci_id (set (db_intervals db))"
    using coverage_wfD(3) [OF wf] by (simp add: distinct_map)
  then show set_eq: "set (db_intervals (delete_interval db (ci_id o'))) = set (db_intervals db) - {o'}"
    using o' by (auto simp: delete_interval_def dest: inj_onD)
  show "coverage_wf (delete_interval db (ci_id o'))"
    using wf by (auto simp: coverage_wf_def delete_interval_def distinct_map_filter)
  show "only_intervals db (delete_interval db (ci_id o'))"
    by (simp add: delete_interval_def only_intervals_def)
  show "stored (delete_interval db (ci_id o')) g t st \<longleftrightarrow> stored db g t st \<and> \<not> covers g t o'"
    using covers_unique [OF wf o'] by (auto simp: stored_def set_eq)
qed

lemma replace_overlap_ok:
  assumes wf: "coverage_wf db" and o': "o' \<in> set (db_intervals db)"
    and t: "ci_target_spec_id o' = target" and ab: "a < b"
  shows "\<exists>db'. replace_overlap target a b db o' = Inr db' \<and> coverage_wf db' \<and> only_intervals db db' \<and>
    set (db_intervals db) - {o'} \<subseteq> set (db_intervals db') \<and>
    (\<forall>i\<in>set (db_intervals db'). i \<in> set (db_intervals db) - {o'} \<or> \<not> overlapping target a b i) \<and>
    (\<forall>g t st. stored db' g t st \<longleftrightarrow>
       stored db g t st \<and> \<not> (g = target \<and> a \<le> t \<and> t < b \<and> covers g t o'))"
proof -
  let ?d = "delete_interval db (ci_id o')"
  note d = delete_interval_ok [OF wf o']
  define c1 d1 c2 d2 where "c1 = ci_start o'" and "d1 = min (ci_end o') a"
    and "c2 = max (ci_start o') b" and "d2 = ci_end o'"
  have apart: "\<forall>i\<in>set (db_intervals ?d). \<not> overlapping target (ci_start o') (ci_end o') i"
    using coverage_wfD(4) [OF wf o'] t d(2) coverage_wfD(1) [OF wf]
    by (auto simp: overlapping_def ranges_overlap_def disjoint_intervals_def) fastforce
  have "\<forall>i\<in>set (db_intervals ?d). \<not> overlapping target c1 d1 i"
    using apart by (auto simp: overlapping_def ranges_overlap_def c1_def d1_def)
  then obtain db1 where db1: "preserve_piece target o' ?d (c1, d1) = Inr db1" "coverage_wf db1"
    "only_intervals ?d db1" "set (db_intervals ?d) \<subseteq> set (db_intervals db1)"
    "\<forall>i\<in>set (db_intervals db1). i \<in> set (db_intervals ?d) \<or> ci_start i = c1 \<and> ci_end i = d1"
    "\<forall>g t st. stored db1 g t st \<longleftrightarrow> stored ?d g t st \<or> g = target \<and> c1 \<le> t \<and> t < d1 \<and> st = ci_status o'"
    using preserve_piece_ok [OF d(1), of c1 d1 target o'] by auto
  have "\<not> overlapping target c2 d2 i" if "i \<in> set (db_intervals db1)" for i
    using that db1(5) apart ab
    by (auto simp: overlapping_def ranges_overlap_def c1_def d1_def c2_def d2_def)
  then obtain db2 where db2: "preserve_piece target o' db1 (c2, d2) = Inr db2" "coverage_wf db2"
    "only_intervals db1 db2" "set (db_intervals db1) \<subseteq> set (db_intervals db2)"
    "\<forall>i\<in>set (db_intervals db2). i \<in> set (db_intervals db1) \<or> ci_start i = c2 \<and> ci_end i = d2"
    "\<forall>g t st. stored db2 g t st \<longleftrightarrow> stored db1 g t st \<or> g = target \<and> c2 \<le> t \<and> t < d2 \<and> st = ci_status o'"
    using preserve_piece_ok [OF db1(2), of c2 d2 target o'] by auto
  have "stored db2 g u st \<longleftrightarrow>
      stored db g u st \<and> \<not> (g = target \<and> a \<le> u \<and> u < b \<and> covers g u o')" for g u st
  proof (cases "covers g u o'")
    case True
    then have "stored db g u st \<longleftrightarrow> st = ci_status o'"
      using o' covers_unique [OF wf _ o'] unfolding stored_def by blast
    moreover have "g = target" "ci_start o' \<le> u" "u < ci_end o'"
      using True t by (auto simp: covers_def)
    moreover have "\<not> stored ?d g u st" using True d(4) by simp
    ultimately show ?thesis
      using db1(6) db2(6) ab True by (auto simp: c1_def c2_def d1_def d2_def)
  next
    case False
    then have "\<not> (g = target \<and> c1 \<le> u \<and> u < d1)" "\<not> (g = target \<and> c2 \<le> u \<and> u < d2)"
      using t by (auto simp: covers_def c1_def c2_def d1_def d2_def)
    then show ?thesis using False d(4) db1(6) db2(6) by blast
  qed
  moreover have "replace_overlap target a b db o' = Inr db2"
    using db1(1) db2(1) by (simp add: replace_overlap_def c1_def c2_def d1_def d2_def)
  moreover have "ci_end i = d1 \<or> ci_start i = c2 \<longrightarrow> \<not> overlapping target a b i" for i
    by (auto simp: overlapping_def ranges_overlap_def d1_def c2_def)
  then have "\<forall>i\<in>set (db_intervals db2). i \<in> set (db_intervals db) - {o'} \<or> \<not> overlapping target a b i"
    using db1(5) db2(5) d(2) by blast
  moreover have "only_intervals db db2" by (meson only_intervals_trans d(3) db1(3) db2(3))
  moreover have "set (db_intervals db) - {o'} \<subseteq> set (db_intervals db2)" using db1(4) db2(4) d(2) by blast
  ultimately show ?thesis using db2(2) by blast
qed

lemma replace_overlaps_ok:
  assumes "coverage_wf db" "distinct os" "set os \<subseteq> set (db_intervals db)"
    "\<forall>o'\<in>set os. ci_target_spec_id o' = target" "a < b"
  shows "\<exists>db'. res_foldM (replace_overlap target a b) db os = Inr db' \<and> coverage_wf db' \<and>
    only_intervals db db' \<and>
    (\<forall>i\<in>set (db_intervals db'). i \<in> set (db_intervals db) - set os \<or> \<not> overlapping target a b i) \<and>
    (\<forall>g t st. stored db' g t st \<longleftrightarrow>
       stored db g t st \<and> \<not> (g = target \<and> a \<le> t \<and> t < b \<and> (\<exists>o'\<in>set os. covers g t o')))"
  using assms
proof (induction os arbitrary: db)
  case (Cons o' os)
  obtain db1 where db1: "replace_overlap target a b db o' = Inr db1" "coverage_wf db1"
    "only_intervals db db1" "set (db_intervals db) - {o'} \<subseteq> set (db_intervals db1)"
    "\<forall>i\<in>set (db_intervals db1). i \<in> set (db_intervals db) - {o'} \<or> \<not> overlapping target a b i"
    "\<forall>g t st. stored db1 g t st \<longleftrightarrow>
       stored db g t st \<and> \<not> (g = target \<and> a \<le> t \<and> t < b \<and> covers g t o')"
    using replace_overlap_ok [of db o' target a b] Cons.prems by auto
  have "set os \<subseteq> set (db_intervals db1)" using db1(4) Cons.prems by auto
  then obtain db2 where db2: "res_foldM (replace_overlap target a b) db1 os = Inr db2" "coverage_wf db2"
    "only_intervals db1 db2"
    "\<forall>i\<in>set (db_intervals db2). i \<in> set (db_intervals db1) - set os \<or> \<not> overlapping target a b i"
    "\<forall>g t st. stored db2 g t st \<longleftrightarrow>
       stored db1 g t st \<and> \<not> (g = target \<and> a \<le> t \<and> t < b \<and> (\<exists>o'\<in>set os. covers g t o'))"
    using Cons.IH [OF db1(2)] Cons.prems by auto
  have "\<forall>i\<in>set (db_intervals db2). i \<in> set (db_intervals db) - set (o' # os) \<or> \<not> overlapping target a b i"
    using db1(5) db2(4) by fastforce
  moreover have "stored db2 g t st \<longleftrightarrow>
       stored db g t st \<and> \<not> (g = target \<and> a \<le> t \<and> t < b \<and> (\<exists>o'\<in>set (o' # os). covers g t o'))" for g t st
    using db1(6) db2(5) by auto
  ultimately show ?case
    using db1(1) db2(1,2) only_intervals_trans [OF db1(3) db2(3)] by auto
qed simp

lemma find_overlaps_props:
  assumes "coverage_wf db"
  shows "set (find_overlaps db target a b) = {i \<in> set (db_intervals db). overlapping target a b i}"
    and "distinct (find_overlaps db target a b)"
    and "sorted_wrt (\<lambda>i j. ci_end i \<le> ci_start j) (find_overlaps db target a b)"
proof -
  let ?o = "find_overlaps db target a b"
  show set_o: "set ?o = {i \<in> set (db_intervals db). overlapping target a b i}"
    by (auto simp: find_overlaps_def)
  show dist: "distinct ?o"
    using coverage_wfD(3) [OF assms] by (auto simp: find_overlaps_def distinct_map)
  have "sorted (map ci_start ?o)" by (simp add: find_overlaps_def)
  then have "sorted_wrt (\<lambda>i j. ci_start i \<le> ci_start j) ?o" by (simp add: sorted_wrt_map)
  then have "sorted_wrt (\<lambda>i j. ci_start i \<le> ci_start j \<and> i \<noteq> j) ?o"
    using dist by (simp add: sorted_wrt_iff_nth_less distinct_conv_nth)
  then show "sorted_wrt (\<lambda>i j. ci_end i \<le> ci_start j) ?o"
  proof (rule sorted_wrt_mono_rel [rotated])
    fix i j assume "i \<in> set ?o" "j \<in> set ?o" "ci_start i \<le> ci_start j \<and> i \<noteq> j"
    then show "ci_end i \<le> ci_start j"
      using coverage_wfD(4) [OF assms, of i j] coverage_wfD(1) [OF assms, of j] set_o
      by (auto simp: disjoint_intervals_def overlapping_def)
  qed
qed

text \<open>The classified interval is free once its overlaps are cut away, so its insertion succeeds.\<close>

lemma replace_coverage_intervals:
  assumes wf: "coverage_wf db" and ab: "a < b"
  shows "\<exists>db1 db2. res_foldM (replace_overlap target a b) db (find_overlaps db target a b) = Inr db1 \<and>
    insert_interval db1 target a b status ev mf at' = Inr db2 \<and>
    coverage_wf db2 \<and> only_intervals db db2 \<and>
    (\<forall>g t. coverage_at db2 g t =
       (if g = target \<and> a \<le> t \<and> t < b then Some status else coverage_at db g t))"
proof -
  note props = find_overlaps_props [OF wf, of target a b]
  have os: "set (find_overlaps db target a b) \<subseteq> set (db_intervals db)"
    "\<forall>o'\<in>set (find_overlaps db target a b). ci_target_spec_id o' = target"
    using props(1) by (auto simp: overlapping_def)
  obtain db1 where db1: "res_foldM (replace_overlap target a b) db (find_overlaps db target a b) = Inr db1"
    "coverage_wf db1" "only_intervals db db1"
    "\<forall>i\<in>set (db_intervals db1). i \<in> set (db_intervals db) - set (find_overlaps db target a b) \<or>
       \<not> overlapping target a b i"
    "\<forall>g t st. stored db1 g t st \<longleftrightarrow> stored db g t st \<and>
       \<not> (g = target \<and> a \<le> t \<and> t < b \<and> (\<exists>o'\<in>set (find_overlaps db target a b). covers g t o'))"
    using replace_overlaps_ok [OF wf props(2) os ab] by blast
  have free: "\<forall>i\<in>set (db_intervals db1). \<not> overlapping target a b i" using db1(4) props(1) by blast
  have cut: "stored db1 g t st \<longleftrightarrow> stored db g t st \<and> \<not> (g = target \<and> a \<le> t \<and> t < b)" for g t st
    using db1(5) props(1) by (auto simp: stored_def overlapping_def ranges_overlap_def covers_def)
  obtain db2 where db2: "insert_interval db1 target a b status ev mf at' = Inr db2" "coverage_wf db2"
    "only_intervals db1 db2"
    "\<forall>g t st. stored db2 g t st \<longleftrightarrow> stored db1 g t st \<or> g = target \<and> a \<le> t \<and> t < b \<and> st = status"
    using insert_interval_ok [OF db1(2) ab free] by blast
  have "coverage_at db2 g t = (if g = target \<and> a \<le> t \<and> t < b then Some status else coverage_at db g t)" for g t
  proof (cases "g = target \<and> a \<le> t \<and> t < b")
    case True
    then show ?thesis using db2(2,4) by (simp add: coverage_at_Some_iff)
  next
    case False
    then have "\<forall>st. coverage_at db2 g t = Some st \<longleftrightarrow> coverage_at db g t = Some st"
      unfolding coverage_at_Some_iff [OF db2(2)] coverage_at_Some_iff [OF wf]
      using False db2(4) cut by blast
    then show ?thesis using False by (metis option.exhaust)
  qed
  then show ?thesis using db1(1) db2(1,2) only_intervals_trans [OF db1(3) db2(3)] by blast
qed

section \<open>Transitions\<close>

definition transition_at :: "transition list \<Rightarrow> int \<Rightarrow> coverage_state option \<Rightarrow> bool" where
  "transition_at trs t previous \<longleftrightarrow> (\<exists>s e. (previous, s, e) \<in> set trs \<and> s \<le> t \<and> t < e)"

definition transitions_disjoint :: "transition list \<Rightarrow> bool" where
  "transitions_disjoint trs \<longleftrightarrow>
     sorted_wrt (\<lambda>(p, s, e) (p', s', e'). e \<le> s' \<or> e' \<le> s) trs"

lemma uncovered_exact:
  assumes "sorted_wrt (\<lambda>x y. snd x \<le> fst y) cs" "\<forall>(c, d)\<in>set cs. c < d"
  shows "transition_at (uncovered_transitions u b cs) t p \<longleftrightarrow>
    p = None \<and> u \<le> t \<and> (t < b \<or> (\<exists>(c, d)\<in>set cs. t < c)) \<and> (\<forall>(c, d)\<in>set cs. \<not> (c \<le> t \<and> t < d))"
  using assms
proof (induction u b cs rule: uncovered_transitions.induct)
  case (2 u b c d rest)
  have IH: "transition_at (uncovered_transitions (max u d) b rest) t p \<longleftrightarrow>
    p = None \<and> max u d \<le> t \<and> (t < b \<or> (\<exists>(c, d)\<in>set rest. t < c)) \<and> (\<forall>(c, d)\<in>set rest. \<not> (c \<le> t \<and> t < d))"
    using 2 by simp
  have later: "\<forall>(c', d')\<in>set rest. d \<le> c'" "c < d" using "2.prems" by auto
  have "transition_at (uncovered_transitions u b ((c, d) # rest)) t p \<longleftrightarrow>
      (u < c \<and> p = None \<and> u \<le> t \<and> t < c) \<or> transition_at (uncovered_transitions (max u d) b rest) t p"
    by (auto simp: transition_at_def)
  also have "\<dots> \<longleftrightarrow> p = None \<and> u \<le> t \<and> (t < b \<or> (\<exists>(c, d)\<in>set ((c, d) # rest). t < c)) \<and>
      (\<forall>(c, d)\<in>set ((c, d) # rest). \<not> (c \<le> t \<and> t < d))"
    unfolding IH using later by fastforce
  finally show ?case .
qed (auto simp: transition_at_def)

lemma uncovered_bounds:
  "(p, s, e) \<in> set (uncovered_transitions u b cs) \<Longrightarrow> u \<le> s \<and> s < e \<and> p = None"
  by (induction u b cs rule: uncovered_transitions.induct) (auto split: if_splits)

lemma uncovered_disjoint:
  assumes "sorted_wrt (\<lambda>x y. snd x \<le> fst y) cs" "\<forall>(c, d)\<in>set cs. c < d"
  shows "transitions_disjoint (uncovered_transitions u b cs)"
  using assms
proof (induction u b cs rule: uncovered_transitions.induct)
  case (2 u b c d rest)
  then have "c < d" "transitions_disjoint (uncovered_transitions (max u d) b rest)" by auto
  moreover have "\<forall>(p, s, e)\<in>set (uncovered_transitions (max u d) b rest). max u d \<le> s"
    using uncovered_bounds by fastforce
  ultimately show ?case by (fastforce simp: transitions_disjoint_def)
qed (auto simp: transitions_disjoint_def)

lemma covered_ranges_props:
  assumes "sorted_wrt (\<lambda>i j. ci_end i \<le> ci_start j) os"
  shows "sorted_wrt (\<lambda>x y. snd x \<le> fst y) (covered_ranges a b os)"
    and "\<forall>(c, d)\<in>set (covered_ranges a b os). c < d \<and> a \<le> c \<and> d \<le> b"
proof -
  have "sorted_wrt (\<lambda>i j. snd (covered_part a b i) \<le> fst (covered_part a b j)) os"
    by (rule sorted_wrt_mono_rel [OF _ assms]) (auto simp: covered_part_def)
  then show "sorted_wrt (\<lambda>x y. snd x \<le> fst y) (covered_ranges a b os)"
    unfolding covered_ranges_def by (intro sorted_wrt_filter) (simp add: sorted_wrt_map)
qed (auto simp: covered_ranges_def covered_part_def)

lemma coverage_transitions_exact:
  assumes wf: "coverage_wf db" and ab: "a < b"
  shows "transition_at (coverage_transitions db target a b status) t previous \<longleftrightarrow>
    a \<le> t \<and> t < b \<and> coverage_at db target t = previous \<and> previous \<noteq> Some status"
proof -
  let ?os = "find_overlaps db target a b"
  note props = find_overlaps_props [OF wf, of target a b]
  note cr = covered_ranges_props [OF props(3), of a b]
  have st: "transition_at (status_transitions a b status ?os) t previous \<longleftrightarrow>
    (\<exists>st. previous = Some st \<and> st \<noteq> status \<and> stored db target t st) \<and> a \<le> t \<and> t < b"
    using props(1)
    by (fastforce simp: transition_at_def status_transitions_def covered_part_def stored_def covers_def
        overlapping_def ranges_overlap_def)
  have in_cr: "(\<exists>(c, d)\<in>set (covered_ranges a b ?os). c \<le> t \<and> t < d) \<longleftrightarrow>
      (\<exists>st. stored db target t st)" if "a \<le> t" "t < b"
    using props(1) that
    by (fastforce simp: covered_ranges_def covered_part_def stored_def covers_def overlapping_def
        ranges_overlap_def)
  have "transition_at (uncovered_transitions a b (covered_ranges a b ?os)) t previous \<longleftrightarrow>
    previous = None \<and> a \<le> t \<and> t < b \<and> (\<forall>st. \<not> stored db target t st)"
    using uncovered_exact [OF cr(1), of a b t previous] cr(2) in_cr by fastforce
  moreover have "transition_at (coverage_transitions db target a b status) t previous \<longleftrightarrow>
    transition_at (status_transitions a b status ?os) t previous \<or>
    transition_at (uncovered_transitions a b (covered_ranges a b ?os)) t previous"
    by (auto simp: coverage_transitions_def transition_at_def Let_def)
  ultimately show ?thesis
    using st coverage_at_Some_iff [OF wf] coverage_at_None_iff [OF wf] by (cases previous) auto
qed

section \<open>Events and the recomputation queue\<close>

definition only_events :: "coverage_db \<Rightarrow> coverage_db \<Rightarrow> bool" where
  "only_events db db' \<longleftrightarrow>
     db_specs db' = db_specs db \<and> db_markets db' = db_markets db \<and> db_intervals db' = db_intervals db \<and>
     db_interval_seq db' = db_interval_seq db \<and> db_revisions db' = db_revisions db \<and>
     db_indicator_invalidations db' = db_indicator_invalidations db \<and>
     db_rollup_invalidations db' = db_rollup_invalidations db \<and> db_rollup_seq db' = db_rollup_seq db \<and>
     db_recompute_jobs db' = db_recompute_jobs db"

lemma record_transition_frame: "only_events db (fst (record_transition target status reason mf ev now (db, created) tr))"
  by (simp add: record_transition_def only_events_def Let_def split: prod.splits)

lemma record_transitions_frame:
  "foldl (record_transition target status reason mf ev now) (db, created) trs = (db', created') \<Longrightarrow>
   only_events db db'"
proof (induction trs arbitrary: db created)
  case (Cons tr trs)
  obtain db1 created1 where 1: "record_transition target status reason mf ev now (db, created) tr = (db1, created1)"
    by fastforce
  have "only_events db1 db'" using Cons.IH [of db1 created1] Cons.prems 1 by simp
  moreover have "only_events db db1"
    using record_transition_frame [of db target status reason mf ev now created tr] 1 by simp
  ultimately show ?case by (simp add: only_events_def)
qed (simp add: only_events_def)

text \<open>Every queued invalidation has exactly one job, under the same key.\<close>

definition queue_wf :: "coverage_db \<Rightarrow> bool" where
  "queue_wf db \<longleftrightarrow>
     (\<forall>r\<in>set (db_rollup_invalidations db). ri_id r < db_rollup_seq db \<and> rollup_row_check r) \<and>
     distinct (map ri_id (db_rollup_invalidations db)) \<and>
     distinct (map ri_idempotency_key (db_rollup_invalidations db)) \<and>
     distinct (map rj_invalidation_id (db_recompute_jobs db)) \<and>
     set (map (\<lambda>j. (rj_invalidation_id j, rj_idempotency_key j)) (db_recompute_jobs db)) =
     set (map (\<lambda>r. (ri_id r, ri_idempotency_key r)) (db_rollup_invalidations db))"

lemma queue_wf_job:
  "queue_wf db \<Longrightarrow> j \<in> set (db_recompute_jobs db) \<Longrightarrow>
   \<exists>r\<in>set (db_rollup_invalidations db). rj_invalidation_id j = ri_id r \<and> rj_idempotency_key j = ri_idempotency_key r"
  unfolding queue_wf_def set_map by blast

text \<open>Fields the queue operations leave alone.\<close>

definition only_queue :: "coverage_db \<Rightarrow> coverage_db \<Rightarrow> bool" where
  "only_queue db db' \<longleftrightarrow>
     db_specs db' = db_specs db \<and> db_markets db' = db_markets db \<and> db_intervals db' = db_intervals db \<and>
     db_interval_seq db' = db_interval_seq db \<and> db_events db' = db_events db \<and>
     db_event_seq db' = db_event_seq db \<and> db_revisions db' = db_revisions db"

lemma only_queue_refl [simp]: "only_queue db db"
  by (simp add: only_queue_def)

lemma only_queue_trans: "only_queue x y \<Longrightarrow> only_queue y z \<Longrightarrow> only_queue x z"
  by (simp add: only_queue_def)

lemma push_invalidation_ok:
  assumes wf: "queue_wf db" and row: "rollup_row_check row" "ri_id row = db_rollup_seq db"
  shows "\<exists>db'. push_invalidation db row = Inr db' \<and> queue_wf db' \<and> only_queue db db' \<and>
    (\<exists>x\<in>set (db_rollup_invalidations db'). ri_idempotency_key x = ri_idempotency_key row) \<and>
    set (db_rollup_invalidations db) \<subseteq> set (db_rollup_invalidations db')"
proof (cases "list_ex (\<lambda>r. ri_idempotency_key r = ri_idempotency_key row) (db_rollup_invalidations db)")
  case True
  then show ?thesis
    using wf row by (auto simp: push_invalidation_def queue_wf_def only_queue_def list_ex_iff intro: less_trans)
next
  case False
  have old: "\<forall>x\<in>set (db_rollup_invalidations db).
      ri_id x \<noteq> ri_id row \<and> ri_idempotency_key x \<noteq> ri_idempotency_key row"
    using wf row False by (auto simp: queue_wf_def list_ex_iff)
  then have jobs: "\<forall>j\<in>set (db_recompute_jobs db).
      rj_invalidation_id j \<noteq> ri_id row \<and> rj_idempotency_key j \<noteq> ri_idempotency_key row"
    using queue_wf_job [OF wf] by fastforce
  let ?db = "db\<lparr>db_rollup_invalidations := db_rollup_invalidations db @ [row],
             db_rollup_seq := db_rollup_seq db + 1,
             db_recompute_jobs := db_recompute_jobs db @
               [\<lparr>rj_invalidation_id = ri_id row, rj_idempotency_key = ri_idempotency_key row,
                 rj_status = ''pending''\<rparr>]\<rparr>"
  have "push_invalidation db row = Inr ?db"
    using False jobs row by (auto simp: push_invalidation_def list_ex_iff)
  moreover have "queue_wf ?db"
    using wf old jobs row unfolding queue_wf_def by (auto intro: less_trans)
  ultimately show ?thesis by (auto simp: only_queue_def)
qed

lemma rollup_row_check_ok:
  assumes "rir_unit r \<in> set MATERIALIZED_AGGREGATION_UNITS" "rir_start_at r < rir_end_at r"
      "1 \<le> rir_output_bucket_count r" "rir_output_bucket_count r \<le> 512"
  shows "rollup_row_check (rollup_row m i ev th kn db r)"
  using assms sha256_hex_digits by (auto simp: rollup_row_check_def rollup_row_def Let_def)

lemma coverage_snapshot_cong: "only_queue db db' \<Longrightarrow> coverage_snapshot db' = coverage_snapshot db"
  by (intro ext) (simp add: only_queue_def coverage_snapshot_def)

abbreviation range_key :: "coverage_db \<Rightarrow> int \<Rightarrow> int \<Rightarrow> int \<Rightarrow> rollup_invalidation_range \<Rightarrow> string" where
  "range_key db market instrument event_id r \<equiv>
     rollup_fingerprint market instrument r event_id
       (sha256_hex (json_dumps (coverage_snapshot db market (rir_start_at r) (rir_end_at r))))"

definition filed :: "coverage_db \<Rightarrow> string \<Rightarrow> bool" where
  "filed db key \<longleftrightarrow> (\<exists>x\<in>set (db_rollup_invalidations db). ri_idempotency_key x = key)"

definition range_valid :: "rollup_invalidation_range \<Rightarrow> bool" where
  "range_valid r \<longleftrightarrow> rir_unit r \<in> set MATERIALIZED_AGGREGATION_UNITS \<and> rir_start_at r < rir_end_at r \<and>
     1 \<le> rir_output_bucket_count r \<and> rir_output_bucket_count r \<le> 512"

lemma enqueue_range_ok:
  assumes wf: "queue_wf db" and r: "range_valid r"
  shows "\<exists>db'. enqueue_range m i ev th kn db r = Inr db' \<and> queue_wf db' \<and> only_queue db db' \<and>
    (has_source db i (rir_start_at r) (rir_end_at r) \<longrightarrow> filed db' (range_key db m i ev r)) \<and>
    (\<forall>k. filed db k \<longrightarrow> filed db' k)"
proof (cases "has_source db i (rir_start_at r) (rir_end_at r)")
  case True
  let ?row = "rollup_row m i ev th kn db r"
  have "rollup_row_check ?row" using r by (simp add: range_valid_def rollup_row_check_ok)
  moreover have "ri_id ?row = db_rollup_seq db" "ri_idempotency_key ?row = range_key db m i ev r"
    by (simp_all add: rollup_row_def Let_def)
  ultimately show ?thesis
    using push_invalidation_ok [OF wf, of ?row] True by (auto simp: enqueue_range_def filed_def)
qed (use wf in \<open>auto simp: enqueue_range_def\<close>)

lemma enqueue_ranges_ok:
  assumes "queue_wf db" "\<forall>r\<in>set rs. range_valid r"
  shows "\<exists>db'. res_foldM (enqueue_range m i ev th kn) db rs = Inr db' \<and> queue_wf db' \<and> only_queue db db' \<and>
    (\<forall>r\<in>set rs. has_source db i (rir_start_at r) (rir_end_at r) \<longrightarrow> filed db' (range_key db m i ev r)) \<and>
    (\<forall>k. filed db k \<longrightarrow> filed db' k)"
  using assms
proof (induction rs arbitrary: db)
  case (Cons r rs)
  obtain db1 where db1: "enqueue_range m i ev th kn db r = Inr db1" "queue_wf db1" "only_queue db db1"
    "has_source db i (rir_start_at r) (rir_end_at r) \<longrightarrow> filed db1 (range_key db m i ev r)"
    "\<forall>k. filed db k \<longrightarrow> filed db1 k"
    using enqueue_range_ok [of db r m i ev th kn] Cons.prems by auto
  obtain db2 where db2: "res_foldM (enqueue_range m i ev th kn) db1 rs = Inr db2" "queue_wf db2"
    "only_queue db1 db2"
    "\<forall>r\<in>set rs. has_source db1 i (rir_start_at r) (rir_end_at r) \<longrightarrow> filed db2 (range_key db1 m i ev r)"
    "\<forall>k. filed db1 k \<longrightarrow> filed db2 k"
    using Cons.IH [OF db1(2)] Cons.prems by auto
  have "has_source db1 = has_source db"
    using db1(3) by (intro ext) (simp add: only_queue_def has_source_def)
  then show ?case
    using db1 db2 coverage_snapshot_cong [OF db1(3)] only_queue_trans [OF db1(3) db2(3)] by auto
qed simp

lemma unit_bucket_width:
  assumes "0 \<le> t"
  shows "unit_next u (unit_start u t) \<le> unit_start u t + 31 * day_us"
proof (cases "u = U1M")
  case True
  have "days_in_month (dt_year t) (dt_month t) * day_us \<le> 31 * day_us"
    using days_in_month_pos(2) by (intro mult_right_mono) auto
  then show ?thesis
    using True assms by (simp add: unit_start_def unit_next_def month_next_start month_next_eq)
next
  case False
  then show ?thesis
    by (cases u) (simp_all add: unit_next_def unit_start_def day_us_def hour_us_def minute_us_def second_us_def)
qed

text \<open>Two instants of one bucket are less than 32 days apart, so the clamp keeps the witness.\<close>

lemma clamp_keeps_bucket:
  assumes "0 \<le> t" "0 \<le> c" "unit_start u t = unit_start u c" "lo \<le> t" "t \<le> hi"
    "s \<le> c" "c < e"
  shows "max s (lo - 32 * day_us) \<le> c" "c < min e (hi + 32 * day_us)"
proof -
  have "unit_start u t \<le> t" "unit_start u t \<le> c" "t < unit_next u (unit_start u t)"
    "c < unit_next u (unit_start u t)"
    using unit_grid.start_le [OF assms(1), of u] unit_grid.before_next [OF assms(1), of u]
      unit_grid.start_le [OF assms(2), of u] unit_grid.before_next [OF assms(2), of u] assms(3)
    by simp_all
  then have "t < c + 31 * day_us" "c < t + 31 * day_us"
    using unit_bucket_width [OF assms(1), of u] by linarith+
  moreover have "31 * day_us < 32 * day_us" by simp
  ultimately show "max s (lo - 32 * day_us) \<le> c" "c < min e (hi + 32 * day_us)"
    using assms(4-7) by linarith+
qed

abbreviation spec_units :: "target_spec \<Rightarrow> agg_unit list" where
  "spec_units spec \<equiv> (if ts_candle_unit spec = Some ''1d'' then [U1d, U1w, U1M]
     else [U3m, U5m, U10m, U15m, U30m, U1h, U4h, U1d, U1w, U1M])"

lemma spec_units_names:
  "map unit_name (spec_units spec) =
     (if ts_candle_unit spec = Some ''1d'' then [''1d'', ''1w'', ''1M''] else MATERIALIZED_AGGREGATION_UNITS)"
  by (simp add: MATERIALIZED_AGGREGATION_UNITS_def AGGREGATION_UNITS_def)

lemma unit_ranges_valid:
  assumes "unit_ranges_exact u C rs" "r \<in> set rs" "u \<noteq> U1m"
  shows "range_valid r"
proof -
  have ok: "range_ok u r" using assms by (auto simp: unit_ranges_exact_def)
  define b where "b = rir_start_at r"
  obtain n where n: "nat (rir_output_bucket_count r) = Suc n"
    using ok by (cases "nat (rir_output_bucket_count r)") (auto simp: range_ok_def)
  have b: "0 \<le> b" "unit_start u b = b" using ok by (auto simp: range_ok_def b_def)
  have "b < unit_next u b" "unit_start u (unit_next u b) = unit_next u b"
    using unit_grid.next_gt [OF b] unit_grid.start_next [OF b] by auto
  moreover have "rir_end_at r = (unit_next u ^^ n) (unit_next u b)"
    using ok n by (simp add: range_ok_def b_def funpow_swap1)
  ultimately have "b < rir_end_at r"
    using unit_grid.bucket_iter_start [of "unit_next u b" u n] b(1)
    by (simp add: unit_grid.bucket_iter_def)
  moreover have "unit_name u \<in> set MATERIALIZED_AGGREGATION_UNITS"
    using assms(3) by (cases u) (simp_all add: MATERIALIZED_AGGREGATION_UNITS_def AGGREGATION_UNITS_def)
  ultimately show ?thesis
    using ok by (simp add: range_valid_def range_ok_def b_def MAX_OUTPUT_BUCKETS_PER_JOB_def)
qed

definition spec_instrument :: "coverage_db \<Rightarrow> int \<Rightarrow> (target_spec \<times> int) option" where
  "spec_instrument db target =
     (case find (\<lambda>x. ts_id x = target) (db_specs db) of
        None \<Rightarrow> None
      | Some spec \<Rightarrow>
          (case map_of (db_markets db) (ts_market_id spec) of
             Some (Some instrument) \<Rightarrow>
               if ts_data_type spec = ''source_candle'' \<and> ts_candle_unit spec \<in> {Some ''1m'', Some ''1d''}
               then Some (spec, instrument) else None
           | _ \<Rightarrow> None))"

lemma enqueue_unfold:
  "enqueue_quality_transition_recomputation target kn db (ev, s, e) =
     (case spec_instrument db target of
        None \<Rightarrow> Inr db
      | Some (spec, instrument) \<Rightarrow>
          (case source_bounds db instrument of
             None \<Rightarrow> Inr db
           | Some (lo, hi, th) \<Rightarrow>
               case affected_rollup_ranges_for_interval (utc (max s (lo - 32 * day_us)))
                   (utc (min e (hi + 32 * day_us))) (map unit_name (spec_units spec)) of
                 Inl err \<Rightarrow> Inl (Cov_Rollup err)
               | Inr ranges \<Rightarrow>
                   res_foldM (enqueue_range (ts_market_id spec) instrument ev th kn)
                     (if ts_candle_unit spec = Some ''1m''
                      then enqueue_indicator instrument ev s e th kn db else db) ranges))"
  unfolding enqueue_quality_transition_recomputation_def spec_instrument_def spec_units_names
  by (auto simp: Let_def split: option.splits prod.splits)

lemma enqueue_indicator_frame:
  "queue_wf db \<Longrightarrow> queue_wf (enqueue_indicator i ev s e th kn db)"
  "only_queue db (enqueue_indicator i ev s e th kn db)"
  "has_source (enqueue_indicator i ev s e th kn db) = has_source db"
  "filed (enqueue_indicator i ev s e th kn db) = filed db"
  by (auto simp: enqueue_indicator_def queue_wf_def only_queue_def has_source_def filed_def fun_eq_iff)

lemma source_bounds_Some:
  assumes "source_bounds db i = Some (lo, hi, th)" "r \<in> set (db_revisions db)" "sr_instrument_id r = i"
  shows "lo \<le> sr_candle_start_at r" "sr_candle_start_at r \<le> hi" "sr_id r \<le> th"
  using assms by (auto simp: source_bounds_def Let_def split: if_splits)

lemma enqueue_ok:
  assumes wf: "queue_wf db" and s: "0 \<le> s"
  shows "\<exists>db'. enqueue_quality_transition_recomputation target kn db (ev, s, e) = Inr db' \<and>
    queue_wf db' \<and> only_queue db db' \<and> (\<forall>k. filed db k \<longrightarrow> filed db' k) \<and>
    (\<forall>spec i u x c. spec_instrument db target = Some (spec, i) \<longrightarrow> u \<in> set (spec_units spec) \<longrightarrow>
       x \<in> set (db_revisions db) \<longrightarrow> sr_instrument_id x = i \<longrightarrow> 0 \<le> sr_candle_start_at x \<longrightarrow>
       s \<le> c \<longrightarrow> c < e \<longrightarrow> unit_start u (sr_candle_start_at x) = unit_start u c \<longrightarrow>
       (\<exists>r. rir_unit r = unit_name u \<and> in_range (sr_candle_start_at x) r \<and>
            filed db' (range_key db (ts_market_id spec) i ev r)))"
proof (cases "spec_instrument db target")
  case (Some si)
  obtain spec i where si: "si = (spec, i)" by fastforce
  show ?thesis
  proof (cases "source_bounds db i")
    case None
    then have "filter (\<lambda>r. sr_instrument_id r = i) (db_revisions db) = []"
      by (simp add: source_bounds_def Let_def split: if_splits)
    then show ?thesis using wf Some si None by (auto simp: enqueue_unfold filter_empty_conv)
  next
    case bounds: (Some b)
    obtain lo hi th where b: "b = (lo, hi, th)" by (cases b)
    let ?s = "max s (lo - 32 * day_us)" and ?e = "min e (hi + 32 * day_us)"
    let ?us = "spec_units spec"
    let ?db = "if ts_candle_unit spec = Some ''1m'' then enqueue_indicator i ev s e th kn db else db"
    have db: "queue_wf ?db" "only_queue db ?db" "has_source ?db = has_source db" "filed ?db = filed db"
      using wf by (auto simp: enqueue_indicator_frame)
    have "\<exists>rs. affected_rollup_ranges_for_interval (utc ?s) (utc ?e) (map unit_name ?us) = Inr rs \<and>
        (\<forall>r\<in>set rs. range_valid r) \<and>
        (\<forall>u\<in>set ?us. \<forall>t c. 0 \<le> t \<longrightarrow> ?s \<le> c \<longrightarrow> c < ?e \<longrightarrow> unit_start u t = unit_start u c \<longrightarrow>
           (\<exists>r\<in>set rs. rir_unit r = unit_name u \<and> in_range t r))"
    proof (cases "?s < ?e")
      case True
      have us: "distinct ?us" "U1m \<notin> set ?us" and s0: "0 \<le> ?s" using s by auto
      obtain rs where rs: "affected_rollup_ranges_for_interval (utc ?s) (utc ?e) (map unit_name ?us) = Inr rs"
        "\<forall>u\<in>set ?us. unit_ranges_exact u {?s..<?e} (filter (\<lambda>r. rir_unit r = unit_name u) rs)"
        "\<forall>r\<in>set rs. \<exists>u\<in>set ?us. rir_unit r = unit_name u"
        using interval_ranges_of_units [of "utc ?s" "utc ?e" ?us, unfolded instant_utc,
            OF is_utc_utc(1) is_utc_utc(1) s0 True us] by blast
      have "range_valid r" if r: "r \<in> set rs" for r
      proof -
        obtain u where u: "u \<in> set ?us" "rir_unit r = unit_name u" using rs(3) r by blast
        have "r \<in> set (filter (\<lambda>r. rir_unit r = unit_name u) rs)" using r u(2) by simp
        moreover have "u \<noteq> U1m" using u(1) us(2) by blast
        ultimately show ?thesis using rs(2) u(1) unit_ranges_valid by blast
      qed
      moreover have "\<exists>r\<in>set rs. rir_unit r = unit_name u \<and> in_range t r"
        if "u \<in> set ?us" "0 \<le> t" "?s \<le> c" "c < ?e" "unit_start u t = unit_start u c" for u t c
        using rs(2) that by (fastforce simp: unit_ranges_exact_def)
      ultimately show ?thesis using rs(1) by blast
    qed (auto simp: affected_rollup_ranges_for_interval_def)
    then obtain rs where rs: "affected_rollup_ranges_for_interval (utc ?s) (utc ?e) (map unit_name ?us) = Inr rs"
        "\<forall>r\<in>set rs. range_valid r"
        "\<forall>u\<in>set ?us. \<forall>t c. 0 \<le> t \<longrightarrow> ?s \<le> c \<longrightarrow> c < ?e \<longrightarrow> unit_start u t = unit_start u c \<longrightarrow>
           (\<exists>r\<in>set rs. rir_unit r = unit_name u \<and> in_range t r)"
      by blast
    obtain db' where db': "res_foldM (enqueue_range (ts_market_id spec) i ev th kn) ?db rs = Inr db'"
      "queue_wf db'" "only_queue ?db db'"
      "\<forall>r\<in>set rs. has_source ?db i (rir_start_at r) (rir_end_at r) \<longrightarrow>
         filed db' (range_key ?db (ts_market_id spec) i ev r)"
      "\<forall>k. filed ?db k \<longrightarrow> filed db' k"
      using enqueue_ranges_ok [OF db(1) rs(2)] by blast
    have "\<exists>r. rir_unit r = unit_name u \<and> in_range (sr_candle_start_at x) r \<and>
        filed db' (range_key db (ts_market_id spec) i ev r)"
      if x: "u \<in> set ?us" "x \<in> set (db_revisions db)" "sr_instrument_id x = i" "0 \<le> sr_candle_start_at x"
        "s \<le> c" "c < e" "unit_start u (sr_candle_start_at x) = unit_start u c" for u x c
    proof -
      have "?s \<le> c" "c < ?e"
        using clamp_keeps_bucket [OF x(4) _ x(7) _ _ x(5,6)] source_bounds_Some [OF bounds [unfolded b] x(2,3)]
          x(5) s by auto
      then obtain r where r: "r \<in> set rs" "rir_unit r = unit_name u" "in_range (sr_candle_start_at x) r"
        using rs(3) x by blast
      moreover have "has_source ?db i (rir_start_at r) (rir_end_at r)"
        using r(3) x(2,3) unfolding db(3) by (auto simp: has_source_def in_range_def list_ex_iff)
      ultimately show ?thesis using db'(4) coverage_snapshot_cong [OF db(2)] by metis
    qed
    moreover have "enqueue_quality_transition_recomputation target kn db (ev, s, e) = Inr db'"
      using Some si bounds b rs(1) db'(1) by (simp add: enqueue_unfold)
    ultimately show ?thesis
      using db'(2,5) db(4) only_queue_trans [OF db(2) db'(3)] Some si by auto
  qed
qed (use wf in \<open>auto simp: enqueue_unfold\<close>)

lemma enqueue_all_ok:
  assumes "queue_wf db" "\<forall>(ev, s, e)\<in>set events. 0 \<le> s"
  shows "\<exists>db'. res_foldM (enqueue_quality_transition_recomputation target kn) db events = Inr db' \<and>
    queue_wf db' \<and> only_queue db db'"
  using assms
proof (induction events arbitrary: db)
  case (Cons x events)
  obtain ev s e where x: "x = (ev, s, e)" by (cases x)
  then obtain db1 where "enqueue_quality_transition_recomputation target kn db x = Inr db1"
    "queue_wf db1" "only_queue db db1"
    using enqueue_ok [of db s target kn ev e] Cons.prems by auto
  then show ?case using Cons.IH [of db1] Cons.prems only_queue_trans by fastforce
qed simp

text \<open>The events created by the transition loop are numbered transitions.\<close>

lemma record_transitions_created:
  "foldl (record_transition target status reason mf ev now) (db, created) trs = (db', created') \<Longrightarrow>
   snd ` set created' \<subseteq> snd ` set created \<union> snd ` set trs"
proof (induction trs arbitrary: db created)
  case (Cons tr trs)
  obtain db1 created1 where 1: "record_transition target status reason mf ev now (db, created) tr = (db1, created1)"
    by fastforce
  then have "snd ` set created1 \<subseteq> insert (snd tr) (snd ` set created)"
    by (auto simp: record_transition_def Let_def split: prod.splits if_splits)
  moreover have "snd ` set created' \<subseteq> snd ` set created1 \<union> snd ` set trs"
    using Cons.IH [of db1 created1] Cons.prems 1 by simp
  ultimately show ?case unfolding list.set image_insert by blast
qed simp

lemma coverage_transitions_bounds:
  assumes "coverage_wf db" "(p, s, e) \<in> set (coverage_transitions db target a b status)"
  shows "a \<le> s" "s < e"
  using assms uncovered_bounds
  by (fastforce simp: coverage_transitions_def Let_def status_transitions_def covered_part_def)+

lemma replace_coverage_ok:
  assumes wf: "coverage_wf db" "queue_wf db" and ab: "0 \<le> a" "a < b"
    and spec: "find (\<lambda>x. ts_id x = target) (db_specs db) \<noteq> None"
  shows "\<exists>db' db2 db3 created.
    replace_coverage_with_classification target a b status reason mf ev now db = Inr db' \<and>
    coverage_wf db' \<and> queue_wf db' \<and> only_queue db3 db' \<and> only_intervals db db2 \<and>
    foldl (record_transition target status reason mf ev now) (db2, [])
      (coverage_transitions db target a b status) = (db3, created) \<and>
    (\<forall>g t. coverage_at db' g t =
       (if g = target \<and> a \<le> t \<and> t < b then Some status else coverage_at db g t))"
proof -
  obtain db1 db2 where
    db1: "res_foldM (replace_overlap target a b) db (find_overlaps db target a b) = Inr db1" and
    db2: "insert_interval db1 target a b status (jsonable (PyDict ev)) mf now = Inr db2"
      "coverage_wf db2" "only_intervals db db2"
      "\<forall>g t. coverage_at db2 g t =
         (if g = target \<and> a \<le> t \<and> t < b then Some status else coverage_at db g t)"
    using replace_coverage_intervals [OF wf(1) ab(2)] by blast
  obtain db3 created where
    db3: "foldl (record_transition target status reason mf ev now) (db2, [])
      (coverage_transitions db target a b status) = (db3, created)" by fastforce
  have frame: "only_events db2 db3" by (rule record_transitions_frame [OF db3])
  have "queue_wf db3"
    using wf(2) db2(3) frame by (simp add: only_intervals_def only_events_def queue_wf_def)
  moreover have "\<forall>(q, s, e)\<in>set created. 0 \<le> s"
  proof clarify
    fix q s e assume "(q, s, e) \<in> set created"
    then have "(s, e) \<in> snd ` set (coverage_transitions db target a b status)"
      using record_transitions_created [OF db3] by force
    then show "0 \<le> s" using coverage_transitions_bounds(1) [OF wf(1)] ab(1) by fastforce
  qed
  ultimately obtain db' where
    db': "res_foldM (enqueue_quality_transition_recomputation target now) db3 created = Inr db'"
      "queue_wf db'" "only_queue db3 db'"
    using enqueue_all_ok by blast
  have iv: "db_intervals db' = db_intervals db2" "db_interval_seq db' = db_interval_seq db2"
    using db'(3) frame by (simp_all add: only_queue_def only_events_def)
  have "coverage_wf db'" using db2(2) iv by (simp add: coverage_wf_def)
  moreover have "coverage_at db' = coverage_at db2" using iv by (intro ext) (simp add: coverage_at_def)
  moreover have "replace_coverage_with_classification target a b status reason mf ev now db = Inr db'"
    using ab spec db1 db2(1) db3 db'(1)
    by (auto simp: replace_coverage_with_classification_def Let_def)
  ultimately show ?thesis using db'(2,3) db2(3,4) db3 by auto
qed

lemma record_transitions_exact:
  assumes "foldl (record_transition target status reason mf ev now) (db, created) trs = (db', created')"
    and "\<forall>x\<in>set (db_events db). qe_id x < db_event_seq db"
    and "distinct (map (transition_fingerprint target status reason mf) trs)"
    and "\<forall>x\<in>set (db_events db). qe_target_spec_id x = target \<and> qe_event_type x = reason \<and>
           qe_detected_at x = now \<longrightarrow> qe_fingerprint x \<notin> transition_fingerprint target status reason mf ` set trs"
  shows "\<exists>evs. db_events db' = db_events db @ evs \<and>
    map (\<lambda>x. (qe_previous_status x, qe_start x, qe_end x)) evs = trs \<and>
    (\<forall>x\<in>set evs. qe_target_spec_id x = target \<and> qe_event_type x = reason \<and> qe_new_status x = status \<and>
       qe_manifest_id x = mf \<and> qe_detected_at x = now)"
  using assms
proof (induction trs arbitrary: db created)
  case (Cons tr trs)
  obtain p s e where tr: "tr = (p, s, e)" by (cases tr)
  define x where "x = \<lparr>qe_id = db_event_seq db, qe_target_spec_id = target, qe_event_type = reason,
              qe_previous_status = p, qe_new_status = status, qe_start = s, qe_end = e,
              qe_fingerprint = transition_fingerprint target status reason mf tr,
              qe_evidence = jsonable (PyDict (dict_set (dict_set ev ''reasonCode'' (PyStr reason))
                 ''fetchManifestId'' (opt_int mf))),
              qe_manifest_id = mf, qe_detected_at = now\<rparr>"
  let ?db1 = "db\<lparr>db_event_seq := db_event_seq db + 1, db_events := db_events db @ [x]\<rparr>"
  have "\<not> list_ex (event_conflict x) (db_events db)"
    using Cons.prems(2,4) by (force simp: list_ex_iff event_conflict_def x_def)
  then have 1: "record_transition target status reason mf ev now (db, created) tr =
      (?db1, created @ [(db_event_seq db, s, e)])"
    by (simp add: record_transition_def Let_def tr x_def)
  have 2: "\<forall>y\<in>set (db_events ?db1). qe_id y < db_event_seq ?db1"
    using Cons.prems(2) by (auto simp: x_def intro: less_trans)
  have 3: "\<forall>y\<in>set (db_events ?db1). qe_target_spec_id y = target \<and> qe_event_type y = reason \<and>
      qe_detected_at y = now \<longrightarrow> qe_fingerprint y \<notin> transition_fingerprint target status reason mf ` set trs"
    using Cons.prems(3,4) by (auto simp: x_def)
  obtain evs where "db_events db' = db_events ?db1 @ evs"
    "map (\<lambda>x. (qe_previous_status x, qe_start x, qe_end x)) evs = trs"
    "\<forall>x\<in>set evs. qe_target_spec_id x = target \<and> qe_event_type x = reason \<and> qe_new_status x = status \<and>
       qe_manifest_id x = mf \<and> qe_detected_at x = now"
    using Cons.IH [OF _ 2 _ 3] Cons.prems(1,3) 1 by auto
  then show ?case by (intro exI [of _ "x # evs"]) (auto simp: tr x_def)
qed simp

section \<open>Properties\<close>

definition example_db :: coverage_db where
  "example_db =
     \<lparr>db_specs = [\<lparr>ts_id = 1, ts_market_id = 7, ts_data_type = ''source_candle'', ts_candle_unit = Some ''1m''\<rparr>],
      db_markets = [(7, Some 42)],
      db_intervals = [\<lparr>ci_id = 1, ci_target_spec_id = 1, ci_start = 0, ci_end = 600000000,
        ci_status = Unverified, ci_evidence = JNull, ci_manifest_id = None, ci_assessed_at = 0\<rparr>],
      db_interval_seq = 2, db_events = [], db_event_seq = 1,
      db_revisions = [\<lparr>sr_id = 5, sr_instrument_id = 42, sr_candle_start_at = 120000000\<rparr>],
      db_indicator_invalidations = [], db_rollup_invalidations = [], db_rollup_seq = 1,
      db_recompute_jobs = []\<rparr>"

lemma example_db_wf: "coverage_wf example_db" "queue_wf example_db"
  by (simp_all add: coverage_wf_def queue_wf_def example_db_def)

text \<open>C31. 
  Replacing coverage refines an update of a function from instants to states: for a
  well-formed table and a known target the whole operation succeeds (no exclusion, check or unique
  constraint is violated on the way), the intervals stay disjoint and the recomputation queue
  consistent, and afterwards every instant of the classified interval has the new state while
  every other instant, and every other target, keeps the state it had.
\<close>

theorem replace_coverage_refines:
  assumes "coverage_wf db" "queue_wf db" "0 \<le> a" "a < b"
    and "find (\<lambda>x. ts_id x = target) (db_specs db) \<noteq> None"
  shows "\<exists>db'. replace_coverage_with_classification target a b status reason mf ev now db = Inr db' \<and>
    coverage_wf db' \<and> queue_wf db' \<and>
    (\<forall>g t. coverage_at db' g t =
       (if g = target \<and> a \<le> t \<and> t < b then Some status else coverage_at db g t))"
  using replace_coverage_ok [OF assms] by blast

theorem replace_coverage_refines_witness:
  "\<exists>db'. replace_coverage_with_classification 1 60000000 180000000 Missing ''gap'' None [] 900 example_db = Inr db' \<and>
    coverage_wf db' \<and> queue_wf db' \<and>
    (\<forall>g t. coverage_at db' g t =
       (if g = 1 \<and> 60000000 \<le> t \<and> t < 180000000 then Some Missing else coverage_at example_db g t))"
  by (rule replace_coverage_refines) (simp_all add: example_db_wf, simp add: example_db_def)

text \<open>
  The recorded quality events are exactly the changes: when no event of this target and reason
  carries the same detection time and the transitions have different fingerprints, the new events
  cover an instant with previous state \<open>p\<close> precisely when the instant lies in the classified
  interval, had the state \<open>p\<close> (none, where the table had a gap) and changes it.
\<close>

theorem replace_coverage_records_transitions:
  assumes "coverage_wf db" "queue_wf db" "0 \<le> a" "a < b"
    and "find (\<lambda>x. ts_id x = target) (db_specs db) \<noteq> None"
    and "\<forall>x\<in>set (db_events db). qe_id x < db_event_seq db"
    and "\<forall>x\<in>set (db_events db). \<not> (qe_target_spec_id x = target \<and> qe_event_type x = reason \<and> qe_detected_at x = now)"
    and "distinct (map (transition_fingerprint target status reason mf) (coverage_transitions db target a b status))"
  shows "\<exists>db' evs. replace_coverage_with_classification target a b status reason mf ev now db = Inr db' \<and>
    db_events db' = db_events db @ evs \<and>
    (\<forall>x\<in>set evs. qe_target_spec_id x = target \<and> qe_event_type x = reason \<and> qe_new_status x = status \<and>
       qe_manifest_id x = mf \<and> qe_detected_at x = now) \<and>
    (\<forall>t p. (\<exists>x\<in>set evs. qe_previous_status x = p \<and> qe_start x \<le> t \<and> t < qe_end x) \<longleftrightarrow>
       a \<le> t \<and> t < b \<and> coverage_at db target t = p \<and> p \<noteq> Some status)"
proof -
  obtain db' db2 db3 created where
    r: "replace_coverage_with_classification target a b status reason mf ev now db = Inr db'"
      "only_queue db3 db'" "only_intervals db db2"
      "foldl (record_transition target status reason mf ev now) (db2, [])
        (coverage_transitions db target a b status) = (db3, created)"
    using replace_coverage_ok [OF assms(1-5)] by blast
  obtain evs where evs: "db_events db3 = db_events db2 @ evs"
    "map (\<lambda>x. (qe_previous_status x, qe_start x, qe_end x)) evs = coverage_transitions db target a b status"
    "\<forall>x\<in>set evs. qe_target_spec_id x = target \<and> qe_event_type x = reason \<and> qe_new_status x = status \<and>
       qe_manifest_id x = mf \<and> qe_detected_at x = now"
    using record_transitions_exact [OF r(4)] r(3) assms(6-8) by (auto simp: only_intervals_def)
  have "(\<exists>x\<in>set evs. qe_previous_status x = p \<and> qe_start x \<le> t \<and> t < qe_end x) \<longleftrightarrow>
      transition_at (coverage_transitions db target a b status) t p" for t p
    unfolding evs(2) [symmetric] transition_at_def by auto
  then show ?thesis
    using r(1-3) evs(1,3) coverage_transitions_exact [OF assms(1,4)]
    by (auto simp: only_queue_def only_intervals_def)
qed

theorem replace_coverage_records_transitions_witness:
  "\<exists>db' evs. replace_coverage_with_classification 1 60000000 180000000 Missing ''gap'' None [] 900 example_db = Inr db' \<and>
    db_events db' = db_events example_db @ evs \<and>
    (\<forall>x\<in>set evs. qe_target_spec_id x = 1 \<and> qe_event_type x = ''gap'' \<and> qe_new_status x = Missing \<and>
       qe_manifest_id x = None \<and> qe_detected_at x = 900) \<and>
    (\<forall>t p. (\<exists>x\<in>set evs. qe_previous_status x = p \<and> qe_start x \<le> t \<and> t < qe_end x) \<longleftrightarrow>
       60000000 \<le> t \<and> t < 180000000 \<and> coverage_at example_db 1 t = p \<and> p \<noteq> Some Missing)"
proof (rule replace_coverage_records_transitions)
  show "distinct (map (transition_fingerprint 1 Missing ''gap'' None)
      (coverage_transitions example_db 1 60000000 180000000 Missing))"
    by (simp add: coverage_transitions_def find_overlaps_def example_db_def overlapping_def
        ranges_overlap_def status_transitions_def covered_part_def covered_ranges_def)
qed (simp_all add: example_db_wf, simp_all add: example_db_def)

text \<open>
  A quality transition reaches every derived candle that holds source data: whenever a bucket
  of a derived unit contains a source candle of the instrument and meets the changed interval, an
  invalidation is on file under the fingerprint of a range of that unit that contains the candle.
  Clamping the interval to 32 days around the source bounds loses none, monthly buckets included,
  and no database constraint is violated.
\<close>

theorem quality_transition_reaches_source:
  assumes "queue_wf db" "0 \<le> s" and "spec_instrument db target = Some (spec, i)"
    and "u \<in> set (spec_units spec)" and "x \<in> set (db_revisions db)" "sr_instrument_id x = i"
    and "0 \<le> sr_candle_start_at x" and "s \<le> c" "c < e"
    and "unit_start u (sr_candle_start_at x) = unit_start u c"
  shows "\<exists>db' r. enqueue_quality_transition_recomputation target now db (ev, s, e) = Inr db' \<and>
    queue_wf db' \<and> rir_unit r = unit_name u \<and> in_range (sr_candle_start_at x) r \<and>
    filed db' (range_key db (ts_market_id spec) i ev r)"
  using enqueue_ok [OF assms(1,2), of target now ev e] assms(3-) by blast

theorem quality_transition_reaches_source_witness:
  "\<exists>db' r. enqueue_quality_transition_recomputation 1 900 example_db (3, 60000000, 61000000) = Inr db' \<and>
    queue_wf db' \<and> rir_unit r = unit_name U3m \<and>
    in_range (sr_candle_start_at (hd (db_revisions example_db))) r \<and>
    filed db' (range_key example_db (ts_market_id (hd (db_specs example_db))) 42 3 r)"
  by (rule quality_transition_reaches_source [where c = 60000000])
    (simp_all add: example_db_wf, simp_all add: example_db_def spec_instrument_def unit_start_def
      grid_start_def minute_us_def second_us_def)

end
