(* ===== verification/Strategy_Graph.thy ===== *)
theory Strategy_Graph
  imports Py_Value
begin

text \<open>
  Model of \<^verbatim>\<open>packages/shared/goodmoneying_shared/strategy_graph.py\<close>: validation of a strategy
  graph (ports, timeframes, look-ahead, warm-up, cycles, outputs) and its canonical hash. A graph
  is a Python mapping; the human-readable message of a validation error is left out. Iterating a
  Python set of successors has no fixed order; the model uses the insertion order, and the
  correctness of \<^verbatim>\<open>_has_cycle\<close> shows that the answer does not depend on it.
\<close>

section \<open>Data\<close>

definition VALIDATION_CODES :: "string list" where
  "VALIDATION_CODES =
     [''cycle_detected'', ''port_type_mismatch'', ''timeframe_incompatible'', ''look_ahead_detected'',
      ''parameter_out_of_range'', ''missing_data_policy_required'', ''insufficient_warmup'',
      ''missing_output'']"

definition MISSING_DATA_POLICIES :: "string list" where
  "MISSING_DATA_POLICIES = [''fail'', ''null'', ''drop'']"

definition TIMEFRAMES :: "string list" where
  "TIMEFRAMES = [''1m'', ''3m'', ''5m'', ''10m'', ''15m'', ''30m'', ''1h'', ''4h'', ''1d'', ''1w'', ''1M'']"

record strategy_validation_error =
  se_code :: string
  se_node_id :: "string option"
  se_edge_index :: "nat option"

record strategy_validation_result =
  sv_valid :: bool
  sv_errors :: "strategy_validation_error list"
  sv_graph_hash :: string

datatype strategy_exception = Strat_TypeError | Strat_KeyError string

definition sv_error :: "string \<Rightarrow> string option \<Rightarrow> nat option \<Rightarrow> strategy_validation_error" where
  "sv_error code node_id edge_index = \<lparr>se_code = code, se_node_id = node_id, se_edge_index = edge_index\<rparr>"

section \<open>Reading a graph\<close>

definition as_mapping :: "py_value \<Rightarrow> py_dict" where
  "as_mapping v = (case v of PyDict d \<Rightarrow> d | _ \<Rightarrow> [])"

definition mapping_list :: "py_value \<Rightarrow> py_dict list" where
  "mapping_list v =
     (case v of
        PyList xs \<Rightarrow> concat (map (\<lambda>x. case x of PyDict d \<Rightarrow> [d] | _ \<Rightarrow> []) xs)
      | _ \<Rightarrow> [])"

definition get_str :: "py_dict \<Rightarrow> string \<Rightarrow> string" where
  "get_str d k = py_str (dict_get_default d k (PyStr ''''))"

definition int_config :: "py_dict \<Rightarrow> string \<Rightarrow> int option" where
  "int_config config key = (case dict_get config key of PyInt i \<Rightarrow> Some i | _ \<Rightarrow> None)"

definition has_positive_lookahead :: "py_dict \<Rightarrow> bool" where
  "has_positive_lookahead config \<longleftrightarrow>
     list_ex (\<lambda>key. case int_config config key of None \<Rightarrow> False | Some v \<Rightarrow> 0 < v)
       [''lookAheadPeriods'', ''futureOffsetPeriods''] \<or>
     (case int_config config ''offsetPeriods'' of None \<Rightarrow> False | Some v \<Rightarrow> v < 0)"

definition is_decimal_string_or_number :: "py_value \<Rightarrow> bool" where
  "is_decimal_string_or_number v =
     (case v of
        PyInt i \<Rightarrow> True
      | PyFloat r x \<Rightarrow> True
      | PyDecimal a \<Rightarrow> True
      | PyStr s \<Rightarrow> parse_decimal s \<noteq> None
      | _ \<Rightarrow> False)"

definition find_port :: "py_dict option \<Rightarrow> string \<Rightarrow> py_value \<Rightarrow> py_dict option" where
  "find_port node port_key port_name =
     (case node of
        None \<Rightarrow> None
      | Some d \<Rightarrow> find (\<lambda>port. py_eq (dict_get port ''name'') port_name) (mapping_list (dict_get d port_key)))"

section \<open>Canonical form and hash\<close>

function sg_canonical_value :: "py_value \<Rightarrow> py_value" where
  "sg_canonical_value (PyDict d) = PyDict (map (\<lambda>kv. (fst kv, sg_canonical_value (snd kv))) d)"
| "sg_canonical_value (PyList xs) = PyList (map sg_canonical_value xs)"
| "sg_canonical_value (PyDecimal a) = PyStr (dec_format_f a)"
| "sg_canonical_value PyNone = PyNone"
| "sg_canonical_value (PyBool b) = PyBool b"
| "sg_canonical_value (PyInt i) = PyInt i"
| "sg_canonical_value (PyFloat r v) = PyFloat r v"
| "sg_canonical_value (PyDatetime t) = PyDatetime t"
| "sg_canonical_value (PyStr s) = PyStr s"
  by pat_completeness auto
termination
  by (relation "measure size") (auto intro: size_list_mem size_dict_mem)

definition sg_canonical_json_bytes :: "py_value \<Rightarrow> strategy_exception + string" where
  "sg_canonical_json_bytes payload =
     res_map json_dumps (json_encode Strat_TypeError (sg_canonical_value payload))"

definition canonical_port :: "py_dict \<Rightarrow> py_value" where
  "canonical_port port =
     (let timeframe = dict_get port ''timeframe'';
          timeframe' = (if timeframe \<noteq> PyNone \<and> py_str timeframe \<notin> set TIMEFRAMES
                        then PyStr (py_str timeframe) else timeframe)
      in PyDict
        [(''name'', PyStr (get_str port ''name'')),
         (''dataType'', PyStr (get_str port ''dataType'')),
         (''timeframe'', if timeframe' = PyNone then PyNone else PyStr (py_str timeframe'))])"

definition item_str :: "string \<Rightarrow> py_value \<Rightarrow> string" where
  "item_str k v = py_str (dict_get (as_mapping v) k)"

definition canonical_ports :: "py_value \<Rightarrow> py_value" where
  "canonical_ports v = PyList (sort_key (item_str ''name'') (map canonical_port (mapping_list v)))"

definition canonical_node :: "py_dict \<Rightarrow> py_value" where
  "canonical_node node = PyDict
     [(''id'', PyStr (get_str node ''id'')),
      (''type'', PyStr (get_str node ''type'')),
      (''config'', sg_canonical_value (dict_get_default node ''config'' (PyDict []))),
      (''input_ports'', canonical_ports (dict_get node ''input_ports'')),
      (''output_ports'', canonical_ports (dict_get node ''output_ports''))]"

definition canonical_edge :: "py_dict \<Rightarrow> py_value" where
  "canonical_edge edge = PyDict
     [(''from_node'', PyStr (get_str edge ''from_node'')),
      (''from_port'', PyStr (get_str edge ''from_port'')),
      (''to_node'', PyStr (get_str edge ''to_node'')),
      (''to_port'', PyStr (get_str edge ''to_port''))]"

definition canonical_output :: "py_dict \<Rightarrow> py_value" where
  "canonical_output output = PyDict
     [(''node'', PyStr (get_str output ''node'')), (''port'', PyStr (get_str output ''port''))]"

definition node_key :: "py_value \<Rightarrow> string \<times> string" where
  "node_key v = (item_str ''id'' v, item_str ''type'' v)"

definition edge_key :: "py_value \<Rightarrow> string \<times> string \<times> string \<times> string" where
  "edge_key v = (item_str ''from_node'' v, item_str ''from_port'' v, item_str ''to_node'' v, item_str ''to_port'' v)"

definition canonical_graph :: "py_dict \<Rightarrow> py_value" where
  "canonical_graph graph =
     (let nodes = sort_key node_key (map canonical_node (mapping_list (dict_get graph ''nodes'')));
          edges = sort_key edge_key (map canonical_edge (mapping_list (dict_get graph ''edges'')));
          outputs = sort_key (\<lambda>v. (item_str ''node'' v, item_str ''port'' v))
                      (map canonical_output (mapping_list (dict_get graph ''outputs'')))
      in PyDict
        [(''schema_version'', PyStr (py_str (dict_get_default graph ''schema_version''
            (dict_get_default graph ''schemaVersion'' (PyStr ''''))))),
         (''nodes'', PyList nodes), (''edges'', PyList edges), (''outputs'', PyList outputs)])"

definition canonical_strategy_graph_hash :: "py_dict \<Rightarrow> strategy_exception + string" where
  "canonical_strategy_graph_hash graph =
     res_map sha256_hex (sg_canonical_json_bytes (canonical_graph graph))"

section \<open>Cycle detection\<close>

text \<open>The worklist loop of \<^verbatim>\<open>_has_cycle\<close>: the remaining in-degrees, the ready queue and the number
  of visited nodes.\<close>

fun relax_targets ::
  "(string \<times> int) list \<Rightarrow> string list \<Rightarrow> string list \<Rightarrow>
     strategy_exception + ((string \<times> int) list \<times> string list)" where
  "relax_targets remaining ready [] = Inr (remaining, ready)"
| "relax_targets remaining ready (t # ts) =
     (case map_of remaining t of
        None \<Rightarrow> Inl (Strat_KeyError t)
      | Some k \<Rightarrow>
          relax_targets (dict_set remaining t (k - 1)) (if k - 1 = 0 then ready @ [t] else ready) ts)"

definition indegree_total :: "(string \<times> int) list \<Rightarrow> nat" where
  "indegree_total remaining = sum_list (map (\<lambda>kv. nat (snd kv)) remaining)"

lemma indegree_total_dict_set:
  "map_of r t = Some k \<Longrightarrow> indegree_total (dict_set r t v) + nat k = indegree_total r + nat v"
  by (induction r) (auto simp: indegree_total_def)

lemma relax_targets_measure:
  "relax_targets r q ts = Inr (r', q') \<Longrightarrow> length q' + indegree_total r' \<le> length q + indegree_total r"
proof (induction ts arbitrary: r q)
  case (Cons t ts)
  then obtain k where k: "map_of r t = Some k" by (auto split: option.splits)
  have "length q' + indegree_total r' \<le>
      length (if k - 1 = 0 then q @ [t] else q) + indegree_total (dict_set r t (k - 1))"
    using Cons k by simp
  also have "\<dots> \<le> length q + indegree_total r"
    using indegree_total_dict_set [OF k, of "k - 1"] by (cases "k = 1") auto
  finally show ?case .
qed simp

function kahn_loop ::
  "(string \<times> string list) list \<Rightarrow> (string \<times> int) list \<Rightarrow> string list \<Rightarrow> nat \<Rightarrow> strategy_exception + nat" where
  "kahn_loop graph_edges remaining [] visited = Inr visited"
| "kahn_loop graph_edges remaining (node # ready) visited =
     (case relax_targets remaining ready (case map_of graph_edges node of None \<Rightarrow> [] | Some ts \<Rightarrow> ts) of
        Inl e \<Rightarrow> Inl e
      | Inr (remaining', ready') \<Rightarrow> kahn_loop graph_edges remaining' ready' (visited + 1))"
  by pat_completeness auto
termination
  by (relation "measure (\<lambda>(g, r, q, v). length q + indegree_total r)")
    (auto dest!: relax_targets_measure)

definition has_cycle :: "(string \<times> string list) list \<Rightarrow> (string \<times> int) list \<Rightarrow> strategy_exception + bool" where
  "has_cycle graph_edges indegree =
     res_map (\<lambda>visited. visited \<noteq> length indegree)
       (kahn_loop graph_edges indegree (map fst (filter (\<lambda>kv. snd kv = 0) indegree)) 0)"

section \<open>Validation\<close>

definition is_hashable :: "py_value \<Rightarrow> bool" where
  "is_hashable v = (case v of PyList xs \<Rightarrow> False | PyDict d \<Rightarrow> False | _ \<Rightarrow> True)"

text \<open>The checks of one node, in the order of the loop body. Testing membership of an unhashable
  value in a Python set raises.\<close>

definition dataset_errors :: "string \<Rightarrow> string \<Rightarrow> py_dict \<Rightarrow> strategy_exception + strategy_validation_error list" where
  "dataset_errors node_id node_type config =
     (let policy = dict_get config ''missingDataPolicy'' in
      if take 8 node_type \<noteq> ''dataset.'' then Inr []
      else if \<not> is_hashable policy then Inl Strat_TypeError
      else if policy \<in> PyStr ` set MISSING_DATA_POLICIES then Inr []
      else Inr [sv_error ''missing_data_policy_required'' (Some node_id) None])"

definition sma_errors :: "string \<Rightarrow> string \<Rightarrow> py_dict \<Rightarrow> strategy_validation_error list" where
  "sma_errors node_id node_type config =
     (if node_type \<noteq> ''indicator.sma'' then []
      else
        let window = int_config config ''windowPeriods''; warmup = int_config config ''warmupPeriods'' in
        (case window of
           None \<Rightarrow> [sv_error ''parameter_out_of_range'' (Some node_id) None]
         | Some w \<Rightarrow> if 1 \<le> w \<and> w \<le> 10000 then []
                    else [sv_error ''parameter_out_of_range'' (Some node_id) None]) @
        (case (window, warmup) of
           (Some w, Some u) \<Rightarrow> if u < w then [sv_error ''insufficient_warmup'' (Some node_id) None] else []
         | _ \<Rightarrow> []))"

definition threshold_errors :: "string \<Rightarrow> string \<Rightarrow> py_dict \<Rightarrow> strategy_validation_error list" where
  "threshold_errors node_id node_type config =
     (let threshold = dict_get config ''threshold'' in
      if node_type = ''condition.greater_than'' \<and> threshold \<noteq> PyNone \<and>
         \<not> is_decimal_string_or_number threshold
      then [sv_error ''parameter_out_of_range'' (Some node_id) None] else [])"

definition node_errors :: "py_dict \<Rightarrow> strategy_exception + strategy_validation_error list" where
  "node_errors node =
     (let node_id = get_str node ''id''; node_type = get_str node ''type'';
          config = as_mapping (dict_get node ''config'')
      in res_map (\<lambda>errs. errs @
            (if has_positive_lookahead config
             then [sv_error ''look_ahead_detected'' (Some node_id) None] else []) @
            sma_errors node_id node_type config @ threshold_errors node_id node_type config)
          (dataset_errors node_id node_type config))"

definition nodes_by_id :: "py_dict list \<Rightarrow> (string \<times> py_dict) list" where
  "nodes_by_id nodes =
     foldl (\<lambda>d node. if dict_get node ''id'' = PyNone then d
                    else dict_set d (py_str (dict_get node ''id'')) node) [] nodes"

definition edge_errors :: "(string \<times> py_dict) list \<Rightarrow> nat \<Rightarrow> py_dict \<Rightarrow> strategy_validation_error list" where
  "edge_errors by_id index edge =
     (let from_port = find_port (map_of by_id (get_str edge ''from_node'')) ''output_ports'' (dict_get edge ''from_port'');
          to_port = find_port (map_of by_id (get_str edge ''to_node'')) ''input_ports'' (dict_get edge ''to_port'')
      in case (from_port, to_port) of
           (Some fp, Some tp) \<Rightarrow>
             (if py_eq (dict_get fp ''dataType'') (dict_get tp ''dataType'') then []
              else [sv_error ''port_type_mismatch'' None (Some index)]) @
             (let ft = dict_get fp ''timeframe''; tt = dict_get tp ''timeframe'' in
              if ft \<noteq> PyNone \<and> tt \<noteq> PyNone \<and> \<not> py_eq ft tt
              then [sv_error ''timeframe_incompatible'' None (Some index)] else [])
         | _ \<Rightarrow> [sv_error ''port_type_mismatch'' None (Some index)])"

definition add_graph_edge ::
  "(string \<times> py_dict) list \<Rightarrow> (string \<times> string list) list \<times> (string \<times> int) list \<Rightarrow> py_dict \<Rightarrow>
     (string \<times> string list) list \<times> (string \<times> int) list" where
  "add_graph_edge by_id st edge =
     (case st of (g, indegree) \<Rightarrow>
        let f = get_str edge ''from_node''; t = get_str edge ''to_node'';
            targets = (case map_of g f of None \<Rightarrow> [] | Some ts \<Rightarrow> ts)
        in if map_of by_id f \<noteq> None \<and> map_of by_id t \<noteq> None \<and> t \<notin> set targets
           then (dict_set g f (targets @ [t]),
                 dict_set indegree t ((case map_of indegree t of None \<Rightarrow> 0 | Some k \<Rightarrow> k) + 1))
           else (g, indegree))"

definition output_errors :: "(string \<times> py_dict) list \<Rightarrow> py_dict \<Rightarrow> strategy_validation_error list" where
  "output_errors by_id output =
     (let node_id = get_str output ''node'' in
      if find_port (map_of by_id node_id) ''output_ports'' (dict_get output ''port'') = None
      then [sv_error ''missing_output'' (if node_id = '''' then None else Some node_id) None] else [])"

definition error_key :: "strategy_validation_error \<Rightarrow> string \<times> string option \<times> nat option" where
  "error_key e = (se_code e, se_node_id e, se_edge_index e)"

definition deduplicate_errors :: "strategy_validation_error list \<Rightarrow> strategy_validation_error list" where
  "deduplicate_errors errors = dedup_first error_key (filter (\<lambda>e. se_code e \<in> set VALIDATION_CODES) errors)"

definition validate_strategy_graph :: "py_dict \<Rightarrow> strategy_exception + strategy_validation_result" where
  "validate_strategy_graph graph =
     res_bind (canonical_strategy_graph_hash graph) (\<lambda>graph_hash.
     let nodes = mapping_list (dict_get graph ''nodes'');
         edges = mapping_list (dict_get graph ''edges'');
         outputs = mapping_list (dict_get graph ''outputs'');
         by_id = nodes_by_id nodes
     in res_bind (res_mapM node_errors nodes) (\<lambda>node_errs.
        let edge_errs = map (\<lambda>(i, e). edge_errors by_id i e) (enumerate 0 edges);
            (graph_edges, indegree) =
              foldl (add_graph_edge by_id) ([], map (\<lambda>kv. (fst kv, 0)) by_id) edges
        in res_bind (has_cycle graph_edges indegree) (\<lambda>cyclic.
           let errors =
                 (if outputs = [] then [sv_error ''missing_output'' None None] else []) @
                 concat node_errs @ concat edge_errs @
                 (if cyclic then [sv_error ''cycle_detected'' None None] else []) @
                 concat (map (output_errors by_id) outputs);
               stable_errors = deduplicate_errors errors
           in Inr \<lparr>sv_valid = (stable_errors = []), sv_errors = stable_errors, sv_graph_hash = graph_hash\<rparr>)))"

section \<open>Correctness of the cycle check\<close>

abbreviation succs :: "(string \<times> string list) list \<Rightarrow> string \<Rightarrow> string list" where
  "succs g n \<equiv> (case map_of g n of None \<Rightarrow> [] | Some ts \<Rightarrow> ts)"

definition edge_rel :: "(string \<times> string list) list \<Rightarrow> (string \<times> string) set" where
  "edge_rel g = {(f, t). t \<in> set (succs g f)}"

lemma relax_targets_spec:
  assumes "distinct ts" "\<forall>t\<in>set ts. map_of r t \<noteq> None"
  shows "\<exists>r'. relax_targets r q ts = Inr (r', q @ filter (\<lambda>t. map_of r t = Some 1) ts) \<and>
    map fst r' = map fst r \<and>
    (\<forall>x. map_of r' x = map_option (\<lambda>k. if x \<in> set ts then k - 1 else k) (map_of r x))"
  using assms
proof (induction ts arbitrary: r q)
  case (Cons t ts)
  then obtain k where k: "map_of r t = Some k" by auto
  let ?r = "dict_set r t (k - 1)" and ?q = "if k - 1 = 0 then q @ [t] else q"
  have keys: "map fst ?r = map fst r"
    using k by (intro keys_dict_set_old) (metis map_of_SomeD fst_conv image_eqI)
  have d: "distinct ts" using Cons.prems(1) by simp
  have pre: "\<forall>t\<in>set ts. map_of ?r t \<noteq> None" using Cons.prems(2) by auto
  obtain r' where r': "relax_targets ?r ?q ts = Inr (r', ?q @ filter (\<lambda>t. map_of ?r t = Some 1) ts)"
    "map fst r' = map fst ?r"
    "\<forall>x. map_of r' x = map_option (\<lambda>k. if x \<in> set ts then k - 1 else k) (map_of ?r x)"
    using Cons.IH [OF d pre] by blast
  have "filter (\<lambda>u. map_of ?r u = Some 1) ts = filter (\<lambda>u. map_of r u = Some 1) ts"
    using Cons.prems(1) by (intro filter_cong) auto
  then show ?case using r' k keys Cons.prems(1) by auto
qed (simp add: option.map_ident)

text \<open>The graph and in-degrees the validator hands over: nodes are the keys of \<open>indegree\<close>.\<close>

definition graph_inv :: "(string \<times> string list) list \<Rightarrow> (string \<times> int) list \<Rightarrow> bool" where
  "graph_inv g indegree \<longleftrightarrow>
     distinct (map fst indegree) \<and> (\<forall>f. distinct (succs g f)) \<and>
     edge_rel g \<subseteq> fst ` set indegree \<times> fst ` set indegree \<and>
     (\<forall>n k. map_of indegree n = Some k \<longrightarrow> k = int (card {m. (m, n) \<in> edge_rel g}))"

text \<open>Loop invariant with the ghost set \<open>P\<close> of visited nodes.\<close>

definition kahn_inv ::
  "(string \<times> string) set \<Rightarrow> string set \<Rightarrow> string set \<Rightarrow> (string \<times> int) list \<Rightarrow> string list \<Rightarrow> bool" where
  "kahn_inv E N P r q \<longleftrightarrow>
     finite N \<and> E \<subseteq> N \<times> N \<and> P \<subseteq> N \<and> distinct q \<and> set q \<inter> P = {} \<and> set q \<subseteq> N \<and> fst ` set r = N \<and>
     (\<forall>n k. map_of r n = Some k \<longrightarrow> k = int (card {m. (m, n) \<in> E \<and> m \<notin> P})) \<and>
     (\<forall>n\<in>N - P. n \<in> set q \<longleftrightarrow> (\<forall>m. (m, n) \<in> E \<longrightarrow> m \<in> P)) \<and>
     (\<forall>n\<in>P. \<forall>m. (m, n) \<in> E \<longrightarrow> m \<in> P) \<and> acyclic (E \<inter> P \<times> P)"

lemma preds_finite: "finite N \<Longrightarrow> E \<subseteq> N \<times> N \<Longrightarrow> finite {m. (m, n) \<in> E \<and> Q m}"
  by (rule finite_subset [of _ N]) auto

text \<open>A node all of whose predecessors were visited becomes a sink of the visited part.\<close>

lemma acyclic_add_sink:
  assumes "acyclic (E \<inter> P \<times> P)" "n \<notin> P"
    and "\<forall>m. (m, n) \<in> E \<longrightarrow> m \<in> P" "\<forall>x\<in>P. \<forall>m. (m, x) \<in> E \<longrightarrow> m \<in> P"
  shows "acyclic (E \<inter> insert n P \<times> insert n P)"
proof -
  let ?R = "E \<inter> P \<times> P" and ?S = "E \<inter> insert n P \<times> insert n P"
  have no_out: "(n, x) \<notin> ?S" for x using assms(2-4) by auto
  have "(x, y) \<in> ?S\<^sup>+ \<Longrightarrow> y \<noteq> n \<Longrightarrow> (x, y) \<in> ?R\<^sup>+" for x y
  proof (induction rule: trancl_induct)
    case (base y)
    then show ?case using no_out by (metis (no_types, lifting) Int_iff insertE mem_Sigma_iff trancl.r_into_trancl)
  next
    case (step y z)
    have "y \<noteq> n" using step(2) no_out by blast
    moreover have "(y, z) \<in> ?R" using step(2,4) \<open>y \<noteq> n\<close> by auto
    ultimately show ?case using step(3) by (meson trancl.trancl_into_trancl)
  qed
  moreover have "(n, n) \<notin> ?S\<^sup>+" using no_out by (meson tranclD)
  ultimately show ?thesis using assms(1) unfolding acyclic_def by blast
qed

lemma kahn_step:
  assumes inv: "kahn_inv E N P r (n # q)" and E: "\<And>t. t \<in> set ts \<longleftrightarrow> (n, t) \<in> E" and ts: "distinct ts"
    and r': "relax_targets r q ts = Inr (r', q')"
  shows "kahn_inv E N (insert n P) r' q'"
proof -
  note I = inv [unfolded kahn_inv_def]
  have N: "finite N" "E \<subseteq> N \<times> N" using I by simp_all
  have n: "n \<in> N" "n \<notin> P" "n \<notin> set q" using I by auto
  have preds: "\<forall>m. (m, n) \<in> E \<longrightarrow> m \<in> P" using I n by auto
  have rdy: "\<forall>y\<in>N - P. y \<in> set (n # q) \<longleftrightarrow> (\<forall>m. (m, y) \<in> E \<longrightarrow> m \<in> P)"
    using inv unfolding kahn_inv_def by (elim conjE)
  have clo: "\<forall>y\<in>P. \<forall>m. (m, y) \<in> E \<longrightarrow> m \<in> P"
    using inv unfolding kahn_inv_def by (elim conjE)
  have qN: "set q \<subseteq> N - P" using I by auto
  have cnt: "\<forall>n k. map_of r n = Some k \<longrightarrow> k = int (card {m. (m, n) \<in> E \<and> m \<notin> P})"
    using I by simp
  have keys: "map_of r x \<noteq> None \<longleftrightarrow> x \<in> N" for x using I by (auto simp: map_of_eq_None_iff)
  have "set ts \<subseteq> N" using I E by auto
  then have "\<forall>t\<in>set ts. map_of r t \<noteq> None" using keys by blast
  then obtain r'' where r'': "relax_targets r q ts = Inr (r'', q @ filter (\<lambda>t. map_of r t = Some 1) ts)"
    "map fst r'' = map fst r"
    "\<forall>x. map_of r'' x = map_option (\<lambda>k. if x \<in> set ts then k - 1 else k) (map_of r x)"
    using relax_targets_spec [OF ts] by blast
  then have spec: "q' = q @ filter (\<lambda>t. map_of r t = Some 1) ts" "map fst r' = map fst r"
    "\<forall>x. map_of r' x = map_option (\<lambda>k. if x \<in> set ts then k - 1 else k) (map_of r x)"
    using r' by auto
  have card_step: "int (card {m. (m, x) \<in> E \<and> m \<notin> insert n P}) =
      (if x \<in> set ts then int (card {m. (m, x) \<in> E \<and> m \<notin> P}) - 1 else int (card {m. (m, x) \<in> E \<and> m \<notin> P}))" for x
  proof -
    have fin: "finite {m. (m, x) \<in> E \<and> m \<notin> P}" by (rule preds_finite [OF N])
    have eq: "{m. (m, x) \<in> E \<and> m \<notin> insert n P} = {m. (m, x) \<in> E \<and> m \<notin> P} - {n}" by auto
    show ?thesis
    proof (cases "x \<in> set ts")
      case True
      then have mem: "n \<in> {m. (m, x) \<in> E \<and> m \<notin> P}" using E n by auto
      then have "0 < card {m. (m, x) \<in> E \<and> m \<notin> P}" using fin card_gt_0_iff by blast
      then show ?thesis unfolding eq using True mem fin by (simp add: card_Diff_singleton of_nat_diff)
    next
      case False
      then have "n \<notin> {m. (m, x) \<in> E \<and> m \<notin> P}" using E by auto
      then show ?thesis unfolding eq using False by simp
    qed
  qed
  have counts: "\<forall>x k. map_of r' x = Some k \<longrightarrow> k = int (card {m. (m, x) \<in> E \<and> m \<notin> insert n P})"
    using I spec(3) card_step by auto
  have ready: "x \<in> set q' \<longleftrightarrow> (\<forall>m. (m, x) \<in> E \<longrightarrow> m \<in> insert n P)" if x: "x \<in> N - insert n P" for x
  proof -
    obtain k where k1: "map_of r x = Some k" using keys [of x] x by auto
    have k: "map_of r x = Some k" "k = int (card {m. (m, x) \<in> E \<and> m \<notin> P})"
      using k1 cnt [rule_format, OF k1] by simp_all
    have zero: "(\<forall>m. (m, x) \<in> E \<longrightarrow> m \<in> insert n P) \<longleftrightarrow> card {m. (m, x) \<in> E \<and> m \<notin> insert n P} = 0"
      using preds_finite [OF N, of x "\<lambda>m. m \<notin> insert n P"] by auto
    have old: "x \<in> set q \<longleftrightarrow> (\<forall>m. (m, x) \<in> E \<longrightarrow> m \<in> P)" using bspec [OF rdy, of x] x by simp
    show ?thesis
    proof (cases "x \<in> set ts")
      case True
      then have "x \<notin> set q" using old E n(2) by blast
      then show ?thesis using True k zero card_step [of x] spec(1) by auto
    next
      case False
      then show ?thesis using old spec(1) E by auto
    qed
  qed
  have fresh: "set (filter (\<lambda>t. map_of r t = Some 1) ts) \<inter> (set q \<union> insert n P) = {}"
  proof -
    have "t \<notin> set q \<union> insert n P" if "t \<in> set ts" for t
    proof
      assume "t \<in> set q \<union> insert n P"
      then consider "t \<in> set q" | "t = n" | "t \<in> P" by blast
      then have "n \<in> P"
      proof cases
        case 1
        then have "\<forall>m. (m, t) \<in> E \<longrightarrow> m \<in> P" using bspec [OF rdy, of t] qN by auto
        then show ?thesis using E that by blast
      qed (use E that preds clo in blast)+
      then show False using n(2) by blast
    qed
    then show ?thesis by auto
  qed
  show ?thesis
    unfolding kahn_inv_def
  proof (intro conjI)
    have "P \<subseteq> N" "distinct q" "acyclic (E \<inter> P \<times> P)" using I by simp_all
    show "insert n P \<subseteq> N" using n(1) \<open>P \<subseteq> N\<close> by blast
    show "distinct q'" using spec(1) ts fresh \<open>distinct q\<close> by auto
    show "set q' \<inter> insert n P = {}" using spec(1) fresh qN n(3) by auto
    show "set q' \<subseteq> N" using spec(1) qN \<open>set ts \<subseteq> N\<close> by auto
    show "fst ` set r' = N" using spec(2) I by (metis list.set_map)
    show "\<forall>y\<in>N - insert n P. y \<in> set q' \<longleftrightarrow> (\<forall>m. (m, y) \<in> E \<longrightarrow> m \<in> insert n P)"
      using ready by blast
    show "\<forall>y\<in>insert n P. \<forall>m. (m, y) \<in> E \<longrightarrow> m \<in> insert n P" using preds clo by blast
    show "acyclic (E \<inter> insert n P \<times> insert n P)"
      using acyclic_add_sink [OF \<open>acyclic _\<close> n(2) preds clo] .
  qed (rule N(1) N(2) counts)+
qed

lemma kahn_loop_spec:
  assumes "kahn_inv (edge_rel g) N P r q" "\<forall>f. distinct (succs g f)"
  shows "\<exists>P'. kahn_loop g r q (card P) = Inr (card P') \<and> (\<exists>r'. kahn_inv (edge_rel g) N P' r' [])"
  using assms(1)
proof (induction "length q + indegree_total r" arbitrary: P r q rule: less_induct)
  case less
  show ?case
  proof (cases q)
    case Nil
    then show ?thesis using less.prems by auto
  next
    case (Cons n q1)
    let ?ts = "succs g n"
    have N: "edge_rel g \<subseteq> N \<times> N" "fst ` set r = N" "finite P" "n \<notin> P"
      using less.prems Cons finite_subset unfolding kahn_inv_def by auto
    then have "\<forall>t\<in>set ?ts. map_of r t \<noteq> None"
      by (auto simp: edge_rel_def map_of_eq_None_iff)
    then obtain r' q' where step: "relax_targets r q1 ?ts = Inr (r', q')"
      using relax_targets_spec assms(2) by blast
    have "length q' + indegree_total r' < length q + indegree_total r"
      using relax_targets_measure [OF step] Cons by simp
    moreover have "kahn_inv (edge_rel g) N (insert n P) r' q'"
      using kahn_step [OF less.prems [unfolded Cons] _ _ step] assms(2) by (simp add: edge_rel_def)
    ultimately have "\<exists>P'. kahn_loop g r' q' (card (insert n P)) = Inr (card P') \<and>
        (\<exists>r'. kahn_inv (edge_rel g) N P' r' [])"
      using less.hyps by blast
    then show ?thesis using Cons step N by simp
  qed
qed

lemma has_cycle_exact:
  assumes inv: "graph_inv g indegree"
  shows "has_cycle g indegree = Inr (\<not> acyclic (edge_rel g))"
proof -
  let ?E = "edge_rel g" and ?N = "fst ` set indegree"
  let ?q = "map fst (filter (\<lambda>kv. snd kv = 0) indegree)"
  have dist: "distinct (map fst indegree)" and E: "?E \<subseteq> ?N \<times> ?N"
    and deg: "\<And>n k. map_of indegree n = Some k \<Longrightarrow> k = int (card {m. (m, n) \<in> ?E})"
    using inv by (auto simp: graph_inv_def)
  have "n \<in> set ?q \<longleftrightarrow> (\<forall>m. (m, n) \<notin> ?E)" if n: "n \<in> ?N" for n
  proof -
    obtain k where k: "(n, k) \<in> set indegree" using n by auto
    then have "map_of indegree n = Some k" using dist by simp
    then have "k = int (card {m. (m, n) \<in> ?E})" by (rule deg)
    moreover have "finite {m. (m, n) \<in> ?E}" using preds_finite [of ?N ?E n "\<lambda>m. True"] E by simp
    moreover have "n \<in> set ?q \<longleftrightarrow> k = 0" using k dist by (force dest: eq_key_imp_eq_value)
    ultimately show ?thesis by auto
  qed
  moreover have "set ?q \<subseteq> ?N" "distinct ?q" using dist by (auto simp: distinct_map_filter)
  ultimately have "kahn_inv ?E ?N {} indegree ?q"
    unfolding kahn_inv_def using E deg by (auto simp: acyclic_def)
  from kahn_loop_spec [OF this] obtain P r where
    run: "kahn_loop g indegree ?q 0 = Inr (card P)" and P: "kahn_inv ?E ?N P r []"
    using inv by (auto simp: graph_inv_def)
  have PN: "P \<subseteq> ?N" "finite ?N" using P by (simp_all add: kahn_inv_def)
  have "card P \<noteq> length indegree \<longleftrightarrow> P \<noteq> ?N"
    using PN dist distinct_card [OF dist] by (metis card_subset_eq length_map list.set_map)
  moreover have "P = ?N \<longleftrightarrow> acyclic ?E"
  proof
    assume "P = ?N"
    moreover have "acyclic (?E \<inter> P \<times> P)" using P by (simp add: kahn_inv_def)
    ultimately show "acyclic ?E" using E by (simp add: Int_absorb2)
  next
    assume "acyclic ?E"
    moreover have "finite ?E" using E PN(2) by (meson finite_SigmaI finite_subset)
    ultimately have wf: "wf ?E" by (rule finite_acyclic_wf [rotated])
    show "P = ?N"
    proof (rule ccontr)
      assume "P \<noteq> ?N"
      then obtain x where "x \<in> ?N - P" using PN by blast
      then obtain z where z: "z \<in> ?N - P" "\<forall>y. (y, z) \<in> ?E \<longrightarrow> y \<notin> ?N - P"
        using wf unfolding wf_eq_minimal by metis
      then have "\<forall>y. (y, z) \<in> ?E \<longrightarrow> y \<in> P" using E by blast
      then show False using P z(1) by (auto simp: kahn_inv_def)
    qed
  qed
  ultimately show ?thesis using run by (simp add: has_cycle_def)
qed

text \<open>The loop over the edges establishes the precondition of the check.\<close>

definition node_edge_rel :: "(string \<times> py_dict) list \<Rightarrow> py_dict list \<Rightarrow> (string \<times> string) set" where
  "node_edge_rel by_id edges =
     {(get_str e ''from_node'', get_str e ''to_node'') |e. e \<in> set edges \<and>
        map_of by_id (get_str e ''from_node'') \<noteq> None \<and> map_of by_id (get_str e ''to_node'') \<noteq> None}"

lemma edge_rel_dict_set:
  "edge_rel (dict_set g f (succs g f @ [t])) = insert (f, t) (edge_rel g)"
  by (auto simp: edge_rel_def split: if_splits option.splits)

lemma graph_inv_add_edge:
  assumes inv: "graph_inv g indeg" and f: "f \<in> fst ` set indeg" and t: "t \<in> fst ` set indeg"
    and new: "t \<notin> set (succs g f)"
  shows "graph_inv (dict_set g f (succs g f @ [t]))
    (dict_set indeg t ((case map_of indeg t of None \<Rightarrow> 0 | Some k \<Rightarrow> k) + 1))"
proof -
  have keys: "fst ` set (dict_set indeg t v) = fst ` set indeg" for v using t by auto
  have E: "edge_rel g \<subseteq> fst ` set indeg \<times> fst ` set indeg" using inv by (simp add: graph_inv_def)
  have fin: "finite {m. (m, n) \<in> edge_rel g}" for n
    using preds_finite [OF _ E, of n "\<lambda>m. True"] by simp
  have "card {m. (m, t) \<in> insert (f, t) (edge_rel g)} = Suc (card {m. (m, t) \<in> edge_rel g})"
  proof -
    have "{m. (m, t) \<in> insert (f, t) (edge_rel g)} = insert f {m. (m, t) \<in> edge_rel g}" by auto
    moreover have "f \<notin> {m. (m, t) \<in> edge_rel g}" using new by (simp add: edge_rel_def)
    ultimately show ?thesis using fin by simp
  qed
  moreover have "{m. (m, n) \<in> insert (f, t) (edge_rel g)} = {m. (m, n) \<in> edge_rel g}" if "n \<noteq> t" for n
    using that by auto
  moreover obtain k where "map_of indeg t = Some k" using t by (metis map_of_eq_None_iff not_None_eq)
  ultimately show ?thesis
    using inv f t new keys unfolding graph_inv_def edge_rel_dict_set
    by (auto simp: distinct_dict_set split: if_splits)
qed

lemma add_graph_edges_spec:
  assumes "graph_inv g indeg" "fst ` set indeg = fst ` set by_id"
    and "foldl (add_graph_edge by_id) (g, indeg) edges = (g', indeg')"
  shows "graph_inv g' indeg' \<and> edge_rel g' = edge_rel g \<union> node_edge_rel by_id edges"
  using assms
proof (induction edges arbitrary: g indeg)
  case (Cons e edges)
  let ?f = "get_str e ''from_node''" and ?t = "get_str e ''to_node''"
  obtain g1 indeg1 where 1: "add_graph_edge by_id (g, indeg) e = (g1, indeg1)" by fastforce
  have known: "map_of by_id x \<noteq> None \<longleftrightarrow> x \<in> fst ` set indeg" for x
    using Cons.prems(2) by (simp add: map_of_eq_None_iff)
  have step: "graph_inv g1 indeg1 \<and> fst ` set indeg1 = fst ` set by_id \<and>
      edge_rel g1 = edge_rel g \<union> node_edge_rel by_id [e]"
  proof (cases "map_of by_id ?f \<noteq> None \<and> map_of by_id ?t \<noteq> None \<and> ?t \<notin> set (succs g ?f)")
    case True
    then have g1: "g1 = dict_set g ?f (succs g ?f @ [?t])"
      "indeg1 = dict_set indeg ?t ((case map_of indeg ?t of None \<Rightarrow> 0 | Some k \<Rightarrow> k) + 1)"
      using 1 by (auto simp: add_graph_edge_def Let_def)
    then show ?thesis
      using True graph_inv_add_edge [OF Cons.prems(1), of ?f ?t] known Cons.prems(2)
      by (auto simp: edge_rel_dict_set node_edge_rel_def)
  next
    case False
    then have "g1 = g" "indeg1 = indeg" using 1 by (auto simp: add_graph_edge_def Let_def split: if_splits)
    then show ?thesis using False Cons.prems by (auto simp: node_edge_rel_def edge_rel_def)
  qed
  then have "graph_inv g' indeg' \<and> edge_rel g' = edge_rel g1 \<union> node_edge_rel by_id edges"
    using Cons.IH [of g1 indeg1] Cons.prems(3) 1 by (metis foldl_Cons)
  moreover have "node_edge_rel by_id (e # edges) = node_edge_rel by_id [e] \<union> node_edge_rel by_id edges"
    by (auto simp: node_edge_rel_def)
  ultimately show ?case using step by auto
qed (simp add: node_edge_rel_def)

section \<open>What a valid graph is\<close>

definition node_ok :: "py_dict \<Rightarrow> bool" where
  "node_ok node \<longleftrightarrow>
     (let node_type = get_str node ''type''; config = as_mapping (dict_get node ''config'') in
      (take 8 node_type = ''dataset.'' \<longrightarrow>
         (\<exists>p\<in>set MISSING_DATA_POLICIES. dict_get config ''missingDataPolicy'' = PyStr p)) \<and>
      \<not> has_positive_lookahead config \<and>
      (node_type = ''indicator.sma'' \<longrightarrow>
         (\<exists>w. int_config config ''windowPeriods'' = Some w \<and> 1 \<le> w \<and> w \<le> 10000 \<and>
            (\<forall>u. int_config config ''warmupPeriods'' = Some u \<longrightarrow> w \<le> u))) \<and>
      (node_type = ''condition.greater_than'' \<longrightarrow>
         dict_get config ''threshold'' = PyNone \<or>
         is_decimal_string_or_number (dict_get config ''threshold'')))"

definition edge_ok :: "(string \<times> py_dict) list \<Rightarrow> py_dict \<Rightarrow> bool" where
  "edge_ok by_id edge \<longleftrightarrow>
     (\<exists>fp tp. find_port (map_of by_id (get_str edge ''from_node'')) ''output_ports'' (dict_get edge ''from_port'') = Some fp \<and>
        find_port (map_of by_id (get_str edge ''to_node'')) ''input_ports'' (dict_get edge ''to_port'') = Some tp \<and>
        py_eq (dict_get fp ''dataType'') (dict_get tp ''dataType'') \<and>
        (dict_get fp ''timeframe'' = PyNone \<or> dict_get tp ''timeframe'' = PyNone \<or>
         py_eq (dict_get fp ''timeframe'') (dict_get tp ''timeframe'')))"

definition output_ok :: "(string \<times> py_dict) list \<Rightarrow> py_dict \<Rightarrow> bool" where
  "output_ok by_id output \<longleftrightarrow>
     find_port (map_of by_id (get_str output ''node'')) ''output_ports'' (dict_get output ''port'') \<noteq> None"

lemma node_errors_Nil_iff: "node_errors node = Inr errs \<Longrightarrow> errs = [] \<longleftrightarrow> node_ok node"
  by (auto simp: node_errors_def node_ok_def Let_def dataset_errors_def sma_errors_def threshold_errors_def
      res_map_eq_Inr_iff split: if_splits option.splits)

lemma edge_errors_Nil_iff: "edge_errors by_id i edge = [] \<longleftrightarrow> edge_ok by_id edge"
  by (auto simp: edge_errors_def edge_ok_def Let_def split: option.splits)

lemma output_errors_Nil_iff: "output_errors by_id output = [] \<longleftrightarrow> output_ok by_id output"
  by (simp add: output_errors_def output_ok_def Let_def)

definition known_error :: "strategy_validation_error \<Rightarrow> bool" where
  "known_error e \<longleftrightarrow> se_code e \<in> set VALIDATION_CODES"

lemma known_errors:
  "node_errors node = Inr errs \<Longrightarrow> list_all known_error errs"
  "list_all known_error (edge_errors by_id i edge)"
  "list_all known_error (output_errors by_id output)"
  by (auto simp: node_errors_def Let_def dataset_errors_def sma_errors_def threshold_errors_def
      edge_errors_def output_errors_def sv_error_def known_error_def VALIDATION_CODES_def
      res_map_eq_Inr_iff split: if_splits option.splits)

lemma nodes_by_id_distinct: "distinct (map fst (nodes_by_id nodes))"
proof -
  have "distinct (map fst d) \<Longrightarrow> distinct (map fst (foldl (\<lambda>d node. if dict_get node ''id'' = PyNone then d
      else dict_set d (py_str (dict_get node ''id'')) node) d nodes))" for d :: "(string \<times> py_dict) list"
    by (induction nodes arbitrary: d) (auto simp: distinct_dict_set)
  from this [of "[]"] show ?thesis by (simp add: nodes_by_id_def)
qed

lemma has_cycle_of_graph:
  assumes "foldl (add_graph_edge by_id) ([], map (\<lambda>kv. (fst kv, 0)) by_id) edges = (g, indegree)"
    and "distinct (map fst by_id)"
  shows "has_cycle g indegree = Inr (\<not> acyclic (node_edge_rel by_id edges))"
proof -
  have "map_of (map (\<lambda>kv. (fst kv, 0::int)) by_id) n = Some k \<Longrightarrow> k = 0" for n k
    by (auto dest: map_of_SomeD)
  then have "graph_inv [] (map (\<lambda>kv. (fst kv, 0)) by_id)"
    using assms(2) by (auto simp: graph_inv_def edge_rel_def comp_def)
  moreover have "fst ` set (map (\<lambda>kv. (fst kv, 0::int)) by_id) = fst ` set by_id" by force
  ultimately have "graph_inv g indegree \<and> edge_rel g = edge_rel [] \<union> node_edge_rel by_id edges"
    using assms(1) by (rule add_graph_edges_spec)
  then show ?thesis using has_cycle_exact [of g indegree] by (simp add: edge_rel_def)
qed

abbreviation graph_nodes :: "py_dict \<Rightarrow> py_dict list" where
  "graph_nodes graph \<equiv> mapping_list (dict_get graph ''nodes'')"

abbreviation graph_edge_list :: "py_dict \<Rightarrow> py_dict list" where
  "graph_edge_list graph \<equiv> mapping_list (dict_get graph ''edges'')"

abbreviation graph_outputs :: "py_dict \<Rightarrow> py_dict list" where
  "graph_outputs graph \<equiv> mapping_list (dict_get graph ''outputs'')"

lemma edge_errors_enumerate:
  "concat (map (\<lambda>(i, e). edge_errors by_id i e) (enumerate n es)) = [] \<longleftrightarrow> (\<forall>e\<in>set es. edge_ok by_id e)"
  by (induction es arbitrary: n) (auto simp: edge_errors_Nil_iff)

lemma deduplicate_errors_Nil_iff:
  "list_all known_error errors \<Longrightarrow> deduplicate_errors errors = [] \<longleftrightarrow> errors = []"
  by (cases errors) (auto simp: deduplicate_errors_def known_error_def)

text \<open>The unfolded result of a validation that returns.\<close>

lemma validate_strategy_graph_Inr:
  assumes "validate_strategy_graph graph = Inr r"
  shows "\<exists>errors. sv_errors r = deduplicate_errors errors \<and> sv_valid r = (errors = []) \<and>
    list_all known_error errors \<and>
    (errors = [] \<longleftrightarrow> graph_outputs graph \<noteq> [] \<and> (\<forall>n\<in>set (graph_nodes graph). node_ok n) \<and>
       (\<forall>e\<in>set (graph_edge_list graph). edge_ok (nodes_by_id (graph_nodes graph)) e) \<and>
       acyclic (node_edge_rel (nodes_by_id (graph_nodes graph)) (graph_edge_list graph)) \<and>
       (\<forall>out\<in>set (graph_outputs graph). output_ok (nodes_by_id (graph_nodes graph)) out))"
proof -
  let ?by = "nodes_by_id (graph_nodes graph)" and ?es = "graph_edge_list graph"
  let ?outs = "graph_outputs graph"
  obtain g indeg where gi: "foldl (add_graph_edge ?by) ([], map (\<lambda>kv. (fst kv, 0)) ?by) ?es = (g, indeg)"
    by fastforce
  note cyc = has_cycle_of_graph [OF gi nodes_by_id_distinct]
  obtain h nerrs where h: "canonical_strategy_graph_hash graph = Inr h"
    and nerrs: "res_mapM node_errors (graph_nodes graph) = Inr nerrs"
    using assms by (auto simp: validate_strategy_graph_def res_bind_eq_Inr_iff Let_def)
  define errors where "errors =
     (if ?outs = [] then [sv_error ''missing_output'' None None] else []) @
     concat nerrs @ concat (map (\<lambda>(i, e). edge_errors ?by i e) (enumerate 0 ?es)) @
     (if \<not> acyclic (node_edge_rel ?by ?es) then [sv_error ''cycle_detected'' None None] else []) @
     concat (map (output_errors ?by) ?outs)"
  have r: "r = \<lparr>sv_valid = (deduplicate_errors errors = []), sv_errors = deduplicate_errors errors, sv_graph_hash = h\<rparr>"
    using assms h nerrs cyc gi by (simp add: validate_strategy_graph_def Let_def errors_def)
  have all2: "list_all2 (\<lambda>n errs. node_errors n = Inr errs) (graph_nodes graph) nerrs"
    using nerrs by (simp add: res_mapM_Inr_iff)
  have nodes: "concat nerrs = [] \<longleftrightarrow> (\<forall>n\<in>set (graph_nodes graph). node_ok n)"
    using all2 by (induction rule: list_all2_induct) (auto simp: node_errors_Nil_iff)
  have known_n: "list_all known_error (concat nerrs)"
    using all2 by (induction rule: list_all2_induct) (auto simp: known_errors)
  have edges: "concat (map (\<lambda>(i, e). edge_errors ?by i e) (enumerate 0 ?es)) = [] \<longleftrightarrow>
      (\<forall>e\<in>set ?es. edge_ok ?by e)"
    by (rule edge_errors_enumerate)
  have outs: "concat (map (output_errors ?by) ?outs) = [] \<longleftrightarrow> (\<forall>out\<in>set ?outs. output_ok ?by out)"
    by (auto simp: output_errors_Nil_iff)
  have known: "list_all known_error errors"
  proof -
    have "list_all known_error (concat (map (\<lambda>(i, e). edge_errors ?by i e) xs))" for xs
      by (induction xs) (auto simp: known_errors)
    moreover have "list_all known_error (concat (map (output_errors ?by) xs))" for xs
      by (induction xs) (auto simp: known_errors)
    moreover have "known_error (sv_error ''missing_output'' None None)"
      "known_error (sv_error ''cycle_detected'' None None)"
      by (simp_all add: sv_error_def known_error_def VALIDATION_CODES_def)
    ultimately show ?thesis using known_n by (simp add: errors_def)
  qed
  have "errors = [] \<longleftrightarrow> ?outs \<noteq> [] \<and> (\<forall>n\<in>set (graph_nodes graph). node_ok n) \<and>
       (\<forall>e\<in>set ?es. edge_ok ?by e) \<and> acyclic (node_edge_rel ?by ?es) \<and> (\<forall>out\<in>set ?outs. output_ok ?by out)"
    unfolding errors_def append_is_Nil_conv nodes edges outs by auto
  then show ?thesis using r known deduplicate_errors_Nil_iff [OF known] by auto
qed

lemma deduplicate_errors_props:
  "distinct (map error_key (deduplicate_errors errors))"
  "list_all known_error errors \<Longrightarrow> error_key ` set (deduplicate_errors errors) = error_key ` set errors"
  by (simp_all add: deduplicate_errors_def dedup_first_distinct dedup_first_keys known_error_def list_all_iff
      filter_id_conv [THEN iffD2])

definition unhashable_policy :: "py_dict \<Rightarrow> bool" where
  "unhashable_policy node \<longleftrightarrow>
     take 8 (get_str node ''type'') = ''dataset.'' \<and>
     \<not> is_hashable (dict_get (as_mapping (dict_get node ''config'')) ''missingDataPolicy'')"

lemma node_errors_Inl_iff: "node_errors node = Inl e \<longleftrightarrow> e = Strat_TypeError \<and> unhashable_policy node"
  by (auto simp: node_errors_def unhashable_policy_def dataset_errors_def Let_def res_map_eq_Inl_iff)

lemma res_mapM_Inl_set: "res_mapM f xs = Inl e \<Longrightarrow> \<exists>x\<in>set xs. f x = Inl e"
  by (induction xs) (auto simp: res_bind_eq_Inl_iff)

lemma validate_strategy_graph_Inl:
  assumes "validate_strategy_graph graph = Inl e"
  shows "canonical_strategy_graph_hash graph = Inl e \<or>
    e = Strat_TypeError \<and> (\<exists>n\<in>set (graph_nodes graph). unhashable_policy n)"
proof -
  let ?by = "nodes_by_id (graph_nodes graph)" and ?es = "graph_edge_list graph"
  obtain g indeg where gi: "foldl (add_graph_edge ?by) ([], map (\<lambda>kv. (fst kv, 0)) ?by) ?es = (g, indeg)"
    by fastforce
  note cyc = has_cycle_of_graph [OF gi nodes_by_id_distinct]
  show ?thesis
    using assms gi cyc res_mapM_Inl_set [of node_errors "graph_nodes graph" e]
    by (auto simp: validate_strategy_graph_def Let_def res_bind_eq_Inl_iff node_errors_Inl_iff)
qed

lemma json_encode_Inl: "json_encode err v = Inl e \<Longrightarrow> e = err"
proof (induction err v rule: json_encode.induct)
  case (8 err xs)
  then show ?case using res_mapM_Inl_set [of "json_encode err" xs e] by (auto simp: res_map_eq_Inl_iff)
next
  case (9 err d)
  then show ?case
    using res_mapM_Inl_set [of "\<lambda>kv. res_map (Pair (fst kv)) (json_encode err (snd kv))" d e]
    by (auto simp: res_map_eq_Inl_iff)
qed simp_all

lemma hash_Inl: "canonical_strategy_graph_hash graph = Inl e \<Longrightarrow> e = Strat_TypeError"
  by (auto simp: canonical_strategy_graph_hash_def sg_canonical_json_bytes_def res_map_eq_Inl_iff
      dest: json_encode_Inl)

section \<open>Properties\<close>

definition example_graph :: py_dict where
  "example_graph =
     [(''schema_version'', PyStr ''strategy-graph-v1''),
      (''nodes'', PyList [
         PyDict [(''id'', PyStr ''a''), (''type'', PyStr ''dataset.candle''),
           (''config'', PyDict [(''missingDataPolicy'', PyStr ''fail'')]),
           (''output_ports'', PyList [PyDict [(''name'', PyStr ''out''), (''dataType'', PyStr ''series'')]])],
         PyDict [(''id'', PyStr ''b''), (''type'', PyStr ''indicator.sma''),
           (''config'', PyDict [(''windowPeriods'', PyInt 5), (''warmupPeriods'', PyInt 5)]),
           (''input_ports'', PyList [PyDict [(''name'', PyStr ''in''), (''dataType'', PyStr ''series'')]]),
           (''output_ports'', PyList [PyDict [(''name'', PyStr ''out''), (''dataType'', PyStr ''series'')]])]]),
      (''edges'', PyList [PyDict [(''from_node'', PyStr ''a''), (''from_port'', PyStr ''out''),
           (''to_node'', PyStr ''b''), (''to_port'', PyStr ''in'')]]),
      (''outputs'', PyList [PyDict [(''node'', PyStr ''b''), (''port'', PyStr ''out'')]])]"

text \<open>C22. 
  A validation that returns is exact: it reports the graph valid if and only if the graph has
  an output, every node, edge and output meets its rule, and the relation of the edges between
  known nodes is acyclic; the reported errors have distinct keys and known codes, and there are
  none exactly when the graph is valid.
\<close>

theorem validate_strategy_graph_exact:
  assumes "validate_strategy_graph graph = Inr r"
  shows "(sv_valid r \<longleftrightarrow>
      graph_outputs graph \<noteq> [] \<and> (\<forall>n\<in>set (graph_nodes graph). node_ok n) \<and>
      (\<forall>e\<in>set (graph_edge_list graph). edge_ok (nodes_by_id (graph_nodes graph)) e) \<and>
      acyclic (node_edge_rel (nodes_by_id (graph_nodes graph)) (graph_edge_list graph)) \<and>
      (\<forall>out\<in>set (graph_outputs graph). output_ok (nodes_by_id (graph_nodes graph)) out)) \<and>
    distinct (map error_key (sv_errors r)) \<and> list_all known_error (sv_errors r) \<and>
    (sv_valid r \<longleftrightarrow> sv_errors r = [])"
proof -
  obtain errors where e: "sv_errors r = deduplicate_errors errors" "sv_valid r = (errors = [])"
    "list_all known_error errors"
    "errors = [] \<longleftrightarrow> graph_outputs graph \<noteq> [] \<and> (\<forall>n\<in>set (graph_nodes graph). node_ok n) \<and>
      (\<forall>e\<in>set (graph_edge_list graph). edge_ok (nodes_by_id (graph_nodes graph)) e) \<and>
      acyclic (node_edge_rel (nodes_by_id (graph_nodes graph)) (graph_edge_list graph)) \<and>
      (\<forall>out\<in>set (graph_outputs graph). output_ok (nodes_by_id (graph_nodes graph)) out)"
    using validate_strategy_graph_Inr [OF assms] by blast
  have "list_all known_error (deduplicate_errors errors)"
    using dedup_first_subset [of error_key "filter (\<lambda>e. se_code e \<in> set VALIDATION_CODES) errors"]
    by (auto simp: deduplicate_errors_def known_error_def list_all_iff)
  then show ?thesis
    using e deduplicate_errors_props(1) [of errors] deduplicate_errors_Nil_iff [OF e(3)] by simp
qed

lemma example_graph_returns: "\<exists>h. validate_strategy_graph example_graph =
    Inr \<lparr>sv_valid = True, sv_errors = [], sv_graph_hash = h\<rparr>"
  by (simp add: validate_strategy_graph_def example_graph_def canonical_strategy_graph_hash_def
      sg_canonical_json_bytes_def canonical_graph_def mapping_list_def dict_get_def dict_get_default_def
      canonical_node_def canonical_edge_def canonical_output_def canonical_ports_def canonical_port_def
      get_str_def item_str_def as_mapping_def node_key_def edge_key_def TIMEFRAMES_def Let_def
      nodes_by_id_def node_errors_def dataset_errors_def is_hashable_def MISSING_DATA_POLICIES_def
      has_positive_lookahead_def int_config_def sma_errors_def threshold_errors_def edge_errors_def
      find_port_def add_graph_edge_def has_cycle_def output_errors_def deduplicate_errors_def enumerate_eq_zip)

text \<open>The example is valid, so the hypothesis and both sides of the equivalence are met.\<close>

theorem validate_strategy_graph_exact_witness:
  "\<exists>r. validate_strategy_graph example_graph = Inr r \<and> sv_valid r \<and>
    acyclic (node_edge_rel (nodes_by_id (graph_nodes example_graph)) (graph_edge_list example_graph)) \<and>
    sv_errors r = []"
proof -
  obtain h where h: "validate_strategy_graph example_graph =
      Inr \<lparr>sv_valid = True, sv_errors = [], sv_graph_hash = h\<rparr>"
    using example_graph_returns by blast
  show ?thesis using validate_strategy_graph_exact [OF h] h by simp
qed

text \<open>C28. 
  The worklist check answers the question it is asked: for every list of edges and every table
  of nodes with distinct ids, the loop terminates and reports a cycle exactly when the edge
  relation it was given has one, whatever the order of edges and successors.
\<close>

theorem has_cycle_decides:
  assumes "distinct (map fst by_id)"
  shows "(case foldl (add_graph_edge by_id) ([], map (\<lambda>kv. (fst kv, 0)) by_id) edges of
      (graph_edges, indegree) \<Rightarrow> has_cycle graph_edges indegree) =
    Inr (\<not> acyclic (node_edge_rel by_id edges))"
  using has_cycle_of_graph [OF _ assms]
  by (cases "foldl (add_graph_edge by_id) ([], map (\<lambda>kv. (fst kv, 0)) by_id) edges") auto

theorem has_cycle_decides_witness:
  "(case foldl (add_graph_edge [(''a'', []), (''b'', [])]) ([], map (\<lambda>kv. (fst kv, 0)) [(''a'', [] :: py_dict), (''b'', [])])
      [[(''from_node'', PyStr ''a''), (''to_node'', PyStr ''b'')], [(''from_node'', PyStr ''b''), (''to_node'', PyStr ''a'')]] of
      (graph_edges, indegree) \<Rightarrow> has_cycle graph_edges indegree) =
    Inr (\<not> acyclic (node_edge_rel [(''a'', []), (''b'', [])]
      [[(''from_node'', PyStr ''a''), (''to_node'', PyStr ''b'')], [(''from_node'', PyStr ''b''), (''to_node'', PyStr ''a'')]]))"
  by (rule has_cycle_decides) simp

text \<open>
  Validation raises only \<^verbatim>\<open>TypeError\<close>: either the canonical document cannot be encoded, or a
  dataset node carries a list or a mapping as its missing-data policy, which the set membership
  test cannot hash. The worklist never meets an unknown node.
\<close>

theorem validate_strategy_graph_raises:
  assumes "validate_strategy_graph graph = Inl e"
  shows "e = Strat_TypeError \<and>
    (canonical_strategy_graph_hash graph = Inl Strat_TypeError \<or>
     (\<exists>n\<in>set (graph_nodes graph). unhashable_policy n))"
  using validate_strategy_graph_Inl [OF assms] hash_Inl by blast

definition unhashable_graph :: py_dict where
  "unhashable_graph =
     [(''nodes'', PyList [PyDict [(''id'', PyStr ''a''), (''type'', PyStr ''dataset.candle''),
           (''config'', PyDict [(''missingDataPolicy'', PyList [])])]])]"

theorem validate_strategy_graph_raises_witness:
  "validate_strategy_graph unhashable_graph = Inl Strat_TypeError \<and>
   (canonical_strategy_graph_hash unhashable_graph = Inl Strat_TypeError \<or>
     (\<exists>n\<in>set (graph_nodes unhashable_graph). unhashable_policy n))"
proof -
  have "validate_strategy_graph unhashable_graph = Inl Strat_TypeError"
    by (simp add: validate_strategy_graph_def unhashable_graph_def canonical_strategy_graph_hash_def
      sg_canonical_json_bytes_def canonical_graph_def mapping_list_def dict_get_def dict_get_default_def
      canonical_node_def canonical_ports_def get_str_def item_str_def as_mapping_def Let_def
      node_errors_def dataset_errors_def is_hashable_def)
  then show ?thesis using validate_strategy_graph_raises [of unhashable_graph Strat_TypeError] by blast
qed

text \<open>
  The canonical hash does not depend on the order in which a document lists its parts: graphs
  with the same schema version and the same nodes, edges and outputs up to order have the same
  hash, provided no two nodes share id and type.
\<close>

theorem canonical_hash_order_independent:
  assumes "mset (graph_nodes g) = mset (graph_nodes g')" "mset (graph_edge_list g) = mset (graph_edge_list g')"
    "mset (graph_outputs g) = mset (graph_outputs g')"
    and "inj_on (\<lambda>n. (get_str n ''id'', get_str n ''type'')) (set (graph_nodes g))"
    and "dict_get_default g ''schema_version'' (dict_get_default g ''schemaVersion'' (PyStr '''')) =
         dict_get_default g' ''schema_version'' (dict_get_default g' ''schemaVersion'' (PyStr ''''))"
  shows "canonical_strategy_graph_hash g = canonical_strategy_graph_hash g'"
proof -
  have nodes: "sort_key node_key (map canonical_node (graph_nodes g)) =
      sort_key node_key (map canonical_node (graph_nodes g'))"
  proof (rule sort_key_perm_distinct)
    show "inj_on node_key (set (map canonical_node (graph_nodes g)))"
      using assms(4) by (auto simp: inj_on_def node_key_def canonical_node_def item_str_def as_mapping_def dict_get_def)
  qed (simp add: assms(1))
  have edges: "sort_key edge_key (map canonical_edge (graph_edge_list g)) =
      sort_key edge_key (map canonical_edge (graph_edge_list g'))"
  proof (rule sort_key_perm_distinct)
    show "inj_on edge_key (set (map canonical_edge (graph_edge_list g)))"
      by (auto simp: inj_on_def edge_key_def canonical_edge_def item_str_def as_mapping_def dict_get_def)
  qed (simp add: assms(2))
  have outputs: "sort_key (\<lambda>v. (item_str ''node'' v, item_str ''port'' v)) (map canonical_output (graph_outputs g)) =
      sort_key (\<lambda>v. (item_str ''node'' v, item_str ''port'' v)) (map canonical_output (graph_outputs g'))"
  proof (rule sort_key_perm_distinct)
    show "inj_on (\<lambda>v. (item_str ''node'' v, item_str ''port'' v)) (set (map canonical_output (graph_outputs g)))"
      by (auto simp: inj_on_def canonical_output_def item_str_def as_mapping_def dict_get_def)
  qed (simp add: assms(3))
  have "canonical_graph g = canonical_graph g'"
    by (simp only: canonical_graph_def Let_def nodes edges outputs assms(5))
  then show ?thesis by (simp add: canonical_strategy_graph_hash_def)
qed

definition reordered_graph :: py_dict where
  "reordered_graph =
     [(''schema_version'', PyStr ''strategy-graph-v1''), (''outputs'', dict_get example_graph ''outputs''),
      (''edges'', dict_get example_graph ''edges''),
      (''nodes'', PyList (rev (map PyDict (graph_nodes example_graph))))]"

theorem canonical_hash_order_independent_witness:
  "reordered_graph \<noteq> example_graph \<and>
   canonical_strategy_graph_hash example_graph = canonical_strategy_graph_hash reordered_graph"
proof
  show "canonical_strategy_graph_hash example_graph = canonical_strategy_graph_hash reordered_graph"
    by (rule canonical_hash_order_independent)
      (simp_all add: example_graph_def reordered_graph_def dict_get_def dict_get_default_def mapping_list_def
        get_str_def)
qed (simp add: reordered_graph_def example_graph_def dict_get_def)

end
