(* ===== verification/Json_Injective.thy ===== *)
theory Json_Injective
  imports Py_Value
begin

text \<open>
  Canonical JSON text determines the document: on documents without floats whose objects list
  their keys in ascending order, \<^verbatim>\<open>json.dumps\<close> is injective, so two payloads share a checksum only
  if they are equal or SHA-256 collides.
\<close>

section \<open>Digits round trip\<close>

lemma of_char_digit [simp]: "n < 10 \<Longrightarrow> (of_char (digit_char n) :: nat) = 48 + n"
  by (simp add: digit_char_def)

lemma is_digit_digit_char [simp]: "n < 10 \<Longrightarrow> is_digit (digit_char n)"
  by (simp add: is_digit_def)

lemma nat_str_digits: "list_all is_digit (nat_str n)"
  by (induction n rule: nat_str.induct) (subst nat_str.simps, auto)

lemma digits_val_snoc: "digits_val (s @ [c]) = digits_val s * 10 + (of_char c - 48)"
  by (simp add: digits_val_def)

lemma digits_val_nat_str [simp]: "digits_val (nat_str n) = n"
proof (induction n rule: nat_str.induct)
  case (1 n)
  show ?case
  proof (cases "n < 10")
    case True
    then show ?thesis by (subst nat_str.simps) (simp add: digits_val_def)
  next
    case False
    then have "nat_str n = nat_str (n div 10) @ [digit_char (n mod 10)]" by (subst nat_str.simps) simp
    then show ?thesis using 1 False by (simp only: digits_val_snoc) simp
  qed
qed

lemma nat_str_nonempty [simp]: "nat_str n \<noteq> []"
  by (subst nat_str.simps) simp

definition follow :: "string \<Rightarrow> bool" where
  "follow r \<longleftrightarrow> r = [] \<or> hd r \<in> {CHR '','', CHR '']'', CHR ''}''}"

lemma follow_not_digit: "follow (c # r) \<Longrightarrow> \<not> is_digit c"
  by (auto simp: follow_def is_digit_def)

lemma takeWhile_nat_str: "follow r \<Longrightarrow> takeWhile is_digit (nat_str n @ r) = nat_str n"
  using nat_str_digits [of n] follow_not_digit
  by (cases r) (auto simp: takeWhile_append list_all_iff)

lemma nat_str_prefix:
  assumes "nat_str n @ r = nat_str m @ s" "follow r" "follow s"
  shows "n = m \<and> r = s"
proof -
  have "nat_str n = nat_str m" using takeWhile_nat_str assms by metis
  moreover from this have "n = m" by (metis digits_val_nat_str)
  ultimately show ?thesis using assms(1) by simp
qed

lemma nat_str_hd: "\<exists>c cs. nat_str n = c # cs \<and> is_digit c"
  using nat_str_digits [of n] by (cases "nat_str n") auto

lemma int_str_prefix:
  assumes "int_str i @ r = int_str j @ s" "follow r" "follow s"
  shows "i = j \<and> r = s"
proof -
  have nd: "\<not> is_digit (CHR ''-'')" by (simp add: is_digit_def)
  show ?thesis
  proof (cases "i < 0"; cases "j < 0")
    assume ij: "i < 0" "j < 0"
    then have "nat_str (nat (- i)) @ r = nat_str (nat (- j)) @ s" using assms(1) by (simp add: int_str_def)
    then have "nat (- i) = nat (- j) \<and> r = s" by (rule nat_str_prefix [OF _ assms(2,3)])
    then show ?thesis using ij by (simp add: eq_nat_nat_iff)
  next
    assume ij: "\<not> i < 0" "\<not> j < 0"
    then have "nat_str (nat i) @ r = nat_str (nat j) @ s" using assms(1) by (simp add: int_str_def)
    then have "nat i = nat j \<and> r = s" by (rule nat_str_prefix [OF _ assms(2,3)])
    then show ?thesis using ij by (simp add: eq_nat_nat_iff)
  qed (use assms(1) nd nat_str_hd in \<open>auto simp: int_str_def, (metis append_Cons list.inject)+\<close>)
qed

section \<open>Strings\<close>

lemma hex_digit_inj: "i < 16 \<Longrightarrow> j < 16 \<Longrightarrow> hex_digit i = hex_digit j \<longleftrightarrow> i = j"
  unfolding hex_digit_def by (rule nth_eq_iff_index_eq) (simp_all add: HEX_DIGITS_def)

lemma hex4_inj:
  assumes "n < 256" "m < 256" "hex4 n = hex4 m"
  shows "n = m"
proof -
  have byte: "(k div 16 mod 16) * 16 + k mod 16 = k" if "k < 256" for k :: nat
  proof -
    have "k mod (16 * 16) = k" using that by simp
    then show ?thesis using mod_mult2_eq [of k 16 16] by linarith
  qed
  have digits: "hex4 k ! 2 = hex_digit (k div 16 mod 16)" "hex4 k ! 3 = hex_digit (k mod 16)" for k
    by (simp_all add: hex4_def)
  have "hex_digit (n div 16 mod 16) = hex_digit (m div 16 mod 16)"
    using digits(1) [of n] digits(1) [of m] assms(3) by simp
  moreover have "hex_digit (n mod 16) = hex_digit (m mod 16)"
    using digits(2) [of n] digits(2) [of m] assms(3) by simp
  ultimately have "n div 16 mod 16 = m div 16 mod 16" "n mod 16 = m mod 16" by (simp_all add: hex_digit_inj)
  then show ?thesis using byte [OF assms(1)] byte [OF assms(2)] by metis
qed

lemma length_hex4 [simp]: "length (hex4 n) = 4"
  by (simp add: hex4_def)

lemma json_esc_prefix:
  assumes "json_esc c @ r = json_esc d @ s"
  shows "c = d \<and> r = s"
proof (cases "(of_char c :: nat) < 32 \<and> (of_char d :: nat) < 32 \<and>
    length (json_esc c) = 6 \<and> length (json_esc d) = 6")
  case True
  then have "hex4 (of_char c) = hex4 (of_char d) \<and> r = s"
    using assms by (auto simp: json_esc_def split: if_splits)
  then show ?thesis using True hex4_inj [of "of_char c" "of_char d"] by simp
next
  case False
  then show ?thesis using assms by (auto simp: json_esc_def split: if_splits)
qed

lemma json_esc_not_quote: "\<exists>c' cs. json_esc c = c' # cs \<and> c' \<noteq> CHR 0x22"
  by (auto simp: json_esc_def)

lemma json_string_prefix:
  assumes "json_string a @ r = json_string b @ s"
  shows "a = b \<and> r = s"
proof -
  have "concat (map json_esc a) @ CHR 0x22 # r = concat (map json_esc b) @ CHR 0x22 # s"
    using assms by (simp add: json_string_def)
  then show ?thesis
  proof (induction a arbitrary: b)
    case Nil
    then show ?case using json_esc_not_quote by (cases b) (auto, metis append_Cons list.inject)
  next
    case (Cons c a)
    then obtain d b' where b: "b = d # b'" using json_esc_not_quote [of c] by (cases b) auto
    then have "c = d \<and> concat (map json_esc a) @ CHR 0x22 # r = concat (map json_esc b') @ CHR 0x22 # s"
      using Cons.prems json_esc_prefix by (simp add: append_assoc)
    then show ?case using Cons.IH b by simp
  qed
qed

section \<open>Documents\<close>

text \<open>The documents canonicalisation produces: no floats, keys in strictly ascending order.\<close>

function json_canonical :: "json \<Rightarrow> bool" where
  "json_canonical JNull = True"
| "json_canonical (JBool b) = True"
| "json_canonical (JInt i) = True"
| "json_canonical (JFloat r) = False"
| "json_canonical (JStr s) = True"
| "json_canonical (JArr xs) = list_all json_canonical xs"
| "json_canonical (JObj d) =
     (sorted_wrt (<) (map fst d) \<and> list_all (\<lambda>kv. json_canonical (snd kv)) d)"
  by pat_completeness auto
termination
  by (relation "measure size") (auto intro: size_list_mem size_dict_mem)

definition json_entry :: "string \<times> json \<Rightarrow> string" where
  "json_entry kv = json_string (fst kv) @ '':'' @ json_dumps (snd kv)"

lemma sort_key_ascending: "sorted_wrt (<) (map f xs) \<Longrightarrow> sort_key f xs = xs"
  by (rule sort_key_id_if_sorted) (simp add: strict_sorted_iff)

lemma json_dumps_JObj:
  "sorted_wrt (<) (map fst d) \<Longrightarrow> json_dumps (JObj d) = ''{'' @ join '','' (map json_entry d) @ ''}''"
  by (simp add: sort_key_ascending json_entry_def [abs_def])

text \<open>A separated sequence is determined by its text when every element is.\<close>

fun seq_rest :: "('a \<Rightarrow> string) \<Rightarrow> char \<Rightarrow> 'a list \<Rightarrow> string \<Rightarrow> string" where
  "seq_rest f close [] r = close # r"
| "seq_rest f close (x # xs) r = CHR '','' # f x @ seq_rest f close xs r"

lemma join_seq_rest: "join '','' (map f (x # xs)) @ close # r = f x @ seq_rest f close xs r"
  by (induction xs arbitrary: x) auto

definition prefix_injective :: "('a \<Rightarrow> string) \<Rightarrow> 'a set \<Rightarrow> 'a set \<Rightarrow> bool" where
  "prefix_injective f A B \<longleftrightarrow>
     (\<forall>x\<in>A. \<forall>y\<in>B. \<forall>r s. follow r \<longrightarrow> follow s \<longrightarrow> f x @ r = f y @ s \<longrightarrow> x = y \<and> r = s)"

lemma follow_seq_rest: "close \<in> {CHR '']'', CHR ''}''} \<Longrightarrow> follow (seq_rest f close xs r)"
  by (cases xs) (auto simp: follow_def)

lemma seq_rest_inject:
  assumes "prefix_injective f (set xs) (set ys)" "close \<in> {CHR '']'', CHR ''}''}"
    and "seq_rest f close xs r = seq_rest f close ys s"
  shows "xs = ys \<and> r = s"
  using assms
proof (induction xs arbitrary: ys)
  case Nil
  then show ?case by (cases ys) auto
next
  case (Cons x xs)
  then obtain y ys' where ys: "ys = y # ys'" by (cases ys) auto
  then have "f x @ seq_rest f close xs r = f y @ seq_rest f close ys' s" using Cons.prems(3) by simp
  then have "x = y \<and> seq_rest f close xs r = seq_rest f close ys' s"
    using Cons.prems(1,2) ys follow_seq_rest unfolding prefix_injective_def by (meson list.set_intros(1))
  moreover have "prefix_injective f (set xs) (set ys')"
    using Cons.prems(1) ys by (simp add: prefix_injective_def)
  ultimately show ?case using Cons.IH Cons.prems(2) ys by blast
qed

lemma sequence_inject:
  assumes inj: "prefix_injective f (set xs) (set ys)"
    and close: "close \<in> {CHR '']'', CHR ''}''}"
    and head: "\<forall>x\<in>set xs \<union> set ys. \<exists>c cs. f x = c # cs \<and> c \<noteq> close"
    and eq: "join '','' (map f xs) @ close # r = join '','' (map f ys) @ close # s"
  shows "xs = ys \<and> r = s"
proof (cases xs)
  case Nil
  show ?thesis
  proof (cases ys)
    case (Cons y ys')
    then have "close # r = f y @ seq_rest f close ys' s" using eq Nil unfolding Cons join_seq_rest by simp
    then show ?thesis using head Cons by auto
  qed (use Nil eq in simp)
next
  case (Cons x xs')
  have "ys \<noteq> []"
  proof
    assume "ys = []"
    then have "f x @ seq_rest f close xs' r = close # s" using eq unfolding Cons join_seq_rest by simp
    then show False using head Cons by auto
  qed
  then obtain y ys' where ys: "ys = y # ys'" by (cases ys) auto
  have "f x @ seq_rest f close xs' r = f y @ seq_rest f close ys' s"
    using eq unfolding Cons ys join_seq_rest .
  then have "x = y \<and> seq_rest f close xs' r = seq_rest f close ys' s"
    using inj close Cons ys follow_seq_rest unfolding prefix_injective_def by (meson list.set_intros(1))
  moreover have "prefix_injective f (set xs') (set ys')"
    using inj Cons ys by (simp add: prefix_injective_def)
  ultimately show ?thesis using seq_rest_inject close Cons ys by blast
qed

text \<open>The first character tells the kind of a document.\<close>

definition char_tag :: "char \<Rightarrow> nat" where
  "char_tag c =
     (if c = CHR ''n'' then 0 else if c = CHR ''t'' then 1 else if c = CHR ''f'' then 2
      else if is_digit c \<or> c = CHR ''-'' then 3 else if c = CHR 0x22 then 4
      else if c = CHR ''['' then 5 else if c = CHR ''{'' then 6 else 7)"

fun json_tag :: "json \<Rightarrow> nat" where
  "json_tag JNull = 0" | "json_tag (JBool b) = (if b then 1 else 2)" | "json_tag (JInt i) = 3"
| "json_tag (JFloat r) = 8" | "json_tag (JStr s) = 4" | "json_tag (JArr xs) = 5" | "json_tag (JObj d) = 6"

lemma digit_not_letter: "is_digit c \<Longrightarrow> c \<noteq> CHR ''n'' \<and> c \<noteq> CHR ''t'' \<and> c \<noteq> CHR ''f''"
  by (auto simp: is_digit_def)

lemma json_dumps_head: "json_canonical a \<Longrightarrow> \<exists>c cs. json_dumps a = c # cs \<and> char_tag c = json_tag a"
proof (cases a)
  case (JInt i)
  obtain c cs where "nat_str (nat i) = c # cs" "is_digit c" using nat_str_hd by blast
  then show ?thesis using JInt digit_not_letter [of c] by (auto simp: int_str_def char_tag_def is_digit_def)
qed (auto simp: char_tag_def is_digit_def json_string_def)

lemma json_dumps_tag:
  assumes "json_canonical a" "json_canonical b" "json_dumps a @ r = json_dumps b @ s"
  shows "json_tag a = json_tag b"
  using json_dumps_head [OF assms(1)] json_dumps_head [OF assms(2)] assms(3) by auto

lemma json_dumps_head_not_close:
  assumes "json_canonical a" "close \<in> {CHR '']'', CHR ''}''}"
  shows "\<exists>c cs. json_dumps a = c # cs \<and> c \<noteq> close"
proof -
  obtain c cs where "json_dumps a = c # cs" "char_tag c = json_tag a"
    using json_dumps_head [OF assms(1)] by blast
  moreover have "json_tag a \<noteq> 7" by (cases a) auto
  moreover have "char_tag close = 7" using assms(2) by (auto simp: char_tag_def is_digit_def)
  ultimately show ?thesis by metis
qed

lemma json_dumps_prefix:
  assumes "json_canonical a" "json_canonical b" "json_dumps a @ r = json_dumps b @ s" "follow r" "follow s"
  shows "a = b \<and> r = s"
  using assms
proof (induction a arbitrary: b r s)
  case (JArr xs)
  obtain ys where b: "b = JArr ys" using json_dumps_tag [OF JArr.prems(1-3)] by (cases b) (auto split: if_splits)
  have "prefix_injective json_dumps (set xs) (set ys)"
    using JArr.IH JArr.prems(1,2) b by (auto simp: prefix_injective_def list_all_iff)
  moreover have "\<forall>x\<in>set xs \<union> set ys. \<exists>c cs. json_dumps x = c # cs \<and> c \<noteq> CHR '']''"
    using JArr.prems(1,2) b json_dumps_head_not_close by (auto simp: list_all_iff)
  ultimately have "xs = ys \<and> r = s"
    using JArr.prems(3) b by (intro sequence_inject [where close = "CHR '']''"]) auto
  then show ?case using b by simp
next
  case (JObj d)
  obtain e where b: "b = JObj e" using json_dumps_tag [OF JObj.prems(1-3)] by (cases b) (auto split: if_splits)
  have sorted: "sorted_wrt (<) (map fst d)" "sorted_wrt (<) (map fst e)" using JObj.prems(1,2) b by auto
  have "x = y \<and> r = s"
    if xy: "x \<in> set d" "y \<in> set e" "follow r" "follow s" "json_entry x @ r = json_entry y @ s" for x y r s
  proof -
    have "fst x = fst y \<and> json_dumps (snd x) @ r = json_dumps (snd y) @ s"
      using xy(5) json_string_prefix [of "fst x" "'':'' @ json_dumps (snd x) @ r" "fst y"
          "'':'' @ json_dumps (snd y) @ s"] by (simp add: json_entry_def)
    moreover have "json_canonical (snd x)" "json_canonical (snd y)"
      using JObj.prems(1,2) b xy(1,2) by (auto simp: list_all_iff)
    ultimately show ?thesis
      using JObj.IH [OF xy(1) snds.intros, of "snd y" r s] xy(3,4) by (auto simp: prod_eq_iff)
  qed
  then have "prefix_injective json_entry (set d) (set e)" by (auto simp: prefix_injective_def)
  moreover have "\<forall>x\<in>set d \<union> set e. \<exists>c cs. json_entry x = c # cs \<and> c \<noteq> CHR ''}''"
    by (auto simp: json_entry_def json_string_def)
  moreover have "join '','' (map json_entry d) @ CHR ''}'' # r = join '','' (map json_entry e) @ CHR ''}'' # s"
    using JObj.prems(3) unfolding b json_dumps_JObj [OF sorted(1)] json_dumps_JObj [OF sorted(2)] by simp
  ultimately have "d = e \<and> r = s"
    by (intro sequence_inject [where close = "CHR ''}''"]) auto
  then show ?case using b by simp
next
  case (JInt i)
  obtain j where "b = JInt j" using json_dumps_tag [OF JInt.prems(1-3)] by (cases b) (auto split: if_splits)
  then show ?case using int_str_prefix [of i r j s] JInt.prems by simp
next
  case (JStr t)
  obtain u where "b = JStr u" using json_dumps_tag [OF JStr.prems(1-3)] by (cases b) (auto split: if_splits)
  then show ?case using json_string_prefix [of t r u s] JStr.prems by simp
next
  case (JBool x)
  obtain y where "b = JBool y" using json_dumps_tag [OF JBool.prems(1-3)] by (cases b) (auto split: if_splits)
  then show ?case using JBool json_dumps_tag [OF JBool.prems(1-3)] by (auto split: if_splits)
next
  case JNull
  have "b = JNull" using json_dumps_tag [OF JNull.prems(1-3)] by (cases b) (auto split: if_splits)
  then show ?case using JNull by simp
qed simp

lemma json_dumps_inject:
  "json_canonical a \<Longrightarrow> json_canonical b \<Longrightarrow> json_dumps a = json_dumps b \<longleftrightarrow> a = b"
  using json_dumps_prefix [of a b "[]" "[]"] by (auto simp: follow_def)

end
