(* ===== verification/Dataset_Versions.thy ===== *)
theory Dataset_Versions
  imports Json_Injective
begin

text \<open>
  Model of \<^verbatim>\<open>packages/shared/goodmoneying_shared/dataset_versions.py\<close>: canonical JSON and its
  hash, the incremental array digest, the validation of a dataset specification and of its members,
  market states and coverage segments, and the five hashes that identify a dataset. Each
  \<^verbatim>\<open>ValueError\<close> is a constructor of \<open>ds_error\<close>. A canonical document of a snapshot or segment is
  the snapshot with its dictionary; the projections read the fields through the snapshot.
\<close>

section \<open>Data\<close>

datatype ds_error =
    Ds_NotUtc string
  | Ds_BadHash string
  | Ds_UnknownKind string
  | Ds_UnknownQuality string
  | Ds_KeyOrder
  | Ds_DuplicateMember
  | Ds_FillPolicy string
  | Ds_MissingPolicy string
  | Ds_FillNotCandle
  | Ds_StatusRange
  | Ds_CoverageEmpty
  | Ds_CoverageStatus string
  | Ds_CoverageCount
  | Ds_TimeRange
  | Ds_NoSeries
  | Ds_InstrumentId
  | Ds_UnitRequired
  | Ds_DuplicateSeries
  | Ds_DuplicateStatus
  | Ds_StatusOverlap
  | Ds_DuplicateCoverage
  | Ds_CoverageOverlap

definition DATASET_KINDS :: "string list" where
  "DATASET_KINDS = [''candle'', ''indicator'', ''market_statistic'', ''microstructure'']"

definition QUALITIES :: "string list" where
  "QUALITIES = [''available'', ''no_trade'', ''missing'', ''unavailable'', ''unverified'']"

definition FILL_POLICIES :: "string list" where
  "FILL_POLICIES = [''none'', ''no_trade_carry_forward_v1'']"

definition MISSING_POLICIES :: "string list" where
  "MISSING_POLICIES = [''fail'', ''null'', ''drop'']"

record dataset_series_request =
  dsr_instrument_id :: int
  dsr_exchange :: string
  dsr_market_code :: string
  dsr_data_kind :: string
  dsr_unit :: "string option"
  dsr_definition_set_hash :: "string option"
  dsr_calculation_version :: "string option"

record dataset_canonical_specification =
  dcs_schema_version :: string
  dcs_as_of :: datetime
  dcs_input_start_at :: datetime
  dcs_output_start_at :: datetime
  dcs_end_at :: datetime
  dcs_series :: "dataset_series_request list"
  dcs_fill_policy :: string
  dcs_missing_policy :: string
  dcs_ordering_policy :: string

record dataset_canonical_member =
  dcm_data_kind :: string
  dcm_exchange :: string
  dcm_market_code :: string
  dcm_unit :: "string option"
  dcm_occurred_at :: datetime
  dcm_knowledge_at :: datetime
  dcm_source_as_of :: datetime
  dcm_content_hash :: string
  dcm_quality :: string
  dcm_calculation_version :: string
  dcm_definition_hash :: "string option"
  dcm_source_ref_id :: int

record dataset_market_status_snapshot =
  dms_exchange :: string
  dms_market_code :: string
  dms_trading_status :: string
  dms_market_warning :: string
  dms_event_hash :: string
  dms_source_payload_checksum :: string
  dms_valid_from :: datetime
  dms_valid_to :: "datetime option"
  dms_observed_at :: datetime
  dms_source_ref_id :: int

record dataset_coverage_segment =
  dcv_data_kind :: string
  dcv_exchange :: string
  dcv_market_code :: string
  dcv_unit :: "string option"
  dcv_definition_set_hash :: "string option"
  dcv_calculation_version :: string
  dcv_range_start_at :: datetime
  dcv_range_end_at :: datetime
  dcv_knowledge_at :: datetime
  dcv_status :: string
  dcv_observed_count :: int
  dcv_expected_count :: int
  dcv_evidence_hash :: string
  dcv_source_ref_id :: "int option"

record dataset_hashes =
  dh_selection_hash :: string
  dh_manifest_hash :: string
  dh_market_status_hash :: string
  dh_coverage_hash :: string
  dh_content_hash :: string

section \<open>Canonical JSON\<close>

definition ds_validate_utc :: "datetime \<Rightarrow> string \<Rightarrow> ds_error + unit" where
  "ds_validate_utc value name = (if is_utc value then Inr () else Inl (Ds_NotUtc name))"

definition ds_validate_hash :: "string \<Rightarrow> string \<Rightarrow> ds_error + unit" where
  "ds_validate_hash value name =
     (if length value \<noteq> 64 \<or> \<not> list_all (\<lambda>c. c \<in> set HEX_DIGITS) value then Inl (Ds_BadHash name) else Inr ())"

text \<open>\<^verbatim>\<open>astimezone(UTC).isoformat().replace("+00:00", "Z")\<close>.\<close>

definition iso_z :: "datetime \<Rightarrow> string" where
  "iso_z d = iso_date (instant d) @ ''T'' @ iso_time (instant d) @ ''Z''"

function ds_canonical_value :: "py_value \<Rightarrow> ds_error + json" where
  "ds_canonical_value (PyDatetime d) =
     res_bind (ds_validate_utc d ''datetime'') (\<lambda>_. Inr (JStr (iso_z d)))"
| "ds_canonical_value (PyDecimal a) = Inr (JStr (dec_format_f (dec_normalize PREC_DEFAULT a)))"
| "ds_canonical_value (PyDict d) =
     res_map JObj (res_mapM (\<lambda>kv. res_map (Pair (fst kv)) (ds_canonical_value (snd kv))) (sort_key fst d))"
| "ds_canonical_value (PyList xs) = res_map JArr (res_mapM ds_canonical_value xs)"
| "ds_canonical_value PyNone = Inr JNull"
| "ds_canonical_value (PyBool b) = Inr (JBool b)"
| "ds_canonical_value (PyInt i) = Inr (JInt i)"
| "ds_canonical_value (PyFloat r v) = Inr (JFloat r)"
| "ds_canonical_value (PyStr s) = Inr (JStr s)"
  by pat_completeness auto
termination
  by (relation "measure size") (auto intro: size_list_mem size_dict_mem)

definition canonical_json_bytes :: "py_value \<Rightarrow> ds_error + string" where
  "canonical_json_bytes payload = res_map json_dumps (ds_canonical_value payload)"

definition canonical_payload_hash :: "py_value \<Rightarrow> ds_error + string" where
  "canonical_payload_hash payload = res_map sha256_hex (canonical_json_bytes payload)"

section \<open>The incremental array digest\<close>

text \<open>\<^verbatim>\<open>hashlib\<close> digests the concatenation of what it was updated with, so the object is its bytes.\<close>

record array_digest =
  ad_bytes :: string
  ad_count :: nat
  ad_previous_key :: "string list option"

definition digest_init :: array_digest where
  "digest_init = \<lparr>ad_bytes = ''['', ad_count = 0, ad_previous_key = None\<rparr>"

definition key_out_of_order :: "array_digest \<Rightarrow> string list \<Rightarrow> bool" where
  "key_out_of_order st natural_key =
     (case ad_previous_key st of None \<Rightarrow> False | Some k \<Rightarrow> natural_key \<le> k)"

definition add_encoded :: "array_digest \<Rightarrow> string \<Rightarrow> string list \<Rightarrow> ds_error + array_digest" where
  "add_encoded st encoded natural_key =
     (if key_out_of_order st natural_key then Inl Ds_KeyOrder
      else Inr \<lparr>ad_bytes = ad_bytes st @ (if ad_count st \<noteq> 0 then '','' else []) @ encoded,
             ad_count = ad_count st + 1, ad_previous_key = Some natural_key\<rparr>)"

definition digest_add :: "array_digest \<Rightarrow> py_value \<Rightarrow> string list \<Rightarrow> ds_error + array_digest \<times> string" where
  "digest_add st value natural_key =
     (if key_out_of_order st natural_key then Inl Ds_KeyOrder
      else res_bind (canonical_json_bytes value) (\<lambda>encoded.
           res_map (\<lambda>st'. (st', encoded)) (add_encoded st encoded natural_key)))"

definition digest_hexdigest :: "array_digest \<Rightarrow> string" where
  "digest_hexdigest st = sha256_hex (ad_bytes st @ '']'')"

section \<open>Members, states and segments\<close>

definition opt_py :: "string option \<Rightarrow> py_value" where
  "opt_py s = (case s of None \<Rightarrow> PyNone | Some x \<Rightarrow> PyStr x)"

definition opt_text :: "string option \<Rightarrow> string" where
  "opt_text s = (case s of None \<Rightarrow> ''None'' | Some x \<Rightarrow> x)"

definition member_payload :: "dataset_canonical_member \<Rightarrow> py_value" where
  "member_payload m = PyDict
     [(''dataKind'', PyStr (dcm_data_kind m)),
      (''exchange'', PyStr (dcm_exchange m)),
      (''marketCode'', PyStr (dcm_market_code m)),
      (''unit'', opt_py (dcm_unit m)),
      (''occurredAt'', PyDatetime (dcm_occurred_at m)),
      (''knowledgeAt'', PyDatetime (dcm_knowledge_at m)),
      (''sourceAsOf'', PyDatetime (dcm_source_as_of m)),
      (''contentHash'', PyStr (dcm_content_hash m)),
      (''quality'', PyStr (dcm_quality m)),
      (''calculationVersion'', PyStr (dcm_calculation_version m)),
      (''definitionHash'', opt_py (dcm_definition_hash m))]"

definition validate_member :: "dataset_canonical_member \<Rightarrow> ds_error + unit" where
  "validate_member m =
     res_bind (ds_validate_utc (dcm_occurred_at m) ''occurred_at'') (\<lambda>_.
     res_bind (ds_validate_utc (dcm_knowledge_at m) ''knowledge_at'') (\<lambda>_.
     res_bind (ds_validate_utc (dcm_source_as_of m) ''source_as_of'') (\<lambda>_.
     res_bind (ds_validate_hash (dcm_content_hash m) ''content_hash'') (\<lambda>_.
     res_bind (case dcm_definition_hash m of None \<Rightarrow> Inr ()
               | Some h \<Rightarrow> ds_validate_hash h ''definition_hash'') (\<lambda>_.
     if dcm_data_kind m \<notin> set DATASET_KINDS then Inl (Ds_UnknownKind (dcm_data_kind m))
     else if dcm_quality m \<notin> set QUALITIES then Inl (Ds_UnknownQuality (dcm_quality m))
     else Inr ())))))"

definition canonical_member :: "dataset_canonical_member \<Rightarrow> ds_error + py_value" where
  "canonical_member m = res_bind (validate_member m) (\<lambda>_. Inr (member_payload m))"

definition member_sort_key :: "dataset_canonical_member \<Rightarrow> string list" where
  "member_sort_key m =
     [dcm_data_kind m, dcm_exchange m, dcm_market_code m, opt_text (dcm_unit m),
      opt_text (dcm_definition_hash m), dcm_calculation_version m, datetime_str (dcm_occurred_at m),
      dcm_content_hash m]"

definition add_canonical_member ::
  "array_digest \<Rightarrow> dataset_canonical_member \<Rightarrow> ds_error + array_digest \<times> string" where
  "add_canonical_member st m =
     res_bind (canonical_member m) (\<lambda>payload. digest_add st payload (butlast (member_sort_key m)))"

definition status_payload :: "dataset_market_status_snapshot \<Rightarrow> py_value" where
  "status_payload s = PyDict
     [(''exchange'', PyStr (dms_exchange s)),
      (''marketCode'', PyStr (dms_market_code s)),
      (''tradingStatus'', PyStr (dms_trading_status s)),
      (''marketWarning'', PyStr (dms_market_warning s)),
      (''eventHash'', PyStr (dms_event_hash s)),
      (''sourcePayloadChecksum'', PyStr (dms_source_payload_checksum s)),
      (''validFrom'', PyDatetime (dms_valid_from s)),
      (''validTo'', case dms_valid_to s of None \<Rightarrow> PyNone | Some t \<Rightarrow> PyDatetime t),
      (''observedAt'', PyDatetime (dms_observed_at s))]"

definition validate_market_status :: "dataset_market_status_snapshot \<Rightarrow> ds_error + unit" where
  "validate_market_status s =
     res_bind (ds_validate_utc (dms_valid_from s) ''valid_from'') (\<lambda>_.
     res_bind (case dms_valid_to s of None \<Rightarrow> Inr ()
               | Some t \<Rightarrow> res_bind (ds_validate_utc t ''valid_to'') (\<lambda>_.
                   if instant t \<le> instant (dms_valid_from s) then Inl Ds_StatusRange else Inr ())) (\<lambda>_.
     res_bind (ds_validate_utc (dms_observed_at s) ''observed_at'') (\<lambda>_.
     ds_validate_hash (dms_event_hash s) ''event_hash'')))"

definition coverage_payload :: "dataset_coverage_segment \<Rightarrow> py_value" where
  "coverage_payload c = PyDict
     [(''dataKind'', PyStr (dcv_data_kind c)),
      (''exchange'', PyStr (dcv_exchange c)),
      (''marketCode'', PyStr (dcv_market_code c)),
      (''unit'', opt_py (dcv_unit c)),
      (''definitionSetHash'', opt_py (dcv_definition_set_hash c)),
      (''calculationVersion'', PyStr (dcv_calculation_version c)),
      (''rangeStartAt'', PyDatetime (dcv_range_start_at c)),
      (''rangeEndAt'', PyDatetime (dcv_range_end_at c)),
      (''knowledgeAt'', PyDatetime (dcv_knowledge_at c)),
      (''status'', PyStr (dcv_status c)),
      (''observedCount'', PyInt (dcv_observed_count c)),
      (''expectedCount'', PyInt (dcv_expected_count c)),
      (''evidenceHash'', PyStr (dcv_evidence_hash c))]"

definition validate_coverage_segment :: "dataset_coverage_segment \<Rightarrow> ds_error + unit" where
  "validate_coverage_segment c =
     res_bind (ds_validate_utc (dcv_range_start_at c) ''range_start_at'') (\<lambda>_.
     res_bind (ds_validate_utc (dcv_range_end_at c) ''range_end_at'') (\<lambda>_.
     res_bind (ds_validate_utc (dcv_knowledge_at c) ''knowledge_at'') (\<lambda>_.
     res_bind (case dcv_definition_set_hash c of None \<Rightarrow> Inr ()
               | Some h \<Rightarrow> ds_validate_hash h ''definition_set_hash'') (\<lambda>_.
     if instant (dcv_range_end_at c) \<le> instant (dcv_range_start_at c) then Inl Ds_CoverageEmpty
     else if dcv_status c \<notin> set QUALITIES then Inl (Ds_CoverageStatus (dcv_status c))
     else if dcv_observed_count c < 0 \<or> dcv_expected_count c < 0 then Inl Ds_CoverageCount
     else ds_validate_hash (dcv_evidence_hash c) ''evidence_hash''))))"

section \<open>Projections\<close>

definition DATETIME_MAX :: int where
  "DATETIME_MAX = dt_combine 9999 12 31 23 59 59 999999"

definition status_identity :: "dataset_market_status_snapshot \<Rightarrow> string \<times> string \<times> int \<times> int" where
  "status_identity s =
     (dms_exchange s, dms_market_code s, instant (dms_valid_from s), instant (dms_observed_at s))"

definition status_market :: "dataset_market_status_snapshot \<Rightarrow> string \<times> string" where
  "status_market s = (dms_exchange s, dms_market_code s)"

definition status_end :: "dataset_market_status_snapshot \<Rightarrow> int" where
  "status_end s = (case dms_valid_to s of None \<Rightarrow> DATETIME_MAX | Some t \<Rightarrow> instant t)"

text \<open>The shared shape of both projections: reject a repeated identity, then a start before the
  last end of the same group.\<close>

fun check_projection ::
  "('a \<Rightarrow> 'i) \<Rightarrow> ('a \<Rightarrow> 'g) \<Rightarrow> ('a \<Rightarrow> int) \<Rightarrow> ('a \<Rightarrow> int) \<Rightarrow> 'e \<Rightarrow> 'e \<Rightarrow>
     'i list \<Rightarrow> ('g \<times> int) list \<Rightarrow> 'a list \<Rightarrow> 'e + unit" where
  "check_projection ident grp start fin dup overlap seen previous [] = Inr ()"
| "check_projection ident grp start fin dup overlap seen previous (x # xs) =
     (if ident x \<in> set seen then Inl dup
      else if (case map_of previous (grp x) of None \<Rightarrow> False | Some e \<Rightarrow> start x < e) then Inl overlap
      else check_projection ident grp start fin dup overlap (ident x # seen)
             (dict_set previous (grp x) (fin x)) xs)"

definition validate_status_projection :: "dataset_market_status_snapshot list \<Rightarrow> ds_error + unit" where
  "validate_status_projection =
     check_projection status_identity status_market (\<lambda>s. instant (dms_valid_from s)) status_end
       Ds_DuplicateStatus Ds_StatusOverlap [] []"

definition coverage_series ::
  "dataset_coverage_segment \<Rightarrow> string \<times> string \<times> string \<times> string option \<times> string option \<times> string" where
  "coverage_series c =
     (dcv_data_kind c, dcv_exchange c, dcv_market_code c, dcv_unit c, dcv_definition_set_hash c,
      dcv_calculation_version c)"

definition validate_coverage_projection :: "dataset_coverage_segment list \<Rightarrow> ds_error + unit" where
  "validate_coverage_projection =
     check_projection
       (\<lambda>c. (coverage_series c, instant (dcv_range_start_at c), instant (dcv_range_end_at c)))
       coverage_series (\<lambda>c. instant (dcv_range_start_at c)) (\<lambda>c. instant (dcv_range_end_at c))
       Ds_DuplicateCoverage Ds_CoverageOverlap [] []"

section \<open>Specification\<close>

definition validate_dataset_policies ::
  "dataset_series_request list \<Rightarrow> string \<Rightarrow> string \<Rightarrow> ds_error + unit" where
  "validate_dataset_policies series fill_policy missing_policy =
     (if fill_policy \<notin> set FILL_POLICIES then Inl (Ds_FillPolicy fill_policy)
      else if missing_policy \<notin> set MISSING_POLICIES then Inl (Ds_MissingPolicy missing_policy)
      else if fill_policy = ''no_trade_carry_forward_v1'' \<and>
              list_ex (\<lambda>s. dsr_data_kind s \<noteq> ''candle'') series then Inl Ds_FillNotCandle
      else Inr ())"

definition series_identity ::
  "dataset_series_request \<Rightarrow> string \<times> string \<times> string \<times> string option \<times> string option \<times> string option" where
  "series_identity s =
     (dsr_exchange s, dsr_market_code s, dsr_data_kind s, dsr_unit s, dsr_definition_set_hash s,
      dsr_calculation_version s)"

fun validate_series ::
  "(string \<times> string \<times> string \<times> string option \<times> string option \<times> string option) list \<Rightarrow>
     dataset_series_request list \<Rightarrow> ds_error + unit" where
  "validate_series seen [] = Inr ()"
| "validate_series seen (s # ss) =
     (if dsr_instrument_id s \<le> 0 then Inl Ds_InstrumentId
      else if dsr_data_kind s \<notin> set DATASET_KINDS then Inl (Ds_UnknownKind (dsr_data_kind s))
      else if dsr_unit s \<in> {None, Some ''''} then Inl Ds_UnitRequired
      else if series_identity s \<in> set seen then Inl Ds_DuplicateSeries
      else validate_series (series_identity s # seen) ss)"

definition validate_specification :: "dataset_canonical_specification \<Rightarrow> ds_error + unit" where
  "validate_specification spec =
     res_bind (ds_validate_utc (dcs_as_of spec) ''as_of'') (\<lambda>_.
     res_bind (ds_validate_utc (dcs_input_start_at spec) ''input_start_at'') (\<lambda>_.
     res_bind (ds_validate_utc (dcs_output_start_at spec) ''output_start_at'') (\<lambda>_.
     res_bind (ds_validate_utc (dcs_end_at spec) ''end_at'') (\<lambda>_.
     if \<not> (instant (dcs_input_start_at spec) \<le> instant (dcs_output_start_at spec) \<and>
           instant (dcs_output_start_at spec) < instant (dcs_end_at spec) \<and>
           instant (dcs_end_at spec) \<le> instant (dcs_as_of spec)) then Inl Ds_TimeRange
     else if dcs_series spec = [] then Inl Ds_NoSeries
     else res_bind (validate_series [] (dcs_series spec)) (\<lambda>_.
          validate_dataset_policies (dcs_series spec) (dcs_fill_policy spec) (dcs_missing_policy spec))))))"

definition series_payload :: "dataset_series_request \<Rightarrow> py_value" where
  "series_payload s = PyDict
     [(''exchange'', PyStr (dsr_exchange s)), (''marketCode'', PyStr (dsr_market_code s)),
      (''dataKind'', PyStr (dsr_data_kind s)), (''unit'', opt_py (dsr_unit s)),
      (''definitionSetHash'', opt_py (dsr_definition_set_hash s)),
      (''calculationVersion'', opt_py (dsr_calculation_version s))]"

definition series_sort_key :: "dataset_series_request \<Rightarrow> string list" where
  "series_sort_key s =
     [dsr_exchange s, dsr_market_code s, dsr_data_kind s, opt_text (dsr_unit s),
      opt_text (dsr_definition_set_hash s), opt_text (dsr_calculation_version s)]"

definition canonical_specification :: "dataset_canonical_specification \<Rightarrow> py_value" where
  "canonical_specification spec = PyDict
     [(''schemaVersion'', PyStr (dcs_schema_version spec)),
      (''asOf'', PyDatetime (dcs_as_of spec)),
      (''inputStartAt'', PyDatetime (dcs_input_start_at spec)),
      (''outputStartAt'', PyDatetime (dcs_output_start_at spec)),
      (''endAt'', PyDatetime (dcs_end_at spec)),
      (''series'', PyList (map series_payload (sort_key series_sort_key (dcs_series spec)))),
      (''fillPolicy'', PyStr (dcs_fill_policy spec)),
      (''missingPolicy'', PyStr (dcs_missing_policy spec)),
      (''orderingPolicy'', PyStr (dcs_ordering_policy spec))]"

section \<open>The hashes of a dataset\<close>

definition member_natural_key ::
  "dataset_canonical_member \<Rightarrow> string \<times> string \<times> string \<times> string option \<times> string option \<times> string \<times> int" where
  "member_natural_key m =
     (dcm_data_kind m, dcm_exchange m, dcm_market_code m, dcm_unit m, dcm_definition_hash m,
      dcm_calculation_version m, instant (dcm_occurred_at m))"

definition status_sort_key :: "dataset_market_status_snapshot \<Rightarrow> string list" where
  "status_sort_key s =
     [dms_exchange s, dms_market_code s, datetime_str (dms_valid_from s), datetime_str (dms_observed_at s)]"

definition coverage_sort_key :: "dataset_coverage_segment \<Rightarrow> string list" where
  "coverage_sort_key c =
     [dcv_data_kind c, dcv_exchange c, dcv_market_code c, opt_text (dcv_unit c),
      opt_text (dcv_definition_set_hash c), dcv_calculation_version c, datetime_str (dcv_range_start_at c)]"

definition canonical_dataset_hashes ::
  "dataset_canonical_specification \<Rightarrow> dataset_canonical_member list \<Rightarrow>
     dataset_market_status_snapshot list \<Rightarrow> dataset_coverage_segment list \<Rightarrow> ds_error + dataset_hashes" where
  "canonical_dataset_hashes spec members statuses coverage =
     res_bind (validate_specification spec) (\<lambda>_.
     res_bind (res_mapM validate_member members) (\<lambda>_.
     let ms = sort_key member_sort_key members in
     if card (set (map member_natural_key ms)) \<noteq> length ms then Inl Ds_DuplicateMember
     else
     res_bind (canonical_payload_hash (canonical_specification spec)) (\<lambda>selection_hash.
     res_bind (canonical_payload_hash (PyList (map member_payload ms))) (\<lambda>manifest_hash.
     res_bind (res_mapM validate_market_status statuses) (\<lambda>_.
     let ss = sort_key status_sort_key statuses in
     res_bind (validate_status_projection ss) (\<lambda>_.
     res_bind (res_mapM validate_coverage_segment coverage) (\<lambda>_.
     let cs = sort_key coverage_sort_key coverage in
     res_bind (validate_coverage_projection cs) (\<lambda>_.
     res_bind (canonical_payload_hash (PyList (map status_payload ss))) (\<lambda>market_status_hash.
     res_bind (canonical_payload_hash (PyList (map coverage_payload cs))) (\<lambda>coverage_hash.
     res_bind (canonical_payload_hash (PyDict
         [(''selectionHash'', PyStr selection_hash), (''manifestHash'', PyStr manifest_hash),
          (''marketStatusHash'', PyStr market_status_hash), (''coverageHash'', PyStr coverage_hash)]))
       (\<lambda>content_hash.
     Inr \<lparr>dh_selection_hash = selection_hash, dh_manifest_hash = manifest_hash,
          dh_market_status_hash = market_status_hash, dh_coverage_hash = coverage_hash,
          dh_content_hash = content_hash\<rparr>)))))))))))"

section \<open>Canonical text determines the canonical value\<close>

function py_plain :: "py_value \<Rightarrow> bool" where
  "py_plain (PyFloat r v) = False"
| "py_plain (PyList xs) = list_all py_plain xs"
| "py_plain (PyDict d) = (distinct (map fst d) \<and> list_all (\<lambda>kv. py_plain (snd kv)) d)"
| "py_plain PyNone = True"
| "py_plain (PyBool b) = True"
| "py_plain (PyInt i) = True"
| "py_plain (PyDecimal a) = True"
| "py_plain (PyDatetime t) = True"
| "py_plain (PyStr s) = True"
  by pat_completeness auto
termination
  by (relation "measure size") (auto intro: size_list_mem size_dict_mem)

lemma list_all2_imp_list_all:
  "list_all2 R xs ys \<Longrightarrow> (\<And>x y. x \<in> set xs \<Longrightarrow> R x y \<Longrightarrow> Q y) \<Longrightarrow> list_all Q ys"
  by (induction rule: list_all2_induct) auto

lemma ds_canonical_value_canonical:
  "py_plain v \<Longrightarrow> ds_canonical_value v = Inr j \<Longrightarrow> json_canonical j"
proof (induction v arbitrary: j rule: ds_canonical_value.induct)
  case (3 d)
  let ?f = "\<lambda>kv. res_map (Pair (fst kv)) (ds_canonical_value (snd kv))"
  obtain e where e: "j = JObj e" "list_all2 (\<lambda>kv x. ?f kv = Inr x) (sort_key fst d) e"
    using 3(3) by (auto simp: res_map_eq_Inr_iff res_mapM_Inr_iff)
  have "map fst e = map fst (sort_key fst d)"
    using e(2) by (induction rule: list_all2_induct) (auto simp: res_map_eq_Inr_iff)
  moreover have "sorted_wrt (<) (map fst (sort_key fst d))"
    using 3(2) by (auto simp: sorted_wrt_less_iff distinct_map)
  moreover have "list_all (\<lambda>kv. json_canonical (snd kv)) e"
    using e(2) by (rule list_all2_imp_list_all) (use 3(1,2) in \<open>auto simp: res_map_eq_Inr_iff list_all_iff\<close>)
  ultimately show ?case using e(1) by simp
next
  case (4 xs)
  then obtain ys where "j = JArr ys" "list_all2 (\<lambda>x y. ds_canonical_value x = Inr y) xs ys"
    by (auto simp: res_map_eq_Inr_iff res_mapM_Inr_iff)
  moreover from this(2) have "list_all json_canonical ys"
    by (rule list_all2_imp_list_all) (use 4(1,2) in \<open>auto simp: list_all_iff\<close>)
  ultimately show ?case by simp
qed (auto simp: res_bind_eq_Inr_iff)

lemma res_mapM_Inl_ex: "res_mapM f xs = Inl e \<Longrightarrow> \<exists>x\<in>set xs. f x = Inl e"
  by (induction xs) (auto simp: res_bind_eq_Inl_iff)

lemma ds_canonical_value_Inl: "ds_canonical_value v = Inl e \<Longrightarrow> e = Ds_NotUtc ''datetime''"
proof (induction v rule: ds_canonical_value.induct)
  case (3 d)
  then show ?case
    using res_mapM_Inl_ex [of "\<lambda>kv. res_map (Pair (fst kv)) (ds_canonical_value (snd kv))" "sort_key fst d" e]
    by (auto simp: res_map_eq_Inl_iff)
next
  case (4 xs)
  then show ?case using res_mapM_Inl_ex [of ds_canonical_value xs e] by (auto simp: res_map_eq_Inl_iff)
qed (auto simp: ds_validate_utc_def split: if_splits)

section \<open>Streaming and batch digests agree\<close>

definition stream_members :: "dataset_canonical_member list \<Rightarrow> ds_error + array_digest" where
  "stream_members ms = res_foldM (\<lambda>st m. res_map fst (add_canonical_member st m)) digest_init ms"

definition member_text :: "dataset_canonical_member \<Rightarrow> string" where
  "member_text m =
     (case ds_canonical_value (member_payload m) of Inr j \<Rightarrow> json_dumps j | Inl e \<Rightarrow> [])"

function py_utc :: "py_value \<Rightarrow> bool" where
  "py_utc (PyDatetime t) = is_utc t"
| "py_utc (PyList xs) = list_all py_utc xs"
| "py_utc (PyDict d) = list_all (\<lambda>kv. py_utc (snd kv)) d"
| "py_utc PyNone = True"
| "py_utc (PyBool b) = True"
| "py_utc (PyInt i) = True"
| "py_utc (PyFloat r v) = True"
| "py_utc (PyDecimal a) = True"
| "py_utc (PyStr s) = True"
  by pat_completeness auto
termination
  by (relation "measure size") (auto intro: size_list_mem size_dict_mem)

lemma ds_canonical_value_utc: "py_utc v \<Longrightarrow> \<exists>j. ds_canonical_value v = Inr j"
proof (induction v rule: ds_canonical_value.induct)
  case (3 d)
  let ?f = "\<lambda>kv. res_map (Pair (fst kv)) (ds_canonical_value (snd kv))"
  have "\<forall>kv\<in>set (sort_key fst d). \<exists>x. ?f kv = Inr x"
    using 3 by (fastforce simp: list_all_iff res_map_eq_Inr_iff)
  then obtain G where "\<forall>kv\<in>set (sort_key fst d). ?f kv = Inr (G kv)" by metis
  then have "res_mapM ?f (sort_key fst d) = Inr (map G (sort_key fst d))"
    by (intro res_mapM_cong_Inr) simp
  then show ?case by simp
next
  case (4 xs)
  then have "\<forall>x\<in>set xs. \<exists>y. ds_canonical_value x = Inr y" by (auto simp: list_all_iff)
  then obtain G where "\<forall>x\<in>set xs. ds_canonical_value x = Inr (G x)" by metis
  then have "res_mapM ds_canonical_value xs = Inr (map G xs)" by (intro res_mapM_cong_Inr) simp
  then show ?case by simp
qed (auto simp: ds_validate_utc_def)

lemma canonical_payload_hash_utc: "py_utc v \<Longrightarrow> \<exists>h. canonical_payload_hash v = Inr h"
  using ds_canonical_value_utc by (fastforce simp: canonical_payload_hash_def canonical_json_bytes_def)

lemma member_payload_canonical:
  assumes "validate_member m = Inr ()"
  shows "\<exists>j. ds_canonical_value (member_payload m) = Inr j"
proof (rule ds_canonical_value_utc)
  show "py_utc (member_payload m)"
    using assms by (auto simp: validate_member_def ds_validate_utc_def res_bind_eq_Inr_iff member_payload_def
        opt_py_def split: if_splits option.splits)
qed

lemma join_snoc:
  "join '','' (xs @ [y]) = join '','' xs @ (if xs = [] then [] else '','') @ y"
proof (induction xs)
  case (Cons x xs)
  then show ?case by (cases xs) auto
qed simp

lemma stream_members_spec:
  assumes "\<forall>m\<in>set ms. validate_member m = Inr ()"
    and "sorted_wrt (<) (map (\<lambda>m. butlast (member_sort_key m)) ms)"
  shows "\<exists>st. stream_members ms = Inr st \<and> ad_count st = length ms \<and>
    ad_bytes st = ''['' @ join '','' (map member_text ms) \<and>
    ad_previous_key st = (if ms = [] then None else Some (butlast (member_sort_key (last ms))))"
  using assms
proof (induction ms rule: rev_induct)
  case Nil
  then show ?case by (simp add: stream_members_def digest_init_def)
next
  case (snoc m ms)
  then obtain st where st: "stream_members ms = Inr st" "ad_count st = length ms"
    "ad_bytes st = ''['' @ join '','' (map member_text ms)"
    "ad_previous_key st = (if ms = [] then None else Some (butlast (member_sort_key (last ms))))"
    by (auto simp: sorted_wrt_append)
  obtain j where j: "ds_canonical_value (member_payload m) = Inr j"
    using member_payload_canonical snoc.prems by auto
  have "\<not> key_out_of_order st (butlast (member_sort_key m))"
  proof (cases "ms = []")
    case False
    then have "butlast (member_sort_key (last ms)) < butlast (member_sort_key m)"
      using snoc.prems(2) by (simp add: sorted_wrt_append)
    then show ?thesis using st(4) False by (simp add: key_out_of_order_def)
  qed (use st(4) in \<open>simp add: key_out_of_order_def\<close>)
  then have "add_canonical_member st m = Inr (\<lparr>ad_bytes = ad_bytes st @ (if ad_count st \<noteq> 0 then '','' else []) @
      member_text m, ad_count = ad_count st + 1, ad_previous_key = Some (butlast (member_sort_key m))\<rparr>, member_text m)"
    using snoc.prems(1) j
    by (simp add: add_canonical_member_def canonical_member_def digest_add_def canonical_json_bytes_def
        add_encoded_def member_text_def)
  moreover have "res_foldM f s (xs @ [x]) = res_bind (res_foldM f s xs) (\<lambda>s'. f s' x)" for f :: "array_digest \<Rightarrow> dataset_canonical_member \<Rightarrow> ds_error + array_digest" and s xs x
    by (induction xs arbitrary: s) (auto simp: res_bind_def split: sum.splits)
  ultimately show ?case
    using st by (simp add: stream_members_def join_snoc)
qed

lemma batch_members_bytes:
  assumes "\<forall>m\<in>set ms. validate_member m = Inr ()"
  shows "canonical_json_bytes (PyList (map member_payload ms)) =
    Inr (''['' @ join '','' (map member_text ms) @ '']'')"
proof -
  obtain F where F: "\<forall>m\<in>set ms. ds_canonical_value (member_payload m) = Inr (F m)"
    using assms member_payload_canonical by metis
  then have "res_mapM ds_canonical_value (map member_payload ms) = Inr (map F ms)"
    by (induction ms) auto
  moreover have "map (json_dumps \<circ> F) ms = map member_text ms"
    using F by (auto simp: member_text_def)
  ultimately show ?thesis
    by (simp only: canonical_json_bytes_def ds_canonical_value.simps res_map_Inr json_dumps.simps map_map)
qed

text \<open>Strictly ascending natural keys are already in the order of the sort key.\<close>

lemma butlast_less_imp_less:
  "length xs = length ys \<Longrightarrow> butlast xs < butlast ys \<Longrightarrow> xs < (ys :: 'a::linorder list)"
proof (induction xs ys rule: list_induct2)
  case (Cons x xs y ys)
  then show ?case by (cases xs; cases ys) auto
qed simp

lemma member_sort_key_sorted:
  assumes "sorted_wrt (<) (map (\<lambda>m. butlast (member_sort_key m)) ms)"
  shows "sort_key member_sort_key ms = ms"
proof (rule sort_key_ascending)
  have "sorted_wrt (\<lambda>m m'. member_sort_key m < member_sort_key m') ms"
    using assms unfolding sorted_wrt_map
    by (rule sorted_wrt_mono_rel [rotated]) (rule butlast_less_imp_less, simp_all add: member_sort_key_def)
  then show "sorted_wrt (<) (map member_sort_key ms)" by (simp add: sorted_wrt_map)
qed

section \<open>Projections do not overlap\<close>

lemma check_projection_disjoint:
  assumes "check_projection ident grp start fin dup overlap seen previous xs = Inr ()"
    and "\<forall>x\<in>set xs. start x \<le> fin x"
  shows "distinct (map ident xs) \<and> set (map ident xs) \<inter> set seen = {} \<and>
    (\<forall>x\<in>set xs. \<forall>e. map_of previous (grp x) = Some e \<longrightarrow> e \<le> start x) \<and>
    sorted_wrt (\<lambda>x y. grp x = grp y \<longrightarrow> fin x \<le> start y) xs"
  using assms
proof (induction xs arbitrary: seen previous)
  case (Cons x xs)
  have new: "ident x \<notin> set seen" "\<forall>e. map_of previous (grp x) = Some e \<longrightarrow> e \<le> start x"
    using Cons.prems(1) by (auto split: if_splits option.splits)
  have IH: "distinct (map ident xs) \<and> set (map ident xs) \<inter> set (ident x # seen) = {} \<and>
    (\<forall>y\<in>set xs. \<forall>e. map_of (dict_set previous (grp x) (fin x)) (grp y) = Some e \<longrightarrow> e \<le> start y) \<and>
    sorted_wrt (\<lambda>x y. grp x = grp y \<longrightarrow> fin x \<le> start y) xs"
    using Cons.prems by (intro Cons.IH) (auto split: if_splits)
  have later: "\<forall>y\<in>set xs. grp x = grp y \<longrightarrow> fin x \<le> start y" using IH by simp
  have "\<forall>y\<in>set xs. \<forall>e. map_of previous (grp y) = Some e \<longrightarrow> e \<le> start y"
  proof (intro ballI allI impI)
    fix y e assume y: "y \<in> set xs" and e: "map_of previous (grp y) = Some e"
    show "e \<le> start y"
    proof (cases "grp x = grp y")
      case True
      then have "e \<le> start x" "start x \<le> fin x" "fin x \<le> start y" using new(2) e later y Cons.prems(2) by auto
      then show ?thesis by simp
    next
      case False
      then show ?thesis using IH y e by simp
    qed
  qed
  then show ?case using IH new later by auto
qed simp

lemma validate_coverage_segment_range:
  "validate_coverage_segment c = Inr () \<Longrightarrow> instant (dcv_range_start_at c) < instant (dcv_range_end_at c)"
  by (auto simp: validate_coverage_segment_def res_bind_eq_Inr_iff split: if_splits)

lemma validate_market_status_range:
  assumes "validate_market_status s = Inr ()" "dms_valid_to s = Some t"
  shows "instant (dms_valid_from s) < instant t"
proof -
  have "(if instant t \<le> instant (dms_valid_from s) then Inl Ds_StatusRange else Inr ()) = (Inr () :: ds_error + unit)"
    using assms unfolding validate_market_status_def by (auto simp: res_bind_eq_Inr_iff split: if_splits)
  then show ?thesis by (simp split: if_splits)
qed

lemma res_mapM_unit: "res_mapM f xs = Inr us \<Longrightarrow> x \<in> set xs \<Longrightarrow> f x = Inr ()"
  by (induction xs arbitrary: us) (auto simp: res_bind_eq_Inr_iff)

lemma sorted_wrt_pair:
  "sorted_wrt R xs \<Longrightarrow> x \<in> set xs \<Longrightarrow> y \<in> set xs \<Longrightarrow> x \<noteq> y \<Longrightarrow> R x y \<or> R y x"
  by (induction xs) auto

lemma canonical_dataset_hashes_Inr:
  assumes "canonical_dataset_hashes spec members statuses coverage = Inr h"
  shows "validate_specification spec = Inr ()"
    and "\<forall>m\<in>set members. validate_member m = Inr ()"
    and "\<forall>s\<in>set statuses. validate_market_status s = Inr ()"
    and "\<forall>c\<in>set coverage. validate_coverage_segment c = Inr ()"
    and "validate_status_projection (sort_key status_sort_key statuses) = Inr ()"
    and "validate_coverage_projection (sort_key coverage_sort_key coverage) = Inr ()"
    and "canonical_payload_hash (PyList (map member_payload (sort_key member_sort_key members))) = Inr (dh_manifest_hash h)"
    and "distinct (map member_natural_key members)"
proof -
  have "distinct (map member_natural_key (sort_key member_sort_key members))"
    using assms
    by (intro card_distinct) (auto simp: canonical_dataset_hashes_def Let_def res_bind_eq_Inr_iff split: if_splits)
  then show "distinct (map member_natural_key members)" by (simp add: distinct_map)
qed (use assms in \<open>auto simp: canonical_dataset_hashes_def Let_def res_bind_eq_Inr_iff
      dest: res_mapM_unit split: if_splits\<close>)

section \<open>Properties\<close>



text \<open>C30. 
  Streaming agrees with batch: whenever the hashes of a dataset are computed from members given
  in ascending natural-key order, feeding the same members one by one to the incremental array
  digest succeeds, counts them, and ends in the same manifest hash.
\<close>

theorem stream_digest_matches_manifest:
  assumes "canonical_dataset_hashes spec members statuses coverage = Inr h"
    and "sorted_wrt (<) (map (\<lambda>m. butlast (member_sort_key m)) members)"
  shows "\<exists>st. stream_members members = Inr st \<and> ad_count st = length members \<and>
    digest_hexdigest st = dh_manifest_hash h"
proof -
  note valid = canonical_dataset_hashes_Inr(2) [OF assms(1)]
  obtain st where st: "stream_members members = Inr st" "ad_count st = length members"
    "ad_bytes st = ''['' @ join '','' (map member_text members)"
    using stream_members_spec [OF valid assms(2)] by blast
  have "canonical_payload_hash (PyList (map member_payload members)) = Inr (dh_manifest_hash h)"
    using canonical_dataset_hashes_Inr(7) [OF assms(1)] member_sort_key_sorted [OF assms(2)] by simp
  then have "digest_hexdigest st = dh_manifest_hash h"
    using st(3) batch_members_bytes [OF valid] by (simp add: canonical_payload_hash_def digest_hexdigest_def)
  then show ?thesis using st by blast
qed

definition example_hash :: string where "example_hash = replicate 64 (CHR ''a'')"

definition example_spec :: dataset_canonical_specification where
  "example_spec =
     \<lparr>dcs_schema_version = ''v1'', dcs_as_of = utc 400, dcs_input_start_at = utc 100,
      dcs_output_start_at = utc 200, dcs_end_at = utc 300,
      dcs_series = [\<lparr>dsr_instrument_id = 1, dsr_exchange = ''upbit'', dsr_market_code = ''KRW-BTC'',
        dsr_data_kind = ''candle'', dsr_unit = Some ''1m'', dsr_definition_set_hash = None,
        dsr_calculation_version = None\<rparr>],
      dcs_fill_policy = ''none'', dcs_missing_policy = ''fail'', dcs_ordering_policy = ''natural''\<rparr>"

definition example_member :: "string \<Rightarrow> dataset_canonical_member" where
  "example_member market =
     \<lparr>dcm_data_kind = ''candle'', dcm_exchange = ''upbit'', dcm_market_code = market,
      dcm_unit = Some ''1m'', dcm_occurred_at = utc 200, dcm_knowledge_at = utc 250,
      dcm_source_as_of = utc 250, dcm_content_hash = example_hash, dcm_quality = ''available'',
      dcm_calculation_version = ''v2'', dcm_definition_hash = None, dcm_source_ref_id = 9\<rparr>"

definition example_segment :: "int \<Rightarrow> int \<Rightarrow> dataset_coverage_segment" where
  "example_segment a b =
     \<lparr>dcv_data_kind = ''candle'', dcv_exchange = ''upbit'', dcv_market_code = ''KRW-BTC'',
      dcv_unit = Some ''1m'', dcv_definition_set_hash = None, dcv_calculation_version = ''v2'',
      dcv_range_start_at = utc a, dcv_range_end_at = utc b, dcv_knowledge_at = utc 250,
      dcv_status = ''available'', dcv_observed_count = 1, dcv_expected_count = 1,
      dcv_evidence_hash = example_hash, dcv_source_ref_id = None\<rparr>"

lemma example_hash_valid: "ds_validate_hash example_hash name = Inr ()"
  by (simp add: ds_validate_hash_def example_hash_def HEX_DIGITS_def list_all_iff)

lemma example_dataset_hashes:
  "\<exists>h. canonical_dataset_hashes example_spec [example_member ''KRW-BTC'', example_member ''KRW-ETH''] []
     [example_segment 200 250, example_segment 250 300] = Inr h"
proof -
  let ?ms = "[example_member ''KRW-BTC'', example_member ''KRW-ETH'']"
  let ?cs = "[example_segment 200 250, example_segment 250 300]"
  have spec: "validate_specification example_spec = Inr ()"
    by (simp add: validate_specification_def example_spec_def ds_validate_utc_def DATASET_KINDS_def
        validate_dataset_policies_def FILL_POLICIES_def MISSING_POLICIES_def)
  have ms: "res_mapM validate_member ?ms = Inr [(), ()]"
    by (simp add: validate_member_def example_member_def ds_validate_utc_def example_hash_valid
        DATASET_KINDS_def QUALITIES_def)
  have order: "sort_key member_sort_key ?ms = ?ms" "map member_natural_key ?ms \<noteq> []"
    "member_natural_key (example_member ''KRW-BTC'') \<noteq> member_natural_key (example_member ''KRW-ETH'')"
    by (simp_all add: member_sort_key_def example_member_def member_natural_key_def)
  have cs: "res_mapM validate_coverage_segment ?cs = Inr [(), ()]"
    by (simp add: validate_coverage_segment_def example_segment_def ds_validate_utc_def example_hash_valid
        QUALITIES_def)
  have corder: "sort_key coverage_sort_key ?cs = ?cs"
    by (simp add: coverage_sort_key_def) code_simp
  have cov: "validate_coverage_projection ?cs = Inr ()"
    by code_simp
  have utc: "py_utc (canonical_specification example_spec)" "py_utc (PyList (map member_payload ?ms))"
    "py_utc (PyList [])" "py_utc (PyList (map coverage_payload ?cs))"
    by (auto simp: canonical_specification_def example_spec_def member_payload_def example_member_def
        coverage_payload_def example_segment_def opt_py_def list_all_iff series_payload_def)
  obtain h1 h2 h3 h4 where h: "canonical_payload_hash (canonical_specification example_spec) = Inr h1"
    "canonical_payload_hash (PyList (map member_payload ?ms)) = Inr h2"
    "canonical_payload_hash (PyList []) = Inr h3"
    "canonical_payload_hash (PyList (map coverage_payload ?cs)) = Inr h4"
    using utc canonical_payload_hash_utc by metis
  obtain h5 where h5: "canonical_payload_hash (PyDict
         [(''selectionHash'', PyStr h1), (''manifestHash'', PyStr h2),
          (''marketStatusHash'', PyStr h3), (''coverageHash'', PyStr h4)]) = Inr h5"
    using canonical_payload_hash_utc by fastforce
  have status: "sort_key status_sort_key [] = []" "res_mapM validate_market_status [] = Inr []"
    "validate_status_projection [] = Inr ()"
    by (simp_all add: validate_status_projection_def)
  have dist: "distinct (map member_natural_key ?ms)"
    using order(3) by simp
  show ?thesis
    unfolding canonical_dataset_hashes_def Let_def spec ms order(1) cs corder cov status list.map(1)[of status_payload] h
    using dist h5 by simp
qed

theorem stream_digest_matches_manifest_witness:
  "\<exists>h st. canonical_dataset_hashes example_spec [example_member ''KRW-BTC'', example_member ''KRW-ETH''] []
      [example_segment 200 250, example_segment 250 300] = Inr h \<and>
    stream_members [example_member ''KRW-BTC'', example_member ''KRW-ETH''] = Inr st \<and>
    ad_count st = 2 \<and> digest_hexdigest st = dh_manifest_hash h"
proof -
  obtain h where h: "canonical_dataset_hashes example_spec [example_member ''KRW-BTC'', example_member ''KRW-ETH''] []
      [example_segment 200 250, example_segment 250 300] = Inr h"
    using example_dataset_hashes by blast
  have "sorted_wrt (<) (map (\<lambda>m. butlast (member_sort_key m)) [example_member ''KRW-BTC'', example_member ''KRW-ETH''])"
    by (simp add: member_sort_key_def example_member_def)
  from stream_digest_matches_manifest [OF h this] show ?thesis using h by auto
qed

text \<open>
  A dataset that gets hashes has consistent projections: its members have distinct natural
  keys, and two different coverage segments of one series never overlap.
\<close>

theorem dataset_projections_disjoint:
  assumes "canonical_dataset_hashes spec members statuses coverage = Inr h"
  shows "distinct (map member_natural_key members) \<and>
    (\<forall>c\<in>set coverage. \<forall>d\<in>set coverage. c \<noteq> d \<and> coverage_series c = coverage_series d \<longrightarrow>
       instant (dcv_range_end_at c) \<le> instant (dcv_range_start_at d) \<or>
       instant (dcv_range_end_at d) \<le> instant (dcv_range_start_at c)) \<and>
    ((\<forall>s\<in>set statuses. instant (dms_valid_from s) \<le> DATETIME_MAX) \<longrightarrow>
     (\<forall>s\<in>set statuses. \<forall>t\<in>set statuses. s \<noteq> t \<and> status_market s = status_market t \<longrightarrow>
       status_end s \<le> instant (dms_valid_from t) \<or> status_end t \<le> instant (dms_valid_from s)))"
proof (intro conjI impI)
  note I = canonical_dataset_hashes_Inr [OF assms]
  show "distinct (map member_natural_key members)" by (rule I(8))
  let ?cs = "sort_key coverage_sort_key coverage"
  have "\<forall>c\<in>set ?cs. instant (dcv_range_start_at c) \<le> instant (dcv_range_end_at c)"
    using I(4) validate_coverage_segment_range by (simp add: less_imp_le)
  then have "sorted_wrt (\<lambda>x y. coverage_series x = coverage_series y \<longrightarrow>
      instant (dcv_range_end_at x) \<le> instant (dcv_range_start_at y)) ?cs"
    using check_projection_disjoint [OF I(6) [unfolded validate_coverage_projection_def]] by simp
  from sorted_wrt_pair [OF this]
  show "\<forall>c\<in>set coverage. \<forall>d\<in>set coverage. c \<noteq> d \<and> coverage_series c = coverage_series d \<longrightarrow>
       instant (dcv_range_end_at c) \<le> instant (dcv_range_start_at d) \<or>
       instant (dcv_range_end_at d) \<le> instant (dcv_range_start_at c)"
    by (metis set_sort)
  let ?ss = "sort_key status_sort_key statuses"
  assume "\<forall>s\<in>set statuses. instant (dms_valid_from s) \<le> DATETIME_MAX"
  then have "\<forall>s\<in>set ?ss. instant (dms_valid_from s) \<le> status_end s"
    using I(3) validate_market_status_range by (auto simp: status_end_def less_imp_le split: option.splits)
  then have "sorted_wrt (\<lambda>x y. status_market x = status_market y \<longrightarrow>
      status_end x \<le> instant (dms_valid_from y)) ?ss"
    using check_projection_disjoint [OF I(5) [unfolded validate_status_projection_def]] by simp
  from sorted_wrt_pair [OF this]
  show "\<forall>s\<in>set statuses. \<forall>t\<in>set statuses. s \<noteq> t \<and> status_market s = status_market t \<longrightarrow>
       status_end s \<le> instant (dms_valid_from t) \<or> status_end t \<le> instant (dms_valid_from s)"
    by (metis set_sort)
qed

theorem dataset_projections_disjoint_witness:
  "instant (dcv_range_end_at (example_segment 200 250)) \<le> instant (dcv_range_start_at (example_segment 250 300)) \<or>
   instant (dcv_range_end_at (example_segment 250 300)) \<le> instant (dcv_range_start_at (example_segment 200 250))"
proof -
  obtain h where h: "canonical_dataset_hashes example_spec [example_member ''KRW-BTC'', example_member ''KRW-ETH''] []
      [example_segment 200 250, example_segment 250 300] = Inr h"
    using example_dataset_hashes by blast
  have "example_segment 200 250 \<noteq> example_segment 250 300"
    "coverage_series (example_segment 200 250) = coverage_series (example_segment 250 300)"
    by (simp_all add: example_segment_def coverage_series_def utc_def)
  then show ?thesis using dataset_projections_disjoint [OF h] by simp
qed

end
