(* ===== verification/Backtest_Engine.thy ===== *)
theory Backtest_Engine
  imports Dataset_Versions
begin

text \<open>
  The deterministic candle backtest of \<^verbatim>\<open>backtest_engine.py\<close>: candles and precomputed signals are
  replayed in knowledge order, each signal is executed on the first available candle known after
  its latency, fills are capped by a share of the candle volume, and the whole run is identified
  by an input hash and a result hash. Numeric fields are Python values, because the code checks at
  run time that they are \<^verbatim>\<open>Decimal\<close>; arithmetic is \<^verbatim>\<open>Decimal\<close> arithmetic at the default
  precision. Infinities and NaNs are outside the decimals of the model.
\<close>

section \<open>Data\<close>

datatype bt_error =
    Bt_MixedTimezones
  | Bt_Canonical ds_error
  | Bt_Decimal dec_error
  | Bt_Overflow

definition lift_ds :: "ds_error + 'a \<Rightarrow> bt_error + 'a" where
  "lift_ds r = (case r of Inl e \<Rightarrow> Inl (Bt_Canonical e) | Inr x \<Rightarrow> Inr x)"

definition lift_dec :: "dec_error + 'a \<Rightarrow> bt_error + 'a" where
  "lift_dec r = (case r of Inl e \<Rightarrow> Inl (Bt_Decimal e) | Inr x \<Rightarrow> Inr x)"

datatype backtest_side = Buy | Sell

datatype backtest_run_status = Succeeded | Failed

datatype backtest_trade_status = Filled | Partially_filled | Rejected

record execution_model =
  ex_fee_rate :: py_value
  ex_slippage_bps :: py_value
  ex_latency_seconds :: int
  ex_max_participation_rate :: py_value

record backtest_engine_spec =
  es_dataset_version_id :: int
  es_dataset_content_hash :: string
  es_strategy_version_id :: int
  es_strategy_graph_hash :: string
  es_engine_version :: string
  es_parameter_hash :: string
  es_seed :: int
  es_initial_cash :: py_value
  es_execution :: execution_model

record backtest_candle_event =
  ce_instrument_id :: int
  ce_market_code :: string
  ce_occurred_at :: datetime
  ce_knowledge_at :: datetime
  ce_stable_sequence :: string
  ce_open :: py_value
  ce_high :: py_value
  ce_low :: py_value
  ce_close :: py_value
  ce_volume :: py_value
  ce_quality :: string
  ce_content_hash :: string
  ce_source_priority :: int

record backtest_signal =
  sg_occurred_at :: datetime
  sg_knowledge_at :: datetime
  sg_side :: backtest_side
  sg_base_quantity :: py_value

record backtest_trade =
  tr_side :: backtest_side
  tr_requested_quantity :: dec
  tr_filled_quantity :: dec
  tr_remaining_quantity :: dec
  tr_fill_price :: dec
  tr_fee_paid :: dec
  tr_status :: backtest_trade_status
  tr_occurred_at :: datetime
  tr_knowledge_at :: datetime

record backtest_equity_point =
  ep_occurred_at :: datetime
  ep_knowledge_at :: datetime
  ep_cash :: dec
  ep_base_position :: dec
  ep_equity :: dec

record backtest_result =
  br_status :: backtest_run_status
  br_input_hash :: string
  br_result_hash :: string
  br_assumptions :: "string list"
  br_replay_events :: "backtest_candle_event list"
  br_trades :: "backtest_trade list"
  br_equity_points :: "backtest_equity_point list"
  br_metrics :: "(string \<times> dec) list"
  br_golden_replay_signals :: "backtest_signal list"
  br_errors :: "string list"

record walk_forward_fold =
  wf_fold_index :: int
  wf_train_start_at :: datetime
  wf_train_end_at :: datetime
  wf_test_start_at :: datetime
  wf_test_end_at :: datetime
  wf_metrics :: "(string \<times> dec) list"

record sensitivity_point =
  sp_parameter_name :: string
  sp_parameter_value :: py_value
  sp_metrics :: "(string \<times> dec) list"

record bootstrap_sample =
  bo_sample_index :: int
  bo_seed :: int
  bo_metrics :: "(string \<times> dec) list"

abbreviation dec_plus :: "dec \<Rightarrow> dec \<Rightarrow> dec" where "dec_plus \<equiv> dec_add PREC_DEFAULT"
abbreviation dec_minus :: "dec \<Rightarrow> dec \<Rightarrow> dec" where "dec_minus \<equiv> dec_sub PREC_DEFAULT"
abbreviation dec_times :: "dec \<Rightarrow> dec \<Rightarrow> dec" where "dec_times \<equiv> dec_mul PREC_DEFAULT"

definition ASSUMPTIONS :: "string list" where
  "ASSUMPTIONS = [''orderbook_absent_uses_candle_close'', ''partial_fill_by_candle_volume_participation'']"

definition BPS_DENOMINATOR :: dec where "BPS_DENOMINATOR = Dec False 10000 0"

section \<open>Payloads and hashes\<close>

definition side_text :: "backtest_side \<Rightarrow> string" where
  "side_text s = (case s of Buy \<Rightarrow> ''buy'' | Sell \<Rightarrow> ''sell'')"

definition run_status_text :: "backtest_run_status \<Rightarrow> string" where
  "run_status_text s = (case s of Succeeded \<Rightarrow> ''succeeded'' | Failed \<Rightarrow> ''failed'')"

definition trade_status_text :: "backtest_trade_status \<Rightarrow> string" where
  "trade_status_text s =
     (case s of Filled \<Rightarrow> ''filled'' | Partially_filled \<Rightarrow> ''partially_filled'' | Rejected \<Rightarrow> ''rejected'')"

definition spec_payload :: "backtest_engine_spec \<Rightarrow> py_value" where
  "spec_payload s = PyDict
     [(''datasetVersionId'', PyInt (es_dataset_version_id s)),
      (''datasetContentHash'', PyStr (es_dataset_content_hash s)),
      (''strategyVersionId'', PyInt (es_strategy_version_id s)),
      (''strategyGraphHash'', PyStr (es_strategy_graph_hash s)),
      (''engineVersion'', PyStr (es_engine_version s)),
      (''parameterHash'', PyStr (es_parameter_hash s)),
      (''seed'', PyInt (es_seed s)),
      (''initialCash'', es_initial_cash s),
      (''execution'', PyDict
         [(''fee_rate'', ex_fee_rate (es_execution s)),
          (''slippage_bps'', ex_slippage_bps (es_execution s)),
          (''latency_seconds'', PyInt (ex_latency_seconds (es_execution s))),
          (''max_participation_rate'', ex_max_participation_rate (es_execution s))])]"

definition event_payload :: "backtest_candle_event \<Rightarrow> py_value" where
  "event_payload e = PyDict
     [(''instrumentId'', PyInt (ce_instrument_id e)),
      (''marketCode'', PyStr (ce_market_code e)),
      (''occurredAt'', PyDatetime (ce_occurred_at e)),
      (''knowledgeAt'', PyDatetime (ce_knowledge_at e)),
      (''stableSequence'', PyStr (ce_stable_sequence e)),
      (''open'', ce_open e),
      (''high'', ce_high e),
      (''low'', ce_low e),
      (''close'', ce_close e),
      (''volume'', ce_volume e),
      (''quality'', PyStr (ce_quality e)),
      (''contentHash'', PyStr (ce_content_hash e)),
      (''sourcePriority'', PyInt (ce_source_priority e))]"

definition signal_payload :: "nat \<times> backtest_signal \<Rightarrow> py_value" where
  "signal_payload x = (case x of (index, s) \<Rightarrow> PyDict
     [(''sequence'', PyInt (int index)),
      (''occurredAt'', PyDatetime (sg_occurred_at s)),
      (''knowledgeAt'', PyDatetime (sg_knowledge_at s)),
      (''side'', PyStr (side_text (sg_side s))),
      (''baseQuantity'', sg_base_quantity s)])"

definition trade_payload :: "nat \<times> backtest_trade \<Rightarrow> py_value" where
  "trade_payload x = (case x of (index, t) \<Rightarrow> PyDict
     [(''sequence'', PyInt (int index)),
      (''side'', PyStr (side_text (tr_side t))),
      (''requestedQuantity'', PyDecimal (tr_requested_quantity t)),
      (''filledQuantity'', PyDecimal (tr_filled_quantity t)),
      (''remainingQuantity'', PyDecimal (tr_remaining_quantity t)),
      (''fillPrice'', PyDecimal (tr_fill_price t)),
      (''feePaid'', PyDecimal (tr_fee_paid t)),
      (''status'', PyStr (trade_status_text (tr_status t))),
      (''occurredAt'', PyDatetime (tr_occurred_at t)),
      (''knowledgeAt'', PyDatetime (tr_knowledge_at t))])"

definition equity_payload :: "backtest_equity_point \<Rightarrow> py_value" where
  "equity_payload p = PyDict
     [(''occurredAt'', PyDatetime (ep_occurred_at p)),
      (''knowledgeAt'', PyDatetime (ep_knowledge_at p)),
      (''cash'', PyDecimal (ep_cash p)),
      (''basePosition'', PyDecimal (ep_base_position p)),
      (''equity'', PyDecimal (ep_equity p))]"

definition metrics_payload :: "(string \<times> dec) list \<Rightarrow> py_value" where
  "metrics_payload m = PyDict (map (\<lambda>(k, v). (k, PyDecimal v)) (sort_key fst m))"

definition str_list :: "string list \<Rightarrow> py_value" where
  "str_list xs = PyList (map PyStr xs)"

definition input_payload ::
  "backtest_engine_spec \<Rightarrow> backtest_candle_event list \<Rightarrow> backtest_signal list \<Rightarrow> string list \<Rightarrow> py_value" where
  "input_payload spec replay_events signals assumptions = PyDict
     [(''spec'', spec_payload spec),
      (''events'', PyList (map event_payload replay_events)),
      (''signals'', PyList (map signal_payload (enumerate 0 signals))),
      (''assumptions'', str_list assumptions)]"

definition input_hash ::
  "backtest_engine_spec \<Rightarrow> backtest_candle_event list \<Rightarrow> backtest_signal list \<Rightarrow> string list \<Rightarrow> bt_error + string" where
  "input_hash spec replay_events signals assumptions =
     lift_ds (canonical_payload_hash (input_payload spec replay_events signals assumptions))"

definition invalid_input_hash :: "backtest_engine_spec \<Rightarrow> string \<Rightarrow> bt_error + string" where
  "invalid_input_hash spec err =
     lift_ds (canonical_payload_hash (PyDict
       [(''engineVersion'', PyStr (es_engine_version spec)),
        (''datasetVersionId'', PyInt (es_dataset_version_id spec)),
        (''strategyVersionId'', PyInt (es_strategy_version_id spec)),
        (''error'', PyStr err)]))"

definition result_payload ::
  "backtest_run_status \<Rightarrow> string \<Rightarrow> string list \<Rightarrow> backtest_trade list \<Rightarrow> backtest_equity_point list \<Rightarrow>
     (string \<times> dec) list \<Rightarrow> backtest_signal list \<Rightarrow> string list \<Rightarrow> py_value" where
  "result_payload status inh assumptions trades equity_points metrics signals errors = PyDict
     [(''status'', PyStr (run_status_text status)),
      (''inputHash'', PyStr inh),
      (''assumptions'', str_list assumptions),
      (''trades'', PyList (map trade_payload (enumerate 0 trades))),
      (''equityPoints'', PyList (map equity_payload equity_points)),
      (''metrics'', metrics_payload metrics),
      (''goldenReplaySignals'', PyList (map signal_payload (enumerate 0 signals))),
      (''errors'', str_list errors)]"

definition bt_result ::
  "backtest_run_status \<Rightarrow> string \<Rightarrow> string list \<Rightarrow> backtest_candle_event list \<Rightarrow> backtest_trade list \<Rightarrow>
     backtest_equity_point list \<Rightarrow> (string \<times> dec) list \<Rightarrow> backtest_signal list \<Rightarrow> string list \<Rightarrow>
     bt_error + backtest_result" where
  "bt_result status inh assumptions replay_events trades equity_points metrics signals errors =
     res_map (\<lambda>result_hash.
        \<lparr>br_status = status, br_input_hash = inh, br_result_hash = result_hash,
         br_assumptions = assumptions, br_replay_events = replay_events, br_trades = trades,
         br_equity_points = equity_points, br_metrics = metrics,
         br_golden_replay_signals = signals, br_errors = errors\<rparr>)
       (lift_ds (canonical_payload_hash
          (result_payload status inh assumptions trades equity_points metrics signals errors)))"

section \<open>Replay\<close>

text \<open>Sorting compares every pair of neighbours of its result, so a list that mixes naive and aware
  timestamps raises \<^verbatim>\<open>TypeError\<close>.\<close>

definition event_sort_key :: "backtest_candle_event \<Rightarrow> int \<times> int \<times> string" where
  "event_sort_key e = (instant (ce_knowledge_at e), ce_source_priority e, ce_stable_sequence e)"

definition sorted_events :: "backtest_candle_event list \<Rightarrow> bt_error + backtest_candle_event list" where
  "sorted_events candles =
     (if list_ex (\<lambda>e. is_aware (ce_knowledge_at e)) candles \<and>
         list_ex (\<lambda>e. \<not> is_aware (ce_knowledge_at e)) candles
      then Inl Bt_MixedTimezones
      else Inr (sort_key event_sort_key candles))"

definition signal_sort_key :: "nat \<times> backtest_signal \<Rightarrow> int \<times> int \<times> nat" where
  "signal_sort_key x =
     (case x of (index, s) \<Rightarrow> (instant (sg_knowledge_at s), instant (sg_occurred_at s), index))"

definition is_look_ahead_signal :: "backtest_signal \<Rightarrow> bool" where
  "is_look_ahead_signal s \<longleftrightarrow> instant (sg_knowledge_at s) < instant (sg_occurred_at s)"

definition is_decimal :: "py_value \<Rightarrow> bool" where
  "is_decimal v = (case v of PyDecimal _ \<Rightarrow> True | _ \<Rightarrow> False)"

definition validated_values ::
  "backtest_engine_spec \<Rightarrow> backtest_candle_event list \<Rightarrow> backtest_signal list \<Rightarrow> py_value list" where
  "validated_values spec replay_events signals =
     [es_initial_cash spec, ex_fee_rate (es_execution spec), ex_slippage_bps (es_execution spec),
      ex_max_participation_rate (es_execution spec)] @
     concat (map (\<lambda>e. [ce_open e, ce_high e, ce_low e, ce_close e, ce_volume e]) replay_events) @
     map sg_base_quantity signals"

definition decimal_validation_error ::
  "backtest_engine_spec \<Rightarrow> backtest_candle_event list \<Rightarrow> backtest_signal list \<Rightarrow> string option" where
  "decimal_validation_error spec replay_events signals =
     (if list_ex (\<lambda>v. \<not> is_decimal v) (validated_values spec replay_events signals)
      then Some ''decimal_required'' else None)"

text \<open>The decimal in a field, read only after the check above.\<close>

definition dec_of :: "py_value \<Rightarrow> dec" where
  "dec_of v = (case v of PyDecimal a \<Rightarrow> a | _ \<Rightarrow> dec_zero)"

text \<open>
  \<^verbatim>\<open>signal.knowledge_at + timedelta(seconds=latency)\<close> raises \<^verbatim>\<open>OverflowError\<close> when its wall time leaves the
  years 1 to 9999 (a delay beyond the range of \<^verbatim>\<open>timedelta\<close> does so a fortiori).
\<close>

definition target_overflows :: "backtest_engine_spec \<Rightarrow> backtest_signal \<Rightarrow> bool" where
  "target_overflows spec signal =
     (let t = wall (sg_knowledge_at signal) + ex_latency_seconds (es_execution spec) * second_us
      in t < 0 \<or> 3652059 * day_us \<le> t)"

definition execution_event ::
  "backtest_engine_spec \<Rightarrow> backtest_candle_event list \<Rightarrow> backtest_signal \<Rightarrow> backtest_candle_event option" where
  "execution_event spec replay_events signal =
     (let target_knowledge_at =
        instant (sg_knowledge_at signal) + ex_latency_seconds (es_execution spec) * second_us in
      find (\<lambda>e. ce_quality e = ''available'' \<and> target_knowledge_at \<le> instant (ce_knowledge_at e))
        replay_events)"

definition fill_price :: "execution_model \<Rightarrow> dec \<Rightarrow> backtest_side \<Rightarrow> bt_error + dec" where
  "fill_price execution candle_close side =
     res_map (\<lambda>slippage_ratio.
        if side = Buy then dec_times candle_close (dec_plus (dec_of_int 1) slippage_ratio)
        else dec_times candle_close (dec_minus (dec_of_int 1) slippage_ratio))
       (lift_dec (dec_div PREC_DEFAULT (dec_of (ex_slippage_bps execution)) BPS_DENOMINATOR))"

record bt_state =
  st_cash :: dec
  st_position :: dec
  st_trades :: "backtest_trade list"
  st_points :: "backtest_equity_point list"

definition make_trade ::
  "backtest_engine_spec \<Rightarrow> backtest_signal \<Rightarrow> backtest_candle_event \<Rightarrow> dec \<Rightarrow> backtest_trade" where
  "make_trade spec signal event price =
     (let requested = dec_of (sg_base_quantity signal);
          filled = dec_min requested
            (dec_times (dec_of (ce_volume event)) (dec_of (ex_max_participation_rate (es_execution spec))));
          remaining = dec_minus requested filled;
          notional = dec_times price filled
      in \<lparr>tr_side = sg_side signal, tr_requested_quantity = requested, tr_filled_quantity = filled,
          tr_remaining_quantity = remaining, tr_fill_price = price,
          tr_fee_paid = dec_times notional (dec_of (ex_fee_rate (es_execution spec))),
          tr_status = (if dec_eq remaining dec_zero then Filled else Partially_filled),
          tr_occurred_at = ce_occurred_at event, tr_knowledge_at = ce_knowledge_at event\<rparr>)"

definition apply_trade :: "bt_state \<Rightarrow> backtest_trade \<Rightarrow> dec \<Rightarrow> bt_state" where
  "apply_trade st trade close_price =
     (let notional = dec_times (tr_fill_price trade) (tr_filled_quantity trade);
          cash = (if tr_side trade = Buy then dec_minus (st_cash st) (dec_plus notional (tr_fee_paid trade))
                  else dec_plus (st_cash st) (dec_minus notional (tr_fee_paid trade)));
          position = (if tr_side trade = Buy then dec_plus (st_position st) (tr_filled_quantity trade)
                      else dec_minus (st_position st) (tr_filled_quantity trade))
      in \<lparr>st_cash = cash, st_position = position,
          st_trades = st_trades st @ [trade],
          st_points = st_points st @
            [\<lparr>ep_occurred_at = tr_occurred_at trade, ep_knowledge_at = tr_knowledge_at trade,
              ep_cash = cash, ep_base_position = position,
              ep_equity = dec_plus cash (dec_times position close_price)\<rparr>]\<rparr>)"

definition signal_step ::
  "backtest_engine_spec \<Rightarrow> backtest_candle_event list \<Rightarrow> bt_state \<Rightarrow> nat \<times> backtest_signal \<Rightarrow> bt_error + bt_state" where
  "signal_step spec replay_events st x =
     (if target_overflows spec (snd x) then Inl Bt_Overflow
      else case execution_event spec replay_events (snd x) of
        None \<Rightarrow> Inr st
      | Some event \<Rightarrow>
          res_map (\<lambda>price. apply_trade st (make_trade spec (snd x) event price) (dec_of (ce_close event)))
            (fill_price (es_execution spec) (dec_of (ce_close event)) (sg_side (snd x))))"

definition final_equity ::
  "backtest_engine_spec \<Rightarrow> backtest_candle_event list \<Rightarrow> dec \<Rightarrow> dec \<Rightarrow> dec" where
  "final_equity spec replay_events cash base_position =
     (if replay_events = [] then dec_of (es_initial_cash spec)
      else dec_plus cash (dec_times base_position (dec_of (ce_close (last replay_events)))))"

definition initial_state :: "backtest_engine_spec \<Rightarrow> bt_state" where
  "initial_state spec =
     \<lparr>st_cash = dec_of (es_initial_cash spec), st_position = dec_zero, st_trades = [], st_points = []\<rparr>"

definition replay_signals ::
  "backtest_engine_spec \<Rightarrow> backtest_candle_event list \<Rightarrow> backtest_signal list \<Rightarrow> bt_error + bt_state" where
  "replay_signals spec replay_events signals =
     res_foldM (signal_step spec replay_events) (initial_state spec)
       (sort_key signal_sort_key (enumerate 0 signals))"

definition run_candle_backtest ::
  "backtest_engine_spec \<Rightarrow> backtest_candle_event list \<Rightarrow> backtest_signal list \<Rightarrow> bt_error + backtest_result" where
  "run_candle_backtest spec candles signals =
     res_bind (sorted_events candles) (\<lambda>replay_events.
     case decimal_validation_error spec replay_events signals of
       Some err \<Rightarrow>
         res_bind (invalid_input_hash spec err) (\<lambda>inh.
         bt_result Failed inh ASSUMPTIONS replay_events [] []
           [(''finalEquity'', dec_of (es_initial_cash spec))] signals [err])
     | None \<Rightarrow>
         res_bind (input_hash spec replay_events signals ASSUMPTIONS) (\<lambda>inh.
         if list_ex is_look_ahead_signal signals
         then bt_result Failed inh ASSUMPTIONS replay_events [] []
                [(''finalEquity'', dec_of (es_initial_cash spec))] signals [''look_ahead_signal'']
         else res_bind (replay_signals spec replay_events signals) (\<lambda>st.
              bt_result Succeeded inh ASSUMPTIONS replay_events (st_trades st) (st_points st)
                [(''finalEquity'', final_equity spec replay_events (st_cash st) (st_position st))]
                signals [])))"

section \<open>Performance artifacts\<close>

definition walk_forward_payload :: "walk_forward_fold \<Rightarrow> py_value" where
  "walk_forward_payload f = PyDict
     [(''foldIndex'', PyInt (wf_fold_index f)),
      (''trainStartAt'', PyDatetime (wf_train_start_at f)),
      (''trainEndAt'', PyDatetime (wf_train_end_at f)),
      (''testStartAt'', PyDatetime (wf_test_start_at f)),
      (''testEndAt'', PyDatetime (wf_test_end_at f)),
      (''metrics'', metrics_payload (wf_metrics f))]"

definition sensitivity_payload :: "sensitivity_point \<Rightarrow> py_value" where
  "sensitivity_payload p = PyDict
     [(''parameterName'', PyStr (sp_parameter_name p)),
      (''parameterValue'', sp_parameter_value p),
      (''metrics'', metrics_payload (sp_metrics p))]"

definition bootstrap_payload :: "bootstrap_sample \<Rightarrow> py_value" where
  "bootstrap_payload s = PyDict
     [(''sampleIndex'', PyInt (bo_sample_index s)),
      (''seed'', PyInt (bo_seed s)),
      (''metrics'', metrics_payload (bo_metrics s))]"

definition final_equities :: "(string \<times> dec) list list \<Rightarrow> dec list" where
  "final_equities rows = List.map_filter (\<lambda>row. map_of row ''finalEquity'') rows"

definition final_equity_summary :: "(string \<times> dec) list list \<Rightarrow> string \<Rightarrow> bt_error + py_value" where
  "final_equity_summary rows count_key =
     (let es = final_equities rows; n = (count_key, PyInt (int (length rows))) in
      case (fold_first dec_min es, fold_first dec_max es) of
        (Some lo, Some hi) \<Rightarrow>
          res_map (\<lambda>mean. PyDict
              [n, (''finalEquityMin'', PyDecimal lo), (''finalEquityMax'', PyDecimal hi),
               (''finalEquityMean'', PyDecimal mean)])
            (lift_dec (dec_div PREC_DEFAULT (foldl dec_plus dec_zero es) (dec_of_int (int (length es)))))
      | _ \<Rightarrow> Inr (PyDict [n]))"

definition store_artifact :: "string \<Rightarrow> py_value \<Rightarrow> bt_error + py_value" where
  "store_artifact artifact_type metadata =
     res_map (\<lambda>content_hash. PyDict
         [(''artifactType'', PyStr artifact_type),
          (''contentHash'', PyStr content_hash),
          (''mediaType'', PyStr ''application/json''),
          (''storageUri'', PyNone),
          (''metadata'', metadata)])
       (lift_ds (canonical_payload_hash metadata))"

definition artifact_of ::
  "backtest_result \<Rightarrow> string \<Rightarrow> string \<Rightarrow> string \<Rightarrow> string \<Rightarrow> ('a \<Rightarrow> py_value) \<Rightarrow>
     ('a \<Rightarrow> (string \<times> dec) list) \<Rightarrow> 'a list \<Rightarrow> bt_error + py_value list" where
  "artifact_of result artifact_type schema_version items_key count_key payload metrics items =
     (if items = [] then Inr []
      else res_bind (final_equity_summary (map metrics items) count_key) (\<lambda>summary.
           res_map (\<lambda>a. [a]) (store_artifact artifact_type (PyDict
             [(''schemaVersion'', PyStr schema_version),
              (''inputHash'', PyStr (br_input_hash result)),
              (''resultHash'', PyStr (br_result_hash result)),
              (items_key, PyList (map payload items)),
              (''summary'', summary)]))))"

definition sorted_sensitivity :: "sensitivity_point list \<Rightarrow> bt_error + sensitivity_point list" where
  "sorted_sensitivity points =
     res_map (\<lambda>keys. map snd (sort_key fst (zip keys points)))
       (res_mapM (\<lambda>p. res_map (Pair (sp_parameter_name p))
          (lift_ds (canonical_payload_hash (sp_parameter_value p)))) points)"

definition build_performance_artifacts ::
  "backtest_result \<Rightarrow> walk_forward_fold list \<Rightarrow> sensitivity_point list \<Rightarrow> bootstrap_sample list \<Rightarrow>
     bt_error + py_value list" where
  "build_performance_artifacts result folds points samples =
     res_bind (artifact_of result ''walk_forward_summary'' ''backtest-artifact-walk-forward-v1''
       ''folds'' ''foldCount'' walk_forward_payload wf_metrics (sort_key wf_fold_index folds)) (\<lambda>a.
     res_bind (sorted_sensitivity points) (\<lambda>sensitivity.
     res_bind (artifact_of result ''sensitivity_summary'' ''backtest-artifact-sensitivity-v1''
       ''points'' ''pointCount'' sensitivity_payload sp_metrics sensitivity) (\<lambda>b.
     res_bind (artifact_of result ''bootstrap_summary'' ''backtest-artifact-bootstrap-v1''
       ''samples'' ''sampleCount'' bootstrap_payload bo_metrics (sort_key bo_sample_index samples)) (\<lambda>c.
     Inr (a @ b @ c)))))"

section \<open>Executions\<close>

text \<open>The signals that reach a candle, in replay order, with the candle.\<close>

definition ordered_signals :: "backtest_signal list \<Rightarrow> backtest_signal list" where
  "ordered_signals signals = map snd (sort_key signal_sort_key (enumerate 0 signals))"

definition executions ::
  "backtest_engine_spec \<Rightarrow> backtest_candle_event list \<Rightarrow> backtest_signal list \<Rightarrow>
     (backtest_signal \<times> backtest_candle_event) list" where
  "executions spec evs sigs =
     List.map_filter (\<lambda>s. map_option (Pair s) (execution_event spec evs s)) sigs"

definition slippage_ratio :: "backtest_engine_spec \<Rightarrow> dec" where
  "slippage_ratio spec =
     (case dec_div PREC_DEFAULT (dec_of (ex_slippage_bps (es_execution spec))) BPS_DENOMINATOR of
        Inr r \<Rightarrow> r | Inl _ \<Rightarrow> dec_zero)"

definition execution_price :: "backtest_engine_spec \<Rightarrow> backtest_signal \<Rightarrow> backtest_candle_event \<Rightarrow> dec" where
  "execution_price spec s e =
     dec_times (dec_of (ce_close e))
       (if sg_side s = Buy then dec_plus (dec_of_int 1) (slippage_ratio spec)
        else dec_minus (dec_of_int 1) (slippage_ratio spec))"

definition execute :: "backtest_engine_spec \<Rightarrow> bt_state \<Rightarrow> backtest_signal \<times> backtest_candle_event \<Rightarrow> bt_state" where
  "execute spec st x =
     (case x of (s, e) \<Rightarrow>
        apply_trade st (make_trade spec s e (execution_price spec s e)) (dec_of (ce_close e)))"

lemma fill_price_eq:
  "fill_price (es_execution spec) (dec_of (ce_close e)) (sg_side s) = Inr (execution_price spec s e)"
proof -
  obtain r where "dec_div PREC_DEFAULT (dec_of (ex_slippage_bps (es_execution spec))) BPS_DENOMINATOR = Inr r"
    using dec_div_total [of BPS_DENOMINATOR] by (auto simp: BPS_DENOMINATOR_def)
  then show ?thesis
    by (simp add: fill_price_def execution_price_def slippage_ratio_def lift_dec_def)
qed

lemma signal_step_eq:
  "signal_step spec evs st x =
     (if target_overflows spec (snd x) then Inl Bt_Overflow
      else Inr (case execution_event spec evs (snd x) of None \<Rightarrow> st | Some e \<Rightarrow> execute spec st (snd x, e)))"
  by (simp add: signal_step_def fill_price_eq execute_def split: option.split)

lemma replay_fold:
  "res_foldM (signal_step spec evs) st xs =
     (if \<exists>x\<in>set xs. target_overflows spec (snd x) then Inl Bt_Overflow
      else Inr (foldl (execute spec) st (executions spec evs (map snd xs))))"
  by (induction xs arbitrary: st)
     (auto simp: executions_def map_filter_simps signal_step_eq split: option.split)

lemma set_ordered_signals [simp]: "set (ordered_signals sigs) = set sigs"
  by (auto simp: ordered_signals_def set_sort enumerate_eq_zip set_zip in_set_conv_nth image_def)

lemma replay_signals_eq:
  "replay_signals spec evs sigs =
     (if \<exists>s\<in>set sigs. target_overflows spec s then Inl Bt_Overflow
      else Inr (foldl (execute spec) (initial_state spec) (executions spec evs (ordered_signals sigs))))"
proof -
  have "(\<exists>x\<in>set (sort_key signal_sort_key (enumerate 0 sigs)). target_overflows spec (snd x)) \<longleftrightarrow>
      (\<exists>s\<in>set (ordered_signals sigs). target_overflows spec s)"
    by (simp add: ordered_signals_def)
  then show ?thesis by (simp add: replay_signals_def replay_fold flip: ordered_signals_def)
qed

lemma foldl_execute_trades:
  "st_trades (foldl (execute spec) st xs) =
     st_trades st @ map (\<lambda>(s, e). make_trade spec s e (execution_price spec s e)) xs"
  by (induction xs arbitrary: st) (auto simp: execute_def apply_trade_def Let_def)

lemma executions_mem:
  "(s, e) \<in> set (executions spec evs sigs) \<longleftrightarrow> s \<in> set sigs \<and> execution_event spec evs s = Some e"
  by (force simp: executions_def List.map_filter_def image_iff)

text \<open>What a successful run returns.\<close>

lemma run_succeeded:
  assumes "run_candle_backtest spec candles signals = Inr r" "br_status r = Succeeded"
  shows "br_replay_events r = sort_key event_sort_key candles"
    and "\<forall>s\<in>set signals. \<not> is_look_ahead_signal s"
    and "\<forall>v\<in>set (validated_values spec candles signals). is_decimal v"
    and "br_trades r = map (\<lambda>(s, e). make_trade spec s e (execution_price spec s e))
           (executions spec (br_replay_events r) (ordered_signals signals))"
    and "br_equity_points r = st_points (foldl (execute spec) (initial_state spec)
           (executions spec (br_replay_events r) (ordered_signals signals)))"
  using assms
  by (auto simp: run_candle_backtest_def res_bind_eq_Inr_iff sorted_events_def bt_result_def
      res_map_eq_Inr_iff replay_signals_eq foldl_execute_trades initial_state_def list_ex_iff
      decimal_validation_error_def validated_values_def split: if_splits option.splits)

text \<open>The candle that executes a signal is the earliest one available after the latency.\<close>

definition target_knowledge :: "backtest_engine_spec \<Rightarrow> backtest_signal \<Rightarrow> int" where
  "target_knowledge spec s = instant (sg_knowledge_at s) + ex_latency_seconds (es_execution spec) * second_us"

lemma execution_event_Some:
  assumes "execution_event spec (sort_key event_sort_key candles) s = Some e"
  shows "e \<in> set candles" and "ce_quality e = ''available''"
    and "target_knowledge spec s \<le> instant (ce_knowledge_at e)"
    and "\<forall>e'\<in>set candles. ce_quality e' = ''available'' \<and>
           target_knowledge spec s \<le> instant (ce_knowledge_at e') \<longrightarrow> event_sort_key e \<le> event_sort_key e'"
proof -
  let ?evs = "sort_key event_sort_key candles"
  let ?P = "\<lambda>e. ce_quality e = ''available'' \<and> target_knowledge spec s \<le> instant (ce_knowledge_at e)"
  obtain i where i: "i < length ?evs" "?P (?evs ! i)" "e = ?evs ! i" "\<forall>j<i. \<not> ?P (?evs ! j)"
    using assms by (auto simp: execution_event_def Let_def find_Some_iff target_knowledge_def)
  show "e \<in> set candles" "ce_quality e = ''available''"
    "target_knowledge spec s \<le> instant (ce_knowledge_at e)"
    using i nth_mem [OF i(1)] by simp_all
  show "\<forall>e'\<in>set candles. ?P e' \<longrightarrow> event_sort_key e \<le> event_sort_key e'"
  proof (intro ballI impI)
    fix e' assume "e' \<in> set candles" "?P e'"
    then obtain j where j: "j < length ?evs" "e' = ?evs ! j" by (metis in_set_conv_nth set_sort)
    then have "i \<le> j" using i(4) \<open>?P e'\<close> by (meson not_le)
    then have "map event_sort_key ?evs ! i \<le> map event_sort_key ?evs ! j"
      using j by (intro sorted_nth_mono) simp_all
    then show "event_sort_key e \<le> event_sort_key e'" using i j by simp
  qed
qed

lemma execution_event_None:
  assumes "execution_event spec (sort_key event_sort_key candles) s = None" "e \<in> set candles"
    "ce_quality e = ''available''"
  shows "instant (ce_knowledge_at e) < target_knowledge spec s"
  using assms by (auto simp: execution_event_def Let_def find_None_iff target_knowledge_def not_le)

section \<open>Decimal facts\<close>

lemma dec_minus_zero: "dec_val (dec_minus a b) = 0 \<longleftrightarrow> dec_val a = dec_val b"
  using rounds_zero [OF ctx28.sub_rounds, of a b] by simp

lemma slippage_rounds:
  "rounds_to PREC_DEFAULT (dec_val (dec_of (ex_slippage_bps (es_execution spec))) / 10000)
     (dec_val (slippage_ratio spec))"
proof -
  obtain r where r: "dec_div PREC_DEFAULT (dec_of (ex_slippage_bps (es_execution spec))) BPS_DENOMINATOR = Inr r"
    using dec_div_total [of BPS_DENOMINATOR] by (auto simp: BPS_DENOMINATOR_def)
  then show ?thesis
    using ctx28.div_rounds [OF r] by (simp add: slippage_ratio_def BPS_DENOMINATOR_def)
qed

text \<open>Slippage is never in the trader's favour.\<close>

lemma slippage_ratio_bounds:
  assumes "0 \<le> dec_val (dec_of (ex_slippage_bps (es_execution spec)))"
    "dec_val (dec_of (ex_slippage_bps (es_execution spec))) \<le> 10000"
  shows "0 \<le> dec_val (slippage_ratio spec)" "dec_val (slippage_ratio spec) \<le> 1"
  using assms ctx28.rounds_ge [OF slippage_rounds ctx28.zero_representable]
    ctx28.rounds_le [OF slippage_rounds representable_one] by simp_all

lemma execution_price_adverse:
  assumes slip: "0 \<le> dec_val (dec_of (ex_slippage_bps (es_execution spec)))"
      "dec_val (dec_of (ex_slippage_bps (es_execution spec))) \<le> 10000"
    and close: "0 \<le> dec_val (dec_of (ce_close e))" "fits (dec_of (ce_close e))"
  shows "if sg_side s = Buy then dec_val (dec_of (ce_close e)) \<le> dec_val (execution_price spec s e)
         else 0 \<le> dec_val (execution_price spec s e) \<and>
              dec_val (execution_price spec s e) \<le> dec_val (dec_of (ce_close e))"
proof -
  note b = slippage_ratio_bounds [OF slip]
  have "1 \<le> dec_val (dec_plus (dec_of_int 1) (slippage_ratio spec))"
    using b by (intro ctx28.rounds_ge [OF ctx28.add_rounds representable_one]) simp
  moreover have "dec_val (dec_minus (dec_of_int 1) (slippage_ratio spec)) \<le> 1"
    using b by (intro ctx28.rounds_le [OF ctx28.sub_rounds representable_one]) simp
  moreover have "0 \<le> dec_val (dec_minus (dec_of_int 1) (slippage_ratio spec))"
    using b by (intro ctx28.sub_nonneg) simp
  ultimately show ?thesis
    using close fits_representable
    by (simp add: execution_price_def ctx28.mul_ge ctx28.mul_le ctx28.mul_nonneg)
qed

section \<open>Properties\<close>

lemma executions_signals:
  "map fst (executions spec (sort_key event_sort_key candles) sigs) =
     filter (\<lambda>s. \<exists>e\<in>set candles. ce_quality e = ''available'' \<and>
        target_knowledge spec s \<le> instant (ce_knowledge_at e)) sigs"
proof (induction sigs)
  case (Cons s sigs)
  let ?evs = "sort_key event_sort_key candles"
  have iff: "(\<exists>e\<in>set candles. ce_quality e = ''available'' \<and>
      target_knowledge spec s \<le> instant (ce_knowledge_at e)) \<longleftrightarrow> execution_event spec ?evs s \<noteq> None"
  proof (cases "execution_event spec ?evs s")
    case None
    then show ?thesis using execution_event_None [OF None] by force
  next
    case (Some e)
    then show ?thesis using execution_event_Some(1-3) [OF Some] by blast
  qed
  show ?case
    using Cons.IH by (cases "execution_event spec ?evs s") (simp_all only: executions_def map_filter_simps filter.simps iff
        option.simps option.map if_True if_False list.map fst_conv not_False_eq_True refl not_True_eq_False simp_thms)
qed (simp add: executions_def map_filter_simps)

lemma mset_ordered_signals [simp]: "mset (ordered_signals sigs) = mset sigs"
proof -
  have "mset (map snd (sort_key signal_sort_key (enumerate 0 sigs))) = mset (map snd (enumerate 0 sigs))"
    by (simp only: mset_map mset_sort)
  then show ?thesis by (simp add: ordered_signals_def)
qed

text \<open>The trade of a signal on the first candle it may use.\<close>

definition fair_execution ::
  "backtest_engine_spec \<Rightarrow> backtest_candle_event list \<Rightarrow> backtest_signal \<Rightarrow> backtest_trade \<Rightarrow> bool" where
  "fair_execution spec candles s t \<longleftrightarrow>
     tr_side t = sg_side s \<and> tr_requested_quantity t = dec_of (sg_base_quantity s) \<and>
     instant (sg_occurred_at s) \<le> instant (sg_knowledge_at s) \<and>
     (\<exists>e\<in>set candles. tr_knowledge_at t = ce_knowledge_at e \<and> tr_occurred_at t = ce_occurred_at e \<and>
        ce_quality e = ''available'') \<and>
     target_knowledge spec s \<le> instant (tr_knowledge_at t) \<and>
     (\<forall>e\<in>set candles. ce_quality e = ''available'' \<and> target_knowledge spec s \<le> instant (ce_knowledge_at e) \<longrightarrow>
        instant (tr_knowledge_at t) \<le> instant (ce_knowledge_at e))"

text \<open>C6. 
  The backtest never trades on information from the future, and executes what it can exactly once. In a
  successful run the trades correspond one to one, in some order, to the signals for which an available candle is
  known no earlier than the signal plus the latency (a signal given twice counts twice). The trade of a
  signal has its side and quantity, the signal was known no earlier than it occurred, and the trade is executed
  on an available candle known no earlier than the signal plus the latency, and no available candle past that
  point is known earlier than the one used.
\<close>

theorem backtest_no_look_ahead:
  assumes "run_candle_backtest spec candles signals = Inr r" and "br_status r = Succeeded"
  shows "\<exists>executed. list_all2 (fair_execution spec candles) executed (br_trades r) \<and>
    mset executed = mset (filter (\<lambda>s. \<exists>e\<in>set candles. ce_quality e = ''available'' \<and>
        target_knowledge spec s \<le> instant (ce_knowledge_at e)) signals)"
proof -
  note R = run_succeeded [OF assms]
  let ?xs = "executions spec (sort_key event_sort_key candles) (ordered_signals signals)"
  have "fair_execution spec candles s (make_trade spec s e (execution_price spec s e))" if "(s, e) \<in> set ?xs" for s e
  proof -
    have s: "s \<in> set signals" and e: "execution_event spec (sort_key event_sort_key candles) s = Some e"
      using that by (simp_all add: executions_mem)
    note E = execution_event_Some [OF e]
    have "\<forall>e'\<in>set candles. ce_quality e' = ''available'' \<and>
        target_knowledge spec s \<le> instant (ce_knowledge_at e') \<longrightarrow>
          instant (ce_knowledge_at e) \<le> instant (ce_knowledge_at e')"
      using E(4) by (auto simp: event_sort_key_def less_eq_prod_def)
    moreover have "instant (sg_occurred_at s) \<le> instant (sg_knowledge_at s)"
      using R(2) s by (auto simp: is_look_ahead_signal_def)
    ultimately show ?thesis using E(1-3) by (auto simp: fair_execution_def make_trade_def Let_def)
  qed
  then have "list_all2 (fair_execution spec candles) (map fst ?xs) (br_trades r)"
    by (auto simp: R(4) R(1) list_all2_map1 list_all2_map2 list_all2_same)
  moreover have "mset (map fst ?xs) = mset (filter (\<lambda>s. \<exists>e\<in>set candles. ce_quality e = ''available'' \<and>
        target_knowledge spec s \<le> instant (ce_knowledge_at e)) signals)"
    unfolding executions_signals by (simp only: mset_filter mset_ordered_signals)
  ultimately show ?thesis by blast
qed

definition all_utc :: "backtest_engine_spec \<Rightarrow> backtest_candle_event list \<Rightarrow> backtest_signal list \<Rightarrow> bool" where
  "all_utc spec candles signals \<longleftrightarrow>
     list_all py_utc (validated_values spec candles signals) \<and>
     list_all (\<lambda>e. is_utc (ce_occurred_at e) \<and> is_utc (ce_knowledge_at e)) candles \<and>
     list_all (\<lambda>s. is_utc (sg_occurred_at s) \<and> is_utc (sg_knowledge_at s)) signals"

lemma all_utc_sort: "all_utc spec (sort_key event_sort_key candles) signals \<longleftrightarrow> all_utc spec candles signals"
  by (auto simp: all_utc_def validated_values_def list_all_iff)

lemma input_payload_utc: "all_utc spec candles signals \<Longrightarrow> py_utc (input_payload spec candles signals xs)"
  by (auto simp: all_utc_def input_payload_def spec_payload_def event_payload_def signal_payload_def
      validated_values_def str_list_def list_all_iff in_set_enumerate_eq)

lemma result_payload_utc:
  assumes "list_all (\<lambda>s. is_utc (sg_occurred_at s) \<and> is_utc (sg_knowledge_at s) \<and> py_utc (sg_base_quantity s)) signals"
    "list_all (\<lambda>t. is_utc (tr_occurred_at t) \<and> is_utc (tr_knowledge_at t)) trades"
    "list_all (\<lambda>p. is_utc (ep_occurred_at p) \<and> is_utc (ep_knowledge_at p)) points"
  shows "py_utc (result_payload status inh xs trades points metrics signals errs)"
  using assms
  by (auto simp: result_payload_def str_list_def trade_payload_def equity_payload_def signal_payload_def
      metrics_payload_def list_all_iff in_set_enumerate_eq)

lemma bt_result_utc:
  assumes "py_utc (result_payload status inh xs trades points metrics signals errs)"
  shows "\<exists>r. bt_result status inh xs evs trades points metrics signals errs = Inr r \<and> br_status r = status \<and>
     br_trades r = trades \<and> br_equity_points r = points \<and> br_metrics r = metrics \<and> br_errors r = errs"
  using canonical_payload_hash_utc [OF assms] by (auto simp: bt_result_def lift_ds_def)

lemma execute_points_utc:
  assumes "\<forall>(s, e)\<in>set xs. is_utc (ce_occurred_at e) \<and> is_utc (ce_knowledge_at e)"
    and "\<forall>p\<in>set (st_points st). is_utc (ep_occurred_at p) \<and> is_utc (ep_knowledge_at p)"
  shows "\<forall>p\<in>set (st_points (foldl (execute spec) st xs)). is_utc (ep_occurred_at p) \<and> is_utc (ep_knowledge_at p)"
  using assms
proof (induction xs arbitrary: st)
  case (Cons x xs)
  obtain s e where x: "x = (s, e)" by (cases x)
  have "is_utc (ce_occurred_at e)" "is_utc (ce_knowledge_at e)" using Cons.prems(1) x by auto
  then have "\<forall>p\<in>set (st_points (execute spec st x)). is_utc (ep_occurred_at p) \<and> is_utc (ep_knowledge_at p)"
    using Cons.prems(2) by (simp add: x execute_def apply_trade_def make_trade_def Let_def)
  moreover have "\<forall>(s, e)\<in>set xs. is_utc (ce_occurred_at e) \<and> is_utc (ce_knowledge_at e)"
    using Cons.prems(1) by simp
  ultimately show ?case unfolding foldl_Cons by (intro Cons.IH)
qed simp

text \<open>Valid input of which some execution time is not a date.\<close>

definition replay_overflows :: "backtest_engine_spec \<Rightarrow> backtest_candle_event list \<Rightarrow> backtest_signal list \<Rightarrow> bool" where
  "replay_overflows spec candles signals \<longleftrightarrow>
     (\<forall>v\<in>set (validated_values spec candles signals). is_decimal v) \<and>
     (\<forall>s\<in>set signals. \<not> instant (sg_knowledge_at s) < instant (sg_occurred_at s)) \<and>
     (\<exists>s\<in>set signals. target_overflows spec s)"

lemma run_utc:
  assumes utc: "all_utc spec candles signals"
  shows "if replay_overflows spec candles signals then run_candle_backtest spec candles signals = Inl Bt_Overflow
    else \<exists>r. run_candle_backtest spec candles signals = Inr r \<and>
      br_errors r = (if \<exists>v\<in>set (validated_values spec candles signals). \<not> is_decimal v then [''decimal_required'']
       else if \<exists>s\<in>set signals. instant (sg_knowledge_at s) < instant (sg_occurred_at s)
            then [''look_ahead_signal''] else []) \<and>
      (br_status r = Succeeded \<longleftrightarrow> br_errors r = []) \<and>
      (br_status r = Failed \<longrightarrow> br_trades r = [] \<and> br_equity_points r = [] \<and>
         br_metrics r = [(''finalEquity'', dec_of (es_initial_cash spec))])"
proof -
  let ?evs = "sort_key event_sort_key candles"
  let ?xs = "executions spec ?evs (ordered_signals signals)"
  let ?st = "foldl (execute spec) (initial_state spec) ?xs"
  have aware: "sorted_events candles = Inr ?evs"
    using utc by (auto simp: sorted_events_def all_utc_def list_all_iff list_ex_iff is_utc_def is_aware_def)
  have dve: "decimal_validation_error spec ?evs signals =
      (if \<exists>v\<in>set (validated_values spec candles signals). \<not> is_decimal v then Some ''decimal_required'' else None)"
    by (auto simp: decimal_validation_error_def validated_values_def list_ex_iff)
  have look: "list_ex is_look_ahead_signal signals \<longleftrightarrow>
      (\<exists>s\<in>set signals. instant (sg_knowledge_at s) < instant (sg_occurred_at s))"
    by (auto simp: list_ex_iff is_look_ahead_signal_def)
  have sig: "list_all (\<lambda>s. is_utc (sg_occurred_at s) \<and> is_utc (sg_knowledge_at s) \<and> py_utc (sg_base_quantity s)) signals"
    using utc by (auto simp: all_utc_def list_all_iff validated_values_def)
  obtain h0 where h0: "invalid_input_hash spec ''decimal_required'' = Inr h0"
    using canonical_payload_hash_utc [of "PyDict [(''engineVersion'', PyStr (es_engine_version spec)),
        (''datasetVersionId'', PyInt (es_dataset_version_id spec)),
        (''strategyVersionId'', PyInt (es_strategy_version_id spec)), (''error'', PyStr ''decimal_required'')]"]
    by (auto simp: invalid_input_hash_def lift_ds_def)
  obtain h1 where h1: "input_hash spec ?evs signals ASSUMPTIONS = Inr h1"
    using canonical_payload_hash_utc [OF input_payload_utc [of spec ?evs signals ASSUMPTIONS]] utc
    by (auto simp: input_hash_def lift_ds_def all_utc_sort)
  have xs: "\<forall>(s, e)\<in>set ?xs. is_utc (ce_occurred_at e) \<and> is_utc (ce_knowledge_at e)"
    using utc execution_event_Some(1) by (fastforce simp: executions_mem all_utc_def list_all_iff)
  have points: "list_all (\<lambda>p. is_utc (ep_occurred_at p) \<and> is_utc (ep_knowledge_at p)) (st_points ?st)"
    unfolding list_all_iff using xs by (intro execute_points_utc) (simp_all add: initial_state_def)
  have trades: "list_all (\<lambda>t. is_utc (tr_occurred_at t) \<and> is_utc (tr_knowledge_at t)) (st_trades ?st)"
    unfolding list_all_iff foldl_execute_trades using xs
    by (auto simp: initial_state_def make_trade_def Let_def)
  let ?m = "[(''finalEquity'', dec_of (es_initial_cash spec))]"
  let ?m' = "[(''finalEquity'', final_equity spec ?evs (st_cash ?st) (st_position ?st))]"
  have fail: "\<exists>r. bt_result Failed inh ASSUMPTIONS ?evs [] [] ?m signals errs = Inr r \<and> br_status r = Failed \<and>
      br_trades r = [] \<and> br_equity_points r = [] \<and> br_metrics r = ?m \<and> br_errors r = errs" for inh errs
    by (rule bt_result_utc [OF result_payload_utc [OF sig]]) simp_all
  obtain r0 where r0: "bt_result Failed h0 ASSUMPTIONS ?evs [] [] ?m signals [''decimal_required''] = Inr r0"
    "br_status r0 = Failed" "br_trades r0 = []" "br_equity_points r0 = []" "br_metrics r0 = ?m"
    "br_errors r0 = [''decimal_required'']"
    using fail by blast
  obtain r1 where r1: "bt_result Failed h1 ASSUMPTIONS ?evs [] [] ?m signals [''look_ahead_signal''] = Inr r1"
    "br_status r1 = Failed" "br_trades r1 = []" "br_equity_points r1 = []" "br_metrics r1 = ?m"
    "br_errors r1 = [''look_ahead_signal'']"
    using fail by blast
  obtain r2 where r2: "bt_result Succeeded h1 ASSUMPTIONS ?evs (st_trades ?st) (st_points ?st) ?m' signals [] = Inr r2"
    "br_status r2 = Succeeded" "br_errors r2 = []"
    using bt_result_utc [OF result_payload_utc [OF sig trades points]] by blast
  show ?thesis
  proof (cases "\<exists>v\<in>set (validated_values spec candles signals). \<not> is_decimal v")
    case True
    then have "\<not> replay_overflows spec candles signals" by (auto simp: replay_overflows_def)
    with True show ?thesis unfolding run_candle_backtest_def aware res_bind_Inr dve by (simp add: h0 r0)
  next
    case False
    then show ?thesis
      unfolding run_candle_backtest_def aware res_bind_Inr dve look
      using False
      by (cases "\<exists>s\<in>set signals. instant (sg_knowledge_at s) < instant (sg_occurred_at s)")
         (auto simp: h1 r1 r2 replay_signals_eq replay_overflows_def)
  qed
qed


text \<open>
  The result does not depend on the order in which candles arrive: when their
  (knowledge time, source priority, stable sequence) keys are distinct, any reordering of the candles gives the
  same result, hashes included.
\<close>

theorem backtest_order_independent:
  assumes "mset candles = mset candles'" and "inj_on event_sort_key (set candles)"
  shows "run_candle_backtest spec candles signals = run_candle_backtest spec candles' signals"
proof -
  have "set candles = set candles'" using assms(1) by (rule mset_eq_setD)
  then have "sorted_events candles = sorted_events candles'"
    using sort_key_perm_distinct [OF assms] by (simp add: sorted_events_def list_ex_iff)
  then show ?thesis by (simp add: run_candle_backtest_def)
qed

text \<open>The configuration and market data that a backtest is meant to be run on: rates between zero and
  one, non-negative prices, volumes and quantities, all within the decimal precision.\<close>

definition sane_decimal :: "py_value \<Rightarrow> bool" where
  "sane_decimal v \<longleftrightarrow> 0 \<le> dec_val (dec_of v) \<and> fits (dec_of v)"

definition sane_market ::
  "backtest_engine_spec \<Rightarrow> backtest_candle_event list \<Rightarrow> backtest_signal list \<Rightarrow> bool" where
  "sane_market spec candles signals \<longleftrightarrow>
     (let x = es_execution spec in
      0 \<le> dec_val (dec_of (ex_fee_rate x)) \<and>
      0 \<le> dec_val (dec_of (ex_slippage_bps x)) \<and> dec_val (dec_of (ex_slippage_bps x)) \<le> 10000 \<and>
      0 \<le> dec_val (dec_of (ex_max_participation_rate x)) \<and> dec_val (dec_of (ex_max_participation_rate x)) \<le> 1) \<and>
     list_all (\<lambda>e. sane_decimal (ce_close e) \<and> sane_decimal (ce_volume e)) candles \<and>
     list_all (\<lambda>s. sane_decimal (sg_base_quantity s)) signals"

text \<open>C7. 
  On sane input every trade of a successful run is executed within its limits: the filled
  quantity is non-negative, at most the requested quantity and at most the volume of the candle;
  the remaining quantity and the fee are non-negative; the trade counts as filled exactly when nothing of
  the request is left; and slippage is never in the trader's favour, a buy pays at least the close and a sale
  receives at most the close.
\<close>

theorem backtest_fill_bounds:
  assumes "run_candle_backtest spec candles signals = Inr r" and "br_status r = Succeeded"
    and "sane_market spec candles signals"
  shows "\<forall>t\<in>set (br_trades r). \<exists>e\<in>set candles. tr_knowledge_at t = ce_knowledge_at e \<and>
      0 \<le> dec_val (tr_filled_quantity t) \<and>
      dec_val (tr_filled_quantity t) \<le> dec_val (tr_requested_quantity t) \<and>
      dec_val (tr_filled_quantity t) \<le> dec_val (dec_of (ce_volume e)) \<and>
      0 \<le> dec_val (tr_remaining_quantity t) \<and> 0 \<le> dec_val (tr_fee_paid t) \<and>
      (tr_status t = Filled \<longleftrightarrow> dec_val (tr_filled_quantity t) = dec_val (tr_requested_quantity t)) \<and>
      (if tr_side t = Buy then dec_val (dec_of (ce_close e)) \<le> dec_val (tr_fill_price t)
       else 0 \<le> dec_val (tr_fill_price t) \<and> dec_val (tr_fill_price t) \<le> dec_val (dec_of (ce_close e)))"
proof
  note R = run_succeeded [OF assms(1,2)]
  let ?x = "es_execution spec"
  have sane: "0 \<le> dec_val (dec_of (ex_fee_rate ?x))" "0 \<le> dec_val (dec_of (ex_slippage_bps ?x))"
    "dec_val (dec_of (ex_slippage_bps ?x)) \<le> 10000"
    "0 \<le> dec_val (dec_of (ex_max_participation_rate ?x))" "dec_val (dec_of (ex_max_participation_rate ?x)) \<le> 1"
    using assms(3) by (simp_all add: sane_market_def Let_def)
  fix t assume "t \<in> set (br_trades r)"
  then obtain s e where se: "(s, e) \<in> set (executions spec (sort_key event_sort_key candles) (ordered_signals signals))"
    and t: "t = make_trade spec s e (execution_price spec s e)"
    by (auto simp: R(4) R(1))
  then have s: "s \<in> set signals" and e: "e \<in> set candles"
    using execution_event_Some(1) by (auto simp: executions_mem)
  have q: "0 \<le> dec_val (dec_of (sg_base_quantity s))"
    and v: "0 \<le> dec_val (dec_of (ce_volume e))" "fits (dec_of (ce_volume e))"
    and c: "0 \<le> dec_val (dec_of (ce_close e))" "fits (dec_of (ce_close e))"
    using assms(3) s e by (auto simp: sane_market_def list_all_iff sane_decimal_def)
  let ?cap = "dec_times (dec_of (ce_volume e)) (dec_of (ex_max_participation_rate ?x))"
  let ?filled = "dec_min (dec_of (sg_base_quantity s)) ?cap"
  have cap: "0 \<le> dec_val ?cap" "dec_val ?cap \<le> dec_val (dec_of (ce_volume e))"
    using v sane(4,5) fits_representable by (simp_all add: ctx28.mul_nonneg ctx28.mul_le)
  note price = execution_price_adverse [OF sane(2,3) c, of s]
  have p0: "0 \<le> dec_val (execution_price spec s e)"
    using price c(1) by (auto split: if_splits)
  have fill: "0 \<le> dec_val ?filled" "dec_val ?filled \<le> dec_val (dec_of (sg_base_quantity s))"
    "dec_val ?filled \<le> dec_val (dec_of (ce_volume e))"
    using q cap by (simp_all add: dec_val_min)
  have rem: "0 \<le> dec_val (dec_minus (dec_of (sg_base_quantity s)) ?filled)"
    by (rule ctx28.sub_nonneg) (rule fill)
  have fee: "0 \<le> dec_val (dec_times (dec_times (execution_price spec s e) ?filled) (dec_of (ex_fee_rate ?x)))"
    by (intro ctx28.mul_nonneg p0 fill sane)
  have status: "dec_eq (dec_minus (dec_of (sg_base_quantity s)) ?filled) dec_zero \<longleftrightarrow>
      dec_val ?filled = dec_val (dec_of (sg_base_quantity s))"
    by (auto simp: dec_eq_def dec_minus_zero)
  show "\<exists>e\<in>set candles. tr_knowledge_at t = ce_knowledge_at e \<and>
      0 \<le> dec_val (tr_filled_quantity t) \<and>
      dec_val (tr_filled_quantity t) \<le> dec_val (tr_requested_quantity t) \<and>
      dec_val (tr_filled_quantity t) \<le> dec_val (dec_of (ce_volume e)) \<and>
      0 \<le> dec_val (tr_remaining_quantity t) \<and> 0 \<le> dec_val (tr_fee_paid t) \<and>
      (tr_status t = Filled \<longleftrightarrow> dec_val (tr_filled_quantity t) = dec_val (tr_requested_quantity t)) \<and>
      (if tr_side t = Buy then dec_val (dec_of (ce_close e)) \<le> dec_val (tr_fill_price t)
       else 0 \<le> dec_val (tr_fill_price t) \<and> dec_val (tr_fill_price t) \<le> dec_val (dec_of (ce_close e)))"
    using e price fill rem fee status
    by (intro bexI [of _ e] conjI) (simp_all add: t make_trade_def Let_def split: if_splits)
qed

definition signed_fill :: "backtest_trade \<Rightarrow> rat" where
  "signed_fill t = (if tr_side t = Buy then dec_val (tr_filled_quantity t) else - dec_val (tr_filled_quantity t))"

lemma apply_trade_position:
  assumes "on_grid q (dec_val (st_position st) + signed_fill t)"
    "\<bar>dec_val (st_position st) + signed_fill t\<bar> < 10 ^ PREC_DEFAULT * 10 powi q"
  shows "dec_val (st_position (apply_trade st t c)) = dec_val (st_position st) + signed_fill t"
proof -
  note rep = grid_representable [OF assms]
  show ?thesis
    using rep ctx28.rounds_exact [OF ctx28.add_rounds [of "st_position st" "tr_filled_quantity t"]]
      ctx28.rounds_exact [OF ctx28.sub_rounds [of "st_position st" "tr_filled_quantity t"]]
    by (auto simp: apply_trade_def Let_def signed_fill_def split: if_splits)
qed

fun running :: "rat \<Rightarrow> rat list \<Rightarrow> rat list" where
  "running a [] = []"
| "running a (x # xs) = (a + x) # running (a + x) xs"

lemma length_running [simp]: "length (running a xs) = length xs"
  by (induction xs arbitrary: a) auto

lemma nth_running: "i < length xs \<Longrightarrow> running a xs ! i = a + sum_list (take (Suc i) xs)"
  by (induction xs arbitrary: a i) (auto simp: nth_Cons split: nat.split)

definition trade_of :: "backtest_engine_spec \<Rightarrow> backtest_signal \<times> backtest_candle_event \<Rightarrow> backtest_trade" where
  "trade_of spec x = (case x of (s, e) \<Rightarrow> make_trade spec s e (execution_price spec s e))"

lemma foldl_execute_positions:
  assumes "\<forall>x\<in>set xs. on_grid q (signed_fill (trade_of spec x))" "on_grid q (dec_val (st_position st))"
    "\<bar>dec_val (st_position st)\<bar> + (\<Sum>x\<leftarrow>xs. \<bar>signed_fill (trade_of spec x)\<bar>) < 10 ^ PREC_DEFAULT * 10 powi q"
  shows "map (\<lambda>p. dec_val (ep_base_position p)) (st_points (foldl (execute spec) st xs)) =
     map (\<lambda>p. dec_val (ep_base_position p)) (st_points st) @
     running (dec_val (st_position st)) (map (\<lambda>x. signed_fill (trade_of spec x)) xs)"
  using assms
proof (induction xs arbitrary: st)
  case (Cons x xs)
  let ?t = "trade_of spec x"
  let ?st = "execute spec st x"
  have nonneg: "0 \<le> (\<Sum>x\<leftarrow>xs. \<bar>signed_fill (trade_of spec x)\<bar>)"
    by (intro sum_list_nonneg) auto
  have bound: "\<bar>dec_val (st_position st) + signed_fill ?t\<bar> +
      (\<Sum>x\<leftarrow>xs. \<bar>signed_fill (trade_of spec x)\<bar>) < 10 ^ PREC_DEFAULT * 10 powi q"
    using Cons.prems(3) abs_triangle_ineq [of "dec_val (st_position st)" "signed_fill ?t"] by simp
  have grid: "on_grid q (dec_val (st_position st) + signed_fill ?t)"
    using Cons.prems(1,2) by (intro on_grid_arith) simp_all
  have "\<bar>dec_val (st_position st) + signed_fill ?t\<bar> < 10 ^ PREC_DEFAULT * 10 powi q"
    using bound nonneg by linarith
  note pos = apply_trade_position [OF grid this]
  have exec: "?st = apply_trade st ?t (dec_of (ce_close (snd x)))"
    by (simp add: execute_def trade_of_def split: prod.split)
  have pos': "dec_val (st_position ?st) = dec_val (st_position st) + signed_fill ?t"
    unfolding exec by (rule pos)
  have points: "map (\<lambda>p. dec_val (ep_base_position p)) (st_points ?st) =
      map (\<lambda>p. dec_val (ep_base_position p)) (st_points st) @ [dec_val (st_position ?st)]"
    by (simp add: exec apply_trade_def Let_def)
  have "\<forall>x\<in>set xs. on_grid q (signed_fill (trade_of spec x))" using Cons.prems(1) by simp
  from Cons.IH [OF this] show ?case
    using grid bound by (simp add: pos' points)
qed simp

text \<open>C8. 
  The position book is exact: whenever the fills of a successful run lie on a decimal
  grid \<open>10 powi q\<close> and their total stays below \<open>10 ^ 28\<close> grid units, there is one equity point per trade
  and its position is the exact sum of the buys minus the sells up to that trade, with no rounding.
\<close>

theorem backtest_position_ledger:
  assumes "run_candle_backtest spec candles signals = Inr r" and "br_status r = Succeeded"
    and grid: "\<forall>t\<in>set (br_trades r). on_grid q (dec_val (tr_filled_quantity t))"
    and bound: "(\<Sum>t\<leftarrow>br_trades r. \<bar>dec_val (tr_filled_quantity t)\<bar>) < 10 ^ PREC_DEFAULT * 10 powi q"
  shows "length (br_equity_points r) = length (br_trades r) \<and>
    (\<forall>i<length (br_trades r). dec_val (ep_base_position (br_equity_points r ! i)) =
       (\<Sum>t\<leftarrow>take (Suc i) (br_trades r).
          if tr_side t = Buy then dec_val (tr_filled_quantity t) else - dec_val (tr_filled_quantity t)))"
proof -
  note R = run_succeeded [OF assms(1,2)]
  let ?xs = "executions spec (br_replay_events r) (ordered_signals signals)"
  have trades: "br_trades r = map (trade_of spec) ?xs"
    by (simp add: R(4) trade_of_def)
  have "on_grid q (signed_fill t)" if "t \<in> set (br_trades r)" for t
    using grid that by (simp add: signed_fill_def on_grid_arith)
  then have "\<forall>x\<in>set ?xs. on_grid q (signed_fill (trade_of spec x))" by (auto simp: trades)
  moreover have "on_grid q (dec_val (st_position (initial_state spec)))"
    unfolding on_grid_def by (intro exI [of _ 0]) (simp add: initial_state_def)
  moreover have "\<bar>signed_fill t\<bar> = \<bar>dec_val (tr_filled_quantity t)\<bar>" for t
    by (simp add: signed_fill_def)
  ultimately have *: "map (\<lambda>p. dec_val (ep_base_position p)) (br_equity_points r) =
      running 0 (map signed_fill (br_trades r))"
    using foldl_execute_positions [of ?xs q spec "initial_state spec"] bound
    by (simp add: R(5) trades comp_def initial_state_def)
  have len: "length (br_equity_points r) = length (br_trades r)"
    using arg_cong [OF *, of length] by simp
  moreover have "dec_val (ep_base_position (br_equity_points r ! i)) = sum_list (take (Suc i) (map signed_fill (br_trades r)))"
    if "i < length (br_trades r)" for i
    using that len arg_cong [OF *, of "\<lambda>xs. xs ! i"] by (simp add: nth_running)
  ultimately show ?thesis by (simp add: take_map signed_fill_def [abs_def])
qed

definition point_key :: "sensitivity_point \<Rightarrow> ds_error + string \<times> string" where
  "point_key p = res_map (Pair (sp_parameter_name p)) (canonical_payload_hash (sp_parameter_value p))"

lemma sorted_sensitivity_eq:
  assumes "\<forall>p\<in>set points. point_key p = Inr (k p)"
  shows "sorted_sensitivity points = Inr (sort_key k points)"
proof -
  have "res_mapM (\<lambda>p. res_map (Pair (sp_parameter_name p))
      (lift_ds (canonical_payload_hash (sp_parameter_value p)))) points = Inr (map k points)"
    using assms by (intro res_mapM_cong_Inr) (auto simp: point_key_def lift_ds_def res_map_eq_Inr_iff)
  moreover have "zip (map k points) points = map (\<lambda>p. (k p, p)) points"
    by (simp add: zip_map1 zip_same_conv_map)
  ultimately show ?thesis
    by (simp add: sorted_sensitivity_def sort_key_map comp_def)
qed

text \<open>
  Performance artifacts do not depend on the order in which folds, sensitivity points and
  bootstrap samples are supplied, when their indices and (parameter, value hash) keys are distinct.
\<close>

theorem artifacts_order_independent:
  assumes "mset folds = mset folds'" "inj_on wf_fold_index (set folds)"
    and "mset samples = mset samples'" "inj_on bo_sample_index (set samples)"
    and "mset points = mset points'" "inj_on point_key (set points)"
    and "\<forall>p\<in>set points. py_utc (sp_parameter_value p)"
  shows "build_performance_artifacts result folds points samples =
    build_performance_artifacts result folds' points' samples'"
proof -
  define k where "k p = (sp_parameter_name p, projr (canonical_payload_hash (sp_parameter_value p)))" for p :: sensitivity_point
  have key: "\<forall>p\<in>set points. point_key p = Inr (k p)"
  proof
    fix p assume "p \<in> set points"
    then obtain h where "canonical_payload_hash (sp_parameter_value p) = Inr h"
      using assms(7) canonical_payload_hash_utc by blast
    then show "point_key p = Inr (k p)" by (simp add: point_key_def k_def)
  qed
  then have inj: "inj_on k (set points)" using assms(6) by (auto simp: inj_on_def)
  have "sorted_sensitivity points = Inr (sort_key k points)" using key by (rule sorted_sensitivity_eq)
  moreover have "sorted_sensitivity points' = Inr (sort_key k points')"
    using key mset_eq_setD [OF assms(5)] by (intro sorted_sensitivity_eq) simp
  ultimately show ?thesis
    using sort_key_perm_distinct [OF assms(1,2)] sort_key_perm_distinct [OF assms(3,4)]
      sort_key_perm_distinct [OF assms(5) inj]
    by (simp add: build_performance_artifacts_def)
qed

section \<open>Witnesses\<close>

definition example_bt_spec :: backtest_engine_spec where
  "example_bt_spec =
     \<lparr>es_dataset_version_id = 1, es_dataset_content_hash = example_hash, es_strategy_version_id = 2,
      es_strategy_graph_hash = example_hash, es_engine_version = ''v1'', es_parameter_hash = example_hash,
      es_seed = 7, es_initial_cash = PyDecimal (Dec False 1000 0),
      es_execution = \<lparr>ex_fee_rate = PyDecimal (Dec False 5 (-4)), ex_slippage_bps = PyDecimal (Dec False 10 0),
        ex_latency_seconds = 60, ex_max_participation_rate = PyDecimal (Dec False 1 (-1))\<rparr>\<rparr>"

definition example_candle :: "int \<Rightarrow> string \<Rightarrow> nat \<Rightarrow> backtest_candle_event" where
  "example_candle known quality close_price =
     \<lparr>ce_instrument_id = 1, ce_market_code = ''KRW-BTC'', ce_occurred_at = utc (known * minute_us),
      ce_knowledge_at = utc (known * minute_us), ce_stable_sequence = ''s'',
      ce_open = PyDecimal (Dec False close_price 0), ce_high = PyDecimal (Dec False close_price 0),
      ce_low = PyDecimal (Dec False close_price 0), ce_close = PyDecimal (Dec False close_price 0),
      ce_volume = PyDecimal (Dec False 15 0), ce_quality = quality, ce_content_hash = example_hash,
      ce_source_priority = 20\<rparr>"

definition example_signal :: "int \<Rightarrow> backtest_side \<Rightarrow> backtest_signal" where
  "example_signal known side =
     \<lparr>sg_occurred_at = utc (known * minute_us), sg_knowledge_at = utc (known * minute_us), sg_side = side,
      sg_base_quantity = PyDecimal (Dec False 2 0)\<rparr>"

definition example_candles :: "backtest_candle_event list" where
  "example_candles = [example_candle 3 ''available'' 120, example_candle 2 ''available'' 100,
     example_candle 1 ''missing'' 90]"

definition example_signals :: "backtest_signal list" where
  "example_signals = [example_signal 2 Sell, example_signal 0 Buy, example_signal 5 Buy]"

lemmas example_bt_defs = example_bt_spec_def example_candle_def example_signal_def example_candles_def
  example_signals_def

lemma example_bt_utc: "all_utc example_bt_spec example_candles example_signals"
  by (simp add: all_utc_def validated_values_def example_bt_defs)

lemma example_no_overflow: "\<not> replay_overflows example_bt_spec example_candles example_signals"
  by (simp add: replay_overflows_def target_overflows_def example_bt_defs minute_us_def second_us_def day_us_def hour_us_def
      utc_def)

lemma example_bt_succeeds:
  "\<exists>r. run_candle_backtest example_bt_spec example_candles example_signals = Inr r \<and> br_status r = Succeeded"
proof -
  have "\<forall>v\<in>set (validated_values example_bt_spec example_candles example_signals). is_decimal v"
    "\<forall>s\<in>set example_signals. \<not> instant (sg_knowledge_at s) < instant (sg_occurred_at s)"
    by (simp_all add: validated_values_def is_decimal_def example_bt_defs)
  then show ?thesis using run_utc [OF example_bt_utc] example_no_overflow by auto
qed

lemma example_executions:
  assumes "run_candle_backtest example_bt_spec example_candles example_signals = Inr r" "br_status r = Succeeded"
  shows "map (\<lambda>t. (tr_side t, tr_filled_quantity t, tr_status t, instant (tr_knowledge_at t))) (br_trades r) =
    [(Buy, Dec False 15 (-1), Partially_filled, 2 * minute_us), (Sell, Dec False 15 (-1), Partially_filled, 3 * minute_us)]"
proof -
  note R = run_succeeded [OF assms]
  have evs: "br_replay_events r = [example_candle 1 ''missing'' 90, example_candle 2 ''available'' 100,
      example_candle 3 ''available'' 120]"
    by (simp add: R(1) event_sort_key_def example_bt_defs minute_us_def second_us_def)
  have sigs: "ordered_signals example_signals = [example_signal 0 Buy, example_signal 2 Sell, example_signal 5 Buy]"
    by (simp add: ordered_signals_def signal_sort_key_def example_bt_defs minute_us_def second_us_def)
  have ex: "executions example_bt_spec (br_replay_events r) (ordered_signals example_signals) =
      [(example_signal 0 Buy, example_candle 2 ''available'' 100), (example_signal 2 Sell, example_candle 3 ''available'' 120)]"
    unfolding evs sigs
    by (simp add: executions_def map_filter_simps execution_event_def example_bt_defs minute_us_def second_us_def)
  have cap: "dec_times (Dec False 15 0) (Dec False 1 (-1)) = Dec False 15 (-1)"
    by (simp add: dec_mul_def PREC_DEFAULT_def num_digits.simps)
  have fill: "dec_min (Dec False 2 0) (Dec False 15 (-1)) = Dec False 15 (-1)"
    by (simp add: dec_min_def dec_lt_def power_int_minus)
  have rest: "\<not> dec_eq (dec_minus (Dec False 2 0) (Dec False 15 (-1))) dec_zero"
    by (simp add: dec_eq_def dec_minus_zero power_int_minus)
  show ?thesis
    unfolding R(4) ex
    by (simp add: make_trade_def example_bt_spec_def example_candle_def example_signal_def dec_of_def Let_def cap fill rest
        del: One_nat_def)
qed

theorem backtest_no_look_ahead_witness:
  "\<exists>r executed. run_candle_backtest example_bt_spec example_candles example_signals = Inr r \<and>
     list_all2 (fair_execution example_bt_spec example_candles) executed (br_trades r) \<and> length (br_trades r) = 2 \<and>
     mset executed = mset (filter (\<lambda>s. \<exists>e\<in>set example_candles. ce_quality e = ''available'' \<and>
        target_knowledge example_bt_spec s \<le> instant (ce_knowledge_at e)) example_signals)"
proof -
  obtain r where r: "run_candle_backtest example_bt_spec example_candles example_signals = Inr r" "br_status r = Succeeded"
    using example_bt_succeeds by blast
  have "length (br_trades r) = 2" using arg_cong [OF example_executions [OF r], of length] by simp
  then show ?thesis using backtest_no_look_ahead [OF r] r by blast
qed


theorem backtest_order_independent_witness:
  "run_candle_backtest example_bt_spec example_candles example_signals =
   run_candle_backtest example_bt_spec (rev example_candles) example_signals"
  by (rule backtest_order_independent) (simp_all add: event_sort_key_def example_bt_defs minute_us_def second_us_def)

theorem backtest_fill_bounds_witness:
  "\<exists>r t. run_candle_backtest example_bt_spec example_candles example_signals = Inr r \<and>
     t \<in> set (br_trades r) \<and> tr_side t = Buy \<and>
     dec_val (tr_filled_quantity t) \<le> dec_val (tr_requested_quantity t)"
proof -
  obtain r where r: "run_candle_backtest example_bt_spec example_candles example_signals = Inr r" "br_status r = Succeeded"
    using example_bt_succeeds by blast
  have sane: "sane_market example_bt_spec example_candles example_signals"
    by (simp add: sane_market_def sane_decimal_def fits_def dec_of_def PREC_DEFAULT_def num_digits.simps
        example_bt_defs power_int_minus)
  from example_executions [OF r] obtain t where "t \<in> set (br_trades r)" "tr_side t = Buy"
    by (cases "br_trades r") auto
  then show ?thesis using backtest_fill_bounds [OF r sane] r by blast
qed

theorem backtest_position_ledger_witness:
  "\<exists>r. run_candle_backtest example_bt_spec example_candles example_signals = Inr r \<and>
     length (br_equity_points r) = 2 \<and>
     dec_val (ep_base_position (br_equity_points r ! 1)) = 0"
proof -
  obtain r where r: "run_candle_backtest example_bt_spec example_candles example_signals = Inr r" "br_status r = Succeeded"
    using example_bt_succeeds by blast
  obtain t u where tu: "br_trades r = [t, u]" "tr_side t = Buy" "tr_side u = Sell"
    "tr_filled_quantity t = Dec False 15 (-1)" "tr_filled_quantity u = Dec False 15 (-1)"
    using example_executions [OF r] by auto
  have g: "on_grid (-1) (dec_val (Dec False 15 (-1)))"
    unfolding on_grid_def by (intro exI [of _ 15]) simp
  have "length (br_equity_points r) = length (br_trades r) \<and>
    (\<forall>i<length (br_trades r). dec_val (ep_base_position (br_equity_points r ! i)) =
       (\<Sum>t\<leftarrow>take (Suc i) (br_trades r).
          if tr_side t = Buy then dec_val (tr_filled_quantity t) else - dec_val (tr_filled_quantity t)))"
    by (rule backtest_position_ledger [OF r, of "-1"])
       (use tu g in \<open>simp_all add: PREC_DEFAULT_def power_int_minus\<close>)
  then show ?thesis using r tu by auto
qed

definition example_fold :: "int \<Rightarrow> walk_forward_fold" where
  "example_fold i = \<lparr>wf_fold_index = i, wf_train_start_at = utc 0, wf_train_end_at = utc 1,
     wf_test_start_at = utc 1, wf_test_end_at = utc 2, wf_metrics = [(''finalEquity'', dec_of_int i)]\<rparr>"

theorem artifacts_order_independent_witness:
  "\<forall>result. build_performance_artifacts result [example_fold 2, example_fold 1] [] [] =
   build_performance_artifacts result [example_fold 1, example_fold 2] [] []"
  by (intro allI artifacts_order_independent) (simp_all add: example_fold_def)

end
