(* ===== verification/Candle_Aggregation.thy ===== *)
theory Candle_Aggregation
  imports Rollup_Grid Py_Value
begin

text \<open>
  Candle aggregation (\<^verbatim>\<open>aggregate_candles\<close> of \<^verbatim>\<open>aggregation.py\<close> with its helpers and the candle
  records of \<^verbatim>\<open>models.py\<close>): source minute and day candles are grouped into the buckets of a unit and
  each group becomes one candle with its prices, volume, completeness, quality and input hash. Every
  timestamp here is a UTC instant, as the repositories supply it.
\<close>

section \<open>Records\<close>

record source_candle =
  sc_instrument_id :: int
  sc_candle_unit :: string
  sc_candle_start_at :: int
  sc_open_price :: dec
  sc_high_price :: dec
  sc_low_price :: dec
  sc_close_price :: dec
  sc_trade_volume :: dec
  sc_trade_amount :: dec
  sc_collected_at :: int
  sc_revision_id :: "int option"
  sc_input_content_hash :: "string option"
  sc_knowledge_at :: "int option"

record candle_view =
  cv_started_at :: int
  cv_open :: dec
  cv_high :: dec
  cv_low :: dec
  cv_close :: dec
  cv_volume :: dec
  cv_trade_amount :: dec
  cv_completeness :: string
  cv_calculation_version :: string
  cv_source_as_of :: "int option"
  cv_knowledge_at :: "int option"
  cv_input_content_hash :: string
  cv_quality :: string
  cv_input_revision_ids :: "int list"
  cv_rollup_id :: "int option"
  cv_source_revision_through_id :: int
  cv_quality_event_through_id :: "int option"
  cv_coverage_snapshot_hash :: string

record coverage_slice =
  cs_start_at :: int
  cs_end_at :: int
  cs_status :: string

text \<open>\<^verbatim>\<open>SourceCandle | CandleView\<close>.\<close>

datatype candle_item = Source source_candle | View candle_view

definition CALCULATION_VERSION :: string where
  "CALCULATION_VERSION = ''candle-rollup-v2''"

section \<open>Accessors\<close>

fun ci_started_at :: "candle_item \<Rightarrow> int" where
  "ci_started_at (Source c) = sc_candle_start_at c"
| "ci_started_at (View v) = cv_started_at v"

fun ci_open :: "candle_item \<Rightarrow> dec" where
  "ci_open (Source c) = sc_open_price c"
| "ci_open (View v) = cv_open v"

fun ci_high :: "candle_item \<Rightarrow> dec" where
  "ci_high (Source c) = sc_high_price c"
| "ci_high (View v) = cv_high v"

fun ci_low :: "candle_item \<Rightarrow> dec" where
  "ci_low (Source c) = sc_low_price c"
| "ci_low (View v) = cv_low v"

fun ci_close :: "candle_item \<Rightarrow> dec" where
  "ci_close (Source c) = sc_close_price c"
| "ci_close (View v) = cv_close v"

fun ci_volume :: "candle_item \<Rightarrow> dec" where
  "ci_volume (Source c) = sc_trade_volume c"
| "ci_volume (View v) = cv_volume v"

fun ci_trade_amount :: "candle_item \<Rightarrow> dec" where
  "ci_trade_amount (Source c) = sc_trade_amount c"
| "ci_trade_amount (View v) = cv_trade_amount v"

fun ci_source_as_of :: "candle_item \<Rightarrow> int option" where
  "ci_source_as_of (Source c) = Some (sc_collected_at c)"
| "ci_source_as_of (View v) = cv_source_as_of v"

fun ci_knowledge_at :: "candle_item \<Rightarrow> int option" where
  "ci_knowledge_at (Source c) = Some (case sc_knowledge_at c of Some k \<Rightarrow> k | None \<Rightarrow> sc_collected_at c)"
| "ci_knowledge_at (View v) = cv_knowledge_at v"

fun ci_revision_ids :: "candle_item \<Rightarrow> int list" where
  "ci_revision_ids (Source c) = (case sc_revision_id c of Some r \<Rightarrow> [r] | None \<Rightarrow> [])"
| "ci_revision_ids (View v) = cv_input_revision_ids v"

text \<open>\<^verbatim>\<open>item.input_content_hash or None\<close>: an empty hash counts as none.\<close>

fun ci_content_hash :: "candle_item \<Rightarrow> string option" where
  "ci_content_hash (Source c) = (if sc_input_content_hash c = Some [] then None else sc_input_content_hash c)"
| "ci_content_hash (View v) = (if cv_input_content_hash v = [] then None else Some (cv_input_content_hash v))"

section \<open>Input hash\<close>

definition canonical_decimal :: "dec \<Rightarrow> string" where
  "canonical_decimal value = dec_format_f (dec_normalize PREC_DEFAULT value)"

definition hash_item :: "candle_item \<Rightarrow> json" where
  "hash_item item = JObj
     [(''at'', JStr (isoformat (utc (ci_started_at item)))),
      (''open'', JStr (canonical_decimal (ci_open item))),
      (''high'', JStr (canonical_decimal (ci_high item))),
      (''low'', JStr (canonical_decimal (ci_low item))),
      (''close'', JStr (canonical_decimal (ci_close item))),
      (''volume'', JStr (canonical_decimal (ci_volume item))),
      (''tradeAmount'', JStr (canonical_decimal (ci_trade_amount item))),
      (''sourceContentHash'', case ci_content_hash item of None \<Rightarrow> JNull | Some h \<Rightarrow> JStr h)]"

definition hash_inputs :: "candle_item list \<Rightarrow> string" where
  "hash_inputs items =
     sha256_hex (json_dumps (JObj
       [(''calculationVersion'', JStr CALCULATION_VERSION),
        (''inputs'', JArr (map hash_item (sort_key ci_started_at items)))]))"

definition to_candle_view :: "source_candle \<Rightarrow> candle_view" where
  "to_candle_view item =
     \<lparr>cv_started_at = sc_candle_start_at item, cv_open = sc_open_price item, cv_high = sc_high_price item,
      cv_low = sc_low_price item, cv_close = sc_close_price item, cv_volume = sc_trade_volume item,
      cv_trade_amount = sc_trade_amount item, cv_completeness = ''complete'',
      cv_calculation_version = CALCULATION_VERSION,
      cv_source_as_of = Some (sc_collected_at item),
      cv_knowledge_at = Some (case sc_knowledge_at item of Some k \<Rightarrow> k | None \<Rightarrow> sc_collected_at item),
      cv_input_content_hash =
        (case sc_input_content_hash item of None \<Rightarrow> hash_inputs [Source item]
         | Some h \<Rightarrow> if h = [] then hash_inputs [Source item] else h),
      cv_quality = ''available'',
      cv_input_revision_ids = (case sc_revision_id item of Some r \<Rightarrow> [r] | None \<Rightarrow> []),
      cv_rollup_id = None,
      cv_source_revision_through_id = (case sc_revision_id item of Some r \<Rightarrow> r | None \<Rightarrow> 0),
      cv_quality_event_through_id = None, cv_coverage_snapshot_hash = []\<rparr>"

section \<open>Quality of a bucket\<close>

definition first_of :: "string list \<Rightarrow> string list \<Rightarrow> string \<Rightarrow> string" where
  "first_of ranking statuses fallback =
     (case find (\<lambda>s. s \<in> set statuses) ranking of Some s \<Rightarrow> s | None \<Rightarrow> fallback)"

definition slot_quality :: "string list \<Rightarrow> string" where
  "slot_quality statuses =
     first_of [''missing'', ''unavailable'', ''unverified'', ''available'', ''no_trade''] statuses ''unverified''"

definition worst_quality :: "string list \<Rightarrow> string" where
  "worst_quality statuses =
     first_of [''missing'', ''unavailable'', ''unverified''] statuses
       (if ''available'' \<in> set statuses then ''missing'' else ''available'')"

definition slot_delta :: "string \<Rightarrow> int" where
  "slot_delta unit = (if unit = ''1w'' \<or> unit = ''1M'' then day_us else minute_us)"

definition slot_matches :: "coverage_slice list \<Rightarrow> int \<Rightarrow> int \<Rightarrow> string list" where
  "slot_matches coverage slot_start slot_end =
     map cs_status (filter (\<lambda>g. cs_start_at g \<le> slot_start \<and> slot_end \<le> cs_end_at g) coverage)"

definition missing_slots :: "int \<Rightarrow> nat \<Rightarrow> candle_item list \<Rightarrow> string \<Rightarrow> int list" where
  "missing_slots bucket required_size items unit =
     filter (\<lambda>t. t \<notin> ci_started_at ` set items)
       (map (\<lambda>k. bucket + slot_delta unit * int k) [0..<required_size])"

definition slot_status :: "coverage_slice list \<Rightarrow> string \<Rightarrow> int \<Rightarrow> string" where
  "slot_status coverage unit slot_start =
     (let matches = slot_matches coverage slot_start (slot_start + slot_delta unit) in
      if matches = [] then ''unverified'' else slot_quality matches)"

definition missing_slot_statuses ::
  "int \<Rightarrow> nat \<Rightarrow> candle_item list \<Rightarrow> coverage_slice list \<Rightarrow> string \<Rightarrow> string list" where
  "missing_slot_statuses bucket required_size items coverage unit =
     map (slot_status coverage unit) (missing_slots bucket required_size items unit)"

section \<open>Aggregation\<close>

definition is_complete :: "candle_item list \<Rightarrow> nat \<Rightarrow> string list \<Rightarrow> bool" where
  "is_complete items required_size missing_statuses \<longleftrightarrow>
     length items = required_size \<or>
     length items < required_size \<and> missing_statuses \<noteq> [] \<and> list_all (\<lambda>s. s = ''no_trade'') missing_statuses"

definition aggregate_group ::
  "nat \<Rightarrow> coverage_slice list \<Rightarrow> string \<Rightarrow> int \<times> candle_item list \<Rightarrow> candle_view" where
  "aggregate_group expected_size coverage unit g =
     (case g of (bucket, items) \<Rightarrow>
      let ordered = sort_key ci_started_at items;
          required_size = (if expected_size = 0 then nat (days_in_month (dt_year bucket) (dt_month bucket))
                           else expected_size);
          missing_statuses = missing_slot_statuses bucket required_size ordered coverage unit
      in \<lparr>cv_started_at = bucket, cv_open = ci_open (hd ordered),
          cv_high = the (fold_first dec_max (map ci_high ordered)),
          cv_low = the (fold_first dec_min (map ci_low ordered)),
          cv_close = ci_close (last ordered),
          cv_volume = foldl (dec_add PREC_DEFAULT) dec_zero (map ci_volume ordered),
          cv_trade_amount = foldl (dec_add PREC_DEFAULT) dec_zero (map ci_trade_amount ordered),
          cv_completeness = (if is_complete ordered required_size missing_statuses then ''complete'' else ''partial''),
          cv_calculation_version = CALCULATION_VERSION,
          cv_source_as_of = fold_first max (List.map_filter ci_source_as_of ordered),
          cv_knowledge_at = fold_first max (List.map_filter ci_knowledge_at ordered),
          cv_input_content_hash = hash_inputs ordered,
          cv_quality = worst_quality missing_statuses,
          cv_input_revision_ids = sorted_set (concat (map ci_revision_ids ordered)),
          cv_rollup_id = None, cv_source_revision_through_id = 0,
          cv_quality_event_through_id = None, cv_coverage_snapshot_hash = []\<rparr>)"

definition aggregate_groups ::
  "(int \<times> candle_item list) list \<Rightarrow> nat \<Rightarrow> coverage_slice list \<Rightarrow> string \<Rightarrow> candle_view list" where
  "aggregate_groups grouped expected_size coverage unit =
     map (aggregate_group expected_size coverage unit) (sort_key fst grouped)"

definition unit_alias :: "string \<Rightarrow> string" where
  "unit_alias unit = (if unit = ''60m'' then ''1h'' else if unit = ''240m'' then ''4h'' else unit)"

definition aggregate_minute_units :: "(string \<times> nat) list" where
  "aggregate_minute_units =
     [(''1m'', 1), (''3m'', 3), (''5m'', 5), (''10m'', 10), (''15m'', 15), (''30m'', 30), (''1h'', 60), (''4h'', 240)]"

definition minute_candles :: "source_candle list \<Rightarrow> source_candle list" where
  "minute_candles source = filter (\<lambda>c. sc_candle_unit c = ''1m'') source"

definition day_candles :: "source_candle list \<Rightarrow> source_candle list" where
  "day_candles source = filter (\<lambda>c. sc_candle_unit c = ''1d'') source"

text \<open>Grouping minute candles by the bucket of their start.\<close>

definition group_by_bucket ::
  "string \<Rightarrow> source_candle list \<Rightarrow> agg_error + (int \<times> candle_item list) list" where
  "group_by_bucket unit items =
     res_map (\<lambda>buckets. group_pairs (zip buckets (map Source items)))
       (res_mapM (\<lambda>c. rollup_bucket_start unit (utc (sc_candle_start_at c))) items)"

text \<open>\<^verbatim>\<open>daily_by_start\<close>: the aggregated days, overridden by the day candles of the source.\<close>

definition dict_update :: "(int \<times> candle_view) list \<Rightarrow> candle_view list \<Rightarrow> (int \<times> candle_view) list" where
  "dict_update d vs = foldl (\<lambda>d v. dict_set d (cv_started_at v) v) d vs"

definition aggregate_daily ::
  "source_candle list \<Rightarrow> coverage_slice list \<Rightarrow> agg_error + candle_view list" where
  "aggregate_daily source coverage =
     res_map (\<lambda>grouped.
        map snd (sort_key fst
          (dict_update (dict_update [] (aggregate_groups grouped (24 * 60) coverage ''1d''))
             (map to_candle_view (day_candles source)))))
       (group_by_bucket ''1d'' (minute_candles source))"

definition calendar_bucket :: "string \<Rightarrow> int \<Rightarrow> int" where
  "calendar_bucket unit t =
     (if unit = ''1w''
      then let w = t - dt_weekday t * day_us in dt_combine (dt_year w) (dt_month w) (dt_day w) 0 0 0 0
      else dt_combine (dt_year t) (dt_month t) 1 0 0 0 0)"

definition aggregate_candles ::
  "string \<Rightarrow> source_candle list \<Rightarrow> coverage_slice list \<Rightarrow> agg_error + candle_view list" where
  "aggregate_candles unit0 source coverage =
     (let unit = unit_alias unit0 in
      if unit \<notin> set AGGREGATION_UNITS then Inl (Agg_UnsupportedUnit unit)
      else if unit = ''1m'' then
        Inr (map to_candle_view (sort_key sc_candle_start_at (minute_candles source)))
      else case map_of aggregate_minute_units unit of
        Some bucket_size \<Rightarrow>
          res_map (\<lambda>grouped. aggregate_groups grouped bucket_size coverage unit)
            (group_by_bucket unit (minute_candles source))
      | None \<Rightarrow>
          if unit = ''1d'' then aggregate_daily source coverage
          else if unit = ''1w'' \<or> unit = ''1M'' then
            res_map (\<lambda>daily.
               aggregate_groups
                 (group_pairs (map (\<lambda>v. (calendar_bucket unit (cv_started_at v), View v)) daily))
                 (if unit = ''1w'' then 7 else 0) coverage unit)
              (aggregate_daily source coverage)
          else Inl (Agg_UnsupportedUnit unit))"

section \<open>Groups\<close>

lemma aggregate_groups_pairs:
  "aggregate_groups (group_pairs kvs) n coverage unit =
     map (\<lambda>k. aggregate_group n coverage unit (k, map snd (filter (\<lambda>kv. fst kv = k) kvs)))
       (sorted_set (map fst kvs))"
  by (simp add: aggregate_groups_def sorted_group_pairs)

lemma group_by_bucket_unit:
  "group_by_bucket (unit_name u) items =
     Inr (group_pairs (map (\<lambda>c. (unit_start u (sc_candle_start_at c), Source c)) items))"
proof -
  have "res_mapM (\<lambda>c. rollup_bucket_start (unit_name u) (utc (sc_candle_start_at c))) items =
      Inr (map (\<lambda>c. unit_start u (sc_candle_start_at c)) items)"
    by (rule res_mapM_cong_Inr) (simp add: rollup_bucket_start_unit)
  moreover have "zip (map (\<lambda>c. unit_start u (sc_candle_start_at c)) items) (map Source items) =
      map (\<lambda>c. (unit_start u (sc_candle_start_at c), Source c)) items"
    by (induction items) auto
  ultimately show ?thesis by (simp add: group_by_bucket_def)
qed

text \<open>The minute candles of one bucket.\<close>

definition bucket_items :: "agg_unit \<Rightarrow> source_candle list \<Rightarrow> int \<Rightarrow> candle_item list" where
  "bucket_items u source b =
     map Source (filter (\<lambda>c. unit_start u (sc_candle_start_at c) = b) (minute_candles source))"

definition source_buckets :: "agg_unit \<Rightarrow> source_candle list \<Rightarrow> int list" where
  "source_buckets u source = sorted_set (map (\<lambda>c. unit_start u (sc_candle_start_at c)) (minute_candles source))"

lemma aggregate_bucket_groups:
  "aggregate_groups (group_pairs (map (\<lambda>c. (unit_start u (sc_candle_start_at c), Source c)) (minute_candles source)))
     n coverage unit =
   map (\<lambda>b. aggregate_group n coverage unit (b, bucket_items u source b)) (source_buckets u source)"
  by (simp add: aggregate_groups_pairs bucket_items_def source_buckets_def filter_map comp_def)

lemma bucket_items_nonempty: "b \<in> set (source_buckets u source) \<Longrightarrow> bucket_items u source b \<noteq> []"
  by (auto simp: source_buckets_def bucket_items_def filter_empty_conv)

definition minute_size :: "agg_unit \<Rightarrow> nat" where
  "minute_size u = (case u of U1m \<Rightarrow> 1 | U3m \<Rightarrow> 3 | U5m \<Rightarrow> 5 | U10m \<Rightarrow> 10 | U15m \<Rightarrow> 15 | U30m \<Rightarrow> 30 |
     U1h \<Rightarrow> 60 | U4h \<Rightarrow> 240 | U1d \<Rightarrow> 1440 | U1w \<Rightarrow> 7 | U1M \<Rightarrow> 0)"

definition minute_units :: "agg_unit set" where
  "minute_units = {U3m, U5m, U10m, U15m, U30m, U1h, U4h}"

lemma unit_alias_name [simp]: "unit_alias (unit_name u) = unit_name u"
  by (cases u) (simp_all add: unit_alias_def)

lemma aggregate_candles_minutes:
  assumes "u \<in> minute_units"
  shows "aggregate_candles (unit_name u) source coverage =
    Inr (map (\<lambda>b. aggregate_group (minute_size u) coverage (unit_name u) (b, bucket_items u source b))
      (source_buckets u source))"
proof -
  have "unit_name u \<noteq> ''1m''" "map_of aggregate_minute_units (unit_name u) = Some (minute_size u)"
    using assms by (auto simp: minute_units_def aggregate_minute_units_def minute_size_def)
  moreover have "unit_name u \<in> set AGGREGATION_UNITS" by (simp add: set_AGGREGATION_UNITS)
  ultimately show ?thesis
    by (simp add: aggregate_candles_def group_by_bucket_unit aggregate_bucket_groups)
qed

section \<open>What one aggregated candle says\<close>

text \<open>The candle summarises its inputs: the open of an earliest and the close of a latest
  item, the extreme prices among them, their revisions, and their volume up to decimal rounding.\<close>

definition summarises :: "candle_view \<Rightarrow> candle_item list \<Rightarrow> bool" where
  "summarises v items \<longleftrightarrow>
     (\<exists>i\<in>set items. cv_open v = ci_open i \<and> (\<forall>j\<in>set items. ci_started_at i \<le> ci_started_at j)) \<and>
     (\<exists>i\<in>set items. cv_close v = ci_close i \<and> (\<forall>j\<in>set items. ci_started_at j \<le> ci_started_at i)) \<and>
     (\<exists>i\<in>set items. cv_high v = ci_high i) \<and> (\<forall>j\<in>set items. dec_val (ci_high j) \<le> dec_val (cv_high v)) \<and>
     (\<exists>i\<in>set items. cv_low v = ci_low i) \<and> (\<forall>j\<in>set items. dec_val (cv_low v) \<le> dec_val (ci_low j)) \<and>
     set (cv_input_revision_ids v) = (\<Union>i\<in>set items. set (ci_revision_ids i)) \<and>
     sorted_wrt (<) (cv_input_revision_ids v)"

lemma foldl_dec_max:
  "foldl dec_max x xs \<in> set (x # xs) \<and> (\<forall>y\<in>set (x # xs). dec_val y \<le> dec_val (foldl dec_max x xs))"
proof (induction xs arbitrary: x)
  case (Cons y ys)
  have "dec_val x \<le> dec_val (dec_max x y)" "dec_val y \<le> dec_val (dec_max x y)" "dec_max x y \<in> {x, y}"
    by (auto simp: dec_max_def dec_lt_def)
  then show ?case using Cons.IH [of "dec_max x y"] by fastforce
qed simp

lemma foldl_dec_min:
  "foldl dec_min x xs \<in> set (x # xs) \<and> (\<forall>y\<in>set (x # xs). dec_val (foldl dec_min x xs) \<le> dec_val y)"
proof (induction xs arbitrary: x)
  case (Cons y ys)
  have "dec_val (dec_min x y) \<le> dec_val x" "dec_val (dec_min x y) \<le> dec_val y" "dec_min x y \<in> {x, y}"
    by (auto simp: dec_min_def dec_lt_def)
  then show ?case using Cons.IH [of "dec_min x y"] by fastforce
qed simp

lemma fold_first_map:
  assumes "xs \<noteq> []"
  shows "\<exists>m. fold_first dec_max (map f xs) = Some m \<and> (\<exists>i\<in>set xs. m = f i) \<and> (\<forall>j\<in>set xs. dec_val (f j) \<le> dec_val m)"
    and "\<exists>m. fold_first dec_min (map f xs) = Some m \<and> (\<exists>i\<in>set xs. m = f i) \<and> (\<forall>j\<in>set xs. dec_val m \<le> dec_val (f j))"
  using assms foldl_dec_max [of "f (hd xs)" "map f (tl xs)"] foldl_dec_min [of "f (hd xs)" "map f (tl xs)"]
  by (cases xs; auto)+

lemma sort_key_hd_last:
  fixes f :: "'a \<Rightarrow> 'b::linorder"
  assumes "xs \<noteq> []"
  shows "hd (sort_key f xs) \<in> set xs" "\<forall>y\<in>set xs. f (hd (sort_key f xs)) \<le> f y"
    and "last (sort_key f xs) \<in> set xs" "\<forall>y\<in>set xs. f y \<le> f (last (sort_key f xs))"
proof -
  let ?s = "sort_key f xs"
  have ne: "?s \<noteq> []" using assms by (metis length_0_conv length_sort)
  have srt: "sorted (map f ?s)" by simp
  show "hd ?s \<in> set xs" "last ?s \<in> set xs" using hd_in_set [OF ne] last_in_set [OF ne] by simp_all
  obtain x zs where x: "?s = x # zs" using ne by (cases ?s) auto
  have "\<forall>y\<in>set ?s. f (hd ?s) \<le> f y" using srt unfolding x by auto
  then show "\<forall>y\<in>set xs. f (hd ?s) \<le> f y" by simp
  obtain ys z where z: "?s = ys @ [z]" using ne by (cases ?s rule: rev_cases) auto
  have "\<forall>y\<in>set ?s. f y \<le> f (last ?s)" using srt unfolding z by (auto simp: sorted_append)
  then show "\<forall>y\<in>set xs. f y \<le> f (last ?s)" by simp
qed

lemma aggregate_group_summarises:
  assumes "items \<noteq> []"
  shows "summarises (aggregate_group n coverage unit (b, items)) items"
proof -
  let ?o = "sort_key ci_started_at items"
  let ?v = "aggregate_group n coverage unit (b, items)"
  have ne: "?o \<noteq> []" using assms by (metis length_0_conv length_sort)
  note ends = sort_key_hd_last [OF assms, of ci_started_at]
  have v: "cv_open ?v = ci_open (hd ?o)" "cv_close ?v = ci_close (last ?o)"
    "cv_high ?v = the (fold_first dec_max (map ci_high ?o))" "cv_low ?v = the (fold_first dec_min (map ci_low ?o))"
    "cv_input_revision_ids ?v = sorted_set (concat (map ci_revision_ids ?o))"
    by (simp_all add: aggregate_group_def Let_def)
  obtain hi where "fold_first dec_max (map ci_high ?o) = Some hi"
    "\<exists>i\<in>set items. hi = ci_high i" "\<forall>j\<in>set items. dec_val (ci_high j) \<le> dec_val hi"
    using fold_first_map(1) [OF ne, of ci_high] by auto
  moreover obtain lo where "fold_first dec_min (map ci_low ?o) = Some lo"
    "\<exists>i\<in>set items. lo = ci_low i" "\<forall>j\<in>set items. dec_val lo \<le> dec_val (ci_low j)"
    using fold_first_map(2) [OF ne, of ci_low] by auto
  ultimately show ?thesis
    unfolding summarises_def v using ends by auto
qed

lemma aggregate_group_started [simp]: "cv_started_at (aggregate_group n coverage unit (b, items)) = b"
  by (simp add: aggregate_group_def Let_def)

section \<open>Properties\<close>


subsection \<open>Well-formed candles\<close>

definition ohlc_ok :: "candle_item \<Rightarrow> bool" where
  "ohlc_ok i \<longleftrightarrow>
     dec_val (ci_low i) \<le> dec_val (ci_open i) \<and> dec_val (ci_open i) \<le> dec_val (ci_high i) \<and>
     dec_val (ci_low i) \<le> dec_val (ci_close i) \<and> dec_val (ci_close i) \<le> dec_val (ci_high i) \<and>
     0 \<le> dec_val (ci_volume i) \<and> 0 \<le> dec_val (ci_trade_amount i)"

lemma foldl_add_nonneg:
  "0 \<le> dec_val x \<Longrightarrow> \<forall>y\<in>set ys. 0 \<le> dec_val y \<Longrightarrow> 0 \<le> dec_val (foldl (dec_add PREC_DEFAULT) x ys)"
  by (induction ys arbitrary: x) (simp_all add: ctx28.add_nonneg)

lemma summarisesD:
  assumes "summarises v items"
  shows "\<exists>i\<in>set items. cv_open v = ci_open i" "\<exists>i\<in>set items. cv_close v = ci_close i"
    and "\<forall>k\<in>set items. dec_val (ci_high k) \<le> dec_val (cv_high v)"
    and "\<forall>k\<in>set items. dec_val (cv_low v) \<le> dec_val (ci_low k)"
  using assms by (auto simp: summarises_def)

lemma aggregate_group_ok:
  assumes "items \<noteq> []" "\<forall>i\<in>set items. ohlc_ok i"
  shows "ohlc_ok (View (aggregate_group n coverage unit (b, items)))"
proof -
  let ?v = "aggregate_group n coverage unit (b, items)"
  have s: "summarises ?v items" by (rule aggregate_group_summarises [OF assms(1)])
  obtain i j where i: "i \<in> set items" "cv_open ?v = ci_open i" and j: "j \<in> set items" "cv_close ?v = ci_close j"
    using summarisesD(1,2) [OF s] by (elim bexE)
  note hi = summarisesD(3) [OF s] and lo = summarisesD(4) [OF s]
  have "dec_val (ci_low i) \<le> dec_val (ci_open i)" "dec_val (ci_open i) \<le> dec_val (ci_high i)"
    "dec_val (ci_low j) \<le> dec_val (ci_close j)" "dec_val (ci_close j) \<le> dec_val (ci_high j)"
    using assms(2) i(1) j(1) by (auto simp: ohlc_ok_def)
  moreover have "dec_val (cv_low ?v) \<le> dec_val (ci_low i)" "dec_val (cv_low ?v) \<le> dec_val (ci_low j)"
    "dec_val (ci_high i) \<le> dec_val (cv_high ?v)" "dec_val (ci_high j) \<le> dec_val (cv_high ?v)"
    using hi lo i(1) j(1) by simp_all
  ultimately have prices: "dec_val (cv_low ?v) \<le> dec_val (cv_open ?v)" "dec_val (cv_open ?v) \<le> dec_val (cv_high ?v)"
    "dec_val (cv_low ?v) \<le> dec_val (cv_close ?v)" "dec_val (cv_close ?v) \<le> dec_val (cv_high ?v)"
    unfolding i(2) j(2) by linarith+
  have "0 \<le> dec_val (cv_volume ?v)" "0 \<le> dec_val (cv_trade_amount ?v)"
    using assms(2) by (simp_all add: aggregate_group_def Let_def foldl_add_nonneg ohlc_ok_def)
  then show ?thesis using prices by (simp add: ohlc_ok_def)
qed

lemma group_pairs_values:
  "\<forall>b\<in>set (map fst kvs). map snd (filter (\<lambda>kv. fst kv = b) kvs) \<noteq> []"
  by (auto simp: filter_empty_conv)

lemma aggregate_groups_ok:
  assumes "\<forall>kv\<in>set kvs. ohlc_ok (snd kv)"
  shows "\<forall>v\<in>set (aggregate_groups (group_pairs kvs) n coverage unit). ohlc_ok (View v)"
  using assms group_pairs_values [of kvs]
  by (auto simp: aggregate_groups_pairs intro!: aggregate_group_ok)

lemma dict_set_vals: "snd ` set (dict_set d k v) \<subseteq> insert v (snd ` set d)"
  by (induction d k v rule: dict_set.induct) auto

lemma dict_update_vals: "snd ` set (dict_update d vs) \<subseteq> snd ` set d \<union> set vs"
  unfolding dict_update_def
proof (induction vs arbitrary: d)
  case (Cons v vs)
  show ?case using Cons.IH [of "dict_set d (cv_started_at v) v"] dict_set_vals [of d "cv_started_at v" v] by auto
qed simp

definition minute_groups :: "agg_unit \<Rightarrow> source_candle list \<Rightarrow> (int \<times> candle_item) list" where
  "minute_groups u source = map (\<lambda>c. (unit_start u (sc_candle_start_at c), Source c)) (minute_candles source)"

definition daily_dict :: "source_candle list \<Rightarrow> coverage_slice list \<Rightarrow> (int \<times> candle_view) list" where
  "daily_dict source coverage =
     dict_update (dict_update [] (aggregate_groups (group_pairs (minute_groups U1d source)) 1440 coverage ''1d''))
       (map to_candle_view (day_candles source))"

lemma aggregate_daily_eq:
  "aggregate_daily source coverage = Inr (map snd (sort_key fst (daily_dict source coverage)))"
  using group_by_bucket_unit [of U1d "minute_candles source"]
  by (simp add: aggregate_daily_def daily_dict_def minute_groups_def)

lemma aggregate_daily_ok:
  assumes "\<forall>c\<in>set source. ohlc_ok (Source c)" "aggregate_daily source coverage = Inr vs"
  shows "\<forall>v\<in>set vs. ohlc_ok (View v)"
proof -
  have "\<forall>v\<in>set (map to_candle_view (day_candles source)). ohlc_ok (View v)"
    using assms(1) by (auto simp: to_candle_view_def day_candles_def ohlc_ok_def)
  moreover have "\<forall>kv\<in>set (minute_groups U1d source). ohlc_ok (snd kv)"
    using assms(1) by (auto simp: minute_groups_def minute_candles_def)
  then have "\<forall>v\<in>set (aggregate_groups (group_pairs (minute_groups U1d source)) 1440 coverage ''1d''). ohlc_ok (View v)"
    by (rule aggregate_groups_ok)
  moreover have "snd ` set (daily_dict source coverage) \<subseteq>
      set (aggregate_groups (group_pairs (minute_groups U1d source)) 1440 coverage ''1d'') \<union>
      set (map to_candle_view (day_candles source))"
    unfolding daily_dict_def
    by (rule order.trans [OF dict_update_vals], intro Un_mono order.trans [OF dict_update_vals]) simp_all
  ultimately have "\<forall>v\<in>snd ` set (daily_dict source coverage). ohlc_ok (View v)"
    by blast
  then show ?thesis using assms(2) by (auto simp: aggregate_daily_eq)
qed

text \<open>
  Aggregation preserves well-formed candles: when every source candle has its open and
  close between its low and its high and a non-negative volume and amount, so has every candle of every
  unit.
\<close>

theorem aggregate_candles_wellformed:
  assumes "\<forall>c\<in>set source. ohlc_ok (Source c)" and "aggregate_candles unit source coverage = Inr vs"
  shows "\<forall>v\<in>set vs. ohlc_ok (View v)"
proof -
  let ?u = "unit_alias unit"
  have "?u \<in> set AGGREGATION_UNITS" using assms(2) by (auto simp: aggregate_candles_def Let_def split: if_splits)
  then obtain u where u: "?u = unit_name u" by (auto simp: set_AGGREGATION_UNITS)
  have mins: "\<forall>kv\<in>set (minute_groups w source). ohlc_ok (snd kv)" for w
    using assms(1) by (auto simp: minute_groups_def minute_candles_def)
  consider "u = U1m" | "u \<in> minute_units" | "u = U1d" | "u = U1w \<or> u = U1M"
    by (cases u) (auto simp: minute_units_def)
  then show ?thesis
  proof cases
    case 1
    then show ?thesis
      using assms u by (auto simp: aggregate_candles_def AGGREGATION_UNITS_def minute_candles_def to_candle_view_def ohlc_ok_def)
  next
    case 2
    have "aggregate_candles unit source coverage = aggregate_candles (unit_name u) source coverage"
      by (simp add: aggregate_candles_def u)
    then have "vs = aggregate_groups (group_pairs (minute_groups u source)) (minute_size u) coverage (unit_name u)"
      using assms(2) by (simp add: aggregate_candles_minutes [OF 2] aggregate_bucket_groups minute_groups_def)
    then show ?thesis using aggregate_groups_ok [OF mins] by blast
  next
    case 3
    then have "aggregate_daily source coverage = Inr vs"
      using assms(2) u by (simp add: aggregate_candles_def AGGREGATION_UNITS_def aggregate_minute_units_def)
    then show ?thesis using aggregate_daily_ok [OF assms(1)] by blast
  next
    case 4
    let ?daily = "map snd (sort_key fst (daily_dict source coverage))"
    have "\<forall>v\<in>set ?daily. ohlc_ok (View v)" using aggregate_daily_ok [OF assms(1) aggregate_daily_eq] .
    then have "\<forall>kv\<in>set (map (\<lambda>v. (calendar_bucket ?u (cv_started_at v), View v)) ?daily). ohlc_ok (snd kv)"
      by auto
    note aggregate_groups_ok [OF this]
    moreover have "vs = aggregate_groups (group_pairs (map (\<lambda>v. (calendar_bucket ?u (cv_started_at v), View v)) ?daily))
        (if ?u = ''1w'' then 7 else 0) coverage ?u"
      using assms(2) u 4 by (auto simp: aggregate_candles_def Let_def aggregate_daily_eq AGGREGATION_UNITS_def aggregate_minute_units_def)
    ultimately show ?thesis by blast
  qed
qed

subsection \<open>Daily candles of the source\<close>

lemma map_of_dict_update:
  "map_of (dict_update d vs) t =
     (if t \<in> cv_started_at ` set vs then Some (last (filter (\<lambda>v. cv_started_at v = t) vs)) else map_of d t)"
  unfolding dict_update_def
proof (induction vs arbitrary: d rule: rev_induct)
  case (snoc v vs)
  then show ?case by (cases "cv_started_at v = t") auto
qed simp

lemma distinct_dict_update: "distinct (map fst d) \<Longrightarrow> distinct (map fst (dict_update d vs))"
  unfolding dict_update_def by (induction vs arbitrary: d) (simp_all add: distinct_dict_set)

lemma dict_set_keyed:
  "\<forall>kv\<in>set d. fst kv = f (snd kv) \<Longrightarrow> k = f w \<Longrightarrow> \<forall>kv\<in>set (dict_set d k w). fst kv = f (snd kv)"
  by (induction d k w rule: dict_set.induct) auto

lemma dict_update_keyed:
  "\<forall>kv\<in>set d. fst kv = cv_started_at (snd kv) \<Longrightarrow> \<forall>kv\<in>set (dict_update d vs). fst kv = cv_started_at (snd kv)"
  unfolding dict_update_def
proof (induction vs arbitrary: d)
  case (Cons v vs)
  from Cons.IH [OF dict_set_keyed [OF Cons.prems refl]] show ?case by simp
qed simp

lemma filter_eq_distinct: "distinct xs \<Longrightarrow> filter (\<lambda>b. b = t) xs = (if t \<in> set xs then [t] else [])"
  by (induction xs) (auto simp: filter_empty_conv)

lemma map_of_daily_dict:
  "map_of (daily_dict source coverage) t =
     (if t \<in> sc_candle_start_at ` set (day_candles source)
      then Some (to_candle_view (last (filter (\<lambda>c. sc_candle_start_at c = t) (day_candles source))))
      else if t \<in> set (source_buckets U1d source)
      then Some (aggregate_group 1440 coverage ''1d'' (t, bucket_items U1d source t)) else None)"
proof -
  let ?agg = "map (\<lambda>b. aggregate_group 1440 coverage ''1d'' (b, bucket_items U1d source b)) (source_buckets U1d source)"
  have groups: "aggregate_groups (group_pairs (minute_groups U1d source)) 1440 coverage ''1d'' = ?agg"
    by (simp add: minute_groups_def aggregate_bucket_groups)
  have day: "cv_started_at (to_candle_view c) = sc_candle_start_at c" for c by (simp add: to_candle_view_def)
  have "distinct (source_buckets U1d source)" by (simp add: source_buckets_def sorted_set_def)
  note filter_eq_distinct [OF this, of t]
  then have agg: "map_of (dict_update [] ?agg) t = (if t \<in> set (source_buckets U1d source)
      then Some (aggregate_group 1440 coverage ''1d'' (t, bucket_items U1d source t)) else None)"
    by (simp add: map_of_dict_update filter_map comp_def image_image)
  have "last (filter (\<lambda>v. cv_started_at v = t) (map to_candle_view (day_candles source))) =
      to_candle_view (last (filter (\<lambda>c. sc_candle_start_at c = t) (day_candles source)))"
    if "t \<in> sc_candle_start_at ` set (day_candles source)"
  proof -
    have "filter (\<lambda>c. sc_candle_start_at c = t) (day_candles source) \<noteq> []"
      using that by (auto simp: filter_empty_conv)
    then show ?thesis by (simp add: filter_map comp_def day last_map)
  qed
  then show ?thesis
    unfolding daily_dict_def groups
    by (simp add: map_of_dict_update [of _ "map to_candle_view (day_candles source)"] image_image day agg)
qed

lemma distinct_daily_dict: "distinct (map fst (daily_dict source coverage))"
  by (simp add: daily_dict_def distinct_dict_update)

text \<open>
  In the daily unit a day candle of the source always wins over minutes: the result has
  strictly increasing starts, and a candle is in it exactly when it is the view of the last source day candle
  with its start or, where the source has no day candle with that start, the aggregate of the minute candles
  of that day.
\<close>

theorem aggregate_daily_override:
  "\<exists>vs. aggregate_candles ''1d'' source coverage = Inr vs \<and> sorted_wrt (<) (map cv_started_at vs) \<and>
    (\<forall>v. v \<in> set vs \<longleftrightarrow>
      (let days = filter (\<lambda>c. sc_candle_unit c = ''1d'' \<and> sc_candle_start_at c = cv_started_at v) source;
           minutes = map Source (filter (\<lambda>c. sc_candle_unit c = ''1m'' \<and>
                        unit_start U1d (sc_candle_start_at c) = cv_started_at v) source)
       in if days \<noteq> [] then v = to_candle_view (last days)
          else minutes \<noteq> [] \<and> v = aggregate_group 1440 coverage ''1d'' (cv_started_at v, minutes)))"
proof -
  let ?d = "daily_dict source coverage"
  let ?vs = "map snd (sort_key fst ?d)"
  have eq: "aggregate_candles ''1d'' source coverage = Inr ?vs"
    by (simp add: aggregate_candles_def unit_alias_def AGGREGATION_UNITS_def aggregate_minute_units_def aggregate_daily_eq)
  have keyed: "\<forall>kv\<in>set ?d. fst kv = cv_started_at (snd kv)"
    unfolding daily_dict_def by (intro dict_update_keyed) simp
  then have "map cv_started_at ?vs = map fst (sort_key fst ?d)"
    by (auto intro: map_cong)
  moreover have "distinct (map fst (sort_key fst ?d))"
    using distinct_daily_dict by (metis mset_map mset_sort mset_eq_imp_distinct_iff)
  ultimately have sorted: "sorted_wrt (<) (map cv_started_at ?vs)"
    by (simp only: sorted_wrt_less_iff sorted_sort_key simp_thms)
  have mem: "v \<in> set ?vs \<longleftrightarrow> map_of ?d (cv_started_at v) = Some v" for v
    using keyed distinct_daily_dict [of source coverage] by (force simp: image_iff)
  have days: "filter (\<lambda>c. sc_candle_start_at c = t) (day_candles source) =
      filter (\<lambda>c. sc_candle_unit c = ''1d'' \<and> sc_candle_start_at c = t) source" for t
    by (simp add: day_candles_def conj_commute)
  have mins: "bucket_items U1d source t = map Source (filter (\<lambda>c. sc_candle_unit c = ''1m'' \<and>
      unit_start U1d (sc_candle_start_at c) = t) source)" for t
    by (simp add: bucket_items_def minute_candles_def conj_commute)
  have dne: "t \<in> sc_candle_start_at ` set (day_candles source) \<longleftrightarrow>
      filter (\<lambda>c. sc_candle_unit c = ''1d'' \<and> sc_candle_start_at c = t) source \<noteq> []" for t
    by (auto simp: day_candles_def filter_empty_conv)
  have mne: "t \<in> set (source_buckets U1d source) \<longleftrightarrow> bucket_items U1d source t \<noteq> []" for t
    by (auto simp: source_buckets_def bucket_items_def filter_empty_conv)
  show ?thesis
    by (intro exI [of _ ?vs] conjI eq sorted allI)
       (simp only: mem map_of_daily_dict days dne mne mins Let_def, auto)
qed

subsection \<open>Order of the source\<close>

lemma aggregate_group_perm:
  assumes "mset items = mset items'" "inj_on ci_started_at (set items)"
  shows "aggregate_group n coverage unit (b, items) = aggregate_group n coverage unit (b, items')"
  using sort_key_perm_distinct [OF assms] by (simp add: aggregate_group_def)

lemma sort_dict_eq:
  fixes d d' :: "('k::linorder \<times> 'v) list"
  assumes "distinct (map fst d)" "distinct (map fst d')" "map_of d = map_of d'"
  shows "sort_key fst d = sort_key fst d'"
proof (rule sort_key_perm_distinct)
  have "set d = set d'"
    using assms map_of_eq_Some_iff [OF assms(1)] map_of_eq_Some_iff [OF assms(2)] by auto
  then show "mset d = mset d'"
    using assms(1,2) by (simp add: distinct_map set_eq_iff_mset_eq_distinct)
  show "inj_on fst (set d)" using assms(1) by (simp add: distinct_map)
qed

lemma bucket_items_perm:
  assumes "mset source = mset source'"
  shows "mset (bucket_items u source b) = mset (bucket_items u source' b)"
    and "source_buckets u source = source_buckets u source'"
proof -
  show "mset (bucket_items u source b) = mset (bucket_items u source' b)"
    using assms by (simp add: bucket_items_def minute_candles_def)
  show "source_buckets u source = source_buckets u source'"
    unfolding source_buckets_def
    using mset_eq_setD [OF assms] by (intro sorted_set_unique) (simp add: minute_candles_def)
qed

definition distinct_starts :: "source_candle list \<Rightarrow> bool" where
  "distinct_starts source \<longleftrightarrow> inj_on (\<lambda>c. (sc_candle_unit c, sc_candle_start_at c)) (set source)"

lemma bucket_items_inj: "distinct_starts source \<Longrightarrow> inj_on ci_started_at (set (bucket_items u source b))"
  by (auto simp: distinct_starts_def inj_on_def bucket_items_def minute_candles_def)

lemma aggregate_bucket_perm:
  assumes "mset source = mset source'" "distinct_starts source"
  shows "aggregate_group n coverage unit (b, bucket_items u source b) =
    aggregate_group n coverage unit (b, bucket_items u source' b)"
  by (rule aggregate_group_perm [OF bucket_items_perm(1) [OF assms(1)] bucket_items_inj [OF assms(2)]])

lemma daily_dict_perm:
  assumes "mset source = mset source'" "distinct_starts source"
  shows "map_of (daily_dict source coverage) = map_of (daily_dict source' coverage)"
proof
  fix t
  let ?f = "filter (\<lambda>c. sc_candle_start_at c = t)"
  have m: "mset (?f (day_candles source)) = mset (?f (day_candles source'))"
    using assms(1) by (simp add: day_candles_def)
  have same: "c = c'" if "c \<in> set (?f (day_candles source))" "c' \<in> set (?f (day_candles source))" for c c'
    using that assms(2) by (auto simp: distinct_starts_def inj_on_def day_candles_def)
  have "last (?f (day_candles source)) = last (?f (day_candles source'))"
    if "t \<in> sc_candle_start_at ` set (day_candles source)"
  proof -
    have ne: "?f (day_candles source) \<noteq> []" using that by (auto simp: filter_empty_conv)
    then have "?f (day_candles source') \<noteq> []" using m by (metis mset_zero_iff)
    then have "last (?f (day_candles source')) \<in> set (?f (day_candles source))"
      using mset_eq_setD [OF m] last_in_set by fast
    then show ?thesis using same last_in_set [OF ne] by blast
  qed
  moreover have "set (day_candles source) = set (day_candles source')"
    using mset_eq_setD [OF assms(1)] by (simp add: day_candles_def)
  ultimately show "map_of (daily_dict source coverage) t = map_of (daily_dict source' coverage) t"
    using bucket_items_perm(2) [OF assms(1), of U1d] aggregate_bucket_perm [OF assms, of 1440 coverage "''1d''" t U1d]
    by (simp only: map_of_daily_dict split: if_split) simp
qed

lemma aggregate_daily_perm:
  assumes "mset source = mset source'" "distinct_starts source"
  shows "aggregate_daily source coverage = aggregate_daily source' coverage"
  using sort_dict_eq [OF distinct_daily_dict distinct_daily_dict daily_dict_perm [OF assms]]
  by (simp add: aggregate_daily_eq)

text \<open>
  Aggregation does not depend on the order of its input: when no two source candles have
  the same unit and start, any reordering of the source gives the same candles, hashes included, for every unit.
\<close>

theorem aggregate_candles_order_independent:
  assumes "mset source = mset source'" and "distinct_starts source"
  shows "aggregate_candles unit source coverage = aggregate_candles unit source' coverage"
proof (cases "unit_alias unit \<in> set AGGREGATION_UNITS")
  case True
  then obtain u where u: "unit_alias unit = unit_name u" by (auto simp: set_AGGREGATION_UNITS)
  have via_name: "aggregate_candles unit s coverage = aggregate_candles (unit_name u) s coverage" for s
    by (simp add: aggregate_candles_def u)
  have daily: "aggregate_daily source coverage = aggregate_daily source' coverage"
    by (rule aggregate_daily_perm [OF assms])
  consider "u = U1m" | "u \<in> minute_units" | "u = U1d \<or> u = U1w \<or> u = U1M"
    by (cases u) (auto simp: minute_units_def)
  then show ?thesis
  proof cases
    case 1
    have "sort_key sc_candle_start_at (minute_candles source) = sort_key sc_candle_start_at (minute_candles source')"
    proof (rule sort_key_perm_distinct)
      show "mset (minute_candles source) = mset (minute_candles source')"
        using assms(1) by (simp add: minute_candles_def)
      show "inj_on sc_candle_start_at (set (minute_candles source))"
        using assms(2) by (auto simp: distinct_starts_def inj_on_def minute_candles_def)
    qed
    then show ?thesis by (simp add: aggregate_candles_def u 1 Let_def)
  next
    case 2
    show ?thesis
      unfolding via_name aggregate_candles_minutes [OF 2] bucket_items_perm(2) [OF assms(1)]
      using aggregate_bucket_perm [OF assms] by simp
  next
    case 3
    then show ?thesis
      unfolding via_name
      by (auto simp: aggregate_candles_def AGGREGATION_UNITS_def aggregate_minute_units_def daily Let_def)
  qed
qed (simp add: aggregate_candles_def)

subsection \<open>Completeness and quality\<close>

lemma slot_quality_no_trade:
  "slot_quality ms = ''no_trade'' \<longleftrightarrow> ''no_trade'' \<in> set ms \<and>
     ''missing'' \<notin> set ms \<and> ''unavailable'' \<notin> set ms \<and> ''unverified'' \<notin> set ms \<and> ''available'' \<notin> set ms"
  by (simp add: slot_quality_def first_of_def)

lemma slot_status_range:
  "slot_status coverage unit t \<in> {''missing'', ''unavailable'', ''unverified'', ''available'', ''no_trade''}"
  by (simp add: slot_status_def slot_quality_def first_of_def Let_def)

lemma worst_quality_available:
  assumes "set statuses \<subseteq> {''missing'', ''unavailable'', ''unverified'', ''available'', ''no_trade''}"
  shows "worst_quality statuses = ''available'' \<longleftrightarrow> (\<forall>s\<in>set statuses. s = ''no_trade'')"
proof
  show "worst_quality statuses = ''available'' \<Longrightarrow> \<forall>s\<in>set statuses. s = ''no_trade''"
    using assms by (auto simp: worst_quality_def first_of_def split: if_splits)
qed (auto simp: worst_quality_def first_of_def)

text \<open>A bucket of a minute unit consists of its minute slots.\<close>

lemma minute_bucket_slots:
  assumes "u \<in> minute_units" "unit_start u t = b" "minute_us dvd t"
  shows "\<exists>k<minute_size u. t = b + minute_us * int k"
proof -
  let ?n = "minute_size u"
  have w: "unit_width u = int ?n * minute_us" "u \<noteq> U1M" "0 < unit_width u"
    using assms(1) by (auto simp: minute_units_def minute_size_def hour_us_def)
  have b: "b = grid_start (unit_width u) t" using assms(2) w(2) by (simp add: unit_start_def)
  have bounds: "b \<le> t" "t < b + unit_width u" unfolding b using grid_start_bounds [OF w(3)] by auto
  have "minute_us dvd unit_width u" by (simp add: w(1))
  moreover have "unit_width u dvd b" unfolding b by (rule grid_start_dvd)
  ultimately have "minute_us dvd b" by (rule dvd_trans)
  then have "minute_us dvd t - b" using assms(3) by (rule dvd_diff [rotated])
  then obtain k where k: "t - b = minute_us * k" by (elim dvdE)
  have "0 \<le> k" using bounds(1) k us_pos(2) by (metis diff_ge_0_iff_ge zero_le_mult_iff not_less)
  moreover have "t < b + minute_us * int ?n" using bounds(2) by (simp add: w(1) mult.commute)
  then have "minute_us * k < minute_us * int ?n" unfolding k [symmetric] by linarith
  then have "k < int ?n" by (simp add: mult_less_cancel_left_pos)
  ultimately show ?thesis using k by (intro exI [of _ "nat k"]) auto
qed

lemma observed_slots:
  assumes u: "u \<in> minute_units" and d: "distinct_starts source" "distinct source"
    and a: "\<forall>c\<in>set source. minute_us dvd sc_candle_start_at c"
  shows "length (missing_slots b (minute_size u) (bucket_items u source b) (unit_name u)) +
    length (bucket_items u source b) = minute_size u"
proof -
  let ?items = "bucket_items u source b"
  let ?slots = "map (\<lambda>k. b + minute_us * int k) [0..<minute_size u]"
  have delta: "slot_delta (unit_name u) = minute_us"
    using u by (auto simp: minute_units_def slot_delta_def)
  have "minute_us \<noteq> 0" using us_pos(2) by linarith
  then have ds: "distinct ?slots" by (auto simp: distinct_map inj_on_def)
  have di: "distinct (map ci_started_at ?items)"
    using bucket_items_inj [OF d(1)] d(2)
    by (simp add: distinct_map bucket_items_def minute_candles_def inj_on_def)
  have "set (map ci_started_at ?items) \<subseteq> set ?slots"
  proof
    fix t assume "t \<in> set (map ci_started_at ?items)"
    then obtain c where c: "c \<in> set source" "unit_start u (sc_candle_start_at c) = b" "t = sc_candle_start_at c"
      by (auto simp: bucket_items_def minute_candles_def)
    obtain k where "k < minute_size u" "t = b + minute_us * int k"
      using minute_bucket_slots [OF u c(2)] a c by auto
    then show "t \<in> set ?slots" by auto
  qed
  then have "card (set ?slots) = card (set ?slots - set (map ci_started_at ?items)) + card (set (map ci_started_at ?items))"
    by (metis card_Diff_subset card_mono finite_set le_add_diff_inverse2)
  moreover have "length (missing_slots b (minute_size u) ?items (unit_name u)) =
      card (set ?slots - set (map ci_started_at ?items))"
  proof -
    have "distinct (filter (\<lambda>t. t \<notin> ci_started_at ` set ?items) ?slots)" using ds by simp
    from distinct_card [OF this] show ?thesis
      by (simp add: missing_slots_def delta set_diff_eq)
  qed
  ultimately show ?thesis using distinct_card [OF ds] distinct_card [OF di] by simp
qed

text \<open>
  Completeness and quality agree and are exact: for a minute unit and distinct, minute-aligned
  source candles, an aggregated candle is \<open>complete\<close> exactly when its quality is \<open>available\<close>, and
  this holds exactly when every minute slot of its bucket either has a source candle or lies in
  verified coverage that says \<open>no_trade\<close> and nothing else.
\<close>

theorem aggregate_completeness_exact:
  assumes "u \<in> minute_units" and "distinct_starts source" "distinct source"
    and "\<forall>c\<in>set source. minute_us dvd sc_candle_start_at c"
    and "aggregate_candles (unit_name u) source coverage = Inr vs" "v \<in> set vs"
  shows "(cv_completeness v = ''complete'' \<longleftrightarrow> cv_quality v = ''available'') \<and>
    (cv_quality v = ''available'' \<longleftrightarrow>
      (\<forall>k<minute_size u. let slot = cv_started_at v + minute_us * int k;
           covering = [g \<leftarrow> coverage. cs_start_at g \<le> slot \<and> slot + minute_us \<le> cs_end_at g] in
         (\<exists>c\<in>set source. sc_candle_unit c = ''1m'' \<and> sc_candle_start_at c = slot \<and>
            unit_start u slot = cv_started_at v) \<or>
         ''no_trade'' \<in> cs_status ` set covering \<and>
         cs_status ` set covering \<inter> {''missing'', ''unavailable'', ''unverified'', ''available''} = {}))"
proof -
  obtain b where b: "b \<in> set (source_buckets u source)"
    "v = aggregate_group (minute_size u) coverage (unit_name u) (b, bucket_items u source b)"
    using assms(5,6) by (auto simp: aggregate_candles_minutes [OF assms(1)])
  let ?n = "minute_size u"
  let ?items = "bucket_items u source b"
  let ?o = "sort_key ci_started_at ?items"
  let ?missing = "missing_slots b ?n ?items (unit_name u)"
  let ?st = "map (slot_status coverage (unit_name u)) ?missing"
  have n: "?n \<noteq> 0" and delta: "slot_delta (unit_name u) = minute_us"
    using assms(1) by (auto simp: minute_units_def minute_size_def slot_delta_def)
  have st: "missing_slot_statuses b ?n ?o coverage (unit_name u) = ?st"
    by (simp add: missing_slot_statuses_def missing_slots_def)
  have v: "cv_started_at v = b" "cv_quality v = worst_quality ?st"
    "cv_completeness v = (if is_complete ?o ?n ?st then ''complete'' else ''partial'')"
    using n by (simp_all add: b(2) aggregate_group_def Let_def st)
  have "set ?st \<subseteq> {''missing'', ''unavailable'', ''unverified'', ''available'', ''no_trade''}"
    using slot_status_range by auto
  note q = worst_quality_available [OF this]
  have len: "length ?missing + length ?items = ?n"
    by (rule observed_slots [OF assms(1-4)])
  have "is_complete ?o ?n ?st \<longleftrightarrow> (\<forall>s\<in>set ?st. s = ''no_trade'')"
    using len by (auto simp: is_complete_def list_all_iff)
  then have complete: "cv_completeness v = ''complete'' \<longleftrightarrow> cv_quality v = ''available''"
    by (simp add: v q)
  have status: "slot_status coverage (unit_name u) t = ''no_trade'' \<longleftrightarrow>
      (let covering = [g \<leftarrow> coverage. cs_start_at g \<le> t \<and> t + minute_us \<le> cs_end_at g] in
       ''no_trade'' \<in> cs_status ` set covering \<and>
       cs_status ` set covering \<inter> {''missing'', ''unavailable'', ''unverified'', ''available''} = {})" for t
    by (cases "slot_matches coverage t (t + minute_us) = []")
       (auto simp: slot_status_def slot_quality_no_trade slot_matches_def delta Let_def filter_empty_conv)
  have obs: "t \<in> ci_started_at ` set ?items \<longleftrightarrow>
      (\<exists>c\<in>set source. sc_candle_unit c = ''1m'' \<and> sc_candle_start_at c = t \<and> unit_start u t = b)" for t
    by (force simp: bucket_items_def minute_candles_def image_iff)
  have "cv_quality v = ''available'' \<longleftrightarrow>
      (\<forall>k<?n. b + minute_us * int k \<in> ci_started_at ` set ?items \<or>
         slot_status coverage (unit_name u) (b + minute_us * int k) = ''no_trade'')"
  proof -
    have "set ?missing = {t. (\<exists>k<?n. t = b + minute_us * int k) \<and> t \<notin> ci_started_at ` set ?items}"
      by (auto simp: missing_slots_def delta)
    then show ?thesis unfolding v(2) q by auto
  qed
  then show ?thesis
    using complete unfolding obs status v(1) Let_def by blast
qed

section \<open>Witnesses\<close>

definition example_source :: "string \<Rightarrow> int \<Rightarrow> nat \<Rightarrow> source_candle" where
  "example_source unit m p =
     \<lparr>sc_instrument_id = 1, sc_candle_unit = unit, sc_candle_start_at = minute_us * m,
      sc_open_price = Dec False p 0, sc_high_price = Dec False (p + 2) 0, sc_low_price = Dec False (p - 1) 0,
      sc_close_price = Dec False (p + 1) 0, sc_trade_volume = Dec False 1 0, sc_trade_amount = Dec False p 0,
      sc_collected_at = minute_us * (m + 1), sc_revision_id = Some m, sc_input_content_hash = None,
      sc_knowledge_at = None\<rparr>"

definition example_minutes :: "source_candle list" where
  "example_minutes = [example_source ''1m'' 5 20, example_source ''1m'' 0 10, example_source ''1m'' 2 30]"

definition example_coverage :: "coverage_slice list" where
  "example_coverage = [\<lparr>cs_start_at = minute_us, cs_end_at = 2 * minute_us, cs_status = ''no_trade''\<rparr>]"

lemma minute_us_value: "minute_us = 60000000"
  by (simp add: minute_us_def second_us_def)

lemma example_minutes_facts:
  "distinct_starts example_minutes" "distinct example_minutes"
  "\<forall>c\<in>set example_minutes. minute_us dvd sc_candle_start_at c"
  "\<forall>c\<in>set example_minutes. ohlc_ok (Source c)"
  by (auto simp: distinct_starts_def example_minutes_def example_source_def minute_us_value inj_on_def ohlc_ok_def)

lemma example_starts:
  assumes "aggregate_candles (unit_name U3m) example_minutes coverage = Inr vs"
  shows "map cv_started_at vs = [0, 3 * minute_us]"
proof -
  have m: "U3m \<in> minute_units" by (simp add: minute_units_def)
  have "source_buckets U3m example_minutes = [0, 3 * minute_us]"
    by (simp add: source_buckets_def sorted_set_def minute_candles_def example_minutes_def example_source_def
        unit_start_def grid_start_def minute_us_value)
  then show ?thesis using assms unfolding aggregate_candles_minutes [OF m] by auto
qed


theorem aggregate_candles_wellformed_witness:
  "\<exists>vs. aggregate_candles (unit_name U3m) example_minutes [] = Inr vs \<and> vs \<noteq> [] \<and> (\<forall>v\<in>set vs. ohlc_ok (View v))"
proof -
  have m: "U3m \<in> minute_units" by (simp add: minute_units_def)
  obtain vs where vs: "aggregate_candles (unit_name U3m) example_minutes [] = Inr vs"
    using aggregate_candles_minutes [OF m] by blast
  show ?thesis
    using aggregate_candles_wellformed [OF example_minutes_facts(4) vs] vs example_starts [OF vs] by auto
qed

theorem aggregate_candles_order_independent_witness:
  "aggregate_candles ''1d'' example_minutes example_coverage =
   aggregate_candles ''1d'' (rev example_minutes) example_coverage"
  by (rule aggregate_candles_order_independent) (simp_all add: example_minutes_facts)

theorem aggregate_completeness_exact_witness:
  "\<exists>v vs. aggregate_candles (unit_name U3m) example_minutes example_coverage = Inr vs \<and> v \<in> set vs \<and>
     cv_started_at v = 0 \<and> cv_completeness v = ''complete''"
proof -
  have m: "U3m \<in> minute_units" by (simp add: minute_units_def)
  obtain vs where vs: "aggregate_candles (unit_name U3m) example_minutes example_coverage = Inr vs"
    using aggregate_candles_minutes [OF m] by blast
  obtain v where v: "v \<in> set vs" "cv_started_at v = 0" using example_starts [OF vs] by (cases vs) auto
  note E = aggregate_completeness_exact [OF m example_minutes_facts(1-3) vs v(1)]
  have "\<forall>k<minute_size U3m. let slot = cv_started_at v + minute_us * int k;
           covering = [g \<leftarrow> example_coverage. cs_start_at g \<le> slot \<and> slot + minute_us \<le> cs_end_at g] in
         (\<exists>c\<in>set example_minutes. sc_candle_unit c = ''1m'' \<and> sc_candle_start_at c = slot \<and>
            unit_start U3m slot = cv_started_at v) \<or>
         ''no_trade'' \<in> cs_status ` set covering \<and>
         cs_status ` set covering \<inter> {''missing'', ''unavailable'', ''unverified'', ''available''} = {}"
    unfolding v(2) minute_size_def
    by (auto simp: example_minutes_def example_source_def example_coverage_def unit_start_def grid_start_def
        minute_us_value less_Suc_eq numeral_3_eq_3)
  then show ?thesis using E vs v by blast
qed

end
