(* ===== verification/Microstructure.thy ===== *)
theory Microstructure
  imports Candle_Aggregation
begin

text \<open>
  One-minute microstructure points (\<^verbatim>\<open>versioned_microstructure.py\<close>): the inputs that lie in the bucket
  and behind the source frontiers are selected and ordered, the closing order book gives spread, depth and
  imbalance, the trades reconciled with the source candle give the flow values, and both hashes are
  formed over what was selected. Timestamps are UTC instants and decimals are finite, as the store
  supplies them; the order book and flow arithmetic runs in a context of 50 digits, the reconciliation
  sums and the printed values in the default context.
\<close>

section \<open>Records\<close>

record orderbook_level =
  ol_level_index :: int
  ol_ask_price :: dec
  ol_ask_size :: dec
  ol_bid_price :: dec
  ol_bid_size :: dec

record orderbook_input =
  ob_snapshot_id :: int
  ob_occurred_at :: int
  ob_knowledge_at :: int
  ob_level :: "dec option"
  ob_levels :: "orderbook_level list"
  ob_source_receipt_id :: int

record trade_input =
  ti_trade_event_id :: int
  ti_occurred_at :: int
  ti_knowledge_at :: int
  ti_direction :: string
  ti_volume :: dec
  ti_amount :: dec
  ti_source_receipt_id :: int

record candle_input =
  ca_source_candle_revision_id :: "int option"
  ca_started_at :: int
  ca_knowledge_at :: int
  ca_source_as_of :: int
  ca_quality :: string
  ca_volume :: dec
  ca_amount :: dec
  ca_quality_event_through_id :: "int option"

datatype ms_error = Ms_CandleWithoutRevision | Ms_NoTradeProof | Ms_NegativeCandle |
  Ms_BucketLength | Ms_NegativeFrontier | Ms_Arithmetic dec_error

definition candle_input_check :: "candle_input \<Rightarrow> ms_error + unit" where
  "candle_input_check c =
     (if ca_quality c = ''available'' \<and> ca_source_candle_revision_id c = None
      then Inl Ms_CandleWithoutRevision
      else if ca_quality c = ''no_trade'' \<and>
        (ca_source_candle_revision_id c \<noteq> None \<or> ca_quality_event_through_id c = None)
      then Inl Ms_NoTradeProof
      else if dec_lt (ca_volume c) dec_zero \<or> dec_lt (ca_amount c) dec_zero
      then Inl Ms_NegativeCandle
      else Inr ())"

record microstructure_point =
  mp_started_at :: int
  mp_calculation_version :: string
  mp_closing_orderbook_snapshot_id :: "int option"
  mp_closing_orderbook_source_receipt_id :: "int option"
  mp_spread :: "dec option"
  mp_spread_bps :: "dec option"
  mp_bid_depth_10 :: "dec option"
  mp_ask_depth_10 :: "dec option"
  mp_orderbook_imbalance_10 :: "dec option"
  mp_trade_count :: "int option"
  mp_trade_intensity_per_minute :: "dec option"
  mp_volume_intensity_per_minute :: "dec option"
  mp_buy_count :: "int option"
  mp_sell_count :: "int option"
  mp_buy_volume :: "dec option"
  mp_sell_volume :: "dec option"
  mp_buy_sell_imbalance :: "dec option"
  mp_execution_strength :: "dec option"
  mp_orderbook_status :: string
  mp_orderbook_quality :: string
  mp_trade_status :: string
  mp_trade_quality :: string
  mp_execution_strength_status :: string
  mp_orderbook_snapshot_through_id :: int
  mp_trade_event_through_id :: int
  mp_source_receipt_through_id :: int
  mp_source_candle_revision_id :: "int option"
  mp_quality_event_through_id :: "int option"
  mp_connection_quality_through_id :: int
  mp_source_as_of :: "int option"
  mp_knowledge_at :: "int option"
  mp_input_lineage_hash :: string
  mp_content_hash :: string

definition MS_CALCULATION_VERSION :: string where
  "MS_CALCULATION_VERSION = ''microstructure-v1''"

section \<open>Order book values\<close>

record orderbook_values =
  ov_spread :: "dec option"
  ov_spread_bps :: "dec option"
  ov_bid_depth :: "dec option"
  ov_ask_depth :: "dec option"
  ov_imbalance :: "dec option"
  ov_status :: string

definition no_orderbook_values :: "string \<Rightarrow> orderbook_values" where
  "no_orderbook_values status =
     \<lparr>ov_spread = None, ov_spread_bps = None, ov_bid_depth = None, ov_ask_depth = None,
      ov_imbalance = None, ov_status = status\<rparr>"

definition ms_quot :: "dec \<Rightarrow> dec \<Rightarrow> ms_error + dec" where
  "ms_quot a b = (case dec_div 50 a b of Inl e \<Rightarrow> Inl (Ms_Arithmetic e) | Inr c \<Rightarrow> Inr c)"

definition is_default_level :: "orderbook_input \<Rightarrow> bool" where
  "is_default_level s = (case ob_level s of None \<Rightarrow> False | Some l \<Rightarrow> dec_eq l dec_zero)"

definition invalid_level :: "orderbook_level \<Rightarrow> bool" where
  "invalid_level l \<longleftrightarrow> dec_le (ol_ask_price l) dec_zero \<or> dec_le (ol_bid_price l) dec_zero \<or>
     dec_lt (ol_ask_size l) dec_zero \<or> dec_lt (ol_bid_size l) dec_zero"

definition ready_orderbook :: "orderbook_level list \<Rightarrow> ms_error + orderbook_values" where
  "ready_orderbook first_ten =
     (let best = hd first_ten; spread = dec_sub 50 (ol_ask_price best) (ol_bid_price best) in
      res_bind (ms_quot (dec_add 50 (ol_ask_price best) (ol_bid_price best)) (dec_of_int 2)) (\<lambda>midpoint.
      if dec_le midpoint dec_zero then Inr (no_orderbook_values ''invalid'')
      else
        let bid_depth = dec_sum 50 (map ol_bid_size first_ten);
            ask_depth = dec_sum 50 (map ol_ask_size first_ten);
            denominator = dec_add 50 bid_depth ask_depth
        in if dec_eq denominator dec_zero then Inr (no_orderbook_values ''undefined'')
           else res_bind (ms_quot spread midpoint) (\<lambda>relative.
             res_bind (ms_quot (dec_sub 50 bid_depth ask_depth) denominator) (\<lambda>imbalance.
             Inr \<lparr>ov_spread = Some spread,
                  ov_spread_bps = Some (dec_mul 50 relative (dec_of_int 10000)),
                  ov_bid_depth = Some bid_depth, ov_ask_depth = Some ask_depth,
                  ov_imbalance = Some imbalance, ov_status = ''ready''\<rparr>))))"

definition orderbook_values_of :: "orderbook_input option \<Rightarrow> ms_error + orderbook_values" where
  "orderbook_values_of snapshot =
     (case snapshot of None \<Rightarrow> Inr (no_orderbook_values ''missing'')
      | Some s \<Rightarrow>
        let ordered = sort_key ol_level_index (ob_levels s); first_ten = take 10 ordered in
        if \<not> is_default_level s \<or> length ordered < 10 then Inr (no_orderbook_values ''partial'')
        else if map ol_level_index first_ten \<noteq> map int [0..<10] \<or> list_ex invalid_level first_ten
        then Inr (no_orderbook_values ''invalid'')
        else if dec_le (ol_ask_price (hd first_ten)) (ol_bid_price (hd first_ten))
        then Inr (no_orderbook_values ''invalid'')
        else ready_orderbook first_ten)"

section \<open>Trade values\<close>

record trade_values =
  tv_trade_count :: "int option"
  tv_intensity :: "dec option"
  tv_buy_count :: "int option"
  tv_sell_count :: "int option"
  tv_buy_volume :: "dec option"
  tv_sell_volume :: "dec option"
  tv_imbalance :: "dec option"
  tv_strength :: "dec option"
  tv_status :: string
  tv_strength_status :: string

definition no_trade_values :: "string \<Rightarrow> trade_values" where
  "no_trade_values status =
     \<lparr>tv_trade_count = None, tv_intensity = None, tv_buy_count = None, tv_sell_count = None,
      tv_buy_volume = None, tv_sell_volume = None, tv_imbalance = None, tv_strength = None,
      tv_status = status, tv_strength_status = status\<rparr>"

definition zero_trade_values :: trade_values where
  "zero_trade_values =
     \<lparr>tv_trade_count = Some 0, tv_intensity = Some dec_zero, tv_buy_count = Some 0, tv_sell_count = Some 0,
      tv_buy_volume = Some dec_zero, tv_sell_volume = Some dec_zero, tv_imbalance = None,
      tv_strength = None, tv_status = ''ready'', tv_strength_status = ''undefined''\<rparr>"

definition invalid_trade :: "trade_input \<Rightarrow> bool" where
  "invalid_trade t \<longleftrightarrow> ti_direction t \<notin> {''BID'', ''ASK''} \<or> dec_le (ti_volume t) dec_zero \<or>
     dec_le (ti_amount t) dec_zero"

definition quot_if_pos :: "dec \<Rightarrow> dec \<Rightarrow> ms_error + dec option" where
  "quot_if_pos a b = (if dec_lt dec_zero b then res_map Some (ms_quot a b) else Inr None)"

definition ready_trades :: "trade_input list \<Rightarrow> ms_error + trade_values" where
  "ready_trades trades =
     (let buys = filter (\<lambda>t. ti_direction t = ''BID'') trades;
          sells = filter (\<lambda>t. ti_direction t = ''ASK'') trades;
          buy_volume = dec_sum 50 (map ti_volume buys);
          sell_volume = dec_sum 50 (map ti_volume sells);
          total_volume = dec_add 50 buy_volume sell_volume
      in res_bind (quot_if_pos (dec_sub 50 buy_volume sell_volume) total_volume) (\<lambda>imbalance.
         res_bind (quot_if_pos buy_volume sell_volume) (\<lambda>ratio.
         let strength = map_option (\<lambda>r. dec_mul 50 r (dec_of_int 100)) ratio in
         Inr \<lparr>tv_trade_count = Some (int (length trades)),
              tv_intensity = Some (dec_of_int (int (length trades))),
              tv_buy_count = Some (int (length buys)), tv_sell_count = Some (int (length sells)),
              tv_buy_volume = Some buy_volume, tv_sell_volume = Some sell_volume,
              tv_imbalance = imbalance, tv_strength = strength, tv_status = ''ready'',
              tv_strength_status = (if strength = None then ''undefined'' else ''ready'')\<rparr>)))"

definition trade_values_of ::
  "trade_input list \<Rightarrow> candle_input option \<Rightarrow> string \<Rightarrow> ms_error + trade_values" where
  "trade_values_of trades source_candle resolved_quality =
     (case source_candle of None \<Rightarrow> Inr (no_trade_values ''missing'')
      | Some c \<Rightarrow>
        if resolved_quality = ''no_trade'' then
          if trades \<noteq> [] \<or> \<not> dec_eq (ca_volume c) dec_zero \<or> \<not> dec_eq (ca_amount c) dec_zero
          then Inr (no_trade_values ''missing'') else Inr zero_trade_values
        else if resolved_quality \<noteq> ''available'' \<or> trades = [] then Inr (no_trade_values ''missing'')
        else if list_ex invalid_trade trades then Inr (no_trade_values ''invalid'')
        else if \<not> dec_eq (dec_sum PREC_DEFAULT (map ti_volume trades)) (ca_volume c) \<or>
          \<not> dec_eq (dec_sum PREC_DEFAULT (map ti_amount trades)) (ca_amount c)
        then Inr (no_trade_values ''missing'')
        else ready_trades trades)"

section \<open>The bucket\<close>

text \<open>The keyword arguments of \<^verbatim>\<open>calculate_microstructure_bucket\<close>.\<close>

record bucket_request =
  br_started_at :: int
  br_ended_at :: int
  br_orderbook_snapshot_through_id :: int
  br_trade_event_through_id :: int
  br_source_receipt_through_id :: int
  br_source_candle :: "candle_input option"
  br_orderbook_quality :: "string option"
  br_trade_quality :: "string option"
  br_connection_quality_through_id :: int
  br_connection_quality_source_as_of :: "int option"
  br_connection_quality_knowledge_at :: "int option"

definition orderbook_in_scope :: "bucket_request \<Rightarrow> orderbook_input \<Rightarrow> bool" where
  "orderbook_in_scope r s \<longleftrightarrow>
     br_started_at r \<le> ob_occurred_at s \<and> ob_occurred_at s < br_ended_at r \<and>
     ob_snapshot_id s \<le> br_orderbook_snapshot_through_id r \<and>
     ob_source_receipt_id s \<le> br_source_receipt_through_id r"

definition trade_in_scope :: "bucket_request \<Rightarrow> trade_input \<Rightarrow> bool" where
  "trade_in_scope r t \<longleftrightarrow>
     br_started_at r \<le> ti_occurred_at t \<and> ti_occurred_at t < br_ended_at r \<and>
     ti_trade_event_id t \<le> br_trade_event_through_id r \<and>
     ti_source_receipt_id t \<le> br_source_receipt_through_id r"

definition orderbook_key :: "orderbook_input \<Rightarrow> int \<times> int" where
  "orderbook_key s = (ob_occurred_at s, ob_snapshot_id s)"

definition trade_key :: "trade_input \<Rightarrow> int \<times> int" where
  "trade_key t = (ti_occurred_at t, ti_trade_event_id t)"

definition selected_orderbooks :: "bucket_request \<Rightarrow> orderbook_input list \<Rightarrow> orderbook_input list" where
  "selected_orderbooks r orderbooks = sort_key orderbook_key (filter (orderbook_in_scope r) orderbooks)"

definition selected_trades :: "bucket_request \<Rightarrow> trade_input list \<Rightarrow> trade_input list" where
  "selected_trades r trades = sort_key trade_key (filter (trade_in_scope r) trades)"

definition last_opt :: "'a list \<Rightarrow> 'a option" where
  "last_opt xs = (if xs = [] then None else Some (last xs))"

definition closing_candidate :: "orderbook_input list \<Rightarrow> orderbook_input option" where
  "closing_candidate selected =
     (if filter is_default_level selected \<noteq> [] then last_opt (filter is_default_level selected)
      else last_opt selected)"

definition resolved_orderbook_quality :: "bucket_request \<Rightarrow> orderbook_input option \<Rightarrow> string" where
  "resolved_orderbook_quality r candidate =
     (case br_orderbook_quality r of
        Some q \<Rightarrow> if q \<noteq> [] then q else if candidate \<noteq> None then ''available'' else ''unverified''
      | None \<Rightarrow> if candidate \<noteq> None then ''available'' else ''unverified'')"

definition closing_orderbook :: "bucket_request \<Rightarrow> orderbook_input list \<Rightarrow> orderbook_input option" where
  "closing_orderbook r selected =
     (let candidate = closing_candidate selected in
      if resolved_orderbook_quality r candidate = ''available'' then candidate else None)"

definition resolved_trade_quality :: "bucket_request \<Rightarrow> string" where
  "resolved_trade_quality r =
     (let candle_quality = (case br_source_candle r of Some c \<Rightarrow> ca_quality c | None \<Rightarrow> ''unverified'') in
      case br_trade_quality r of
        Some q \<Rightarrow> if q \<noteq> ''available'' then q else candle_quality
      | None \<Rightarrow> candle_quality)"

definition source_as_of_values ::
  "bucket_request \<Rightarrow> orderbook_input list \<Rightarrow> trade_input list \<Rightarrow> int list" where
  "source_as_of_values r orderbooks trades =
     map ob_occurred_at orderbooks @ map ti_occurred_at trades @
     (case br_source_candle r of Some c \<Rightarrow> [ca_source_as_of c] | None \<Rightarrow> []) @
     (case br_connection_quality_source_as_of r of Some t \<Rightarrow> [t] | None \<Rightarrow> [])"

definition knowledge_values ::
  "bucket_request \<Rightarrow> orderbook_input list \<Rightarrow> trade_input list \<Rightarrow> int list" where
  "knowledge_values r orderbooks trades =
     map ob_knowledge_at orderbooks @ map ti_knowledge_at trades @
     (case br_source_candle r of Some c \<Rightarrow> [ca_knowledge_at c] | None \<Rightarrow> []) @
     (case br_connection_quality_knowledge_at r of Some t \<Rightarrow> [t] | None \<Rightarrow> [])"

definition json_int_opt :: "int option \<Rightarrow> json" where
  "json_int_opt v = (case v of None \<Rightarrow> JNull | Some i \<Rightarrow> JInt i)"

definition ms_canonical :: "dec option \<Rightarrow> json" where
  "ms_canonical v =
     (case v of None \<Rightarrow> JNull
      | Some d \<Rightarrow> JStr (if dec_eq d dec_zero then ''0'' else dec_format_f (dec_normalize PREC_DEFAULT d)))"

definition ms_hash :: "json \<Rightarrow> string" where
  "ms_hash v = sha256_hex (json_dumps v)"

definition lineage_payload ::
  "bucket_request \<Rightarrow> orderbook_input list \<Rightarrow> trade_input list \<Rightarrow> json" where
  "lineage_payload r orderbooks trades = JObj
     [(''orderbookSnapshotIds'', JArr (map (JInt \<circ> ob_snapshot_id) orderbooks)),
      (''tradeEventIds'', JArr (map (JInt \<circ> ti_trade_event_id) trades)),
      (''sourceReceiptIds'', JArr (map JInt
         (sort (map ob_source_receipt_id orderbooks @ map ti_source_receipt_id trades)))),
      (''sourceCandleRevisionId'',
         json_int_opt (Option.bind (br_source_candle r) ca_source_candle_revision_id)),
      (''qualityEventThroughId'',
         json_int_opt (Option.bind (br_source_candle r) ca_quality_event_through_id)),
      (''connectionQualityThroughId'', JInt (br_connection_quality_through_id r)),
      (''frontiers'', JObj
         [(''orderbookSnapshotThroughId'', JInt (br_orderbook_snapshot_through_id r)),
          (''tradeEventThroughId'', JInt (br_trade_event_through_id r)),
          (''sourceReceiptThroughId'', JInt (br_source_receipt_through_id r))])]"

definition volume_intensity :: "trade_values \<Rightarrow> dec option" where
  "volume_intensity tv =
     (case (tv_buy_volume tv, tv_sell_volume tv) of
        (Some b, Some s) \<Rightarrow> Some (dec_add PREC_DEFAULT b s)
      | _ \<Rightarrow> None)"

definition ms_content_payload ::
  "int \<Rightarrow> orderbook_input option \<Rightarrow> orderbook_values \<Rightarrow> trade_values \<Rightarrow> string \<Rightarrow> string \<Rightarrow> string \<Rightarrow> json" where
  "ms_content_payload started_at closing ov tv orderbook_quality trade_quality lineage_hash = JObj
     [(''startedAt'', JStr (isoformat (utc started_at))),
      (''calculationVersion'', JStr MS_CALCULATION_VERSION),
      (''closingOrderbookSnapshotId'', json_int_opt (map_option ob_snapshot_id closing)),
      (''values'', JObj
         [(''spread'', ms_canonical (ov_spread ov)),
          (''spreadBps'', ms_canonical (ov_spread_bps ov)),
          (''bidDepth10'', ms_canonical (ov_bid_depth ov)),
          (''askDepth10'', ms_canonical (ov_ask_depth ov)),
          (''orderbookImbalance10'', ms_canonical (ov_imbalance ov)),
          (''tradeCount'', json_int_opt (tv_trade_count tv)),
          (''tradeIntensityPerMinute'', ms_canonical (tv_intensity tv)),
          (''volumeIntensityPerMinute'', ms_canonical (volume_intensity tv)),
          (''buyCount'', json_int_opt (tv_buy_count tv)),
          (''sellCount'', json_int_opt (tv_sell_count tv)),
          (''buyVolume'', ms_canonical (tv_buy_volume tv)),
          (''sellVolume'', ms_canonical (tv_sell_volume tv)),
          (''buySellImbalance'', ms_canonical (tv_imbalance tv)),
          (''executionStrength'', ms_canonical (tv_strength tv))]),
      (''statuses'', JArr [JStr (ov_status ov), JStr (tv_status tv), JStr (tv_strength_status tv)]),
      (''qualities'', JArr [JStr orderbook_quality, JStr trade_quality]),
      (''inputLineageHash'', JStr lineage_hash)]"

definition bucket_point ::
  "bucket_request \<Rightarrow> orderbook_input list \<Rightarrow> trade_input list \<Rightarrow> ms_error + microstructure_point" where
  "bucket_point r orderbooks trades =
     (let closing = closing_orderbook r orderbooks;
          orderbook_quality = resolved_orderbook_quality r (closing_candidate orderbooks);
          trade_quality = resolved_trade_quality r;
          lineage_hash = ms_hash (lineage_payload r orderbooks trades)
      in res_bind (orderbook_values_of closing) (\<lambda>ov.
         res_bind (trade_values_of trades (br_source_candle r) trade_quality) (\<lambda>tv.
         Inr \<lparr>mp_started_at = br_started_at r, mp_calculation_version = MS_CALCULATION_VERSION,
              mp_closing_orderbook_snapshot_id = map_option ob_snapshot_id closing,
              mp_closing_orderbook_source_receipt_id = map_option ob_source_receipt_id closing,
              mp_spread = ov_spread ov, mp_spread_bps = ov_spread_bps ov,
              mp_bid_depth_10 = ov_bid_depth ov, mp_ask_depth_10 = ov_ask_depth ov,
              mp_orderbook_imbalance_10 = ov_imbalance ov,
              mp_trade_count = tv_trade_count tv, mp_trade_intensity_per_minute = tv_intensity tv,
              mp_volume_intensity_per_minute = volume_intensity tv,
              mp_buy_count = tv_buy_count tv, mp_sell_count = tv_sell_count tv,
              mp_buy_volume = tv_buy_volume tv, mp_sell_volume = tv_sell_volume tv,
              mp_buy_sell_imbalance = tv_imbalance tv, mp_execution_strength = tv_strength tv,
              mp_orderbook_status = ov_status ov, mp_orderbook_quality = orderbook_quality,
              mp_trade_status = tv_status tv, mp_trade_quality = trade_quality,
              mp_execution_strength_status = tv_strength_status tv,
              mp_orderbook_snapshot_through_id = br_orderbook_snapshot_through_id r,
              mp_trade_event_through_id = br_trade_event_through_id r,
              mp_source_receipt_through_id = br_source_receipt_through_id r,
              mp_source_candle_revision_id = Option.bind (br_source_candle r) ca_source_candle_revision_id,
              mp_quality_event_through_id = Option.bind (br_source_candle r) ca_quality_event_through_id,
              mp_connection_quality_through_id = br_connection_quality_through_id r,
              mp_source_as_of = fold_first max (source_as_of_values r orderbooks trades),
              mp_knowledge_at = fold_first max (knowledge_values r orderbooks trades),
              mp_input_lineage_hash = lineage_hash,
              mp_content_hash = ms_hash (ms_content_payload (br_started_at r) closing ov tv
                orderbook_quality trade_quality lineage_hash)\<rparr>)))"

definition calculate_microstructure_bucket ::
  "bucket_request \<Rightarrow> orderbook_input list \<Rightarrow> trade_input list \<Rightarrow> ms_error + microstructure_point" where
  "calculate_microstructure_bucket r orderbooks trades =
     (if br_ended_at r - br_started_at r \<noteq> minute_us then Inl Ms_BucketLength
      else if br_orderbook_snapshot_through_id r < 0 \<or> br_trade_event_through_id r < 0 \<or>
        br_source_receipt_through_id r < 0 then Inl Ms_NegativeFrontier
      else bucket_point r (selected_orderbooks r orderbooks) (selected_trades r trades))"

section \<open>Selection\<close>

text \<open>Both inputs are selected the same way: what is in scope, ordered by time and identifier.\<close>

locale scoped_selection =
  fixes key :: "'a \<Rightarrow> 'k::linorder"
    and scope :: "'r \<Rightarrow> 'a \<Rightarrow> bool"
    and select :: "'r \<Rightarrow> 'a list \<Rightarrow> 'a list"
  assumes select_eq: "select r xs = sort_key key (filter (scope r) xs)"
begin

lemma select_set: "set (select r xs) = {x \<in> set xs. scope r x}"
  by (auto simp: select_eq)

lemma select_sorted: "sorted (map key (select r xs))"
  by (simp add: select_eq)

lemma select_cong:
  assumes "mset (filter (scope r) xs) = mset (filter (scope r) ys)"
    and "inj_on key {x \<in> set xs. scope r x}"
  shows "select r xs = select r ys"
  using assms unfolding select_eq by (intro sort_key_perm_distinct) (simp_all add: set_filter)

lemma select_last:
  assumes "s \<in> set (filter P (select r xs))" "\<forall>s'\<in>set (filter P (select r xs)). key s' \<le> key s"
    and inj: "inj_on key {x \<in> set xs. scope r x}"
  shows "last (filter P (select r xs)) = s"
proof -
  let ?l = "filter P (select r xs)"
  have ne: "?l \<noteq> []" using assms(1) by (metis empty_iff empty_set)
  obtain ys z where z: "?l = ys @ [z]" using ne by (cases ?l rule: rev_cases) auto
  have "sorted (map key ?l)" by (rule sorted_filter [OF select_sorted])
  then have "key s \<le> key z" using assms(1) unfolding z by (auto simp: sorted_append)
  moreover have "z \<in> set ?l" using z by simp
  ultimately have "key z = key s" using assms(2) by (meson order.antisym)
  then have "z = s" using \<open>z \<in> set ?l\<close> assms(1) inj by (auto simp: select_set inj_on_def)
  then show ?thesis using z by simp
qed

lemma last_greatest:
  assumes "filter P (select r xs) \<noteq> []"
  shows "last (filter P (select r xs)) \<in> set (filter P (select r xs))"
    and "\<forall>s'\<in>set (filter P (select r xs)). key s' \<le> key (last (filter P (select r xs)))"
proof -
  let ?l = "filter P (select r xs)"
  show "last ?l \<in> set ?l" using assms by (rule last_in_set)
  obtain ys z where z: "?l = ys @ [z]" using assms by (cases ?l rule: rev_cases) auto
  have "sorted (map key ?l)" by (rule sorted_filter [OF select_sorted])
  then show "\<forall>s'\<in>set ?l. key s' \<le> key (last ?l)" unfolding z by (auto simp: sorted_append)
qed

end

interpretation books: scoped_selection orderbook_key orderbook_in_scope selected_orderbooks
  by unfold_locales (simp add: selected_orderbooks_def)

interpretation flow: scoped_selection trade_key trade_in_scope selected_trades
  by unfold_locales (simp add: selected_trades_def)

section \<open>Arithmetic\<close>

lemma ms_quot_rounds: "ms_quot a b = Inr c \<Longrightarrow> rounds_to 50 (dec_val a / dec_val b) (dec_val c)"
  using ctx50.div_rounds [of a b c] by (simp add: ms_quot_def split: sum.splits)

lemma ms_quot_total: "dec_val b \<noteq> 0 \<Longrightarrow> \<exists>c. ms_quot a b = Inr c"
  using ctx50.div_total [of b a] by (auto simp: ms_quot_def)

lemma ms_quot_pos: "0 < dec_val a \<Longrightarrow> 0 < dec_val b \<Longrightarrow> ms_quot a b = Inr c \<Longrightarrow> 0 < dec_val c"
  by (rule rounds_pos [OF _ ms_quot_rounds, of a b c]) simp_all

lemma ms_quot_nonneg: "0 \<le> dec_val a \<Longrightarrow> 0 < dec_val b \<Longrightarrow> ms_quot a b = Inr c \<Longrightarrow> 0 \<le> dec_val c"
  by (rule ctx50.rounds_ge [OF ms_quot_rounds ctx50.zero_representable, of a b c]) simp_all

text \<open>The difference of two non-negative 50-digit values over their sum lies between -1 and 1.\<close>

lemma imbalance_bounds:
  assumes a: "0 \<le> dec_val a" "representable 50 (dec_val a)"
    and b: "0 \<le> dec_val b" "representable 50 (dec_val b)"
    and q: "ms_quot (dec_sub 50 a b) (dec_add 50 a b) = Inr c" and pos: "0 < dec_val (dec_add 50 a b)"
  shows "\<bar>dec_val c\<bar> \<le> 1"
proof -
  let ?s = "dec_val (dec_add 50 a b)" and ?d = "dec_val (dec_sub 50 a b)"
  have "dec_val a \<le> ?s" "dec_val b \<le> ?s"
    using ctx50.rounds_ge [OF ctx50.add_rounds a(2), of a b] ctx50.rounds_ge [OF ctx50.add_rounds b(2), of a b] a b
    by simp_all
  moreover have "?d \<le> dec_val a" using ctx50.sub_le a b by blast
  moreover have "- dec_val b \<le> ?d"
    using ctx50.rounds_ge [OF ctx50.sub_rounds representable_uminus [OF b(2)], of a b] a by simp
  ultimately have "?d / ?s \<le> 1" "- 1 \<le> ?d / ?s" using pos by (simp_all add: divide_simps)
  moreover have "representable 50 1" using coeff_representable [of "Dec False 1 0" 50] by simp
  moreover have "rounds_to 50 (?d / ?s) (dec_val c)" using q by (rule ms_quot_rounds)
  ultimately show ?thesis
    using representable_uminus [of 50 1] by (simp add: abs_le_iff rounds_to_def)
qed
section \<open>What a ready order book and ready trades are\<close>

definition positive_level :: "orderbook_level \<Rightarrow> bool" where
  "positive_level l \<longleftrightarrow> 0 < dec_val (ol_ask_price l) \<and> 0 < dec_val (ol_bid_price l) \<and>
     0 \<le> dec_val (ol_ask_size l) \<and> 0 \<le> dec_val (ol_bid_size l)"

text \<open>Ten levels numbered from 0, positive prices, no crossed best level and some depth.\<close>

definition book_ready :: "orderbook_input \<Rightarrow> bool" where
  "book_ready s \<longleftrightarrow> is_default_level s \<and>
     (let ten = take 10 (sort_key ol_level_index (ob_levels s)) in
      map ol_level_index ten = map int [0..<10] \<and> list_all positive_level ten \<and>
      dec_val (ol_bid_price (hd ten)) < dec_val (ol_ask_price (hd ten)) \<and>
      (\<exists>l\<in>set ten. 0 < dec_val (ol_ask_size l) \<or> 0 < dec_val (ol_bid_size l)))"

text \<open>Values are present exactly when the status is ready, and then they are in their ranges.\<close>

definition ov_ok :: "orderbook_values \<Rightarrow> bool" where
  "ov_ok ov \<longleftrightarrow>
     (if ov_status ov = ''ready''
      then \<exists>s b x y i. ov_spread ov = Some s \<and> ov_spread_bps ov = Some b \<and> ov_bid_depth ov = Some x \<and>
        ov_ask_depth ov = Some y \<and> ov_imbalance ov = Some i \<and>
        0 < dec_val s \<and> 0 < dec_val b \<and> 0 \<le> dec_val x \<and> 0 \<le> dec_val y \<and>
        0 < dec_val x + dec_val y \<and> \<bar>dec_val i\<bar> \<le> 1
      else ov_status ov \<in> {''missing'', ''partial'', ''invalid'', ''undefined''} \<and>
        ov = no_orderbook_values (ov_status ov))"

lemma invalid_level_iff: "invalid_level l \<longleftrightarrow> \<not> positive_level l"
  by (auto simp: invalid_level_def positive_level_def dec_le_def dec_lt_def not_le not_less)

lemma no_orderbook_values_ok:
  "status \<in> {''missing'', ''partial'', ''invalid'', ''undefined''} \<Longrightarrow>
     ov_ok (no_orderbook_values status) \<and> ov_status (no_orderbook_values status) \<noteq> ''ready''"
  by (auto simp: ov_ok_def no_orderbook_values_def)

lemma ready_orderbook_spec:
  assumes ten: "ten \<noteq> []" "list_all positive_level ten"
    and best: "dec_val (ol_bid_price (hd ten)) < dec_val (ol_ask_price (hd ten))"
  shows "\<exists>ov. ready_orderbook ten = Inr ov \<and> ov_ok ov \<and>
    (ov_status ov = ''ready'' \<longleftrightarrow> (\<exists>l\<in>set ten. 0 < dec_val (ol_ask_size l) \<or> 0 < dec_val (ol_bid_size l)))"
proof -
  define bid ask where "bid = dec_sum 50 (map ol_bid_size ten)" and "ask = dec_sum 50 (map ol_ask_size ten)"
  define spread total where "spread = dec_sub 50 (ol_ask_price (hd ten)) (ol_bid_price (hd ten))"
    and "total = dec_add 50 (ol_ask_price (hd ten)) (ol_bid_price (hd ten))"
  have sizes: "\<forall>x\<in>set (map ol_bid_size ten). 0 \<le> dec_val x" "\<forall>x\<in>set (map ol_ask_size ten). 0 \<le> dec_val x"
    using ten(2) by (auto simp: list_all_iff positive_level_def)
  have depth: "0 \<le> dec_val bid" "0 \<le> dec_val ask" "representable 50 (dec_val bid)" "representable 50 (dec_val ask)"
    using dec_sum_sign(1) [of 50] sizes by (simp_all add: bid_def ask_def dec_sum_representable)
  have den: "dec_val (dec_add 50 bid ask) = 0 \<longleftrightarrow> dec_val bid = 0 \<and> dec_val ask = 0"
    using rounds_zero_iff [OF _ ctx50.add_rounds, of bid ask] depth by (simp add: add_nonneg_eq_0_iff)
  have den_nonneg: "0 \<le> dec_val (dec_add 50 bid ask)" using depth by (simp add: ctx50.add_nonneg)
  have zero: "dec_val bid = 0 \<and> dec_val ask = 0 \<longleftrightarrow>
      \<not> (\<exists>l\<in>set ten. 0 < dec_val (ol_ask_size l) \<or> 0 < dec_val (ol_bid_size l))"
    using dec_sum_sign(2) [of 50, OF _ sizes(1)] dec_sum_sign(2) [of 50, OF _ sizes(2)] sizes
    by (auto simp: bid_def ask_def less_le)
  have prices: "0 < dec_val (ol_ask_price (hd ten))" "0 < dec_val (ol_bid_price (hd ten))"
    using ten hd_in_set [OF ten(1)] by (auto simp: list_all_iff positive_level_def)
  have spread: "0 < dec_val spread"
    using rounds_pos [OF _ ctx50.sub_rounds] best by (simp add: spread_def)
  have "0 < dec_val total" using rounds_pos [OF _ ctx50.add_rounds] prices by (simp add: total_def)
  then obtain mid where mid: "ms_quot total (dec_of_int 2) = Inr mid" "0 < dec_val mid"
    using ms_quot_total [of "dec_of_int 2" total] ms_quot_pos [of total "dec_of_int 2"] by auto
  show ?thesis
  proof (cases "dec_val (dec_add 50 bid ask) = 0")
    case True
    then have "ready_orderbook ten = Inr (no_orderbook_values ''undefined'')"
      using mid by (simp add: ready_orderbook_def Let_def total_def [symmetric] bid_def [symmetric]
          ask_def [symmetric] dec_le_def dec_eq_def)
    then show ?thesis using no_orderbook_values_ok [of "''undefined''"] True den zero by simp
  next
    case False
    then have pos: "0 < dec_val (dec_add 50 bid ask)" using den_nonneg by simp
    obtain rel where rel: "ms_quot spread mid = Inr rel" "0 < dec_val rel"
      using ms_quot_total [of mid spread] ms_quot_pos [of spread mid] mid(2) spread by auto
    obtain imb where imb: "ms_quot (dec_sub 50 bid ask) (dec_add 50 bid ask) = Inr imb"
      using ms_quot_total False by blast
    have "\<bar>dec_val imb\<bar> \<le> 1" using imbalance_bounds depth imb pos by blast
    moreover have "0 < dec_val (dec_mul 50 rel (dec_of_int 10000))"
      using rounds_pos [OF _ ctx50.mul_rounds, of rel "dec_of_int 10000"] rel(2) by simp
    moreover have "0 < dec_val bid + dec_val ask" using False den depth by linarith
    moreover have "\<exists>l\<in>set ten. 0 < dec_val (ol_ask_size l) \<or> 0 < dec_val (ol_bid_size l)"
      using False den zero by blast
    ultimately show ?thesis
      using mid rel(1) imb False spread depth(1,2)
      by (simp add: ready_orderbook_def Let_def total_def [symmetric] bid_def [symmetric] ask_def [symmetric]
          spread_def [symmetric] dec_le_def dec_eq_def ov_ok_def)
  qed
qed

lemma orderbook_values_spec:
  "\<exists>ov. orderbook_values_of closing = Inr ov \<and> ov_ok ov \<and>
     (ov_status ov = ''ready'' \<longleftrightarrow> (\<exists>s. closing = Some s \<and> book_ready s))"
proof (cases closing)
  case None
  then show ?thesis using no_orderbook_values_ok [of "''missing''"] by (simp add: orderbook_values_of_def)
next
  case (Some s)
  define ordered where "ordered = sort_key ol_level_index (ob_levels s)"
  define ten where "ten = take 10 ordered"
  have len: "\<not> length ordered < 10" if "map ol_level_index ten = map int [0..<10]"
  proof -
    have "length (map ol_level_index ten) = 10" unfolding that by simp
    then show ?thesis by (simp add: ten_def)
  qed
  have ne: "map ol_level_index ten = map int [0..<10] \<Longrightarrow> ten \<noteq> []" by (auto simp: upt_rec)
  have inv: "list_ex invalid_level ten \<longleftrightarrow> \<not> list_all positive_level ten"
    by (simp add: list_ex_iff list_all_iff invalid_level_iff)
  show ?thesis
  proof (cases "is_default_level s \<and> map ol_level_index ten = map int [0..<10] \<and> list_all positive_level ten \<and>
      dec_val (ol_bid_price (hd ten)) < dec_val (ol_ask_price (hd ten))")
    case True
    then have "orderbook_values_of closing = ready_orderbook ten"
      using Some len inv
      by (simp add: orderbook_values_of_def Let_def ordered_def [symmetric] ten_def [symmetric] dec_le_def)
    then show ?thesis
      using ready_orderbook_spec [OF ne, of] True Some
      by (simp add: book_ready_def Let_def ordered_def [symmetric] ten_def [symmetric] del: hd_take)
  next
    case False
    then have "orderbook_values_of closing \<in> {Inr (no_orderbook_values ''partial''), Inr (no_orderbook_values ''invalid'')}"
      using Some inv
      by (auto simp: orderbook_values_of_def Let_def ordered_def [symmetric] ten_def [symmetric] dec_le_def not_le)
    moreover have "\<not> book_ready s"
      using False by (auto simp: book_ready_def Let_def ordered_def [symmetric] ten_def [symmetric])
    ultimately show ?thesis
      using Some no_orderbook_values_ok [of "''partial''"] no_orderbook_values_ok [of "''invalid''"] by auto
  qed
qed
definition positive_trade :: "trade_input \<Rightarrow> bool" where
  "positive_trade t \<longleftrightarrow> (ti_direction t = ''BID'' \<or> ti_direction t = ''ASK'') \<and>
     0 < dec_val (ti_volume t) \<and> 0 < dec_val (ti_amount t)"

text \<open>A proven empty minute, or valid trades whose volume and amount add up to those of the candle.\<close>

definition trades_ready :: "candle_input \<Rightarrow> string \<Rightarrow> trade_input list \<Rightarrow> bool" where
  "trades_ready c quality trades \<longleftrightarrow>
     quality = ''no_trade'' \<and> trades = [] \<and> dec_val (ca_volume c) = 0 \<and> dec_val (ca_amount c) = 0 \<or>
     quality = ''available'' \<and> trades \<noteq> [] \<and> list_all positive_trade trades \<and>
     dec_val (dec_sum PREC_DEFAULT (map ti_volume trades)) = dec_val (ca_volume c) \<and>
     dec_val (dec_sum PREC_DEFAULT (map ti_amount trades)) = dec_val (ca_amount c)"

text \<open>Flow values are present exactly when the status is ready; the counts add up, the imbalance is
  undefined only without trades and the execution strength only without sells.\<close>

definition tv_ok :: "trade_values \<Rightarrow> bool" where
  "tv_ok tv \<longleftrightarrow>
     (if tv_status tv = ''ready''
      then \<exists>b s d x y. 0 \<le> b \<and> 0 \<le> s \<and> tv_trade_count tv = Some (b + s) \<and>
        tv_buy_count tv = Some b \<and> tv_sell_count tv = Some s \<and>
        tv_intensity tv = Some d \<and> dec_val d = of_int (b + s) \<and>
        tv_buy_volume tv = Some x \<and> tv_sell_volume tv = Some y \<and> 0 \<le> dec_val x \<and> 0 \<le> dec_val y \<and>
        (tv_imbalance tv = None \<longleftrightarrow> b + s = 0) \<and> (\<forall>i. tv_imbalance tv = Some i \<longrightarrow> \<bar>dec_val i\<bar> \<le> 1) \<and>
        (tv_strength tv = None \<longleftrightarrow> s = 0) \<and>
        (\<forall>i. tv_strength tv = Some i \<longrightarrow> 0 \<le> dec_val i \<and> (dec_val i = 0 \<longleftrightarrow> b = 0)) \<and>
        tv_strength_status tv = (if s = 0 then ''undefined'' else ''ready'')
      else tv_status tv \<in> {''missing'', ''invalid''} \<and> tv = no_trade_values (tv_status tv))"

lemma no_trade_values_ok:
  "status \<in> {''missing'', ''invalid''} \<Longrightarrow>
     tv_ok (no_trade_values status) \<and> tv_status (no_trade_values status) \<noteq> ''ready''"
  by (auto simp: tv_ok_def no_trade_values_def)

lemma invalid_trade_iff: "invalid_trade t \<longleftrightarrow> \<not> positive_trade t"
  by (auto simp: invalid_trade_def positive_trade_def dec_le_def not_le)

lemma quot_if_pos_spec:
  assumes "0 \<le> dec_val b"
  shows "\<exists>q. quot_if_pos a b = Inr q \<and> (q = None \<longleftrightarrow> dec_val b = 0) \<and> (\<forall>c. q = Some c \<longrightarrow> ms_quot a b = Inr c)"
proof (cases "dec_val b = 0")
  case False
  then obtain c where "ms_quot a b = Inr c" using ms_quot_total by blast
  then show ?thesis using assms False by (simp add: quot_if_pos_def dec_lt_def)
qed (simp add: quot_if_pos_def dec_lt_def)

lemma direction_volume:
  assumes "list_all positive_trade trades"
  shows "0 \<le> dec_val (dec_sum 50 (map ti_volume (filter P trades)))"
    and "dec_val (dec_sum 50 (map ti_volume (filter P trades))) = 0 \<longleftrightarrow> filter P trades = []"
proof -
  have pos: "\<forall>x\<in>set (map ti_volume (filter P trades)). 0 < dec_val x"
    using assms by (auto simp: list_all_iff positive_trade_def)
  then have nonneg: "\<forall>x\<in>set (map ti_volume (filter P trades)). 0 \<le> dec_val x" by (auto intro: less_imp_le)
  show "0 \<le> dec_val (dec_sum 50 (map ti_volume (filter P trades)))"
    by (rule dec_sum_sign [OF _ nonneg]) simp
  have "dec_val (dec_sum 50 (map ti_volume (filter P trades))) = 0 \<longleftrightarrow>
      (\<forall>x\<in>set (map ti_volume (filter P trades)). dec_val x = 0)"
    by (rule dec_sum_sign [OF _ nonneg]) simp
  then show "dec_val (dec_sum 50 (map ti_volume (filter P trades))) = 0 \<longleftrightarrow> filter P trades = []"
    using pos by (cases "filter P trades") auto
qed

lemma direction_counts:
  "list_all positive_trade trades \<Longrightarrow>
     length (filter (\<lambda>t. ti_direction t = ''BID'') trades) + length (filter (\<lambda>t. ti_direction t = ''ASK'') trades) =
     length trades"
  by (induction trades) (auto simp: positive_trade_def)

lemma ready_trades_spec:
  assumes pos: "list_all positive_trade trades" and ne: "trades \<noteq> []"
  shows "\<exists>tv. ready_trades trades = Inr tv \<and> tv_ok tv \<and> tv_status tv = ''ready''"
proof -
  define buys sells where "buys = filter (\<lambda>t. ti_direction t = ''BID'') trades"
    and "sells = filter (\<lambda>t. ti_direction t = ''ASK'') trades"
  define x y where "x = dec_sum 50 (map ti_volume buys)" and "y = dec_sum 50 (map ti_volume sells)"
  have n: "length buys + length sells = length trades"
    using direction_counts [OF pos] by (simp add: buys_def sells_def)
  have x: "0 \<le> dec_val x" "dec_val x = 0 \<longleftrightarrow> buys = []" "representable 50 (dec_val x)"
    and y: "0 \<le> dec_val y" "dec_val y = 0 \<longleftrightarrow> sells = []" "representable 50 (dec_val y)"
    using direction_volume [OF pos] by (simp_all add: x_def y_def buys_def sells_def dec_sum_representable)
  have "dec_val (dec_add 50 x y) = 0 \<longleftrightarrow> dec_val x + dec_val y = 0"
    by (rule rounds_zero_iff [OF _ ctx50.add_rounds]) simp
  moreover have "buys \<noteq> [] \<or> sells \<noteq> []" using n ne by auto
  ultimately have total: "dec_val (dec_add 50 x y) \<noteq> 0" "0 \<le> dec_val (dec_add 50 x y)"
    using x y by (auto simp: ctx50.add_nonneg add_nonneg_eq_0_iff)
  obtain i where i: "quot_if_pos (dec_sub 50 x y) (dec_add 50 x y) = Inr (Some i)"
      "ms_quot (dec_sub 50 x y) (dec_add 50 x y) = Inr i"
    using quot_if_pos_spec [OF total(2), of "dec_sub 50 x y"] total(1) by auto
  have imb: "\<bar>dec_val i\<bar> \<le> 1" using imbalance_bounds [OF x(1,3) y(1,3) i(2)] total by simp
  obtain q where q: "quot_if_pos x y = Inr q" "q = None \<longleftrightarrow> sells = []" "\<forall>c. q = Some c \<longrightarrow> ms_quot x y = Inr c"
    using quot_if_pos_spec [OF y(1), of x] y(2) by auto
  have strength: "0 \<le> dec_val (dec_mul 50 c (dec_of_int 100))"
      "dec_val (dec_mul 50 c (dec_of_int 100)) = 0 \<longleftrightarrow> buys = []" if "q = Some c" for c
  proof -
    have c: "ms_quot x y = Inr c" and yp: "0 < dec_val y" using q(2,3) that y by auto
    have "0 \<le> dec_val c" by (rule ms_quot_nonneg [OF x(1) yp c])
    then show "0 \<le> dec_val (dec_mul 50 c (dec_of_int 100))" by (simp add: ctx50.mul_nonneg)
    have "dec_val c = 0 \<longleftrightarrow> dec_val x = 0"
      using rounds_zero_iff [OF _ ms_quot_rounds [OF c]] yp by simp
    then show "dec_val (dec_mul 50 c (dec_of_int 100)) = 0 \<longleftrightarrow> buys = []"
      using rounds_zero_iff [OF _ ctx50.mul_rounds, of c "dec_of_int 100"] x(2) by simp
  qed
  have "ready_trades trades = Inr
      \<lparr>tv_trade_count = Some (int (length trades)), tv_intensity = Some (dec_of_int (int (length trades))),
       tv_buy_count = Some (int (length buys)), tv_sell_count = Some (int (length sells)),
       tv_buy_volume = Some x, tv_sell_volume = Some y, tv_imbalance = Some i,
       tv_strength = map_option (\<lambda>r. dec_mul 50 r (dec_of_int 100)) q, tv_status = ''ready'',
       tv_strength_status = (if q = None then ''undefined'' else ''ready'')\<rparr>"
    using i(1) q(1) by (simp add: ready_trades_def Let_def buys_def [symmetric] sells_def [symmetric]
        x_def [symmetric] y_def [symmetric])
  then show ?thesis
    using n ne x(1) y(1) imb q(2) strength
    by (auto simp: tv_ok_def of_nat_add [symmetric] simp del: of_nat_add
        intro!: exI [of _ "int (length buys)"] exI [of _ "int (length sells)"])
qed
lemma zero_trade_values_ok: "tv_ok zero_trade_values \<and> tv_status zero_trade_values = ''ready''"
  by (simp add: tv_ok_def zero_trade_values_def)

lemma trade_values_spec:
  "\<exists>tv. trade_values_of trades candle quality = Inr tv \<and> tv_ok tv \<and>
     (tv_status tv = ''ready'' \<longleftrightarrow> (\<exists>c. candle = Some c \<and> trades_ready c quality trades))"
proof (cases candle)
  case None
  then show ?thesis using no_trade_values_ok [of "''missing''"] by (simp add: trade_values_of_def)
next
  case (Some c)
  have inv: "list_ex invalid_trade trades \<longleftrightarrow> \<not> list_all positive_trade trades"
    by (simp add: list_ex_iff list_all_iff invalid_trade_iff)
  show ?thesis
  proof (cases "trades_ready c quality trades")
    case True
    then have "trade_values_of trades candle quality = Inr zero_trade_values \<or>
        trade_values_of trades candle quality = ready_trades trades \<and> list_all positive_trade trades \<and> trades \<noteq> []"
      using Some inv by (auto simp: trade_values_of_def trades_ready_def dec_eq_def)
    then show ?thesis using True Some zero_trade_values_ok ready_trades_spec [of trades] by auto
  next
    case False
    then have "trade_values_of trades candle quality \<in>
        {Inr (no_trade_values ''missing''), Inr (no_trade_values ''invalid'')}"
      using Some inv by (auto simp: trade_values_of_def trades_ready_def dec_eq_def)
    then show ?thesis
      using False Some no_trade_values_ok [of "''missing''"] no_trade_values_ok [of "''invalid''"] by auto
  qed
qed

section \<open>The point of a bucket\<close>

definition book_of :: "microstructure_point \<Rightarrow> orderbook_values" where
  "book_of pt =
     \<lparr>ov_spread = mp_spread pt, ov_spread_bps = mp_spread_bps pt, ov_bid_depth = mp_bid_depth_10 pt,
      ov_ask_depth = mp_ask_depth_10 pt, ov_imbalance = mp_orderbook_imbalance_10 pt,
      ov_status = mp_orderbook_status pt\<rparr>"

definition flow_of :: "microstructure_point \<Rightarrow> trade_values" where
  "flow_of pt =
     \<lparr>tv_trade_count = mp_trade_count pt, tv_intensity = mp_trade_intensity_per_minute pt,
      tv_buy_count = mp_buy_count pt, tv_sell_count = mp_sell_count pt, tv_buy_volume = mp_buy_volume pt,
      tv_sell_volume = mp_sell_volume pt, tv_imbalance = mp_buy_sell_imbalance pt,
      tv_strength = mp_execution_strength pt, tv_status = mp_trade_status pt,
      tv_strength_status = mp_execution_strength_status pt\<rparr>"

definition request_ok :: "bucket_request \<Rightarrow> bool" where
  "request_ok r \<longleftrightarrow> br_ended_at r = br_started_at r + minute_us \<and> 0 \<le> br_orderbook_snapshot_through_id r \<and>
     0 \<le> br_trade_event_through_id r \<and> 0 \<le> br_source_receipt_through_id r"

lemma bucket_point_spec:
  "\<exists>pt. bucket_point r orderbooks trades = Inr pt \<and> ov_ok (book_of pt) \<and> tv_ok (flow_of pt) \<and>
     (mp_orderbook_status pt = ''ready'' \<longleftrightarrow> (\<exists>s. closing_orderbook r orderbooks = Some s \<and> book_ready s)) \<and>
     (mp_trade_status pt = ''ready'' \<longleftrightarrow>
       (\<exists>c. br_source_candle r = Some c \<and> trades_ready c (resolved_trade_quality r) trades)) \<and>
     mp_closing_orderbook_snapshot_id pt = map_option ob_snapshot_id (closing_orderbook r orderbooks) \<and>
     mp_volume_intensity_per_minute pt = volume_intensity (flow_of pt)"
proof -
  obtain ov where ov: "orderbook_values_of (closing_orderbook r orderbooks) = Inr ov" "ov_ok ov"
      "ov_status ov = ''ready'' \<longleftrightarrow> (\<exists>s. closing_orderbook r orderbooks = Some s \<and> book_ready s)"
    using orderbook_values_spec by blast
  obtain tv where tv: "trade_values_of trades (br_source_candle r) (resolved_trade_quality r) = Inr tv" "tv_ok tv"
      "tv_status tv = ''ready'' \<longleftrightarrow>
        (\<exists>c. br_source_candle r = Some c \<and> trades_ready c (resolved_trade_quality r) trades)"
    using trade_values_spec by blast
  obtain pt where pt: "bucket_point r orderbooks trades = Inr pt" and fields: "book_of pt = ov" "flow_of pt = tv"
    "mp_closing_orderbook_snapshot_id pt = map_option ob_snapshot_id (closing_orderbook r orderbooks)"
    "mp_volume_intensity_per_minute pt = volume_intensity tv"
    using ov(1) tv(1) by (simp add: bucket_point_def Let_def book_of_def flow_of_def)
  have "mp_orderbook_status pt = ov_status ov" "mp_trade_status pt = tv_status tv"
    using arg_cong [OF fields(1), of ov_status] arg_cong [OF fields(2), of tv_status]
    by (simp_all add: book_of_def flow_of_def)
  then show ?thesis using pt fields ov tv by simp
qed

lemma calculate_bucket_ok:
  "calculate_microstructure_bucket r orderbooks trades =
     (if request_ok r then bucket_point r (selected_orderbooks r orderbooks) (selected_trades r trades)
      else Inl (if br_ended_at r = br_started_at r + minute_us then Ms_NegativeFrontier else Ms_BucketLength))"
  by (auto simp: calculate_microstructure_bucket_def request_ok_def)

text \<open>The order book that closes a bucket: the latest of the default level, if the quality allows.\<close>

definition closes_bucket :: "bucket_request \<Rightarrow> orderbook_input list \<Rightarrow> orderbook_input \<Rightarrow> bool" where
  "closes_bucket r orderbooks s \<longleftrightarrow>
     br_orderbook_quality r \<in> {None, Some [], Some ''available''} \<and>
     s \<in> set orderbooks \<and> orderbook_in_scope r s \<and> is_default_level s \<and>
     (\<forall>s'\<in>set orderbooks. orderbook_in_scope r s' \<and> is_default_level s' \<longrightarrow> orderbook_key s' \<le> orderbook_key s)"

lemma closing_orderbook_exact:
  assumes inj: "inj_on orderbook_key {s \<in> set orderbooks. orderbook_in_scope r s}"
  shows "closing_orderbook r (selected_orderbooks r orderbooks) = Some s \<and> is_default_level s \<longleftrightarrow>
    closes_bucket r orderbooks s"
proof -
  let ?sel = "selected_orderbooks r orderbooks"
  let ?def = "filter is_default_level ?sel"
  have set_def: "set ?def = {s \<in> set orderbooks. orderbook_in_scope r s \<and> is_default_level s}"
    by (auto simp: books.select_set)
  have cand: "closing_candidate ?sel = Some s \<and> is_default_level s \<longleftrightarrow>
      s \<in> set ?def \<and> (\<forall>s'\<in>set ?def. orderbook_key s' \<le> orderbook_key s)"
  proof
    assume a: "closing_candidate ?sel = Some s \<and> is_default_level s"
    have ne: "?def \<noteq> []"
    proof
      assume e: "?def = []"
      then have "s \<in> set ?sel"
        using a by (auto simp: closing_candidate_def last_opt_def split: if_splits)
      then show False using e a by (auto simp: filter_empty_conv)
    qed
    then have "s = last ?def" using a by (simp add: closing_candidate_def last_opt_def)
    then show "s \<in> set ?def \<and> (\<forall>s'\<in>set ?def. orderbook_key s' \<le> orderbook_key s)"
      using books.last_greatest [OF ne] by simp
  next
    assume a: "s \<in> set ?def \<and> (\<forall>s'\<in>set ?def. orderbook_key s' \<le> orderbook_key s)"
    then have "last ?def = s" using books.select_last [OF _ _ inj, of s is_default_level] by blast
    moreover have "?def \<noteq> []" using a by (metis empty_iff empty_set)
    ultimately show "closing_candidate ?sel = Some s \<and> is_default_level s"
      using a by (simp add: closing_candidate_def last_opt_def)
  qed
  have "closing_orderbook r ?sel = Some s \<longleftrightarrow>
      closing_candidate ?sel = Some s \<and> br_orderbook_quality r \<in> {None, Some [], Some ''available''}"
    by (auto simp: closing_orderbook_def resolved_orderbook_quality_def Let_def split: option.splits if_splits)
  then show ?thesis using cand unfolding set_def closes_bucket_def by auto
qed
section \<open>Properties\<close>

text \<open>A point depends only on the inputs that lie in the minute and behind the three source
  frontiers, and not on the order in which they are listed: later observations, other minutes and
  receipts beyond the frontier change neither the values nor the hashes.\<close>

theorem microstructure_scope_only:
  assumes "mset (filter (orderbook_in_scope r) orderbooks) = mset (filter (orderbook_in_scope r) orderbooks')"
    and "mset (filter (trade_in_scope r) trades) = mset (filter (trade_in_scope r) trades')"
    and "inj_on orderbook_key {s \<in> set orderbooks. orderbook_in_scope r s}"
    and "inj_on trade_key {t \<in> set trades. trade_in_scope r t}"
  shows "calculate_microstructure_bucket r orderbooks trades = calculate_microstructure_bucket r orderbooks' trades'"
  using books.select_cong [OF assms(1,3)] flow.select_cong [OF assms(2,4)]
  by (simp add: calculate_bucket_ok)


text \<open>Every value of a point is in its range: spread and relative spread positive, depths
  non-negative and not both zero, both imbalances between -1 and 1, counts that add up, an execution
  strength that is non-negative and absent only without sells; values are present exactly when their
  status is ready. Rounding to 50 digits never breaks these bounds.\<close>

theorem microstructure_values_bounded:
  assumes "calculate_microstructure_bucket r orderbooks trades = Inr pt"
  shows "ov_ok (book_of pt) \<and> tv_ok (flow_of pt) \<and>
    (mp_volume_intensity_per_minute pt = None \<longleftrightarrow> mp_trade_status pt \<noteq> ''ready'') \<and>
    (\<forall>v. mp_volume_intensity_per_minute pt = Some v \<longrightarrow> 0 \<le> dec_val v)"
proof -
  have "bucket_point r (selected_orderbooks r orderbooks) (selected_trades r trades) = Inr pt"
    using assms by (simp add: calculate_bucket_ok split: if_splits)
  then have pt: "ov_ok (book_of pt)" "tv_ok (flow_of pt)"
      "mp_volume_intensity_per_minute pt = volume_intensity (flow_of pt)"
    using bucket_point_spec [of r "selected_orderbooks r orderbooks" "selected_trades r trades"] by auto
  have status: "mp_trade_status pt = tv_status (flow_of pt)" by (simp add: flow_of_def)
  have "volume_intensity (no_trade_values s) = None" for s
    by (simp add: volume_intensity_def no_trade_values_def)
  then have "mp_trade_status pt \<noteq> ''ready'' \<Longrightarrow> mp_volume_intensity_per_minute pt = None"
    using pt(2,3) status by (simp add: tv_ok_def) metis
  moreover have "\<exists>v. mp_volume_intensity_per_minute pt = Some v \<and> 0 \<le> dec_val v" if ready: "mp_trade_status pt = ''ready''"
  proof -
    obtain x y where "tv_buy_volume (flow_of pt) = Some x" "tv_sell_volume (flow_of pt) = Some y"
      "0 \<le> dec_val x" "0 \<le> dec_val y"
      using pt(2) status ready by (auto simp: tv_ok_def)
    then show ?thesis using pt(3) by (simp add: volume_intensity_def ctx28.add_nonneg)
  qed
  ultimately show ?thesis using pt(1,2) by force
qed

definition example_level :: "nat \<Rightarrow> orderbook_level" where
  "example_level i = \<lparr>ol_level_index = int i, ol_ask_price = dec_of_int (101 + int i), ol_ask_size = Dec False 5 (-1),
     ol_bid_price = dec_of_int (100 - int i), ol_bid_size = dec_of_int 2\<rparr>"

definition example_book :: "int \<Rightarrow> int \<Rightarrow> orderbook_input" where
  "example_book i t = \<lparr>ob_snapshot_id = i, ob_occurred_at = t, ob_knowledge_at = t, ob_level = Some dec_zero,
     ob_levels = map example_level [0..<10], ob_source_receipt_id = i\<rparr>"

definition example_trade :: "int \<Rightarrow> int \<Rightarrow> string \<Rightarrow> trade_input" where
  "example_trade i t direction = \<lparr>ti_trade_event_id = i, ti_occurred_at = t, ti_knowledge_at = t,
     ti_direction = direction, ti_volume = dec_of_int 2, ti_amount = dec_of_int 200, ti_source_receipt_id = i\<rparr>"

definition example_request :: bucket_request where
  "example_request = \<lparr>br_started_at = 0, br_ended_at = minute_us, br_orderbook_snapshot_through_id = 10,
     br_trade_event_through_id = 10, br_source_receipt_through_id = 10,
     br_source_candle = Some \<lparr>ca_source_candle_revision_id = Some 7, ca_started_at = 0, ca_knowledge_at = minute_us,
       ca_source_as_of = minute_us, ca_quality = ''available'', ca_volume = dec_of_int 4, ca_amount = dec_of_int 400,
       ca_quality_event_through_id = None\<rparr>,
     br_orderbook_quality = None, br_trade_quality = None, br_connection_quality_through_id = 0,
     br_connection_quality_source_as_of = None, br_connection_quality_knowledge_at = None\<rparr>"

lemma example_request_ok: "request_ok example_request"
  by (simp add: request_ok_def example_request_def)

lemma example_book_ready: "book_ready (example_book i t)"
proof -
  have "sorted (map ol_level_index (map example_level [0..<10]))"
    by (simp add: upt_rec example_level_def)
  then have "sort_key ol_level_index (ob_levels (example_book i t)) = map example_level [0..<10]"
    by (simp add: example_book_def sort_key_id_if_sorted)
  then show ?thesis
    by (simp add: book_ready_def is_default_level_def dec_eq_def example_book_def upt_rec example_level_def
        positive_level_def)
qed

abbreviation "example_books \<equiv> [example_book 2 20, example_book 1 10]"
abbreviation "example_trades \<equiv> [example_trade 4 30 ''ASK'', example_trade 3 30 ''BID'']"

lemma example_scope:
  "orderbook_in_scope example_request (example_book i t) \<longleftrightarrow> 0 \<le> t \<and> t < minute_us \<and> i \<le> 10"
  "trade_in_scope example_request (example_trade i t d) \<longleftrightarrow> 0 \<le> t \<and> t < minute_us \<and> i \<le> 10"
  by (auto simp: orderbook_in_scope_def trade_in_scope_def example_book_def example_trade_def example_request_def)

lemma example_inj:
  "inj_on orderbook_key {s \<in> set example_books. orderbook_in_scope example_request s}"
  "inj_on trade_key {t \<in> set example_trades. trade_in_scope example_request t}"
  by (auto simp: inj_on_def orderbook_key_def trade_key_def example_book_def example_trade_def)

lemma example_closes: "closes_bucket example_request example_books (example_book 2 20)"
proof -
  have "br_orderbook_quality example_request = None" by (simp add: example_request_def)
  moreover have "is_default_level (example_book i t)" "orderbook_key (example_book i t) = (t, i)" for i t
    by (simp_all add: is_default_level_def dec_eq_def example_book_def orderbook_key_def)
  ultimately show ?thesis
    by (simp add: closes_bucket_def example_scope minute_us_value)
qed

theorem microstructure_scope_only_witness:
  "calculate_microstructure_bucket example_request example_books example_trades =
   calculate_microstructure_bucket example_request
     [example_book 11 15, example_book 1 10, example_book 2 20] [example_trade 3 30 ''BID'', example_trade 4 30 ''ASK'', example_trade 5 minute_us ''BID'']"
  using microstructure_scope_only [of example_request example_books
      "[example_book 11 15, example_book 1 10, example_book 2 20]" example_trades
      "[example_trade 3 30 ''BID'', example_trade 4 30 ''ASK'', example_trade 5 minute_us ''BID'']"] example_inj
  by (simp add: example_scope minute_us_value add_mset_commute)


theorem microstructure_values_bounded_witness:
  "\<exists>pt. calculate_microstructure_bucket example_request example_books example_trades = Inr pt \<and>
     ov_ok (book_of pt) \<and> tv_ok (flow_of pt)"
proof -
  obtain pt where "calculate_microstructure_bucket example_request example_books example_trades = Inr pt"
    using bucket_point_spec example_request_ok calculate_bucket_ok by metis
  then show ?thesis using microstructure_values_bounded by blast
qed

end
