(* ===== verification/Upbit_Orders.thy ===== *)
theory Upbit_Orders
  imports Py_Value
begin

text \<open>
  Reconciliation of exchange orders from Upbit: the REST order snapshot
  (\<^verbatim>\<open>upbit_rest_reconciliation.py\<close>) and the myOrder stream event (\<^verbatim>\<open>upbit_myorder.py\<close>). A
  payload is a Python mapping; parsing validates every field, planning decides whether the ledger may
  be touched, and the reconciliation request splits the paid fee over the trades. Python's
  \<^verbatim>\<open>datetime.fromisoformat\<close> is the parameter \<open>fromiso\<close> of the parser and the reconciliation store is a
  parameter of the operation that calls it. Decimal fields may be infinite, because the code accepts
  the text \<^verbatim>\<open>Infinity\<close>.
\<close>

section \<open>Decimals with infinities\<close>

datatype xdec = Fin dec | Inf bool

definition x_zero :: xdec where "x_zero = Fin dec_zero"

fun x_lt :: "xdec \<Rightarrow> xdec \<Rightarrow> bool" where
  "x_lt (Fin a) (Fin b) = dec_lt a b"
| "x_lt (Fin a) (Inf s) = (\<not> s)"
| "x_lt (Inf s) (Fin b) = s"
| "x_lt (Inf s) (Inf t) = (s \<and> \<not> t)"

fun x_is_zero :: "xdec \<Rightarrow> bool" where
  "x_is_zero (Fin a) = (dec_coeff a = 0)"
| "x_is_zero (Inf s) = False"

definition x_str :: "xdec \<Rightarrow> string" where
  "x_str x = (case x of Fin a \<Rightarrow> dec_str a | Inf s \<Rightarrow> (if s then ''-Infinity'' else ''Infinity''))"

fun x_neg :: "xdec \<Rightarrow> xdec" where
  "x_neg (Fin a) = Fin (dec_copy_negate a)"
| "x_neg (Inf s) = Inf (\<not> s)"

fun x_add :: "xdec \<Rightarrow> xdec \<Rightarrow> dec_error + xdec" where
  "x_add (Fin a) (Fin b) = Inr (Fin (dec_add PREC_DEFAULT a b))"
| "x_add (Fin a) (Inf s) = Inr (Inf s)"
| "x_add (Inf s) (Fin b) = Inr (Inf s)"
| "x_add (Inf s) (Inf t) = (if s = t then Inr (Inf s) else Inl InvalidOperation)"

definition x_sub :: "xdec \<Rightarrow> xdec \<Rightarrow> dec_error + xdec" where
  "x_sub a b = x_add a (x_neg b)"

fun x_mul :: "xdec \<Rightarrow> xdec \<Rightarrow> dec_error + xdec" where
  "x_mul (Fin a) (Fin b) = Inr (Fin (dec_mul PREC_DEFAULT a b))"
| "x_mul (Fin a) (Inf s) = (if dec_coeff a = 0 then Inl InvalidOperation else Inr (Inf (dec_sign a \<noteq> s)))"
| "x_mul (Inf s) (Fin b) = (if dec_coeff b = 0 then Inl InvalidOperation else Inr (Inf (s \<noteq> dec_sign b)))"
| "x_mul (Inf s) (Inf t) = Inr (Inf (s \<noteq> t))"

text \<open>A finite number divided by an infinity is a zero with the smallest exponent of the context.\<close>

definition ETINY :: int where "ETINY = -1000026"

fun x_div :: "xdec \<Rightarrow> xdec \<Rightarrow> dec_error + xdec" where
  "x_div (Fin a) (Fin b) = res_map Fin (dec_div PREC_DEFAULT a b)"
| "x_div (Fin a) (Inf s) = Inr (Fin (Dec (dec_sign a \<noteq> s) 0 ETINY))"
| "x_div (Inf s) (Fin b) = Inr (Inf (s \<noteq> dec_sign b))"
| "x_div (Inf s) (Inf t) = Inl InvalidOperation"

text \<open>\<^verbatim>\<open>value or Decimal("0")\<close>.\<close>

definition x_or_zero :: "xdec option \<Rightarrow> xdec" where
  "x_or_zero v = (case v of Some x \<Rightarrow> (if x_is_zero x then x_zero else x) | None \<Rightarrow> x_zero)"

section \<open>Field parsers\<close>

datatype order_error =
    Invalid string
  | Raised_InvalidOperation
  | Raised_TypeError
  | Raised_OverflowError

definition non_blank :: "py_value \<Rightarrow> string \<Rightarrow> order_error + string" where
  "non_blank v field =
     (case v of PyStr s \<Rightarrow> (if s = [] then Inl (Invalid field) else Inr s) | _ \<Rightarrow> Inl (Invalid field))"

definition optional_str :: "py_value \<Rightarrow> order_error + string option" where
  "optional_str v =
     (case v of PyNone \<Rightarrow> Inr None
      | PyStr s \<Rightarrow> (if s = [] then Inl (Invalid ''string'') else Inr (Some s))
      | _ \<Rightarrow> Inl (Invalid ''string''))"

definition optional_bool :: "py_value \<Rightarrow> order_error + bool option" where
  "optional_bool v =
     (case v of PyNone \<Rightarrow> Inr None | PyBool b \<Rightarrow> Inr (Some b) | _ \<Rightarrow> Inl (Invalid ''boolean''))"

text \<open>\<^verbatim>\<open>Decimal(str(value))\<close> is guarded, the comparison with zero after it is not: comparing a NaN raises
  \<^verbatim>\<open>InvalidOperation\<close>.\<close>

definition optional_decimal :: "py_value \<Rightarrow> order_error + xdec option" where
  "optional_decimal v =
     (if v = PyNone then Inr None
      else case parse_decimal (py_str v) of
        None \<Rightarrow> Inl (Invalid ''decimal'')
      | Some (NNan s) \<Rightarrow> Inl Raised_InvalidOperation
      | Some (NInf s) \<Rightarrow> (if s then Inl (Invalid ''negative'') else Inr (Some (Inf False)))
      | Some (NFin a) \<Rightarrow> (if dec_lt a dec_zero then Inl (Invalid ''negative'') else Inr (Some (Fin a))))"

definition positive_decimal :: "py_value \<Rightarrow> string \<Rightarrow> order_error + xdec" where
  "positive_decimal v field =
     res_bind (optional_decimal v) (\<lambda>d.
       case d of None \<Rightarrow> Inl (Invalid field)
       | Some x \<Rightarrow> (if x_lt x_zero x then Inr x else Inl (Invalid field)))"

definition rat_trunc :: "rat \<Rightarrow> int" where
  "rat_trunc q = (if 0 \<le> q then \<lfloor>q\<rfloor> else \<lceil>q\<rceil>)"

definition py_int :: "py_value \<Rightarrow> string \<Rightarrow> order_error + int" where
  "py_int v field =
     (case v of
        PyInt i \<Rightarrow> Inr i
      | PyBool b \<Rightarrow> Inr (if b then 1 else 0)
      | PyFloat r q \<Rightarrow> (case q of Some x \<Rightarrow> Inr (rat_trunc x)
          | None \<Rightarrow> if r = ''nan'' then Inl (Invalid field) else Inl Raised_OverflowError)
      | PyDecimal a \<Rightarrow> Inr (rat_trunc (dec_val a))
      | PyStr s \<Rightarrow> (case parse_int s of Some i \<Rightarrow> Inr i | None \<Rightarrow> Inl (Invalid field))
      | _ \<Rightarrow> Inl (Invalid field))"

definition non_negative_int :: "py_value \<Rightarrow> string \<Rightarrow> order_error + int" where
  "non_negative_int v field =
     (case v of PyBool b \<Rightarrow> Inl (Invalid field)
      | _ \<Rightarrow> res_bind (py_int v field) (\<lambda>i. if i < 0 then Inl (Invalid field) else Inr i))"

definition aware_utc :: "datetime \<Rightarrow> string \<Rightarrow> order_error + int" where
  "aware_utc d field = (if is_aware d then Inr (instant d) else Inl (Invalid field))"

text \<open>\<^verbatim>\<open>value.replace("Z", "+00:00")\<close>.\<close>

definition replace_z :: "string \<Rightarrow> string" where
  "replace_z s = concat (map (\<lambda>c. if c = CHR ''Z'' then ''+00:00'' else [c]) s)"

definition optional_datetime :: "(string \<Rightarrow> datetime option) \<Rightarrow> py_value \<Rightarrow> order_error + int option" where
  "optional_datetime fromiso v =
     (case v of PyNone \<Rightarrow> Inr None
      | PyDatetime d \<Rightarrow> res_map Some (aware_utc d ''datetime'')
      | PyStr s \<Rightarrow>
          (if s = [] then Inl (Invalid ''datetime'')
           else case fromiso (replace_z s) of
             None \<Rightarrow> Inl (Invalid ''datetime'')
           | Some d \<Rightarrow> res_map Some (aware_utc d ''datetime''))
      | _ \<Rightarrow> Inl (Invalid ''datetime''))"

definition ORDER_STATES :: "string list" where
  "ORDER_STATES = [''wait'', ''watch'', ''trade'', ''done'', ''cancel'', ''prevented'', ''rejected'']"

definition order_state :: "py_value \<Rightarrow> order_error + string" where
  "order_state v =
     (case v of PyStr s \<Rightarrow> (if s \<in> set ORDER_STATES then Inr s else Inl (Invalid ''state''))
      | _ \<Rightarrow> Inl (Invalid ''state''))"

text \<open>Testing a list or an object against a set of strings raises \<^verbatim>\<open>TypeError\<close>.\<close>

definition optional_smp_type :: "py_value \<Rightarrow> order_error + string option" where
  "optional_smp_type v =
     (case v of PyNone \<Rightarrow> Inr None
      | PyStr s \<Rightarrow> (if s \<in> {''reduce'', ''cancel_maker'', ''cancel_taker''} then Inr (Some s)
                     else Inl (Invalid ''smp_type''))
      | PyList _ \<Rightarrow> Inl Raised_TypeError
      | PyDict _ \<Rightarrow> Inl Raised_TypeError
      | _ \<Rightarrow> Inl (Invalid ''smp_type''))"

definition ALLOWED_SOURCE_ENDPOINTS :: "string list" where
  "ALLOWED_SOURCE_ENDPOINTS =
     [''GET /v1/order'', ''GET /v1/orders/open'', ''GET /v1/orders/closed'', ''GET /v1/orders/uuids'']"

definition check_source_endpoint :: "string \<Rightarrow> order_error + string" where
  "check_source_endpoint value =
     res_bind (non_blank (PyStr value) ''source_endpoint'') (\<lambda>endpoint.
       if endpoint \<in> set ALLOWED_SOURCE_ENDPOINTS then Inr endpoint else Inl (Invalid ''source_endpoint''))"

datatype order_side = Buy_side | Sell_side

definition order_side_of :: "py_value \<Rightarrow> order_error + order_side" where
  "order_side_of v =
     (if v = PyStr ''bid'' then Inr Buy_side
      else if v = PyStr ''ask'' then Inr Sell_side else Inl (Invalid ''side''))"

section \<open>REST snapshots\<close>

record rest_trade =
  rt_uuid :: "string option"
  rt_side :: order_side
  rt_price :: xdec
  rt_volume :: xdec
  rt_funds :: "xdec option"
  rt_occurred_at :: int
  rt_raw :: py_dict

record rest_order =
  ro_market :: string
  ro_uuid :: string
  ro_identifier :: "string option"
  ro_side :: order_side
  ro_state :: string
  ro_created_at :: "int option"
  ro_remaining_volume :: "xdec option"
  ro_executed_volume :: "xdec option"
  ro_paid_fee :: xdec
  ro_smp_type :: "string option"
  ro_prevented_volume :: xdec
  ro_prevented_locked :: xdec
  ro_trades_count :: int
  ro_trades :: "rest_trade list"
  ro_knowledge_at :: int
  ro_source_endpoint :: string
  ro_raw :: py_dict

record rest_plan =
  rp_observed_status :: string
  rp_ledger_action :: string
  rp_can_resubmit :: bool
  rp_reason :: string

definition trade_snapshot ::
  "(string \<Rightarrow> datetime option) \<Rightarrow> order_side \<Rightarrow> int option \<Rightarrow> py_dict \<Rightarrow> order_error + rest_trade" where
  "trade_snapshot fromiso fallback_side fallback_occurred_at payload =
     res_bind (optional_datetime fromiso (dict_get payload ''created_at'')) (\<lambda>created.
     case (case created of Some t \<Rightarrow> Some t | None \<Rightarrow> fallback_occurred_at) of
       None \<Rightarrow> Inl (Invalid ''created_at'')
     | Some occurred_at \<Rightarrow>
         res_bind (optional_str (dict_get payload ''uuid'')) (\<lambda>uuid.
         res_bind (if dict_get payload ''side'' \<noteq> PyNone then order_side_of (dict_get payload ''side'')
                   else Inr fallback_side) (\<lambda>side.
         res_bind (positive_decimal (dict_get payload ''price'') ''trades.price'') (\<lambda>price.
         res_bind (positive_decimal (dict_get payload ''volume'') ''trades.volume'') (\<lambda>volume.
         res_bind (optional_decimal (dict_get payload ''funds'')) (\<lambda>funds.
         Inr \<lparr>rt_uuid = uuid, rt_side = side, rt_price = price, rt_volume = volume, rt_funds = funds,
              rt_occurred_at = occurred_at, rt_raw = payload\<rparr>))))))"

fun trade_payload_items :: "py_value list \<Rightarrow> order_error + py_dict list" where
  "trade_payload_items [] = Inr []"
| "trade_payload_items (t # ts) =
     (case t of PyDict d \<Rightarrow> res_map (Cons d) (trade_payload_items ts) | _ \<Rightarrow> Inl (Invalid ''trades''))"

definition trade_payloads :: "py_value \<Rightarrow> order_error + py_dict list" where
  "trade_payloads v =
     (case v of PyNone \<Rightarrow> Inr [] | PyList ts \<Rightarrow> trade_payload_items ts | _ \<Rightarrow> Inl (Invalid ''trades''))"

text \<open>The sort key \<^verbatim>\<open>(occurred_at, uuid or "", price, volume)\<close>; prices and volumes compare by value.\<close>

definition x_key :: "xdec \<Rightarrow> int \<times> rat" where
  "x_key x = (case x of Fin a \<Rightarrow> (0, dec_val a) | Inf s \<Rightarrow> (if s then -1 else 1, 0))"

definition trade_sort_key :: "rest_trade \<Rightarrow> int \<times> string \<times> (int \<times> rat) \<times> (int \<times> rat)" where
  "trade_sort_key t =
     (rt_occurred_at t, (case rt_uuid t of Some u \<Rightarrow> u | None \<Rightarrow> []), x_key (rt_price t), x_key (rt_volume t))"

definition parse_upbit_rest_order_snapshot ::
  "(string \<Rightarrow> datetime option) \<Rightarrow> py_dict \<Rightarrow> datetime \<Rightarrow> string \<Rightarrow> order_error + rest_order" where
  "parse_upbit_rest_order_snapshot fromiso payload knowledge_at source_endpoint =
     res_bind (check_source_endpoint source_endpoint) (\<lambda>endpoint.
     res_bind (order_side_of (dict_get payload ''side'')) (\<lambda>fallback_side.
     res_bind (optional_datetime fromiso (dict_get payload ''created_at'')) (\<lambda>fallback_occurred_at.
     res_bind (trade_payloads (dict_get payload ''trades'')) (\<lambda>raw_trades.
     res_bind (res_mapM (trade_snapshot fromiso fallback_side fallback_occurred_at) raw_trades) (\<lambda>unsorted.
     let trades = sort_key trade_sort_key unsorted in
     res_bind (non_negative_int (dict_get_default payload ''trades_count'' (PyInt (int (length trades))))
                 ''trades_count'') (\<lambda>trades_count.
     if trades_count \<noteq> int (length trades) then Inl (Invalid ''trades_count'')
     else
     res_bind (non_blank (dict_get payload ''market'') ''market'') (\<lambda>market.
     res_bind (non_blank (dict_get payload ''uuid'') ''uuid'') (\<lambda>uuid.
     res_bind (optional_str (dict_get payload ''identifier'')) (\<lambda>identifier.
     res_bind (order_state (dict_get payload ''state'')) (\<lambda>state.
     res_bind (optional_decimal (dict_get payload ''remaining_volume'')) (\<lambda>remaining.
     res_bind (optional_decimal (dict_get payload ''executed_volume'')) (\<lambda>executed.
     res_bind (optional_decimal (dict_get payload ''paid_fee'')) (\<lambda>paid_fee.
     res_bind (optional_smp_type (dict_get payload ''smp_type'')) (\<lambda>smp_type.
     res_bind (optional_decimal (dict_get payload ''prevented_volume'')) (\<lambda>prevented_volume.
     res_bind (optional_decimal (dict_get payload ''prevented_locked'')) (\<lambda>prevented_locked.
     res_bind (aware_utc knowledge_at ''knowledge_at'') (\<lambda>known.
     if (state = ''done'' \<or> state = ''cancel'') \<and> x_lt x_zero (x_or_zero executed) \<and> trades = []
     then Inl (Invalid ''terminal_without_trades'')
     else Inr \<lparr>ro_market = market, ro_uuid = uuid, ro_identifier = identifier, ro_side = fallback_side,
               ro_state = state, ro_created_at = fallback_occurred_at, ro_remaining_volume = remaining,
               ro_executed_volume = executed, ro_paid_fee = x_or_zero paid_fee, ro_smp_type = smp_type,
               ro_prevented_volume = x_or_zero prevented_volume,
               ro_prevented_locked = x_or_zero prevented_locked,
               ro_trades_count = trades_count, ro_trades = trades, ro_knowledge_at = known,
               ro_source_endpoint = endpoint, ro_raw = payload\<rparr>)))))))))))))))))"

section \<open>Plan and request\<close>

definition rest_observed_status :: "rest_order \<Rightarrow> order_error + string" where
  "rest_observed_status s =
     (if ro_state s = ''wait'' \<or> ro_state s = ''watch'' then Inr ''working''
      else if ro_state s = ''trade'' then
        (if x_lt x_zero (x_or_zero (ro_remaining_volume s)) then Inr ''partial_fill'' else Inr ''working'')
      else if ro_state s \<in> {''done'', ''cancel'', ''prevented'', ''rejected''} then Inr (ro_state s)
      else Inl (Invalid ''state''))"

definition plan_upbit_rest_snapshot_reconciliation :: "rest_order \<Rightarrow> order_error + rest_plan" where
  "plan_upbit_rest_snapshot_reconciliation s =
     res_map (\<lambda>observed.
        let action = (if observed \<in> {''done'', ''cancel'', ''prevented'', ''rejected''}
                      then ''apply'' else ''observe_only'')
        in \<lparr>rp_observed_status = observed, rp_ledger_action = action, rp_can_resubmit = False,
            rp_reason = (if action = ''apply'' then ''upbit_rest_terminal_snapshot''
                         else ''upbit_rest_working_snapshot_observe_only'')\<rparr>)
       (rest_observed_status s)"

definition lift_dec_error :: "dec_error + 'a \<Rightarrow> order_error + 'a" where
  "lift_dec_error r = (case r of Inl e \<Rightarrow> Inl Raised_InvalidOperation | Inr x \<Rightarrow> Inr x)"

fun distribute_fees :: "xdec \<Rightarrow> xdec \<Rightarrow> xdec \<Rightarrow> xdec list \<Rightarrow> dec_error + xdec list" where
  "distribute_fees paid total_funds assigned [] = Inr []"
| "distribute_fees paid total_funds assigned [fund] = res_map (\<lambda>fee. [fee]) (x_sub paid assigned)"
| "distribute_fees paid total_funds assigned (fund # funds) =
     res_bind (x_mul paid fund) (\<lambda>product.
     res_bind (x_div product total_funds) (\<lambda>fee.
     res_bind (x_add assigned fee) (\<lambda>assigned'.
     res_map (Cons fee) (distribute_fees paid total_funds assigned' funds))))"

definition distributed_fees :: "rest_order \<Rightarrow> order_error + xdec list" where
  "distributed_fees s =
     (let trades = ro_trades s; paid = ro_paid_fee s in
      if trades = [] then Inr []
      else if x_is_zero paid then Inr (map (\<lambda>_. x_zero) trades)
      else if length trades = 1 then Inr [paid]
      else if list_ex (\<lambda>t. rt_funds t = None) trades then Inl (Invalid ''funds'')
      else let funds = map (\<lambda>t. the (rt_funds t)) trades in
        res_bind (lift_dec_error (res_foldM x_add x_zero funds)) (\<lambda>total_funds.
        if \<not> x_lt x_zero total_funds then Inl (Invalid ''funds'')
        else lift_dec_error (distribute_fees paid total_funds x_zero funds)))"

definition side_str :: "order_side \<Rightarrow> string" where
  "side_str s = (case s of Buy_side \<Rightarrow> ''buy'' | Sell_side \<Rightarrow> ''sell'')"

definition opt_str :: "string option \<Rightarrow> py_value" where
  "opt_str s = (case s of None \<Rightarrow> PyNone | Some x \<Rightarrow> PyStr x)"

record recon_fill =
  rf_fill_sequence :: int
  rf_side :: order_side
  rf_filled_quantity :: xdec
  rf_fill_price :: xdec
  rf_fee_paid :: xdec
  rf_occurred_at :: int
  rf_knowledge_at :: int
  rf_evidence :: py_dict

definition fill_evidence :: "rest_order \<Rightarrow> rest_trade \<Rightarrow> py_dict" where
  "fill_evidence s t =
     [(''source'', PyStr ''upbit-rest-order-snapshot''), (''sourceEndpoint'', PyStr (ro_source_endpoint s)),
      (''orderUuid'', PyStr (ro_uuid s)), (''identifier'', opt_str (ro_identifier s)),
      (''tradeUuid'', opt_str (rt_uuid t)), (''market'', PyStr (ro_market s)),
      (''state'', PyStr (ro_state s)), (''paidFee'', PyStr (x_str (ro_paid_fee s))),
      (''smpType'', opt_str (ro_smp_type s)), (''preventedVolume'', PyStr (x_str (ro_prevented_volume s))),
      (''preventedLocked'', PyStr (x_str (ro_prevented_locked s))),
      (''tradesCount'', PyInt (ro_trades_count s))]"

definition reconciliation_fills :: "rest_order \<Rightarrow> order_error + recon_fill list" where
  "reconciliation_fills s =
     res_map (\<lambda>fees. map (\<lambda>(index, t).
         \<lparr>rf_fill_sequence = int index, rf_side = rt_side t, rf_filled_quantity = rt_volume t,
          rf_fill_price = rt_price t, rf_fee_paid = fees ! (index - 1), rf_occurred_at = rt_occurred_at t,
          rf_knowledge_at = ro_knowledge_at s, rf_evidence = fill_evidence s t\<rparr>)
         (enumerate 1 (ro_trades s)))
       (distributed_fees s)"

record recon_request =
  rq_observed_status :: string
  rq_fills :: "recon_fill list"
  rq_evidence :: py_dict

definition build_upbit_rest_reconciliation_request :: "rest_order \<Rightarrow> order_error + recon_request" where
  "build_upbit_rest_reconciliation_request s =
     res_bind (plan_upbit_rest_snapshot_reconciliation s) (\<lambda>plan.
     if rp_ledger_action plan \<noteq> ''apply'' then Inl (Invalid ''observe_only'')
     else res_map (\<lambda>fills.
         \<lparr>rq_observed_status = rp_observed_status plan, rq_fills = fills,
          rq_evidence =
            [(''source'', PyStr ''upbit-rest-order-snapshot''),
             (''sourceEndpoint'', PyStr (ro_source_endpoint s)), (''market'', PyStr (ro_market s)),
             (''orderUuid'', PyStr (ro_uuid s)), (''identifier'', opt_str (ro_identifier s)),
             (''state'', PyStr (ro_state s)), (''paidFee'', PyStr (x_str (ro_paid_fee s))),
             (''smpType'', opt_str (ro_smp_type s)),
             (''preventedVolume'', PyStr (x_str (ro_prevented_volume s))),
             (''preventedLocked'', PyStr (x_str (ro_prevented_locked s))),
             (''tradesCount'', PyInt (ro_trades_count s)), (''canResubmit'', PyBool False)]\<rparr>)
        (reconciliation_fills s))"

text \<open>The arguments of \<^verbatim>\<open>store.reconcile_exchange_order\<close>; the store itself is a function on its
  own state.\<close>

record recon_call =
  rc_exchange_order_id :: int
  rc_run_key :: py_value
  rc_actor_id :: py_value
  rc_reason :: py_value
  rc_request :: recon_request

definition apply_upbit_rest_order_snapshot ::
  "('s \<Rightarrow> recon_call \<Rightarrow> order_error + py_dict \<times> 's) \<Rightarrow> (string \<Rightarrow> datetime option) \<Rightarrow> 's \<Rightarrow> int \<Rightarrow>
     py_value \<Rightarrow> py_value \<Rightarrow> py_value \<Rightarrow> py_dict \<Rightarrow> datetime \<Rightarrow> string \<Rightarrow> order_error + py_dict \<times> 's" where
  "apply_upbit_rest_order_snapshot reconcile fromiso st exchange_order_id run_key actor_id reason payload
       knowledge_at source_endpoint =
     res_bind (parse_upbit_rest_order_snapshot fromiso payload knowledge_at source_endpoint) (\<lambda>s.
     res_bind (plan_upbit_rest_snapshot_reconciliation s) (\<lambda>plan.
     if rp_ledger_action plan = ''observe_only'' then
       Inr ([(''status'', PyStr ''observed''), (''exchangeOrderId'', PyInt exchange_order_id),
             (''observedStatus'', PyStr (rp_observed_status plan)), (''canResubmit'', PyBool False),
             (''sourceEndpoint'', PyStr (ro_source_endpoint s))], st)
     else
       res_bind (build_upbit_rest_reconciliation_request s) (\<lambda>request.
       res_map (\<lambda>(result, st'). (dict_set result ''canResubmit'' (PyBool False), st'))
         (reconcile st \<lparr>rc_exchange_order_id = exchange_order_id, rc_run_key = run_key,
             rc_actor_id = actor_id, rc_reason = reason, rc_request = request\<rparr>))))"

section \<open>myOrder events\<close>

record myorder_event =
  me_code :: "string option"
  me_uuid :: "string option"
  me_identifier :: "string option"
  me_state :: string
  me_volume :: "xdec option"
  me_remaining_volume :: "xdec option"
  me_executed_volume :: "xdec option"
  me_trade_fee :: "xdec option"
  me_is_maker :: "bool option"
  me_prevented_volume :: "xdec option"
  me_prevented_locked :: "xdec option"
  me_raw :: py_dict

record myorder_plan =
  mp_observed_status :: string
  mp_rest_snapshot_required :: bool
  mp_can_resubmit :: bool
  mp_reason :: string

definition parse_myorder_event :: "py_dict \<Rightarrow> order_error + myorder_event" where
  "parse_myorder_event payload =
     (if dict_get payload ''type'' \<noteq> PyStr ''myOrder'' then Inl (Invalid ''type'')
      else
      res_bind (order_state (dict_get payload ''state'')) (\<lambda>state.
      res_bind (optional_str (dict_get payload ''code'')) (\<lambda>code.
      res_bind (optional_str (dict_get payload ''uuid'')) (\<lambda>uuid.
      res_bind (optional_str (dict_get payload ''identifier'')) (\<lambda>identifier.
      res_bind (optional_decimal (dict_get payload ''volume'')) (\<lambda>volume.
      res_bind (optional_decimal (dict_get payload ''remaining_volume'')) (\<lambda>remaining.
      res_bind (optional_decimal (dict_get payload ''executed_volume'')) (\<lambda>executed.
      res_bind (optional_decimal (dict_get payload ''trade_fee'')) (\<lambda>fee.
      res_bind (optional_bool (dict_get payload ''is_maker'')) (\<lambda>maker.
      res_bind (optional_decimal (dict_get payload ''prevented_volume'')) (\<lambda>pv.
      res_bind (optional_decimal (dict_get payload ''prevented_locked'')) (\<lambda>pl.
      Inr \<lparr>me_code = code, me_uuid = uuid, me_identifier = identifier, me_state = state,
           me_volume = volume, me_remaining_volume = remaining, me_executed_volume = executed,
           me_trade_fee = fee, me_is_maker = maker, me_prevented_volume = pv,
           me_prevented_locked = pl, me_raw = payload\<rparr>))))))))))))"

definition myorder_observed_status :: "myorder_event \<Rightarrow> order_error + string" where
  "myorder_observed_status e =
     (if me_state e = ''trade'' \<and> x_lt x_zero (x_or_zero (me_remaining_volume e)) then Inr ''partial_fill''
      else if me_state e \<in> {''wait'', ''watch'', ''trade''} then Inr ''working''
      else if me_state e \<in> {''done'', ''cancel'', ''prevented'', ''rejected''} then Inr (me_state e)
      else Inl (Invalid ''state''))"

definition plan_myorder_reconciliation :: "myorder_event list \<Rightarrow> order_error + myorder_plan" where
  "plan_myorder_reconciliation events =
     (if events = [] then
        Inr \<lparr>mp_observed_status = ''no_event'', mp_rest_snapshot_required = True, mp_can_resubmit = False,
             mp_reason = ''no_initial_snapshot''\<rparr>
      else res_map (\<lambda>observed.
        \<lparr>mp_observed_status = observed, mp_rest_snapshot_required = True, mp_can_resubmit = False,
         mp_reason = ''myorder_event_requires_rest_reconciliation''\<rparr>)
        (myorder_observed_status (last events)))"

section \<open>What a parsed snapshot guarantees\<close>

definition x_nonneg :: "xdec \<Rightarrow> bool" where
  "x_nonneg x \<longleftrightarrow> \<not> x_lt x x_zero"

definition opt_all :: "('a \<Rightarrow> bool) \<Rightarrow> 'a option \<Rightarrow> bool" where
  "opt_all P v = (case v of None \<Rightarrow> True | Some x \<Rightarrow> P x)"

lemma optional_decimal_nonneg: "optional_decimal v = Inr d \<Longrightarrow> opt_all x_nonneg d"
  by (auto simp: optional_decimal_def opt_all_def x_nonneg_def x_zero_def split: if_splits option.splits py_number.splits)

lemma x_or_zero_nonneg: "opt_all x_nonneg d \<Longrightarrow> x_nonneg (x_or_zero d)"
  by (auto simp: x_or_zero_def opt_all_def x_nonneg_def x_zero_def dec_lt_def split: option.splits)

lemma positive_decimal_pos: "positive_decimal v field = Inr x \<Longrightarrow> x_lt x_zero x"
  by (auto simp: positive_decimal_def res_bind_eq_Inr_iff split: option.splits if_splits)

definition trade_ok :: "rest_trade \<Rightarrow> bool" where
  "trade_ok t \<longleftrightarrow> x_lt x_zero (rt_price t) \<and> x_lt x_zero (rt_volume t) \<and> opt_all x_nonneg (rt_funds t)"

lemma trade_snapshot_ok: "trade_snapshot fromiso side occ p = Inr t \<Longrightarrow> trade_ok t"
  by (clarsimp simp: trade_snapshot_def res_bind_eq_Inr_iff trade_ok_def split: option.split_asm)
     (metis positive_decimal_pos optional_decimal_nonneg)+

definition snapshot_ok :: "rest_order \<Rightarrow> bool" where
  "snapshot_ok s \<longleftrightarrow>
     ro_source_endpoint s \<in> set ALLOWED_SOURCE_ENDPOINTS \<and> ro_market s \<noteq> [] \<and> ro_uuid s \<noteq> [] \<and>
     ro_identifier s \<noteq> Some [] \<and> ro_state s \<in> set ORDER_STATES \<and>
     ro_trades_count s = int (length (ro_trades s)) \<and> list_all trade_ok (ro_trades s) \<and>
     sorted (map trade_sort_key (ro_trades s)) \<and>
     x_nonneg (ro_paid_fee s) \<and> x_nonneg (ro_prevented_volume s) \<and> x_nonneg (ro_prevented_locked s) \<and>
     opt_all x_nonneg (ro_remaining_volume s) \<and> opt_all x_nonneg (ro_executed_volume s) \<and>
     (ro_state s \<in> {''done'', ''cancel''} \<and> x_lt x_zero (x_or_zero (ro_executed_volume s)) \<longrightarrow> ro_trades s \<noteq> [])"

lemma non_blank_Inr: "non_blank v f = Inr s \<longleftrightarrow> v = PyStr s \<and> s \<noteq> []"
  by (auto simp: non_blank_def split: py_value.splits if_splits)

lemma optional_str_ne: "optional_str v = Inr s \<Longrightarrow> s \<noteq> Some []"
  by (auto simp: optional_str_def split: py_value.splits if_splits)

lemma order_state_mem: "order_state v = Inr s \<Longrightarrow> s \<in> set ORDER_STATES"
  by (auto simp: order_state_def split: py_value.splits if_splits)

lemma check_source_endpoint_mem: "check_source_endpoint v = Inr s \<Longrightarrow> s \<in> set ALLOWED_SOURCE_ENDPOINTS"
  by (auto simp: check_source_endpoint_def res_bind_eq_Inr_iff split: if_splits)

lemma parsed_snapshot_ok:
  assumes "parse_upbit_rest_order_snapshot fromiso payload knowledge_at endpoint = Inr s"
  shows "snapshot_ok s" and "aware_utc knowledge_at ''knowledge_at'' = Inr (ro_knowledge_at s)"
proof -
  obtain ep side occ raws ts n market uuid ident st rem ex paid smp pv pl known where
    e: "check_source_endpoint endpoint = Inr ep"
    and ts: "res_mapM (trade_snapshot fromiso side occ) raws = Inr ts"
    and n: "n = int (length ts)"
    and m: "non_blank (dict_get payload ''market'') ''market'' = Inr market"
      "non_blank (dict_get payload ''uuid'') ''uuid'' = Inr uuid"
      "optional_str (dict_get payload ''identifier'') = Inr ident"
      "order_state (dict_get payload ''state'') = Inr st"
    and d: "optional_decimal (dict_get payload ''remaining_volume'') = Inr rem"
      "optional_decimal (dict_get payload ''executed_volume'') = Inr ex"
      "optional_decimal (dict_get payload ''paid_fee'') = Inr paid"
      "optional_decimal (dict_get payload ''prevented_volume'') = Inr pv"
      "optional_decimal (dict_get payload ''prevented_locked'') = Inr pl"
    and t: "\<not> ((st = ''done'' \<or> st = ''cancel'') \<and> x_lt x_zero (x_or_zero ex) \<and> ts = [])"
    and k: "aware_utc knowledge_at ''knowledge_at'' = Inr known"
    and s: "s = \<lparr>ro_market = market, ro_uuid = uuid, ro_identifier = ident, ro_side = side, ro_state = st,
        ro_created_at = occ, ro_remaining_volume = rem, ro_executed_volume = ex, ro_paid_fee = x_or_zero paid,
        ro_smp_type = smp, ro_prevented_volume = x_or_zero pv, ro_prevented_locked = x_or_zero pl,
        ro_trades_count = n, ro_trades = sort_key trade_sort_key ts, ro_knowledge_at = known,
        ro_source_endpoint = ep, ro_raw = payload\<rparr>"
    using assms
    by (fastforce simp: parse_upbit_rest_order_snapshot_def Let_def res_bind_eq_Inr_iff split: if_splits)
  have "list_all trade_ok ts"
    using ts trade_snapshot_ok by (auto simp: list_all_iff dest: res_mapM_Inr_set)
  then show "snapshot_ok s"
    using e n m t d [THEN optional_decimal_nonneg]
    by (auto simp: snapshot_ok_def s list_all_iff non_blank_Inr x_or_zero_nonneg
        dest: check_source_endpoint_mem optional_str_ne order_state_mem)
  show "aware_utc knowledge_at ''knowledge_at'' = Inr (ro_knowledge_at s)" using k by (simp add: s)
qed

lemma plan_total:
  assumes "ro_state s \<in> set ORDER_STATES"
  shows "\<exists>plan. plan_upbit_rest_snapshot_reconciliation s = Inr plan \<and> \<not> rp_can_resubmit plan \<and>
    (if ro_state s \<in> {''done'', ''cancel'', ''prevented'', ''rejected''}
     then rp_ledger_action plan = ''apply'' \<and> rp_observed_status plan = ro_state s
     else rp_ledger_action plan = ''observe_only'' \<and> rp_observed_status plan \<in> {''working'', ''partial_fill''})"
  using assms
  by (auto simp: ORDER_STATES_def plan_upbit_rest_snapshot_reconciliation_def rest_observed_status_def Let_def)

section \<open>Fees\<close>

lemma distribute_fees_spec:
  assumes "distribute_fees paid tot assigned funds = Inr fees" "funds \<noteq> []"
  shows "length fees = length funds \<and>
    (\<exists>a. res_foldM x_add assigned (butlast fees) = Inr a \<and> x_sub paid a = Inr (last fees))"
  using assms
proof (induction paid tot assigned funds arbitrary: fees rule: distribute_fees.induct)
  case (3 paid tot assigned fund f fs)
  obtain p fee a' fees' where step: "x_add assigned fee = Inr a'" "fees = fee # fees'"
    "distribute_fees paid tot a' (f # fs) = Inr fees'" "x_mul paid fund = Inr p" "x_div p tot = Inr fee"
    using "3.prems"(1) by (auto simp: res_bind_eq_Inr_iff res_map_eq_Inr_iff)
  have ih: "length fees' = length (f # fs) \<and>
      (\<exists>a. res_foldM x_add a' (butlast fees') = Inr a \<and> x_sub paid a = Inr (last fees'))"
    by (rule "3.IH" [OF step(3)]) simp
  then have "fees' \<noteq> []" by auto
  then show ?case using ih step by auto
qed (auto simp: res_map_eq_Inr_iff)

lemma distributed_fees_spec:
  assumes "distributed_fees s = Inr fees"
  shows "length fees = length (ro_trades s)"
    and "ro_trades s \<noteq> [] \<Longrightarrow> \<not> x_is_zero (ro_paid_fee s) \<Longrightarrow>
      (\<exists>a. res_foldM x_add x_zero (butlast fees) = Inr a \<and> x_sub (ro_paid_fee s) a = Inr (last fees)) \<or>
      fees = [ro_paid_fee s]"
proof -
  have 1: "length fees = length (ro_trades s) \<and> (ro_trades s \<noteq> [] \<longrightarrow> \<not> x_is_zero (ro_paid_fee s) \<longrightarrow>
      (\<exists>a. res_foldM x_add x_zero (butlast fees) = Inr a \<and> x_sub (ro_paid_fee s) a = Inr (last fees)) \<or>
      fees = [ro_paid_fee s])"
  proof (cases "ro_trades s = [] \<or> x_is_zero (ro_paid_fee s) \<or> length (ro_trades s) = 1")
    case True
    then show ?thesis using assms by (auto simp: distributed_fees_def Let_def split: if_splits)
  next
    case False
    let ?funds = "map (\<lambda>t. the (rt_funds t)) (ro_trades s)"
    obtain tot where "distribute_fees (ro_paid_fee s) tot x_zero ?funds = Inr fees"
      using assms False
      by (auto simp: distributed_fees_def Let_def lift_dec_error_def res_bind_eq_Inr_iff split: if_splits sum.splits)
    from distribute_fees_spec [OF this] show ?thesis using False by simp
  qed
  then show "length fees = length (ro_trades s)" by simp
  show "ro_trades s \<noteq> [] \<Longrightarrow> \<not> x_is_zero (ro_paid_fee s) \<Longrightarrow>
      (\<exists>a. res_foldM x_add x_zero (butlast fees) = Inr a \<and> x_sub (ro_paid_fee s) a = Inr (last fees)) \<or>
      fees = [ro_paid_fee s]" using 1 by simp
qed

fun x_val :: "xdec \<Rightarrow> rat" where
  "x_val (Fin a) = dec_val a"
| "x_val (Inf s) = 0"

fun is_fin :: "xdec \<Rightarrow> bool" where
  "is_fin (Fin a) = True"
| "is_fin (Inf s) = False"

text \<open>Adding numbers on a grid is exact.\<close>

lemma x_foldM_exact:
  assumes "res_foldM x_add a xs = Inr b" "is_fin a" "\<forall>x\<in>set xs. is_fin x \<and> on_grid q (x_val x)"
    "on_grid q (x_val a)" "\<bar>x_val a\<bar> + (\<Sum>x\<leftarrow>xs. \<bar>x_val x\<bar>) < 10 ^ PREC_DEFAULT * 10 powi q"
  shows "is_fin b \<and> x_val b = x_val a + (\<Sum>x\<leftarrow>xs. x_val x) \<and> on_grid q (x_val b)"
  using assms
proof (induction xs arbitrary: a)
  case (Cons x xs)
  obtain da dx where fin: "a = Fin da" "x = Fin dx"
    using Cons.prems(2,3) by (cases a; cases x) auto
  let ?a = "Fin (dec_add PREC_DEFAULT da dx)"
  have nonneg: "0 \<le> (\<Sum>x\<leftarrow>xs. \<bar>x_val x\<bar>)" by (intro sum_list_nonneg) auto
  have tri: "\<bar>dec_val da + dec_val dx\<bar> \<le> \<bar>dec_val da\<bar> + \<bar>dec_val dx\<bar>" by (rule abs_triangle_ineq)
  have total_bound: "\<bar>dec_val da\<bar> + (\<bar>dec_val dx\<bar> + (\<Sum>x\<leftarrow>xs. \<bar>x_val x\<bar>)) < 10 ^ PREC_DEFAULT * 10 powi q"
    using Cons.prems(5) by (simp add: fin)
  have grid: "on_grid q (dec_val da + dec_val dx)"
    using Cons.prems(3,4) by (intro on_grid_arith) (simp_all add: fin)
  have "\<bar>dec_val da + dec_val dx\<bar> < 10 ^ PREC_DEFAULT * 10 powi q"
    using tri total_bound nonneg by linarith
  then have val: "dec_val (dec_add PREC_DEFAULT da dx) = dec_val da + dec_val dx"
    using ctx28.rounds_exact [OF ctx28.add_rounds grid_representable [OF grid]] by blast
  have "res_foldM x_add ?a xs = Inr b" using Cons.prems(1) by (simp add: fin)
  moreover have "\<forall>x\<in>set xs. is_fin x \<and> on_grid q (x_val x)" using Cons.prems(3) by simp
  moreover have "on_grid q (x_val ?a)" using grid by (simp add: val)
  moreover have "\<bar>x_val ?a\<bar> + (\<Sum>x\<leftarrow>xs. \<bar>x_val x\<bar>) < 10 ^ PREC_DEFAULT * 10 powi q"
    unfolding x_val.simps val using tri total_bound by linarith
  ultimately have "is_fin b \<and> x_val b = x_val ?a + (\<Sum>x\<leftarrow>xs. x_val x) \<and> on_grid q (x_val b)"
    by (intro Cons.IH) simp_all
  then show ?case by (elim conjE, intro conjI) (simp_all only: x_val.simps fin val list.map sum_list.Cons add.assoc)
qed simp

text \<open>C38. 
  The fee of an order is neither lost nor invented: when fees are distributed over the trades
  of a snapshot, every trade gets exactly one fee, and if the paid fee and the shares of all but the last trade
  lie on a decimal grid within the precision, the fees add up to the paid fee exactly.
\<close>

theorem distributed_fees_conserve:
  assumes "distributed_fees s = Inr fees" and "ro_trades s \<noteq> []"
    and "is_fin (ro_paid_fee s)" "on_grid q (x_val (ro_paid_fee s))"
    and "\<forall>f\<in>set (butlast fees). is_fin f \<and> on_grid q (x_val f)"
    and "\<bar>x_val (ro_paid_fee s)\<bar> + (\<Sum>f\<leftarrow>butlast fees. \<bar>x_val f\<bar>) < 10 ^ PREC_DEFAULT * 10 powi q"
  shows "length fees = length (ro_trades s) \<and> (\<Sum>f\<leftarrow>fees. x_val f) = x_val (ro_paid_fee s)"
proof (cases "x_is_zero (ro_paid_fee s)")
  case True
  then have fees: "fees = map (\<lambda>_. x_zero) (ro_trades s)" and zero: "x_val (ro_paid_fee s) = 0"
    using assms(1,2) by (cases "ro_paid_fee s"; auto simp: distributed_fees_def Let_def dec_val_zero_iff)+
  have "(\<Sum>f\<leftarrow>fees. x_val f) = 0"
    unfolding fees by (induction "ro_trades s") (auto simp: x_zero_def comp_def sum_list_0)
  then show ?thesis using fees zero by simp
next
  case False
  note len = distributed_fees_spec(1) [OF assms(1)]
  have ne: "fees \<noteq> []" using len assms(2) by auto
  from distributed_fees_spec(2) [OF assms(1,2) False]
  have "(\<Sum>f\<leftarrow>fees. x_val f) = x_val (ro_paid_fee s)"
  proof (elim disjE exE conjE)
    fix a assume a: "res_foldM x_add x_zero (butlast fees) = Inr a" "x_sub (ro_paid_fee s) a = Inr (last fees)"
    have nonneg: "0 \<le> \<bar>x_val (ro_paid_fee s)\<bar>" by simp
    have "is_fin a \<and> x_val a = x_val x_zero + (\<Sum>f\<leftarrow>butlast fees. x_val f) \<and> on_grid q (x_val a)"
      by (rule x_foldM_exact [OF a(1)])
         (use assms(5,6) in \<open>auto simp: x_zero_def on_grid_def intro: exI [of _ 0]\<close>)
    then obtain da where da: "a = Fin da" "dec_val da = (\<Sum>f\<leftarrow>butlast fees. x_val f)" "on_grid q (dec_val da)"
      by (cases a) (auto simp: x_zero_def)
    obtain dp where dp: "ro_paid_fee s = Fin dp" using assms(3) by (cases "ro_paid_fee s") auto
    have "\<bar>\<Sum>f\<leftarrow>butlast fees. x_val f\<bar> \<le> (\<Sum>f\<leftarrow>butlast fees. \<bar>x_val f\<bar>)"
      by (rule sum_list_abs [of "map x_val (butlast fees)", simplified comp_def map_map])
    then have "\<bar>dec_val dp - dec_val da\<bar> < 10 ^ PREC_DEFAULT * 10 powi q"
      using assms(6) abs_triangle_ineq4 [of "dec_val dp" "dec_val da"] by (simp add: dp da(2))
    moreover have "on_grid q (dec_val dp - dec_val da)"
      using on_grid_arith(1) [OF _ on_grid_arith(2) [OF da(3)], of "dec_val dp"] assms(4) by (simp add: dp)
    ultimately have "dec_val (dec_sub PREC_DEFAULT dp da) = dec_val dp - dec_val da"
      using ctx28.rounds_exact [OF ctx28.sub_rounds grid_representable, of q dp da] by blast
    moreover have "last fees = Fin (dec_sub PREC_DEFAULT dp da)"
      using a(2) by (simp add: dp da(1) x_sub_def dec_sub_def)
    ultimately have "x_val (last fees) = dec_val dp - dec_val da" by simp
    moreover have "(\<Sum>f\<leftarrow>fees. x_val f) = (\<Sum>f\<leftarrow>butlast fees. x_val f) + x_val (last fees)"
      by (subst append_butlast_last_id [OF ne, symmetric]) (simp only: map_append sum_list_append list.map sum_list.Cons sum_list.Nil add_0_right)
    ultimately show ?thesis by (simp add: dp da(2))
  qed (simp)
  then show ?thesis using len by simp
qed

section \<open>Properties of snapshots and events\<close>


lemma reconciliation_fills_length:
  assumes "reconciliation_fills s = Inr fills"
  shows "length fills = length (ro_trades s)"
    and "\<forall>i<length fills. rf_fill_sequence (fills ! i) = int i + 1 \<and>
      rf_filled_quantity (fills ! i) = rt_volume (ro_trades s ! i) \<and> rf_fill_price (fills ! i) = rt_price (ro_trades s ! i)"
  using assms by (auto simp: reconciliation_fills_def res_map_eq_Inr_iff nth_enumerate_eq)

text \<open>C37. 
  Applying a REST snapshot touches the ledger only for finished orders: the answer always forbids a
  resubmission; for a working order the store is not called and its state is unchanged; for a finished one the store
  is called once, with the observed state and one fill per trade, numbered from one in time order.
\<close>

theorem apply_rest_snapshot_safe:
  assumes "apply_upbit_rest_order_snapshot reconcile fromiso st order_id run_key actor reason payload knowledge_at endpoint
      = Inr (row, st')"
  shows "\<exists>s. parse_upbit_rest_order_snapshot fromiso payload knowledge_at endpoint = Inr s \<and>
    map_of row ''canResubmit'' = Some (PyBool False) \<and>
    (if ro_state s \<in> {''done'', ''cancel'', ''prevented'', ''rejected''}
     then \<exists>request result. reconcile st \<lparr>rc_exchange_order_id = order_id, rc_run_key = run_key, rc_actor_id = actor,
              rc_reason = reason, rc_request = request\<rparr> = Inr (result, st') \<and>
            rq_observed_status request = ro_state s \<and>
            map rf_fill_sequence (rq_fills request) = map (\<lambda>i. int i + 1) [0..<length (ro_trades s)] \<and>
            map rf_filled_quantity (rq_fills request) = map rt_volume (ro_trades s)
     else st' = st \<and> map_of row ''status'' = Some (PyStr ''observed''))"
proof -
  obtain s where s: "parse_upbit_rest_order_snapshot fromiso payload knowledge_at endpoint = Inr s"
    using assms by (auto simp: apply_upbit_rest_order_snapshot_def res_bind_eq_Inr_iff)
  have "ro_state s \<in> set ORDER_STATES" using parsed_snapshot_ok(1) [OF s] by (simp add: snapshot_ok_def)
  then obtain plan where plan: "plan_upbit_rest_snapshot_reconciliation s = Inr plan"
    "if ro_state s \<in> {''done'', ''cancel'', ''prevented'', ''rejected''}
     then rp_ledger_action plan = ''apply'' \<and> rp_observed_status plan = ro_state s
     else rp_ledger_action plan = ''observe_only'' \<and> rp_observed_status plan \<in> {''working'', ''partial_fill''}"
    using plan_total by blast
  show ?thesis
  proof (cases "ro_state s \<in> {''done'', ''cancel'', ''prevented'', ''rejected''}")
    case False
    then have "rp_ledger_action plan = ''observe_only''" using plan(2) by simp
    then have "st' = st" "map_of row ''canResubmit'' = Some (PyBool False)" "map_of row ''status'' = Some (PyStr ''observed'')"
      using assms by (auto simp: apply_upbit_rest_order_snapshot_def s plan(1))
    then show ?thesis using s False by (intro exI [of _ s]) simp
  next
    case True
    then have p: "rp_ledger_action plan = ''apply''" "rp_observed_status plan = ro_state s" using plan(2) by simp_all
    obtain request result where r: "build_upbit_rest_reconciliation_request s = Inr request"
      "reconcile st \<lparr>rc_exchange_order_id = order_id, rc_run_key = run_key, rc_actor_id = actor,
              rc_reason = reason, rc_request = request\<rparr> = Inr (result, st')"
      "row = dict_set result ''canResubmit'' (PyBool False)"
      using assms p(1)
      by (auto simp: apply_upbit_rest_order_snapshot_def s plan(1) res_bind_eq_Inr_iff res_map_eq_Inr_iff)
    obtain fills where f: "reconciliation_fills s = Inr fills" "rq_fills request = fills" "rq_observed_status request = ro_state s"
      using r(1) p by (auto simp: build_upbit_rest_reconciliation_request_def plan(1) res_map_eq_Inr_iff)
    note L = reconciliation_fills_length [OF f(1)]
    have "map rf_fill_sequence fills = map (\<lambda>i. int i + 1) [0..<length (ro_trades s)]"
      "map rf_filled_quantity fills = map rt_volume (ro_trades s)"
      using L by (auto intro!: nth_equalityI)
    then show ?thesis using s True r(2,3) f by (intro exI [of _ s]) auto
  qed
qed

text \<open>
  A NaN escapes the field contract: a myOrder event that is valid up to its volume, with the text
  \<open>NaN\<close> there, is not rejected with the module's own error but raises the decimal exception of the unguarded
  comparison.
\<close>

theorem myorder_nan_escapes:
  assumes "dict_get payload ''type'' = PyStr ''myOrder''" and "order_state (dict_get payload ''state'') = Inr state"
    and "optional_str (dict_get payload ''code'') = Inr code" "optional_str (dict_get payload ''uuid'') = Inr uuid"
    and "optional_str (dict_get payload ''identifier'') = Inr ident"
    and "dict_get payload ''volume'' = PyStr ''NaN''"
  shows "parse_myorder_event payload = Inl Raised_InvalidOperation"
proof -
  have "optional_decimal (PyStr ''NaN'') = Inl Raised_InvalidOperation" by code_simp
  then show ?thesis using assms by (simp add: parse_myorder_event_def)
qed

theorem myorder_nan_escapes_witness:
  "parse_myorder_event [(''type'', PyStr ''myOrder''), (''state'', PyStr ''wait''), (''volume'', PyStr ''NaN'')] =
     Inl Raised_InvalidOperation"
  by (rule myorder_nan_escapes [of _ "''wait''" None None None])
     (simp_all add: dict_get_def order_state_def ORDER_STATES_def optional_str_def)

definition fee_trade :: "nat \<Rightarrow> rest_trade" where
  "fee_trade f = \<lparr>rt_uuid = None, rt_side = Buy_side, rt_price = Fin (Dec False 1 0), rt_volume = Fin (Dec False 1 0),
     rt_funds = Some (Fin (Dec False f 0)), rt_occurred_at = 0, rt_raw = []\<rparr>"

definition fee_order :: "nat \<Rightarrow> nat list \<Rightarrow> rest_order" where
  "fee_order paid funds =
     \<lparr>ro_market = ''KRW-BTC'', ro_uuid = ''u'', ro_identifier = None, ro_side = Buy_side, ro_state = ''done'',
      ro_created_at = None, ro_remaining_volume = None, ro_executed_volume = None, ro_paid_fee = Fin (Dec False paid 0),
      ro_smp_type = None, ro_prevented_volume = x_zero, ro_prevented_locked = x_zero,
      ro_trades_count = int (length funds), ro_trades = map fee_trade funds, ro_knowledge_at = 0,
      ro_source_endpoint = ''GET /v1/order'', ro_raw = []\<rparr>"

text \<open>
  The last trade can be given a negative fee: with a paid fee of 5 over trades with funds 1, 1, 1
  and 0, the three rounded shares of 1.666666666666666666666666667 already exceed the paid fee and the last
  trade gets -1E-27.
\<close>

theorem distributed_fees_negative:
  "distributed_fees (fee_order 5 [1, 1, 1, 0]) =
     Inr [Fin (Dec False 1666666666666666666666666667 (-27)), Fin (Dec False 1666666666666666666666666667 (-27)),
          Fin (Dec False 1666666666666666666666666667 (-27)), Fin (Dec True 1 (-27))]"
proof -
  let ?d = "\<lambda>n. Dec False n 0" and ?share = "Dec False 1666666666666666666666666667 (-27)"
  note eval = dec_add_def dec_mul_def dec_div_def dec_signed_def quotient_digits_def half_even_div_def
    PREC_DEFAULT_def Let_def num_digits.simps strip_to.simps dec_copy_negate_def
  have sum_funds: "dec_add PREC_DEFAULT (?d 0) (?d 1) = ?d 1" "dec_add PREC_DEFAULT (?d 1) (?d 1) = ?d 2"
    "dec_add PREC_DEFAULT (?d 2) (?d 1) = ?d 3" "dec_add PREC_DEFAULT (?d 3) (?d 0) = ?d 3"
    by (simp_all add: eval)
  have product: "dec_mul PREC_DEFAULT (?d 5) (?d 1) = ?d 5" by (simp add: eval)
  have share: "dec_div PREC_DEFAULT (?d 5) (?d 3) = Inr ?share" by (simp add: eval)
  have assigned: "dec_add PREC_DEFAULT (?d 0) ?share = ?share"
    "dec_add PREC_DEFAULT ?share ?share = Dec False 3333333333333333333333333334 (-27)"
    "dec_add PREC_DEFAULT (Dec False 3333333333333333333333333334 (-27)) ?share =
       Dec False 5000000000000000000000000001 (-27)"
    by (simp_all add: eval)
  have rest: "dec_add PREC_DEFAULT (?d 5) (Dec True 5000000000000000000000000001 (-27)) = Dec True 1 (-27)"
    by (simp add: eval)
  show ?thesis
    by (simp add: distributed_fees_def fee_order_def fee_trade_def x_zero_def sum_funds product share assigned rest
        lift_dec_error_def x_sub_def dec_copy_negate_def dec_lt_def Let_def del: One_nat_def)
qed

section \<open>Witnesses\<close>

theorem distributed_fees_conserve_witness:
  "\<exists>fees. distributed_fees (fee_order 4 [1, 3]) = Inr fees \<and> length fees = 2 \<and> (\<Sum>f\<leftarrow>fees. x_val f) = 4"
proof -
  note eval = dec_add_def dec_mul_def dec_div_def dec_signed_def quotient_digits_def half_even_div_def
    PREC_DEFAULT_def Let_def num_digits.simps strip_to.simps dec_copy_negate_def
  have "dec_add PREC_DEFAULT (Dec False 0 0) (Dec False 1 0) = Dec False 1 0"
    "dec_add PREC_DEFAULT (Dec False 1 0) (Dec False 3 0) = Dec False 4 0"
    "dec_mul PREC_DEFAULT (Dec False 4 0) (Dec False 1 0) = Dec False 4 0"
    "dec_div PREC_DEFAULT (Dec False 4 0) (Dec False 4 0) = Inr (Dec False 1 0)"
    "dec_add PREC_DEFAULT (Dec False 4 0) (Dec True 1 0) = Dec False 3 0"
    by (simp_all add: eval)
  then have f: "distributed_fees (fee_order 4 [1, 3]) = Inr [Fin (Dec False 1 0), Fin (Dec False 3 0)]"
    by (simp add: distributed_fees_def fee_order_def fee_trade_def x_zero_def lift_dec_error_def x_sub_def
        dec_copy_negate_def dec_lt_def Let_def del: One_nat_def)
  have g: "on_grid 0 (of_int k)" for k unfolding on_grid_def by (intro exI [of _ k]) simp
  have "length [Fin (Dec False 1 0), Fin (Dec False 3 0)] = length (ro_trades (fee_order 4 [1, 3])) \<and>
      (\<Sum>f\<leftarrow>[Fin (Dec False 1 0), Fin (Dec False 3 0)]. x_val f) = x_val (ro_paid_fee (fee_order 4 [1, 3]))"
    by (rule distributed_fees_conserve [OF f, of 0])
       (use g [of 4] g [of 1] in \<open>simp_all add: fee_order_def PREC_DEFAULT_def\<close>)
  then show ?thesis using f by (simp add: fee_order_def)
qed

definition cancelled_payload :: py_dict where
  "cancelled_payload =
     [(''market'', PyStr ''KRW-BTC''), (''uuid'', PyStr ''u-1''), (''side'', PyStr ''bid''), (''state'', PyStr ''cancel'')]"

lemma cancelled_parses:
  "\<exists>s. parse_upbit_rest_order_snapshot (\<lambda>_. None) cancelled_payload (utc 5) ''GET /v1/order'' = Inr s \<and>
     ro_state s = ''cancel'' \<and> ro_trades s = [] \<and> ro_paid_fee s = x_zero"
  by (simp add: parse_upbit_rest_order_snapshot_def cancelled_payload_def dict_get_def dict_get_default_def
      check_source_endpoint_def non_blank_def ALLOWED_SOURCE_ENDPOINTS_def order_side_of_def optional_datetime_def
      trade_payloads_def non_negative_int_def py_int_def optional_str_def order_state_def ORDER_STATES_def
      optional_decimal_def optional_smp_type_def aware_utc_def x_or_zero_def x_zero_def dec_lt_def)


definition counting_store :: "nat \<Rightarrow> recon_call \<Rightarrow> order_error + py_dict \<times> nat" where
  "counting_store n call = Inr ([(''status'', PyStr ''reconciled'')], n + 1)"

theorem apply_rest_snapshot_safe_witness:
  "\<exists>row. apply_upbit_rest_order_snapshot counting_store (\<lambda>_. None) 0 7 PyNone PyNone PyNone cancelled_payload (utc 5)
       ''GET /v1/order'' = Inr (row, 1) \<and> map_of row ''canResubmit'' = Some (PyBool False)"
proof -
  obtain s where s: "parse_upbit_rest_order_snapshot (\<lambda>_. None) cancelled_payload (utc 5) ''GET /v1/order'' = Inr s"
    "ro_state s = ''cancel''" "ro_trades s = []" "ro_paid_fee s = x_zero"
    using cancelled_parses by blast
  have "\<exists>row. apply_upbit_rest_order_snapshot counting_store (\<lambda>_. None) 0 7 PyNone PyNone PyNone cancelled_payload (utc 5)
       ''GET /v1/order'' = Inr (row, 1)"
    by (simp add: apply_upbit_rest_order_snapshot_def s plan_upbit_rest_snapshot_reconciliation_def
        rest_observed_status_def build_upbit_rest_reconciliation_request_def reconciliation_fills_def
        distributed_fees_def counting_store_def)
  then obtain row where r: "apply_upbit_rest_order_snapshot counting_store (\<lambda>_. None) 0 7 PyNone PyNone PyNone
      cancelled_payload (utc 5) ''GET /v1/order'' = Inr (row, 1)" by (elim exE)
  from apply_rest_snapshot_safe [OF r] show ?thesis using r by (elim exE conjE) (intro exI [of _ row] conjI)
qed

end
