(* ===== verification/Sha512.thy ===== *)
theory Sha512
  imports Sha256
begin

text \<open>
  \<^verbatim>\<open>hashlib.sha512(...).hexdigest()\<close> (FIPS 180-4), the 64-bit sibling of the digest in \<open>Sha256\<close>.
\<close>

type_synonym w64 = "64 word"

definition sha512_k :: "w64 list" where
  "sha512_k = [
    4794697086780616226, 8158064640168781261, 13096744586834688815, 16840607885511220156,
    4131703408338449720, 6480981068601479193, 10538285296894168987, 12329834152419229976,
    15566598209576043074, 1334009975649890238, 2608012711638119052, 6128411473006802146,
    8268148722764581231, 9286055187155687089, 11230858885718282805, 13951009754708518548,
    16472876342353939154, 17275323862435702243, 1135362057144423861, 2597628984639134821,
    3308224258029322869, 5365058923640841347, 6679025012923562964, 8573033837759648693,
    10970295158949994411, 12119686244451234320, 12683024718118986047, 13788192230050041572,
    14330467153632333762, 15395433587784984357, 489312712824947311, 1452737877330783856,
    2861767655752347644, 3322285676063803686, 5560940570517711597, 5996557281743188959,
    7280758554555802590, 8532644243296465576, 9350256976987008742, 10552545826968843579,
    11727347734174303076, 12113106623233404929, 14000437183269869457, 14369950271660146224,
    15101387698204529176, 15463397548674623760, 17586052441742319658, 1182934255886127544,
    1847814050463011016, 2177327727835720531, 2830643537854262169, 3796741975233480872,
    4115178125766777443, 5681478168544905931, 6601373596472566643, 7507060721942968483,
    8399075790359081724, 8693463985226723168, 9568029438360202098, 10144078919501101548,
    10430055236837252648, 11840083180663258601, 13761210420658862357, 14299343276471374635,
    14566680578165727644, 15097957966210449927, 16922976911328602910, 17689382322260857208,
    500013540394364858, 748580250866718886, 1242879168328830382, 1977374033974150939,
    2944078676154940804, 3659926193048069267, 4368137639120453308, 4836135668995329356,
    5532061633213252278, 6448918945643986474, 6902733635092675308, 7801388544844847127]"

definition sha512_init :: "w64 list" where
  "sha512_init = [
    7640891576956012808, 13503953896175478587, 4354685564936845355, 11912009170470909681,
    5840696475078001361, 11170449401992604703, 2270897969802886507, 6620516959819538809]"

definition rotr64 :: "nat \<Rightarrow> w64 \<Rightarrow> w64" where
  "rotr64 n x = (drop_bit n x) OR (push_bit (64 - n) x)"

text \<open>\<open>xor3\<close> of two rotations and a shift, and of three rotations.\<close>

definition mix_shift :: "nat \<Rightarrow> nat \<Rightarrow> nat \<Rightarrow> w64 \<Rightarrow> w64" where
  "mix_shift i j k x = rotr64 i x XOR rotr64 j x XOR drop_bit k x"

definition mix_rot :: "nat \<Rightarrow> nat \<Rightarrow> nat \<Rightarrow> w64 \<Rightarrow> w64" where
  "mix_rot i j k x = rotr64 i x XOR rotr64 j x XOR rotr64 k x"

fun schedule512 :: "nat \<Rightarrow> w64 list \<Rightarrow> w64 list" where
  "schedule512 0 ws = ws"
| "schedule512 (Suc n) ws =
     (let t = length ws in
      schedule512 n (ws @ [mix_shift 19 61 6 (ws ! (t - 2)) + ws ! (t - 7) + mix_shift 1 8 7 (ws ! (t - 15))
        + ws ! (t - 16)]))"

fun round512 :: "w64 list \<Rightarrow> w64 \<times> w64 \<Rightarrow> w64 list" where
  "round512 [a, b, c, d, e, f, g, h] (k, w) =
     (let t1 = h + mix_rot 14 18 41 e + ((e AND f) XOR (NOT e AND g)) + k + w;
          t2 = mix_rot 28 34 39 a + ((a AND b) XOR (a AND c) XOR (b AND c))
      in [t1 + t2, a, b, c, d + t1, e, f, g])"
| "round512 st _ = st"

definition block512 :: "w64 list \<Rightarrow> w64 list \<Rightarrow> w64 list" where
  "block512 st ws = map2 (+) st (foldl round512 st (zip sha512_k (schedule512 64 ws)))"

definition be_word64 :: "w64 list \<Rightarrow> w64" where
  "be_word64 bs = foldl (\<lambda>w b. push_bit 8 w + b) 0 bs"

text \<open>The length field has 16 bytes.\<close>

definition pad512 :: "w64 list \<Rightarrow> w64 list" where
  "pad512 bs =
     bs @ [128] @ replicate ((239 - length bs mod 128) mod 128) 0 @
     map (\<lambda>i. of_nat (8 * length bs div 256 ^ (15 - i) mod 256)) [0..<16]"

definition sha512_words :: "w64 list \<Rightarrow> w64 list" where
  "sha512_words bs =
     foldl (\<lambda>st blk. block512 st (map be_word64 (chunks 8 blk))) sha512_init (chunks 128 (pad512 bs))"

definition sha512_hex :: "string \<Rightarrow> string" where
  "sha512_hex s =
     concat (map (\<lambda>w. map (\<lambda>i. hex_digit (unat (drop_bit (4 * (15 - i)) w AND 15))) [0..<16])
       (sha512_words (map of_char s)))"

end
