(* ===== verification/Live_Orders.thy ===== *)
theory Live_Orders
  imports Upbit_Orders Sha512
begin

text \<open>
  The safety boundary of live trading: the capability authority (\<^verbatim>\<open>live_capability.py\<close>), the outbox
  decision (\<^verbatim>\<open>upbit_safe_order_adapter.py\<close>), the derived order identifier
  (\<^verbatim>\<open>live_order_identity.py\<close>), the binding of an exchange order to it
  (\<^verbatim>\<open>upbit_live_order_binding.py\<close>), the rehearsal of an order submission
  (\<^verbatim>\<open>upbit_order_submit_rehearsal.py\<close>) and the application of a REST snapshot to a bound live order
  (\<^verbatim>\<open>upbit_live_reconciliation.py\<close>). Times are UTC instants. Character classes (\<^verbatim>\<open>strip\<close>,
  \<^verbatim>\<open>lower\<close>) are those of ASCII.
\<close>

section \<open>Live capability\<close>

record live_capability_record =
  lc_state :: string
  lc_deployment_sha :: string
  lc_expires_at :: int

record live_capability_evaluation =
  le_state :: string
  le_reason :: string

definition live_evaluation :: "string \<Rightarrow> string \<Rightarrow> live_capability_evaluation" where
  "live_evaluation state reason = \<lparr>le_state = state, le_reason = reason\<rparr>"

definition evaluate_live_capability ::
  "live_capability_record option \<Rightarrow> string \<Rightarrow> int \<Rightarrow> live_capability_evaluation" where
  "evaluate_live_capability rec deployment_sha now =
     (case rec of
        None \<Rightarrow> live_evaluation ''live_disabled'' ''authority_missing''
      | Some r \<Rightarrow>
          if lc_state r \<noteq> ''live_enabled'' then live_evaluation ''live_disabled'' ''explicitly_disabled''
          else if lc_deployment_sha r \<noteq> deployment_sha
          then live_evaluation ''live_disabled'' ''deployment_sha_mismatch''
          else if lc_expires_at r \<le> now then live_evaluation ''live_disabled'' ''approval_expired''
          else live_evaluation ''live_enabled'' ''live_enabled'')"

text \<open>\<^verbatim>\<open>fetch_record()\<close> may raise anything: \<open>Inl\<close>.\<close>

definition evaluate_live_capability_fail_closed ::
  "'e + live_capability_record option \<Rightarrow> string \<Rightarrow> int \<Rightarrow> live_capability_evaluation" where
  "evaluate_live_capability_fail_closed fetched deployment_sha now =
     (case fetched of
        Inl e \<Rightarrow> live_evaluation ''live_disabled'' ''authority_unavailable''
      | Inr rec \<Rightarrow> evaluate_live_capability rec deployment_sha now)"

text \<open>The table \<^verbatim>\<open>trading_capabilities\<close>; the query takes the latest global row.\<close>

record capability_row =
  cr_id :: int
  cr_scope_type :: string
  cr_scope_key :: string
  cr_created_at :: int
  cr_state :: string
  cr_deployment_sha :: string
  cr_expires_at :: int

definition fetch_global_live_capability_record :: "capability_row list \<Rightarrow> live_capability_record option" where
  "fetch_global_live_capability_record rows =
     (let globals = filter (\<lambda>r. cr_scope_type r = ''global'' \<and> cr_scope_key r = ''global'') rows in
      if globals = [] then None
      else let r = last (sort_key (\<lambda>r. (cr_created_at r, cr_id r)) globals) in
        Some \<lparr>lc_state = cr_state r, lc_deployment_sha = cr_deployment_sha r, lc_expires_at = cr_expires_at r\<rparr>)"

section \<open>Safe order outbox\<close>

record permission_readiness =
  pr_has_order_permission :: bool
  pr_has_order_read_permission :: bool
  pr_has_withdraw_permission :: bool
  pr_expires_at :: int

record outbox_decision =
  od_status :: string
  od_blocked_reason :: "string option"
  od_can_enqueue :: bool
  od_can_submit :: bool

definition blocked :: "string \<Rightarrow> outbox_decision" where
  "blocked reason =
     \<lparr>od_status = ''blocked'', od_blocked_reason = Some reason, od_can_enqueue = False, od_can_submit = False\<rparr>"

definition evaluate_upbit_safe_order_outbox ::
  "live_capability_evaluation \<Rightarrow> permission_readiness option \<Rightarrow> int \<Rightarrow> bool \<Rightarrow> outbox_decision" where
  "evaluate_upbit_safe_order_outbox live readiness now kill_switch_armed =
     (if le_state live \<noteq> ''live_enabled'' then blocked ''live_disabled''
      else case readiness of
        None \<Rightarrow> blocked ''permission_missing''
      | Some p \<Rightarrow>
          if pr_expires_at p \<le> now then blocked ''permission_expired''
          else if \<not> (pr_has_order_permission p \<and> pr_has_order_read_permission p)
          then blocked ''permission_not_ready''
          else if pr_has_withdraw_permission p then blocked ''withdraw_permission_present''
          else if kill_switch_armed then blocked ''kill_switch_armed''
          else \<lparr>od_status = ''ready'', od_blocked_reason = None, od_can_enqueue = True, od_can_submit = False\<rparr>)"

section \<open>Order identifiers\<close>

definition BASE32_ALPHABET :: string where
  "BASE32_ALPHABET = ''ABCDEFGHIJKLMNOPQRSTUVWXYZ234567''"

definition IDENTIFIER_CHARS :: string where
  "IDENTIFIER_CHARS = ''abcdefghijklmnopqrstuvwxyz234567''"

text \<open>The bits of a byte, most significant first, and the value of a bit group.\<close>

definition bits_of :: "nat \<Rightarrow> nat \<Rightarrow> bool list" where
  "bits_of k n = map (\<lambda>i. odd (n div 2 ^ (k - 1 - i))) [0..<k]"

definition bits_val :: "bool list \<Rightarrow> nat" where
  "bits_val bs = foldl (\<lambda>n b. 2 * n + (if b then 1 else 0)) 0 bs"

definition b32encode :: "nat list \<Rightarrow> string" where
  "b32encode bytes =
     (let bits = concat (map (bits_of 8) bytes);
          padded = bits @ replicate ((5 - length bits mod 5) mod 5) False;
          body = map (\<lambda>g. BASE32_ALPHABET ! bits_val g) (chunks 5 padded)
      in body @ replicate ((8 - length body mod 8) mod 8) (CHR ''=''))"

definition sha256_digest :: "string \<Rightarrow> nat list" where
  "sha256_digest s =
     concat (map (\<lambda>w. map (\<lambda>i. unat (drop_bit (8 * (3 - i)) w AND 255)) [0..<4]) (sha256_words (map of_char s)))"

definition rstrip_char :: "char \<Rightarrow> string \<Rightarrow> string" where
  "rstrip_char c s = rev (dropWhile (\<lambda>d. d = c) (rev s))"

text \<open>\<^verbatim>\<open>^gm1_[a-z2-7]{52}$\<close> with \<^verbatim>\<open>fullmatch\<close>.\<close>

definition is_upbit_live_order_identifier :: "string \<Rightarrow> bool" where
  "is_upbit_live_order_identifier s \<longleftrightarrow>
     take 4 s = ''gm1_'' \<and> length s = 56 \<and> list_all (\<lambda>c. c \<in> set IDENTIFIER_CHARS) (drop 4 s)"

definition identity_non_blank :: "string \<Rightarrow> string \<Rightarrow> order_error + string" where
  "identity_non_blank value field =
     (if value = [] then Inl (Invalid field)
      else if value \<noteq> strip value then Inl (Invalid field) else Inr value)"

definition derive_upbit_live_order_identifier :: "string \<Rightarrow> string \<Rightarrow> order_error + string" where
  "derive_upbit_live_order_identifier stable_id idempotency_key =
     res_bind (identity_non_blank stable_id ''exchange_account_stable_id'') (\<lambda>account.
     res_bind (identity_non_blank idempotency_key ''idempotency_key'') (\<lambda>key.
     let encoded = rstrip_char (CHR ''='') (map to_lower (b32encode (sha256_digest (account @ '':'' @ key))));
         identifier = ''gm1_'' @ encoded
     in if is_upbit_live_order_identifier identifier then Inr identifier else Inl (Invalid ''identifier'')))"

section \<open>Order binding\<close>

record binding_candidate =
  bc_upbit_order_uuid :: string
  bc_upbit_identifier :: string
  bc_source :: string
  bc_can_reconcile :: bool
  bc_can_submit :: bool
  bc_can_cancel :: bool
  bc_can_resubmit :: bool

definition ALLOWED_SOURCES :: "string list" where
  "ALLOWED_SOURCES = [''order_submit_response'', ''rest_order_snapshot'', ''myorder_event'']"

definition binding_non_blank :: "py_value \<Rightarrow> string \<Rightarrow> order_error + string" where
  "binding_non_blank v field =
     (case v of PyStr s \<Rightarrow> (if strip s = [] then Inl (Invalid field) else Inr (strip s)) | _ \<Rightarrow> Inl (Invalid field))"

definition live_identifier :: "py_value \<Rightarrow> order_error + string" where
  "live_identifier v =
     res_bind (binding_non_blank v ''identifier'') (\<lambda>s.
       if is_upbit_live_order_identifier s then Inr s else Inl (Invalid ''identifier''))"

text \<open>\<^verbatim>\<open>[0-9a-f]{8}-[0-9a-f]{4}-[0-9a-f]{4}-[0-9a-f]{4}-[0-9a-f]{12}\<close>.\<close>

definition is_uuid :: "string \<Rightarrow> bool" where
  "is_uuid s \<longleftrightarrow>
     length s = 36 \<and>
     list_all (\<lambda>i. if i \<in> {8, 13, 18, 23} then s ! i = CHR ''-'' else s ! i \<in> set HEX_DIGITS) [0..<36]"

definition order_uuid :: "py_value \<Rightarrow> order_error + string" where
  "order_uuid v =
     res_bind (binding_non_blank v ''order_uuid'') (\<lambda>s.
       let u = map to_lower s in if is_uuid u then Inr u else Inl (Invalid ''order_uuid''))"

definition binding_source :: "py_value \<Rightarrow> order_error + string" where
  "binding_source v =
     res_bind (binding_non_blank v ''source'') (\<lambda>s.
       if s \<in> set ALLOWED_SOURCES then Inr s else Inl (Invalid ''source''))"

definition build_upbit_live_order_binding_candidate ::
  "py_value \<Rightarrow> py_value \<Rightarrow> py_value \<Rightarrow> order_error + binding_candidate" where
  "build_upbit_live_order_binding_candidate uuid identifier source =
     res_bind (order_uuid uuid) (\<lambda>u.
     res_bind (live_identifier identifier) (\<lambda>i.
     res_bind (binding_source source) (\<lambda>s.
     Inr \<lparr>bc_upbit_order_uuid = u, bc_upbit_identifier = i, bc_source = s, bc_can_reconcile = True,
          bc_can_submit = False, bc_can_cancel = False, bc_can_resubmit = False\<rparr>)))"

section \<open>Submission rehearsal\<close>

definition FIELD_ORDER :: "string list" where
  "FIELD_ORDER =
     [''market'', ''side'', ''volume'', ''price'', ''ord_type'', ''identifier'', ''time_in_force'', ''smp_type'']"

record submit_rehearsal =
  sr_endpoint_key :: string
  sr_http_method :: string
  sr_request_path :: string
  sr_canonical_payload :: "(string \<times> string) list"
  sr_request_hash :: string
  sr_query_string :: string
  sr_query_hash :: string
  sr_rehearsed_at :: datetime
  sr_actual_request_sent :: bool
  sr_would_submit :: bool
  sr_can_bind_response :: bool

fun normalize_fields :: "py_dict \<Rightarrow> string list \<Rightarrow> order_error + (string \<times> string) list" where
  "normalize_fields payload [] = Inr []"
| "normalize_fields payload (field # fs) =
     (case dict_get payload field of
        PyNone \<Rightarrow> normalize_fields payload fs
      | PyStr s \<Rightarrow>
          if strip s = [] then Inl (Invalid field)
          else res_map (Cons (field, strip s)) (normalize_fields payload fs)
      | _ \<Rightarrow> Inl (Invalid field))"

definition require_field :: "(string \<times> string) list \<Rightarrow> string \<Rightarrow> order_error + unit" where
  "require_field payload field = (if map_of payload field = None then Inl (Invalid field) else Inr ())"

definition enum_field :: "(string \<times> string) list \<Rightarrow> string list \<Rightarrow> string \<Rightarrow> order_error + unit" where
  "enum_field payload allowed field =
     (case map_of payload field of
        None \<Rightarrow> Inr () | Some v \<Rightarrow> if v \<in> set allowed then Inr () else Inl (Invalid field))"

definition validate_order_shape :: "(string \<times> string) list \<Rightarrow> order_error + unit" where
  "validate_order_shape payload =
     (let ord_type = the (map_of payload ''ord_type''); side = the (map_of payload ''side'');
          has_price = (map_of payload ''price'' \<noteq> None); has_volume = (map_of payload ''volume'' \<noteq> None);
          tif = map_of payload ''time_in_force'' in
      if ord_type \<in> {''price'', ''market''} \<and> tif \<noteq> None then Inl (Invalid ''time_in_force'')
      else if ord_type = ''limit'' \<and> \<not> (has_price \<and> has_volume) then Inl (Invalid ''limit'')
      else if ord_type = ''price'' \<and> \<not> (side = ''bid'' \<and> has_price \<and> \<not> has_volume) then Inl (Invalid ''price'')
      else if ord_type = ''market'' \<and> \<not> (side = ''ask'' \<and> has_volume \<and> \<not> has_price) then Inl (Invalid ''market'')
      else if ord_type = ''best'' then
        (if tif \<notin> {Some ''ioc'', Some ''fok''} then Inl (Invalid ''best'')
         else if side = ''bid'' \<and> \<not> (has_price \<and> \<not> has_volume) then Inl (Invalid ''best_bid'')
         else if side = ''ask'' \<and> \<not> (has_volume \<and> \<not> has_price) then Inl (Invalid ''best_ask'')
         else Inr ())
      else Inr ())"

definition rehearsal_canonical_payload :: "py_dict \<Rightarrow> order_error + (string \<times> string) list" where
  "rehearsal_canonical_payload payload =
     (if list_ex (\<lambda>k. k \<notin> set FIELD_ORDER) (map fst payload) then Inl (Invalid ''unknown_fields'')
      else
      res_bind (normalize_fields payload FIELD_ORDER) (\<lambda>n.
      res_bind (require_field n ''market'') (\<lambda>_.
      res_bind (require_field n ''side'') (\<lambda>_.
      res_bind (require_field n ''ord_type'') (\<lambda>_.
      res_bind (require_field n ''identifier'') (\<lambda>_.
      res_bind (enum_field n [''bid'', ''ask''] ''side'') (\<lambda>_.
      res_bind (enum_field n [''limit'', ''price'', ''market'', ''best''] ''ord_type'') (\<lambda>_.
      res_bind (enum_field n [''ioc'', ''fok'', ''post_only''] ''time_in_force'') (\<lambda>_.
      res_bind (enum_field n [''cancel_maker'', ''cancel_taker'', ''reduce''] ''smp_type'') (\<lambda>_.
      if \<not> is_upbit_live_order_identifier (the (map_of n ''identifier'')) then Inl (Invalid ''identifier'')
      else if map_of n ''time_in_force'' = Some ''post_only'' \<and> map_of n ''smp_type'' \<noteq> None
      then Inl (Invalid ''post_only'')
      else res_bind (validate_order_shape n) (\<lambda>_. Inr n)))))))))))"

definition query_string :: "(string \<times> string) list \<Rightarrow> string" where
  "query_string payload =
     join ''&'' (List.map_filter (\<lambda>f. map_option (\<lambda>v. f @ ''='' @ v) (map_of payload f)) FIELD_ORDER)"

definition build_upbit_order_submit_rehearsal :: "py_dict \<Rightarrow> datetime \<Rightarrow> order_error + submit_rehearsal" where
  "build_upbit_order_submit_rehearsal request_payload rehearsed_at =
     res_map (\<lambda>canonical.
        \<lparr>sr_endpoint_key = ''rest.new-order'', sr_http_method = ''POST'', sr_request_path = ''/v1/orders'',
         sr_canonical_payload = canonical,
         sr_request_hash = sha256_hex (json_dumps (JObj (map (\<lambda>(k, v). (k, JStr v)) canonical))),
         sr_query_string = query_string canonical,
         sr_query_hash = sha512_hex (query_string canonical),
         sr_rehearsed_at = rehearsed_at, sr_actual_request_sent = False, sr_would_submit = False,
         sr_can_bind_response = False\<rparr>)
       (rehearsal_canonical_payload request_payload)"

section \<open>Application to a bound live order\<close>

record live_binding_snapshot =
  lb_id :: int
  lb_exchange_account_id :: int
  lb_order_intent_id :: int
  lb_exchange_order_id :: int
  lb_upbit_order_uuid :: string
  lb_upbit_identifier :: string

definition binding_field :: "py_dict \<Rightarrow> string \<Rightarrow> string \<Rightarrow> order_error + py_value" where
  "binding_field payload snake camel =
     (case map_of payload snake of Some v \<Rightarrow> Inr v
      | None \<Rightarrow> (case map_of payload camel of Some v \<Rightarrow> Inr v | None \<Rightarrow> Inl (Invalid ''live_binding'')))"

definition binding_int :: "py_value \<Rightarrow> order_error + int" where
  "binding_int v = (case v of PyBool b \<Rightarrow> Inl (Invalid ''live_binding'') | _ \<Rightarrow> py_int v ''live_binding'')"

definition parse_live_binding :: "py_dict \<Rightarrow> order_error + live_binding_snapshot" where
  "parse_live_binding payload =
     res_bind (res_bind (binding_field payload ''id'' ''liveBindingId'') binding_int) (\<lambda>i.
     res_bind (res_bind (binding_field payload ''exchange_account_id'' ''exchangeAccountId'') binding_int) (\<lambda>a.
     res_bind (res_bind (binding_field payload ''order_intent_id'' ''orderIntentId'') binding_int) (\<lambda>n.
     res_bind (res_bind (binding_field payload ''exchange_order_id'' ''exchangeOrderId'') binding_int) (\<lambda>e.
     res_bind (res_bind (binding_field payload ''upbit_order_uuid'' ''upbitOrderUuid'')
                 (\<lambda>v. non_blank v ''live_binding'')) (\<lambda>u.
     res_bind (res_bind (binding_field payload ''upbit_identifier'' ''identifier'')
                 (\<lambda>v. non_blank v ''live_binding'')) (\<lambda>d.
     Inr \<lparr>lb_id = i, lb_exchange_account_id = a, lb_order_intent_id = n, lb_exchange_order_id = e,
          lb_upbit_order_uuid = u, lb_upbit_identifier = d\<rparr>))))))"

definition validate_snapshot_matches_binding ::
  "string \<Rightarrow> string option \<Rightarrow> live_binding_snapshot \<Rightarrow> order_error + unit" where
  "validate_snapshot_matches_binding uuid identifier binding =
     (if uuid \<noteq> lb_upbit_order_uuid binding then Inl (Invalid ''uuid_mismatch'')
      else if identifier \<noteq> Some (lb_upbit_identifier binding) then Inl (Invalid ''identifier_mismatch'')
      else Inr ())"

text \<open>The arguments of \<^verbatim>\<open>store.apply_upbit_live_reconciliation_application\<close>.\<close>

record live_application =
  la_exchange_account_id :: int
  la_order_intent_id :: int
  la_exchange_order_id :: int
  la_live_exchange_order_binding_id :: int
  la_run_key :: py_value
  la_observed_status :: string
  la_fills :: "recon_fill list"
  la_reconciliation_evidence :: py_dict
  la_source :: string
  la_source_endpoint :: string
  la_observed_upbit_order_uuid :: string
  la_observed_upbit_identifier :: "string option"
  la_observed_state :: string
  la_applied_at :: datetime
  la_can_resubmit :: bool
  la_actual_request_sent :: bool
  la_actual_order_cancel_sent :: bool
  la_application_evidence :: py_dict
  la_actor_id :: py_value
  la_reason :: py_value
  la_request_id :: string
  la_idempotency_key :: string

definition live_application_of ::
  "live_binding_snapshot \<Rightarrow> int \<Rightarrow> py_value \<Rightarrow> py_value \<Rightarrow> py_value \<Rightarrow> rest_order \<Rightarrow> recon_request \<Rightarrow> datetime \<Rightarrow>
     live_application" where
  "live_application_of binding order_id run_key actor_id reason s request knowledge_at =
     \<lparr>la_exchange_account_id = lb_exchange_account_id binding, la_order_intent_id = lb_order_intent_id binding,
      la_exchange_order_id = order_id, la_live_exchange_order_binding_id = lb_id binding, la_run_key = run_key,
      la_observed_status = rq_observed_status request, la_fills = rq_fills request,
      la_reconciliation_evidence = rq_evidence request, la_source = ''rest_order_snapshot'',
      la_source_endpoint = ro_source_endpoint s, la_observed_upbit_order_uuid = ro_uuid s,
      la_observed_upbit_identifier = ro_identifier s, la_observed_state = ro_state s, la_applied_at = knowledge_at,
      la_can_resubmit = False, la_actual_request_sent = False, la_actual_order_cancel_sent = False,
      la_application_evidence =
        [(''source'', PyStr ''upbit-live-rest-reconciliation-application''),
         (''restSnapshotSource'', PyStr ''upbit-rest-order-snapshot''), (''runKey'', run_key),
         (''observedStatus'', PyStr (rq_observed_status request)), (''tradesCount'', PyInt (ro_trades_count s)),
         (''canResubmit'', PyBool False), (''liveBindingMatched'', PyBool True)],
      la_actor_id = actor_id, la_reason = reason,
      la_request_id = py_str run_key @ '':live-reconciliation-application'',
      la_idempotency_key = py_str run_key @ '':live-reconciliation-application''\<rparr>"

definition apply_upbit_live_rest_order_snapshot ::
  "('s \<Rightarrow> live_application \<Rightarrow> order_error + py_dict \<times> 's) \<Rightarrow> (string \<Rightarrow> datetime option) \<Rightarrow> 's \<Rightarrow> py_dict \<Rightarrow> int \<Rightarrow>
     py_value \<Rightarrow> py_value \<Rightarrow> py_value \<Rightarrow> py_dict \<Rightarrow> datetime \<Rightarrow> string \<Rightarrow> order_error + py_dict \<times> 's" where
  "apply_upbit_live_rest_order_snapshot store fromiso st live_binding order_id run_key actor_id reason
       snapshot_payload knowledge_at source_endpoint =
     res_bind (parse_live_binding live_binding) (\<lambda>binding.
     if lb_exchange_order_id binding \<noteq> order_id then Inl (Invalid ''exchange_order_mismatch'')
     else
     res_bind (parse_upbit_rest_order_snapshot fromiso snapshot_payload knowledge_at source_endpoint) (\<lambda>s.
     res_bind (validate_snapshot_matches_binding (ro_uuid s) (ro_identifier s) binding) (\<lambda>_.
     res_bind (plan_upbit_rest_snapshot_reconciliation s) (\<lambda>plan.
     if rp_ledger_action plan = ''observe_only'' then
       Inr ([(''status'', PyStr ''observed''), (''exchangeOrderId'', PyInt order_id),
             (''observedStatus'', PyStr (rp_observed_status plan)), (''canResubmit'', PyBool False),
             (''sourceEndpoint'', PyStr (ro_source_endpoint s)), (''liveBindingMatched'', PyBool True)], st)
     else
       res_bind (build_upbit_rest_reconciliation_request s) (\<lambda>request.
       res_map (\<lambda>(result, st').
           (dict_set (dict_set (dict_set (dict_set result ''canResubmit'' (PyBool False))
              ''actualRequestSent'' (PyBool False)) ''actualOrderCancelSent'' (PyBool False))
              ''liveBindingMatched'' (PyBool True), st'))
         (store st (live_application_of binding order_id run_key actor_id reason s request knowledge_at)))))))"

section \<open>Identifiers are always well formed\<close>

lemma length_chunks: "0 < n \<Longrightarrow> n dvd length xs \<Longrightarrow> length (chunks n xs) = length xs div n"
proof (induction n xs rule: chunks.induct)
  case (1 n xs)
  show ?case
  proof (cases "xs = []")
    case False
    then have "n \<le> length xs" using "1.prems" by (intro dvd_imp_le) simp_all
    moreover have "length (chunks n (drop n xs)) = length (drop n xs) div n"
      using "1.IH" False "1.prems" by simp
    ultimately show ?thesis
      using False "1.prems" by (simp add: chunks.simps [of n xs] le_div_geq)
  qed (simp add: chunks.simps)
qed

lemma chunk_length: "g \<in> set (chunks n xs) \<Longrightarrow> length g \<le> n"
proof (induction n xs rule: chunks.induct)
  case (1 n xs)
  then show ?case by (subst (asm) chunks.simps) (auto split: if_splits)
qed

lemma bits_val_less: "bits_val bs < 2 ^ length bs"
proof -
  have "foldl (\<lambda>n b. 2 * n + (if b then 1 else 0)) m bs < (m + 1) * 2 ^ length bs" for m :: nat
  proof (induction bs arbitrary: m)
    case (Cons b bs)
    have "foldl (\<lambda>n b. 2 * n + (if b then 1 else 0)) (2 * m + (if b then 1 else 0)) bs <
        (2 * m + (if b then 1 else 0) + 1) * 2 ^ length bs" by (rule Cons.IH)
    also have "\<dots> \<le> (2 * m + 2) * 2 ^ length bs" by (intro mult_right_mono) auto
    finally show ?case by (simp add: algebra_simps)
  qed simp
  from this [of 0] show ?thesis by (simp add: bits_val_def)
qed

lemma length_sha256_digest: "length (sha256_digest s) = 32"
proof -
  have "length (concat (map (\<lambda>w. map (f w) [0..<4]) ws)) = 4 * length ws" for f :: "w32 \<Rightarrow> nat \<Rightarrow> nat" and ws
    by (induction ws) auto
  then show ?thesis by (simp add: sha256_digest_def length_sha256_words)
qed

lemma length_bits: "length (concat (map (bits_of 8) bytes)) = 8 * length bytes"
  by (induction bytes) (auto simp: bits_of_def)

definition b32body :: "nat list \<Rightarrow> string" where
  "b32body bytes =
     (let bits = concat (map (bits_of 8) bytes) in
      map (\<lambda>g. BASE32_ALPHABET ! bits_val g) (chunks 5 (bits @ replicate ((5 - length bits mod 5) mod 5) False)))"

lemma b32encode_body: "b32encode bytes = b32body bytes @ replicate ((8 - length (b32body bytes) mod 8) mod 8) (CHR ''='')"
  by (simp add: b32encode_def b32body_def Let_def)

lemma length_b32body: "length bytes = 32 \<Longrightarrow> length (b32body bytes) = 52"
  by (simp add: b32body_def Let_def length_bits length_chunks)

lemma b32body_alphabet: "set (b32body bytes) \<subseteq> set BASE32_ALPHABET"
proof
  fix c assume "c \<in> set (b32body bytes)"
  then obtain g xs where g: "g \<in> set (chunks 5 xs)" "c = BASE32_ALPHABET ! bits_val g"
    by (auto simp: b32body_def Let_def)
  have "(2::nat) ^ length g \<le> 2 ^ 5" using chunk_length [OF g(1)] by (intro power_increasing) simp_all
  then have "bits_val g < length BASE32_ALPHABET"
    using bits_val_less [of g] by (simp add: BASE32_ALPHABET_def)
  then show "c \<in> set BASE32_ALPHABET" using g(2) nth_mem by blast
qed

lemma lower_alphabet: "c \<in> set BASE32_ALPHABET \<Longrightarrow> to_lower c \<in> set IDENTIFIER_CHARS \<and> to_lower c \<noteq> CHR ''=''"
proof -
  have "list_all (\<lambda>c. to_lower c \<in> set IDENTIFIER_CHARS \<and> to_lower c \<noteq> CHR ''='') BASE32_ALPHABET"
    by code_simp
  then show "c \<in> set BASE32_ALPHABET \<Longrightarrow> to_lower c \<in> set IDENTIFIER_CHARS \<and> to_lower c \<noteq> CHR ''=''"
    by (simp only: list_all_iff) blast
qed

lemma rstrip_padding:
  "CHR ''='' \<notin> set s \<Longrightarrow> rstrip_char (CHR ''='') (s @ replicate n (CHR ''='')) = s"
proof -
  assume "CHR ''='' \<notin> set s"
  then have "dropWhile (\<lambda>d. d = CHR ''='') (replicate n (CHR ''='') @ rev s) = rev s"
    by (cases "rev s") (auto simp: dropWhile_append2 dropWhile_append3 intro: dropWhile_append2 [THEN trans])
  then show ?thesis by (simp add: rstrip_char_def)
qed

lemma identifier_body:
  "rstrip_char (CHR ''='') (map to_lower (b32encode (sha256_digest s))) = map to_lower (b32body (sha256_digest s))"
proof -
  let ?b = "map to_lower (b32body (sha256_digest s))"
  have eq: "to_lower (CHR ''='') = CHR ''=''" by code_simp
  have "CHR ''='' \<notin> set ?b" using lower_alphabet b32body_alphabet by fastforce
  from rstrip_padding [OF this] show ?thesis by (simp add: b32encode_body eq)
qed

lemma identifier_encoding:
  "is_upbit_live_order_identifier (''gm1_'' @ rstrip_char (CHR ''='') (map to_lower (b32encode (sha256_digest s))))"
proof -
  have "set (map to_lower (b32body (sha256_digest s))) \<subseteq> set IDENTIFIER_CHARS"
    using lower_alphabet b32body_alphabet by fastforce
  then show ?thesis
    using length_b32body [OF length_sha256_digest]
    by (auto simp: identifier_body is_upbit_live_order_identifier_def list_all_iff)
qed

lemma identifier_strip:
  assumes "is_upbit_live_order_identifier s"
  shows "strip s = s" "s \<noteq> []"
proof -
  have len: "length s = 56" and pre: "take 4 s = ''gm1_''" and chars: "set (drop 4 s) \<subseteq> set IDENTIFIER_CHARS"
    using assms by (auto simp: is_upbit_live_order_identifier_def list_all_iff)
  then show "s \<noteq> []" by auto
  have "list_all (\<lambda>c. \<not> is_space c) IDENTIFIER_CHARS" by code_simp
  then have nospace: "c \<in> set IDENTIFIER_CHARS \<Longrightarrow> \<not> is_space c" for c by (simp only: list_all_iff) blast
  have "hd s = CHR ''g''" using pre len by (cases s) auto
  then have h: "\<not> is_space (hd s)" by (simp add: is_space_def)
  have "last s = last (drop 4 s)" using len by simp
  moreover have "last (drop 4 s) \<in> set (drop 4 s)" using len by (intro last_in_set) auto
  ultimately have l: "\<not> is_space (last s)" using chars nospace by auto
  have "dropWhile is_space s = s" using h \<open>s \<noteq> []\<close> by (cases s) auto
  moreover have "dropWhile is_space (rev s) = rev s" using l \<open>s \<noteq> []\<close> by (cases "rev s") (auto simp: hd_rev [symmetric])
  ultimately show "strip s = s" by (simp add: strip_def)
qed

subsection \<open>Identifiers lose nothing of the digest\<close>

lemma bits_val_inj: "length g = length h \<Longrightarrow> bits_val g = bits_val h \<Longrightarrow> g = h"
proof -
  have "length g = length h \<Longrightarrow> foldl (\<lambda>n b. 2 * n + (if b then 1 else 0)) m g = foldl (\<lambda>n b. 2 * n + (if b then 1 else 0)) m' h
      \<Longrightarrow> g = h \<and> m = m'" for m m' :: nat
  proof (induction g h arbitrary: m m' rule: list_induct2)
    case (Cons x xs y ys)
    from Cons.IH [OF Cons.prems [unfolded foldl_Cons]]
    have "xs = ys" "2 * m + (if x then 1 else 0) = 2 * m' + (if y then 1 else (0::nat))" by blast+
    moreover from this(2) have "x = y \<and> m = m'" by (cases x; cases y) (simp_all, presburger+)
    ultimately show ?case by blast
  qed simp
  then show "length g = length h \<Longrightarrow> bits_val g = bits_val h \<Longrightarrow> g = h" by (simp add: bits_val_def)
qed

lemma chunks_map_inj:
  assumes "0 < n" "length xs = length ys" "map f (chunks n xs) = map f (chunks n ys)"
    and "\<And>g h. length g = length h \<Longrightarrow> length g \<le> n \<Longrightarrow> f g = f h \<Longrightarrow> g = h"
  shows "xs = ys"
  using assms
proof (induction n xs arbitrary: ys rule: chunks.induct)
  case (1 n xs)
  show ?case
  proof (cases "xs = []")
    case False
    then have ne: "ys \<noteq> []" using "1.prems" by auto
    have "chunks n xs = take n xs # chunks n (drop n xs)" "chunks n ys = take n ys # chunks n (drop n ys)"
      using False ne "1.prems"(1) by (metis chunks.simps neq0_conv)+
    then have parts: "map f (chunks n (drop n xs)) = map f (chunks n (drop n ys))" "f (take n xs) = f (take n ys)"
      using "1.prems"(3) by simp_all
    have "drop n xs = drop n ys"
      by (rule "1.IH") (use False "1.prems"(1,2,4) parts(1) in auto)
    moreover have "take n xs = take n ys"
      by (rule "1.prems"(4)) (use parts(2) "1.prems"(2) in simp_all)
    ultimately show ?thesis by (metis append_take_drop_id)
  qed (use "1.prems" in simp)
qed

lemma bits_of_Suc: "bits_of (Suc k) n = bits_of k (n div 2) @ [odd n]"
proof -
  have "n div 2 ^ (k - i) = n div 2 div 2 ^ (k - 1 - i)" if "i < k" for i
  proof -
    have "(2::nat) ^ (k - i) = 2 * 2 ^ (k - 1 - i)" using that by (metis Suc_diff_Suc diff_Suc_eq_diff_pred power_Suc)
    then show ?thesis by (simp add: div_mult2_eq)
  qed
  then show ?thesis by (simp add: bits_of_def)
qed

lemma bits_of_val: "bits_val (bits_of k n) = n mod 2 ^ k"
proof (induction k arbitrary: n)
  case (Suc k)
  have "bits_val (bits_of (Suc k) n) = 2 * (n div 2 mod 2 ^ k) + n mod 2"
    using Suc [of "n div 2"] by (simp add: bits_of_Suc bits_val_def mod2_eq_if)
  then show ?case by (simp add: mod_mult2_eq)
qed (simp add: bits_of_def bits_val_def)

lemma bits_of_byte: "n < 256 \<Longrightarrow> bits_val (bits_of 8 n) = n"
  by (simp add: bits_of_val)

lemma bytes_bits_inj:
  "length xs = length ys \<Longrightarrow> \<forall>n\<in>set xs \<union> set ys. n < 256 \<Longrightarrow>
   concat (map (bits_of 8) xs) = concat (map (bits_of 8) ys) \<Longrightarrow> xs = ys"
proof (induction xs ys rule: list_induct2)
  case (Cons x xs y ys)
  have "length (bits_of 8 x) = length (bits_of 8 y)" by (simp add: bits_of_def)
  then have "bits_of 8 x = bits_of 8 y" "concat (map (bits_of 8) xs) = concat (map (bits_of 8) ys)"
    using Cons.prems(2) by simp_all
  moreover from this(1) have "x = y" using Cons.prems(1) bits_of_byte by (metis UnI1 UnI2 list.set_intros(1))
  ultimately show ?case using Cons.IH Cons.prems(1) by simp
qed simp

lemma digest_bytes: "n \<in> set (sha256_digest s) \<Longrightarrow> n < 256"
proof -
  have "unat (w AND 255 :: w32) < 256" for w
    using word_and_le1 [of w 255] by (simp add: word_le_nat_alt)
  then show "n \<in> set (sha256_digest s) \<Longrightarrow> n < 256" by (auto simp: sha256_digest_def)
qed

lemma alphabet_distinct: "distinct BASE32_ALPHABET" "distinct (map to_lower BASE32_ALPHABET)"
  by code_simp+

lemma b32body_inj:
  assumes "map to_lower (b32body (sha256_digest s)) = map to_lower (b32body (sha256_digest t))"
  shows "sha256_digest s = sha256_digest t"
proof -
  have low: "inj_on to_lower (set BASE32_ALPHABET)" using alphabet_distinct by (simp add: distinct_map)
  have same: "b32body (sha256_digest s) = b32body (sha256_digest t)"
    using map_inj_on [OF assms] low b32body_alphabet by (metis Un_least inj_on_subset)
  have eq: "g = h" if "length g = length h" "length g \<le> 5" "BASE32_ALPHABET ! bits_val g = BASE32_ALPHABET ! bits_val h"
    for g h
  proof -
    have "(2::nat) ^ length h \<le> 2 ^ 5" "(2::nat) ^ length g \<le> 2 ^ 5" using that by (intro power_increasing; simp)+
    then have "bits_val g < length BASE32_ALPHABET" "bits_val h < length BASE32_ALPHABET"
      using bits_val_less [of g] bits_val_less [of h] by (simp_all add: BASE32_ALPHABET_def)
    then have "bits_val g = bits_val h" using that(3) alphabet_distinct(1) nth_eq_iff_index_eq by blast
    then show ?thesis by (rule bits_val_inj [OF that(1)])
  qed
  let ?p = "\<lambda>s. concat (map (bits_of 8) (sha256_digest s)) @ replicate 4 False"
  have body: "b32body (sha256_digest s) = map (\<lambda>g. BASE32_ALPHABET ! bits_val g) (chunks 5 (?p s))" for s
    by (simp add: b32body_def length_bits length_sha256_digest)
  have "?p s = ?p t"
  proof (rule chunks_map_inj)
    show "map (\<lambda>g. BASE32_ALPHABET ! bits_val g) (chunks 5 (?p s)) = map (\<lambda>g. BASE32_ALPHABET ! bits_val g) (chunks 5 (?p t))"
      using same body by metis
  qed (use eq in \<open>auto simp: length_bits length_sha256_digest\<close>)
  then have "concat (map (bits_of 8) (sha256_digest s)) = concat (map (bits_of 8) (sha256_digest t))" by simp
  then show ?thesis
    by (rule bytes_bits_inj [rotated 2]) (use digest_bytes in \<open>auto simp: length_sha256_digest\<close>)
qed


lemma derived_identifier:
  assumes "account \<noteq> []" "strip account = account" "key \<noteq> []" "strip key = key"
  shows "derive_upbit_live_order_identifier account key =
     Inr (''gm1_'' @ map to_lower (b32body (sha256_digest (account @ '':'' @ key))))"
proof -
  have "rstrip_char (CHR ''='') (map to_lower (b32encode (sha256_digest s))) = map to_lower (b32body (sha256_digest s))" for s
    using identifier_body [of s] by blast
  then show ?thesis
    using assms identifier_encoding [of "account @ '':'' @ key"]
    by (simp add: derive_upbit_live_order_identifier_def identity_non_blank_def)
qed

section \<open>Properties\<close>


text \<open>
  The identifier of a live order is exact. For any account and idempotency key in ASCII, both without surrounding blanks,
  the derivation succeeds: its internal check never fails. The identifier is \<^verbatim>\<open>gm1_\<close> and 52 characters
  of \<^verbatim>\<open>a\<close> to \<^verbatim>\<open>z\<close> and \<^verbatim>\<open>2\<close> to \<^verbatim>\<open>7\<close>, the binding of an exchange order accepts it
  unchanged, and nothing of the digest is lost: two derivations agree exactly when the SHA-256 digests of
  \<^verbatim>\<open>account:key\<close> agree. In particular \<^verbatim>\<open>a\<close> with \<^verbatim>\<open>b:c\<close> and \<^verbatim>\<open>a:b\<close> with \<^verbatim>\<open>c\<close>
  share their identifier, as the witness shows.
\<close>

theorem live_identifier_exact:
  assumes "account \<noteq> []" "strip account = account" "key \<noteq> []" "strip key = key"
    and "account' \<noteq> []" "strip account' = account'" "key' \<noteq> []" "strip key' = key'"
  shows "\<exists>i i'. derive_upbit_live_order_identifier account key = Inr i \<and>
     derive_upbit_live_order_identifier account' key' = Inr i' \<and>
     take 4 i = ''gm1_'' \<and> length i = 56 \<and> set (drop 4 i) \<subseteq> set ''abcdefghijklmnopqrstuvwxyz234567'' \<and>
     live_identifier (PyStr i) = Inr i \<and>
     (i = i' \<longleftrightarrow> sha256_digest (account @ '':'' @ key) = sha256_digest (account' @ '':'' @ key'))"
proof -
  let ?i = "\<lambda>a k. ''gm1_'' @ map to_lower (b32body (sha256_digest (a @ '':'' @ k)))"
  note d = derived_identifier [OF assms(1-4)] derived_identifier [OF assms(5-8)]
  have ok: "is_upbit_live_order_identifier (?i account key)"
    using identifier_encoding [of "account @ '':'' @ key"] identifier_body [of "account @ '':'' @ key"] by simp
  then have "live_identifier (PyStr (?i account key)) = Inr (?i account key)"
    unfolding live_identifier_def binding_non_blank_def using identifier_strip [OF ok] by simp
  moreover have "?i account key = ?i account' key' \<longleftrightarrow>
      sha256_digest (account @ '':'' @ key) = sha256_digest (account' @ '':'' @ key')"
    using b32body_inj by (metis append_same_eq same_append_eq)
  ultimately show ?thesis using d ok
    by (intro exI [of _ "?i account key"] exI [of _ "?i account' key'"])
       (auto simp: is_upbit_live_order_identifier_def IDENTIFIER_CHARS_def list_all_iff)
qed

theorem live_identifier_exact_witness:
  "\<exists>i. derive_upbit_live_order_identifier ''a'' ''b:c'' = Inr i \<and> derive_upbit_live_order_identifier ''a:b'' ''c'' = Inr i \<and>
     length i = 56 \<and> live_identifier (PyStr i) = Inr i"
  using live_identifier_exact [of "''a''" "''b:c''" "''a:b''" "''c''"] by (auto simp: strip_def is_space_def)

text \<open>
  Live order identifiers are well formed and accepted everywhere: for any account and key without surrounding
  blanks the derivation returns an identifier of the required form, its internal check never fails, and
  the binding builder accepts it unchanged with any valid order UUID and source, never allowing a submission, cancellation or resubmission.
\<close>

theorem derived_identifier_accepted:
  assumes "account \<noteq> []" "strip account = account" "key \<noteq> []" "strip key = key"
    and "order_uuid uuid = Inr u" and "binding_source source = Inr src"
  shows "\<exists>ident. derive_upbit_live_order_identifier account key = Inr ident \<and> is_upbit_live_order_identifier ident \<and>
    (\<exists>b. build_upbit_live_order_binding_candidate uuid (PyStr ident) source = Inr b \<and>
       bc_upbit_identifier b = ident \<and> bc_upbit_order_uuid b = u \<and> bc_can_reconcile b \<and>
       \<not> bc_can_submit b \<and> \<not> bc_can_cancel b \<and> \<not> bc_can_resubmit b)"
proof -
  let ?i = "''gm1_'' @ rstrip_char (CHR ''='') (map to_lower (b32encode (sha256_digest (account @ '':'' @ key))))"
  have ok: "is_upbit_live_order_identifier ?i" by (rule identifier_encoding)
  have "derive_upbit_live_order_identifier account key = Inr ?i"
    using assms(1-4) ok by (simp add: derive_upbit_live_order_identifier_def identity_non_blank_def)
  moreover have "live_identifier (PyStr ?i) = Inr ?i"
    unfolding live_identifier_def binding_non_blank_def using identifier_strip [OF ok] ok by simp
  ultimately show ?thesis
    using ok assms(5,6) by (intro exI [of _ ?i]) (simp add: build_upbit_live_order_binding_candidate_def)
qed

subsection \<open>Rehearsals\<close>

lemma strip_ends:
  "strip s = [] \<or> (\<not> is_space (hd (strip s)) \<and> \<not> is_space (last (strip s)))"
proof -
  let ?m = "dropWhile is_space s"
  have "strip s \<noteq> [] \<Longrightarrow> \<not> is_space (last (strip s))"
    using hd_dropWhile [of is_space "rev ?m"] by (auto simp: strip_def last_rev)
  moreover have "\<not> is_space (hd (strip s))" if ne: "strip s \<noteq> []"
  proof -
    obtain t where t: "?m = strip s @ t"
      using takeWhile_dropWhile_id [of is_space "rev ?m"] by (metis rev_append rev_rev_ident strip_def)
    then have "?m \<noteq> []" using ne by auto
    from hd_dropWhile [OF this] show ?thesis using t ne by (simp add: hd_append)
  qed
  ultimately show ?thesis by blast
qed

lemma strip_idem: "strip (strip s) = strip s"
proof (cases "strip s = []")
  case False
  then have e: "\<not> is_space (hd (strip s))" "\<not> is_space (last (strip s))" using strip_ends by blast+
  have "dropWhile is_space (strip s) = strip s" using e(1) False by (cases "strip s") auto
  moreover have "dropWhile is_space (rev (strip s)) = rev (strip s)"
    using e(2) False by (cases "rev (strip s)") (auto simp: hd_rev [symmetric])
  ultimately show ?thesis by (simp add: strip_def [of "strip s"])
next
  case True
  then show ?thesis by (simp only: True) (simp add: strip_def)
qed

lemma normalize_fields_keys:
  "normalize_fields p fs = Inr n \<Longrightarrow> set (map fst n) \<subseteq> set fs"
proof (induction fs arbitrary: n)
  case (Cons f fs)
  then show ?case by (cases "dict_get p f") (fastforce simp: res_map_eq_Inr_iff split: if_splits)+
qed simp

lemma normalize_fields_again:
  assumes "normalize_fields p fs = Inr n" "distinct fs"
    "\<forall>f\<in>set fs. dict_get q f = (case map_of n f of None \<Rightarrow> PyNone | Some v \<Rightarrow> PyStr v)"
  shows "normalize_fields q fs = Inr n"
  using assms
proof (induction fs arbitrary: n)
  case (Cons f fs)
  show ?case
  proof (cases "dict_get p f")
    case PyNone
    then have n: "normalize_fields p fs = Inr n" using Cons.prems(1) by simp
    then have "map_of n f = None"
      using normalize_fields_keys [OF n] Cons.prems(2) by (auto simp: map_of_eq_None_iff)
    then have "dict_get q f = PyNone" using Cons.prems(3) by simp
    moreover have "normalize_fields q fs = Inr n" using Cons.IH [OF n] Cons.prems(2,3) by simp
    ultimately show ?thesis by simp
  next
    case (PyStr s)
    then obtain n' where n': "strip s \<noteq> []" "normalize_fields p fs = Inr n'" "n = (f, strip s) # n'"
      using Cons.prems(1) by (auto simp: res_map_eq_Inr_iff split: if_splits)
    have "\<forall>g\<in>set fs. dict_get q g = (case map_of n' g of None \<Rightarrow> PyNone | Some v \<Rightarrow> PyStr v)"
      using Cons.prems(2,3) n'(3) by auto
    then have "normalize_fields q fs = Inr n'" using Cons.IH [OF n'(2)] Cons.prems(2) by simp
    moreover have "dict_get q f = PyStr (strip s)" using Cons.prems(3) n'(3) by simp
    ultimately show ?thesis using n' by (simp add: strip_idem)
  qed (use Cons.prems(1) in simp_all)
qed simp

definition as_payload :: "(string \<times> string) list \<Rightarrow> py_dict" where
  "as_payload n = map (\<lambda>(k, v). (k, PyStr v)) n"

lemma dict_get_as_payload: "dict_get (as_payload n) f = (case map_of n f of None \<Rightarrow> PyNone | Some v \<Rightarrow> PyStr v)"
  by (induction n) (auto simp: dict_get_def as_payload_def split: option.splits)

lemma canonical_payload_again:
  assumes "rehearsal_canonical_payload p = Inr n"
  shows "rehearsal_canonical_payload (as_payload n) = Inr n"
proof -
  have norm: "normalize_fields p FIELD_ORDER = Inr n"
    using assms by (clarsimp simp: rehearsal_canonical_payload_def res_bind_eq_Inr_iff split: if_split_asm)
  have "distinct FIELD_ORDER" by (simp add: FIELD_ORDER_def)
  then have again: "normalize_fields (as_payload n) FIELD_ORDER = Inr n"
    by (rule normalize_fields_again [OF norm]) (simp add: dict_get_as_payload)
  have "set (map fst (as_payload n)) \<subseteq> set FIELD_ORDER"
    using normalize_fields_keys [OF norm] by (auto simp: as_payload_def)
  then have "\<not> list_ex (\<lambda>k. k \<notin> set FIELD_ORDER) (map fst (as_payload n))" by (auto simp: list_ex_iff)
  moreover have "\<not> list_ex (\<lambda>k. k \<notin> set FIELD_ORDER) (map fst p)"
    using assms by (auto simp: rehearsal_canonical_payload_def)
  ultimately show ?thesis
    using assms unfolding rehearsal_canonical_payload_def norm again by simp
qed

text \<open>The order shapes that the exchange accepts.\<close>

definition order_shape :: "(string \<times> string) list \<Rightarrow> bool" where
  "order_shape n \<longleftrightarrow>
     (let has = (\<lambda>f. map_of n f \<noteq> None); tif = map_of n ''time_in_force''; side = map_of n ''side'' in
      side \<in> {Some ''bid'', Some ''ask''} \<and>
      (\<exists>i. map_of n ''identifier'' = Some i \<and> is_upbit_live_order_identifier i) \<and>
      \<not> (tif = Some ''post_only'' \<and> has ''smp_type'') \<and>
      (map_of n ''ord_type'' = Some ''limit'' \<and> has ''price'' \<and> has ''volume'' \<or>
       map_of n ''ord_type'' = Some ''price'' \<and> side = Some ''bid'' \<and> has ''price'' \<and> \<not> has ''volume'' \<and> tif = None \<or>
       map_of n ''ord_type'' = Some ''market'' \<and> side = Some ''ask'' \<and> has ''volume'' \<and> \<not> has ''price'' \<and> tif = None \<or>
       map_of n ''ord_type'' = Some ''best'' \<and> tif \<in> {Some ''ioc'', Some ''fok''} \<and>
         (side = Some ''bid'' \<and> has ''price'' \<and> \<not> has ''volume'' \<or>
          side = Some ''ask'' \<and> has ''volume'' \<and> \<not> has ''price'')))"

lemma validate_order_shape_cases:
  assumes "validate_order_shape n = Inr ()" "map_of n ''side'' = Some side" "map_of n ''ord_type'' = Some t"
  shows "t = ''limit'' \<Longrightarrow> map_of n ''price'' \<noteq> None \<and> map_of n ''volume'' \<noteq> None"
    and "t = ''price'' \<Longrightarrow> side = ''bid'' \<and> map_of n ''price'' \<noteq> None \<and> map_of n ''volume'' = None \<and>
      map_of n ''time_in_force'' = None"
    and "t = ''market'' \<Longrightarrow> side = ''ask'' \<and> map_of n ''volume'' \<noteq> None \<and> map_of n ''price'' = None \<and>
      map_of n ''time_in_force'' = None"
    and "t = ''best'' \<Longrightarrow> map_of n ''time_in_force'' \<in> {Some ''ioc'', Some ''fok''} \<and>
      (side = ''bid'' \<longrightarrow> map_of n ''price'' \<noteq> None \<and> map_of n ''volume'' = None) \<and>
      (side = ''ask'' \<longrightarrow> map_of n ''volume'' \<noteq> None \<and> map_of n ''price'' = None)"
proof -
  have v: "validate_order_shape n = Inr ()" "the (map_of n ''side'') = side" "the (map_of n ''ord_type'') = t"
    using assms by simp_all
  show "t = ''limit'' \<Longrightarrow> map_of n ''price'' \<noteq> None \<and> map_of n ''volume'' \<noteq> None"
    using v(1) unfolding validate_order_shape_def Let_def v(2,3) by (simp split: if_split_asm)
  show "t = ''price'' \<Longrightarrow> side = ''bid'' \<and> map_of n ''price'' \<noteq> None \<and> map_of n ''volume'' = None \<and>
      map_of n ''time_in_force'' = None"
    using v(1) unfolding validate_order_shape_def Let_def v(2,3) by (simp split: if_split_asm)
  show "t = ''market'' \<Longrightarrow> side = ''ask'' \<and> map_of n ''volume'' \<noteq> None \<and> map_of n ''price'' = None \<and>
      map_of n ''time_in_force'' = None"
    using v(1) unfolding validate_order_shape_def Let_def v(2,3) by (simp split: if_split_asm)
  show "t = ''best'' \<Longrightarrow> map_of n ''time_in_force'' \<in> {Some ''ioc'', Some ''fok''} \<and>
      (side = ''bid'' \<longrightarrow> map_of n ''price'' \<noteq> None \<and> map_of n ''volume'' = None) \<and>
      (side = ''ask'' \<longrightarrow> map_of n ''volume'' \<noteq> None \<and> map_of n ''price'' = None)"
    using v(1) unfolding validate_order_shape_def Let_def v(2,3) by (simp split: if_split_asm)
qed

lemma canonical_payload_checks:
  assumes "rehearsal_canonical_payload p = Inr n"
  shows "require_field n ''side'' = Inr ()" "require_field n ''ord_type'' = Inr ()" "require_field n ''identifier'' = Inr ()"
    "enum_field n [''bid'', ''ask''] ''side'' = Inr ()"
    "enum_field n [''limit'', ''price'', ''market'', ''best''] ''ord_type'' = Inr ()"
    "is_upbit_live_order_identifier (the (map_of n ''identifier''))"
    "\<not> (map_of n ''time_in_force'' = Some ''post_only'' \<and> map_of n ''smp_type'' \<noteq> None)"
    "validate_order_shape n = Inr ()"
  using assms by (clarsimp simp: rehearsal_canonical_payload_def res_bind_eq_Inr_iff split: if_split_asm)+

lemma canonical_payload_shape:
  assumes "rehearsal_canonical_payload p = Inr n"
  shows "order_shape n"
proof -
  note norm = canonical_payload_checks [OF assms]
  obtain side ord_type ident where f: "map_of n ''side'' = Some side" "map_of n ''ord_type'' = Some ord_type"
    "map_of n ''identifier'' = Some ident" "side \<in> {''bid'', ''ask''}" "ord_type \<in> {''limit'', ''price'', ''market'', ''best''}"
    using norm(1-5) by (auto simp: require_field_def enum_field_def split: if_splits option.splits)
  note cs = validate_order_shape_cases [OF norm(8) f(1,2)]
  have base: "map_of n ''side'' \<in> {Some ''bid'', Some ''ask''}"
    "\<exists>i. map_of n ''identifier'' = Some i \<and> is_upbit_live_order_identifier i"
    using f norm(6) by auto
  from f(5) consider "ord_type = ''limit''" | "ord_type = ''price''" | "ord_type = ''market''" | "ord_type = ''best''"
    by blast
  then show ?thesis
  proof cases
    case 1
    show ?thesis unfolding order_shape_def Let_def using base norm(7) cs(1) [OF 1] f(2) 1 by blast
  next
    case 2
    show ?thesis unfolding order_shape_def Let_def using base norm(7) cs(2) [OF 2] f(1,2) 2 by auto
  next
    case 3
    show ?thesis unfolding order_shape_def Let_def using base norm(7) cs(3) [OF 3] f(1,2) 3 by auto
  next
    case 4
    have bid: "side = ''bid'' \<Longrightarrow> map_of n ''price'' \<noteq> None \<and> map_of n ''volume'' = None"
      and ask: "side = ''ask'' \<Longrightarrow> map_of n ''volume'' \<noteq> None \<and> map_of n ''price'' = None"
      and tif: "map_of n ''time_in_force'' \<in> {Some ''ioc'', Some ''fok''}" using cs(4) [OF 4] by simp_all
    have legs: "map_of n ''side'' = Some ''bid'' \<and> map_of n ''price'' \<noteq> None \<and> \<not> map_of n ''volume'' \<noteq> None \<or>
        map_of n ''side'' = Some ''ask'' \<and> map_of n ''volume'' \<noteq> None \<and> \<not> map_of n ''price'' \<noteq> None"
      using f(1,4) bid ask by (elim insertE emptyE) simp_all
    show ?thesis unfolding order_shape_def Let_def
      by (intro conjI base norm(7), rule disjI2, rule disjI2, rule disjI2, intro conjI f(2) [unfolded 4] tif legs)
  qed
qed

text \<open>
  A rehearsal sends nothing and is canonical: whatever payload is accepted, nothing is marked as
  sent, submitted or bindable, the canonical payload has one of the order shapes of the exchange, and
  rehearsing the canonical payload again gives the same request hash, query string and query hash.
\<close>

theorem rehearsal_canonical:
  assumes "build_upbit_order_submit_rehearsal payload t = Inr r"
  shows "\<not> sr_actual_request_sent r \<and> \<not> sr_would_submit r \<and> \<not> sr_can_bind_response r \<and>
    order_shape (sr_canonical_payload r) \<and>
    build_upbit_order_submit_rehearsal (as_payload (sr_canonical_payload r)) t = Inr r"
proof -
  obtain n where n: "rehearsal_canonical_payload payload = Inr n"
    and r: "build_upbit_order_submit_rehearsal payload t = res_map (\<lambda>_. r) (Inr n)" "sr_canonical_payload r = n"
    using assms by (auto simp: build_upbit_order_submit_rehearsal_def res_map_eq_Inr_iff)
  have "\<not> sr_actual_request_sent r" "\<not> sr_would_submit r" "\<not> sr_can_bind_response r"
    using assms by (auto simp: build_upbit_order_submit_rehearsal_def res_map_eq_Inr_iff)
  moreover have "build_upbit_order_submit_rehearsal (as_payload n) t = Inr r"
    using assms canonical_payload_again [OF n] n by (simp add: build_upbit_order_submit_rehearsal_def)
  ultimately show ?thesis using canonical_payload_shape [OF n] r(2) by simp
qed

subsection \<open>Live application\<close>

text \<open>C16. 
  A REST snapshot is applied to a live order only through its own binding: when the application returns, the
  snapshot carries exactly the UUID and the identifier of the binding for this order, the answer denies any
  resubmission, the store is untouched for a working order, and for a finished order it is called once, with an
  application that names the binding and claims neither a request nor a cancellation nor a resubmission.
\<close>

theorem live_application_bound:
  assumes "apply_upbit_live_rest_order_snapshot store fromiso st live_binding order_id run_key actor reason payload
      knowledge_at endpoint = Inr (row, st')"
  shows "\<exists>b s. parse_live_binding live_binding = Inr b \<and>
    parse_upbit_rest_order_snapshot fromiso payload knowledge_at endpoint = Inr s \<and>
    lb_exchange_order_id b = order_id \<and> ro_uuid s = lb_upbit_order_uuid b \<and> ro_identifier s = Some (lb_upbit_identifier b) \<and>
    map_of row ''canResubmit'' = Some (PyBool False) \<and>
    (if ro_state s \<in> {''done'', ''cancel'', ''prevented'', ''rejected''}
     then \<exists>app result. store st app = Inr (result, st') \<and> la_exchange_order_id app = order_id \<and>
            la_live_exchange_order_binding_id app = lb_id b \<and> la_observed_status app = ro_state s \<and>
            \<not> la_can_resubmit app \<and> \<not> la_actual_request_sent app \<and> \<not> la_actual_order_cancel_sent app
     else st' = st)"
proof -
  obtain b where b: "parse_live_binding live_binding = Inr b" "lb_exchange_order_id b = order_id"
    using assms by (auto simp: apply_upbit_live_rest_order_snapshot_def res_bind_eq_Inr_iff split: if_splits)
  obtain s where s: "parse_upbit_rest_order_snapshot fromiso payload knowledge_at endpoint = Inr s"
    "validate_snapshot_matches_binding (ro_uuid s) (ro_identifier s) b = Inr ()"
    using assms by (auto simp: apply_upbit_live_rest_order_snapshot_def b res_bind_eq_Inr_iff)
  have m: "ro_uuid s = lb_upbit_order_uuid b" "ro_identifier s = Some (lb_upbit_identifier b)"
    using s(2) by (auto simp: validate_snapshot_matches_binding_def split: if_splits)
  have "ro_state s \<in> set ORDER_STATES" using parsed_snapshot_ok(1) [OF s(1)] by (simp add: snapshot_ok_def)
  then obtain plan where plan: "plan_upbit_rest_snapshot_reconciliation s = Inr plan"
    "if ro_state s \<in> {''done'', ''cancel'', ''prevented'', ''rejected''}
     then rp_ledger_action plan = ''apply'' \<and> rp_observed_status plan = ro_state s
     else rp_ledger_action plan = ''observe_only'' \<and> rp_observed_status plan \<in> {''working'', ''partial_fill''}"
    using plan_total by blast
  show ?thesis
  proof (cases "ro_state s \<in> {''done'', ''cancel'', ''prevented'', ''rejected''}")
    case False
    then have "rp_ledger_action plan = ''observe_only''" using plan(2) by simp
    then have "st' = st" "map_of row ''canResubmit'' = Some (PyBool False)"
      using assms by (auto simp: apply_upbit_live_rest_order_snapshot_def b s plan(1))
    then show ?thesis using b s m False by (intro exI [of _ b] exI [of _ s]) simp
  next
    case True
    then have p: "rp_ledger_action plan = ''apply''" "rp_observed_status plan = ro_state s" using plan(2) by simp_all
    obtain request where q: "build_upbit_rest_reconciliation_request s = Inr request"
      using assms p(1)
      by (auto simp: apply_upbit_live_rest_order_snapshot_def b s plan(1) res_bind_eq_Inr_iff)
    obtain result where r: "store st (live_application_of b order_id run_key actor reason s request knowledge_at) = Inr (result, st')"
      "map_of row ''canResubmit'' = Some (PyBool False)"
      using assms p(1)
      by (auto simp: apply_upbit_live_rest_order_snapshot_def b s plan(1) q res_map_eq_Inr_iff)
    have "rq_observed_status request = ro_state s"
      using q p by (auto simp: build_upbit_rest_reconciliation_request_def plan(1) res_map_eq_Inr_iff)
    then show ?thesis
      using b s m True r
      by (intro exI [of _ b] exI [of _ s])
         (auto intro!: exI [of _ "live_application_of b order_id run_key actor reason s request knowledge_at"]
           simp: live_application_of_def)
  qed
qed

section \<open>Witnesses\<close>

definition example_uuid :: string where "example_uuid = ''0123abcd-0123-4567-89ab-0123456789ab''"

definition example_identifier :: string where
  "example_identifier = ''gm1_'' @ replicate 52 (CHR ''a'')"

lemma example_identifier_ok: "is_upbit_live_order_identifier example_identifier"
  by (simp add: is_upbit_live_order_identifier_def example_identifier_def IDENTIFIER_CHARS_def list_all_iff)

theorem derived_identifier_accepted_witness:
  "\<exists>ident. derive_upbit_live_order_identifier ''acct'' ''key'' = Inr ident \<and> is_upbit_live_order_identifier ident"
proof -
  have "order_uuid (PyStr example_uuid) = Inr example_uuid" "binding_source (PyStr ''myorder_event'') = Inr ''myorder_event''"
    by code_simp+
  moreover have "strip ''acct'' = ''acct''" "strip ''key'' = ''key''" by code_simp+
  ultimately show ?thesis
    using derived_identifier_accepted [of "''acct''" "''key''" "PyStr example_uuid" example_uuid] by blast
qed

definition example_order :: py_dict where
  "example_order = [(''market'', PyStr ''KRW-BTC''), (''side'', PyStr ''ask''), (''volume'', PyStr '' 1''),
     (''ord_type'', PyStr ''market''), (''identifier'', PyStr example_identifier)]"

lemma example_order_canonical:
  "rehearsal_canonical_payload example_order =
     Inr [(''market'', ''KRW-BTC''), (''side'', ''ask''), (''volume'', ''1''), (''ord_type'', ''market''),
          (''identifier'', example_identifier)]"
proof -
  have s: "strip ''KRW-BTC'' = ''KRW-BTC''" "strip ''ask'' = ''ask''" "strip '' 1'' = ''1''" "strip ''market'' = ''market''"
    by code_simp+
  note i = identifier_strip [OF example_identifier_ok]
  show ?thesis
    by (simp add: rehearsal_canonical_payload_def example_order_def FIELD_ORDER_def dict_get_def s i require_field_def
        enum_field_def validate_order_shape_def example_identifier_ok)
qed

theorem rehearsal_canonical_witness:
  "\<exists>r. build_upbit_order_submit_rehearsal example_order (utc 0) = Inr r \<and> \<not> sr_would_submit r \<and>
     build_upbit_order_submit_rehearsal (as_payload (sr_canonical_payload r)) (utc 0) = Inr r"
proof -
  obtain r where r: "build_upbit_order_submit_rehearsal example_order (utc 0) = Inr r"
    by (simp add: build_upbit_order_submit_rehearsal_def example_order_canonical)
  show ?thesis using rehearsal_canonical [OF r] r by blast
qed

definition example_binding :: py_dict where
  "example_binding = [(''id'', PyInt 3), (''exchange_account_id'', PyInt 1), (''order_intent_id'', PyInt 2),
     (''exchange_order_id'', PyInt 7), (''upbit_order_uuid'', PyStr ''u-1''), (''upbit_identifier'', PyStr ''i-1'')]"

definition live_store :: "nat \<Rightarrow> live_application \<Rightarrow> order_error + py_dict \<times> nat" where
  "live_store n app = Inr ([], n + 1)"

theorem live_application_bound_witness:
  "\<exists>row. apply_upbit_live_rest_order_snapshot live_store (\<lambda>_. None) 0 example_binding 7 (PyStr ''run'') PyNone PyNone
       ((''identifier'', PyStr ''i-1'') # cancelled_payload) (utc 5) ''GET /v1/order'' = Inr (row, 1) \<and>
     map_of row ''canResubmit'' = Some (PyBool False)"
proof -
  let ?p = "(''identifier'', PyStr ''i-1'') # cancelled_payload"
  have "\<exists>s. parse_upbit_rest_order_snapshot (\<lambda>_. None) ?p (utc 5) ''GET /v1/order'' = Inr s \<and>
     ro_state s = ''cancel'' \<and> ro_trades s = [] \<and> ro_uuid s = ''u-1'' \<and> ro_identifier s = Some ''i-1''"
    by (simp add: parse_upbit_rest_order_snapshot_def cancelled_payload_def dict_get_def dict_get_default_def
        check_source_endpoint_def non_blank_def ALLOWED_SOURCE_ENDPOINTS_def order_side_of_def optional_datetime_def
        trade_payloads_def non_negative_int_def py_int_def optional_str_def order_state_def ORDER_STATES_def
        optional_decimal_def optional_smp_type_def aware_utc_def x_or_zero_def x_zero_def dec_lt_def)
  then obtain s where s: "parse_upbit_rest_order_snapshot (\<lambda>_. None) ?p (utc 5) ''GET /v1/order'' = Inr s"
     "ro_state s = ''cancel''" "ro_trades s = []" "ro_uuid s = ''u-1''" "ro_identifier s = Some ''i-1''"
    by blast
  have b: "parse_live_binding example_binding =
      Inr \<lparr>lb_id = 3, lb_exchange_account_id = 1, lb_order_intent_id = 2, lb_exchange_order_id = 7,
           lb_upbit_order_uuid = ''u-1'', lb_upbit_identifier = ''i-1''\<rparr>"
    by (simp add: parse_live_binding_def binding_field_def binding_int_def example_binding_def py_int_def non_blank_def)
  have "\<exists>row. apply_upbit_live_rest_order_snapshot live_store (\<lambda>_. None) 0 example_binding 7 (PyStr ''run'') PyNone PyNone
       ?p (utc 5) ''GET /v1/order'' = Inr (row, 1)"
    by (simp add: apply_upbit_live_rest_order_snapshot_def b s plan_upbit_rest_snapshot_reconciliation_def
        rest_observed_status_def build_upbit_rest_reconciliation_request_def reconciliation_fills_def
        distributed_fees_def live_store_def validate_snapshot_matches_binding_def)
  then obtain row where r: "apply_upbit_live_rest_order_snapshot live_store (\<lambda>_. None) 0 example_binding 7 (PyStr ''run'')
       PyNone PyNone ?p (utc 5) ''GET /v1/order'' = Inr (row, 1)" by (elim exE)
  from live_application_bound [OF r] show ?thesis using r by (elim exE conjE) (intro exI [of _ row] conjI)
qed

end
