(* ===== verification/Decimal_Value.thy ===== *)
theory Decimal_Value
  imports Json_Injective
begin

text \<open>
  Values of decimals: the operations of a context depend only on the values of their operands, not on
  how many trailing zeros carry them, so a state that was written as canonical text and read back
  continues with the same values. The theory adds the square root and the square of a context, the canonical
  text of a decimal and its round trip through \<^verbatim>\<open>Decimal(text)\<close>.
\<close>

section \<open>Operands with the same value\<close>

lemma num_digits_times10: "0 < c \<Longrightarrow> num_digits (10 * c) = Suc (num_digits c)"
  by (subst num_digits.simps) simp

lemma dec_scale_cases:
  assumes "dec_val a = dec_val b" "dec_val a \<noteq> 0" "dec_exp a \<le> dec_exp b"
  shows "a = Dec (dec_sign b) (dec_coeff b * 10 ^ nat (dec_exp b - dec_exp a)) (dec_exp a)"
proof -
  obtain s c e where a: "a = Dec s c e" by (cases a)
  obtain s' c' e' where b: "b = Dec s' c' e'" by (cases b)
  let ?k = "nat (e' - e)"
  have pos: "0 < c" "0 < c'" using assms a b by (auto intro: gr0I)
  have eq: "(if s then -1 else 1) * (of_nat c * 10 powi e) = (if s' then -1 else 1) * (of_nat (c' * 10 ^ ?k) * (10::rat) powi e)"
    using assms(1,3) powi10_split [of e e'] by (simp add: a b mult.assoc)
  have "0 < of_nat c * (10::rat) powi e" "0 < of_nat (c' * 10 ^ ?k) * (10::rat) powi e" using pos by simp_all
  then have "s = s' \<and> of_nat c * 10 powi e = of_nat (c' * 10 ^ ?k) * (10::rat) powi e"
    using eq by (cases s; cases s'; simp only: if_True if_False; linarith)
  then have "s = s'" "(of_nat c :: rat) = of_nat (c' * 10 ^ ?k)" by simp_all
  then show ?thesis unfolding a b by (simp only: of_nat_eq_iff dec.sel)
qed

text \<open>A function that ignores one trailing zero ignores the representation of a non-zero value.\<close>

lemma dec_value_cong:
  assumes scale: "\<And>s c e. 0 < c \<Longrightarrow> F (Dec s (10 * c) e) = F (Dec s c (e + 1))"
    and val: "dec_val a = dec_val b" "dec_val a \<noteq> 0"
  shows "F a = F b"
proof -
  have iter: "F (Dec s (c * 10 ^ k) e) = F (Dec s c (e + int k))" if "0 < c" for s c k e
  proof (induction k arbitrary: e)
    case (Suc k)
    have "F (Dec s (c * 10 ^ Suc k) e) = F (Dec s (10 * (c * 10 ^ k)) e)" by (simp add: mult.left_commute)
    also have "\<dots> = F (Dec s (c * 10 ^ k) (e + 1))" using that by (intro scale) simp
    finally show ?case by (simp add: Suc.IH algebra_simps)
  qed simp
  have half: "F a = F b" if "dec_val a = dec_val b" "dec_val a \<noteq> 0" "dec_exp a \<le> dec_exp b" for a b
  proof -
    have "0 < dec_coeff b" using that by (metis dec_val_zero_iff gr0I)
    then show ?thesis
      using dec_scale_cases [OF that] iter [of "dec_coeff b" "dec_sign b" "nat (dec_exp b - dec_exp a)" "dec_exp a"] that(3)
      by (metis add.commute diff_add_cancel dec.collapse int_nat_eq le_iff_diff_le_0 diff_ge_0_iff_ge)
  qed
  show ?thesis using half [of a b] half [of b a] val by (cases "dec_exp a \<le> dec_exp b") auto
qed

lemma half_even_div_scale: "0 < d \<Longrightarrow> half_even_div (10 * c) (10 * d) = half_even_div c d"
  by (simp add: half_even_div_def Let_def mult_mod_right [symmetric])

lemma dec_fix_scale:
  assumes p: "0 < p" and c: "0 < c"
  shows "dec_val (dec_fix p (Dec s (10 * c) e)) = dec_val (dec_fix p (Dec s c (e + 1)))"
proof -
  consider "num_digits c < p" | "num_digits c = p" | "p < num_digits c" by linarith
  then show ?thesis
  proof cases
    case 1
    then show ?thesis using c by (simp add: num_digits_times10 power_int_add)
  next
    case 2
    have "half_even_div (10 * c) 10 = c" by (simp add: half_even_div_def)
    then show ?thesis using 2 c by (simp add: num_digits_times10 Let_def)
  next
    case 3
    let ?k = "num_digits c - p"
    have k: "num_digits (10 * c) - p = Suc ?k" using 3 c by (simp add: num_digits_times10)
    have "half_even_div (10 * c) (10 ^ Suc ?k) = half_even_div c (10 ^ ?k)"
      using half_even_div_scale [of "10 ^ ?k" c] by simp
    moreover have "\<not> num_digits (10 * c) \<le> p" "\<not> num_digits c \<le> p" using 3 c by (simp_all add: num_digits_times10)
    ultimately show ?thesis unfolding dec_fix.simps k Let_def by (simp add: algebra_simps)
  qed
qed

lemma dec_fix_zero: "0 < p \<Longrightarrow> dec_val a = 0 \<Longrightarrow> dec_val (dec_fix p a) = 0"
  using rounds_zero_iff [OF _ dec_fix_rounds, of p a] by simp

lemma dec_fix_cong: "0 < p \<Longrightarrow> dec_val a = dec_val b \<Longrightarrow> dec_val (dec_fix p a) = dec_val (dec_fix p b)"
  using dec_value_cong [of "\<lambda>d. dec_val (dec_fix p d)" a b] dec_fix_scale dec_fix_zero
  by (cases "dec_val a = 0") auto

text \<open>Sums and products are the exact result, rounded.\<close>

lemma dec_add_fix: "\<exists>d. dec_add p a b = dec_fix p d \<and> dec_val d = dec_val a + dec_val b"
proof -
  define e where "e = min (dec_exp a) (dec_exp b)"
  define i where "i = dec_signed a e + dec_signed b e"
  have sum: "of_int i * 10 powi e = dec_val a + dec_val b"
    using dec_signed_val [of e a] dec_signed_val [of e b] by (simp add: i_def e_def algebra_simps)
  obtain s where s: "dec_add p a b = dec_fix p (Dec s (nat \<bar>i\<bar>) e)" "i \<noteq> 0 \<longrightarrow> s = (i < 0)"
    by (auto simp: dec_add_def Let_def e_def [symmetric] i_def [symmetric])
  have "dec_val (Dec s (nat \<bar>i\<bar>) e) = of_int i * 10 powi e"
    using s(2) dec_val_of_signed [of i e] by (cases "i = 0") auto
  then show ?thesis using s(1) sum by metis
qed

lemma dec_mul_fix: "\<exists>d. dec_mul p a b = dec_fix p d \<and> dec_val d = dec_val a * dec_val b"
proof -
  have "dec_val (Dec (dec_sign a \<noteq> dec_sign b) (dec_coeff a * dec_coeff b)
      (dec_exp a + dec_exp b)) = dec_val a * dec_val b"
    by (cases a; cases b) (simp add: power_int_add)
  then show ?thesis unfolding dec_mul_def by blast
qed

lemma dec_neg_fix: "\<exists>d. dec_neg p a = dec_fix p d \<and> dec_val d = - dec_val a"
  unfolding dec_neg_def
  by (intro exI [of _ "if dec_coeff a = 0 then Dec False 0 (dec_exp a) else dec_copy_negate a"])
     (auto simp: dec_val_zero_iff [symmetric])

lemma dec_add_cong:
  assumes "0 < p" "dec_val a = dec_val a'" "dec_val b = dec_val b'"
  shows "dec_val (dec_add p a b) = dec_val (dec_add p a' b')"
  using dec_add_fix [of p a b] dec_add_fix [of p a' b'] dec_fix_cong [OF assms(1)] assms(2,3) by metis

lemma dec_sub_cong:
  "0 < p \<Longrightarrow> dec_val a = dec_val a' \<Longrightarrow> dec_val b = dec_val b' \<Longrightarrow> dec_val (dec_sub p a b) = dec_val (dec_sub p a' b')"
  unfolding dec_sub_def by (intro dec_add_cong) simp_all

lemma dec_mul_cong:
  assumes "0 < p" "dec_val a = dec_val a'" "dec_val b = dec_val b'"
  shows "dec_val (dec_mul p a b) = dec_val (dec_mul p a' b')"
  using dec_mul_fix [of p a b] dec_mul_fix [of p a' b'] dec_fix_cong [OF assms(1)] assms(2,3) by metis

lemma dec_neg_cong: "0 < p \<Longrightarrow> dec_val a = dec_val a' \<Longrightarrow> dec_val (dec_neg p a) = dec_val (dec_neg p a')"
  using dec_neg_fix [of p a] dec_neg_fix [of p a'] dec_fix_cong by metis

section \<open>Quotients\<close>

lemma quotient_digits_scale_left:
  "0 < b \<Longrightarrow> fst (quotient_digits (10 * a) b (shift - 1)) = fst (quotient_digits a b shift) \<and>
     (snd (quotient_digits (10 * a) b (shift - 1)) = 0 \<longleftrightarrow> snd (quotient_digits a b shift) = 0)"
proof (cases "0 < shift")
  case True
  then have "nat shift = Suc (nat (shift - 1))" "nat (- (shift - 1)) = 0" "nat (- shift) = 0" by simp_all
  then show ?thesis by (simp add: quotient_digits_def Let_def ac_simps)
next
  case False
  then have "nat (- (shift - 1)) = Suc (nat (- shift))" "nat (shift - 1) = 0" "nat shift = 0" by simp_all
  then show ?thesis
    by (simp add: quotient_digits_def Let_def mult.left_commute [of b 10] mult_mod_right [symmetric])
qed

lemma quotient_digits_scale_right:
  "0 < b \<Longrightarrow> fst (quotient_digits a (10 * b) (shift + 1)) = fst (quotient_digits a b shift) \<and>
     (snd (quotient_digits a (10 * b) (shift + 1)) = 0 \<longleftrightarrow> snd (quotient_digits a b shift) = 0)"
proof (cases "0 \<le> shift")
  case True
  then have "nat (shift + 1) = Suc (nat shift)" "nat (- (shift + 1)) = 0" "nat (- shift) = 0" by simp_all
  then show ?thesis by (simp add: quotient_digits_def Let_def mult.left_commute [of a 10] mult_mod_right [symmetric])
next
  case False
  then have "nat (- shift) = Suc (nat (- (shift + 1)))" "nat (shift + 1) = 0" "nat shift = 0" by simp_all
  then show ?thesis by (simp add: quotient_digits_def Let_def ac_simps)
qed

text \<open>The value of a quotient in terms of its leading digits.\<close>

definition quot_rep :: "nat \<Rightarrow> dec \<Rightarrow> dec \<Rightarrow> dec" where
  "quot_rep p a b =
     (let s = (dec_sign a \<noteq> dec_sign b);
          shift = int (num_digits (dec_coeff b)) - int (num_digits (dec_coeff a)) + int p + 1;
          qr = quotient_digits (dec_coeff a) (dec_coeff b) shift
      in Dec s (if snd qr \<noteq> 0 \<and> fst qr mod 5 = 0 then fst qr + 1 else fst qr) (dec_exp a - dec_exp b - shift))"

lemma dec_div_rep:
  assumes "0 < p" "dec_coeff a \<noteq> 0" "dec_coeff b \<noteq> 0"
  shows "\<exists>c. dec_div p a b = Inr c \<and> dec_val c = dec_val (dec_fix p (quot_rep p a b))"
proof -
  define shift where "shift = int (num_digits (dec_coeff b)) - int (num_digits (dec_coeff a)) + int p + 1"
  obtain q r where qr: "quotient_digits (dec_coeff a) (dec_coeff b) shift = (q, r)" by fastforce
  obtain c e where ce: "strip_to (dec_exp a - dec_exp b) q (dec_exp a - dec_exp b - shift) = (c, e)" by fastforce
  have "of_nat c * 10 powi e = (of_nat q * 10 powi (dec_exp a - dec_exp b - shift) :: rat)"
    by (rule strip_to_val [OF ce])
  then have "dec_val (dec_fix p (Dec s c e)) =
      dec_val (dec_fix p (Dec s q (dec_exp a - dec_exp b - shift)))" for s
    by (intro dec_fix_cong [OF assms(1)]) simp
  then show ?thesis
    using assms(2,3) qr ce
    by (simp add: dec_div_def quot_rep_def Let_def shift_def [symmetric] del: dec_fix.simps)
qed

lemma quot_rep_scale:
  assumes "0 < c" "dec_coeff b \<noteq> 0"
  shows "quot_rep p (Dec s (10 * c) e) b = quot_rep p (Dec s c (e + 1)) b"
proof -
  define sh where "sh = int (num_digits (dec_coeff b)) - int (num_digits c) + int p + 1"
  have sh: "int (num_digits (dec_coeff b)) - int (num_digits (10 * c)) + int p + 1 = sh - 1"
    using assms(1) by (simp add: num_digits_times10 sh_def)
  show ?thesis
    using quotient_digits_scale_left [of "dec_coeff b" c sh] assms(2)
    unfolding quot_rep_def Let_def dec.sel sh_def [symmetric] sh by simp
qed

lemma quot_rep_scale2:
  assumes "0 < c"
  shows "quot_rep p a (Dec s (10 * c) e) = quot_rep p a (Dec s c (e + 1))"
proof -
  define sh where "sh = int (num_digits c) - int (num_digits (dec_coeff a)) + int p + 1"
  have sh: "int (num_digits (10 * c)) - int (num_digits (dec_coeff a)) + int p + 1 = sh + 1"
    using assms(1) by (simp add: num_digits_times10 sh_def)
  show ?thesis
    using quotient_digits_scale_right [of c "dec_coeff a" sh] assms
    unfolding quot_rep_def Let_def dec.sel sh_def [symmetric] sh by simp
qed

lemma dec_div_cong:
  assumes p: "0 < p" and a: "dec_val a = dec_val a'" and b: "dec_val b = dec_val b'"
  shows "map_sum id dec_val (dec_div p a b) = map_sum id dec_val (dec_div p a' b')"
proof -
  have zero: "dec_coeff a = 0 \<longleftrightarrow> dec_coeff a' = 0" "dec_coeff b = 0 \<longleftrightarrow> dec_coeff b' = 0"
    using a b by (simp_all add: dec_val_zero_iff [symmetric])
  consider "dec_coeff b = 0" | "dec_coeff b \<noteq> 0" "dec_coeff a = 0" | "dec_coeff b \<noteq> 0" "dec_coeff a \<noteq> 0" by blast
  then show ?thesis
  proof cases
    case 1
    then show ?thesis using zero by (simp add: dec_div_def Let_def)
  next
    case 2
    then show ?thesis using zero dec_fix_zero [OF p] by (simp add: dec_div_def Let_def del: dec_fix.simps)
  next
    case 3
    have nz: "dec_val a \<noteq> 0" "dec_val b \<noteq> 0" using 3 by (simp_all only: dec_val_zero_iff not_False_eq_True)
    have "quot_rep p a b = quot_rep p a' b"
      by (rule dec_value_cong [of "\<lambda>x. quot_rep p x b", OF quot_rep_scale a nz(1)]) (use 3 in simp_all)
    also have "\<dots> = quot_rep p a' b'"
      by (rule dec_value_cong [of "quot_rep p a'", OF quot_rep_scale2 b nz(2)]) simp
    finally show ?thesis
      using dec_div_rep [OF p, of a b] dec_div_rep [OF p, of a' b'] 3 zero by auto
  qed
qed

section \<open>Square root and square\<close>

fun isqrt :: "nat \<Rightarrow> nat" where
  "isqrt n = (if n = 0 then 0 else let r = 2 * isqrt (n div 4) in if (r + 1) * (r + 1) \<le> n then r + 1 else r)"

declare isqrt.simps [simp del]

lemma isqrt_bounds: "isqrt n * isqrt n \<le> n \<and> n < (isqrt n + 1) * (isqrt n + 1)"
proof (induction n rule: isqrt.induct)
  case (1 n)
  show ?case
  proof (cases "n = 0")
    case False
    define r where "r = isqrt (n div 4)"
    have "r * r \<le> n div 4" "n div 4 < (r + 1) * (r + 1)" using 1 False by (simp_all add: r_def)
    then have lower: "4 * (r * r) \<le> n" and upper: "n < 4 * ((r + 1) * (r + 1))" by linarith+
    have "isqrt n = (if (2 * r + 1) * (2 * r + 1) \<le> n then 2 * r + 1 else 2 * r)"
      using False by (subst isqrt.simps) (simp add: r_def Let_def)
    then show ?thesis using lower upper by (auto simp: algebra_simps)
  qed (simp add: isqrt.simps)
qed

text \<open>\<^verbatim>\<open>Decimal.sqrt()\<close>: one digit more than the precision, a sticky last digit when the root is
  inexact, then rounding.\<close>

definition sqrt_core :: "nat \<Rightarrow> nat \<Rightarrow> int \<Rightarrow> dec" where
  "sqrt_core p c e =
     (let l = (num_digits c + 1) div 2; shift = int p + 1 - int l;
          m = c * 100 ^ nat shift div 100 ^ nat (- shift);
          exact = (c * 100 ^ nat shift mod 100 ^ nat (- shift) = 0);
          n = isqrt m
      in if exact \<and> n * n = m then Dec False (n div 10 ^ nat shift * 10 ^ nat (- shift)) e
         else Dec False (if n mod 5 = 0 then n + 1 else n) (e - shift))"

definition sqrt_rep :: "nat \<Rightarrow> nat \<Rightarrow> int \<Rightarrow> dec" where
  "sqrt_rep p c e = sqrt_core p (if odd e then c * 10 else c) (e div 2)"

definition dec_sqrt :: "nat \<Rightarrow> dec \<Rightarrow> dec_error + dec" where
  "dec_sqrt p a =
     (if dec_coeff a = 0 then Inr (dec_fix p (Dec (dec_sign a) 0 (dec_exp a div 2)))
      else if dec_sign a then Inl InvalidOperation
      else Inr (dec_fix p (sqrt_rep p (dec_coeff a) (dec_exp a))))"
text \<open>A root with its leading digits \<open>n\<close> of \<open>m\<close>, \<open>shift\<close> pairs of digits having been appended.\<close>

definition root_dec :: "bool \<Rightarrow> nat \<Rightarrow> int \<Rightarrow> int \<Rightarrow> dec" where
  "root_dec exact n shift e =
     (if exact then Dec False (n div 10 ^ nat shift * 10 ^ nat (- shift)) e
      else Dec False (if n mod 5 = 0 then n + 1 else n) (e - shift))"

lemma root_dec_shift:
  assumes "exact \<longrightarrow> 0 < shift \<longrightarrow> 10 ^ nat shift dvd n"
  shows "dec_val (root_dec exact n (shift - 1) e) = dec_val (root_dec exact n shift (e + 1))"
proof (cases exact)
  case ex: True
  show ?thesis
  proof (cases "0 < shift")
    case True
    then have sh: "nat shift = Suc (nat (shift - 1))" "nat (- (shift - 1)) = 0" "nat (- shift) = 0" by simp_all
    obtain k where "n = 10 ^ nat shift * k" using assms ex True by blast
    then have "n div 10 ^ nat shift = k" "n div 10 ^ nat (shift - 1) = 10 * k" by (simp_all add: sh(1) mult.assoc)
    then show ?thesis unfolding root_dec_def sh(2,3) using ex by (simp add: power_int_add)
  next
    case False
    then have sh: "nat (- (shift - 1)) = Suc (nat (- shift))" "nat (shift - 1) = 0" "nat shift = 0" by simp_all
    then show ?thesis unfolding root_dec_def sh using ex by (simp add: power_int_add)
  qed
next
  case False
  have eq: "e - (shift - 1) = e + 1 - shift" by simp
  show ?thesis unfolding root_dec_def eq using False by simp
qed

definition root_digits :: "nat \<Rightarrow> int \<Rightarrow> nat" where
  "root_digits c shift = c * 100 ^ nat shift div 100 ^ nat (- shift)"

definition root_exact :: "nat \<Rightarrow> int \<Rightarrow> bool" where
  "root_exact c shift \<longleftrightarrow> c * 100 ^ nat shift mod 100 ^ nat (- shift) = 0 \<and>
     isqrt (root_digits c shift) * isqrt (root_digits c shift) = root_digits c shift"

lemma sqrt_core_root:
  "sqrt_core p c e =
     (let shift = int p + 1 - int ((num_digits c + 1) div 2)
      in root_dec (root_exact c shift) (isqrt (root_digits c shift)) shift e)"
  by (simp only: sqrt_core_def Let_def root_dec_def root_exact_def root_digits_def)

lemma root_digits_scale:
  "root_digits (100 * c) (shift - 1) = root_digits c shift \<and>
   (100 * c * 100 ^ nat (shift - 1) mod 100 ^ nat (- (shift - 1)) = 0 \<longleftrightarrow>
      c * 100 ^ nat shift mod 100 ^ nat (- shift) = 0)"
proof (cases "0 < shift")
  case True
  then have sh: "nat shift = Suc (nat (shift - 1))" "nat (- (shift - 1)) = 0" "nat (- shift) = 0" by simp_all
  show ?thesis unfolding root_digits_def sh(2,3) unfolding sh(1) by (simp add: mult.commute mult.left_commute)
next
  case False
  then have sh: "nat (- (shift - 1)) = Suc (nat (- shift))" "nat (shift - 1) = 0" "nat shift = 0" by simp_all
  have "100 * c mod (100 * 100 ^ nat (- shift)) = 100 * (c mod 100 ^ nat (- shift))" by (rule mult_mod_right [symmetric])
  then show ?thesis unfolding root_digits_def sh by simp
qed

lemma root_exact_dvd: "root_exact c shift \<Longrightarrow> 0 < shift \<Longrightarrow> 10 ^ nat shift dvd isqrt (root_digits c shift)"
proof -
  assume ex: "root_exact c shift" and pos: "0 < shift"
  have sh: "nat (- shift) = 0" using pos by simp
  have "(100::nat) ^ nat shift = (10 ^ nat shift) ^ 2" by (simp add: power2_eq_square flip: power_mult_distrib)
  then have "isqrt (root_digits c shift) ^ 2 = c * (10 ^ nat shift) ^ 2"
    using ex unfolding root_exact_def by (simp add: power2_eq_square root_digits_def sh)
  then have "(10 ^ nat shift) ^ 2 dvd isqrt (root_digits c shift) ^ 2" by simp
  then show ?thesis by simp
qed

lemma sqrt_core_scale:
  assumes c: "0 < c"
  shows "dec_val (sqrt_core p (100 * c) e) = dec_val (sqrt_core p c (e + 1))"
proof -
  define sh where "sh = int p + 1 - int ((num_digits c + 1) div 2)"
  have "num_digits (10 * (10 * c)) = num_digits c + 2"
    using num_digits_times10 [OF c] num_digits_times10 [of "10 * c"] c by simp
  then have l: "(num_digits (100 * c) + 1) div 2 = (num_digits c + 1) div 2 + 1" by simp
  have sh': "int p + 1 - int ((num_digits (100 * c) + 1) div 2) = sh - 1" unfolding l by (simp add: sh_def)
  have "root_digits (100 * c) (sh - 1) = root_digits c sh" "root_exact (100 * c) (sh - 1) = root_exact c sh"
    using root_digits_scale [of c sh] by (simp_all only: root_exact_def)
  then show ?thesis
    unfolding sqrt_core_root Let_def sh' sh_def [symmetric]
    using root_dec_shift [of "root_exact c sh" sh "isqrt (root_digits c sh)" e] root_exact_dvd [of c sh] by simp
qed

lemma sqrt_rep_scale:
  assumes p: "0 < p" and c: "0 < c"
  shows "dec_val (dec_fix p (sqrt_rep p (10 * c) e)) = dec_val (dec_fix p (sqrt_rep p c (e + 1)))"
proof (rule dec_fix_cong [OF p], cases "odd e")
  case False
  then have "(e + 1) div 2 = e div 2" by presburger
  then show "dec_val (sqrt_rep p (10 * c) e) = dec_val (sqrt_rep p c (e + 1))"
    using False by (simp add: sqrt_rep_def mult.commute)
next
  case True
  then have "(e + 1) div 2 = e div 2 + 1" by presburger
  then show "dec_val (sqrt_rep p (10 * c) e) = dec_val (sqrt_rep p c (e + 1))"
    using True sqrt_core_scale [OF c, of p "e div 2"] by (simp add: sqrt_rep_def mult.commute)
qed

lemma dec_sqrt_cong:
  assumes p: "0 < p" and a: "dec_val a = dec_val b"
  shows "map_sum id dec_val (dec_sqrt p a) = map_sum id dec_val (dec_sqrt p b)"
proof (cases "dec_val a = 0")
  case True
  then show ?thesis using a dec_fix_zero [OF p] by (simp add: dec_sqrt_def dec_val_zero_iff [symmetric] del: dec_fix.simps)
next
  case False
  show ?thesis
    by (rule dec_value_cong [of "\<lambda>x. map_sum id dec_val (dec_sqrt p x)", OF _ a False])
       (simp add: dec_sqrt_def sqrt_rep_scale [OF p] del: dec_fix.simps)
qed

lemma dec_sqrt_nonneg:
  assumes "0 < p" "0 \<le> dec_val a"
  shows "\<exists>r. dec_sqrt p a = Inr r \<and> 0 \<le> dec_val r"
proof (cases "dec_coeff a = 0")
  case False
  then have "0 < of_nat (dec_coeff a) * (10::rat) powi dec_exp a" by simp
  then have "\<not> dec_sign a" using assms(2) by (cases a) (auto simp del: powi10_pos)
  moreover have "0 \<le> dec_val (sqrt_rep p (dec_coeff a) (dec_exp a))"
    by (simp add: sqrt_rep_def sqrt_core_root root_dec_def Let_def)
  then have "0 \<le> dec_val (dec_fix p (sqrt_rep p (dec_coeff a) (dec_exp a)))"
    using decimal_context.rounds_ge [OF decimal_context_precision [OF assms(1)] dec_fix_rounds [OF assms(1)]
        decimal_context.zero_representable [OF decimal_context_precision [OF assms(1)]]] by blast
  ultimately show ?thesis using False by (simp add: dec_sqrt_def)
qed (use dec_fix_zero [OF assms(1)] in \<open>simp add: dec_sqrt_def del: dec_fix.simps\<close>)

text \<open>\<^verbatim>\<open>x ** 2\<close>: an integral power is computed with guard digits (the precision plus the digits of the
  exponent plus two) and rounded once more.\<close>

definition dec_square :: "nat \<Rightarrow> dec \<Rightarrow> dec" where
  "dec_square p a = (if dec_coeff a = 0 then Dec False 0 0 else dec_fix p (dec_mul (p + 3) a a))"

lemma dec_square_cong:
  assumes "0 < p" "dec_val a = dec_val b"
  shows "dec_val (dec_square p a) = dec_val (dec_square p b)"
  using dec_fix_cong [OF assms(1) dec_mul_cong [of "p + 3" a b a b]] assms(2)
  by (auto simp: dec_square_def dec_val_zero_iff [symmetric] simp del: dec_fix.simps)

lemma dec_square_nonneg: "0 < p \<Longrightarrow> 0 \<le> dec_val (dec_square p a)"
proof -
  assume p: "0 < p"
  have zero: "representable q 0" for q using coeff_representable [of dec_zero q] by simp
  have "0 \<le> dec_val (dec_mul (p + 3) a a)"
    using dec_mul_rounds [of "p + 3" a a] zero by (simp add: rounds_to_def)
  then show ?thesis
    using dec_fix_rounds [OF p, of "dec_mul (p + 3) a a"] zero by (auto simp: dec_square_def rounds_to_def simp del: dec_fix.simps)
qed
section \<open>Canonical text\<close>

text \<open>\<^verbatim>\<open>"0" if value == 0 else format(value.normalize(), "f")\<close> in a context of \<open>p\<close> digits.\<close>

definition canonical_text :: "nat \<Rightarrow> dec \<Rightarrow> string" where
  "canonical_text p a = (if dec_eq a dec_zero then ''0'' else dec_format_f (dec_normalize p a))"

lemma strip_zeros_props:
  assumes "strip_zeros c e = (c', e')" "0 < c"
  shows "of_nat c' * 10 powi e' = (of_nat c * 10 powi e :: rat) \<and> c' mod 10 \<noteq> 0"
  using assms
proof (induction c e rule: strip_zeros.induct)
  case (1 c e)
  show ?case
  proof (cases "c mod 10 = 0")
    case True
    then have c: "c = 10 * (c div 10)" "0 < c div 10" using 1(3) by auto
    then have "(of_nat c :: rat) = 10 * of_nat (c div 10)" by (metis of_nat_mult of_nat_numeral)
    then have "(of_nat (c div 10) :: rat) * 10 powi (e + 1) = of_nat c * 10 powi e"
      by (simp add: power_int_add)
    moreover have "strip_zeros (c div 10) (e + 1) = (c', e')"
      using 1(2,3) True by (simp add: strip_zeros.simps [of c e])
    ultimately show ?thesis using 1(1) True 1(3) c(2) by simp
  qed (use 1(2) strip_zeros.simps [of c e] in auto)
qed

lemma dec_normalize_props:
  assumes p: "0 < p" and nz: "dec_val a \<noteq> 0"
  shows "dec_val (dec_normalize p a) = dec_val (dec_fix p a) \<and> dec_coeff (dec_normalize p a) mod 10 \<noteq> 0"
proof -
  obtain s c e where f: "dec_fix p a = Dec s c e" by (cases "dec_fix p a")
  have "dec_val (dec_fix p a) \<noteq> 0" using rounds_zero_iff [OF p dec_fix_rounds [OF p]] nz by simp
  then have c: "0 < c" using f by (auto intro: gr0I)
  obtain c' e' where z: "strip_zeros c e = (c', e')" by fastforce
  have "dec_normalize p a = Dec s c' e'" using c by (simp add: dec_normalize_def f z)
  then show ?thesis using strip_zeros_props [OF z c] by (simp add: f mult.assoc)
qed

lemma normal_unique:
  assumes "dec_val a = dec_val b" "dec_val a \<noteq> 0" "dec_coeff a mod 10 \<noteq> 0" "dec_coeff b mod 10 \<noteq> 0"
  shows "a = b"
proof -
  have half: "a = b" if "dec_val a = dec_val b" "dec_val a \<noteq> 0" "dec_coeff a mod 10 \<noteq> 0" "dec_exp a \<le> dec_exp b" for a b
  proof -
    have a: "a = Dec (dec_sign b) (dec_coeff b * 10 ^ nat (dec_exp b - dec_exp a)) (dec_exp a)"
      by (rule dec_scale_cases) (use that in auto)
    have "nat (dec_exp b - dec_exp a) = 0"
    proof (rule ccontr)
      assume "nat (dec_exp b - dec_exp a) \<noteq> 0"
      then obtain k where "nat (dec_exp b - dec_exp a) = Suc k" by (cases "nat (dec_exp b - dec_exp a)") auto
      then have "dec_coeff a = dec_coeff b * (10 * 10 ^ k)" using arg_cong [OF a, of dec_coeff] by simp
      then show False using that(3) by simp
    qed
    then show ?thesis using a that(4) by (cases b) auto
  qed
  show ?thesis using half [of a b] half [of b a] assms by (cases "dec_exp a \<le> dec_exp b") auto
qed

lemma canonical_text_cong:
  assumes p: "0 < p" and "dec_val a = dec_val b"
  shows "canonical_text p a = canonical_text p b"
proof (cases "dec_val a = 0")
  case False
  have "dec_normalize p a = dec_normalize p b"
    using dec_normalize_props [OF p, of a] dec_normalize_props [OF p, of b] dec_fix_cong [OF p assms(2)] assms(2) False
      rounds_zero_iff [OF p dec_fix_rounds [OF p], of a]
    by (intro normal_unique) auto
  then show ?thesis using False assms(2) by (simp add: canonical_text_def dec_eq_def)
qed (use assms(2) in \<open>simp add: canonical_text_def dec_eq_def\<close>)

section \<open>Reading canonical text\<close>

lemma digits_not_special: "is_digit c \<Longrightarrow> c \<noteq> CHR ''-'' \<and> c \<noteq> CHR ''+'' \<and> c \<noteq> CHR ''_'' \<and> c \<noteq> CHR ''.'' \<and> \<not> is_space c"
  by (auto simp: is_digit_def is_space_def)

lemma digit_lower: "is_digit c \<Longrightarrow> to_lower c = c"
  by (simp add: is_digit_def to_lower_def Let_def)

lemma takeWhile_digits: "list_all is_digit ds \<Longrightarrow> takeWhile is_digit (ds @ CHR ''.'' # r) = ds \<and> dropWhile is_digit (ds @ CHR ''.'' # r) = CHR ''.'' # r"
  by (induction ds) (auto simp: is_digit_def)

lemma takeWhile_all_digits: "list_all is_digit ds \<Longrightarrow> takeWhile is_digit ds = ds \<and> dropWhile is_digit ds = []"
  by (induction ds) auto

lemma parse_finite_digits:
  "ds \<noteq> [] \<Longrightarrow> list_all is_digit ds \<Longrightarrow> parse_finite neg ds = Some (NFin (Dec neg (digits_val ds) 0))"
  unfolding parse_finite_def Let_def takeWhile_all_digits [THEN conjunct1] takeWhile_all_digits [THEN conjunct2]
  by (simp add: parse_exponent_def)

lemma parse_finite_point:
  assumes "ip \<noteq> []" "list_all is_digit ip" "list_all is_digit fp"
  shows "parse_finite neg (ip @ ''.'' @ fp) = Some (NFin (Dec neg (digits_val (ip @ fp)) (- int (length fp))))"
proof -
  note fp = takeWhile_all_digits [OF assms(3), THEN conjunct1] takeWhile_all_digits [OF assms(3), THEN conjunct2]
  show ?thesis
    using takeWhile_digits [OF assms(2), of fp] assms(1)
    by (simp add: parse_finite_def parse_exponent_def Let_def fp)
qed

text \<open>Text that starts and ends with a digit, after an optional minus, is read as a finite number.\<close>

lemma parse_decimal_plain:
  assumes "is_digit d" "list_all (\<lambda>c. is_digit c \<or> c = CHR ''.'') (d # ds)" "is_digit (last (d # ds))"
  shows "parse_decimal ((if s then ''-'' else []) @ d # ds) = parse_finite s (d # ds)"
proof -
  let ?t = "(if s then ''-'' else []) @ d # ds"
  have chars: "\<forall>c\<in>set ?t. c \<noteq> CHR ''_'' \<and> \<not> is_space c"
    using assms(2) digits_not_special by (fastforce simp: list_all_iff is_space_def)
  then have "dropWhile is_space u = u" if "set u \<subseteq> set ?t" for u
    using that by (cases u) auto
  then have "strip ?t = ?t" by (simp add: strip_def)
  moreover have "filter (\<lambda>c. c \<noteq> CHR ''_'') ?t = ?t" using chars by (intro filter_True) blast
  moreover have "take_sign ?t = (s, d # ds)" using digits_not_special [OF assms(1)] by (simp add: take_sign_def)
  moreover have "d \<noteq> CHR ''i''" "d \<noteq> CHR ''n''" "d \<noteq> CHR ''s''" using assms(1) by (auto simp: is_digit_def)
  ultimately show ?thesis using digit_lower [OF assms(1)] by (simp add: parse_decimal_def Let_def)
qed

lemma digits_val_zeros: "digits_val (replicate k (CHR ''0'') @ ds) = digits_val ds"
  by (induction k) (simp_all add: digits_val_def)

lemma parse_format_f:
  "\<exists>d. parse_decimal (dec_format_f a) = Some (NFin d) \<and> dec_val d = dec_val a"
proof (cases a)
  case (Dec s c e)
  show ?thesis
  proof (cases "0 \<le> e")
    case True
    let ?ds = "nat_str (c * 10 ^ nat e)"
    have ds: "list_all is_digit ?ds" "?ds \<noteq> []" by (simp_all add: nat_str_digits)
    then obtain d r where dr: "?ds = d # r" by (cases ?ds) auto
    have "parse_decimal ((if s then ''-'' else []) @ d # r) = parse_finite s (d # r)"
    proof (rule parse_decimal_plain)
      show "is_digit d" "list_all (\<lambda>c. is_digit c \<or> c = CHR ''.'') (d # r)" using ds by (auto simp: dr list_all_iff)
      show "is_digit (last (d # r))" using ds by (metis dr last_in_set list_all_iff)
    qed
    then have "parse_decimal (dec_format_f a) = Some (NFin (Dec s (digits_val ?ds) 0))"
      using Dec True parse_finite_digits [OF ds(2,1)] by (simp add: dr)
    then show ?thesis using Dec True by (intro exI [of _ "Dec s (c * 10 ^ nat e) 0"]) (simp add: power_int_def)
  next
    case False
    define k where "k = nat (- e)"
    define ds where "ds = replicate (Suc k - length (nat_str c)) (CHR ''0'') @ nat_str c"
    define n where "n = length ds - k"
    have digit0: "is_digit (CHR ''0'')" by (simp add: is_digit_def)
    have all: "list_all is_digit ds"
      using nat_str_digits [of c] digit0 by (auto simp: ds_def list_all_iff)
    have len: "Suc k \<le> length ds" by (simp add: ds_def)
    then have n: "0 < n" "n < length ds" using False by (auto simp: n_def k_def)
    have parts: "take n ds \<noteq> []" "drop n ds \<noteq> []" "list_all is_digit (take n ds)" "list_all is_digit (drop n ds)"
      using n all by (auto simp: list_all_iff dest: in_set_takeD in_set_dropD)
    then obtain d r where dr: "take n ds = d # r" by (cases "take n ds") auto
    have "parse_decimal ((if s then ''-'' else []) @ d # (r @ ''.'' @ drop n ds)) = parse_finite s (d # (r @ ''.'' @ drop n ds))"
    proof (rule parse_decimal_plain)
      show "is_digit d" using parts(3) dr by simp
      show "list_all (\<lambda>c. is_digit c \<or> c = CHR ''.'') (d # (r @ ''.'' @ drop n ds))"
        using parts(3,4) dr by (auto simp: list_all_iff)
      have "last (d # (r @ ''.'' @ drop n ds)) = last (drop n ds)" using parts(2) by simp
      then show "is_digit (last (d # (r @ ''.'' @ drop n ds)))"
        using parts(2,4) by (metis last_in_set list_all_iff)
    qed
    moreover have "dec_format_f a = (if s then ''-'' else []) @ d # (r @ ''.'' @ drop n ds)"
      unfolding Dec dec_format_f.simps Let_def k_def [symmetric] ds_def [symmetric] n_def [symmetric]
      using False dr by simp
    moreover have "d # (r @ ''.'' @ drop n ds) = take n ds @ ''.'' @ drop n ds" using dr by simp
    moreover have "digits_val ds = c" by (simp add: ds_def digits_val_zeros)
    ultimately have "parse_decimal (dec_format_f a) = Some (NFin (Dec s c (- int (length (drop n ds)))))"
      using parse_finite_point [OF parts(1,3,4)] by (simp only: append_take_drop_id)
    moreover have "- int (length (drop n ds)) = e" using n len False by (simp add: n_def k_def)
    ultimately show ?thesis using Dec by simp
  qed
qed

lemma canonical_text_parses:
  assumes p: "0 < p"
  shows "\<exists>d. parse_decimal (canonical_text p a) = Some (NFin d) \<and> dec_val d = dec_val (dec_fix p a)"
proof (cases "dec_val a = 0")
  case True
  have "dec_format_f dec_zero = ''0''" by code_simp
  then show ?thesis using True parse_format_f [of dec_zero] dec_fix_zero [OF p True]
    by (simp add: canonical_text_def dec_eq_def)
next
  case False
  then show ?thesis using parse_format_f [of "dec_normalize p a"] dec_normalize_props [OF p False]
    by (simp add: canonical_text_def dec_eq_def)
qed

text \<open>A value of at most \<open>p\<close> digits survives the round trip.\<close>

lemma dec_fix_exact:
  assumes p: "0 < p" and "representable p (dec_val a)"
  shows "dec_val (dec_fix p a) = dec_val a"
  using dec_fix_rounds [OF p, of a] assms(2) by (auto simp: rounds_to_def intro: order.antisym)
section \<open>Text of a counter\<close>

lemma digit_groups_digits: "ds \<noteq> [] \<Longrightarrow> list_all is_digit ds \<Longrightarrow> digit_groups ds"
  by (induction ds rule: digit_groups.induct) (auto simp: is_digit_def)

lemma parse_int_nat_str: "parse_int (nat_str n) = Some (int n)"
proof -
  obtain d r where dr: "nat_str n = d # r" by (cases "nat_str n") auto
  have digits: "\<forall>c\<in>set (nat_str n). is_digit c" using nat_str_digits [of n] by (simp add: list_all_iff)
  then have "dropWhile is_space u = u" if "set u \<subseteq> set (nat_str n)" for u
    using that digits_not_special by (cases u) auto
  then have "strip (nat_str n) = nat_str n" by (simp add: strip_def)
  moreover have "take_sign (nat_str n) = (False, nat_str n)"
    using digits digits_not_special [of d] by (simp add: take_sign_def dr)
  moreover have "filter (\<lambda>c. c \<noteq> CHR ''_'') (nat_str n) = nat_str n"
    using digits digits_not_special by (intro filter_True) blast
  moreover have "digit_groups (nat_str n)" by (rule digit_groups_digits) (simp_all add: nat_str_digits)
  ultimately show ?thesis by (simp add: parse_int_def)
qed

lemma dec_div_representable:
  assumes "0 < p" "dec_div p a b = Inr c"
  shows "representable p (dec_val c)"
proof -
  obtain d where "c = dec_fix p d"
    using assms(2) by (auto simp: dec_div_def Let_def split: if_splits prod.splits simp del: dec_fix.simps)
  then show ?thesis using dec_fix_representable [OF assms(1)] by simp
qed

end
