(* ===== verification/Checkpointed_Series.thy ===== *)
theory Checkpointed_Series
  imports Prelude
begin

text \<open>
  Series computed candle by candle with a checkpoint in every point. The locale states what such a computation
  promises: a step respects a relation between states (equal values, whatever their representation), and the
  checkpoint of a point restores a state related to the one the step ended in. Continuing from a stored
  checkpoint then gives the points of the uninterrupted computation. The indicator and the market
  statistics series are its instances.
\<close>

section \<open>Results up to a relation\<close>

lemma res_bind_rel:
  assumes "rel_sum (=) R r r'" "\<And>x x'. R x x' \<Longrightarrow> rel_sum (=) S (f x) (f' x')"
  shows "rel_sum (=) S (res_bind r f) (res_bind r' f')"
  using assms by (cases r; cases r') auto

lemma res_map_rel:
  assumes "rel_sum (=) R r r'" "\<And>x x'. R x x' \<Longrightarrow> S (f x) (f' x')"
  shows "rel_sum (=) S (res_map f r) (res_map f' r')"
  using assms by (cases r; cases r') auto

section \<open>The contract\<close>

locale checkpointed_series =
  fixes step :: "'s \<Rightarrow> 'c \<Rightarrow> 'e + 's \<times> 'p"
    and loop :: "'s \<Rightarrow> 'c list \<Rightarrow> 'e + 's \<times> 'p list"
    and rel :: "'s \<Rightarrow> 's \<Rightarrow> bool"
    and prel :: "'p \<Rightarrow> 'p \<Rightarrow> bool"
    and ok :: "'s \<Rightarrow> bool"
    and good :: "'c \<Rightarrow> bool"
    and load :: "'p \<Rightarrow> 'e + 's"
  assumes loop_Nil: "loop s [] = Inr (s, [])"
    and loop_Cons: "loop s (c # cs) =
      res_bind (step s c) (\<lambda>(s', p). res_map (\<lambda>(s'', ps). (s'', p # ps)) (loop s' cs))"
    and step_rel: "rel s t \<Longrightarrow> rel_sum (=) (rel_prod rel prel) (step s c) (step t c)"
    and step_ok: "step s c = Inr (s', p) \<Longrightarrow> ok s \<Longrightarrow> good c \<Longrightarrow> ok s' \<and> (\<exists>t. load p = Inr t \<and> rel s' t)"
    and prel_refl: "prel p p"
begin

lemma loop_append:
  "loop s (xs @ ys) = res_bind (loop s xs) (\<lambda>(s', ps). res_map (\<lambda>(s'', qs). (s'', ps @ qs)) (loop s' ys))"
proof (induction xs arbitrary: s)
  case Nil
  show ?case by (cases "loop s ys") (auto simp: loop_Nil)
next
  case (Cons x xs)
  show ?case
  proof (cases "step s x")
    case (Inr r)
    then show ?thesis
      by (cases r; cases "loop (fst r) xs") (auto simp: loop_Cons Cons.IH res_map_def split: sum.splits)
  qed (simp add: loop_Cons)
qed

lemma loop_rel: "rel s t \<Longrightarrow> rel_sum (=) (rel_prod rel (list_all2 prel)) (loop s cs) (loop t cs)"
proof (induction cs arbitrary: s t)
  case (Cons c cs)
  show ?case
    unfolding loop_Cons
    by (rule res_bind_rel [OF step_rel [OF Cons.prems]]) (auto intro!: res_map_rel Cons.IH)
qed (simp add: loop_Nil)

lemma loop_ok:
  assumes "loop s cs = Inr (s', ps)" "ok s" "\<forall>c\<in>set cs. good c"
  shows "ok s' \<and> length ps = length cs \<and> (cs \<noteq> [] \<longrightarrow> (\<exists>t. load (last ps) = Inr t \<and> rel s' t))"
  using assms
proof (induction cs arbitrary: s ps)
  case (Cons c cs)
  then obtain u p qs where step: "step s c = Inr (u, p)" and rest: "loop u cs = Inr (s', qs)" and ps: "ps = p # qs"
    by (auto simp: loop_Cons res_bind_eq_Inr_iff res_map_eq_Inr_iff)
  have u: "ok u" "\<exists>t. load p = Inr t \<and> rel u t" using step_ok [OF step] Cons.prems(2,3) by auto
  have IH: "ok s' \<and> length qs = length cs \<and> (cs \<noteq> [] \<longrightarrow> (\<exists>t. load (last qs) = Inr t \<and> rel s' t))"
    using Cons.IH [OF rest u(1)] Cons.prems(3) by simp
  show ?case
  proof (cases "cs = []")
    case True
    then show ?thesis using rest ps u by (simp add: loop_Nil)
  next
    case False
    then have "qs \<noteq> []" using IH by auto
    then show ?thesis using IH False ps by simp
  qed
qed (simp add: loop_Nil)

lemma loop_resumes:
  assumes "loop s (xs @ ys) = Inr (s', ps)" "ok s" "\<forall>c\<in>set xs. good c" "xs \<noteq> []"
  shows "\<exists>mid before t s'' after. loop s xs = Inr (mid, before) \<and> load (last before) = Inr t \<and>
    loop t ys = Inr (s'', after) \<and> list_all2 prel ps (before @ after)"
proof -
  obtain mid before later where xs: "loop s xs = Inr (mid, before)" and ys: "loop mid ys = Inr (s', later)"
    and ps: "ps = before @ later"
    using assms(1) by (auto simp: loop_append res_bind_eq_Inr_iff res_map_eq_Inr_iff)
  obtain t where t: "load (last before) = Inr t" "rel mid t"
    using loop_ok [OF xs assms(2,3)] assms(4) by auto
  obtain s'' after where "loop t ys = Inr (s'', after)" "list_all2 prel later after"
    using loop_rel [OF t(2), of ys] ys by (cases "loop t ys") auto
  moreover have "list_all2 prel before before" by (simp add: list_all2_refl prel_refl)
  ultimately show ?thesis using xs t(1) ps by (auto intro: list_all2_appendI)
qed

end

section \<open>Splitting a series in time\<close>

lemma sorted_split:
  fixes f :: "'a \<Rightarrow> int"
  shows "sort_key f xs = sort_key f (filter (\<lambda>x. f x < boundary) xs) @ sort_key f (filter (\<lambda>x. boundary \<le> f x) xs)"
proof -
  have "sorted (map f ys) \<Longrightarrow> ys = filter (\<lambda>x. f x < boundary) ys @ filter (\<lambda>x. \<not> f x < boundary) ys" for ys
  proof (induction ys)
    case (Cons y ys)
    have "\<not> f y < boundary \<Longrightarrow> filter (\<lambda>x. f x < boundary) ys = []"
      using Cons.prems by (fastforce simp: filter_empty_conv)
    then show ?case using Cons by auto
  qed simp
  then have "sort_key f xs = filter (\<lambda>x. f x < boundary) (sort_key f xs) @ filter (\<lambda>x. \<not> f x < boundary) (sort_key f xs)"
    by simp
  then show ?thesis by (simp add: filter_sort not_less)
qed

end
