(* ===== verification/Indicators.thy ===== *)
theory Indicators
  imports Candle_Aggregation Decimal_Value Checkpointed_Series
begin

text \<open>
  Technical indicators (\<^verbatim>\<open>versioned_indicators.py\<close>): simple and exponential moving averages, Bollinger bands
  and the Wilder index over a series of candles, in a context of 50 digits, with the checkpoint from which a
  later run continues. Candle timestamps are UTC instants. The checkpoint is the mapping the code
  writes and reads back; \<^verbatim>\<open>datetime.fromisoformat\<close> is the parameter \<open>fromiso\<close>, and a number in a
  checkpoint that is infinite or NaN is reported as \<open>Ind_NonFinite\<close>, since such numbers are outside the
  decimals modelled here.
\<close>

section \<open>Records\<close>

type_synonym checkpoint = "(string \<times> py_value) list"

datatype ind_error = Ind_DuplicateStart | Ind_UnsupportedUnit string | Ind_DayOutOfRange | Ind_NotIterable |
  Ind_InvalidDecimal | Ind_NonFinite | Ind_InvalidInteger | Ind_InvalidTimestamp | Ind_ZipLength |
  Ind_Arithmetic dec_error

record indicator_definition =
  id_key :: string
  id_algorithm :: string
  id_parameters :: "(string \<times> json) list"
  id_decimal_precision :: nat
  id_rounding :: string
  id_implementation_version :: string
  id_definition_hash :: string

definition mk_definition :: "string \<Rightarrow> string \<Rightarrow> (string \<times> json) list \<Rightarrow> indicator_definition" where
  "mk_definition key algorithm parameters =
     \<lparr>id_key = key, id_algorithm = algorithm, id_parameters = parameters, id_decimal_precision = 50,
      id_rounding = ''ROUND_HALF_EVEN'', id_implementation_version = ''indicator-engine-v1'',
      id_definition_hash = sha256_hex (json_dumps (JObj
        [(''algorithm'', JStr algorithm),
         (''decimal'', JObj [(''precision'', JInt 50), (''rounding'', JStr ''ROUND_HALF_EVEN'')]),
         (''implementationVersion'', JStr ''indicator-engine-v1''),
         (''key'', JStr key),
         (''parameters'', JObj (sort_key fst parameters))]))\<rparr>"

definition INDICATOR_DEFINITION_VERSIONS :: "(string \<times> indicator_definition) list" where
  "INDICATOR_DEFINITION_VERSIONS =
     [(''sma20'', mk_definition ''sma20'' ''simple-moving-average'' [(''period'', JInt 20)]),
      (''sma60'', mk_definition ''sma60'' ''simple-moving-average'' [(''period'', JInt 60)]),
      (''ema20'', mk_definition ''ema20'' ''exponential-moving-average'' [(''period'', JInt 20), (''seed'', JStr ''sma20'')]),
      (''bollinger20'', mk_definition ''bollinger20'' ''bollinger-bands-population-standard-deviation''
         [(''period'', JInt 20), (''standardDeviations'', JStr ''2'')]),
      (''rsi14'', mk_definition ''rsi14'' ''wilder-relative-strength-index''
         [(''period'', JInt 14), (''flat'', JStr ''50''), (''onlyGain'', JStr ''100''), (''onlyLoss'', JStr ''0'')])]"

record indicator_point =
  ip_started_at :: int
  ip_values :: "(string \<times> dec option) list"
  ip_statuses :: "(string \<times> string) list"
  ip_definition_version_hashes :: "(string \<times> string) list"
  ip_lineage_by_indicator :: "(string \<times> int list) list"
  ip_rollup_ids :: "int list"
  ip_source_revision_through_id :: int
  ip_quality_event_through_id :: "int option"
  ip_source_as_of :: "int option"
  ip_knowledge_at :: "int option"
  ip_current_input_id :: "int option"
  ip_current_input_is_rollup :: bool
  ip_checkpoint_state :: checkpoint

text \<open>The variables the loop carries from candle to candle.\<close>

record ind_state =
  is_closes :: "dec list"
  is_count :: int
  is_ema :: "dec option"
  is_gain :: "dec option"
  is_loss :: "dec option"
  is_previous_close :: "dec option"
  is_previous_started_at :: "datetime option"

section \<open>Arithmetic\<close>

definition ind_div :: "dec \<Rightarrow> dec \<Rightarrow> ind_error + dec" where
  "ind_div a b = (case dec_div 50 a b of Inl e \<Rightarrow> Inl (Ind_Arithmetic e) | Inr c \<Rightarrow> Inr c)"

definition ind_sqrt :: "dec \<Rightarrow> ind_error + dec" where
  "ind_sqrt a = (case dec_sqrt 50 a of Inl e \<Rightarrow> Inl (Ind_Arithmetic e) | Inr c \<Rightarrow> Inr c)"

text \<open>\<^verbatim>\<open>xs[-n:]\<close>.\<close>

definition last_n :: "nat \<Rightarrow> 'a list \<Rightarrow> 'a list" where
  "last_n n xs = drop (length xs - n) xs"

definition ind_average :: "dec list \<Rightarrow> ind_error + dec" where
  "ind_average xs = ind_div (dec_sum 50 xs) (dec_of_int (int (length xs)))"

definition ind_rsi :: "dec option \<Rightarrow> dec option \<Rightarrow> ind_error + dec option" where
  "ind_rsi average_gain average_loss =
     (case (average_gain, average_loss) of
        (Some g, Some l) \<Rightarrow>
          if dec_eq g dec_zero \<and> dec_eq l dec_zero then Inr (Some (dec_of_int 50))
          else if dec_eq l dec_zero then Inr (Some (dec_of_int 100))
          else if dec_eq g dec_zero then Inr (Some (dec_of_int 0))
          else res_bind (ind_div g l) (\<lambda>ratio.
            res_bind (ind_div (dec_of_int 100) (dec_add 50 (dec_of_int 1) ratio)) (\<lambda>q.
            Inr (Some (dec_sub 50 (dec_of_int 100) q))))
      | _ \<Rightarrow> Inr None)"

section \<open>Buckets\<close>

definition next_bucket_durations :: "(string \<times> int) list" where
  "next_bucket_durations =
     [(''1m'', minute_us), (''3m'', 3 * minute_us), (''5m'', 5 * minute_us), (''10m'', 10 * minute_us),
      (''15m'', 15 * minute_us), (''30m'', 30 * minute_us), (''1h'', hour_us), (''4h'', 4 * hour_us),
      (''1d'', day_us), (''1w'', 7 * day_us)]"

definition ind_replace_month :: "int \<Rightarrow> int \<Rightarrow> int \<Rightarrow> ind_error + int" where
  "ind_replace_month t y m =
     (case replace_month t y m of Inl _ \<Rightarrow> Inl Ind_DayOutOfRange | Inr t' \<Rightarrow> Inr t')"

definition next_bucket :: "datetime \<Rightarrow> string \<Rightarrow> ind_error + datetime" where
  "next_bucket started_at unit =
     (let t = wall started_at in
      res_map (\<lambda>t'. started_at\<lparr>wall := t'\<rparr>)
       (if unit = ''1M'' then
          (if dt_month t = 12 then ind_replace_month t (dt_year t + 1) 1
           else ind_replace_month t (dt_year t) (dt_month t + 1))
        else case map_of next_bucket_durations unit of
          Some w \<Rightarrow> Inr (t + w)
        | None \<Rightarrow> Inl (Ind_UnsupportedUnit unit)))"

text \<open>\<^verbatim>\<open>previous_started_at is not None and candle.started_at != _next_bucket(...)\<close>; a naive timestamp
  equals no candle start.\<close>

definition is_gap :: "string \<Rightarrow> datetime option \<Rightarrow> int \<Rightarrow> ind_error + bool" where
  "is_gap unit previous started_at =
     (case previous of None \<Rightarrow> Inr False
      | Some d \<Rightarrow> res_map (\<lambda>d'. \<not> (is_aware d' \<and> instant d' = started_at)) (next_bucket d unit))"

section \<open>Checkpoints\<close>

definition canonical_value :: "dec option \<Rightarrow> py_value" where
  "canonical_value v = (case v of None \<Rightarrow> PyNone | Some d \<Rightarrow> PyStr (canonical_text 50 d))"

definition mk_checkpoint :: "ind_state \<Rightarrow> int \<Rightarrow> int option \<Rightarrow> checkpoint" where
  "mk_checkpoint st previous_started_at source_as_of =
     [(''recentCloses'', PyList (map (\<lambda>d. PyStr (canonical_text 50 d)) (last_n 60 (is_closes st)))),
      (''consecutiveCount'', PyInt (is_count st)),
      (''ema20'', canonical_value (is_ema st)),
      (''rsiAverageGain'', canonical_value (is_gain st)),
      (''rsiAverageLoss'', canonical_value (is_loss st)),
      (''previousClose'', canonical_value (is_previous_close st)),
      (''previousStartedAt'', PyStr (isoformat (utc previous_started_at))),
      (''sourceAsOf'', case source_as_of of None \<Rightarrow> PyNone | Some t \<Rightarrow> PyStr (isoformat (utc t)))]"

definition decimal_of_text :: "string \<Rightarrow> ind_error + dec" where
  "decimal_of_text s =
     (case parse_decimal s of None \<Rightarrow> Inl Ind_InvalidDecimal
      | Some (NFin d) \<Rightarrow> Inr d
      | Some _ \<Rightarrow> Inl Ind_NonFinite)"

definition ind_optional_decimal :: "py_value \<Rightarrow> ind_error + dec option" where
  "ind_optional_decimal v = (if v = PyNone then Inr None else res_map Some (decimal_of_text (py_str v)))"

definition py_items :: "py_value \<Rightarrow> ind_error + py_value list" where
  "py_items v =
     (case v of PyList xs \<Rightarrow> Inr xs
      | PyStr s \<Rightarrow> Inr (map (\<lambda>c. PyStr [c]) s)
      | PyDict d \<Rightarrow> Inr (map (PyStr \<circ> fst) d)
      | _ \<Rightarrow> Inl Ind_NotIterable)"

definition is_falsy :: "py_value \<Rightarrow> bool" where
  "is_falsy v =
     (case v of PyNone \<Rightarrow> True | PyBool b \<Rightarrow> \<not> b | PyInt i \<Rightarrow> i = 0 | PyFloat r q \<Rightarrow> q = Some 0
      | PyDecimal d \<Rightarrow> dec_eq d dec_zero | PyStr s \<Rightarrow> s = [] | PyList xs \<Rightarrow> xs = [] | PyDict d \<Rightarrow> d = []
      | PyDatetime d \<Rightarrow> False)"

definition parse_started :: "(string \<Rightarrow> datetime option) \<Rightarrow> py_value \<Rightarrow> ind_error + datetime option" where
  "parse_started fromiso v =
     (if is_falsy v then Inr None
      else case fromiso (py_str v) of None \<Rightarrow> Inl Ind_InvalidTimestamp | Some d \<Rightarrow> Inr (Some d))"

definition load_checkpoint :: "(string \<Rightarrow> datetime option) \<Rightarrow> checkpoint \<Rightarrow> ind_error + ind_state" where
  "load_checkpoint fromiso cp =
     res_bind (py_items (dict_get_default cp ''recentCloses'' (PyList []))) (\<lambda>items.
     res_bind (res_mapM (\<lambda>v. decimal_of_text (py_str v)) items) (\<lambda>closes.
     res_bind (case parse_int (py_str (dict_get_default cp ''consecutiveCount'' (PyInt 0))) of
         None \<Rightarrow> Inl Ind_InvalidInteger | Some i \<Rightarrow> Inr i) (\<lambda>consecutive.
     res_bind (ind_optional_decimal (dict_get cp ''ema20'')) (\<lambda>ema.
     res_bind (ind_optional_decimal (dict_get cp ''rsiAverageGain'')) (\<lambda>gain.
     res_bind (ind_optional_decimal (dict_get cp ''rsiAverageLoss'')) (\<lambda>loss.
     res_bind (ind_optional_decimal (dict_get cp ''previousClose'')) (\<lambda>previous_close.
     res_bind (parse_started fromiso (dict_get cp ''previousStartedAt'')) (\<lambda>previous_started_at.
     Inr \<lparr>is_closes = closes, is_count = consecutive, is_ema = ema, is_gain = gain, is_loss = loss,
          is_previous_close = previous_close, is_previous_started_at = previous_started_at\<rparr>))))))))"

section \<open>One candle\<close>

definition mk_point ::
  "candle_view \<Rightarrow> (string \<times> dec option) list \<Rightarrow> (string \<times> string) list \<Rightarrow> checkpoint \<Rightarrow> indicator_point" where
  "mk_point candle vals statuses checkpoint_state =
     \<lparr>ip_started_at = cv_started_at candle, ip_values = vals, ip_statuses = statuses,
      ip_definition_version_hashes = map (\<lambda>(k, d). (k, id_definition_hash d)) INDICATOR_DEFINITION_VERSIONS,
      ip_lineage_by_indicator = [],
      ip_rollup_ids = (case cv_rollup_id candle of Some i \<Rightarrow> [i] | None \<Rightarrow> []),
      ip_source_revision_through_id = cv_source_revision_through_id candle,
      ip_quality_event_through_id = cv_quality_event_through_id candle,
      ip_source_as_of = cv_source_as_of candle, ip_knowledge_at = cv_knowledge_at candle,
      ip_current_input_id =
        (case cv_rollup_id candle of Some i \<Rightarrow> Some i | None \<Rightarrow> fold_first max (cv_input_revision_ids candle)),
      ip_current_input_is_rollup = (cv_rollup_id candle \<noteq> None),
      ip_checkpoint_state = checkpoint_state\<rparr>"

definition missing_point :: "candle_view \<Rightarrow> checkpoint \<Rightarrow> indicator_point" where
  "missing_point candle checkpoint_state =
     mk_point candle
       [(''sma20'', None), (''sma60'', None), (''ema20'', None), (''bollingerUpper'', None),
        (''bollingerMiddle'', None), (''bollingerLower'', None), (''rsi14'', None)]
       (map (\<lambda>(k, d). (k, ''missing'')) INDICATOR_DEFINITION_VERSIONS) checkpoint_state"

definition reset_state :: "ind_state \<Rightarrow> ind_state" where
  "reset_state st = st\<lparr>is_closes := [], is_count := 0, is_ema := None, is_gain := None, is_loss := None,
     is_previous_close := None\<rparr>"

definition ind_sma :: "nat \<Rightarrow> int \<Rightarrow> dec list \<Rightarrow> ind_error + dec option" where
  "ind_sma n consecutive closes = (if int n \<le> consecutive then res_map Some (ind_average (last_n n closes)) else Inr None)"

definition next_ema :: "int \<Rightarrow> dec option \<Rightarrow> dec option \<Rightarrow> dec \<Rightarrow> ind_error + dec option" where
  "next_ema consecutive sma20 ema close =
     (if consecutive = 20 then Inr sma20
      else if 20 < consecutive then
        (case ema of None \<Rightarrow> Inr None
         | Some e \<Rightarrow> res_map (\<lambda>d. Some (dec_add 50 e d))
             (ind_div (dec_mul 50 (dec_sub 50 close e) (dec_of_int 2)) (dec_of_int 21)))
      else Inr ema)"

definition close_changes :: "dec list \<Rightarrow> ind_error + dec list" where
  "close_changes closes =
     (let priors = butlast (last_n 15 closes); currents = last_n 14 closes in
      if length priors \<noteq> length currents then Inl Ind_ZipLength
      else Inr (map (\<lambda>(prior, current). dec_sub 50 current prior) (zip priors currents)))"

definition wilder :: "dec \<Rightarrow> dec \<Rightarrow> ind_error + dec" where
  "wilder average change = ind_div (dec_add 50 (dec_mul 50 average (dec_of_int 13)) change) (dec_of_int 14)"

definition next_averages ::
  "int \<Rightarrow> dec list \<Rightarrow> dec option \<Rightarrow> dec \<Rightarrow> dec option \<Rightarrow> dec option \<Rightarrow> ind_error + dec option \<times> dec option" where
  "next_averages consecutive closes previous_close close average_gain average_loss =
     (case previous_close of None \<Rightarrow> Inr (average_gain, average_loss)
      | Some previous \<Rightarrow>
        let gain = dec_max dec_zero (dec_sub 50 close previous); loss = dec_max dec_zero (dec_sub 50 previous close) in
        if consecutive = 15 then
          res_bind (close_changes closes) (\<lambda>changes.
          res_bind (ind_average (map (\<lambda>v. dec_max dec_zero v) changes)) (\<lambda>g.
          res_bind (ind_average (map (\<lambda>v. dec_max dec_zero (dec_neg 50 v)) changes)) (\<lambda>l.
          Inr (Some g, Some l))))
        else if 15 < consecutive then
          (case (average_gain, average_loss) of
             (Some g, Some l) \<Rightarrow> res_bind (wilder g gain) (\<lambda>g'. res_bind (wilder l loss) (\<lambda>l'. Inr (Some g', Some l')))
           | _ \<Rightarrow> Inr (average_gain, average_loss))
        else Inr (average_gain, average_loss))"

definition bollinger :: "dec option \<Rightarrow> dec list \<Rightarrow> ind_error + dec option \<times> dec option \<times> dec option" where
  "bollinger sma20 closes =
     (case sma20 of None \<Rightarrow> Inr (None, None, None)
      | Some middle \<Rightarrow>
          res_bind (ind_average (map (\<lambda>item. dec_square 50 (dec_sub 50 item middle)) (last_n 20 closes))) (\<lambda>variance.
          res_bind (ind_sqrt variance) (\<lambda>deviation.
          Inr (Some (dec_add 50 middle (dec_mul 50 (dec_of_int 2) deviation)), Some middle,
               Some (dec_sub 50 middle (dec_mul 50 (dec_of_int 2) deviation))))))"

definition ready_if :: "dec option \<Rightarrow> string" where
  "ready_if v = (if v = None then ''warming_up'' else ''ready'')"

definition valid_candle :: "candle_view \<Rightarrow> bool" where
  "valid_candle c \<longleftrightarrow> cv_quality c = ''available'' \<and> cv_completeness c = ''complete''"

definition ready_point ::
  "candle_view \<Rightarrow> ind_state \<Rightarrow> dec option \<Rightarrow> dec option \<Rightarrow> dec option \<times> dec option \<times> dec option \<Rightarrow> dec option \<Rightarrow>
     indicator_point" where
  "ready_point candle st' sma20 sma60 bands rsi =
     mk_point candle
       [(''sma20'', sma20), (''sma60'', sma60), (''ema20'', is_ema st'), (''bollingerUpper'', fst bands),
        (''bollingerMiddle'', fst (snd bands)), (''bollingerLower'', snd (snd bands)), (''rsi14'', rsi)]
       [(''sma20'', ready_if sma20), (''sma60'', ready_if sma60), (''ema20'', ready_if (is_ema st')),
        (''bollinger20'', ready_if (fst (snd bands))), (''rsi14'', ready_if rsi)]
       (mk_checkpoint st' (cv_started_at candle) (cv_source_as_of candle))"

definition advance :: "ind_state \<Rightarrow> candle_view \<Rightarrow> ind_error + ind_state \<times> indicator_point" where
  "advance st candle =
     (let consecutive = is_count st + 1; close = cv_close candle; closes = last_n 60 (is_closes st @ [close]) in
      res_bind (ind_sma 20 consecutive closes) (\<lambda>sma20.
      res_bind (ind_sma 60 consecutive closes) (\<lambda>sma60.
      res_bind (next_ema consecutive sma20 (is_ema st) close) (\<lambda>ema.
      res_bind (next_averages consecutive closes (is_previous_close st) close (is_gain st) (is_loss st)) (\<lambda>averages.
      res_bind (ind_rsi (fst averages) (snd averages)) (\<lambda>rsi.
      res_bind (bollinger sma20 closes) (\<lambda>bands.
      let st' = \<lparr>is_closes = closes, is_count = consecutive, is_ema = ema, is_gain = fst averages,
                 is_loss = snd averages, is_previous_close = Some close,
                 is_previous_started_at = Some (utc (cv_started_at candle))\<rparr>
      in Inr (st', ready_point candle st' sma20 sma60 bands rsi))))))))"

definition indicator_step :: "string \<Rightarrow> ind_state \<Rightarrow> candle_view \<Rightarrow> ind_error + ind_state \<times> indicator_point" where
  "indicator_step unit st candle =
     res_bind (is_gap unit (is_previous_started_at st) (cv_started_at candle)) (\<lambda>gap.
     let st1 = (if gap then reset_state st else st) in
     if \<not> valid_candle candle then
       let st2 = (reset_state st1)\<lparr>is_previous_started_at := Some (utc (cv_started_at candle))\<rparr> in
       Inr (st2, missing_point candle (mk_checkpoint st2 (cv_started_at candle) (cv_source_as_of candle)))
     else advance st1 candle)"

fun indicator_loop :: "string \<Rightarrow> ind_state \<Rightarrow> candle_view list \<Rightarrow> ind_error + ind_state \<times> indicator_point list" where
  "indicator_loop unit st [] = Inr (st, [])"
| "indicator_loop unit st (c # cs) =
     res_bind (indicator_step unit st c) (\<lambda>(st', point).
     res_map (\<lambda>(st'', points). (st'', point # points)) (indicator_loop unit st' cs))"

definition calculate_indicator_series ::
  "(string \<Rightarrow> datetime option) \<Rightarrow> candle_view list \<Rightarrow> int option \<Rightarrow> string \<Rightarrow> checkpoint option \<Rightarrow>
     ind_error + indicator_point list" where
  "calculate_indicator_series fromiso candles requested_from unit initial_checkpoint =
     (let ordered = sort_key cv_started_at candles in
      if \<not> distinct (map cv_started_at ordered) then Inl Ind_DuplicateStart
      else res_bind (load_checkpoint fromiso (case initial_checkpoint of None \<Rightarrow> [] | Some cp \<Rightarrow> cp)) (\<lambda>st.
        res_map (\<lambda>(st', points).
          filter (\<lambda>p. case requested_from of None \<Rightarrow> True | Some t \<Rightarrow> t \<le> ip_started_at p) points)
        (indicator_loop unit st ordered)))"

section \<open>The loop sees only values\<close>

definition veq :: "dec \<Rightarrow> dec \<Rightarrow> bool" where "veq a b \<longleftrightarrow> dec_val a = dec_val b"

named_theorems veq_rules \<open>operations respect the values of decimals\<close>

lemma veq_refl [simp, veq_rules]: "veq a a"
  by (simp add: veq_def)

lemma veq_refls [simp]: "list_all2 veq xs xs" "rel_option veq v v"
  by (simp_all add: list_all2_refl option.rel_refl)

lemma veq_arith [veq_rules]:
  assumes "veq a a'" "veq b b'"
  shows "veq (dec_add 50 a b) (dec_add 50 a' b')" "veq (dec_sub 50 a b) (dec_sub 50 a' b')"
    and "veq (dec_mul 50 a b) (dec_mul 50 a' b')" "veq (dec_max a b) (dec_max a' b')"
  using assms unfolding veq_def
  by (simp_all add: dec_add_cong [of 50 a a' b b'] dec_sub_cong [of 50 a a' b b'] dec_mul_cong [of 50 a a' b b']
      dec_max_def dec_lt_def)

lemma veq_unary [veq_rules]:
  assumes "veq a a'"
  shows "veq (dec_neg 50 a) (dec_neg 50 a')" "veq (dec_square 50 a) (dec_square 50 a')"
  using assms unfolding veq_def by (simp_all add: dec_neg_cong [of 50 a a'] dec_square_cong [of 50 a a'])

lemma rel_sum_veq: "map_sum id dec_val r = map_sum id dec_val r' \<longleftrightarrow> rel_sum (=) veq r r'"
  by (cases r; cases r') (auto simp: veq_def)

lemma ind_div_rel [veq_rules]: "veq a a' \<Longrightarrow> veq b b' \<Longrightarrow> rel_sum (=) veq (ind_div a b) (ind_div a' b')"
  using dec_div_cong [of 50 a a' b b', unfolded rel_sum_veq] unfolding veq_def [symmetric]
  by (cases "dec_div 50 a b"; cases "dec_div 50 a' b'") (simp_all add: ind_div_def)

lemma ind_sqrt_rel [veq_rules]: "veq a a' \<Longrightarrow> rel_sum (=) veq (ind_sqrt a) (ind_sqrt a')"
  using dec_sqrt_cong [of 50 a a', unfolded rel_sum_veq] unfolding veq_def [symmetric]
  by (cases "dec_sqrt 50 a"; cases "dec_sqrt 50 a'") (simp_all add: ind_sqrt_def)

lemma dec_sum_rel [veq_rules]: "list_all2 veq xs ys \<Longrightarrow> veq (dec_sum 50 xs) (dec_sum 50 ys)"
proof -
  have "list_all2 veq xs ys \<Longrightarrow> veq a b \<Longrightarrow> veq (foldl (dec_add 50) a xs) (foldl (dec_add 50) b ys)" for a b
    by (induction xs ys arbitrary: a b rule: list_all2_induct) (simp_all add: veq_arith)
  then show "list_all2 veq xs ys \<Longrightarrow> ?thesis" by (simp add: dec_sum_def)
qed

lemma list_all2_map_rel:
  "list_all2 veq xs ys \<Longrightarrow> (\<And>x y. veq x y \<Longrightarrow> veq (f x) (g y)) \<Longrightarrow> list_all2 veq (map f xs) (map g ys)"
  by (auto simp: list_all2_map1 list_all2_map2 elim: list_all2_mono)

lemma last_n_rel [veq_rules]: "list_all2 R xs ys \<Longrightarrow> list_all2 R (last_n n xs) (last_n n ys)"
  by (simp add: last_n_def list_all2_lengthD list_all2_dropI)

lemma ind_average_rel [veq_rules]: "list_all2 veq xs ys \<Longrightarrow> rel_sum (=) veq (ind_average xs) (ind_average ys)"
  unfolding ind_average_def by (auto dest: list_all2_lengthD intro!: ind_div_rel dec_sum_rel)

lemma ind_sma_rel: "list_all2 veq xs ys \<Longrightarrow> rel_sum (=) (rel_option veq) (ind_sma n k xs) (ind_sma n k ys)"
  unfolding ind_sma_def by (auto intro!: res_map_rel [where R = veq] ind_average_rel last_n_rel)

lemma next_ema_rel:
  assumes "rel_option veq s s'" "rel_option veq e e'"
  shows "rel_sum (=) (rel_option veq) (next_ema k s e c) (next_ema k s' e' c)"
  using assms unfolding next_ema_def
  by (cases e; cases e') (auto intro!: res_map_rel [where R = veq] veq_rules)

lemma zip_sub_rel:
  "list_all2 veq ps ps' \<Longrightarrow> list_all2 veq cs cs' \<Longrightarrow>
     list_all2 veq (map (\<lambda>(p, c). dec_sub 50 c p) (zip ps cs)) (map (\<lambda>(p, c). dec_sub 50 c p) (zip ps' cs'))"
proof (induction ps ps' arbitrary: cs cs' rule: list_all2_induct)
  case (Cons p ps p' ps')
  then show ?case by (cases cs; cases cs') (auto intro: veq_arith)
qed simp

lemma close_changes_rel:
  assumes "list_all2 veq xs ys"
  shows "rel_sum (=) (list_all2 veq) (close_changes xs) (close_changes ys)"
proof -
  have "list_all2 veq (butlast (last_n 15 xs)) (butlast (last_n 15 ys))"
    using last_n_rel [OF assms, of 15] by (metis butlast_conv_take list_all2_lengthD list_all2_takeI)
  moreover have "list_all2 veq (last_n 14 xs) (last_n 14 ys)" by (rule last_n_rel [OF assms])
  moreover note zip_sub_rel
  ultimately show ?thesis
    using list_all2_lengthD [of veq "butlast (last_n 15 xs)"] list_all2_lengthD [of veq "last_n 14 xs"]
    by (simp add: close_changes_def Let_def)
qed

lemma next_averages_rel:
  assumes "list_all2 veq xs ys" "rel_option veq p p'" "rel_option veq g g'" "rel_option veq l l'"
  shows "rel_sum (=) (rel_prod (rel_option veq) (rel_option veq))
    (next_averages k xs p c g l) (next_averages k ys p' c g' l')"
proof -
  have first: "rel_sum (=) (rel_prod (rel_option veq) (rel_option veq))
      (res_bind (close_changes xs) (\<lambda>changes. res_bind (ind_average (map (\<lambda>v. dec_max dec_zero v) changes)) (\<lambda>g.
        res_bind (ind_average (map (\<lambda>v. dec_max dec_zero (dec_neg 50 v)) changes)) (\<lambda>l. Inr (Some g, Some l)))))
      (res_bind (close_changes ys) (\<lambda>changes. res_bind (ind_average (map (\<lambda>v. dec_max dec_zero v) changes)) (\<lambda>g.
        res_bind (ind_average (map (\<lambda>v. dec_max dec_zero (dec_neg 50 v)) changes)) (\<lambda>l. Inr (Some g, Some l)))))"
    by (rule res_bind_rel [OF close_changes_rel [OF assms(1)]], rule res_bind_rel [where R = veq],
        rule ind_average_rel, erule list_all2_map_rel, intro veq_rules, assumption,
        rule res_bind_rel [where R = veq], rule ind_average_rel, erule list_all2_map_rel)
       (auto intro!: veq_rules)
  show ?thesis
    using assms(2-4) first unfolding next_averages_def Let_def wilder_def
    by (cases p; cases p'; cases g; cases g'; cases l; cases l')
       (auto intro!: res_bind_rel [where R = veq] veq_rules)
qed

lemma ind_rsi_rel:
  assumes "rel_option veq g g'" "rel_option veq l l'"
  shows "rel_sum (=) (rel_option veq) (ind_rsi g l) (ind_rsi g' l')"
proof -
  have "dec_eq x dec_zero \<longleftrightarrow> dec_eq y dec_zero" if "veq x y" for x y using that by (simp add: dec_eq_def veq_def)
  then show ?thesis
    using assms unfolding ind_rsi_def
    by (cases g; cases g'; cases l; cases l') (auto intro!: res_bind_rel [where R = veq] veq_rules)
qed

lemma bollinger_rel:
  assumes "rel_option veq s s'" "list_all2 veq xs ys"
  shows "rel_sum (=) (rel_prod (rel_option veq) (rel_prod (rel_option veq) (rel_option veq))) (bollinger s xs) (bollinger s' ys)"
proof (cases s)
  case (Some m)
  then obtain m' where m': "s' = Some m'" "veq m m'" using assms(1) by (cases s') auto
  have "rel_sum (=) veq (ind_average (map (\<lambda>item. dec_square 50 (dec_sub 50 item m)) (last_n 20 xs)))
      (ind_average (map (\<lambda>item. dec_square 50 (dec_sub 50 item m')) (last_n 20 ys)))"
    by (intro ind_average_rel list_all2_map_rel [OF last_n_rel [OF assms(2)]] veq_unary veq_arith m'(2))
  then show ?thesis
    unfolding bollinger_def Some m' using m'(2)
    by (auto intro!: res_bind_rel [where R = veq] veq_rules)
qed (use assms in \<open>cases s'; simp add: bollinger_def\<close>)
definition st_rel :: "ind_state \<Rightarrow> ind_state \<Rightarrow> bool" where
  "st_rel s t \<longleftrightarrow> list_all2 veq (is_closes s) (is_closes t) \<and> is_count s = is_count t \<and>
     rel_option veq (is_ema s) (is_ema t) \<and> rel_option veq (is_gain s) (is_gain t) \<and>
     rel_option veq (is_loss s) (is_loss t) \<and> rel_option veq (is_previous_close s) (is_previous_close t) \<and>
     is_previous_started_at s = is_previous_started_at t"

text \<open>A point with its values as numbers.\<close>

definition shown :: "indicator_point \<Rightarrow> (string \<times> rat option) list \<times> indicator_point" where
  "shown p = (map (\<lambda>(k, v). (k, map_option dec_val v)) (ip_values p), p\<lparr>ip_values := []\<rparr>)"

definition pt_rel :: "indicator_point \<Rightarrow> indicator_point \<Rightarrow> bool" where
  "pt_rel p q \<longleftrightarrow> shown p = shown q"

lemma rel_option_veq: "rel_option veq v w \<longleftrightarrow> map_option dec_val v = map_option dec_val w"
  by (cases v; cases w) (auto simp: veq_def)

lemma canonical_value_rel: "rel_option veq v w \<Longrightarrow> canonical_value v = canonical_value w"
  by (cases v; cases w) (auto simp: canonical_value_def veq_def intro: canonical_text_cong)

lemma mk_checkpoint_rel: "st_rel s t \<Longrightarrow> mk_checkpoint s started as_of = mk_checkpoint t started as_of"
proof -
  assume st: "st_rel s t"
  then have "list_all2 veq (last_n 60 (is_closes s)) (last_n 60 (is_closes t))"
    by (intro last_n_rel) (simp add: st_rel_def)
  then have "map (\<lambda>d. PyStr (canonical_text 50 d)) (last_n 60 (is_closes s)) =
      map (\<lambda>d. PyStr (canonical_text 50 d)) (last_n 60 (is_closes t))"
    by (induction rule: list_all2_induct) (auto simp: veq_def intro: canonical_text_cong)
  then show ?thesis using st unfolding mk_checkpoint_def st_rel_def by (simp add: canonical_value_rel)
qed

lemma ready_if_rel: "rel_option veq v w \<Longrightarrow> ready_if v = ready_if w"
  by (cases v; cases w) (auto simp: ready_if_def)

lemma reset_state_rel: "st_rel s t \<Longrightarrow> st_rel (reset_state s) (reset_state t)"
  by (simp add: st_rel_def reset_state_def)

lemma ready_point_rel:
  assumes "st_rel s t" "rel_option veq a a'" "rel_option veq b b'" "rel_option veq r r'"
    and "rel_prod (rel_option veq) (rel_prod (rel_option veq) (rel_option veq)) d d'"
  shows "pt_rel (ready_point c s a b d r) (ready_point c t a' b' d' r')"
  using assms mk_checkpoint_rel [OF assms(1)]
  by (simp add: pt_rel_def shown_def ready_point_def mk_point_def rel_option_veq [symmetric] ready_if_rel
      rel_prod_sel st_rel_def)

lemma advance_rel:
  assumes "st_rel s t"
  shows "rel_sum (=) (rel_prod st_rel pt_rel) (advance s c) (advance t c)"
proof -
  have closes: "list_all2 veq (last_n 60 (is_closes s @ [cv_close c])) (last_n 60 (is_closes t @ [cv_close c]))"
    using assms by (intro last_n_rel list_all2_appendI) (simp_all add: st_rel_def)
  have st: "is_count s = is_count t" "rel_option veq (is_ema s) (is_ema t)" "rel_option veq (is_gain s) (is_gain t)"
    "rel_option veq (is_loss s) (is_loss t)" "rel_option veq (is_previous_close s) (is_previous_close t)"
    using assms by (simp_all add: st_rel_def)
  show ?thesis
    unfolding advance_def Let_def st(1)
    apply (rule res_bind_rel [OF ind_sma_rel [OF closes]])
    apply (rule res_bind_rel [OF ind_sma_rel [OF closes]])
    apply (rule res_bind_rel [OF next_ema_rel [OF _ st(2)]], assumption)
    apply (rule res_bind_rel [OF next_averages_rel [OF closes st(5,3,4)]])
    apply (rule res_bind_rel [OF ind_rsi_rel], simp add: rel_prod_sel, simp add: rel_prod_sel)
    apply (rule res_bind_rel [OF bollinger_rel [OF _ closes]], assumption)
    apply (unfold rel_sum_simps rel_prod_inject, intro conjI ready_point_rel)
    apply (use closes in \<open>simp_all add: st_rel_def rel_prod_sel\<close>)
    done
qed

lemma indicator_step_rel:
  assumes "st_rel s t"
  shows "rel_sum (=) (rel_prod st_rel pt_rel) (indicator_step unit s c) (indicator_step unit t c)"
proof -
  have prev: "is_previous_started_at s = is_previous_started_at t" using assms by (simp add: st_rel_def)
  have missing: "rel_prod st_rel pt_rel
      (u\<lparr>is_previous_started_at := d\<rparr>, missing_point c (mk_checkpoint (u\<lparr>is_previous_started_at := d\<rparr>) a b))
      (v\<lparr>is_previous_started_at := d\<rparr>, missing_point c (mk_checkpoint (v\<lparr>is_previous_started_at := d\<rparr>) a b))"
    if "st_rel u v" for u v d a b
  proof -
    have "st_rel (u\<lparr>is_previous_started_at := d\<rparr>) (v\<lparr>is_previous_started_at := d\<rparr>)"
      using that by (simp add: st_rel_def)
    then show ?thesis using mk_checkpoint_rel by (simp add: pt_rel_def)
  qed
  show ?thesis
    unfolding indicator_step_def Let_def prev
    by (rule res_bind_rel [where R = "(=)"])
       (simp_all add: sum.rel_eq missing reset_state_rel advance_rel assms del: rel_prod_inject)
qed

section \<open>A checkpoint restores the state\<close>

definition fits50 :: "dec \<Rightarrow> bool" where "fits50 d \<longleftrightarrow> representable 50 (dec_val d)"

definition state_ok :: "ind_state \<Rightarrow> bool" where
  "state_ok st \<longleftrightarrow> list_all fits50 (is_closes st) \<and> length (is_closes st) \<le> 60 \<and> 0 \<le> is_count st \<and>
     pred_option fits50 (is_ema st) \<and> pred_option fits50 (is_gain st) \<and> pred_option fits50 (is_loss st) \<and>
     pred_option fits50 (is_previous_close st)"

lemma ind_div_fits: "ind_div a b = Inr c \<Longrightarrow> fits50 c"
  unfolding ind_div_def fits50_def using dec_div_representable [of 50 a b] by (auto split: sum.splits)

lemma ind_average_fits: "ind_average xs = Inr a \<Longrightarrow> fits50 a"
  unfolding ind_average_def by (rule ind_div_fits)

lemma ind_sma_fits: "ind_sma n k xs = Inr v \<Longrightarrow> pred_option fits50 v"
  by (auto simp: ind_sma_def res_map_eq_Inr_iff ind_average_fits split: if_splits)

lemma next_ema_fits: "next_ema k s e c = Inr v \<Longrightarrow> pred_option fits50 s \<Longrightarrow> pred_option fits50 e \<Longrightarrow> pred_option fits50 v"
  by (auto simp: next_ema_def res_map_eq_Inr_iff fits50_def dec_add_representable split: if_splits option.splits)

lemma next_averages_fits:
  "next_averages k xs p c g l = Inr v \<Longrightarrow> pred_option fits50 g \<Longrightarrow> pred_option fits50 l \<Longrightarrow>
     pred_option fits50 (fst v) \<and> pred_option fits50 (snd v)"
  by (auto simp: next_averages_def wilder_def Let_def res_bind_eq_Inr_iff
      dest!: ind_average_fits ind_div_fits split: if_splits option.splits)

lemma advance_ok:
  assumes "advance st c = Inr (st', pt)" "state_ok st" "fits50 (cv_close c)"
  shows "state_ok st' \<and> is_previous_started_at st' = Some (utc (cv_started_at c)) \<and>
    ip_checkpoint_state pt = mk_checkpoint st' (cv_started_at c) (cv_source_as_of c)"
proof -
  have closes: "list_all fits50 (last_n 60 (is_closes st @ [cv_close c]))" "length (last_n 60 (is_closes st @ [cv_close c])) \<le> 60"
    using assms(2,3) by (auto simp: state_ok_def last_n_def list_all_iff dest: in_set_dropD)
  obtain sma20 sma60 ema av rsi bands where
    sma: "ind_sma 20 (is_count st + 1) (last_n 60 (is_closes st @ [cv_close c])) = Inr sma20" and
    ema: "next_ema (is_count st + 1) sma20 (is_ema st) (cv_close c) = Inr ema" and
    av: "next_averages (is_count st + 1) (last_n 60 (is_closes st @ [cv_close c])) (is_previous_close st) (cv_close c)
        (is_gain st) (is_loss st) = Inr av" and
    st': "st' = \<lparr>is_closes = last_n 60 (is_closes st @ [cv_close c]), is_count = is_count st + 1, is_ema = ema,
        is_gain = fst av, is_loss = snd av, is_previous_close = Some (cv_close c),
        is_previous_started_at = Some (utc (cv_started_at c))\<rparr>" and
    pt: "pt = ready_point c st' sma20 sma60 bands rsi"
    using assms(1) by (auto simp: advance_def Let_def res_bind_eq_Inr_iff)
  show ?thesis
    using closes assms(2,3) next_ema_fits [OF ema ind_sma_fits [OF sma]] next_averages_fits [OF av]
    by (simp add: state_ok_def st' pt ready_point_def mk_point_def)
qed

lemma indicator_step_ok:
  assumes "indicator_step unit st c = Inr (st', pt)" "state_ok st" "fits50 (cv_close c)"
  shows "state_ok st' \<and> is_previous_started_at st' = Some (utc (cv_started_at c)) \<and>
    ip_checkpoint_state pt = mk_checkpoint st' (cv_started_at c) (cv_source_as_of c)"
proof -
  have reset: "state_ok (reset_state s)" "state_ok ((reset_state s)\<lparr>is_previous_started_at := d\<rparr>)" for s d
    by (simp_all add: state_ok_def reset_state_def)
  obtain gap where "is_gap unit (is_previous_started_at st) (cv_started_at c) = Inr gap"
    using assms(1) by (auto simp: indicator_step_def res_bind_eq_Inr_iff)
  then show ?thesis
    using assms(1) reset advance_ok [OF _ _ assms(3), of _ st' pt] assms(2)
    by (cases "valid_candle c"; cases gap) (auto simp: indicator_step_def Let_def missing_point_def mk_point_def)
qed

lemma decimal_of_canonical:
  assumes "fits50 d"
  shows "\<exists>d'. decimal_of_text (canonical_text 50 d) = Inr d' \<and> veq d d'"
  using canonical_text_parses [of 50 d] dec_fix_exact [of 50 d] assms
  by (auto simp: decimal_of_text_def veq_def fits50_def simp del: dec_fix.simps)

lemma optional_decimal_canonical:
  assumes "pred_option fits50 v"
  shows "\<exists>w. ind_optional_decimal (canonical_value v) = Inr w \<and> rel_option veq v w"
proof (cases v)
  case (Some d)
  then show ?thesis
    using decimal_of_canonical [of d] assms by (auto simp: ind_optional_decimal_def canonical_value_def)
qed (simp add: ind_optional_decimal_def canonical_value_def)

lemma closes_canonical:
  "list_all fits50 xs \<Longrightarrow>
     \<exists>ys. res_mapM (\<lambda>v. decimal_of_text (py_str v)) (map (\<lambda>d. PyStr (canonical_text 50 d)) xs) = Inr ys \<and> list_all2 veq xs ys"
proof (induction xs)
  case (Cons x xs)
  then obtain ys where "res_mapM (\<lambda>v. decimal_of_text (py_str v)) (map (\<lambda>d. PyStr (canonical_text 50 d)) xs) = Inr ys"
      "list_all2 veq xs ys"
    by auto
  then show ?case using decimal_of_canonical [of x] Cons.prems by auto
qed simp

lemma isoformat_nonempty: "isoformat d \<noteq> []"
  by (simp add: isoformat_def iso_with_def)

lemma load_mk_checkpoint:
  assumes ok: "state_ok st" and prev: "is_previous_started_at st = Some (utc t)"
    and fromiso: "fromiso (isoformat (utc t)) = Some (utc t)"
  shows "\<exists>st'. load_checkpoint fromiso (mk_checkpoint st t as_of) = Inr st' \<and> st_rel st st'"
proof -
  let ?cp = "mk_checkpoint st t as_of"
  have get: "dict_get_default ?cp ''recentCloses'' d = PyList (map (\<lambda>d. PyStr (canonical_text 50 d)) (is_closes st))"
    "dict_get_default ?cp ''consecutiveCount'' d = PyInt (is_count st)"
    "dict_get ?cp ''ema20'' = canonical_value (is_ema st)" "dict_get ?cp ''rsiAverageGain'' = canonical_value (is_gain st)"
    "dict_get ?cp ''rsiAverageLoss'' = canonical_value (is_loss st)"
    "dict_get ?cp ''previousClose'' = canonical_value (is_previous_close st)"
    "dict_get ?cp ''previousStartedAt'' = PyStr (isoformat (utc t))" for d
    using ok by (simp_all add: mk_checkpoint_def dict_get_default_def dict_get_def state_ok_def last_n_def)
  have "parse_int (py_str (PyInt (is_count st))) = Some (is_count st)"
    using ok parse_int_nat_str [of "nat (is_count st)"] by (simp add: int_str_def state_ok_def)
  moreover have "parse_started fromiso (PyStr (isoformat (utc t))) = Inr (Some (utc t))"
    using fromiso by (simp add: parse_started_def is_falsy_def isoformat_nonempty)
  moreover obtain closes where "res_mapM (\<lambda>v. decimal_of_text (py_str v))
      (map (\<lambda>d. PyStr (canonical_text 50 d)) (is_closes st)) = Inr closes" "list_all2 veq (is_closes st) closes"
    using closes_canonical ok by (auto simp: state_ok_def)
  moreover obtain ema gain loss close where
    "ind_optional_decimal (canonical_value (is_ema st)) = Inr ema" "rel_option veq (is_ema st) ema"
    "ind_optional_decimal (canonical_value (is_gain st)) = Inr gain" "rel_option veq (is_gain st) gain"
    "ind_optional_decimal (canonical_value (is_loss st)) = Inr loss" "rel_option veq (is_loss st) loss"
    "ind_optional_decimal (canonical_value (is_previous_close st)) = Inr close" "rel_option veq (is_previous_close st) close"
    using optional_decimal_canonical [of "is_ema st"] optional_decimal_canonical [of "is_gain st"]
      optional_decimal_canonical [of "is_loss st"] optional_decimal_canonical [of "is_previous_close st"] ok
    by (auto simp: state_ok_def)
  ultimately show ?thesis
    unfolding load_checkpoint_def get using prev by (simp add: py_items_def st_rel_def)
qed

section \<open>Continuing a series\<close>

definition initial_ind_state :: ind_state where
  "initial_ind_state = \<lparr>is_closes = [], is_count = 0, is_ema = None, is_gain = None, is_loss = None,
     is_previous_close = None, is_previous_started_at = None\<rparr>"

lemma load_empty: "load_checkpoint fromiso [] = Inr initial_ind_state"
proof -
  have "parse_int (int_str 0) = Some 0" using parse_int_nat_str [of 0] by (simp add: int_str_def)
  then show ?thesis
    by (simp add: load_checkpoint_def dict_get_default_def dict_get_def py_items_def ind_optional_decimal_def
        parse_started_def is_falsy_def initial_ind_state_def)
qed

text \<open>What the candles of a series need: a close of at most 50 digits and a start that survives
  its text.\<close>

definition restorable :: "(string \<Rightarrow> datetime option) \<Rightarrow> candle_view \<Rightarrow> bool" where
  "restorable fromiso c \<longleftrightarrow> fits50 (cv_close c) \<and>
     fromiso (isoformat (utc (cv_started_at c))) = Some (utc (cv_started_at c))"

interpretation indicators: checkpointed_series "indicator_step unit" "indicator_loop unit" st_rel pt_rel state_ok
  "restorable fromiso" "\<lambda>p. load_checkpoint fromiso (ip_checkpoint_state p)" for unit fromiso
proof
  fix s c s' p
  assume "indicator_step unit s c = Inr (s', p)" "state_ok s" "restorable fromiso c"
  then show "state_ok s' \<and> (\<exists>t. load_checkpoint fromiso (ip_checkpoint_state p) = Inr t \<and> st_rel s' t)"
    using indicator_step_ok [of unit s c s' p] load_mk_checkpoint [of s' "cv_started_at c" fromiso]
    by (simp add: restorable_def)
qed (simp_all add: indicator_step_rel pt_rel_def)
section \<open>Runs of consecutive candles\<close>

definition follows :: "string \<Rightarrow> candle_view \<Rightarrow> candle_view \<Rightarrow> bool" where
  "follows unit c c' \<longleftrightarrow> (\<exists>d. next_bucket (utc (cv_started_at c)) unit = Inr d \<and> instant d = cv_started_at c')"

text \<open>The longest run of valid candles, each in the bucket after its predecessor, that ends with the
  latest candle; candles are listed latest first.\<close>

fun valid_run :: "string \<Rightarrow> candle_view list \<Rightarrow> candle_view list" where
  "valid_run unit [] = []"
| "valid_run unit (c # cs) =
     (if \<not> valid_candle c then []
      else c # (case cs of [] \<Rightarrow> [] | c' # _ \<Rightarrow> if follows unit c' c then valid_run unit cs else []))"

definition run_inv :: "candle_view list \<Rightarrow> ind_state \<Rightarrow> bool" where
  "run_inv run st \<longleftrightarrow> is_count st = int (length run) \<and> is_closes st = last_n 60 (rev (map cv_close run)) \<and>
     is_previous_close st = (case run of [] \<Rightarrow> None | c # _ \<Rightarrow> Some (cv_close c)) \<and>
     (is_ema st \<noteq> None \<longleftrightarrow> 20 \<le> length run) \<and> (is_gain st \<noteq> None \<longleftrightarrow> 15 \<le> length run) \<and>
     (is_loss st \<noteq> None \<longleftrightarrow> 15 \<le> length run) \<and>
     pred_option (\<lambda>d. 0 \<le> dec_val d) (is_gain st) \<and> pred_option (\<lambda>d. 0 \<le> dec_val d) (is_loss st)"

definition ready_at :: "nat \<Rightarrow> candle_view list \<Rightarrow> string" where
  "ready_at n run = (if run = [] then ''missing'' else if n \<le> length run then ''ready'' else ''warming_up'')"

text \<open>What a point says of the run that ends at its candle.\<close>

definition point_exact :: "candle_view \<Rightarrow> candle_view list \<Rightarrow> indicator_point \<Rightarrow> bool" where
  "point_exact c run pt \<longleftrightarrow> ip_started_at pt = cv_started_at c \<and>
     ip_statuses pt = [(''sma20'', ready_at 20 run), (''sma60'', ready_at 60 run), (''ema20'', ready_at 20 run),
       (''bollinger20'', ready_at 20 run), (''rsi14'', ready_at 15 run)] \<and>
     (\<forall>n\<in>{20, 60}. \<forall>k. k = (if n = 20 then ''sma20'' else ''sma60'') \<longrightarrow>
        (if n \<le> length run then \<exists>a. map_of (ip_values pt) k = Some (Some a) \<and>
           ind_average (rev (map cv_close (take n run))) = Inr a
         else map_of (ip_values pt) k = Some None)) \<and>
     (map_of (ip_values pt) ''rsi14'' = Some None \<longleftrightarrow> length run < 15) \<and>
     (map_of (ip_values pt) ''ema20'' = Some None \<longleftrightarrow> length run < 20) \<and>
     (map_of (ip_values pt) ''bollingerMiddle'' = map_of (ip_values pt) ''sma20'')"

definition point_bounded :: "indicator_point \<Rightarrow> bool" where
  "point_bounded pt \<longleftrightarrow>
     (\<forall>r. map_of (ip_values pt) ''rsi14'' = Some (Some r) \<longrightarrow> 0 \<le> dec_val r \<and> dec_val r \<le> 100) \<and>
     (\<forall>u m l. map_of (ip_values pt) ''bollingerUpper'' = Some (Some u) \<and>
        map_of (ip_values pt) ''bollingerMiddle'' = Some (Some m) \<and>
        map_of (ip_values pt) ''bollingerLower'' = Some (Some l) \<longrightarrow> dec_val l \<le> dec_val m \<and> dec_val m \<le> dec_val u)"

lemma last_n_last_n: "last_n n (last_n n xs @ [x]) = last_n n (xs @ [x])"
  by (cases "length xs < n") (auto simp: last_n_def Suc_diff_le)

lemma last_n_rev: "last_n n (rev xs) = rev (take n xs)"
  by (simp add: last_n_def rev_take)

lemma ind_div_total: "dec_val b \<noteq> 0 \<Longrightarrow> \<exists>c. ind_div a b = Inr c"
  using ctx50.div_total [of b a] by (auto simp: ind_div_def)

lemma ind_div_rounds: "ind_div a b = Inr c \<Longrightarrow> rounds_to 50 (dec_val a / dec_val b) (dec_val c)"
  using ctx50.div_rounds [of a b c] by (simp add: ind_div_def split: sum.splits)

lemma ind_div_nonneg: "ind_div a b = Inr c \<Longrightarrow> 0 \<le> dec_val a \<Longrightarrow> 0 \<le> dec_val b \<Longrightarrow> 0 \<le> dec_val c"
  using ctx50.div_nonneg [of a b c] by (simp add: ind_div_def split: sum.splits)

lemma ind_average_total: "xs \<noteq> [] \<Longrightarrow> \<exists>a. ind_average xs = Inr a"
  unfolding ind_average_def by (rule ind_div_total) simp

lemma ind_average_nonneg: "ind_average xs = Inr a \<Longrightarrow> \<forall>x\<in>set xs. 0 \<le> dec_val x \<Longrightarrow> 0 \<le> dec_val a"
  unfolding ind_average_def by (erule ind_div_nonneg) (simp_all add: dec_sum_sign)

lemma dec_max_zero_nonneg: "0 \<le> dec_val (dec_max dec_zero x)"
  by (simp add: dec_max_def dec_lt_def)

lemma close_changes_total:
  assumes "15 \<le> length closes"
  shows "\<exists>changes. close_changes closes = Inr changes \<and> changes \<noteq> []"
proof -
  have "length (butlast (last_n 15 closes)) = 14" "length (last_n 14 closes) = 14"
    using assms by (simp_all add: last_n_def)
  moreover from this have "butlast (last_n 15 closes) \<noteq> []" "last_n 14 closes \<noteq> []"
    by (metis list.size(3) zero_neq_numeral)+
  ultimately show ?thesis by (simp add: close_changes_def Let_def)
qed

lemma next_averages_run:
  assumes g: "g \<noteq> None \<longleftrightarrow> 15 \<le> k" and l: "l \<noteq> None \<longleftrightarrow> 15 \<le> k"
    and nn: "pred_option (\<lambda>d. 0 \<le> dec_val d) g" "pred_option (\<lambda>d. 0 \<le> dec_val d) l"
    and p: "p \<noteq> None \<longleftrightarrow> 0 < k" and len: "min 60 (Suc k) \<le> length closes"
  shows "\<exists>v. next_averages (int k + 1) closes p c g l = Inr v \<and>
    (fst v \<noteq> None \<longleftrightarrow> 15 \<le> Suc k) \<and> (snd v \<noteq> None \<longleftrightarrow> 15 \<le> Suc k) \<and>
    pred_option (\<lambda>d. 0 \<le> dec_val d) (fst v) \<and> pred_option (\<lambda>d. 0 \<le> dec_val d) (snd v)"
proof -
  consider "k < 14" | "k = 14" | "15 \<le> k" by linarith
  then show ?thesis
  proof cases
    case 1
    then have "g = None" "l = None" using g l by auto
    then show ?thesis using 1 by (cases p) (auto simp: next_averages_def Let_def)
  next
    case 2
    then obtain q where q: "p = Some q" using p by auto
    obtain ch where ch: "close_changes closes = Inr ch" "ch \<noteq> []" using close_changes_total len 2 by auto
    obtain a where a: "ind_average (map (\<lambda>v. dec_max dec_zero v) ch) = Inr a" using ind_average_total ch(2) by blast
    obtain b where b: "ind_average (map (\<lambda>v. dec_max dec_zero (dec_neg 50 v)) ch) = Inr b"
      using ind_average_total ch(2) by blast
    have "0 \<le> dec_val a" "0 \<le> dec_val b"
      using ind_average_nonneg [OF a] ind_average_nonneg [OF b] by (simp_all add: dec_max_zero_nonneg)
    then show ?thesis using 2 q ch a b by (simp add: next_averages_def Let_def)
  next
    case 3
    then obtain q x y where q: "p = Some q" "g = Some x" "l = Some y" using p g l by auto
    have wilder: "\<exists>z. wilder x' h = Inr z \<and> 0 \<le> dec_val z" if "0 \<le> dec_val x'" "0 \<le> dec_val h" for x' h
    proof -
      obtain z where z: "wilder x' h = Inr z"
        using ind_div_total [of "dec_of_int 14"] by (auto simp: wilder_def)
      moreover have "0 \<le> dec_val z"
        using that z unfolding wilder_def
        by (intro ind_div_nonneg [OF z [unfolded wilder_def]] ctx50.add_nonneg ctx50.mul_nonneg) simp_all
      ultimately show ?thesis by blast
    qed
    obtain x' where x': "wilder x (dec_max dec_zero (dec_sub 50 c q)) = Inr x'" "0 \<le> dec_val x'"
      using wilder nn q by (metis dec_max_zero_nonneg option.pred_inject(2))
    obtain y' where y': "wilder y (dec_max dec_zero (dec_sub 50 q c)) = Inr y'" "0 \<le> dec_val y'"
      using wilder nn q by (metis dec_max_zero_nonneg option.pred_inject(2))
    show ?thesis using 3 q x' y' by (simp add: next_averages_def Let_def)
  qed
qed

lemma ind_rsi_bounds:
  assumes "g \<noteq> None \<longleftrightarrow> l \<noteq> None" "pred_option (\<lambda>d. 0 \<le> dec_val d) g" "pred_option (\<lambda>d. 0 \<le> dec_val d) l"
  shows "\<exists>r. ind_rsi g l = Inr r \<and> (r = None \<longleftrightarrow> g = None) \<and> (\<forall>d. r = Some d \<longrightarrow> 0 \<le> dec_val d \<and> dec_val d \<le> 100)"
proof (cases "\<exists>x y. g = Some x \<and> l = Some y \<and> dec_val x \<noteq> 0 \<and> dec_val y \<noteq> 0")
  case True
  then obtain x y where xy: "g = Some x" "l = Some y" "0 < dec_val x" "0 < dec_val y"
    using assms(2,3) by (auto simp: less_le)
  obtain ratio where ratio: "ind_div x y = Inr ratio" using ind_div_total [of y x] xy by auto
  then have "0 \<le> dec_val ratio" using ind_div_nonneg xy by (simp add: less_imp_le)
  moreover have one: "representable 50 1" and hundred: "representable 50 100"
    using coeff_representable [of "Dec False 1 0" 50] coeff_representable [of "Dec False 100 0" 50] by simp_all
  ultimately have denom: "1 \<le> dec_val (dec_add 50 (dec_of_int 1) ratio)"
    using ctx50.rounds_ge [OF ctx50.add_rounds one, of "dec_of_int 1" ratio] by simp
  then obtain q where q: "ind_div (dec_of_int 100) (dec_add 50 (dec_of_int 1) ratio) = Inr q"
    using ind_div_total [of "dec_add 50 (dec_of_int 1) ratio"] by fastforce
  have "100 / dec_val (dec_add 50 (dec_of_int 1) ratio) \<le> 100" using denom by (simp add: divide_simps)
  then have "0 \<le> dec_val q" "dec_val q \<le> 100"
    using ind_div_nonneg [OF q] ctx50.rounds_le [OF ind_div_rounds [OF q] hundred] denom by simp_all
  then have "0 \<le> dec_val (dec_sub 50 (dec_of_int 100) q)" "dec_val (dec_sub 50 (dec_of_int 100) q) \<le> 100"
    using ctx50.sub_nonneg [of q "dec_of_int 100"] ctx50.sub_le [of q "dec_of_int 100"] hundred by simp_all
  then show ?thesis using xy ratio q by (simp add: ind_rsi_def dec_eq_def)
qed (use assms in \<open>cases g; cases l; auto simp: ind_rsi_def dec_eq_def\<close>)

lemma bollinger_bounds:
  assumes "\<forall>m. s = Some m \<longrightarrow> fits50 m" and "s \<noteq> None \<longrightarrow> closes \<noteq> []"
  shows "\<exists>u m l. bollinger s closes = Inr (u, m, l) \<and> m = s \<and>
    (\<forall>x y z. u = Some x \<and> m = Some y \<and> l = Some z \<longrightarrow> dec_val z \<le> dec_val y \<and> dec_val y \<le> dec_val x)"
proof (cases s)
  case (Some m)
  let ?sq = "map (\<lambda>item. dec_square 50 (dec_sub 50 item m)) (last_n 20 closes)"
  have "length closes - 20 < length closes" using assms(2) Some by simp
  then have "?sq \<noteq> []" by (simp add: last_n_def)
  then obtain v where v: "ind_average ?sq = Inr v" using ind_average_total by blast
  then have "0 \<le> dec_val v" by (rule ind_average_nonneg) (simp add: dec_square_nonneg)
  then obtain d where d: "ind_sqrt v = Inr d" "0 \<le> dec_val d"
    using dec_sqrt_nonneg [of 50 v] by (auto simp: ind_sqrt_def)
  let ?w = "dec_mul 50 (dec_of_int 2) d"
  have "0 \<le> dec_val ?w" using d by (simp add: ctx50.mul_nonneg)
  moreover have rep: "representable 50 (dec_val m)" using assms(1) Some by (simp add: fits50_def)
  ultimately have "dec_val (dec_sub 50 m ?w) \<le> dec_val m" "dec_val m \<le> dec_val (dec_add 50 m ?w)"
    using ctx50.sub_le ctx50.rounds_ge [OF ctx50.add_rounds rep, of m ?w] by simp_all
  then show ?thesis using Some v d by (simp add: bollinger_def)
qed (simp add: bollinger_def)
lemma next_ema_run:
  assumes e: "e \<noteq> None \<longleftrightarrow> 20 \<le> k" and s: "s = None \<longleftrightarrow> Suc k < 20"
  shows "\<exists>v. next_ema (int k + 1) s e c = Inr v \<and> (v \<noteq> None \<longleftrightarrow> 20 \<le> Suc k)"
proof -
  consider "k < 19" | "k = 19" | "20 \<le> k" by linarith
  then show ?thesis
  proof cases
    case 3
    then obtain x where x: "e = Some x" using e by auto
    obtain d where "ind_div (dec_mul 50 (dec_sub 50 c x) (dec_of_int 2)) (dec_of_int 21) = Inr d"
      using ind_div_total [of "dec_of_int 21"] by auto
    then show ?thesis using 3 x by (simp add: next_ema_def)
  qed (use e s in \<open>simp_all add: next_ema_def\<close>)
qed

lemma advance_run:
  assumes inv: "run_inv run st"
  shows "\<exists>st' pt. advance st c = Inr (st', pt) \<and> run_inv (c # run) st' \<and>
    is_previous_started_at st' = Some (utc (cv_started_at c)) \<and> point_exact c (c # run) pt \<and> point_bounded pt"
proof -
  define k where "k = length run"
  define closes where "closes = last_n 60 (is_closes st @ [cv_close c])"
  have cl: "closes = last_n 60 (rev (map cv_close (c # run)))"
    using inv by (simp add: run_inv_def closes_def last_n_last_n)
  have cnt: "is_count st + 1 = int k + 1" using inv by (simp add: run_inv_def k_def)
  have len: "length closes = min 60 (Suc k)" "closes \<noteq> []" by (auto simp: cl k_def last_n_def)
  have recent: "last_n n closes = rev (map cv_close (take n (c # run)))" if "n \<le> 60" for n
    using that by (simp add: cl last_n_rev min_absorb1 del: rev.simps list.map flip: take_map)
  have sma: "\<exists>v. ind_sma n (int k + 1) closes = Inr v \<and> (v = None \<longleftrightarrow> Suc k < n) \<and> (\<forall>m. v = Some m \<longrightarrow> fits50 m) \<and>
      (\<forall>a. v = Some a \<longrightarrow> ind_average (rev (map cv_close (take n (c # run)))) = Inr a)" if n: "0 < n" "n \<le> 60" for n
  proof (cases "Suc k < n")
    case False
    have "rev (map cv_close (take n (c # run))) \<noteq> []" using n by (simp add: take_Cons')
    then obtain a where a: "ind_average (rev (map cv_close (take n (c # run)))) = Inr a"
      using ind_average_total by blast
    then show ?thesis
      using False n recent [OF n(2)] ind_average_fits [OF a] by (simp add: ind_sma_def)
  qed (simp add: ind_sma_def)
  obtain s20 where s20: "ind_sma 20 (int k + 1) closes = Inr s20" "s20 = None \<longleftrightarrow> Suc k < 20" "\<forall>m. s20 = Some m \<longrightarrow> fits50 m"
    "\<forall>a. s20 = Some a \<longrightarrow> ind_average (rev (map cv_close (take 20 (c # run)))) = Inr a"
    using sma [of 20] by auto
  obtain s60 where s60: "ind_sma 60 (int k + 1) closes = Inr s60" "s60 = None \<longleftrightarrow> Suc k < 60"
    "\<forall>a. s60 = Some a \<longrightarrow> ind_average (rev (map cv_close (take 60 (c # run)))) = Inr a"
    using sma [of 60] by auto
  have "is_ema st \<noteq> None \<longleftrightarrow> 20 \<le> k" using inv by (simp add: run_inv_def k_def)
  then obtain ema where ema: "next_ema (int k + 1) s20 (is_ema st) (cv_close c) = Inr ema" "ema \<noteq> None \<longleftrightarrow> 20 \<le> Suc k"
    using next_ema_run [OF _ s20(2), of "is_ema st" "cv_close c"] by blast
  have prev: "is_previous_close st \<noteq> None \<longleftrightarrow> 0 < k" using inv by (cases run) (auto simp: run_inv_def k_def)
  obtain av where av: "next_averages (int k + 1) closes (is_previous_close st) (cv_close c) (is_gain st) (is_loss st) = Inr av"
      "fst av \<noteq> None \<longleftrightarrow> 15 \<le> Suc k" "snd av \<noteq> None \<longleftrightarrow> 15 \<le> Suc k"
      "pred_option (\<lambda>d. 0 \<le> dec_val d) (fst av)" "pred_option (\<lambda>d. 0 \<le> dec_val d) (snd av)"
    using next_averages_run [of "is_gain st" k "is_loss st" "is_previous_close st" closes "cv_close c"] inv prev len(1)
    by (auto simp: run_inv_def k_def [symmetric])
  obtain rsi where rsi: "ind_rsi (fst av) (snd av) = Inr rsi" "rsi = None \<longleftrightarrow> fst av = None"
      "\<forall>d. rsi = Some d \<longrightarrow> 0 \<le> dec_val d \<and> dec_val d \<le> 100"
    using ind_rsi_bounds [of "fst av" "snd av"] av by auto
  obtain u m l where bands: "bollinger s20 closes = Inr (u, m, l)" "m = s20"
      "\<forall>x y z. u = Some x \<and> m = Some y \<and> l = Some z \<longrightarrow> dec_val z \<le> dec_val y \<and> dec_val y \<le> dec_val x"
    using bollinger_bounds [OF s20(3)] len(2) by blast
  define st' where "st' = \<lparr>is_closes = closes, is_count = int k + 1, is_ema = ema, is_gain = fst av, is_loss = snd av,
    is_previous_close = Some (cv_close c), is_previous_started_at = Some (utc (cv_started_at c))\<rparr>"
  define pt where "pt = ready_point c st' s20 s60 (u, m, l) rsi"
  have adv: "advance st c = Inr (st', pt)"
    unfolding advance_def Let_def cnt closes_def [symmetric]
    using s20(1) s60(1) ema(1) av(1) rsi(1) bands(1) by (simp add: st'_def pt_def)
  have vals: "ip_values pt = [(''sma20'', s20), (''sma60'', s60), (''ema20'', ema), (''bollingerUpper'', u),
      (''bollingerMiddle'', s20), (''bollingerLower'', l), (''rsi14'', rsi)]"
    by (simp add: pt_def ready_point_def mk_point_def st'_def bands(2))
  have bounded: "point_bounded pt" using rsi(3) bands(2,3) by (auto simp: point_bounded_def vals)
  have status: "ready_if s20 = ready_at 20 (c # run)" "ready_if s60 = ready_at 60 (c # run)"
    "ready_if ema = ready_at 20 (c # run)" "ready_if rsi = ready_at 15 (c # run)"
    using s20(2) s60(2) ema(2) rsi(2) av(2) by (auto simp: ready_if_def ready_at_def k_def)
  have "ip_started_at pt = cv_started_at c" by (simp add: pt_def ready_point_def mk_point_def)
  moreover have "ip_statuses pt = [(''sma20'', ready_at 20 (c # run)), (''sma60'', ready_at 60 (c # run)),
      (''ema20'', ready_at 20 (c # run)), (''bollinger20'', ready_at 20 (c # run)), (''rsi14'', ready_at 15 (c # run))]"
    by (simp add: pt_def ready_point_def mk_point_def st'_def bands(2) status)
  ultimately have exact: "point_exact c (c # run) pt"
    using s20(2,4) s60(2,3) ema(2) rsi(2) av(2) unfolding point_exact_def vals
    by (auto simp: k_def [symmetric] not_less)
  have "run_inv (c # run) st'"
    using ema(2) av(2-5) by (simp add: run_inv_def st'_def cl k_def)
  then show ?thesis using adv exact bounded by (simp add: st'_def)
qed
text \<open>Every unit has a next bucket; a month only from a day that every month has.\<close>

definition buckets_ok :: "string \<Rightarrow> candle_view list \<Rightarrow> bool" where
  "buckets_ok unit candles \<longleftrightarrow> unit \<in> set AGGREGATION_UNITS \<and>
     (unit = ''1M'' \<longrightarrow> (\<forall>c\<in>set candles. dt_day (cv_started_at c) = 1))"

lemma next_bucket_total:
  assumes "buckets_ok unit candles" "c \<in> set candles"
  shows "\<exists>d. next_bucket (utc (cv_started_at c)) unit = Inr d \<and> is_aware d"
proof (cases "unit = ''1M''")
  case True
  have "1 \<le> days_in_month y m" for y m using days_in_month_pos(1) [of y m] by simp
  then show ?thesis
    using True assms by (auto simp: next_bucket_def Let_def ind_replace_month_def replace_month_def buckets_ok_def
        utc_def is_aware_def)
next
  case False
  then have "unit \<in> {''1m'', ''3m'', ''5m'', ''10m'', ''15m'', ''30m'', ''1h'', ''4h'', ''1d'', ''1w''}"
    using assms(1) by (auto simp: buckets_ok_def AGGREGATION_UNITS_def)
  then have "\<exists>w. map_of next_bucket_durations unit = Some w"
    by (auto simp: next_bucket_durations_def)
  then show ?thesis using False by (auto simp: next_bucket_def Let_def utc_def is_aware_def)
qed

lemma is_gap_follows:
  assumes ok: "buckets_ok unit candles" "set rcs \<subseteq> set candles"
  shows "is_gap unit (case rcs of [] \<Rightarrow> None | c' # _ \<Rightarrow> Some (utc (cv_started_at c'))) (cv_started_at c) =
    Inr (case rcs of [] \<Rightarrow> False | c' # _ \<Rightarrow> \<not> follows unit c' c)"
proof (cases rcs)
  case (Cons c' cs)
  then obtain d where "next_bucket (utc (cv_started_at c')) unit = Inr d" "is_aware d"
    using next_bucket_total [OF ok(1), of c'] ok(2) by auto
  then show ?thesis using Cons by (simp add: is_gap_def follows_def)
qed (simp add: is_gap_def)

lemma distinct_sort_key: "distinct (map f xs) \<Longrightarrow> distinct (map f (sort_key f xs))"
  by (metis distinct_sort distinct_map mset_map mset_sort mset_eq_imp_distinct_iff)

lemma indicator_step_run:
  assumes inv: "run_inv (valid_run unit rcs) st"
    and prev: "is_previous_started_at st = (case rcs of [] \<Rightarrow> None | c' # _ \<Rightarrow> Some (utc (cv_started_at c')))"
    and ok: "buckets_ok unit candles" "set rcs \<subseteq> set candles"
  shows "\<exists>st' pt. indicator_step unit st c = Inr (st', pt) \<and> run_inv (valid_run unit (c # rcs)) st' \<and>
    is_previous_started_at st' = Some (utc (cv_started_at c)) \<and>
    point_exact c (valid_run unit (c # rcs)) pt \<and> point_bounded pt"
proof -
  have reset: "run_inv [] (reset_state s)" "run_inv [] ((reset_state s)\<lparr>is_previous_started_at := d\<rparr>)" for s d
    by (simp_all add: run_inv_def reset_state_def last_n_def)
  have gap: "is_gap unit (is_previous_started_at st) (cv_started_at c) =
      Inr (case rcs of [] \<Rightarrow> False | c' # _ \<Rightarrow> \<not> follows unit c' c)"
    unfolding prev by (rule is_gap_follows [OF ok])
  show ?thesis
  proof (cases "valid_candle c")
    case False
    have "point_exact c [] (missing_point c cp)" "point_bounded (missing_point c cp)" for cp
      by (simp_all add: point_exact_def point_bounded_def missing_point_def mk_point_def ready_at_def
          INDICATOR_DEFINITION_VERSIONS_def)
    then show ?thesis using False gap reset by (simp add: indicator_step_def Let_def)
  next
    case True
    define st1 where "st1 = (if (case rcs of [] \<Rightarrow> False | c' # _ \<Rightarrow> \<not> follows unit c' c) then reset_state st else st)"
    define tail where "tail = (case rcs of [] \<Rightarrow> [] | c' # _ \<Rightarrow> if follows unit c' c then valid_run unit rcs else [])"
    have "run_inv tail st1"
      using inv reset by (cases rcs) (simp_all add: st1_def tail_def)
    moreover have "valid_run unit (c # rcs) = c # tail" using True by (simp add: tail_def)
    moreover have "indicator_step unit st c = advance st1 c"
      using True by (simp add: indicator_step_def Let_def gap st1_def)
    ultimately show ?thesis using advance_run [of tail st1 c] by simp
  qed
qed

lemma indicator_loop_run:
  assumes "run_inv (valid_run unit rcs) st"
    and "is_previous_started_at st = (case rcs of [] \<Rightarrow> None | c' # _ \<Rightarrow> Some (utc (cv_started_at c')))"
    and "buckets_ok unit candles" "set rcs \<union> set cs \<subseteq> set candles"
  shows "\<exists>st' pts. indicator_loop unit st cs = Inr (st', pts) \<and> length pts = length cs \<and>
    (\<forall>i<length cs. point_exact (cs ! i) (valid_run unit (rev (take (Suc i) cs) @ rcs)) (pts ! i) \<and> point_bounded (pts ! i))"
  using assms
proof (induction cs arbitrary: rcs st)
  case (Cons c cs)
  obtain s p where step: "indicator_step unit st c = Inr (s, p)" "run_inv (valid_run unit (c # rcs)) s"
      "is_previous_started_at s = Some (utc (cv_started_at c))"
      "point_exact c (valid_run unit (c # rcs)) p" "point_bounded p"
    using indicator_step_run [OF Cons.prems(1-3), of c] Cons.prems(4) by auto
  obtain st' pts where rest: "indicator_loop unit s cs = Inr (st', pts)" "length pts = length cs"
      "\<forall>i<length cs. point_exact (cs ! i) (valid_run unit (rev (take (Suc i) cs) @ (c # rcs))) (pts ! i) \<and> point_bounded (pts ! i)"
    using Cons.IH [OF step(2) _ Cons.prems(3)] step(3) Cons.prems(4) by auto
  have "point_exact ((c # cs) ! i) (valid_run unit (rev (take (Suc i) (c # cs)) @ rcs)) ((p # pts) ! i) \<and>
      point_bounded ((p # pts) ! i)" if "i < length (c # cs)" for i
    using that step(4,5) rest(3) by (cases i) simp_all
  then show ?case using step(1) rest by simp
qed simp

lemma calculate_indicator_run:
  assumes ok: "buckets_ok unit candles" and dist: "distinct (map cv_started_at candles)"
  shows "\<exists>pts. calculate_indicator_series fromiso candles None unit None = Inr pts \<and> length pts = length candles \<and>
    (\<forall>i<length candles. point_exact (sort_key cv_started_at candles ! i)
       (valid_run unit (rev (take (Suc i) (sort_key cv_started_at candles)))) (pts ! i) \<and> point_bounded (pts ! i))"
proof -
  let ?o = "sort_key cv_started_at candles"
  have "run_inv [] initial_ind_state" by (simp add: run_inv_def initial_ind_state_def last_n_def)
  then obtain st' pts where "indicator_loop unit initial_ind_state ?o = Inr (st', pts)" "length pts = length ?o"
      "\<forall>i<length ?o. point_exact (?o ! i) (valid_run unit (rev (take (Suc i) ?o) @ [])) (pts ! i) \<and> point_bounded (pts ! i)"
    using indicator_loop_run [of unit "[]" initial_ind_state candles ?o] ok by (auto simp: initial_ind_state_def)
  moreover have "distinct (map cv_started_at ?o)"
    using distinct_sort_key [OF dist] .
  ultimately show ?thesis by (simp add: calculate_indicator_series_def Let_def load_empty)
qed

text \<open>C34. On candles with distinct starts of a known unit the computation always returns one point per
  candle, in order of time, and each point describes the longest run of available, complete and consecutive
  candles that ends at its candle: the moving averages are those of the last 20 and 60 closes of the run,
  each indicator is ready exactly when the run is long enough (20, 60, 20, 20 and 15 candles), is warming up
  before, and everything is missing when the candle itself is not usable.\<close>

theorem indicator_series_exact:
  assumes "buckets_ok unit candles" and "distinct (map cv_started_at candles)"
  shows "\<exists>pts. calculate_indicator_series fromiso candles None unit None = Inr pts \<and> length pts = length candles \<and>
    (\<forall>i<length candles. point_exact (sort_key cv_started_at candles ! i)
       (valid_run unit (rev (take (Suc i) (sort_key cv_started_at candles)))) (pts ! i))"
  using calculate_indicator_run [OF assms] by blast

text \<open>Every computed index lies between 0 and 100 and the Bollinger bands enclose their middle,
  whatever the rounding to 50 digits does.\<close>

theorem indicator_series_bounded:
  assumes "buckets_ok unit candles" and "distinct (map cv_started_at candles)"
    and "calculate_indicator_series fromiso candles None unit None = Inr pts" and "pt \<in> set pts"
  shows "point_bounded pt"
  using calculate_indicator_run [OF assms(1,2), of fromiso] assms(3,4) by (auto simp: in_set_conv_nth)
section \<open>Examples\<close>

definition example_view :: "int \<Rightarrow> int \<Rightarrow> candle_view" where
  "example_view t price =
     \<lparr>cv_started_at = t, cv_open = dec_of_int price, cv_high = dec_of_int price, cv_low = dec_of_int price,
      cv_close = dec_of_int price, cv_volume = dec_of_int 1, cv_trade_amount = dec_of_int price,
      cv_completeness = ''complete'', cv_calculation_version = CALCULATION_VERSION, cv_source_as_of = Some t,
      cv_knowledge_at = Some t, cv_input_content_hash = '''', cv_quality = ''available'', cv_input_revision_ids = [1],
      cv_rollup_id = None, cv_source_revision_through_id = 1, cv_quality_event_through_id = None,
      cv_coverage_snapshot_hash = ''''\<rparr>"

abbreviation "example_views \<equiv> [example_view minute_us 7, example_view 0 5]"

definition example_fromiso :: "string \<Rightarrow> datetime option" where
  "example_fromiso s = find (\<lambda>d. isoformat d = s) [utc 0, utc minute_us]"

lemma example_iso: "t \<in> {0, minute_us} \<Longrightarrow> example_fromiso (isoformat (utc t)) = Some (utc t)"
proof -
  have "isoformat (utc 0) \<noteq> isoformat (utc minute_us)" by code_simp
  then show "t \<in> {0, minute_us} \<Longrightarrow> ?thesis" by (auto simp: example_fromiso_def)
qed

lemma example_views_ok: "buckets_ok ''1m'' example_views" "distinct (map cv_started_at example_views)"
  by (simp_all add: buckets_ok_def AGGREGATION_UNITS_def example_view_def minute_us_value)

lemma example_views_restorable: "\<forall>c\<in>set example_views. restorable example_fromiso c"
  using coeff_representable [of "Dec False 7 0" 50] coeff_representable [of "Dec False 5 0" 50] example_iso
  by (simp add: example_view_def fits50_def restorable_def)


theorem indicator_series_exact_witness:
  "\<exists>pts. calculate_indicator_series example_fromiso example_views None ''1m'' None = Inr pts \<and> length pts = 2 \<and>
    point_exact (sort_key cv_started_at example_views ! 1)
      (valid_run ''1m'' (rev (take 2 (sort_key cv_started_at example_views)))) (pts ! 1)"
proof -
  obtain pts where p: "calculate_indicator_series example_fromiso example_views None ''1m'' None = Inr pts"
      "length pts = length example_views"
      "\<forall>i<length example_views. point_exact (sort_key cv_started_at example_views ! i)
         (valid_run ''1m'' (rev (take (Suc i) (sort_key cv_started_at example_views)))) (pts ! i)"
    using indicator_series_exact [OF example_views_ok, of example_fromiso] by (elim exE conjE)
  have "point_exact (sort_key cv_started_at example_views ! 1)
      (valid_run ''1m'' (rev (take (Suc 1) (sort_key cv_started_at example_views)))) (pts ! 1)"
    by (rule p(3) [rule_format]) simp
  moreover have "Suc 1 = (2::nat)" "length example_views = 2" by simp_all
  ultimately show ?thesis using p(1,2) by (intro exI [of _ pts] conjI) (simp_all only:)
qed

theorem indicator_series_bounded_witness:
  "\<exists>pts. calculate_indicator_series example_fromiso example_views None ''1m'' None = Inr pts \<and> pts \<noteq> [] \<and>
    point_bounded (hd pts)"
proof -
  obtain pts where p: "calculate_indicator_series example_fromiso example_views None ''1m'' None = Inr pts"
      "length pts = length example_views"
    using calculate_indicator_run [OF example_views_ok] by blast
  then have "pts \<noteq> []" by auto
  then show ?thesis using indicator_series_bounded [OF example_views_ok p(1)] p(1) by simp
qed

end
