(* ===== verification/Market_Statistics.thy ===== *)
theory Market_Statistics
  imports Indicators
begin

text \<open>
  Market statistics (\<^verbatim>\<open>versioned_market_statistics.py\<close>): the return of each close over the previous one and the
  realised volatility of the last twenty returns, in a context of 50 digits, with the checkpoint from
  which a later run continues and a content hash. The buckets, the text of decimals and the reading of a
  checkpoint are those of the indicators; the hashed text is ASCII, so \<^verbatim>\<open>ensure_ascii\<close> makes no difference.
\<close>

section \<open>Points\<close>

record statistic_point =
  sp_started_at :: int
  sp_close_return_1 :: "dec option"
  sp_realized_volatility_20 :: "dec option"
  sp_trade_volume :: "dec option"
  sp_trade_amount :: "dec option"
  sp_volatility_sample_count :: nat
  sp_input_completeness_ratio :: dec
  sp_return_status :: string
  sp_volatility_status :: string
  sp_trade_status :: string
  sp_current_input_id :: "int option"
  sp_current_input_is_rollup :: bool
  sp_source_revision_through_id :: int
  sp_quality_event_through_id :: "int option"
  sp_source_as_of :: "int option"
  sp_knowledge_at :: "int option"
  sp_content_hash :: string
  sp_checkpoint_state :: checkpoint

record stat_state =
  ss_previous_close :: "dec option"
  ss_previous_started_at :: "datetime option"
  ss_returns :: "dec list"

definition stat_checkpoint :: "dec option \<Rightarrow> int \<Rightarrow> dec list \<Rightarrow> int option \<Rightarrow> checkpoint" where
  "stat_checkpoint previous_close previous_started_at returns source_as_of =
     [(''previousClose'', canonical_value previous_close),
      (''previousStartedAt'', PyStr (isoformat (utc previous_started_at))),
      (''recentReturns'', PyList (map (\<lambda>d. PyStr (canonical_text 50 d)) (last_n 20 returns))),
      (''sourceAsOf'', case source_as_of of None \<Rightarrow> PyNone | Some t \<Rightarrow> PyStr (isoformat (utc t)))]"

definition stat_payload ::
  "candle_view \<Rightarrow> dec option \<Rightarrow> dec option \<Rightarrow> nat \<Rightarrow> string \<Rightarrow> string \<Rightarrow> string \<Rightarrow> checkpoint \<Rightarrow> py_value" where
  "stat_payload candle close_return volatility sample return_status volatility_status trade_status cp = PyDict
     [(''closeReturn1'', canonical_value close_return),
      (''realizedVolatility20'', canonical_value volatility),
      (''tradeVolume'', if trade_status = ''ready'' then canonical_value (Some (cv_volume candle)) else PyNone),
      (''tradeAmount'', if trade_status = ''ready'' then canonical_value (Some (cv_trade_amount candle)) else PyNone),
      (''sample'', PyInt (int sample)),
      (''statuses'', PyList [PyStr return_status, PyStr volatility_status, PyStr trade_status]),
      (''checkpoint'', PyDict cp)]"

definition stat_content_hash :: "py_value \<Rightarrow> ind_error + string" where
  "stat_content_hash v = res_map (\<lambda>j. sha256_hex (json_dumps j)) (json_encode Ind_NotIterable v)"

definition stat_point ::
  "candle_view \<Rightarrow> dec option \<Rightarrow> dec option \<Rightarrow> nat \<Rightarrow> string \<Rightarrow> string \<Rightarrow> string \<Rightarrow> checkpoint \<Rightarrow> ind_error + statistic_point" where
  "stat_point candle close_return volatility sample return_status volatility_status trade_status cp =
     res_bind (stat_content_hash
       (stat_payload candle close_return volatility sample return_status volatility_status trade_status cp)) (\<lambda>content_hash.
     res_bind (ind_div (dec_of_int (int sample)) (dec_of_int 20)) (\<lambda>ratio.
     Inr \<lparr>sp_started_at = cv_started_at candle, sp_close_return_1 = close_return,
          sp_realized_volatility_20 = volatility,
          sp_trade_volume = (if trade_status = ''ready'' then Some (cv_volume candle) else None),
          sp_trade_amount = (if trade_status = ''ready'' then Some (cv_trade_amount candle) else None),
          sp_volatility_sample_count = sample, sp_input_completeness_ratio = ratio,
          sp_return_status = return_status, sp_volatility_status = volatility_status, sp_trade_status = trade_status,
          sp_current_input_id =
            (case cv_rollup_id candle of Some i \<Rightarrow> if i \<noteq> 0 then Some i else fold_first max (cv_input_revision_ids candle)
             | None \<Rightarrow> fold_first max (cv_input_revision_ids candle)),
          sp_current_input_is_rollup = (cv_rollup_id candle \<noteq> None),
          sp_source_revision_through_id = cv_source_revision_through_id candle,
          sp_quality_event_through_id = cv_quality_event_through_id candle,
          sp_source_as_of = cv_source_as_of candle, sp_knowledge_at = cv_knowledge_at candle,
          sp_content_hash = content_hash, sp_checkpoint_state = cp\<rparr>))"

section \<open>The loop\<close>

definition close_return :: "dec option \<Rightarrow> dec \<Rightarrow> ind_error + dec option" where
  "close_return previous close =
     (case previous of None \<Rightarrow> Inr None
      | Some p \<Rightarrow> if dec_eq p dec_zero then Inr None
                  else res_map (\<lambda>q. Some (dec_sub 50 q (dec_of_int 1))) (ind_div close p))"

definition volatility_of :: "dec list \<Rightarrow> ind_error + dec" where
  "volatility_of window =
     res_bind (ind_div (dec_sum 50 window) (dec_of_int 20)) (\<lambda>mean.
     res_bind (ind_div (dec_sum 50 (map (\<lambda>v. dec_square 50 (dec_sub 50 v mean)) window)) (dec_of_int 20)) (\<lambda>variance.
     ind_sqrt variance))"

definition append_return :: "dec list \<Rightarrow> dec option \<Rightarrow> dec list" where
  "append_return returns ret = (case ret of None \<Rightarrow> returns | Some r \<Rightarrow> last_n 20 (returns @ [r]))"

definition stat_volatility :: "dec list \<Rightarrow> ind_error + dec option" where
  "stat_volatility returns =
     (if min (length returns) 20 = 20 then res_map Some (volatility_of (last_n 20 returns)) else Inr None)"

definition stat_advance :: "candle_view \<Rightarrow> dec option \<Rightarrow> dec list \<Rightarrow> ind_error + stat_state \<times> statistic_point" where
  "stat_advance candle previous returns0 =
     res_bind (close_return previous (cv_close candle)) (\<lambda>ret.
     let returns = append_return returns0 ret in
     res_bind (stat_volatility returns) (\<lambda>volatility.
     res_map (Pair \<lparr>ss_previous_close = Some (cv_close candle),
                    ss_previous_started_at = Some (utc (cv_started_at candle)), ss_returns = returns\<rparr>)
       (stat_point candle ret volatility (min (length returns) 20) (ready_if ret) (ready_if volatility) ''ready''
         (stat_checkpoint (Some (cv_close candle)) (cv_started_at candle) returns (cv_source_as_of candle)))))"

definition stat_missing :: "candle_view \<Rightarrow> ind_error + stat_state \<times> statistic_point" where
  "stat_missing candle =
     res_map (Pair \<lparr>ss_previous_close = None, ss_previous_started_at = Some (utc (cv_started_at candle)), ss_returns = []\<rparr>)
       (stat_point candle None None 0 ''missing'' ''missing'' ''missing''
         (stat_checkpoint None (cv_started_at candle) [] (cv_source_as_of candle)))"

definition stat_step :: "string \<Rightarrow> stat_state \<Rightarrow> candle_view \<Rightarrow> ind_error + stat_state \<times> statistic_point" where
  "stat_step unit st candle =
     res_bind (is_gap unit (ss_previous_started_at st) (cv_started_at candle)) (\<lambda>gap.
     if \<not> valid_candle candle then stat_missing candle
     else if gap then stat_advance candle None []
     else stat_advance candle (ss_previous_close st) (ss_returns st))"

fun stat_loop :: "string \<Rightarrow> stat_state \<Rightarrow> candle_view list \<Rightarrow> ind_error + stat_state \<times> statistic_point list" where
  "stat_loop unit st [] = Inr (st, [])"
| "stat_loop unit st (c # cs) =
     res_bind (stat_step unit st c) (\<lambda>(st', point).
     res_map (\<lambda>(st'', points). (st'', point # points)) (stat_loop unit st' cs))"

definition load_stat_checkpoint :: "(string \<Rightarrow> datetime option) \<Rightarrow> checkpoint \<Rightarrow> ind_error + stat_state" where
  "load_stat_checkpoint fromiso cp =
     res_bind (ind_optional_decimal (dict_get cp ''previousClose'')) (\<lambda>previous_close.
     res_bind (parse_started fromiso (dict_get cp ''previousStartedAt'')) (\<lambda>previous_started_at.
     res_bind (py_items (dict_get_default cp ''recentReturns'' (PyList []))) (\<lambda>items.
     res_bind (res_mapM (\<lambda>v. decimal_of_text (py_str v)) items) (\<lambda>returns.
     Inr \<lparr>ss_previous_close = previous_close, ss_previous_started_at = previous_started_at,
          ss_returns = last_n 20 returns\<rparr>))))"

definition calculate_market_statistics ::
  "(string \<Rightarrow> datetime option) \<Rightarrow> candle_view list \<Rightarrow> string \<Rightarrow> int option \<Rightarrow> checkpoint option \<Rightarrow>
     ind_error + statistic_point list" where
  "calculate_market_statistics fromiso candles unit requested_from initial_checkpoint =
     (let ordered = sort_key cv_started_at candles in
      if \<not> distinct (map cv_started_at ordered) then Inl Ind_DuplicateStart
      else res_bind (load_stat_checkpoint fromiso (case initial_checkpoint of None \<Rightarrow> [] | Some cp \<Rightarrow> cp)) (\<lambda>st.
        res_map (\<lambda>(st', points).
          filter (\<lambda>p. case requested_from of None \<Rightarrow> True | Some t \<Rightarrow> t \<le> sp_started_at p) points)
        (stat_loop unit st ordered)))"

section \<open>The loop sees only values\<close>

definition ss_rel :: "stat_state \<Rightarrow> stat_state \<Rightarrow> bool" where
  "ss_rel s t \<longleftrightarrow> rel_option veq (ss_previous_close s) (ss_previous_close t) \<and>
     ss_previous_started_at s = ss_previous_started_at t \<and> list_all2 veq (ss_returns s) (ss_returns t)"

text \<open>A point with its computed values as numbers.\<close>

definition shown_stat :: "statistic_point \<Rightarrow> rat option \<times> rat option \<times> statistic_point" where
  "shown_stat p = (map_option dec_val (sp_close_return_1 p), map_option dec_val (sp_realized_volatility_20 p),
     p\<lparr>sp_close_return_1 := None, sp_realized_volatility_20 := None\<rparr>)"

definition sp_rel :: "statistic_point \<Rightarrow> statistic_point \<Rightarrow> bool" where
  "sp_rel p q \<longleftrightarrow> shown_stat p = shown_stat q"

lemma stat_checkpoint_rel:
  assumes "rel_option veq p p'" "list_all2 veq rs rs'"
  shows "stat_checkpoint p t rs as_of = stat_checkpoint p' t rs' as_of"
proof -
  have "list_all2 veq (last_n 20 rs) (last_n 20 rs')" by (rule last_n_rel [OF assms(2)])
  then have "map (\<lambda>d. PyStr (canonical_text 50 d)) (last_n 20 rs) = map (\<lambda>d. PyStr (canonical_text 50 d)) (last_n 20 rs')"
    by (induction rule: list_all2_induct) (auto simp: veq_def intro: canonical_text_cong)
  then show ?thesis using canonical_value_rel [OF assms(1)] by (simp add: stat_checkpoint_def)
qed

lemma stat_point_rel:
  assumes "rel_option veq r r'" "rel_option veq v v'" "n = n'" "cp = cp'"
  shows "rel_sum (=) sp_rel (stat_point c r v n (ready_if r) (ready_if v) d cp)
    (stat_point c r' v' n' (ready_if r') (ready_if v') d cp')"
proof -
  have "stat_payload c r v n a b d cp = stat_payload c r' v' n' a b d cp'" for a b
    using canonical_value_rel [OF assms(1)] canonical_value_rel [OF assms(2)] assms(3,4) by (simp add: stat_payload_def)
  then show ?thesis
    unfolding stat_point_def using assms ready_if_rel [OF assms(1)] ready_if_rel [OF assms(2)]
    by (auto intro!: res_bind_rel [where R = "(=)"] simp: sum.rel_eq sp_rel_def shown_stat_def rel_option_veq)
qed

lemma close_return_rel:
  "rel_option veq p p' \<Longrightarrow> rel_sum (=) (rel_option veq) (close_return p c) (close_return p' c)"
  by (cases p; cases p')
     (auto simp: close_return_def dec_eq_def veq_def [symmetric] intro!: res_map_rel [where R = veq] veq_rules, simp_all add: veq_def)

lemma volatility_of_rel:
  assumes "list_all2 veq xs ys"
  shows "rel_sum (=) veq (volatility_of xs) (volatility_of ys)"
  unfolding volatility_of_def
  by (intro res_bind_rel [where R = veq] ind_div_rel ind_sqrt_rel dec_sum_rel list_all2_map_rel [OF assms] assms
      veq_unary veq_arith veq_refl)

lemma append_return_rel:
  "list_all2 veq xs ys \<Longrightarrow> rel_option veq r r' \<Longrightarrow> list_all2 veq (append_return xs r) (append_return ys r')"
  by (cases r; cases r') (auto simp: append_return_def intro!: last_n_rel list_all2_appendI)

lemma stat_volatility_rel:
  "list_all2 veq xs ys \<Longrightarrow> rel_sum (=) (rel_option veq) (stat_volatility xs) (stat_volatility ys)"
  by (auto simp: stat_volatility_def intro!: res_map_rel [where R = veq] volatility_of_rel last_n_rel
      dest: list_all2_lengthD)

lemma stat_advance_rel:
  assumes prev: "rel_option veq p p'" and rets: "list_all2 veq xs ys"
  shows "rel_sum (=) (rel_prod ss_rel sp_rel) (stat_advance c p xs) (stat_advance c p' ys)"
  unfolding stat_advance_def
proof (rule res_bind_rel [OF close_return_rel [OF prev]], unfold Let_def,
    rule res_bind_rel [OF stat_volatility_rel [OF append_return_rel [OF rets]]], assumption,
    rule res_map_rel [OF stat_point_rel])
  fix r r' assume r: "rel_option veq r r'"
  note uv = append_return_rel [OF rets r]
  show "min (length (append_return xs r)) 20 = min (length (append_return ys r')) 20"
    using list_all2_lengthD [OF uv] by simp
  show "stat_checkpoint (Some (cv_close c)) (cv_started_at c) (append_return xs r) (cv_source_as_of c) =
      stat_checkpoint (Some (cv_close c)) (cv_started_at c) (append_return ys r') (cv_source_as_of c)"
    by (rule stat_checkpoint_rel [OF veq_refls(2) uv])
qed (auto simp: ss_rel_def append_return_rel [OF rets])

lemma stat_step_rel:
  assumes "ss_rel s t"
  shows "rel_sum (=) (rel_prod ss_rel sp_rel) (stat_step unit s c) (stat_step unit t c)"
proof -
  have refl: "rel_sum (=) (rel_prod ss_rel sp_rel) r r" for r
    by (cases r) (auto simp: ss_rel_def sp_rel_def rel_prod_sel)
  have prev: "ss_previous_started_at s = ss_previous_started_at t" using assms by (simp add: ss_rel_def)
  show ?thesis
    unfolding stat_step_def prev
    by (rule res_bind_rel [where R = "(=)"])
       (use assms in \<open>simp_all add: sum.rel_eq refl stat_advance_rel ss_rel_def\<close>)
qed
section \<open>A checkpoint restores the state\<close>

definition stat_ok :: "stat_state \<Rightarrow> bool" where
  "stat_ok st \<longleftrightarrow> pred_option fits50 (ss_previous_close st) \<and> list_all fits50 (ss_returns st) \<and> length (ss_returns st) \<le> 20"

lemma close_return_fits: "close_return p c = Inr r \<Longrightarrow> pred_option fits50 r"
  by (auto simp: close_return_def res_map_eq_Inr_iff fits50_def dec_sub_def dec_add_representable
      split: option.splits if_splits)

lemma append_return_ok:
  assumes "list_all fits50 xs" "length xs \<le> 20" "pred_option fits50 r"
  shows "list_all fits50 (append_return xs r) \<and> length (append_return xs r) \<le> 20"
  using assms by (cases r) (auto simp: append_return_def last_n_def list_all_iff dest: in_set_dropD)

lemma stat_point_checkpoint: "stat_point c r v n a b d cp = Inr p \<Longrightarrow> sp_checkpoint_state p = cp"
  by (auto simp: stat_point_def res_bind_eq_Inr_iff)

lemma stat_step_ok:
  assumes "stat_step unit s c = Inr (s', p)" "stat_ok s" "fits50 (cv_close c)"
  shows "stat_ok s' \<and> ss_previous_started_at s' = Some (utc (cv_started_at c)) \<and>
    sp_checkpoint_state p = stat_checkpoint (ss_previous_close s') (cv_started_at c) (ss_returns s') (cv_source_as_of c)"
proof -
  have adv: "?thesis" if "stat_advance c q xs = Inr (s', p)" "list_all fits50 xs" "length xs \<le> 20" for q xs
    using that assms(3) append_return_ok [OF that(2,3) close_return_fits]
    by (auto simp: stat_advance_def Let_def res_bind_eq_Inr_iff res_map_eq_Inr_iff stat_ok_def dest!: stat_point_checkpoint)
  have missing: "?thesis" if "stat_missing c = Inr (s', p)"
    using that by (auto simp: stat_missing_def res_map_eq_Inr_iff stat_ok_def dest!: stat_point_checkpoint)
  show ?thesis
    using assms(1,2) adv [of None "[]"] adv [of "ss_previous_close s" "ss_returns s"] missing
    by (auto simp: stat_step_def res_bind_eq_Inr_iff stat_ok_def split: if_splits)
qed

lemma load_stat:
  assumes ok: "stat_ok st" and prev: "ss_previous_started_at st = Some (utc t)"
    and fromiso: "fromiso (isoformat (utc t)) = Some (utc t)"
  shows "\<exists>st'. load_stat_checkpoint fromiso (stat_checkpoint (ss_previous_close st) t (ss_returns st) as_of) = Inr st' \<and>
    ss_rel st st'"
proof -
  let ?cp = "stat_checkpoint (ss_previous_close st) t (ss_returns st) as_of"
  have all: "last_n 20 xs = xs" if "length xs \<le> 20" for xs :: "dec list" using that by (simp add: last_n_def)
  have get: "dict_get ?cp ''previousClose'' = canonical_value (ss_previous_close st)"
    "dict_get ?cp ''previousStartedAt'' = PyStr (isoformat (utc t))"
    "dict_get_default ?cp ''recentReturns'' d = PyList (map (\<lambda>d. PyStr (canonical_text 50 d)) (ss_returns st))" for d
    using ok by (simp_all add: stat_checkpoint_def dict_get_default_def dict_get_def stat_ok_def all)
  obtain rs where rs: "res_mapM (\<lambda>v. decimal_of_text (py_str v)) (map (\<lambda>d. PyStr (canonical_text 50 d)) (ss_returns st)) = Inr rs"
      "list_all2 veq (ss_returns st) rs"
    using closes_canonical ok by (auto simp: stat_ok_def)
  obtain pc where pc: "ind_optional_decimal (canonical_value (ss_previous_close st)) = Inr pc" "rel_option veq (ss_previous_close st) pc"
    using optional_decimal_canonical [of "ss_previous_close st"] ok by (auto simp: stat_ok_def)
  have "length rs \<le> 20" using list_all2_lengthD [OF rs(2)] ok by (simp add: stat_ok_def)
  moreover have "parse_started fromiso (PyStr (isoformat (utc t))) = Inr (Some (utc t))"
    using fromiso by (simp add: parse_started_def is_falsy_def isoformat_nonempty)
  ultimately show ?thesis
    unfolding load_stat_checkpoint_def get using rs pc prev by (simp add: py_items_def ss_rel_def all)
qed

interpretation statistics: checkpointed_series "stat_step unit" "stat_loop unit" ss_rel sp_rel stat_ok
  "restorable fromiso" "\<lambda>p. load_stat_checkpoint fromiso (sp_checkpoint_state p)" for unit fromiso
proof
  fix s c s' p
  assume "stat_step unit s c = Inr (s', p)" "stat_ok s" "restorable fromiso c"
  then show "stat_ok s' \<and> (\<exists>t. load_stat_checkpoint fromiso (sp_checkpoint_state p) = Inr t \<and> ss_rel s' t)"
    using stat_step_ok [of unit s c s' p] load_stat [of s' "cv_started_at c" fromiso] by (simp add: restorable_def)
qed (simp_all add: stat_step_rel sp_rel_def)

definition initial_stat_state :: stat_state where
  "initial_stat_state = \<lparr>ss_previous_close = None, ss_previous_started_at = None, ss_returns = []\<rparr>"

lemma load_stat_empty: "load_stat_checkpoint fromiso [] = Inr initial_stat_state"
  by (simp add: load_stat_checkpoint_def dict_get_default_def dict_get_def py_items_def ind_optional_decimal_def
      parse_started_def is_falsy_def initial_stat_state_def last_n_def)

text \<open>Market statistics do not depend on where a computation starts: the candles before a boundary, the
  checkpoint of their last point as text, and the candles from the boundary computed with that checkpoint give
  the points of one computation over all candles, with equal statuses, sample counts, content hashes and
  checkpoints and numerically equal returns and volatilities.\<close>

theorem market_statistics_resume:
  assumes all: "calculate_market_statistics fromiso candles unit None None = Inr points"
    and early: "\<exists>c\<in>set candles. cv_started_at c < boundary"
    and restorable: "\<forall>c\<in>set candles. restorable fromiso c"
  shows "\<exists>before after.
    calculate_market_statistics fromiso (filter (\<lambda>c. cv_started_at c < boundary) candles) unit None None = Inr before \<and>
    calculate_market_statistics fromiso (filter (\<lambda>c. boundary \<le> cv_started_at c) candles) unit None
      (Some (sp_checkpoint_state (last before))) = Inr after \<and>
    map shown_stat points = map shown_stat (before @ after)"
proof -
  let ?xs = "sort_key cv_started_at (filter (\<lambda>c. cv_started_at c < boundary) candles)"
  let ?ys = "sort_key cv_started_at (filter (\<lambda>c. boundary \<le> cv_started_at c) candles)"
  have split: "sort_key cv_started_at candles = ?xs @ ?ys" by (rule sorted_split)
  have dist: "distinct (map cv_started_at ?xs)" "distinct (map cv_started_at ?ys)"
    and "\<exists>st. stat_loop unit initial_stat_state (?xs @ ?ys) = Inr (st, points)"
    using all unfolding calculate_market_statistics_def Let_def split
    by (auto simp: load_stat_empty res_map_eq_Inr_iff split: if_splits)
  then obtain st where loop: "stat_loop unit initial_stat_state (?xs @ ?ys) = Inr (st, points)" by blast
  have ok: "stat_ok initial_stat_state" by (simp add: stat_ok_def initial_stat_state_def)
  have good: "\<forall>c\<in>set ?xs. restorable fromiso c" and ne: "?xs \<noteq> []"
    using restorable early by (auto simp: filter_empty_conv)
  obtain mid before t s'' after where r: "stat_loop unit initial_stat_state ?xs = Inr (mid, before)"
      "load_stat_checkpoint fromiso (sp_checkpoint_state (last before)) = Inr t"
      "stat_loop unit t ?ys = Inr (s'', after)" "list_all2 sp_rel points (before @ after)"
    using statistics.loop_resumes [OF loop ok good ne] by blast
  have "map shown_stat points = map shown_stat (before @ after)"
    using r(4) by (induction rule: list_all2_induct) (simp_all add: sp_rel_def)
  then show ?thesis
    using r(1-3) dist
    by (intro exI [of _ before] exI [of _ after]) (simp add: calculate_market_statistics_def Let_def load_stat_empty)
qed

section \<open>What the loop computes\<close>

text \<open>The returns of a run of consecutive candles given newest first; a zero close has no successor's return.\<close>

fun run_returns :: "candle_view list \<Rightarrow> dec list" where
  "run_returns (c # c' # cs) =
     (case close_return (Some (cv_close c')) (cv_close c) of
        Inr (Some r) \<Rightarrow> r # run_returns (c' # cs)
      | _ \<Rightarrow> run_returns (c' # cs))"
| "run_returns cs = []"

definition stat_inv :: "candle_view list \<Rightarrow> stat_state \<Rightarrow> bool" where
  "stat_inv run st \<longleftrightarrow> ss_previous_close st = (case run of [] \<Rightarrow> None | c # _ \<Rightarrow> Some (cv_close c)) \<and>
     ss_returns st = rev (take 20 (run_returns run))"

text \<open>What a point says of the candle \<open>c\<close> that ends the run: the return to the close before it, how many of
  the last twenty returns exist, the volatility once there are twenty.\<close>

definition stat_exact :: "candle_view \<Rightarrow> candle_view list \<Rightarrow> statistic_point \<Rightarrow> bool" where
  "stat_exact c run pt \<longleftrightarrow> sp_started_at pt = cv_started_at c \<and>
     sp_volatility_sample_count pt = min 20 (length (run_returns run)) \<and>
     dec_val (sp_input_completeness_ratio pt) = rat_of_nat (min 20 (length (run_returns run))) / 20 \<and>
     (case run of
        c # c' # _ \<Rightarrow> if dec_val (cv_close c') = 0 then sp_close_return_1 pt = None
          else \<exists>q. dec_div 50 (cv_close c) (cv_close c') = Inr q \<and> sp_close_return_1 pt = Some (dec_sub 50 q (dec_of_int 1))
      | _ \<Rightarrow> sp_close_return_1 pt = None) \<and>
     (if 20 \<le> length (run_returns run)
      then \<exists>v. volatility_of (rev (take 20 (run_returns run))) = Inr v \<and> 0 \<le> dec_val v \<and> sp_realized_volatility_20 pt = Some v
      else sp_realized_volatility_20 pt = None) \<and>
     sp_return_status pt = (if run = [] then ''missing'' else ready_if (sp_close_return_1 pt)) \<and>
     sp_volatility_status pt = (if run = [] then ''missing'' else ready_if (sp_realized_volatility_20 pt)) \<and>
     sp_trade_status pt = (if run = [] then ''missing'' else ''ready'')"

lemma json_encode_total_list:
  "\<forall>v\<in>set xs. \<exists>j. json_encode err v = Inr j \<Longrightarrow> \<exists>j. json_encode err (PyList xs) = Inr j"
proof -
  have "\<forall>v\<in>set xs. \<exists>j. json_encode err v = Inr j \<Longrightarrow> \<exists>js. res_mapM (json_encode err) xs = Inr js"
    by (induction xs) auto
  then show "\<forall>v\<in>set xs. \<exists>j. json_encode err v = Inr j \<Longrightarrow> ?thesis" by auto
qed

lemma json_encode_total_dict:
  "\<forall>kv\<in>set d. \<exists>j. json_encode err (snd kv) = Inr j \<Longrightarrow> \<exists>j. json_encode err (PyDict d) = Inr j"
proof -
  have "\<forall>kv\<in>set d. \<exists>j. json_encode err (snd kv) = Inr j \<Longrightarrow>
      \<exists>js. res_mapM (\<lambda>kv. res_map (Pair (fst kv)) (json_encode err (snd kv))) d = Inr js"
    by (induction d) auto
  then show "\<forall>kv\<in>set d. \<exists>j. json_encode err (snd kv) = Inr j \<Longrightarrow> ?thesis" by auto
qed

lemma json_encode_canonical: "\<exists>j. json_encode err (canonical_value v) = Inr j"
  by (cases v) (simp_all add: canonical_value_def)

lemma stat_checkpoint_encodes: "\<exists>j. json_encode err (PyDict (stat_checkpoint p t rs as_of)) = Inr j"
proof (rule json_encode_total_dict)
  have "\<exists>j. json_encode err (PyList (map (\<lambda>d. PyStr (canonical_text 50 d)) (last_n 20 rs))) = Inr j"
    by (rule json_encode_total_list) auto
  then show "\<forall>kv\<in>set (stat_checkpoint p t rs as_of). \<exists>j. json_encode err (snd kv) = Inr j"
    using json_encode_canonical [of err p]
    by (cases as_of) (simp_all add: stat_checkpoint_def del: json_encode.simps(8))
qed

lemma stat_content_hash_total:
  "\<exists>h. stat_content_hash (stat_payload c r v n a b d (stat_checkpoint p t rs as_of)) = Inr h"
proof -
  have "\<exists>j. json_encode Ind_NotIterable (PyList [PyStr a, PyStr b, PyStr d]) = Inr j" by simp
  then have "\<exists>j. json_encode Ind_NotIterable (stat_payload c r v n a b d (stat_checkpoint p t rs as_of)) = Inr j"
    unfolding stat_payload_def
    by (intro json_encode_total_dict)
       (simp add: json_encode_canonical stat_checkpoint_encodes del: json_encode.simps(8,9))
  then show ?thesis by (auto simp: stat_content_hash_def)
qed

lemma sample_ratio: "n \<le> 20 \<Longrightarrow> \<exists>q. ind_div (dec_of_int (int n)) (dec_of_int 20) = Inr q \<and> dec_val q = rat_of_nat n / 20"
proof -
  assume n: "n \<le> 20"
  have "representable 50 (dec_val (Dec False (5 * n) (- 2)))" by (rule coeff_representable) (use n in simp)
  then have rep: "representable 50 (rat_of_nat n / 20)" by (simp add: power_int_def power2_eq_square)
  obtain q where q: "ind_div (dec_of_int (int n)) (dec_of_int 20) = Inr q" using ind_div_total [of "dec_of_int 20"] by auto
  then have "dec_val q = rat_of_nat n / 20" using ctx50.rounds_exact [OF ind_div_rounds [OF q]] rep by simp
  then show ?thesis using q by blast
qed

lemma stat_point_total:
  assumes "n \<le> 20"
  shows "\<exists>pt. stat_point c r v n a b d (stat_checkpoint p t rs as_of) = Inr pt \<and> sp_started_at pt = cv_started_at c \<and>
    sp_close_return_1 pt = r \<and> sp_realized_volatility_20 pt = v \<and> sp_volatility_sample_count pt = n \<and>
    dec_val (sp_input_completeness_ratio pt) = rat_of_nat n / 20 \<and>
    sp_return_status pt = a \<and> sp_volatility_status pt = b \<and> sp_trade_status pt = d"
proof -
  obtain h where h: "stat_content_hash (stat_payload c r v n a b d (stat_checkpoint p t rs as_of)) = Inr h"
    using stat_content_hash_total by blast
  obtain q where "ind_div (dec_of_int (int n)) (dec_of_int 20) = Inr q" "dec_val q = rat_of_nat n / 20"
    using sample_ratio [OF assms] by blast
  then show ?thesis by (simp add: stat_point_def h)
qed

lemma close_return_total:
  "\<exists>r. close_return p c = Inr r \<and> (case p of None \<Rightarrow> r = None | Some d \<Rightarrow> if dec_val d = 0 then r = None
     else \<exists>q. dec_div 50 c d = Inr q \<and> r = Some (dec_sub 50 q (dec_of_int 1)))"
proof (cases p)
  case (Some d)
  have "dec_val d \<noteq> 0 \<Longrightarrow> \<exists>q. dec_div 50 c d = Inr q" by (rule ctx50.div_total)
  then show ?thesis using Some by (auto simp: close_return_def dec_eq_def ind_div_def)
qed (simp add: close_return_def)

lemma volatility_total: "\<exists>v. volatility_of xs = Inr v \<and> 0 \<le> dec_val v"
proof -
  obtain m where m: "ind_div (dec_sum 50 xs) (dec_of_int 20) = Inr m" using ind_div_total [of "dec_of_int 20"] by auto
  let ?sq = "map (\<lambda>v. dec_square 50 (dec_sub 50 v m)) xs"
  obtain w where w: "ind_div (dec_sum 50 ?sq) (dec_of_int 20) = Inr w" using ind_div_total [of "dec_of_int 20"] by auto
  then have "0 \<le> dec_val w" by (rule ind_div_nonneg) (auto simp: dec_square_nonneg intro!: dec_sum_sign)
  then show ?thesis using m w dec_sqrt_nonneg [of 50 w] by (auto simp: volatility_of_def ind_sqrt_def)
qed

lemma stat_advance_run:
  assumes inv: "stat_inv run st"
  shows "\<exists>st' pt. stat_advance c (ss_previous_close st) (ss_returns st) = Inr (st', pt) \<and> stat_inv (c # run) st' \<and>
    ss_previous_started_at st' = Some (utc (cv_started_at c)) \<and> stat_exact c (c # run) pt"
proof -
  let ?p = "case run of [] \<Rightarrow> None | c' # _ \<Rightarrow> Some (cv_close c')"
  have prev: "ss_previous_close st = ?p" and rets: "ss_returns st = rev (take 20 (run_returns run))"
    using inv by (simp_all add: stat_inv_def)
  obtain r where r: "close_return ?p (cv_close c) = Inr r"
      "case ?p of None \<Rightarrow> r = None | Some d \<Rightarrow> if dec_val d = 0 then r = None
        else \<exists>q. dec_div 50 (cv_close c) d = Inr q \<and> r = Some (dec_sub 50 q (dec_of_int 1))"
    using close_return_total by blast
  define rets' where "rets' = run_returns (c # run)"
  have rr: "rets' = (case r of None \<Rightarrow> run_returns run | Some x \<Rightarrow> x # run_returns run)"
    using r by (cases run) (auto simp: rets'_def split: option.splits)
  have app: "append_return (ss_returns st) r = rev (take 20 rets')"
  proof (cases r)
    case (Some x)
    have "append_return (ss_returns st) r = last_n 20 (rev (x # take 20 (run_returns run)))"
      by (simp add: append_return_def rets Some)
    also have "\<dots> = rev (take 20 rets')" unfolding last_n_rev by (simp add: rr Some take_Cons')
    finally show ?thesis .
  qed (simp add: append_return_def rets rr)
  have len: "length (rev (take 20 rets')) = min (length rets') 20" by simp
  obtain v where v: "stat_volatility (rev (take 20 rets')) = Inr v"
      "if 20 \<le> length rets' then \<exists>w. volatility_of (rev (take 20 rets')) = Inr w \<and> 0 \<le> dec_val w \<and> v = Some w else v = None"
  proof -
    obtain w where w: "volatility_of (rev (take 20 rets')) = Inr w" "0 \<le> dec_val w" using volatility_total by blast
    show ?thesis
      by (rule that [of "if 20 \<le> length rets' then Some w else None"])
         (use w in \<open>auto simp: stat_volatility_def last_n_def\<close>)
  qed
  obtain pt where pt: "stat_point c r v (min (length rets') 20) (ready_if r) (ready_if v) ''ready''
        (stat_checkpoint (Some (cv_close c)) (cv_started_at c) (rev (take 20 rets')) (cv_source_as_of c)) = Inr pt"
      "sp_started_at pt = cv_started_at c" "sp_close_return_1 pt = r" "sp_realized_volatility_20 pt = v"
      "sp_volatility_sample_count pt = min (length rets') 20"
      "dec_val (sp_input_completeness_ratio pt) = rat_of_nat (min (length rets') 20) / 20"
      "sp_return_status pt = ready_if r" "sp_volatility_status pt = ready_if v" "sp_trade_status pt = ''ready''"
    using stat_point_total [of "min (length rets') 20" c r v "ready_if r" "ready_if v" "''ready''" "Some (cv_close c)"
        "cv_started_at c" "rev (take 20 rets')" "cv_source_as_of c"] min.cobounded2 by blast
  have exact: "stat_exact c (c # run) pt"
    using r(2) v(2) pt(2-9) unfolding stat_exact_def rets'_def [symmetric]
    by (cases run) (simp_all add: min.commute del: of_nat_min)
  have "stat_advance c (ss_previous_close st) (ss_returns st) =
      Inr (\<lparr>ss_previous_close = Some (cv_close c), ss_previous_started_at = Some (utc (cv_started_at c)),
        ss_returns = rev (take 20 rets')\<rparr>, pt)"
    using pt(1) by (simp add: stat_advance_def prev r(1) app v(1) Let_def min.left_commute)
  then show ?thesis using exact by (simp add: stat_inv_def rets'_def)
qed

lemma stat_step_run:
  assumes inv: "stat_inv (valid_run unit rcs) st"
    and prev: "ss_previous_started_at st = (case rcs of [] \<Rightarrow> None | c' # _ \<Rightarrow> Some (utc (cv_started_at c')))"
    and ok: "buckets_ok unit candles" "set rcs \<subseteq> set candles"
  shows "\<exists>st' pt. stat_step unit st c = Inr (st', pt) \<and> stat_inv (valid_run unit (c # rcs)) st' \<and>
    ss_previous_started_at st' = Some (utc (cv_started_at c)) \<and> stat_exact c (valid_run unit (c # rcs)) pt"
proof -
  have gap: "is_gap unit (ss_previous_started_at st) (cv_started_at c) =
      Inr (case rcs of [] \<Rightarrow> False | c' # _ \<Rightarrow> \<not> follows unit c' c)"
    unfolding prev by (rule is_gap_follows [OF ok])
  show ?thesis
  proof (cases "valid_candle c")
    case False
    obtain pt where "stat_point c None None 0 ''missing'' ''missing'' ''missing''
        (stat_checkpoint None (cv_started_at c) [] (cv_source_as_of c)) = Inr pt" "stat_exact c [] pt"
      using stat_point_total [of 0 c None None "''missing''" "''missing''" "''missing''" None "cv_started_at c" "[]" "cv_source_as_of c"]
      by (auto simp: stat_exact_def)
    then show ?thesis using False gap by (simp add: stat_step_def stat_missing_def stat_inv_def)
  next
    case True
    define jump where "jump = (case rcs of [] \<Rightarrow> False | c' # _ \<Rightarrow> \<not> follows unit c' c)"
    define st1 where "st1 = (if jump then st\<lparr>ss_previous_close := None, ss_returns := []\<rparr> else st)"
    define tail where "tail = (case rcs of [] \<Rightarrow> [] | c' # _ \<Rightarrow> if follows unit c' c then valid_run unit rcs else [])"
    have "stat_inv tail st1"
      using inv by (cases rcs) (simp_all add: st1_def tail_def jump_def stat_inv_def)
    moreover have "valid_run unit (c # rcs) = c # tail" using True by (simp add: tail_def)
    moreover have "stat_step unit st c = stat_advance c (ss_previous_close st1) (ss_returns st1)"
      using True by (simp add: stat_step_def gap st1_def jump_def [symmetric])
    ultimately show ?thesis using stat_advance_run [of tail st1 c] by simp
  qed
qed

lemma stat_loop_run:
  assumes "stat_inv (valid_run unit rcs) st"
    and "ss_previous_started_at st = (case rcs of [] \<Rightarrow> None | c' # _ \<Rightarrow> Some (utc (cv_started_at c')))"
    and "buckets_ok unit candles" "set rcs \<union> set cs \<subseteq> set candles"
  shows "\<exists>st' pts. stat_loop unit st cs = Inr (st', pts) \<and> length pts = length cs \<and>
    (\<forall>i<length cs. stat_exact (cs ! i) (valid_run unit (rev (take (Suc i) cs) @ rcs)) (pts ! i))"
  using assms
proof (induction cs arbitrary: rcs st)
  case (Cons c cs)
  obtain s p where step: "stat_step unit st c = Inr (s, p)" "stat_inv (valid_run unit (c # rcs)) s"
      "ss_previous_started_at s = Some (utc (cv_started_at c))" "stat_exact c (valid_run unit (c # rcs)) p"
    using stat_step_run [OF Cons.prems(1-3), of c] Cons.prems(4) by auto
  obtain st' pts where rest: "stat_loop unit s cs = Inr (st', pts)" "length pts = length cs"
      "\<forall>i<length cs. stat_exact (cs ! i) (valid_run unit (rev (take (Suc i) cs) @ (c # rcs))) (pts ! i)"
    using Cons.IH [OF step(2) _ Cons.prems(3)] step(3) Cons.prems(4) by auto
  have "stat_exact ((c # cs) ! i) (valid_run unit (rev (take (Suc i) (c # cs)) @ rcs)) ((p # pts) ! i)"
    if "i < length (c # cs)" for i
    using that step(4) rest(3) by (cases i) simp_all
  then show ?case using step(1) rest by simp
qed simp

lemma calculate_statistics_run:
  assumes ok: "buckets_ok unit candles" and dist: "distinct (map cv_started_at candles)"
  shows "\<exists>pts. calculate_market_statistics fromiso candles unit None None = Inr pts \<and> length pts = length candles \<and>
    (\<forall>i<length candles. stat_exact (sort_key cv_started_at candles ! i)
       (valid_run unit (rev (take (Suc i) (sort_key cv_started_at candles)))) (pts ! i))"
proof -
  let ?o = "sort_key cv_started_at candles"
  have "stat_inv [] initial_stat_state" by (simp add: stat_inv_def initial_stat_state_def)
  then obtain st' pts where "stat_loop unit initial_stat_state ?o = Inr (st', pts)" "length pts = length ?o"
      "\<forall>i<length ?o. stat_exact (?o ! i) (valid_run unit (rev (take (Suc i) ?o) @ [])) (pts ! i)"
    using stat_loop_run [of unit "[]" initial_stat_state candles ?o] ok by (auto simp: initial_stat_state_def)
  moreover have "distinct (map cv_started_at ?o)" using distinct_sort_key [OF dist] .
  ultimately show ?thesis by (simp add: calculate_market_statistics_def Let_def load_stat_empty)
qed

text \<open>On candles with distinct starts of a known unit the statistics are always computed, one point per
  candle in order of time, and each point describes the longest run of usable consecutive candles that ends at
  its candle: the return over the preceding close of the run (none after a gap or a zero close), the number of
  the last twenty returns that exist and its exact share of twenty, and the volatility of those returns, never
  negative, exactly when all twenty exist.\<close>

theorem market_statistics_exact:
  assumes "buckets_ok unit candles" and "distinct (map cv_started_at candles)"
  shows "\<exists>pts. calculate_market_statistics fromiso candles unit None None = Inr pts \<and> length pts = length candles \<and>
    (\<forall>i<length candles. stat_exact (sort_key cv_started_at candles ! i)
       (valid_run unit (rev (take (Suc i) (sort_key cv_started_at candles)))) (pts ! i))"
  by (rule calculate_statistics_run [OF assms])

section \<open>Examples\<close>

theorem market_statistics_resume_witness:
  "\<exists>points before after. calculate_market_statistics example_fromiso example_views ''1m'' None None = Inr points \<and>
    calculate_market_statistics example_fromiso [example_view 0 5] ''1m'' None None = Inr before \<and>
    calculate_market_statistics example_fromiso [example_view minute_us 7] ''1m'' None
      (Some (sp_checkpoint_state (last before))) = Inr after \<and>
    map shown_stat points = map shown_stat (before @ after)"
proof -
  obtain points where p: "calculate_market_statistics example_fromiso example_views ''1m'' None None = Inr points"
    using calculate_statistics_run [OF example_views_ok] by blast
  have "\<exists>c\<in>set example_views. cv_started_at c < minute_us" by (simp add: example_view_def minute_us_value)
  moreover have "filter (\<lambda>c. cv_started_at c < minute_us) example_views = [example_view 0 5]"
    "filter (\<lambda>c. minute_us \<le> cv_started_at c) example_views = [example_view minute_us 7]"
    by (simp_all add: example_view_def minute_us_value)
  ultimately show ?thesis
    using market_statistics_resume [OF p _ example_views_restorable, of minute_us] p by auto
qed

theorem market_statistics_exact_witness:
  "\<exists>pts. calculate_market_statistics example_fromiso example_views ''1m'' None None = Inr pts \<and> length pts = 2 \<and>
    stat_exact (sort_key cv_started_at example_views ! 1)
      (valid_run ''1m'' (rev (take 2 (sort_key cv_started_at example_views)))) (pts ! 1)"
proof -
  obtain pts where p: "calculate_market_statistics example_fromiso example_views ''1m'' None None = Inr pts"
      "length pts = length example_views"
      "\<forall>i<length example_views. stat_exact (sort_key cv_started_at example_views ! i)
         (valid_run ''1m'' (rev (take (Suc i) (sort_key cv_started_at example_views)))) (pts ! i)"
    using market_statistics_exact [OF example_views_ok, of example_fromiso] by (elim exE conjE)
  have "stat_exact (sort_key cv_started_at example_views ! 1)
      (valid_run ''1m'' (rev (take (Suc 1) (sort_key cv_started_at example_views)))) (pts ! 1)"
    by (rule p(3) [rule_format]) simp
  moreover have "Suc 1 = (2::nat)" "length example_views = 2" by simp_all
  ultimately show ?thesis using p(1,2) by (intro exI [of _ pts] conjI) (simp_all only:)
qed

end
