(* ===== verification/Py_Float.thy ===== *)
theory Py_Float
  imports Prelude "HOL-Library.Log_Nat"
begin

text \<open>
  Binary floating point as Python's \<^verbatim>\<open>float\<close> has it (IEEE 754 binary64): a finite float is the rational it
  denotes, and every operation is the exact result rounded to 53 significant bits, ties to even, with the
  gradual underflow of the subnormal range. \<open>float_rounding\<close> states what clients use of the rounding.
\<close>

definition round_even :: "rat \<Rightarrow> int" where
  "round_even q =
     (let n = \<lfloor>q\<rfloor>; d = q - of_int n in
      if d < 1 / 2 \<or> d = 1 / 2 \<and> even n then n else n + 1)"

text \<open>The exponent of the power of two at or below a positive rational.\<close>

definition binade :: "rat \<Rightarrow> int" where
  "binade x = (if 1 \<le> x then bitlen \<lfloor>x\<rfloor> - 1 else - bitlen (\<lceil>1 / x\<rceil> - 1))"

definition ulp_exponent :: "rat \<Rightarrow> int" where
  "ulp_exponent x = max (binade \<bar>x\<bar> - 52) (- 1074)"

definition fl :: "rat \<Rightarrow> rat" where
  "fl x = (if x = 0 then 0 else of_int (round_even (x / 2 powi ulp_exponent x)) * 2 powi ulp_exponent x)"

text \<open>Values too large for the format become infinite.\<close>

definition to_float :: "rat \<Rightarrow> rat option" where
  "to_float x = (if \<bar>fl x\<bar> < 2 ^ 1024 then Some (fl x) else None)"

section \<open>Rounding to an integer\<close>

lemma round_even_le: "q \<le> of_int n \<Longrightarrow> round_even q \<le> n"
proof -
  assume q: "q \<le> of_int n"
  have f: "\<lfloor>q\<rfloor> \<le> n" using q by linarith
  have "\<lfloor>q\<rfloor> = n \<Longrightarrow> q - of_int \<lfloor>q\<rfloor> = 0" using q of_int_floor_le [of q] by simp
  then show ?thesis using f by (cases "\<lfloor>q\<rfloor> = n") (auto simp: round_even_def Let_def)
qed

lemma round_even_ge: "of_int n \<le> q \<Longrightarrow> n \<le> round_even q"
proof -
  assume "of_int n \<le> q"
  then have "n \<le> \<lfloor>q\<rfloor>" by (simp add: le_floor_iff)
  then show ?thesis by (auto simp: round_even_def Let_def)
qed

lemma round_even_mono: "q \<le> r \<Longrightarrow> round_even q \<le> round_even r"
proof (cases "\<lfloor>q\<rfloor> = \<lfloor>r\<rfloor>")
  case False
  assume "q \<le> r"
  then have "\<lfloor>q\<rfloor> + 1 \<le> \<lfloor>r\<rfloor>" using False floor_mono [of q r] by linarith
  moreover have "round_even q \<le> \<lfloor>q\<rfloor> + 1" by (simp add: round_even_def Let_def)
  moreover have "\<lfloor>r\<rfloor> \<le> round_even r" by (simp add: round_even_def Let_def)
  ultimately show ?thesis by linarith
qed (auto simp: round_even_def Let_def)

lemma round_even_of_int [simp]: "round_even (of_int n) = n"
  by (simp add: round_even_def)

lemma round_even_uminus: "round_even (- q) = - round_even q"
proof (cases "q = of_int \<lfloor>q\<rfloor>")
  case True
  then show ?thesis by (metis of_int_minus round_even_of_int)
next
  case False
  have up: "\<lfloor>- q\<rfloor> = - \<lfloor>q\<rfloor> - 1"
  proof (rule floor_unique)
    show "of_int (- \<lfloor>q\<rfloor> - 1) \<le> - q" by simp linarith
    show "- q < of_int (- \<lfloor>q\<rfloor> - 1) + 1" using False of_int_floor_le [of q] by (auto simp: less_le)
  qed
  show ?thesis by (auto simp: round_even_def Let_def up field_simps)
qed

section \<open>Binades\<close>

lemma binade_bounds:
  assumes "0 < x"
  shows "2 powi binade x \<le> x \<and> x < 2 powi (binade x + 1)"
proof (cases "1 \<le> x")
  case True
  then have pos: "0 < \<lfloor>x\<rfloor>" by simp
  have len: "1 \<le> bitlen \<lfloor>x\<rfloor>" using pos bitlen_bounds [OF pos] by (auto simp: bitlen_alt_def)
  have b: "2 ^ nat (bitlen \<lfloor>x\<rfloor> - 1) \<le> \<lfloor>x\<rfloor>" "\<lfloor>x\<rfloor> < 2 ^ nat (bitlen \<lfloor>x\<rfloor>)" using bitlen_bounds [OF pos] by simp_all
  have "2 powi (bitlen \<lfloor>x\<rfloor> - 1) = rat_of_int (2 ^ nat (bitlen \<lfloor>x\<rfloor> - 1))" using len by (simp add: power_int_def)
  also have "\<dots> \<le> x" using b(1) by (simp add: le_floor_iff)
  finally have "2 powi (bitlen \<lfloor>x\<rfloor> - 1) \<le> x" .
  moreover have "x < rat_of_int (2 ^ nat (bitlen \<lfloor>x\<rfloor>))" using b(2) by (simp add: floor_less_iff)
  then have "x < 2 powi bitlen \<lfloor>x\<rfloor>" using len by (simp add: power_int_def)
  ultimately show ?thesis using True by (simp add: binade_def)
next
  case False
  define y where "y = \<lceil>1 / x\<rceil>"
  have "1 < 1 / x" using False assms by (simp add: field_simps)
  then have y: "2 \<le> y" by (simp add: y_def le_ceiling_iff)
  have pos: "0 < y - 1" using y by simp
  have len: "1 \<le> bitlen (y - 1)" using pos by (auto simp: bitlen_alt_def)
  have b: "2 ^ nat (bitlen (y - 1) - 1) \<le> y - 1" "y \<le> 2 ^ nat (bitlen (y - 1))" using bitlen_bounds [OF pos] by simp_all
  have "rat_of_int (y - 1) < 1 / x" unfolding y_def by linarith
  then have lo: "rat_of_int (2 ^ nat (bitlen (y - 1) - 1)) < 1 / x" using b(1) by (metis le_less_trans of_int_le_iff)
  have hi: "1 / x \<le> rat_of_int (2 ^ nat (bitlen (y - 1)))" using b(2) unfolding y_def by (simp add: ceiling_le_iff)
  have "2 powi (- bitlen (y - 1)) = 1 / rat_of_int (2 ^ nat (bitlen (y - 1)))"
    using len by (simp add: power_int_minus power_int_def field_simps)
  moreover have "2 powi (- bitlen (y - 1) + 1) = 1 / rat_of_int (2 ^ nat (bitlen (y - 1) - 1))"
    using len power_int_minus [of "2::rat" "bitlen (y - 1) - 1"] by (simp add: power_int_def field_simps)
  moreover have "1 / rat_of_int (2 ^ nat (bitlen (y - 1))) \<le> x" "x < 1 / rat_of_int (2 ^ nat (bitlen (y - 1) - 1))"
    using lo hi assms by (simp_all add: field_simps)
  ultimately show ?thesis using False by (simp only: binade_def y_def [symmetric] if_False)
qed

lemma powi2_le_iff: "(2::rat) powi a \<le> 2 powi b \<longleftrightarrow> a \<le> b"
  using power_int_strict_increasing [of b a "2::rat"] power_int_increasing [of a b "2::rat"] by force

lemma binade_mono: "0 < x \<Longrightarrow> x \<le> y \<Longrightarrow> binade x \<le> binade y"
proof -
  assume "0 < x" "x \<le> y"
  then have "2 powi binade x \<le> x" "y < 2 powi (binade y + 1)" using binade_bounds [of x] binade_bounds [of y] by auto
  then have "(2::rat) powi binade x < 2 powi (binade y + 1)" using \<open>x \<le> y\<close> by linarith
  then show ?thesis using powi2_le_iff [of "binade y + 1" "binade x"] by (simp add: not_le [symmetric])
qed

section \<open>Rounding to a float\<close>

lemma powi2_add: "(2::rat) powi (a + b) = 2 powi a * 2 powi b"
  by (simp add: power_int_add)

lemma powi2_nat: "a \<le> b \<Longrightarrow> (2::rat) powi b = of_int (2 ^ nat (b - a)) * 2 powi a"
  using powi2_add [of "b - a" a] by (simp add: power_int_def)

lemma fl_0 [simp]: "fl 0 = 0" by (simp add: fl_def)

lemma fl_uminus: "fl (- x) = - fl x"
  by (simp add: fl_def ulp_exponent_def round_even_uminus)

lemma fl_nonneg: "0 \<le> x \<Longrightarrow> 0 \<le> fl x"
  using round_even_ge [of 0 "x / 2 powi ulp_exponent x"] by (simp add: fl_def)

lemma fl_mono_pos:
  assumes "0 < x" "x \<le> y"
  shows "fl x \<le> fl y"
proof -
  define a where "a = ulp_exponent x"
  define b where "b = ulp_exponent y"
  have ab: "a \<le> b" using binade_mono [OF assms] assms by (simp add: a_def b_def ulp_exponent_def)
  have y: "0 < y" using assms by linarith
  have fx: "fl x = of_int (round_even (x / 2 powi a)) * 2 powi a" using assms by (simp add: fl_def a_def)
  have fy: "fl y = of_int (round_even (y / 2 powi b)) * 2 powi b" using y by (simp add: fl_def b_def)
  show ?thesis
  proof (cases "a = b")
    case True
    have "x / 2 powi b \<le> y / 2 powi b" using assms by (simp add: divide_right_mono)
    then show ?thesis using round_even_mono [of "x / 2 powi b" "y / 2 powi b"] by (simp add: fx fy True)
  next
    case False
    then have lt: "a < b" using ab by simp
    then have b: "b = binade y - 52" using y by (auto simp: a_def b_def ulp_exponent_def)
    have bx: "binade x < binade y" using lt assms y by (auto simp: a_def b_def ulp_exponent_def)
    have "(2::rat) powi (binade x + 1) \<le> 2 powi binade y" using bx powi2_le_iff by simp
    then have x: "x \<le> 2 powi binade y" using binade_bounds [OF assms(1)] by linarith
    have "a \<le> binade y" using lt b by simp
    note p = powi2_nat [OF this]
    have "x / 2 powi a \<le> of_int (2 ^ nat (binade y - a))" using x unfolding p by (simp add: field_simps)
    from round_even_le [OF this] have lo: "fl x \<le> 2 powi binade y"
      unfolding fx p by (intro mult_right_mono) (simp_all only: of_int_le_iff, simp)
    have "b \<le> binade y" using b by simp
    note q = powi2_nat [OF this]
    have "2 powi binade y \<le> y" using binade_bounds [OF y] by simp
    then have "of_int (2 ^ nat (binade y - b)) \<le> y / 2 powi b" unfolding q by (simp add: field_simps)
    from round_even_ge [OF this] have "2 powi binade y \<le> fl y"
      unfolding fy q by (intro mult_right_mono) (simp_all only: of_int_le_iff, simp)
    then show ?thesis using lo by linarith
  qed
qed

lemma fl_mono: "x \<le> y \<Longrightarrow> fl x \<le> fl y"
proof -
  assume le: "x \<le> y"
  consider "0 < x" | "x \<le> 0" "0 \<le> y" | "y < 0" using le by linarith
  then show ?thesis
  proof cases
    case 1 then show ?thesis using fl_mono_pos le by blast
  next
    case 2 then show ?thesis using fl_nonneg [of y] fl_nonneg [of "- x"] by (simp add: fl_uminus)
  next
    case 3 then show ?thesis using fl_mono_pos [of "- y" "- x"] le by (simp add: fl_uminus)
  qed
qed

lemma fl_pow2: "- 1074 \<le> k \<Longrightarrow> fl (2 powi k) = 2 powi k"
proof -
  assume k: "- 1074 \<le> k"
  define x where "x = (2::rat) powi k"
  have x: "0 < x" by (simp add: x_def)
  have "binade x \<le> k" using binade_bounds [OF x] powi2_le_iff [of "binade x" k] by (simp add: x_def)
  then have e: "ulp_exponent x \<le> k" using k x by (simp add: ulp_exponent_def)
  have "x / 2 powi ulp_exponent x = of_int (2 ^ nat (k - ulp_exponent x))"
    using powi2_nat [OF e, folded x_def, symmetric] by (simp add: nonzero_divide_eq_eq)
  then have "fl x = of_int (2 ^ nat (k - ulp_exponent x)) * 2 powi ulp_exponent x" using x by (simp only: fl_def round_even_of_int) simp
  then show ?thesis using powi2_nat [OF e, folded x_def, symmetric] by (simp only: x_def [symmetric])
qed

lemma to_float_small: "fl x = x \<Longrightarrow> \<bar>x\<bar> \<le> 2 ^ 53 \<Longrightarrow> to_float x = Some x"
proof -
  have "(2::rat) ^ 53 < 2 ^ 1024" by (rule power_strict_increasing) simp_all
  moreover assume "fl x = x" "\<bar>x\<bar> \<le> 2 ^ 53"
  ultimately have "\<bar>fl x\<bar> < 2 ^ 1024" by (metis le_less_trans)
  then show ?thesis using \<open>fl x = x\<close> unfolding to_float_def by metis
qed

section \<open>What clients use\<close>

locale float_rounding =
  fixes rnd :: "rat \<Rightarrow> rat"
  assumes mono: "x \<le> y \<Longrightarrow> rnd x \<le> rnd y"
    and zero: "rnd 0 = 0"
begin

lemma nonneg: "0 \<le> x \<Longrightarrow> 0 \<le> rnd x"
  using mono [of 0 x] zero by simp

text \<open>A measured span that reached a threshold still does at a later time.\<close>

lemma span_mono: "w \<le> rnd (t - c) \<Longrightarrow> t \<le> t' \<Longrightarrow> w \<le> rnd (t' - c)"
  using mono [of "t - c" "t' - c"] by simp

lemma span_anti: "w \<le> rnd (t - c) \<Longrightarrow> c' \<le> c \<Longrightarrow> w \<le> rnd (t - c')"
  using mono [of "t - c" "t - c'"] by simp

lemma span_reached: "rnd w = w \<Longrightarrow> c + w \<le> t \<Longrightarrow> w \<le> rnd (t - c)"
  using mono [of w "t - c"] by simp

end

interpretation binary64: float_rounding fl
  by unfold_locales (simp_all add: fl_mono)

end
