(* ===== verification/Rate_Limit.thy ===== *)
theory Rate_Limit
  imports Py_Value Py_Float
begin

text \<open>
  The request limiter of the gateway (\<^verbatim>\<open>rate_limit.py\<close>): limits per grp from the catalogue, the parsers of
  the \<^verbatim>\<open>Remaining-Req\<close> header and of the penalty of a 418 response, and \<^verbatim>\<open>GroupRateLimiter\<close>, whose lock makes
  each of its sections one atomic step of the shared state. Times are finite binary64 floats and every
  arithmetic operation on them rounds. Header text is ASCII apart from the Korean units of a duration; the
  mail date parser, the ISO 8601 parser and the zone of naive timestamps are parameters.
\<close>

datatype rl_error = Rl_KeyError string | Rl_IndexError | Rl_OverflowError | Rl_TypeError | Rl_ValueError | Rl_NonFinite

section \<open>Numbers in text\<close>

text \<open>\<^verbatim>\<open>float(text)\<close>: \<open>None\<close> is a \<^verbatim>\<open>ValueError\<close>, \<open>Some None\<close> a NaN or an infinity.\<close>

definition digits_or_empty :: "string \<Rightarrow> bool" where
  "digits_or_empty s \<longleftrightarrow> s = [] \<or> digit_groups s"

definition unscored :: "string \<Rightarrow> string" where
  "unscored s = filter (\<lambda>c. c \<noteq> CHR ''_'') s"

definition float_exponent :: "string \<Rightarrow> int option" where
  "float_exponent s =
     (case s of [] \<Rightarrow> Some 0
      | c # r \<Rightarrow> let (neg, ds) = take_sign r in
          if digit_groups ds then Some ((if neg then -1 else 1) * int (digits_val (unscored ds))) else None)"

definition float_literal :: "string \<Rightarrow> rat option" where
  "float_literal s =
     (let mantissa = takeWhile (\<lambda>c. to_lower c \<noteq> CHR ''e'') s; tail = dropWhile (\<lambda>c. to_lower c \<noteq> CHR ''e'') s;
          whole = takeWhile (\<lambda>c. c \<noteq> CHR ''.'') mantissa; fraction = tl (dropWhile (\<lambda>c. c \<noteq> CHR ''.'') mantissa)
      in if digits_or_empty whole \<and> digits_or_empty fraction \<and> (whole \<noteq> [] \<or> fraction \<noteq> [])
         then map_option (\<lambda>e. of_nat (digits_val (unscored (whole @ fraction))) *
                10 powi (e - int (length (unscored fraction)))) (float_exponent tail)
         else None)"

definition float_of_text :: "string \<Rightarrow> rat option option" where
  "float_of_text s =
     (let (neg, body) = take_sign (strip s) in
      if map to_lower body \<in> {''inf'', ''infinity'', ''nan''} then Some None
      else map_option (\<lambda>q. to_float (if neg then - q else q)) (float_literal body))"

section \<open>Limits of the catalogue\<close>

type_synonym rate_limits = "(string \<times> int \<times> rat) list"

definition dict_item :: "py_dict \<Rightarrow> string \<Rightarrow> rl_error + py_value" where
  "dict_item d k = (case map_of d k of None \<Rightarrow> Inl (Rl_KeyError k) | Some v \<Rightarrow> Inr v)"

definition as_dict :: "py_value \<Rightarrow> rl_error + py_dict" where
  "as_dict v = (case v of PyDict d \<Rightarrow> Inr d | _ \<Rightarrow> Inl Rl_TypeError)"

definition as_list :: "py_value \<Rightarrow> rl_error + py_value list" where
  "as_list v = (case v of PyList xs \<Rightarrow> Inr xs | _ \<Rightarrow> Inl Rl_TypeError)"

definition as_text :: "py_value \<Rightarrow> rl_error + string" where
  "as_text v = (case v of PyStr s \<Rightarrow> Inr s | _ \<Rightarrow> Inl Rl_TypeError)"

definition as_int :: "py_value \<Rightarrow> rl_error + int" where
  "as_int v = (case v of PyInt i \<Rightarrow> Inr i | _ \<Rightarrow> Inl Rl_TypeError)"

definition int_to_float :: "int \<Rightarrow> rl_error + rat" where
  "int_to_float i = (case to_float (of_int i) of None \<Rightarrow> Inl Rl_OverflowError | Some x \<Rightarrow> Inr x)"

text \<open>\<^verbatim>\<open>float(value)\<close>; values that are not finite are outside the model of the limiter.\<close>

definition float_of :: "py_value \<Rightarrow> rl_error + rat" where
  "float_of v =
     (case v of
        PyInt i \<Rightarrow> int_to_float i
      | PyBool b \<Rightarrow> Inr (if b then 1 else 0)
      | PyFloat r q \<Rightarrow> (case q of None \<Rightarrow> Inl Rl_NonFinite | Some x \<Rightarrow> Inr x)
      | PyStr s \<Rightarrow> (case float_of_text s of None \<Rightarrow> Inl Rl_ValueError | Some None \<Rightarrow> Inl Rl_NonFinite | Some (Some x) \<Rightarrow> Inr x)
      | _ \<Rightarrow> Inl Rl_TypeError)"

definition group_limit :: "py_dict \<Rightarrow> string \<Rightarrow> rl_error + string \<times> int \<times> rat" where
  "group_limit specifications grp =
     res_bind (res_bind (dict_item specifications grp) as_dict) (\<lambda>spec.
     res_bind (res_bind (dict_item spec ''requests'') as_int) (\<lambda>requests.
     res_bind (res_bind (dict_item spec ''seconds'') float_of) (\<lambda>seconds.
     Inr (grp, requests, seconds))))"

definition endpoint_group :: "py_value \<Rightarrow> rl_error + string" where
  "endpoint_group endpoint =
     res_bind (as_dict endpoint) (\<lambda>e. res_bind (dict_item e ''rate_limit_group'') as_text)"

definition rate_limits_from_catalog :: "py_dict \<Rightarrow> rl_error + rate_limits" where
  "rate_limits_from_catalog catalog =
     res_bind (res_bind (dict_item catalog ''rest_endpoints'') as_list) (\<lambda>endpoints.
     res_bind (res_bind (dict_item catalog ''rate_limits'') as_dict) (\<lambda>specifications.
     res_bind (res_mapM endpoint_group endpoints) (\<lambda>groups.
     res_mapM (group_limit specifications) (sorted_set groups))))"

section \<open>The Remaining-Req header\<close>

text \<open>\<^verbatim>\<open>value.split(sep)\<close> and \<^verbatim>\<open>component.split("=", maxsplit=1)\<close>.\<close>

fun split_on :: "char \<Rightarrow> string \<Rightarrow> string list" where
  "split_on sep [] = [[]]"
| "split_on sep (c # cs) =
     (if c = sep then [] # split_on sep cs
      else case split_on sep cs of w # ws \<Rightarrow> (c # w) # ws | [] \<Rightarrow> [[c]])"

definition header_fields :: "string \<Rightarrow> (string \<times> string) list" where
  "header_fields value =
     map (\<lambda>component. (strip (takeWhile (\<lambda>c. c \<noteq> CHR ''='') component),
                       strip (tl (dropWhile (\<lambda>c. c \<noteq> CHR ''='') component))))
       (filter (\<lambda>component. CHR ''='' \<in> set component) (split_on (CHR '';'') value))"

definition parse_remaining_req :: "string option \<Rightarrow> (string \<times> int) option" where
  "parse_remaining_req value =
     (case value of None \<Rightarrow> None
      | Some text \<Rightarrow>
          let field = map_of (rev (header_fields text)) in
          (case (field ''group'', field ''sec'') of
             (Some grp, Some quota) \<Rightarrow>
               if quota \<noteq> [] \<and> list_all is_digit quota then Some (grp, int (digits_val quota)) else None
           | _ \<Rightarrow> None))"

section \<open>The limiter\<close>

record limiter =
  rl_limits :: rate_limits
  rl_calls :: "string \<Rightarrow> rat list"
  rl_blocked_until :: "string \<rightharpoonup> rat"

definition new_limiter :: "rate_limits \<Rightarrow> limiter" where
  "new_limiter limits = \<lparr>rl_limits = limits, rl_calls = (\<lambda>_. []), rl_blocked_until = Map.empty\<rparr>"

text \<open>One pass through the lock: \<open>None\<close> is a granted request, \<open>Some w\<close> a sleep of \<open>w\<close> seconds before the next pass.\<close>

definition acquire_section :: "limiter \<Rightarrow> string \<Rightarrow> rat \<Rightarrow> rl_error + limiter \<times> rat option" where
  "acquire_section st grp now =
     (case map_of (rl_limits st) grp of None \<Rightarrow> Inl (Rl_KeyError grp)
      | Some (limit, window) \<Rightarrow>
          let blocked_until = (case rl_blocked_until st grp of None \<Rightarrow> now | Some t \<Rightarrow> t) in
          if now < blocked_until then Inr (st, Some (fl (blocked_until - now)))
          else
            let calls = dropWhile (\<lambda>c. window \<le> fl (now - c)) (rl_calls st grp);
                st' = st\<lparr>rl_calls := (rl_calls st)(grp := calls)\<rparr> in
            if int (length calls) < limit
            then Inr (st'\<lparr>rl_calls := (rl_calls st')(grp := calls @ [now])\<rparr>, None)
            else case calls of [] \<Rightarrow> Inl Rl_IndexError
              | c # _ \<Rightarrow> Inr (st', Some (fl (window - fl (now - c)))))"

text \<open>The loop of \<^verbatim>\<open>acquire\<close> over the successive readings of the clock: the time of the grant, or \<open>None\<close> when
  the readings end while it still waits. The sleeps requested on the way come with the result.\<close>

fun acquire :: "limiter \<Rightarrow> string \<Rightarrow> rat list \<Rightarrow> rl_error + limiter \<times> rat list \<times> rat option" where
  "acquire st grp [] = Inr (st, [], None)"
| "acquire st grp (now # readings) =
     res_bind (acquire_section st grp now) (\<lambda>(st', wait_seconds).
     case wait_seconds of
       None \<Rightarrow> Inr (st', [], Some now)
     | Some w \<Rightarrow> res_map (\<lambda>(st'', ws, granted). (st'', w # ws, granted)) (acquire st' grp readings))"

definition extend_block :: "limiter \<Rightarrow> string \<Rightarrow> rat \<Rightarrow> limiter" where
  "extend_block st grp t =
     st\<lparr>rl_blocked_until := (rl_blocked_until st)(grp \<mapsto>
        max (case rl_blocked_until st grp of None \<Rightarrow> 0 | Some u \<Rightarrow> u) t)\<rparr>"

definition observe :: "limiter \<Rightarrow> string option \<Rightarrow> rat \<Rightarrow> limiter" where
  "observe st value now =
     (case parse_remaining_req value of None \<Rightarrow> st
      | Some (grp, second_quota) \<Rightarrow>
          if second_quota = 0 \<and> map_of (rl_limits st) grp \<noteq> None then extend_block st grp (fl (now + 1)) else st)"

definition defer_group :: "limiter \<Rightarrow> string \<Rightarrow> rat \<Rightarrow> rat \<Rightarrow> limiter" where
  "defer_group st grp seconds now = extend_block st grp (fl (now + seconds))"

section \<open>Interleaved use\<close>

text \<open>Threads share one limiter; each event is one pass through the lock at a reading of the monotonic clock.\<close>

datatype rl_event =
    Granted string rat
  | Delayed string rat rat
  | Observed "string option" rat
  | Deferred string rat rat

inductive limiter_run :: "limiter \<Rightarrow> rat \<Rightarrow> rl_event list \<Rightarrow> limiter \<Rightarrow> rat \<Rightarrow> bool" for start t0 where
  run_start: "limiter_run start t0 [] start t0"
| run_grant: "limiter_run start t0 es st t \<Longrightarrow> t \<le> now \<Longrightarrow> acquire_section st grp now = Inr (st', None) \<Longrightarrow>
    limiter_run start t0 (es @ [Granted grp now]) st' now"
| run_delay: "limiter_run start t0 es st t \<Longrightarrow> t \<le> now \<Longrightarrow> acquire_section st grp now = Inr (st', Some w) \<Longrightarrow>
    limiter_run start t0 (es @ [Delayed grp now w]) st' now"
| run_observe: "limiter_run start t0 es st t \<Longrightarrow> t \<le> now \<Longrightarrow>
    limiter_run start t0 (es @ [Observed value now]) (observe st value now) now"
| run_defer: "limiter_run start t0 es st t \<Longrightarrow> t \<le> now \<Longrightarrow>
    limiter_run start t0 (es @ [Deferred grp seconds now]) (defer_group st grp seconds now) now"

text \<open>The times at which a group was granted a request, oldest first.\<close>

fun grants :: "string \<Rightarrow> rl_event list \<Rightarrow> rat list" where
  "grants grp (Granted g t # es) = (if g = grp then t # grants grp es else grants grp es)"
| "grants grp (_ # es) = grants grp es"
| "grants grp [] = []"

lemma grants_append [simp]: "grants grp (es @ es') = grants grp es @ grants grp es'"
  by (induction grp es rule: grants.induct) simp_all

text \<open>The instant an event keeps a group blocked until.\<close>

definition event_block :: "rate_limits \<Rightarrow> string \<Rightarrow> rl_event \<Rightarrow> rat option" where
  "event_block limits grp e =
     (case e of
        Deferred g seconds t \<Rightarrow> if g = grp then Some (fl (t + seconds)) else None
      | Observed value t \<Rightarrow>
          if parse_remaining_req value = Some (grp, 0) \<and> map_of limits grp \<noteq> None then Some (fl (t + 1)) else None
      | _ \<Rightarrow> None)"

section \<open>One section\<close>

lemmas section_splits = option.splits prod.splits if_splits list.splits

lemma section_frame:
  "acquire_section st grp now = Inr (st', w) \<Longrightarrow>
    rl_limits st' = rl_limits st \<and> rl_blocked_until st' = rl_blocked_until st \<and>
    (\<forall>g. g \<noteq> grp \<longrightarrow> rl_calls st' g = rl_calls st g)"
  by (auto simp: acquire_section_def Let_def split: section_splits)

lemma section_granted:
  assumes "acquire_section st grp now = Inr (st', None)" "map_of (rl_limits st) grp = Some (limit, window)"
  shows "rl_calls st' grp = dropWhile (\<lambda>c. window \<le> fl (now - c)) (rl_calls st grp) @ [now] \<and>
    int (length (rl_calls st' grp)) \<le> limit \<and> (\<forall>t. rl_blocked_until st grp = Some t \<longrightarrow> t \<le> now)"
  using assms by (auto simp: acquire_section_def Let_def split: section_splits)

lemma section_delayed:
  assumes "acquire_section st grp now = Inr (st', Some w)" "map_of (rl_limits st) grp = Some (limit, window)"
  shows "0 \<le> w \<and> (rl_calls st' grp = rl_calls st grp \<or>
    rl_calls st' grp = dropWhile (\<lambda>c. window \<le> fl (now - c)) (rl_calls st grp))"
proof -
  have "0 \<le> fl (window - fl (now - c))" if "dropWhile (\<lambda>c. window \<le> fl (now - c)) (rl_calls st grp) = c # cs" for c cs
    using hd_dropWhile [of "\<lambda>c. window \<le> fl (now - c)" "rl_calls st grp"] that by (intro binary64.nonneg) simp
  then show ?thesis
    using assms by (auto simp: acquire_section_def Let_def binary64.nonneg split: section_splits)
qed

lemma observe_frame [simp]:
  "rl_limits (observe st v now) = rl_limits st" "rl_calls (observe st v now) = rl_calls st"
  by (auto simp: observe_def extend_block_def split: option.splits)

lemma defer_frame [simp]:
  "rl_limits (defer_group st g s now) = rl_limits st" "rl_calls (defer_group st g s now) = rl_calls st"
  by (auto simp: defer_group_def extend_block_def)

section \<open>The invariant\<close>

text \<open>The recorded calls are the newest grants, never more than the limit, and every grant no longer recorded
  is at least a window old.\<close>

definition group_inv :: "int \<Rightarrow> rat \<Rightarrow> rat list \<Rightarrow> rat list \<Rightarrow> rat \<Rightarrow> bool" where
  "group_inv limit window granted calls t \<longleftrightarrow> sorted granted \<and> (\<forall>g\<in>set granted. g \<le> t) \<and>
     (\<exists>old. granted = old @ calls \<and> (\<forall>c\<in>set old. window \<le> fl (t - c))) \<and>
     (0 < limit \<longrightarrow> int (length calls) \<le> limit) \<and>
     (\<forall>i. i + nat limit < length granted \<longrightarrow> window \<le> fl (granted ! (i + nat limit) - granted ! i))"

lemma group_inv_later: "group_inv limit window granted calls t \<Longrightarrow> t \<le> t' \<Longrightarrow> group_inv limit window granted calls t'"
proof -
  assume inv: "group_inv limit window granted calls t" and t: "t \<le> t'"
  obtain old where old: "granted = old @ calls" "\<forall>c\<in>set old. window \<le> fl (t - c)"
    using inv by (auto simp: group_inv_def)
  have "\<forall>c\<in>set old. window \<le> fl (t' - c)" using old(2) binary64.span_mono [OF _ t] by blast
  moreover have "\<forall>g\<in>set granted. g \<le> t'" using inv t by (auto simp: group_inv_def)
  ultimately show ?thesis using inv old(1) unfolding group_inv_def by blast
qed

lemma group_inv_drop:
  assumes "group_inv limit window granted calls t"
  shows "group_inv limit window granted (dropWhile (\<lambda>c. window \<le> fl (t - c)) calls) t"
proof -
  obtain old where old: "granted = old @ calls" "\<forall>c\<in>set old. window \<le> fl (t - c)"
    using assms by (auto simp: group_inv_def)
  have "granted = (old @ takeWhile (\<lambda>c. window \<le> fl (t - c)) calls) @ dropWhile (\<lambda>c. window \<le> fl (t - c)) calls"
    by (simp add: old)
  moreover have "\<forall>c\<in>set (old @ takeWhile (\<lambda>c. window \<le> fl (t - c)) calls). window \<le> fl (t - c)"
    using old(2) by (auto dest: set_takeWhileD)
  moreover have "length (dropWhile (\<lambda>c. window \<le> fl (t - c)) calls) \<le> length calls" by (rule length_dropWhile_le)
  ultimately have "\<exists>old. granted = old @ dropWhile (\<lambda>c. window \<le> fl (t - c)) calls \<and> (\<forall>c\<in>set old. window \<le> fl (t - c))"
    and "0 < limit \<longrightarrow> int (length (dropWhile (\<lambda>c. window \<le> fl (t - c)) calls)) \<le> limit"
    using assms unfolding group_inv_def by (blast, linarith)
  then show ?thesis using assms unfolding group_inv_def by blast
qed

lemma group_inv_grant:
  assumes inv: "group_inv limit window granted calls t" and room: "int (length calls) < limit"
  shows "group_inv limit window (granted @ [t]) (calls @ [t]) t"
proof -
  obtain old where old: "granted = old @ calls" "\<forall>c\<in>set old. window \<le> fl (t - c)"
    using inv by (auto simp: group_inv_def)
  have spaced: "window \<le> fl ((granted @ [t]) ! (i + nat limit) - (granted @ [t]) ! i)"
    if i: "i + nat limit < length (granted @ [t])" for i
  proof (cases "i + nat limit < length granted")
    case True
    then show ?thesis using inv by (simp add: group_inv_def nth_append)
  next
    case False
    then have "i + nat limit = length granted" using i by simp
    moreover have "i < length old" using calculation old(1) room by simp
    ultimately show ?thesis using old by (simp add: nth_append)
  qed
  show ?thesis
    unfolding group_inv_def
  proof (intro conjI)
    show "\<exists>old. granted @ [t] = old @ calls @ [t] \<and> (\<forall>c\<in>set old. window \<le> fl (t - c))" using old by auto
  qed (use inv room spaced in \<open>auto simp: group_inv_def sorted_append\<close>)
qed

lemma run_limits: "limiter_run start t0 es st t \<Longrightarrow> rl_limits st = rl_limits start"
  by (induction rule: limiter_run.induct) (auto dest: section_frame)

lemma run_group_inv:
  assumes "limiter_run (new_limiter limits) t0 es st t" and lim: "map_of limits grp = Some (limit, window)"
  shows "group_inv limit window (grants grp es) (rl_calls st grp) t"
  using assms(1)
proof (induction rule: limiter_run.induct)
  case run_start
  then show ?case by (simp add: group_inv_def new_limiter_def)
next
  case (run_grant es st t now g st')
  have inv: "group_inv limit window (grants grp es) (rl_calls st grp) now"
    using run_grant.IH run_grant.hyps(2) by (rule group_inv_later)
  have limits: "map_of (rl_limits st) grp = Some (limit, window)"
    using run_limits [OF run_grant.hyps(1)] lim by (simp add: new_limiter_def)
  show ?case
  proof (cases "g = grp")
    case True
    let ?calls = "dropWhile (\<lambda>c. window \<le> fl (now - c)) (rl_calls st grp)"
    have calls: "rl_calls st' grp = ?calls @ [now]" "int (length (rl_calls st' grp)) \<le> limit"
      using section_granted [OF run_grant.hyps(3) [unfolded True] limits] by blast+
    then have "int (length ?calls) < limit" by simp
    then show ?thesis using group_inv_grant [OF group_inv_drop [OF inv]] True calls(1) by simp
  next
    case False
    then show ?thesis using section_frame [OF run_grant.hyps(3)] inv by simp
  qed
next
  case (run_delay es st t now g st' w)
  have inv: "group_inv limit window (grants grp es) (rl_calls st grp) now"
    using run_delay.IH run_delay.hyps(2) by (rule group_inv_later)
  have limits: "map_of (rl_limits st) grp = Some (limit, window)"
    using run_limits [OF run_delay.hyps(1)] lim by (simp add: new_limiter_def)
  show ?case
  proof (cases "g = grp")
    case True
    then show ?thesis
      using section_delayed [OF run_delay.hyps(3) [unfolded True] limits] inv group_inv_drop [OF inv] by auto
  next
    case False
    then show ?thesis using section_frame [OF run_delay.hyps(3)] inv by simp
  qed
qed (auto intro: group_inv_later)
lemma run_blocked:
  assumes "limiter_run (new_limiter limits) t0 es st t" and "e \<in> set es" and "event_block limits grp e = Some u"
  shows "\<exists>b. rl_blocked_until st grp = Some b \<and> u \<le> b"
  using assms(1,2)
proof (induction rule: limiter_run.induct)
  case (run_observe es st t now v)
  have "rl_limits st = limits" using run_limits [OF run_observe.hyps(1)] by (simp add: new_limiter_def)
  then show ?case
    using run_observe.IH run_observe.prems assms(3)
    by (auto simp: observe_def extend_block_def event_block_def le_max_iff_disj split: option.splits if_splits prod.splits)
next
  case (run_defer es st t now g seconds)
  then show ?case
    using assms(3)
    by (auto simp: defer_group_def extend_block_def event_block_def le_max_iff_disj split: option.splits if_splits prod.splits)
qed (use assms(3) in \<open>auto simp: event_block_def dest: section_frame\<close>)

lemma run_respects_block:
  assumes "limiter_run (new_limiter limits) t0 es st t" and "es = pre @ e # post"
    and "event_block limits grp e = Some u"
  shows "\<forall>g\<in>set (grants grp post). u \<le> g"
  using assms(1,2)
proof (induction arbitrary: post rule: limiter_run.induct)
  case (run_grant es st t now g st')
  show ?case
  proof (cases post rule: rev_cases)
    case (snoc post' e')
    then have eq: "es = pre @ e # post'" "e' = Granted g now" using run_grant.prems by auto
    have "u \<le> now" if "g = grp"
    proof -
      obtain b where "rl_blocked_until st grp = Some b" "u \<le> b"
        using run_blocked [OF run_grant.hyps(1) _ assms(3)] eq(1) by auto
      moreover have "b \<le> now"
        using run_grant.hyps(3) calculation(1) that
        by (auto simp: acquire_section_def Let_def split: section_splits)
      ultimately show ?thesis by linarith
    qed
    then show ?thesis using run_grant.IH [OF eq(1)] eq(2) snoc by auto
  qed simp
next
  case (run_delay es st t now g st' w)
  then show ?case by (cases post rule: rev_cases) auto
next
  case (run_observe es st t now v)
  then show ?case by (cases post rule: rev_cases) auto
next
  case (run_defer es st t now g seconds)
  then show ?case by (cases post rule: rev_cases) auto
qed simp

text \<open>C18. However many threads share the limiter and however their passes through the lock interleave, between a
  request of a group and the one granted \<open>limit\<close> places later at least the window of the group has passed by the
  limiter's own measure, and after a penalty or an exhausted quota has been reported no request of that group is
  granted before the reported time.\<close>

theorem limiter_never_exceeds:
  assumes "limiter_run (new_limiter limits) t0 es st t" and "map_of limits grp = Some (limit, window)"
  shows "(\<forall>i. i + nat limit < length (grants grp es) \<longrightarrow>
      window \<le> fl (grants grp es ! (i + nat limit) - grants grp es ! i)) \<and>
    (\<forall>pre e post u. es = pre @ e # post \<longrightarrow> event_block limits grp e = Some u \<longrightarrow> (\<forall>g\<in>set (grants grp post). u \<le> g))"
  using run_group_inv [OF assms] run_respects_block [OF assms(1)] by (simp add: group_inv_def)

section \<open>Every request is granted in the end\<close>

definition all_expired :: "limiter \<Rightarrow> string \<Rightarrow> rat \<Rightarrow> rat \<Rightarrow> bool" where
  "all_expired st grp window t \<longleftrightarrow> (\<forall>b. rl_blocked_until st grp = Some b \<longrightarrow> b \<le> t) \<and>
     (\<forall>c\<in>set (rl_calls st grp). c + window \<le> t)"

lemma section_total:
  assumes "map_of (rl_limits st) grp = Some (limit, window)" "0 < limit"
  shows "\<exists>st' w. acquire_section st grp now = Inr (st', w)"
proof -
  define calls where "calls = dropWhile (\<lambda>c. window \<le> fl (now - c)) (rl_calls st grp)"
  have "int (length calls) < limit \<or> (\<exists>c cs. calls = c # cs)" using assms(2) by (cases calls) auto
  then show ?thesis
    using assms unfolding acquire_section_def by (auto simp: Let_def calls_def [symmetric] split: option.splits)
qed

lemma section_ready_grants:
  assumes "map_of (rl_limits st) grp = Some (limit, window)" "0 < limit" "int (length (rl_calls st grp)) \<le> limit"
    and "fl window = window" "all_expired st grp window now"
  shows "\<exists>st'. acquire_section st grp now = Inr (st', None)"
proof -
  have "int (length (dropWhile (\<lambda>c. window \<le> fl (now - c)) (rl_calls st grp))) < limit"
  proof (cases "rl_calls st grp")
    case (Cons c cs)
    then have "window \<le> fl (now - c)" using assms(4,5) by (intro binary64.span_reached) (simp_all add: all_expired_def)
    moreover have "length (dropWhile (\<lambda>c. window \<le> fl (now - c)) cs) \<le> length cs" by (rule length_dropWhile_le)
    ultimately show ?thesis using assms(3) Cons by simp
  qed (use assms(2) in simp)
  then show ?thesis using assms(1,5) by (auto simp: acquire_section_def Let_def all_expired_def split: option.splits)
qed

text \<open>A pass that does not grant leaves the state no less ready.\<close>

lemma section_keeps_ready:
  assumes "acquire_section st grp now = Inr (st', Some w)" "map_of (rl_limits st) grp = Some (limit, window)"
    and "int (length (rl_calls st grp)) \<le> limit"
  shows "int (length (rl_calls st' grp)) \<le> limit \<and> (\<exists>k. rl_calls st' grp = drop k (rl_calls st grp)) \<and>
    map_of (rl_limits st') grp = Some (limit, window) \<and> rl_blocked_until st' = rl_blocked_until st"
proof -
  have "\<exists>k. rl_calls st' grp = drop k (rl_calls st grp)"
    using section_delayed [OF assms(1,2)] dropWhile_eq_drop [of _ "rl_calls st grp"] by (metis drop0)
  then show ?thesis using section_frame [OF assms(1)] assms(2,3) by auto
qed

lemma acquire_grants:
  assumes "map_of (rl_limits st) grp = Some (limit, window)" "0 < limit" "int (length (rl_calls st grp)) \<le> limit"
    and "fl window = window" "\<exists>t\<in>set readings. all_expired st grp window t"
  shows "\<exists>st' ws t. acquire st grp readings = Inr (st', ws, Some t) \<and> t \<in> set readings \<and> (\<forall>w\<in>set ws. 0 \<le> w) \<and>
    (\<exists>calls. rl_calls st' grp = calls @ [t])"
  using assms
proof (induction readings arbitrary: st)
  case (Cons now readings)
  obtain s w where s: "acquire_section st grp now = Inr (s, w)" using section_total [OF Cons.prems(1,2)] by blast
  show ?case
  proof (cases w)
    case None
    then show ?thesis using s section_granted [OF _ Cons.prems(1), of now s] by auto
  next
    case (Some wait)
    have "\<not> all_expired st grp window now"
      using section_ready_grants [OF Cons.prems(1-4), of now] s Some by auto
    then obtain t where t: "t \<in> set readings" "all_expired st grp window t" using Cons.prems(5) by auto
    have keep: "int (length (rl_calls s grp)) \<le> limit" "\<exists>k. rl_calls s grp = drop k (rl_calls st grp)"
      "map_of (rl_limits s) grp = Some (limit, window)" "rl_blocked_until s = rl_blocked_until st"
      using section_keeps_ready [OF s [unfolded Some] Cons.prems(1,3)] by simp_all
    have "all_expired s grp window t" using t(2) keep(2,4) unfolding all_expired_def by (metis in_set_dropD)
    then obtain st' ws t' where rest: "acquire s grp readings = Inr (st', ws, Some t')" "t' \<in> set readings" "\<forall>w\<in>set ws. 0 \<le> w"
        "\<exists>calls. rl_calls st' grp = calls @ [t']"
      using Cons.IH [OF keep(3) Cons.prems(2) keep(1) Cons.prems(4)] t(1) by blast
    moreover have "0 \<le> wait" using section_delayed [OF s [unfolded Some] Cons.prems(1)] by simp
    ultimately show ?thesis using s Some by auto
  qed
qed simp

text \<open>C19. A waiting thread is not starved by the limiter: in every state the limiter can reach, a request of a known
  group whose limit is positive is granted as soon as the clock has been read once after the penalty of the group
  and the window of its recorded calls have passed. It ends no later than at that reading, it asks only for sleeps
  that are not negative, and the grant is recorded at its time.\<close>

theorem acquire_returns:
  assumes "limiter_run (new_limiter limits) t0 es st t" and "map_of limits grp = Some (limit, window)"
    and "0 < limit" and "fl window = window" and "\<exists>u\<in>set readings. all_expired st grp window u"
  shows "\<exists>st' ws u. acquire st grp readings = Inr (st', ws, Some u) \<and> u \<in> set readings \<and> (\<forall>w\<in>set ws. 0 \<le> w) \<and>
    (\<exists>calls. rl_calls st' grp = calls @ [u])"
proof -
  have "map_of (rl_limits st) grp = Some (limit, window)"
    using run_limits [OF assms(1)] assms(2) by (simp add: new_limiter_def)
  moreover have "int (length (rl_calls st grp)) \<le> limit"
    using run_group_inv [OF assms(1,2)] assms(3) by (simp add: group_inv_def)
  ultimately show ?thesis using acquire_grants [OF _ assms(3) _ assms(4,5)] by blast
qed

section \<open>Penalties\<close>

text \<open>The parsers of the standard library the penalty relies on, and the instant of a naive local timestamp.\<close>

record date_parsers =
  dp_parsedate :: "string \<Rightarrow> datetime option"
  dp_fromiso :: "string \<Rightarrow> datetime option"
  dp_local :: "int \<Rightarrow> int"

definition epoch_us :: int where "epoch_us = dt_combine 1970 1 1 0 0 0 0"

definition timestamp :: "date_parsers \<Rightarrow> datetime \<Rightarrow> rat" where
  "timestamp env d = fl (of_int ((if is_aware d then instant d else dp_local env (wall d)) - epoch_us) / 1000000)"

definition positive_finite :: "rat option \<Rightarrow> rat option" where
  "positive_finite v = (case v of None \<Rightarrow> None | Some x \<Rightarrow> if 0 < x then Some x else None)"

definition deadline_number :: "rat option \<Rightarrow> rat \<Rightarrow> rat option" where
  "deadline_number v current =
     (case v of None \<Rightarrow> None
      | Some x \<Rightarrow>
          let deadline_value = (if 0 < current \<and> fl (current * 100) < x then fl (x / 1000) else x) in
          positive_finite (to_float (deadline_value - current)))"

text \<open>\<^verbatim>\<open>value.replace("Z", "+00:00")\<close>.\<close>

definition replace_z :: "string \<Rightarrow> string" where
  "replace_z s = concat (map (\<lambda>c. if c = CHR ''Z'' then ''+00:00'' else [c]) s)"

definition deadline_text :: "date_parsers \<Rightarrow> string \<Rightarrow> rat \<Rightarrow> rat option" where
  "deadline_text env s current =
     (case float_of_text s of Some x \<Rightarrow> deadline_number x current
      | None \<Rightarrow>
          (case (case dp_parsedate env s of Some d \<Rightarrow> Some d | None \<Rightarrow> dp_fromiso env (replace_z s)) of
             None \<Rightarrow> None
           | Some d \<Rightarrow> positive_finite (to_float (timestamp env d - current))))"

definition deadline_seconds :: "date_parsers \<Rightarrow> py_value \<Rightarrow> rat \<Rightarrow> rl_error + rat option" where
  "deadline_seconds env v current =
     (case v of
        PyInt i \<Rightarrow> res_map (\<lambda>x. deadline_number (Some x) current) (int_to_float i)
      | PyFloat r q \<Rightarrow> Inr (deadline_number q current)
      | PyStr s \<Rightarrow> Inr (deadline_text env s current)
      | _ \<Rightarrow> Inr None)"

definition duration_or_deadline :: "date_parsers \<Rightarrow> py_value \<Rightarrow> rat \<Rightarrow> rl_error + rat option" where
  "duration_or_deadline env v current =
     (case v of
        PyInt i \<Rightarrow> res_map (\<lambda>x. positive_finite (Some x)) (int_to_float i)
      | PyFloat r q \<Rightarrow> Inr (positive_finite q)
      | PyStr s \<Rightarrow> (case float_of_text s of None \<Rightarrow> deadline_seconds env v current | Some x \<Rightarrow> Inr (positive_finite x))
      | _ \<Rightarrow> Inr None)"

definition DURATION_KEYS :: "string list" where
  "DURATION_KEYS = [''retry_after'', ''retry_after_seconds'', ''block_duration'', ''block_duration_seconds'',
     ''blocked_for'', ''remaining_seconds'']"

definition DEADLINE_KEYS :: "string list" where
  "DEADLINE_KEYS = [''blocked_until'', ''block_until'', ''retry_at'']"

text \<open>The units of a duration in the order of the alternatives, with their seconds; a trailing \<open>s\<close> is optional.
  The last three are Korean.\<close>

definition duration_units :: "(string \<times> bool \<times> rat) list" where
  "duration_units =
     [(''second'', True, 1), (''sec'', True, 1), (''minute'', True, 60), (''min'', True, 60), (''hour'', True, 3600),
      ([CHR 0xEC, CHR 0xB4, CHR 0x88], False, 1), ([CHR 0xEB, CHR 0xB6, CHR 0x84], False, 60),
      ([CHR 0xEC, CHR 0x8B, CHR 0x9C, CHR 0xEA, CHR 0xB0, CHR 0x84], False, 3600)]"

definition match_unit :: "string \<Rightarrow> (rat \<times> string) option" where
  "match_unit s =
     (case find (\<lambda>(name, plural, k). take (length name) (map to_lower s) = name) duration_units of
        None \<Rightarrow> None
      | Some (name, plural, k) \<Rightarrow>
          let rest = drop (length name) s in
          Some (k, if plural \<and> rest \<noteq> [] \<and> to_lower (hd rest) = CHR ''s'' then tl rest else rest))"

definition match_duration :: "string \<Rightarrow> (rat \<times> rat \<times> string) option" where
  "match_duration s =
     (let whole = takeWhile is_digit s; rest = dropWhile is_digit s;
          fraction = (case rest of c # r \<Rightarrow> if c = CHR ''.'' then takeWhile is_digit r else [] | [] \<Rightarrow> []);
          rest' = (if fraction = [] then rest else drop (Suc (length fraction)) rest)
      in if whole = [] then None
         else map_option (\<lambda>(k, tail). (of_nat (digits_val (whole @ fraction)) / 10 ^ length fraction, k, tail))
                (match_unit (dropWhile is_space rest')))"

lemma match_unit_shorter: "match_unit s = Some (k, r) \<Longrightarrow> length r \<le> length s"
  by (auto simp: match_unit_def Let_def split: option.splits if_splits)

lemma match_duration_shorter: "match_duration s = Some (q, k, r) \<Longrightarrow> length r < length s"
proof -
  assume m: "match_duration s = Some (q, k, r)"
  define whole where "whole = takeWhile is_digit s"
  define rest where "rest = dropWhile is_digit s"
  have ne: "whole \<noteq> []" using m by (auto simp: match_duration_def Let_def whole_def split: if_splits)
  have s: "length s = length whole + length rest" by (simp add: whole_def rest_def flip: length_append)
  obtain n where "match_unit (dropWhile is_space (drop n rest)) = Some (k, r)"
  proof (cases "(case rest of c # r \<Rightarrow> if c = CHR ''.'' then takeWhile is_digit r else [] | [] \<Rightarrow> []) = []")
    case True
    then show ?thesis using m that [of 0] by (auto simp: match_duration_def Let_def rest_def split: if_splits)
  next
    case False
    then show ?thesis using m that by (auto simp: match_duration_def Let_def rest_def split: if_splits)
  qed
  then have "length r \<le> length (dropWhile is_space (drop n rest))" by (rule match_unit_shorter)
  also have "\<dots> \<le> length rest" using length_dropWhile_le [of is_space "drop n rest"] by simp
  finally show ?thesis using s ne by (cases whole) simp_all
qed

function find_durations :: "string \<Rightarrow> (rat \<times> rat) list" where
  "find_durations [] = []"
| "find_durations (c # cs) =
     (case match_duration (c # cs) of None \<Rightarrow> find_durations cs | Some (q, k, rest) \<Rightarrow> (q, k) # find_durations rest)"
  by pat_completeness auto
termination
  by (relation "measure length") (auto dest: match_duration_shorter)

definition text_candidates :: "string \<Rightarrow> rat list" where
  "text_candidates s =
     List.map_filter (\<lambda>(q, k). case to_float q of None \<Rightarrow> None | Some amount \<Rightarrow> positive_finite (to_float (amount * k)))
       (find_durations s)"

fun camel_breaks :: "string \<Rightarrow> string" where
  "camel_breaks (c # d # cs) =
     (let lower = 97 \<le> (of_char c :: nat) \<and> (of_char c :: nat) \<le> 122; upper = 65 \<le> (of_char d :: nat) \<and> (of_char d :: nat) \<le> 90 in
      if (lower \<or> is_digit c) \<and> upper then c # CHR ''_'' # camel_breaks (d # cs) else c # camel_breaks (d # cs))"
| "camel_breaks cs = cs"

definition normalize_key :: "string \<Rightarrow> string" where
  "normalize_key k = map (\<lambda>c. to_lower (if c = CHR ''-'' then CHR ''_'' else c)) (camel_breaks k)"

definition key_candidate :: "date_parsers \<Rightarrow> rat \<Rightarrow> string \<Rightarrow> py_value \<Rightarrow> rl_error + rat option" where
  "key_candidate env current k v =
     (if normalize_key k \<in> set DURATION_KEYS then duration_or_deadline env v current
      else if normalize_key k \<in> set DEADLINE_KEYS then deadline_seconds env v current
      else Inr None)"

definition optional_list :: "'a option \<Rightarrow> 'a list" where
  "optional_list v = (case v of None \<Rightarrow> [] | Some x \<Rightarrow> [x])"

function collect_penalty_candidates :: "date_parsers \<Rightarrow> rat \<Rightarrow> py_value \<Rightarrow> rl_error + rat list" where
  "collect_penalty_candidates env current v =
     (case v of
        PyDict d \<Rightarrow> res_map concat (res_mapM (\<lambda>kv.
          res_bind (key_candidate env current (fst kv) (snd kv)) (\<lambda>own.
          res_map (\<lambda>nested. optional_list own @ nested) (collect_penalty_candidates env current (snd kv)))) d)
      | PyList xs \<Rightarrow> res_map concat (res_mapM (collect_penalty_candidates env current) xs)
      | PyStr s \<Rightarrow> Inr (text_candidates s)
      | _ \<Rightarrow> Inr [])"
  by pat_completeness auto
termination
  by (relation "measure (\<lambda>(env, current, v). size v)") (auto intro: size_list_mem size_dict_mem)

declare collect_penalty_candidates.simps [simp del]

definition penalty_candidates :: "date_parsers \<Rightarrow> string option \<Rightarrow> py_value \<Rightarrow> rat \<Rightarrow> rl_error + rat list" where
  "penalty_candidates env retry_after body current =
     res_bind (case retry_after of None \<Rightarrow> Inr None | Some s \<Rightarrow> duration_or_deadline env (PyStr s) current) (\<lambda>header.
     res_map (\<lambda>found. optional_list header @ found) (collect_penalty_candidates env current body))"

text \<open>\<^verbatim>\<open>float(ceil(max(...)))\<close> is exact: a float of \<open>2 ^ 53\<close> or more is an integer, and smaller integers are floats.\<close>

definition parse_penalty_seconds :: "date_parsers \<Rightarrow> string option \<Rightarrow> py_value \<Rightarrow> rat \<Rightarrow> rat \<Rightarrow> rl_error + rat" where
  "parse_penalty_seconds env retry_after body current fallback_seconds =
     res_map (\<lambda>candidates. case filter (\<lambda>c. 0 < c) candidates of
         [] \<Rightarrow> fallback_seconds
       | c # cs \<Rightarrow> of_int \<lceil>foldl max c cs\<rceil>)
     (penalty_candidates env retry_after body current)"
section \<open>What a penalty covers\<close>

text \<open>Where a candidate in seconds comes from: a duration in text, an entry under a known key at any depth, or the
  header.\<close>

inductive body_source :: "date_parsers \<Rightarrow> rat \<Rightarrow> py_value \<Rightarrow> rat \<Rightarrow> bool" for env current where
  source_text: "c \<in> set (text_candidates s) \<Longrightarrow> body_source env current (PyStr s) c"
| source_key: "(k, v) \<in> set d \<Longrightarrow> key_candidate env current k v = Inr (Some c) \<Longrightarrow> body_source env current (PyDict d) c"
| source_nested: "(k, v) \<in> set d \<Longrightarrow> body_source env current v c \<Longrightarrow> body_source env current (PyDict d) c"
| source_item: "v \<in> set xs \<Longrightarrow> body_source env current v c \<Longrightarrow> body_source env current (PyList xs) c"

inductive_simps body_source_simps:
  "body_source env current PyNone c" "body_source env current (PyBool b) c" "body_source env current (PyInt i) c"
  "body_source env current (PyFloat r q) c" "body_source env current (PyDecimal a) c" "body_source env current (PyDatetime t) c"
  "body_source env current (PyStr s) c" "body_source env current (PyDict d) c" "body_source env current (PyList xs) c"

definition penalty_source :: "date_parsers \<Rightarrow> string option \<Rightarrow> py_value \<Rightarrow> rat \<Rightarrow> rat \<Rightarrow> bool" where
  "penalty_source env retry_after body current c \<longleftrightarrow>
     (\<exists>s. retry_after = Some s \<and> duration_or_deadline env (PyStr s) current = Inr (Some c)) \<or> body_source env current body c"

lemma set_optional_list [simp]: "set (optional_list v) = {x. v = Some x}"
  by (cases v) (auto simp: optional_list_def)

lemma res_mapM_concat_set:
  assumes "res_mapM f xs = Inr yss" "\<And>x ys. x \<in> set xs \<Longrightarrow> f x = Inr ys \<Longrightarrow> set ys = g x"
  shows "set (concat yss) = (\<Union>x\<in>set xs. g x)"
  using assms
proof (induction xs arbitrary: yss)
  case (Cons x xs)
  obtain ys zss where y: "f x = Inr ys" "res_mapM f xs = Inr zss" "yss = ys # zss"
    using Cons.prems(1) by (auto simp: res_bind_eq_Inr_iff)
  have "set ys = g x" by (rule Cons.prems(2) [OF _ y(1)]) simp
  moreover have "set (concat zss) = (\<Union>x\<in>set xs. g x)" by (rule Cons.IH [OF y(2)]) (rule Cons.prems(2), simp)
  ultimately show ?case using y(3) by simp
qed simp

lemma collected_sources:
  "collect_penalty_candidates env current v = Inr cs \<Longrightarrow> set cs = {c. body_source env current v c}"
proof (induction env current v arbitrary: cs rule: collect_penalty_candidates.induct)
  case (1 env current v)
  show ?case
  proof (cases v)
    case (PyDict d)
    let ?f = "\<lambda>kv. res_bind (key_candidate env current (fst kv) (snd kv)) (\<lambda>own.
      res_map (\<lambda>nested. optional_list own @ nested) (collect_penalty_candidates env current (snd kv)))"
    obtain css where css: "res_mapM ?f d = Inr css" "cs = concat css"
      using "1.prems" PyDict by (auto simp: collect_penalty_candidates.simps [of env current "PyDict d"] res_map_eq_Inr_iff)
    have "set ys = {c. key_candidate env current (fst kv) (snd kv) = Inr (Some c) \<or> body_source env current (snd kv) c}"
      if "kv \<in> set d" "?f kv = Inr ys" for kv ys
      using that "1.IH"(2) [OF PyDict that(1)] by (auto simp: res_bind_eq_Inr_iff res_map_eq_Inr_iff)
    from res_mapM_concat_set [OF css(1) this] show ?thesis
      unfolding css(2) PyDict body_source_simps by (auto simp: Bex_def)
  next
    case (PyList xs)
    obtain css where css: "res_mapM (collect_penalty_candidates env current) xs = Inr css" "cs = concat css"
      using "1.prems" PyList by (auto simp: collect_penalty_candidates.simps [of env current "PyList xs"] res_map_eq_Inr_iff)
    from res_mapM_concat_set [OF css(1) "1.IH"(1) [OF PyList]] show ?thesis
      unfolding css(2) PyList body_source_simps by auto
  qed (use "1.prems" in \<open>auto simp: collect_penalty_candidates.simps body_source_simps\<close>)
qed

lemma positive_finite_pos: "positive_finite v = Some c \<Longrightarrow> 0 < c"
  by (auto simp: positive_finite_def split: option.splits if_splits)

lemma deadline_number_pos: "deadline_number v current = Some c \<Longrightarrow> 0 < c"
  by (auto simp: deadline_number_def Let_def dest: positive_finite_pos split: option.splits if_splits)

lemma deadline_seconds_pos: "deadline_seconds env v current = Inr (Some c) \<Longrightarrow> 0 < c"
  by (auto simp: deadline_seconds_def deadline_text_def res_map_eq_Inr_iff
      dest: positive_finite_pos deadline_number_pos dest!: sym [of "Some c"] split: py_value.splits option.splits)

lemma duration_or_deadline_pos: "duration_or_deadline env v current = Inr (Some c) \<Longrightarrow> 0 < c"
  by (auto simp: duration_or_deadline_def res_map_eq_Inr_iff
      dest: positive_finite_pos deadline_seconds_pos dest!: sym [of "Some c"] split: py_value.splits option.splits)

lemma body_source_pos: "body_source env current v c \<Longrightarrow> 0 < c"
  by (induction rule: body_source.induct)
     (auto simp: text_candidates_def List.map_filter_def key_candidate_def
      dest: positive_finite_pos duration_or_deadline_pos deadline_seconds_pos split: option.splits if_splits)

lemma penalty_sources:
  assumes "penalty_candidates env retry_after body current = Inr cs"
  shows "set cs = {c. penalty_source env retry_after body current c} \<and> (\<forall>c\<in>set cs. 0 < c)"
proof -
  have "set cs = {c. penalty_source env retry_after body current c}"
    using assms by (auto simp: penalty_candidates_def penalty_source_def res_bind_eq_Inr_iff res_map_eq_Inr_iff
        dest: collected_sources split: option.splits)
  then show ?thesis using body_source_pos duration_or_deadline_pos by (auto simp: penalty_source_def)
qed

lemma foldl_max_in: "foldl max c cs \<in> set (c # cs) \<and> (\<forall>x\<in>set (c # cs). x \<le> foldl max c (cs :: rat list))"
proof (induction cs arbitrary: c)
  case (Cons d cs)
  show ?case using Cons [of "max c d"] by (auto simp: max_def split: if_splits)
qed simp

text \<open>The penalty taken from a 418 response is conservative and nothing else: when the header or the body, at
  any depth of the document, names a duration or a deadline ahead, the answer is the longest of them rounded up to
  a whole second, so it is at least one second and covers every one of them; otherwise it is the fallback.\<close>

theorem penalty_is_longest:
  assumes "parse_penalty_seconds env retry_after body current fallback = Inr w"
  shows "if \<exists>c. penalty_source env retry_after body current c
    then (\<forall>c. penalty_source env retry_after body current c \<longrightarrow> c \<le> w) \<and> 1 \<le> w \<and>
      (\<exists>c. penalty_source env retry_after body current c \<and> w = of_int \<lceil>c\<rceil>)
    else w = fallback"
proof -
  obtain cs where cs: "penalty_candidates env retry_after body current = Inr cs"
      "w = (case filter (\<lambda>c. 0 < c) cs of [] \<Rightarrow> fallback | c # cs \<Rightarrow> of_int \<lceil>foldl max c cs\<rceil>)"
    using assms by (auto simp: parse_penalty_seconds_def res_map_eq_Inr_iff)
  have src: "set cs = {c. penalty_source env retry_after body current c}" "\<forall>c\<in>set cs. 0 < c"
    using penalty_sources [OF cs(1)] by simp_all
  have id: "filter (\<lambda>c. 0 < c) cs = cs" using src(2) by (simp add: filter_id_conv)
  show ?thesis
  proof (cases cs)
    case Nil
    then show ?thesis using src(1) cs(2) by auto
  next
    case (Cons c ds)
    define m where "m = foldl max c ds"
    have m: "m \<in> set cs" "\<forall>x\<in>set cs. x \<le> m" using foldl_max_in [of c ds] Cons by (auto simp: m_def)
    have w: "w = of_int \<lceil>m\<rceil>" using cs(2) id Cons by (simp add: m_def)
    have "0 < m" using m(1) src(2) by blast
    then have "1 \<le> w" by (simp add: w)
    moreover have "\<forall>x\<in>set cs. x \<le> w" using m(2) le_of_int_ceiling [of m] unfolding w by (meson order_trans)
    ultimately show ?thesis using m(1) src(1) w by auto
  qed
qed

text \<open>An integer too large for a float under a known key escapes as \<^verbatim>\<open>OverflowError\<close> instead of leaving the
  other candidates or the fallback.\<close>

theorem penalty_overflow_escapes:
  "parse_penalty_seconds env None (PyDict [(''retry_after'', PyInt (2 ^ 1024))]) current 60 = Inl Rl_OverflowError"
proof -
  have over: "to_float (2 ^ 1024) = None"
  proof -
    have "fl (2 ^ 1024) = 2 ^ 1024" using fl_pow2 [of 1024] by (simp add: power_int_def)
    then show ?thesis by (simp add: to_float_def)
  qed
  have "normalize_key ''retry_after'' = ''retry_after''" by code_simp
  then have "key_candidate env current ''retry_after'' (PyInt (2 ^ 1024)) = Inl Rl_OverflowError"
    using over by (simp add: key_candidate_def DURATION_KEYS_def duration_or_deadline_def int_to_float_def)
  then show ?thesis
    by (simp add: parse_penalty_seconds_def penalty_candidates_def collect_penalty_candidates.simps)
qed

section \<open>Examples\<close>

abbreviation "example_limits \<equiv> [(''order'', 1 :: int, 1 :: rat)]"

lemma fl_small: "fl 1 = 1" "fl (1 / 2) = 1 / 2" by code_simp+

lemma example_run:
  "\<exists>st. limiter_run (new_limiter example_limits) 0 [Granted ''order'' 0, Delayed ''order'' (1 / 2) (1 / 2),
     Granted ''order'' 1, Observed (Some ''group=order; min=59; sec=0'') 1] st 1 \<and>
   rl_calls st ''order'' = [1] \<and> rl_blocked_until st ''order'' = Some 2"
proof -
  let ?s0 = "new_limiter example_limits"
  define s1 where "s1 = ?s0\<lparr>rl_calls := (\<lambda>_. [])(''order'' := [0])\<rparr>"
  define s2 where "s2 = ?s0\<lparr>rl_calls := (\<lambda>_. [])(''order'' := [1])\<rparr>"
  have "acquire_section ?s0 ''order'' 0 = Inr (s1, None)" by (simp add: acquire_section_def new_limiter_def s1_def)
  then have 1: "limiter_run ?s0 0 [Granted ''order'' 0] s1 0" using run_grant [OF run_start] by fastforce
  have "acquire_section s1 ''order'' (1 / 2) = Inr (s1, Some (1 / 2))"
    by (simp add: acquire_section_def new_limiter_def s1_def fl_small)
  then have 2: "limiter_run ?s0 0 [Granted ''order'' 0, Delayed ''order'' (1 / 2) (1 / 2)] s1 (1 / 2)"
    using run_delay [OF 1, of "1 / 2"] by fastforce
  have "acquire_section s1 ''order'' 1 = Inr (s2, None)"
    by (simp add: acquire_section_def new_limiter_def s1_def s2_def fl_small)
  then have 3: "limiter_run ?s0 0 [Granted ''order'' 0, Delayed ''order'' (1 / 2) (1 / 2), Granted ''order'' 1] s2 1"
    using run_grant [OF 2, of 1] by fastforce
  have "parse_remaining_req (Some ''group=order; min=59; sec=0'') = Some (''order'', 0)" by code_simp
  moreover have "fl 2 = 2" by code_simp
  ultimately have "rl_calls (observe s2 (Some ''group=order; min=59; sec=0'') 1) ''order'' = [1] \<and>
      rl_blocked_until (observe s2 (Some ''group=order; min=59; sec=0'') 1) ''order'' = Some 2"
    by (simp add: observe_def extend_block_def s2_def new_limiter_def)
  then show ?thesis using run_observe [OF 3, of 1 "Some ''group=order; min=59; sec=0''"] by auto
qed

theorem limiter_never_exceeds_witness:
  "\<exists>es st. limiter_run (new_limiter example_limits) 0 es st 1 \<and> grants ''order'' es = [0, 1] \<and>
    1 \<le> fl (grants ''order'' es ! (0 + nat 1) - grants ''order'' es ! 0)"
proof -
  let ?es = "[Granted ''order'' 0, Delayed ''order'' (1 / 2) (1 / 2), Granted ''order'' 1,
    Observed (Some ''group=order; min=59; sec=0'') 1]"
  obtain st where run: "limiter_run (new_limiter example_limits) 0 ?es st 1" using example_run by blast
  have g: "grants ''order'' ?es = [0, 1]" by simp
  have "\<forall>i. i + nat 1 < length (grants ''order'' ?es) \<longrightarrow>
      1 \<le> fl (grants ''order'' ?es ! (i + nat 1) - grants ''order'' ?es ! i)"
    using limiter_never_exceeds [OF run, of "''order''" 1 1] by simp
  then have "1 \<le> fl (grants ''order'' ?es ! (0 + nat 1) - grants ''order'' ?es ! 0)" by (elim allE [of _ 0] impE) simp_all
  then show ?thesis using run g by blast
qed

theorem acquire_returns_witness:
  "\<exists>es st st' ws u. limiter_run (new_limiter example_limits) 0 es st 1 \<and> rl_blocked_until st ''order'' = Some 2 \<and>
    acquire st ''order'' [1, 3 / 2, 2] = Inr (st', ws, Some u) \<and> u \<in> {1, 3 / 2, 2}"
proof -
  obtain es st where run: "limiter_run (new_limiter example_limits) 0 es st 1" "rl_calls st ''order'' = [1]"
      "rl_blocked_until st ''order'' = Some 2" using example_run by blast
  have "\<exists>u\<in>set [1, 3 / 2, 2]. all_expired st ''order'' 1 u" using run(2,3) by (auto simp: all_expired_def)
  then obtain st' ws u where "acquire st ''order'' [1, 3 / 2, 2] = Inr (st', ws, Some u)" "u \<in> set [1, 3 / 2, 2]"
    using acquire_returns [OF run(1) _ _ fl_small(1), of "''order''" 1 "[1, 3 / 2, 2]"] by auto
  then show ?thesis using run(1,3) by (intro exI conjI) (assumption | simp only: set_simps)+
qed

definition no_parsers :: date_parsers where
  "no_parsers = \<lparr>dp_parsedate = (\<lambda>_. None), dp_fromiso = (\<lambda>_. None), dp_local = (\<lambda>t. t)\<rparr>"

definition example_body :: py_value where
  "example_body = PyDict [(''error'', PyDict [(''blockDuration'', PyInt 90), (''message'', PyStr ''2 min'')])]"

lemma example_penalty: "parse_penalty_seconds no_parsers None example_body 1000 60 = Inr 120"
proof -
  have "fl 90 = 90" "fl 2 = 2" "fl 120 = 120" by code_simp+
  then have small: "to_float 90 = Some 90" "to_float 2 = Some 2" "to_float 120 = Some 120" by (simp_all add: to_float_small)
  have keys: "normalize_key ''error'' = ''error''" "normalize_key ''blockDuration'' = ''block_duration''"
    "normalize_key ''message'' = ''message''" by code_simp+
  have "find_durations ''2 min'' = [(2, 60)]" by code_simp
  then have "text_candidates ''2 min'' = [120]"
    by (simp add: text_candidates_def List.map_filter_def small positive_finite_def)
  moreover have "key_candidate no_parsers 1000 ''blockDuration'' (PyInt 90) = Inr (Some 90)"
    "key_candidate no_parsers 1000 ''error'' v = Inr None" "key_candidate no_parsers 1000 ''message'' v = Inr None" for v
    by (simp_all add: key_candidate_def keys DURATION_KEYS_def DEADLINE_KEYS_def duration_or_deadline_def int_to_float_def
        small positive_finite_def)
  ultimately show ?thesis
    by (simp add: parse_penalty_seconds_def penalty_candidates_def example_body_def collect_penalty_candidates.simps
        optional_list_def)
qed

theorem penalty_is_longest_witness:
  "parse_penalty_seconds no_parsers None example_body 1000 60 = Inr 120 \<and>
    (\<exists>c. penalty_source no_parsers None example_body 1000 c \<and> 120 = rat_of_int \<lceil>c\<rceil>)"
  using penalty_is_longest [OF example_penalty] example_penalty by (simp split: if_splits)

end
