(* ===== verification/Gateway_Client.thy ===== *)
theory Gateway_Client
  imports Rate_Limit Sha512 "HOL-Library.Sublist"
begin

text \<open>
  Requests of the gateway to the exchange: the safety policy (\<^verbatim>\<open>safety.py\<close>), the masking of traces
  (\<^verbatim>\<open>trace.py\<close>), query strings and tokens (\<^verbatim>\<open>auth.py\<close>), and parameter validation and the building of a
  request (\<^verbatim>\<open>client.py\<close>). Text is UTF-8; white space and letter case are those of ASCII. The JWT encoder is a
  third-party package and a parameter, as are the URL and address parsers of the standard library and its ISO 8601
  parser. The catalogue is a document whose names are strings; a document of another shape raises \<open>Gw_TypeError\<close>.
\<close>

datatype gw_error =
    Gw_PolicyBlocked
  | Gw_InvalidParameters string
  | Gw_InvalidBaseUrl
  | Gw_ValueError
  | Gw_CredentialConfiguration
  | Gw_UpstreamTimeout
  | Gw_UpstreamConnection
  | Gw_UpstreamProtocol
  | Gw_KeyError string
  | Gw_TypeError
  | Gw_Limiter rl_error

section \<open>Text\<close>

text \<open>\<^verbatim>\<open>text.replace(old, new)\<close> for a non-empty \<open>old\<close>.\<close>

function replace_all :: "string \<Rightarrow> string \<Rightarrow> string \<Rightarrow> string" where
  "replace_all old new [] = []"
| "replace_all old new (c # cs) =
     (if old \<noteq> [] \<and> prefix old (c # cs) then new @ replace_all old new (drop (length old) (c # cs))
      else c # replace_all old new cs)"
  by pat_completeness auto
termination
  by (relation "measure (\<lambda>(old, new, s). length s)") (auto simp: neq_Nil_conv)

text \<open>\<^verbatim>\<open>len(text)\<close> counts code points: every byte but the continuation bytes.\<close>

definition text_length :: "string \<Rightarrow> nat" where
  "text_length s = length (filter (\<lambda>c. \<not> (128 \<le> (of_char c :: nat) \<and> (of_char c :: nat) < 192)) s)"

section \<open>Safety policy and traces\<close>

text \<open>Hashable values only can be looked up in a set.\<close>

definition hashable :: "py_value \<Rightarrow> bool" where
  "hashable v = (case v of PyList xs \<Rightarrow> False | PyDict d \<Rightarrow> False | _ \<Rightarrow> True)"

definition ensure_upstream_allowed :: "py_value \<Rightarrow> gw_error + unit" where
  "ensure_upstream_allowed safety =
     (if \<not> hashable safety then Inl Gw_TypeError
      else res_guard Gw_PolicyBlocked (safety \<in> {PyStr ''read'', PyStr ''test''}))"

definition MASK :: string where "MASK = ''***''"

definition SENSITIVE_KEYS :: "string list" where
  "SENSITIVE_KEYS = [''authorization'', ''access_key'', ''secret_key'', ''jwt'', ''token'', ''query_hash'', ''query_hash_alg'']"

text \<open>The values of a set are tried longest first; \<open>sensitive\<close> lists the set in its iteration order.\<close>

definition mask_text :: "string list \<Rightarrow> string \<Rightarrow> string" where
  "mask_text sensitive s =
     foldl (\<lambda>result value'. if value' \<noteq> [] then replace_all value' MASK result else result) s
       (sort_key (\<lambda>x. - int (text_length x)) sensitive)"

function sanitize :: "string list \<Rightarrow> py_value \<Rightarrow> py_value" where
  "sanitize sensitive v =
     (case v of
        PyDict d \<Rightarrow> PyDict (map (\<lambda>kv. (fst kv,
          if map to_lower (fst kv) \<in> set SENSITIVE_KEYS then PyStr MASK else sanitize sensitive (snd kv))) d)
      | PyList xs \<Rightarrow> PyList (map (sanitize sensitive) xs)
      | PyStr s \<Rightarrow> PyStr (mask_text sensitive s)
      | _ \<Rightarrow> v)"
  by pat_completeness auto
termination
  by (relation "measure (\<lambda>(sensitive, v). size v)") (auto intro: size_list_mem size_dict_mem)

declare sanitize.simps [simp del]

section \<open>Query strings and tokens\<close>

record credentials =
  cr_access_key :: string
  cr_secret_key :: string

record query_strings =
  qs_hash_query :: string
  qs_wire_query :: string

text \<open>\<^verbatim>\<open>quote_plus\<close> and \<^verbatim>\<open>unquote\<close> work on the bytes of the UTF-8 encoding.\<close>

definition unreserved :: "char \<Rightarrow> bool" where
  "unreserved c \<longleftrightarrow> (let n = (of_char c :: nat) in
     65 \<le> n \<and> n \<le> 90 \<or> 97 \<le> n \<and> n \<le> 122 \<or> 48 \<le> n \<and> n \<le> 57 \<or> c \<in> {CHR ''_'', CHR ''.'', CHR ''-'', CHR ''~''})"

definition upper_hex :: "nat \<Rightarrow> char" where
  "upper_hex n = (if n < 10 then char_of (48 + n) else char_of (55 + n))"

definition quote_char :: "string \<Rightarrow> char \<Rightarrow> string" where
  "quote_char safe c =
     (if unreserved c \<or> c \<in> set safe then [c]
      else if c = CHR '' '' then ''+''
      else [CHR ''%'', upper_hex (of_char c div 16), upper_hex (of_char c mod 16)])"

definition quote_plus :: "string \<Rightarrow> string \<Rightarrow> string" where
  "quote_plus safe s = concat (map (quote_char safe) s)"

definition hex_value :: "char \<Rightarrow> nat option" where
  "hex_value c =
     (let n = (of_char c :: nat) in
      if 48 \<le> n \<and> n \<le> 57 then Some (n - 48)
      else if 65 \<le> n \<and> n \<le> 70 then Some (n - 55)
      else if 97 \<le> n \<and> n \<le> 102 then Some (n - 87) else None)"

fun unquote :: "string \<Rightarrow> string" where
  "unquote (c # a # b # cs) =
     (case (hex_value a, hex_value b) of
        (Some h, Some l) \<Rightarrow> if c = CHR ''%'' then char_of (16 * h + l) # unquote cs else c # unquote (a # b # cs)
      | _ \<Rightarrow> c # unquote (a # b # cs))"
| "unquote cs = cs"

definition query_scalar :: "py_value \<Rightarrow> string" where
  "query_scalar v = (case v of PyBool b \<Rightarrow> if b then ''true'' else ''false'' | _ \<Rightarrow> py_str v)"

definition query_tokens :: "(string \<times> py_value) list \<Rightarrow> (string \<times> string) list" where
  "query_tokens parameters =
     concat (map (\<lambda>(key, v). map (\<lambda>item. (key, query_scalar item)) (case v of PyList xs \<Rightarrow> xs | _ \<Rightarrow> [v])) parameters)"

definition urlencode :: "(string \<times> string) list \<Rightarrow> string" where
  "urlencode tokens = join ''&'' (map (\<lambda>(k, v). quote_plus [] k @ ''='' @ quote_plus [] v) tokens)"

definition build_query_strings :: "(string \<times> py_value) list \<Rightarrow> query_strings" where
  "build_query_strings parameters =
     (let tokens = query_tokens parameters in
      \<lparr>qs_hash_query = unquote (urlencode tokens),
       qs_wire_query = join ''&'' (map (\<lambda>(k, v). quote_plus ''[]'' k @ ''='' @ quote_plus [] v) tokens)\<rparr>)"

definition build_query_string :: "(string \<times> py_value) list \<Rightarrow> string" where
  "build_query_string parameters = qs_hash_query (build_query_strings parameters)"

definition query_hash :: "string \<Rightarrow> string" where
  "query_hash s = sha512_hex s"

text \<open>\<open>jwt_encode\<close> stands for \<^verbatim>\<open>jwt.encode(payload, key, algorithm="HS512")\<close> and \<open>nonce\<close> for the text of the nonce.\<close>

definition create_jwt ::
  "((string \<times> string) list \<Rightarrow> string \<Rightarrow> string) \<Rightarrow> credentials \<Rightarrow> string \<Rightarrow> string \<Rightarrow> string" where
  "create_jwt jwt_encode creds query nonce =
     jwt_encode ([(''access_key'', cr_access_key creds), (''nonce'', nonce)] @
       (if query \<noteq> [] then [(''query_hash'', query_hash query), (''query_hash_alg'', ''SHA512'')] else []))
       (cr_secret_key creds)"

section \<open>Parameters\<close>

definition gw_item :: "py_dict \<Rightarrow> string \<Rightarrow> gw_error + py_value" where
  "gw_item d k = (case map_of d k of None \<Rightarrow> Inl (Gw_KeyError k) | Some v \<Rightarrow> Inr v)"

definition gw_dict :: "py_value \<Rightarrow> gw_error + py_dict" where
  "gw_dict v = (case v of PyDict d \<Rightarrow> Inr d | _ \<Rightarrow> Inl Gw_TypeError)"

definition gw_list :: "py_value \<Rightarrow> gw_error + py_value list" where
  "gw_list v = (case v of PyList xs \<Rightarrow> Inr xs | _ \<Rightarrow> Inl Gw_TypeError)"

definition gw_text :: "py_value \<Rightarrow> gw_error + string" where
  "gw_text v = (case v of PyStr s \<Rightarrow> Inr s | _ \<Rightarrow> Inl Gw_TypeError)"

definition gw_text_item :: "py_dict \<Rightarrow> string \<Rightarrow> gw_error + string" where
  "gw_text_item d k = res_bind (gw_item d k) gw_text"

text \<open>\<^verbatim>\<open>{parameter["name"]: parameter for parameter in endpoint["parameters"]}\<close>.\<close>

definition parameter_specifications :: "py_dict \<Rightarrow> gw_error + (string \<times> py_dict) list" where
  "parameter_specifications endpoint =
     res_bind (res_bind (gw_item endpoint ''parameters'') gw_list) (\<lambda>parameters.
     res_foldM (\<lambda>specs p. res_bind (gw_dict p) (\<lambda>spec.
       res_map (\<lambda>name. dict_set specs name spec) (gw_text_item spec ''name''))) [] parameters)"

text \<open>\<^verbatim>\<open>bool(value)\<close> and \<^verbatim>\<open>isinstance(value, int)\<close>, which holds of booleans too.\<close>

definition truthy :: "py_value \<Rightarrow> bool" where
  "truthy v =
     (case v of PyNone \<Rightarrow> False | PyBool b \<Rightarrow> b | PyInt i \<Rightarrow> i \<noteq> 0 | PyFloat r q \<Rightarrow> q \<noteq> Some 0
      | PyDecimal d \<Rightarrow> dec_val d \<noteq> 0 | PyStr s \<Rightarrow> s \<noteq> [] | PyList xs \<Rightarrow> xs \<noteq> [] | PyDict d \<Rightarrow> d \<noteq> []
      | PyDatetime d \<Rightarrow> True)"

definition int_like :: "py_value \<Rightarrow> int option" where
  "int_like v = (case v of PyInt i \<Rightarrow> Some i | PyBool b \<Rightarrow> Some (if b then 1 else 0) | _ \<Rightarrow> None)"

definition has_parameter_value :: "py_dict \<Rightarrow> string \<Rightarrow> bool" where
  "has_parameter_value vals name =
     (case map_of vals name of None \<Rightarrow> False
      | Some v \<Rightarrow> (case v of PyNone \<Rightarrow> False | PyStr s \<Rightarrow> strip s \<noteq> [] | PyList xs \<Rightarrow> xs \<noteq> [] | _ \<Rightarrow> True))"

definition name_lists :: "py_dict \<Rightarrow> string \<Rightarrow> gw_error + string list list" where
  "name_lists endpoint k =
     res_bind (gw_list (dict_get_default endpoint k (PyList []))) (\<lambda>options.
     res_mapM (\<lambda>option'. res_bind (gw_list option') (res_mapM gw_text)) options)"

definition rule_violated :: "py_dict \<Rightarrow> py_value \<Rightarrow> gw_error + bool" where
  "rule_violated vals rule =
     res_bind (gw_dict rule) (\<lambda>r.
     case (dict_get r ''when'', dict_get r ''forbid'') of
       (PyDict when, PyList forbid) \<Rightarrow>
         Inr (list_all (\<lambda>kv. py_eq (dict_get vals (fst kv)) (snd kv)) when \<and>
              list_ex (\<lambda>n. case n of PyStr name \<Rightarrow> has_parameter_value vals name | _ \<Rightarrow> False) forbid)
     | _ \<Rightarrow> Inr False)"

fun check_rules :: "py_dict \<Rightarrow> py_value list \<Rightarrow> gw_error + unit" where
  "check_rules vals [] = Inr ()"
| "check_rules vals (rule # rules) =
     res_bind (rule_violated vals rule) (\<lambda>bad.
     if bad then Inl (Gw_InvalidParameters ''forbidden_combination'') else check_rules vals rules)"

definition validate_forbidden_value_combinations :: "py_dict \<Rightarrow> py_dict \<Rightarrow> gw_error + unit" where
  "validate_forbidden_value_combinations endpoint vals =
     res_bind (gw_list (dict_get_default endpoint ''forbidden_value_combinations'' (PyList []))) (check_rules vals)"

text \<open>\<^verbatim>\<open>datetime.fromtimestamp(ms / 1000)\<close>: the quotient is a float, its fraction is scaled to microseconds as a
  float and then rounded half to even. From 2 to the 33rd seconds on a microsecond may be lost.\<close>

definition epoch_micros :: "int \<Rightarrow> int" where
  "epoch_micros ms =
     (let t = fl (of_int ms / 1000) in
      \<lfloor>t\<rfloor> * 1000000 + round_even (fl ((t - of_int \<lfloor>t\<rfloor>) * 1000000)))"

text \<open>\<open>fromiso\<close> stands for \<^verbatim>\<open>datetime.fromisoformat\<close>. Thirteen digits are milliseconds of the epoch.\<close>

definition parse_datetime :: "(string \<Rightarrow> datetime option) \<Rightarrow> string \<Rightarrow> int option" where
  "parse_datetime fromiso s =
     (if length s = 13 \<and> list_all is_digit s then Some (epoch_us + epoch_micros (int (digits_val s)))
      else map_option instant (fromiso (replace_z s)))"

definition two_digits :: "string \<Rightarrow> nat \<Rightarrow> bool" where
  "two_digits s bound \<longleftrightarrow> length s = 2 \<and> list_all is_digit s \<and> digits_val s < bound"

definition valid_time :: "string \<Rightarrow> bool" where
  "valid_time s \<longleftrightarrow> length s = 8 \<and> s ! 2 = CHR '':'' \<and> s ! 5 = CHR '':'' \<and>
     two_digits (take 2 s) 24 \<and> two_digits (take 2 (drop 3 s)) 60 \<and> two_digits (drop 6 s) 60"

definition within_items :: "py_dict \<Rightarrow> nat \<Rightarrow> bool" where
  "within_items spec n = (case int_like (dict_get spec ''max_items'') of Some m \<Rightarrow> int n \<le> m | None \<Rightarrow> True)"

definition matches_string_format :: "(string \<Rightarrow> datetime option) \<Rightarrow> string \<Rightarrow> py_dict \<Rightarrow> bool" where
  "matches_string_format fromiso s spec =
     (let format_name = dict_get spec ''format'' in
      if format_name = PyStr ''csv'' then
        let items = map strip (split_on (CHR '','') s) in
        [] \<notin> set items \<and> within_items spec (length items) \<and>
        (truthy (dict_get spec ''unique_items'') \<longrightarrow> distinct items)
      else if format_name = PyStr ''integer-string'' then
        (let (neg, ds) = (case s of c # r \<Rightarrow> if c = CHR ''-'' then (True, r) else (False, s) | [] \<Rightarrow> (False, [])) in
         ds \<noteq> [] \<and> list_all is_digit ds)
      else if format_name = PyStr ''decimal-string'' then
        (case parse_decimal s of Some (NFin d) \<Rightarrow> True | _ \<Rightarrow> False)
      else if format_name = PyStr ''date-time'' then parse_datetime fromiso s \<noteq> None
      else if format_name = PyStr ''time'' then valid_time s
      else True)"

fun py_distinct :: "py_value list \<Rightarrow> bool" where
  "py_distinct [] = True"
| "py_distinct (x # xs) = (\<not> list_ex (py_eq x) xs \<and> py_distinct xs)"

definition valid_scalar_type :: "string \<Rightarrow> py_value \<Rightarrow> bool" where
  "valid_scalar_type expected v =
     (case v of
        PyStr s \<Rightarrow> expected = ''string''
      | PyInt i \<Rightarrow> expected = ''integer'' \<or> expected = ''number'' \<and> to_float (of_int i) \<noteq> None
      | PyFloat r q \<Rightarrow> expected = ''number'' \<and> q \<noteq> None
      | PyBool b \<Rightarrow> expected = ''boolean''
      | _ \<Rightarrow> False)"

definition string_lengths_ok :: "py_dict \<Rightarrow> string \<Rightarrow> bool" where
  "string_lengths_ok spec s \<longleftrightarrow>
     (case int_like (dict_get spec ''min_length'') of Some m \<Rightarrow> m \<le> int (text_length s) | None \<Rightarrow> True) \<and>
     (case int_like (dict_get spec ''max_length'') of Some m \<Rightarrow> int (text_length s) \<le> m | None \<Rightarrow> True)"

definition blank_text :: "py_value \<Rightarrow> bool" where
  "blank_text v = (case v of PyStr s \<Rightarrow> strip s = [] | _ \<Rightarrow> False)"

definition list_items_ok :: "py_dict \<Rightarrow> py_value list \<Rightarrow> gw_error + bool" where
  "list_items_ok spec xs =
     (if list_ex blank_text xs \<or> \<not> within_items spec (length xs) then Inr False
      else if \<not> truthy (dict_get spec ''unique_items'') then Inr True
      else if \<not> list_all hashable xs then Inl Gw_TypeError
      else Inr (py_distinct xs))"

definition in_enum :: "py_dict \<Rightarrow> py_value \<Rightarrow> gw_error + bool" where
  "in_enum spec v =
     (case dict_get spec ''enum'' of PyNone \<Rightarrow> Inr True
      | PyList allowed \<Rightarrow> Inr (list_ex (py_eq v) allowed)
      | _ \<Rightarrow> Inl Gw_TypeError)"

definition comparable_value :: "py_dict \<Rightarrow> py_value \<Rightarrow> rat option" where
  "comparable_value spec v =
     (case v of PyInt i \<Rightarrow> Some (of_int i) | PyFloat r q \<Rightarrow> q
      | PyStr s \<Rightarrow> if dict_get spec ''format'' \<in> {PyStr ''integer-string'', PyStr ''decimal-string''}
          then (case parse_decimal s of Some (NFin d) \<Rightarrow> Some (dec_val d) | _ \<Rightarrow> None) else None
      | _ \<Rightarrow> None)"

definition spec_bound :: "py_dict \<Rightarrow> string \<Rightarrow> gw_error + rat option" where
  "spec_bound spec k =
     (case dict_get spec k of PyNone \<Rightarrow> Inr None
      | v \<Rightarrow> (case num_of v of Some q \<Rightarrow> Inr (Some q) | None \<Rightarrow> Inl Gw_TypeError))"

definition within_bounds :: "py_dict \<Rightarrow> py_value \<Rightarrow> gw_error + bool" where
  "within_bounds spec v =
     (case comparable_value spec v of None \<Rightarrow> Inr True
      | Some x \<Rightarrow>
          res_bind (spec_bound spec ''minimum'') (\<lambda>lo.
          if lo \<noteq> None \<and> x < the lo then Inr False
          else res_map (\<lambda>hi. \<not> (hi \<noteq> None \<and> the hi < x)) (spec_bound spec ''maximum'')))"

definition res_and :: "'e + bool \<Rightarrow> 'e + bool \<Rightarrow> 'e + bool" where
  "res_and a b = res_bind a (\<lambda>ok. if ok then b else Inr False)"

definition item_schema :: "py_dict \<Rightarrow> py_dict option" where
  "item_schema spec =
     (case dict_get spec ''items'' of PyStr s \<Rightarrow> Some [(''type'', PyStr s)] | PyDict d \<Rightarrow> Some d | _ \<Rightarrow> None)"

function matches_parameter_schema :: "(string \<Rightarrow> datetime option) \<Rightarrow> py_value \<Rightarrow> py_dict \<Rightarrow> gw_error + bool" where
  "matches_parameter_schema fromiso v spec =
     (let expected = dict_get spec ''type'' in
      res_and
       (if expected = PyStr ''array'' then
          (case v of
             PyList xs \<Rightarrow>
               (case item_schema spec of None \<Rightarrow> Inr False
                | Some schema \<Rightarrow> foldr (\<lambda>x rest. res_and (matches_parameter_schema fromiso x schema) rest) xs (Inr True))
           | _ \<Rightarrow> Inr False)
        else Inr (case expected of PyStr t \<Rightarrow> valid_scalar_type t v | _ \<Rightarrow> False))
      (res_and
       (case v of
          PyStr s \<Rightarrow> Inr (string_lengths_ok spec s \<and> matches_string_format fromiso s spec)
        | PyList xs \<Rightarrow> list_items_ok spec xs
        | _ \<Rightarrow> Inr True)
      (res_and (in_enum spec v) (within_bounds spec v))))"
  by pat_completeness auto
termination
  by (relation "measure (\<lambda>(f, v, s). size v)") (auto intro: size_list_mem)

declare matches_parameter_schema.simps [simp del]

fun check_values :: "(string \<Rightarrow> datetime option) \<Rightarrow> (string \<times> py_dict) list \<Rightarrow> py_dict \<Rightarrow> gw_error + unit" where
  "check_values fromiso specs [] = Inr ()"
| "check_values fromiso specs ((name, v) # vals) =
     (case map_of specs name of None \<Rightarrow> Inl (Gw_KeyError name)
      | Some spec \<Rightarrow>
          res_bind (matches_parameter_schema fromiso v spec) (\<lambda>ok.
          if ok then check_values fromiso specs vals else Inl (Gw_InvalidParameters ''schema'')))"
text \<open>\<open>checked\<close> holds the pairs already compared.\<close>

fun check_ranges ::
  "(string \<Rightarrow> datetime option) \<Rightarrow> py_dict \<Rightarrow> string set list \<Rightarrow> (string \<times> py_dict) list \<Rightarrow> gw_error + unit" where
  "check_ranges fromiso vals checked [] = Inr ()"
| "check_ranges fromiso vals checked ((name, spec) # specs) =
     (case (dict_get spec ''range_with'', int_like (dict_get spec ''range_max_seconds'')) of
        (PyStr partner, Some maximum_seconds) \<Rightarrow>
          (case (map_of vals name, map_of vals partner) of
             (Some v, Some w) \<Rightarrow>
               if {name, partner} \<in> set checked then check_ranges fromiso vals checked specs
               else (case (parse_datetime fromiso (py_str v), parse_datetime fromiso (py_str w)) of
                   (Some first, Some second) \<Rightarrow>
                     let duration = fl (of_int (if prefix ''start'' name then second - first else first - second) / 1000000) in
                     if duration < 0 \<or> of_int maximum_seconds < duration then Inl (Gw_InvalidParameters ''range'')
                     else check_ranges fromiso vals ({name, partner} # checked) specs
                 | _ \<Rightarrow> Inl (Gw_InvalidParameters ''range''))
           | _ \<Rightarrow> check_ranges fromiso vals checked specs)
      | _ \<Rightarrow> check_ranges fromiso vals checked specs)"

definition validate_parameter_ranges ::
  "(string \<Rightarrow> datetime option) \<Rightarrow> (string \<times> py_dict) list \<Rightarrow> py_dict \<Rightarrow> gw_error + unit" where
  "validate_parameter_ranges fromiso specs vals = check_ranges fromiso vals [] specs"

definition required_missing :: "(string \<times> py_dict) list \<Rightarrow> py_dict \<Rightarrow> bool" where
  "required_missing specs vals \<longleftrightarrow>
     list_ex (\<lambda>(name, spec). truthy (dict_get spec ''required'') \<and> map_of vals name = None) specs"

definition validate_parameters :: "(string \<Rightarrow> datetime option) \<Rightarrow> py_dict \<Rightarrow> py_dict \<Rightarrow> gw_error + unit" where
  "validate_parameters fromiso endpoint vals =
     res_bind (parameter_specifications endpoint) (\<lambda>specs.
     if list_ex (\<lambda>kv. map_of specs (fst kv) = None) vals \<or> required_missing specs vals
     then Inl (Gw_InvalidParameters ''names'')
     else res_bind (name_lists endpoint ''any_of_required'') (\<lambda>alternatives.
     if alternatives \<noteq> [] \<and> \<not> list_ex (list_all (has_parameter_value vals)) alternatives
     then Inl (Gw_InvalidParameters ''any_of_required'')
     else res_bind (name_lists endpoint ''mutually_exclusive'') (\<lambda>exclusive.
     if list_ex (\<lambda>names. 1 < length (filter (has_parameter_value vals) names)) exclusive
     then Inl (Gw_InvalidParameters ''mutually_exclusive'')
     else res_bind (validate_forbidden_value_combinations endpoint vals) (\<lambda>_.
     res_bind (check_values fromiso specs vals) (\<lambda>_.
     validate_parameter_ranges fromiso specs vals)))))"

section \<open>Requests\<close>

definition OFFICIAL_BASE_URL :: string where
  "OFFICIAL_BASE_URL = ''https://api.upbit.com''"

text \<open>The parts \<^verbatim>\<open>urlparse\<close> gives of a URL; \<open>up_port_ok\<close> says that reading \<^verbatim>\<open>port\<close> raises nothing.\<close>

record url_parts =
  up_scheme :: string
  up_hostname :: "string option"
  up_path :: string
  up_query :: string
  up_fragment :: string
  up_username :: "string option"
  up_password :: "string option"
  up_port_ok :: bool

text \<open>What the gateway takes from its surroundings: \<open>up_is_loopback\<close> is \<^verbatim>\<open>ipaddress.ip_address(...).is_loopback\<close>,
  \<open>None\<close> for a host that is no address; \<open>ge_urlparse\<close> gives \<open>None\<close> where \<^verbatim>\<open>urlparse\<close> raises.\<close>

record gateway_env =
  ge_fromiso :: "string \<Rightarrow> datetime option"
  ge_urlparse :: "string \<Rightarrow> url_parts option"
  ge_is_loopback :: "string \<Rightarrow> bool option"
  ge_jwt_encode :: "(string \<times> string) list \<Rightarrow> string \<Rightarrow> string"

definition rstrip_slashes :: "string \<Rightarrow> string" where
  "rstrip_slashes s = rev (dropWhile (\<lambda>c. c = CHR ''/'') (rev s))"

definition validate_base_url :: "gateway_env \<Rightarrow> string \<Rightarrow> bool \<Rightarrow> gw_error + string" where
  "validate_base_url env url allow_loopback_test =
     (let normalized = rstrip_slashes url in
      if normalized = OFFICIAL_BASE_URL then Inr normalized
      else case ge_urlparse env normalized of
        None \<Rightarrow> Inl Gw_ValueError
      | Some parsed \<Rightarrow>
          (case up_hostname parsed of
             None \<Rightarrow> Inl Gw_InvalidBaseUrl
           | Some hostname \<Rightarrow>
               if \<not> allow_loopback_test \<or> up_scheme parsed \<noteq> ''http'' then Inl Gw_InvalidBaseUrl
               else if up_path parsed \<noteq> [] \<or> up_query parsed \<noteq> [] \<or> up_fragment parsed \<noteq> [] \<or>
                 up_username parsed \<noteq> None \<or> up_password parsed \<noteq> None then Inl Gw_InvalidBaseUrl
               else if ge_is_loopback env hostname \<noteq> Some True \<or> \<not> up_port_ok parsed then Inl Gw_InvalidBaseUrl
               else Inr normalized))"

text \<open>What the code passes to \<^verbatim>\<open>httpx.Request\<close>: method, URL, JSON body and headers. The headers that httpx derives
  from them (\<^verbatim>\<open>Host\<close>, \<^verbatim>\<open>Content-Length\<close>, \<^verbatim>\<open>Content-Type\<close>) and its rejection of an unprintable URL are outside the model.\<close>

record upstream_request =
  ur_method :: string
  ur_url :: string
  ur_json :: "py_dict option"
  ur_headers :: "(string \<times> string) list"

record request_parts =
  rp_path :: string
  rp_query :: "(string \<times> py_value) list"
  rp_body :: py_dict

fun place_parameters :: "(string \<times> py_dict) list \<Rightarrow> request_parts \<Rightarrow> py_dict \<Rightarrow> gw_error + request_parts" where
  "place_parameters specs parts [] = Inr parts"
| "place_parameters specs parts ((name, v) # vals) =
     (case map_of specs name of None \<Rightarrow> Inl (Gw_KeyError name)
      | Some spec \<Rightarrow>
          res_bind (gw_item spec ''location'') (\<lambda>location.
          place_parameters specs
            (if location = PyStr ''path'' then
               parts\<lparr>rp_path := replace_all (''{'' @ name @ ''}'') (py_str v) (rp_path parts)\<rparr>
             else if location = PyStr ''query'' then parts\<lparr>rp_query := rp_query parts @ [(name, v)]\<rparr>
             else if location = PyStr ''body'' then parts\<lparr>rp_body := dict_set (rp_body parts) name v\<rparr>
             else parts) vals))"

definition build_auth_query_string :: "py_dict \<Rightarrow> py_dict \<Rightarrow> gw_error + string" where
  "build_auth_query_string endpoint parameters =
     res_bind (parameter_specifications endpoint) (\<lambda>specs.
     res_map (\<lambda>kept. build_query_string (concat kept))
       (res_mapM (\<lambda>(name, v). case map_of specs name of None \<Rightarrow> Inl (Gw_KeyError name)
          | Some spec \<Rightarrow> res_map (\<lambda>location. if location \<in> {PyStr ''query'', PyStr ''body''} then [(name, v)] else [])
              (gw_item spec ''location'')) parameters))"

definition auth_headers ::
  "gateway_env \<Rightarrow> py_dict \<Rightarrow> credentials option \<Rightarrow> string \<Rightarrow> string \<Rightarrow> gw_error + (string \<times> string) list" where
  "auth_headers env endpoint creds auth_query nonce =
     res_bind (gw_item endpoint ''category'') (\<lambda>category.
     if category = PyStr ''exchange'' then
       (case creds of None \<Rightarrow> Inl (Gw_InvalidParameters ''credentials'')
        | Some c \<Rightarrow> Inr [(''Authorization'', ''Bearer '' @ create_jwt (ge_jwt_encode env) c auth_query nonce)])
     else Inr [])"

definition build_upstream_request ::
  "gateway_env \<Rightarrow> py_dict \<Rightarrow> py_dict \<Rightarrow> string \<Rightarrow> credentials option \<Rightarrow> bool \<Rightarrow> string \<Rightarrow> gw_error + upstream_request" where
  "build_upstream_request env endpoint parameters base_url creds allow_loopback_test nonce =
     res_bind (validate_parameters (ge_fromiso env) endpoint parameters) (\<lambda>_.
     res_bind (parameter_specifications endpoint) (\<lambda>specs.
     res_bind (gw_text_item endpoint ''path'') (\<lambda>path.
     res_bind (place_parameters specs \<lparr>rp_path = path, rp_query = [], rp_body = []\<rparr> parameters) (\<lambda>parts.
     let queries = build_query_strings (rp_query parts) in
     res_bind (if qs_hash_query queries \<noteq> [] then Inr (qs_hash_query queries)
               else build_auth_query_string endpoint parameters) (\<lambda>auth_query.
     res_bind (auth_headers env endpoint creds auth_query nonce) (\<lambda>authorization.
     res_bind (validate_base_url env base_url allow_loopback_test) (\<lambda>base.
     res_bind (gw_text_item endpoint ''method'') (\<lambda>http_method.
     Inr \<lparr>ur_method = http_method,
          ur_url = base @ rp_path parts @ (if qs_wire_query queries \<noteq> [] then ''?'' @ qs_wire_query queries else []),
          ur_json = (if rp_body parts \<noteq> [] then Some (rp_body parts) else None),
          ur_headers = (''Accept'', ''application/json'') # authorization\<rparr>))))))))"
section \<open>Milliseconds as floats\<close>

lemma epoch_micros_examples:
  "epoch_micros 1700000000123 = 1700000000123000" "epoch_micros 8589934592001 = 8589934592000999"
  by code_simp+

section \<open>Masking leaves no secret behind\<close>

lemma star_prefix: "CHR ''*'' \<notin> set t \<Longrightarrow> prefix t (CHR ''*'' # r) \<Longrightarrow> t = []"
  by (cases t) auto

lemma star_mask: "CHR ''*'' \<notin> set t \<Longrightarrow> prefix t (MASK @ r) \<Longrightarrow> t = []"
  using star_prefix by (simp add: MASK_def)

lemma replace_all_hit:
  "old \<noteq> [] \<and> prefix old (c # cs) \<Longrightarrow> replace_all old new (c # cs) = new @ replace_all old new (drop (length old) (c # cs))"
  by simp

lemma replace_all_miss:
  "\<not> (old \<noteq> [] \<and> prefix old (c # cs)) \<Longrightarrow> replace_all old new (c # cs) = c # replace_all old new cs"
  by auto

declare replace_all.simps(2) [simp del]

lemma prefix_replace_all:
  "CHR ''*'' \<notin> set t \<Longrightarrow> prefix t (replace_all old MASK s) \<Longrightarrow> prefix t s"
proof (induction old "MASK :: string" s arbitrary: t rule: replace_all.induct)
  case (2 old c cs)
  show ?case
  proof (cases "old \<noteq> [] \<and> prefix old (c # cs)")
    case True
    then have "t = []" using star_mask [OF "2.prems"(1)] "2.prems"(2) unfolding replace_all_hit [OF True] by blast
    then show ?thesis by simp
  next
    case False
    have "prefix t (c # replace_all old MASK cs)" using "2.prems"(2) unfolding replace_all_miss [OF False] .
    then show ?thesis using "2.hyps"(2) [OF False] "2.prems"(1) by (cases t) auto
  qed
qed simp

lemma sublist_mask: "CHR ''*'' \<notin> set t \<Longrightarrow> t \<noteq> [] \<Longrightarrow> sublist t (MASK @ r) \<Longrightarrow> sublist t r"
  by (auto simp: MASK_def sublist_Cons_right dest: star_prefix)

text \<open>Replacing brings no new text without a star, and removes every occurrence.\<close>

lemma sublist_replace_all:
  "CHR ''*'' \<notin> set t \<Longrightarrow> t \<noteq> [] \<Longrightarrow> sublist t (replace_all old MASK s) \<Longrightarrow> sublist t s"
proof (induction old "MASK :: string" s rule: replace_all.induct)
  case (2 old c cs)
  show ?case
  proof (cases "old \<noteq> [] \<and> prefix old (c # cs)")
    case True
    have "sublist t (MASK @ replace_all old MASK (drop (length old) (c # cs)))"
      using "2.prems"(3) unfolding replace_all_hit [OF True] .
    then have "sublist t (drop (length old) (c # cs))"
      using "2.hyps"(1) [OF True "2.prems"(1,2)] sublist_mask [OF "2.prems"(1,2)] by blast
    then show ?thesis by (meson sublist_drop sublist_order.order_trans)
  next
    case False
    have "sublist t (c # replace_all old MASK cs)" using "2.prems"(3) unfolding replace_all_miss [OF False] .
    then show ?thesis
      using "2.hyps"(2) [OF False "2.prems"(1,2)] prefix_replace_all [OF "2.prems"(1), of old "c # cs"]
      unfolding replace_all_miss [OF False] sublist_Cons_right by blast
  qed
qed simp

lemma replace_all_removes:
  "CHR ''*'' \<notin> set t \<Longrightarrow> t \<noteq> [] \<Longrightarrow> \<not> sublist t (replace_all t MASK s)"
proof (induction t "MASK :: string" s rule: replace_all.induct)
  case (2 t c cs)
  show ?case
  proof (cases "t \<noteq> [] \<and> prefix t (c # cs)")
    case True
    show ?thesis
      using "2.hyps"(1) [OF True "2.prems"] sublist_mask [OF "2.prems"] unfolding replace_all_hit [OF True] by blast
  next
    case False
    have "\<not> prefix t (c # replace_all t MASK cs)"
      using prefix_replace_all [OF "2.prems"(1), of t "c # cs", unfolded replace_all_miss [OF False]] "2.prems"(2) False
      by argo
    then show ?thesis
      using "2.hyps"(2) [OF False "2.prems"] unfolding replace_all_miss [OF False] sublist_Cons_right by blast
  qed
qed simp

lemma mask_text_hides:
  assumes "t \<in> set sensitive" "t \<noteq> []" "CHR ''*'' \<notin> set t"
  shows "\<not> sublist t (mask_text sensitive s)"
proof -
  let ?f = "\<lambda>result value'. if value' \<noteq> [] then replace_all value' MASK result else result"
  have keep: "sublist t (foldl ?f r xs) \<Longrightarrow> sublist t r" for r xs
  proof (induction xs arbitrary: r)
    case (Cons x xs)
    have "sublist t (?f r x)" by (rule Cons.IH) (use Cons.prems in \<open>simp only: foldl.simps\<close>)
    then show ?case using sublist_replace_all [OF assms(3,2), of x r] by (simp split: if_splits)
  qed simp
  have "t \<in> set xs \<Longrightarrow> \<not> sublist t (foldl ?f r xs)" for r xs
  proof (induction xs arbitrary: r)
    case (Cons x xs)
    show ?case
    proof (cases "x = t")
      case True
      then show ?thesis using keep [of "replace_all t MASK r" xs] replace_all_removes [OF assms(3,2)] assms(2) by auto
    qed (use Cons in simp)
  qed simp
  then show ?thesis using assms(1) by (simp add: mask_text_def)
qed

text \<open>The text at the leaves of a document.\<close>

function leaf_texts :: "py_value \<Rightarrow> string list" where
  "leaf_texts v =
     (case v of PyDict d \<Rightarrow> concat (map (\<lambda>kv. leaf_texts (snd kv)) d)
      | PyList xs \<Rightarrow> concat (map leaf_texts xs)
      | PyStr s \<Rightarrow> [s]
      | _ \<Rightarrow> [])"
  by pat_completeness auto
termination
  by (relation "measure size") (auto intro: size_list_mem size_dict_mem)

declare leaf_texts.simps [simp del]

lemma sanitize_hides:
  assumes t: "t \<noteq> []" "CHR ''*'' \<notin> set t"
  shows "t \<in> set sensitive \<Longrightarrow> s \<in> set (leaf_texts (sanitize sensitive v)) \<Longrightarrow> \<not> sublist t s"
proof (induction sensitive v arbitrary: s rule: sanitize.induct)
  case (1 sens v)
  have mask: "\<not> sublist t MASK" using sublist_mask [OF t(2,1), of "[]"] t(1) by auto
  show ?case
  proof (cases v)
    case (PyDict d)
    then obtain kv where kv: "kv \<in> set d" "s \<in> set (leaf_texts (if map to_lower (fst kv) \<in> set SENSITIVE_KEYS then PyStr MASK
        else sanitize sens (snd kv)))"
      using "1.prems" by (auto simp: sanitize.simps [of sens "PyDict d"] leaf_texts.simps [of "PyDict _"])
    then show ?thesis
      using "1.IH"(2) [OF PyDict kv(1)] "1.prems"(1) mask by (auto simp: leaf_texts.simps [of "PyStr _"] split: if_splits)
  next
    case (PyList xs)
    then show ?thesis
      using "1.prems"(2) "1.IH"(1) [OF PyList _ "1.prems"(1)]
      by (auto simp: sanitize.simps [of sens "PyList xs"] leaf_texts.simps [of "PyList _"])
  next
    case (PyStr r)
    then show ?thesis
      using "1.prems" mask_text_hides [OF "1.prems"(1) t] by (auto simp: sanitize.simps [of _ "PyStr r"] leaf_texts.simps)
  qed (use "1.prems" in \<open>auto simp: sanitize.simps leaf_texts.simps\<close>)
qed
section \<open>Query strings\<close>

definition plus_spaces :: "string \<Rightarrow> string" where
  "plus_spaces s = map (\<lambda>c. if c = CHR '' '' then CHR ''+'' else c) s"

lemma hex_value_upper: "n < 16 \<Longrightarrow> hex_value (upper_hex n) = Some n"
  by (auto simp: hex_value_def upper_hex_def Let_def)

lemma unquote_not_percent: "c \<noteq> CHR ''%'' \<Longrightarrow> unquote (c # cs) = c # unquote cs"
  by (cases "c # cs" rule: unquote.cases) (auto split: option.splits)

lemma byte_div: "(of_char c :: nat) div 16 < 16"
  using nat_of_char_less_256 [of c] by (simp add: less_mult_imp_div_less)

lemma unquote_escape:
  "unquote (CHR ''%'' # upper_hex (of_char c div 16) # upper_hex (of_char c mod 16) # r) = c # unquote r"
proof -
  have "(of_char c :: nat) div 16 < 16" by (rule byte_div)
  then have "hex_value (upper_hex (of_char c div 16)) = Some (of_char c div 16)"
    "hex_value (upper_hex (of_char c mod 16)) = Some (of_char c mod 16)" by (simp_all add: hex_value_upper)
  then show ?thesis by (simp add: unquote.simps(1))
qed

declare unquote.simps(1) [simp del]

lemma percent_reserved: "\<not> unreserved (CHR ''%'')" "\<not> unreserved (CHR '' '')" "\<not> unreserved (CHR ''&'')" "\<not> unreserved (CHR ''='')"
  by code_simp+

lemma unquote_quote_char:
  assumes "CHR ''%'' \<notin> set safe" "CHR '' '' \<notin> set safe"
  shows "unquote (quote_char safe c @ r) = (if c = CHR '' '' then CHR ''+'' else c) # unquote r"
  using assms percent_reserved(1,2) unquote_not_percent [of c r] unquote_not_percent [of "CHR ''+''" r] unquote_escape [of c r]
  by (auto simp: quote_char_def)

lemma unquote_quote_plus:
  assumes "CHR ''%'' \<notin> set safe" "CHR '' '' \<notin> set safe"
  shows "unquote (quote_plus safe s @ r) = plus_spaces s @ unquote r"
  using unquote_quote_char [OF assms] by (induction s) (auto simp: quote_plus_def plus_spaces_def)

lemma unquote_pair:
  "unquote ((quote_plus [] k @ ''='' @ quote_plus [] v) @ r) = plus_spaces k @ ''='' @ plus_spaces v @ unquote r"
  using unquote_not_percent [of "CHR ''=''"] by (simp add: unquote_quote_plus)

lemma unquote_urlencode:
  "unquote (urlencode tokens) = join ''&'' (map (\<lambda>(k, v). plus_spaces k @ ''='' @ plus_spaces v) tokens)"
proof (induction tokens)
  case (Cons t ts)
  obtain k v where t: "t = (k, v)" by (cases t)
  show ?case
  proof (cases ts)
    case Nil
    then show ?thesis using unquote_pair [of k v "[]"] t by (simp add: urlencode_def)
  next
    case (Cons u us)
    have "urlencode (t # ts) = (quote_plus [] k @ ''='' @ quote_plus [] v) @ ''&'' @ urlencode ts"
      using t Cons by (simp add: urlencode_def)
    then have "unquote (urlencode (t # ts)) = plus_spaces k @ ''='' @ plus_spaces v @ ''&'' @ unquote (urlencode ts)"
      using unquote_pair [of k v "''&'' @ urlencode ts"] unquote_not_percent [of "CHR ''&''" "urlencode ts"] by simp
    then show ?thesis using Cons.IH t Cons by simp
  qed
qed (simp add: urlencode_def)

text \<open>A server reads the transmitted query: pairs at \<open>&\<close>, the key before \<open>=\<close>, plus signs as spaces, then escapes.\<close>

definition unquote_plus :: "string \<Rightarrow> string" where
  "unquote_plus s = unquote (map (\<lambda>c. if c = CHR ''+'' then CHR '' '' else c) s)"

definition read_pair :: "string \<Rightarrow> string \<times> string" where
  "read_pair s = (unquote_plus (takeWhile (\<lambda>c. c \<noteq> CHR ''='') s), unquote_plus (tl (dropWhile (\<lambda>c. c \<noteq> CHR ''='') s)))"

definition read_query :: "string \<Rightarrow> (string \<times> string) list" where
  "read_query s = (if s = [] then [] else map read_pair (split_on (CHR ''&'') s))"

lemma upper_hex_cases: "n < 16 \<Longrightarrow> upper_hex n \<in> set ''0123456789ABCDEF''"
proof -
  have "\<forall>n\<in>set [0..<16]. upper_hex n \<in> set ''0123456789ABCDEF''" by code_simp
  then show "n < 16 \<Longrightarrow> ?thesis" by (simp del: set_simps)
qed

lemma quoted_chars:
  assumes "d \<in> set (quote_plus safe s)"
  shows "unreserved d \<or> d \<in> set safe \<or> d \<in> {CHR ''+'', CHR ''%''}"
proof -
  have hex: "unreserved (upper_hex n)" if "n < 16" for n
  proof -
    have "\<forall>c\<in>set ''0123456789ABCDEF''. unreserved c" by code_simp
    then show ?thesis using upper_hex_cases [OF that] by blast
  qed
  show ?thesis using assms hex hex [OF byte_div] by (auto simp: quote_plus_def quote_char_def split: if_splits)
qed

lemma unquote_plus_quote_char:
  assumes "set safe \<subseteq> {CHR ''['', CHR '']''}"
  shows "unquote_plus (quote_char safe c @ r) = c # unquote_plus r"
proof -
  have plus: "\<not> unreserved (CHR ''+'')" "CHR ''+'' \<notin> set safe" "CHR ''%'' \<notin> set safe"
    using assms by (auto simp: unreserved_def)
  have hexplus: "upper_hex n \<noteq> CHR ''+''" if "n < 16" for n using upper_hex_cases [OF that] by auto
  consider "unreserved c \<or> c \<in> set safe" | "\<not> (unreserved c \<or> c \<in> set safe)" "c = CHR '' ''"
    | "\<not> (unreserved c \<or> c \<in> set safe)" "c \<noteq> CHR '' ''" by blast
  then show ?thesis
  proof cases
    case 1
    then have "c \<noteq> CHR ''+''" "c \<noteq> CHR ''%''" using plus percent_reserved(1) by auto
    then show ?thesis using 1 unquote_not_percent [of c] by (simp add: unquote_plus_def quote_char_def)
  next
    case 2
    then show ?thesis using unquote_not_percent [of "CHR '' ''"] by (simp add: unquote_plus_def quote_char_def)
  next
    case 3
    then show ?thesis
      using hexplus [OF byte_div] hexplus [of "of_char c mod 16"] unquote_escape [of c]
      by (simp add: unquote_plus_def quote_char_def)
  qed
qed

lemma unquote_plus_quote_plus:
  assumes "set safe \<subseteq> {CHR ''['', CHR '']''}"
  shows "unquote_plus (quote_plus safe s) = s"
proof (induction s)
  case (Cons c s)
  then show ?case using unquote_plus_quote_char [OF assms, of c "quote_plus safe s"] by (simp add: quote_plus_def)
qed (simp add: quote_plus_def unquote_plus_def)

abbreviation "wire_pair \<equiv> \<lambda>(k, v). quote_plus ''[]'' k @ ''='' @ quote_plus [] v"

lemma read_wire_pair: "read_pair (wire_pair kv) = kv"
proof -
  obtain k v where kv: "kv = (k, v)" by (cases kv)
  have "CHR ''='' \<notin> set (quote_plus ''[]'' k)" using quoted_chars percent_reserved(4) by fastforce
  then have "takeWhile (\<lambda>c. c \<noteq> CHR ''='') (wire_pair kv) = quote_plus ''[]'' k"
    "dropWhile (\<lambda>c. c \<noteq> CHR ''='') (wire_pair kv) = ''='' @ quote_plus [] v"
    by (auto simp: kv takeWhile_append dropWhile_append takeWhile_eq_all_conv)
  then show ?thesis by (simp add: read_pair_def kv unquote_plus_quote_plus)
qed

lemma split_on_join:
  assumes "\<forall>x\<in>set xs. sep \<notin> set x" "xs \<noteq> []"
  shows "split_on sep (join [sep] xs) = xs"
proof -
  have one: "split_on sep x = [x]" if "sep \<notin> set x" for x using that by (induction x) auto
  have app: "split_on sep (x @ sep # r) = x # split_on sep r" if "sep \<notin> set x" for x r using that by (induction x) auto
  show ?thesis
    using assms by (induction "[sep]" xs rule: join.induct) (simp_all add: one app)
qed

lemma read_wire_query: "read_query (join ''&'' (map wire_pair tokens)) = tokens"
proof (cases "tokens = []")
  case False
  have "CHR ''&'' \<notin> set (quote_plus ''[]'' k) \<and> CHR ''&'' \<notin> set (quote_plus [] k)" for k
    using quoted_chars percent_reserved(3) by fastforce
  then have "split_on (CHR ''&'') (join ''&'' (map wire_pair tokens)) = map wire_pair tokens"
    using False by (intro split_on_join) auto
  moreover have "join ''&'' (map wire_pair tokens) \<noteq> []"
    using False by (cases tokens rule: list.exhaust; cases "tl tokens") auto
  ultimately show ?thesis using read_wire_pair by (simp add: read_query_def map_idI)
qed (simp add: read_query_def)

text \<open>The two query strings of a signed request carry the same tokens. What is hashed for the signature is the
  plain text of the tokens with spaces as plus signs, whatever needs escaping; what is transmitted reads back as
  exactly those tokens, in order and with repeated array keys.\<close>

theorem query_strings_agree:
  "qs_hash_query (build_query_strings parameters) =
     join ''&'' (map (\<lambda>(k, v). plus_spaces k @ ''='' @ plus_spaces v) (query_tokens parameters)) \<and>
   read_query (qs_wire_query (build_query_strings parameters)) = query_tokens parameters"
  using read_wire_query [of "query_tokens parameters"] by (simp add: build_query_strings_def Let_def unquote_urlencode)

end
