(* ===== verification/Gateway.thy ===== *)
theory Gateway
  imports Gateway_Client
begin

text \<open>
  The execution of a request (\<^verbatim>\<open>executor.py\<close>) and the request handler of the gateway (\<^verbatim>\<open>main.py\<close>, with the
  lookup of \<^verbatim>\<open>catalog.py\<close>). Execution threads the limiter and lists the requests handed to the HTTP client, so
  that what is sent upstream, and what is not, can be stated. The HTTP client, the clock readings, the nonce and
  the identifiers of a trace are inputs. The health and catalogue routes, the pydantic models of the responses and
  the web socket relay are left out.
\<close>

section \<open>Credentials\<close>

text \<open>What the file system says of a path.\<close>

record secret_file =
  sf_absolute :: bool
  sf_symlink :: bool
  sf_regular :: bool
  sf_mode :: int
  sf_text :: string

definition read_secret_file :: "(string \<Rightarrow> secret_file) \<Rightarrow> string \<Rightarrow> gw_error + string" where
  "read_secret_file files path =
     (let f = files path; secret = strip (sf_text f) in
      if \<not> sf_absolute f \<or> sf_symlink f \<or> \<not> sf_regular f then Inl Gw_CredentialConfiguration
      else if and (sf_mode f) 146 \<noteq> 0 then Inl Gw_CredentialConfiguration
      else if secret = [] then Inl Gw_CredentialConfiguration
      else Inr secret)"

definition env_text :: "(string \<times> string) list \<Rightarrow> string \<Rightarrow> string" where
  "env_text environ name = (case map_of environ name of None \<Rightarrow> [] | Some v \<Rightarrow> v)"

definition load_credentials :: "(string \<Rightarrow> secret_file) \<Rightarrow> (string \<times> string) list \<Rightarrow> gw_error + credentials" where
  "load_credentials files environ =
     (let access = env_text environ ''UPBIT_ACCESS_KEY''; secret = env_text environ ''UPBIT_SECRET_KEY'';
          access_file = env_text environ ''UPBIT_ACCESS_KEY_FILE''; secret_file = env_text environ ''UPBIT_SECRET_KEY_FILE'' in
      if (access \<noteq> [] \<or> secret \<noteq> []) \<and> (access_file \<noteq> [] \<or> secret_file \<noteq> []) then Inl Gw_CredentialConfiguration
      else if access \<noteq> [] \<and> secret \<noteq> [] then Inr \<lparr>cr_access_key = access, cr_secret_key = secret\<rparr>
      else if access_file \<noteq> [] \<and> secret_file \<noteq> [] then
        res_bind (read_secret_file files access_file) (\<lambda>a.
        res_map (\<lambda>s. \<lparr>cr_access_key = a, cr_secret_key = s\<rparr>) (read_secret_file files secret_file))
      else Inl Gw_CredentialConfiguration)"

definition credentials_are_configured :: "(string \<Rightarrow> secret_file) \<Rightarrow> (string \<times> string) list \<Rightarrow> bool" where
  "credentials_are_configured files environ = (case load_credentials files environ of Inl e \<Rightarrow> False | Inr c \<Rightarrow> True)"

definition operator_token_from_environment :: "(string \<times> string) list \<Rightarrow> string" where
  "operator_token_from_environment environ =
     (case map_of environ ''UPBIT_GATEWAY_OPERATOR_TOKEN'' of Some t \<Rightarrow> t | None \<Rightarrow> env_text environ ''GOODMONEYING_OPERATOR_TOKEN'')"

section \<open>The executor\<close>

record http_response =
  hr_status :: int
  hr_remaining_req :: "string option"
  hr_retry_after :: "string option"
  hr_json :: "py_value option"

datatype send_outcome = TimedOut | RequestFailed | Responded http_response

record executor =
  ex_env :: gateway_env
  ex_parsers :: date_parsers
  ex_credentials :: "gw_error + credentials"
  ex_base_url :: string
  ex_allow_loopback_test :: bool

text \<open>What one execution observes: the clock at each pass of the limiter and at its updates, the wall clock of the
  penalty parser, the answer of the client and the fields of the trace that are not computed.\<close>

record execution_inputs =
  ei_readings :: "rat list"
  ei_observed_at :: rat
  ei_deferred_at :: rat
  ei_wall_clock :: rat
  ei_nonce :: string
  ei_send :: "upstream_request \<Rightarrow> send_outcome"
  ei_trace_id :: string
  ei_duration_ms :: py_value
  ei_received_at :: string

record execution_result =
  er_status_code :: int
  er_envelope :: py_value

record execution =
  ex_limiter :: limiter
  ex_sent :: "upstream_request list"
  ex_result :: "(gw_error + execution_result) option"

definition bearer_token :: "string \<Rightarrow> string" where
  "bearer_token s = (if prefix ''Bearer '' s then drop 7 s else s)"

definition header_value :: "upstream_request \<Rightarrow> string \<Rightarrow> string" where
  "header_value request name = (case map_of (ur_headers request) name of None \<Rightarrow> [] | Some v \<Rightarrow> v)"

definition sensitive_values ::
  "upstream_request \<Rightarrow> credentials option \<Rightarrow> py_dict \<Rightarrow> py_dict \<Rightarrow> gw_error + string list" where
  "sensitive_values request creds endpoint parameters =
     (let authorization = header_value request ''Authorization''; always = [authorization, bearer_token authorization] in
      case creds of None \<Rightarrow> Inr always
      | Some c \<Rightarrow> res_map (\<lambda>auth_query. always @ [cr_access_key c, cr_secret_key c] @
                       (if auth_query \<noteq> [] then [query_hash auth_query] else []))
                  (build_auth_query_string endpoint parameters))"

definition envelope_of ::
  "execution_inputs \<Rightarrow> py_dict \<Rightarrow> py_dict \<Rightarrow> string \<Rightarrow> string list \<Rightarrow> http_response \<Rightarrow> py_value \<Rightarrow> gw_error + py_value" where
  "envelope_of inp endpoint parameters rate_group sensitive response body =
     res_bind (gw_item endpoint ''endpoint_id'') (\<lambda>endpoint_id.
     res_bind (gw_item endpoint ''method'') (\<lambda>http_method.
     res_bind (gw_item endpoint ''path'') (\<lambda>path.
     let remaining = parse_remaining_req (hr_remaining_req response) in
     Inr (PyDict
       [(''trace_id'', PyStr (ei_trace_id inp)),
        (''endpoint_id'', endpoint_id),
        (''request'', sanitize sensitive
           (PyDict [(''method'', http_method), (''path'', path), (''parameters'', PyDict parameters)])),
        (''response'', PyDict [(''status_code'', PyInt (hr_status response)), (''body'', sanitize sensitive body)]),
        (''rate_limit'', PyDict
           [(''group'', PyStr (case remaining of Some (g, q) \<Rightarrow> g | None \<Rightarrow> rate_group)),
            (''remaining_sec'', case remaining of Some (g, q) \<Rightarrow> PyInt q | None \<Rightarrow> PyNone),
            (''retry_after'', case hr_retry_after response of Some s \<Rightarrow> PyStr s | None \<Rightarrow> PyNone)]),
        (''duration_ms'', ei_duration_ms inp),
        (''received_at'', PyStr (ei_received_at inp))]))))"

definition response_group_of :: "string \<Rightarrow> http_response \<Rightarrow> string" where
  "response_group_of rate_group response =
     (case parse_remaining_req (hr_remaining_req response) of
        Some (g, q) \<Rightarrow> if g = rate_group then g else rate_group
      | None \<Rightarrow> rate_group)"

text \<open>The seconds a response defers its group by.\<close>

definition penalty_of :: "executor \<Rightarrow> execution_inputs \<Rightarrow> http_response \<Rightarrow> rl_error + rat option" where
  "penalty_of ex inp response =
     (case hr_json response of
        None \<Rightarrow> if hr_status response = 418
          then res_map Some (parse_penalty_seconds (ex_parsers ex) (hr_retry_after response) PyNone (ei_wall_clock inp) 60)
          else Inr None
      | Some body \<Rightarrow>
          if hr_status response = 429 then Inr (Some 1)
          else if hr_status response = 418
          then res_map Some (parse_penalty_seconds (ex_parsers ex) (hr_retry_after response) body (ei_wall_clock inp) 60)
          else Inr None)"

definition handle_response ::
  "executor \<Rightarrow> execution_inputs \<Rightarrow> py_dict \<Rightarrow> py_dict \<Rightarrow> string \<Rightarrow> (gw_error + string list) \<Rightarrow> limiter \<Rightarrow> http_response \<Rightarrow>
     limiter \<times> (gw_error + execution_result)" where
  "handle_response ex inp endpoint parameters rate_group sensitive st response =
     (let st1 = observe st (hr_remaining_req response) (ei_observed_at inp) in
      case penalty_of ex inp response of
        Inl e \<Rightarrow> (st1, Inl (Gw_Limiter e))
      | Inr penalty \<Rightarrow>
          let st2 = (case penalty of None \<Rightarrow> st1
                     | Some seconds \<Rightarrow> defer_group st1 (response_group_of rate_group response) seconds (ei_deferred_at inp)) in
          case hr_json response of
            None \<Rightarrow> (st2, Inl Gw_UpstreamProtocol)
          | Some body \<Rightarrow>
              (st2, res_bind sensitive (\<lambda>hidden.
                 res_map (\<lambda>envelope. \<lparr>er_status_code = hr_status response, er_envelope = envelope\<rparr>)
                   (envelope_of inp endpoint parameters rate_group hidden response body))))"

definition preflight :: "executor \<Rightarrow> py_dict \<Rightarrow> py_dict \<Rightarrow> gw_error + string" where
  "preflight ex endpoint parameters =
     res_bind (gw_item endpoint ''safety'') (\<lambda>safety.
     res_bind (ensure_upstream_allowed safety) (\<lambda>_.
     res_bind (validate_parameters (ge_fromiso (ex_env ex)) endpoint parameters) (\<lambda>_.
     gw_text_item endpoint ''rate_limit_group'')))"

text \<open>The credentials are read after the limiter let the request pass, and only for exchange endpoints.\<close>

definition endpoint_credentials :: "executor \<Rightarrow> py_dict \<Rightarrow> gw_error + credentials option" where
  "endpoint_credentials ex endpoint =
     res_bind (gw_item endpoint ''category'') (\<lambda>category.
     if category = PyStr ''exchange'' then res_map Some (ex_credentials ex) else Inr None)"

definition prepare_request ::
  "executor \<Rightarrow> execution_inputs \<Rightarrow> py_dict \<Rightarrow> py_dict \<Rightarrow> gw_error + credentials option \<times> upstream_request" where
  "prepare_request ex inp endpoint parameters =
     res_bind (endpoint_credentials ex endpoint) (\<lambda>creds.
     res_map (Pair creds)
       (build_upstream_request (ex_env ex) endpoint parameters (ex_base_url ex) creds
          (ex_allow_loopback_test ex) (ei_nonce inp)))"

definition execute :: "executor \<Rightarrow> limiter \<Rightarrow> execution_inputs \<Rightarrow> py_dict \<Rightarrow> py_dict \<Rightarrow> execution" where
  "execute ex st inp endpoint parameters =
     (case preflight ex endpoint parameters of
        Inl e \<Rightarrow> \<lparr>ex_limiter = st, ex_sent = [], ex_result = Some (Inl e)\<rparr>
      | Inr rate_group \<Rightarrow>
          (case acquire st rate_group (ei_readings inp) of
             Inl e \<Rightarrow> \<lparr>ex_limiter = st, ex_sent = [], ex_result = Some (Inl (Gw_Limiter e))\<rparr>
           | Inr (st1, waits, None) \<Rightarrow> \<lparr>ex_limiter = st1, ex_sent = [], ex_result = None\<rparr>
           | Inr (st1, waits, Some granted) \<Rightarrow>
               (case prepare_request ex inp endpoint parameters of
                  Inl e \<Rightarrow> \<lparr>ex_limiter = st1, ex_sent = [], ex_result = Some (Inl e)\<rparr>
                | Inr (creds, request) \<Rightarrow>
                    (case ei_send inp request of
                       TimedOut \<Rightarrow> \<lparr>ex_limiter = st1, ex_sent = [request], ex_result = Some (Inl Gw_UpstreamTimeout)\<rparr>
                     | RequestFailed \<Rightarrow> \<lparr>ex_limiter = st1, ex_sent = [request], ex_result = Some (Inl Gw_UpstreamConnection)\<rparr>
                     | Responded response \<Rightarrow>
                         let (st2, result) = handle_response ex inp endpoint parameters rate_group
                               (sensitive_values request creds endpoint parameters) st1 response
                         in \<lparr>ex_limiter = st2, ex_sent = [request], ex_result = Some result\<rparr>))))"

section \<open>The request handler\<close>

datatype gateway_reply =
    Error_Reply int string
  | Trace_Reply int py_value

fun find_endpoint :: "string \<Rightarrow> py_value list \<Rightarrow> gw_error + py_dict option" where
  "find_endpoint endpoint_id [] = Inr None"
| "find_endpoint endpoint_id (e # es) =
     res_bind (gw_dict e) (\<lambda>endpoint.
     res_bind (gw_item endpoint ''endpoint_id'') (\<lambda>v.
     if v = PyStr endpoint_id then Inr (Some endpoint) else find_endpoint endpoint_id es))"

definition rest_endpoint_by_id :: "py_dict \<Rightarrow> string \<Rightarrow> gw_error + py_dict option" where
  "rest_endpoint_by_id catalog endpoint_id =
     res_bind (res_bind (gw_item catalog ''rest_endpoints'') gw_list) (find_endpoint endpoint_id)"

text \<open>\<^verbatim>\<open>hmac.compare_digest\<close> decides equality; an absent header is the empty text.\<close>

definition require_rest_operator_token :: "string option \<Rightarrow> string \<Rightarrow> (int \<times> string) + unit" where
  "require_rest_operator_token supplied expected =
     (let supplied_token = (case supplied of None \<Rightarrow> [] | Some t \<Rightarrow> t) in
      if supplied_token = [] then Inl (401, ''OPERATOR_TOKEN_REQUIRED'')
      else if expected = [] \<or> supplied_token \<noteq> expected then Inl (403, ''OPERATOR_TOKEN_INVALID'')
      else Inr ())"

text \<open>The replies to the exceptions of the executor; any other exception is an internal error.\<close>

definition error_reply :: "gw_error \<Rightarrow> gateway_reply" where
  "error_reply e =
     (case e of
        Gw_PolicyBlocked \<Rightarrow> Error_Reply 403 ''POLICY_BLOCKED''
      | Gw_InvalidParameters _ \<Rightarrow> Error_Reply 422 ''INVALID_PARAMETERS''
      | Gw_CredentialConfiguration \<Rightarrow> Error_Reply 503 ''CREDENTIALS_NOT_CONFIGURED''
      | Gw_UpstreamTimeout \<Rightarrow> Error_Reply 504 ''UPSTREAM_TIMEOUT''
      | Gw_UpstreamProtocol \<Rightarrow> Error_Reply 502 ''UPSTREAM_NON_JSON''
      | Gw_UpstreamConnection \<Rightarrow> Error_Reply 502 ''UPSTREAM_CONNECTION_ERROR''
      | _ \<Rightarrow> Error_Reply 500 ''INTERNAL'')"

record gateway_call =
  gc_limiter :: limiter
  gc_sent :: "upstream_request list"
  gc_reply :: "gateway_reply option"

definition execute_request ::
  "py_dict \<Rightarrow> executor \<Rightarrow> string \<Rightarrow> limiter \<Rightarrow> execution_inputs \<Rightarrow> string option \<Rightarrow> string \<Rightarrow> py_dict \<Rightarrow> gateway_call" where
  "execute_request catalog ex expected_token st inp supplied_token endpoint_id parameters =
     (case require_rest_operator_token supplied_token expected_token of
        Inl (status, code) \<Rightarrow> \<lparr>gc_limiter = st, gc_sent = [], gc_reply = Some (Error_Reply status code)\<rparr>
      | Inr _ \<Rightarrow>
          if \<not> prefix ''rest.'' endpoint_id
          then \<lparr>gc_limiter = st, gc_sent = [], gc_reply = Some (Error_Reply 422 ''INVALID_REQUEST'')\<rparr>
          else (case rest_endpoint_by_id catalog endpoint_id of
              Inl e \<Rightarrow> \<lparr>gc_limiter = st, gc_sent = [], gc_reply = Some (error_reply e)\<rparr>
            | Inr None \<Rightarrow> \<lparr>gc_limiter = st, gc_sent = [], gc_reply = Some (Error_Reply 404 ''UNKNOWN_ENDPOINT'')\<rparr>
            | Inr (Some endpoint) \<Rightarrow>
                let x = execute ex st inp endpoint parameters in
                \<lparr>gc_limiter = ex_limiter x, gc_sent = ex_sent x,
                 gc_reply = map_option (\<lambda>r. case r of Inl e \<Rightarrow> error_reply e
                   | Inr result \<Rightarrow> Trace_Reply (er_status_code result) (er_envelope result)) (ex_result x)\<rparr>))"

section \<open>What is sent\<close>

lemma token_required:
  "require_rest_operator_token supplied expected = Inr u \<longleftrightarrow> supplied = Some expected \<and> expected \<noteq> []"
  by (cases supplied) (auto simp: require_rest_operator_token_def Let_def)

lemma execute_sent:
  assumes "request \<in> set (ex_sent (execute ex st inp endpoint parameters))"
  obtains grp st1 waits t creds where "preflight ex endpoint parameters = Inr grp"
    "acquire st grp (ei_readings inp) = Inr (st1, waits, Some t)"
    "prepare_request ex inp endpoint parameters = Inr (creds, request)"
    "ex_sent (execute ex st inp endpoint parameters) = [request]"
  using assms by (auto simp: execute_def Let_def split: sum.splits prod.splits option.splits send_outcome.splits)

lemma execute_request_sent:
  assumes "request \<in> set (gc_sent (execute_request catalog ex expected st inp supplied endpoint_id parameters))"
  obtains endpoint where "supplied = Some expected" "expected \<noteq> []"
    "rest_endpoint_by_id catalog endpoint_id = Inr (Some endpoint)"
    "request \<in> set (ex_sent (execute ex st inp endpoint parameters))"
    "gc_sent (execute_request catalog ex expected st inp supplied endpoint_id parameters) =
       ex_sent (execute ex st inp endpoint parameters)"
proof (cases "require_rest_operator_token supplied expected")
  case (Inr u)
  then show ?thesis
    using assms that token_required [of supplied expected u]
    by (cases "rest_endpoint_by_id catalog endpoint_id")
       (auto simp: execute_request_def Let_def split: if_splits option.splits)
qed (use assms in \<open>auto simp: execute_request_def split: prod.splits\<close>)

lemma preflight_ok:
  "preflight ex endpoint parameters = Inr grp \<Longrightarrow>
    gw_item endpoint ''safety'' \<in> {Inr (PyStr ''read''), Inr (PyStr ''test'')} \<and>
    validate_parameters (ge_fromiso (ex_env ex)) endpoint parameters = Inr () \<and>
    gw_text_item endpoint ''rate_limit_group'' = Inr grp"
  by (auto simp: preflight_def res_bind_eq_Inr_iff ensure_upstream_allowed_def split: if_splits)

lemma base_url_official:
  "validate_base_url env url False = Inr base \<Longrightarrow> base = OFFICIAL_BASE_URL"
  by (auto simp: validate_base_url_def Let_def split: if_splits option.splits)

lemma auth_headers_shape:
  assumes "auth_headers env endpoint creds q nonce = Inr hs"
  shows "(if gw_item endpoint ''category'' = Inr (PyStr ''exchange'')
    then \<exists>c. creds = Some c \<and> hs = [(''Authorization'', ''Bearer '' @ create_jwt (ge_jwt_encode env) c q nonce)] else hs = [])"
  using assms by (auto simp: auth_headers_def res_bind_eq_Inr_iff split: option.splits if_splits)

abbreviation query_part :: "request_parts \<Rightarrow> string" where
  "query_part parts \<equiv> (if qs_wire_query (build_query_strings (rp_query parts)) \<noteq> []
     then ''?'' @ qs_wire_query (build_query_strings (rp_query parts)) else [])"

text \<open>A placeholder starts with a brace, so placing the parameters keeps the leading slash of a path.\<close>

lemma replace_keeps_slash: "prefix ''/'' p \<Longrightarrow> prefix ''/'' (replace_all (''{'' @ name) r p)"
proof -
  assume "prefix ''/'' p"
  then obtain cs where p: "p = CHR ''/'' # cs" by (cases p) auto
  have miss: "\<not> (''{'' @ name \<noteq> [] \<and> prefix (''{'' @ name) (CHR ''/'' # cs))" by simp
  show ?thesis unfolding p replace_all_miss [OF miss] by simp
qed

lemma place_keeps_slash:
  "place_parameters specs parts vals = Inr parts' \<Longrightarrow> prefix ''/'' (rp_path parts) \<Longrightarrow> prefix ''/'' (rp_path parts')"
proof (induction vals arbitrary: parts)
  case (Cons kv vals)
  obtain name v where kv: "kv = (name, v)" by (cases kv)
  obtain spec location where spec: "map_of specs name = Some spec" "gw_item spec ''location'' = Inr location"
    using Cons.prems(1) kv by (auto simp: res_bind_eq_Inr_iff split: option.splits)
  note rest = Cons.prems(1) [unfolded kv place_parameters.simps spec option.case res_bind_Inr]
  show ?case
    by (rule Cons.IH [OF rest]) (use Cons.prems(2) replace_keeps_slash [of "rp_path parts" "name @ ''}''"] in simp)
qed simp

lemma built_request:
  assumes "build_upstream_request env endpoint parameters base_url creds allow nonce = Inr request"
  shows "(\<exists>base path specs parts. validate_base_url env base_url allow = Inr base \<and>
      gw_text_item endpoint ''path'' = Inr path \<and> parameter_specifications endpoint = Inr specs \<and>
      place_parameters specs \<lparr>rp_path = path, rp_query = [], rp_body = []\<rparr> parameters = Inr parts \<and>
      ur_url request = base @ rp_path parts @ query_part parts) \<and>
    (\<exists>q hs. auth_headers env endpoint creds q nonce = Inr hs \<and> ur_headers request = (''Accept'', ''application/json'') # hs)"
  using assms by (auto simp: build_upstream_request_def res_bind_eq_Inr_iff Let_def)

text \<open>C17. Nothing reaches the exchange unless every safeguard has passed. When the gateway sends a request, the
  caller presented the configured operator token, the endpoint is in the catalogue and marked as read or test, its
  parameters satisfied the catalogue, and the limiter granted the group of the endpoint at one of the readings of the
  clock. Exactly one request is sent; it carries no header of the caller, only \<^verbatim>\<open>Accept\<close> and, for exchange
  endpoints alone, the authorization. Unless the loopback test mode is on, its URL is exactly the official base
  \<^verbatim>\<open>https://api.upbit.com\<close>, the path of the endpoint with the parameters placed in it, and the query string; when the
  path of the catalogue starts with a slash the base is followed by a slash, so that the request goes to the official
  server.\<close>

theorem gateway_sends_safely:
  assumes "request \<in> set (gc_sent (execute_request catalog ex expected st inp supplied endpoint_id parameters))"
  shows "gc_sent (execute_request catalog ex expected st inp supplied endpoint_id parameters) = [request] \<and>
    supplied = Some expected \<and> expected \<noteq> [] \<and>
    (\<exists>endpoint grp st1 waits t path specs parts. rest_endpoint_by_id catalog endpoint_id = Inr (Some endpoint) \<and>
       gw_item endpoint ''safety'' \<in> {Inr (PyStr ''read''), Inr (PyStr ''test'')} \<and>
       validate_parameters (ge_fromiso (ex_env ex)) endpoint parameters = Inr () \<and>
       gw_text_item endpoint ''rate_limit_group'' = Inr grp \<and>
       acquire st grp (ei_readings inp) = Inr (st1, waits, Some t) \<and>
       map fst (ur_headers request) = (if gw_item endpoint ''category'' = Inr (PyStr ''exchange'')
         then [''Accept'', ''Authorization''] else [''Accept'']) \<and>
       gw_text_item endpoint ''path'' = Inr path \<and> parameter_specifications endpoint = Inr specs \<and>
       place_parameters specs \<lparr>rp_path = path, rp_query = [], rp_body = []\<rparr> parameters = Inr parts \<and>
       (\<not> ex_allow_loopback_test ex \<longrightarrow> ur_url request = ''https://api.upbit.com'' @ rp_path parts @ query_part parts) \<and>
       (\<not> ex_allow_loopback_test ex \<and> prefix ''/'' path \<longrightarrow> prefix ''https://api.upbit.com/'' (ur_url request)))"
proof -
  obtain endpoint where e: "supplied = Some expected" "expected \<noteq> []"
      "rest_endpoint_by_id catalog endpoint_id = Inr (Some endpoint)"
      "request \<in> set (ex_sent (execute ex st inp endpoint parameters))"
      "gc_sent (execute_request catalog ex expected st inp supplied endpoint_id parameters) =
         ex_sent (execute ex st inp endpoint parameters)"
    using execute_request_sent [OF assms] by blast
  obtain grp st1 waits t creds where x: "preflight ex endpoint parameters = Inr grp"
      "acquire st grp (ei_readings inp) = Inr (st1, waits, Some t)"
      "prepare_request ex inp endpoint parameters = Inr (creds, request)"
      "ex_sent (execute ex st inp endpoint parameters) = [request]"
    using execute_sent [OF e(4)] by blast
  have built: "build_upstream_request (ex_env ex) endpoint parameters (ex_base_url ex) creds (ex_allow_loopback_test ex)
      (ei_nonce inp) = Inr request"
    using x(3) by (auto simp: prepare_request_def res_bind_eq_Inr_iff res_map_eq_Inr_iff)
  obtain q hs where hs: "auth_headers (ex_env ex) endpoint creds q (ei_nonce inp) = Inr hs"
      "ur_headers request = (''Accept'', ''application/json'') # hs"
    using built_request [OF built] by blast
  obtain base path specs parts where url: "validate_base_url (ex_env ex) (ex_base_url ex) (ex_allow_loopback_test ex) = Inr base"
      "gw_text_item endpoint ''path'' = Inr path" "parameter_specifications endpoint = Inr specs"
      "place_parameters specs \<lparr>rp_path = path, rp_query = [], rp_body = []\<rparr> parameters = Inr parts"
      "ur_url request = base @ rp_path parts @ query_part parts"
    using built_request [OF built] by blast
  have headers: "map fst (ur_headers request) = (if gw_item endpoint ''category'' = Inr (PyStr ''exchange'')
      then [''Accept'', ''Authorization''] else [''Accept''])"
    using auth_headers_shape [OF hs(1)] hs(2) by (auto split: if_splits)
  have "base = OFFICIAL_BASE_URL" if "\<not> ex_allow_loopback_test ex" using url(1) base_url_official that by simp
  then have official: "\<not> ex_allow_loopback_test ex \<longrightarrow> ur_url request = ''https://api.upbit.com'' @ rp_path parts @ query_part parts"
    using url(5) by (simp add: OFFICIAL_BASE_URL_def)
  have "prefix ''/'' (rp_path parts)" if "prefix ''/'' path" using place_keeps_slash [OF url(4)] that by simp
  then have slash: "\<not> ex_allow_loopback_test ex \<and> prefix ''/'' path \<longrightarrow> prefix ''https://api.upbit.com/'' (ur_url request)"
    using official by (auto simp: prefix_def)
  note pre = preflight_ok [OF x(1)]
  show ?thesis using e(1-3) e(5) [unfolded x(4)] x(2) pre headers url(2-4) official slash by blast
qed

section \<open>What a trace shows\<close>

lemma envelope_parts:
  assumes "envelope_of inp endpoint parameters grp hidden response body = Inr env"
  shows "\<exists>d v. env = PyDict d \<and> dict_get d ''request'' = sanitize hidden v \<and>
    dict_get d ''response'' = PyDict [(''status_code'', PyInt (hr_status response)), (''body'', sanitize hidden body)]"
  using assms by (auto simp: envelope_of_def res_bind_eq_Inr_iff Let_def dict_get_def)

lemma response_leaves:
  "leaf_texts (PyDict [(''status_code'', PyInt i), (''body'', b)]) = leaf_texts b"
  by (simp add: leaf_texts.simps [of "PyDict _"] leaf_texts.simps [of "PyInt _"])

lemma execute_result:
  assumes "ex_result (execute ex st inp endpoint parameters) = Some (Inr result)"
    and "ex_sent (execute ex st inp endpoint parameters) = [request]"
  shows "\<exists>creds hidden grp response body. prepare_request ex inp endpoint parameters = Inr (creds, request) \<and>
    sensitive_values request creds endpoint parameters = Inr hidden \<and>
    envelope_of inp endpoint parameters grp hidden response body = Inr (er_envelope result)"
proof -
  obtain grp st1 waits t creds where x: "preflight ex endpoint parameters = Inr grp"
      "acquire st grp (ei_readings inp) = Inr (st1, waits, Some t)"
      "prepare_request ex inp endpoint parameters = Inr (creds, request)"
    using execute_sent [of request ex st inp endpoint parameters] assms(2) by (metis list.set_intros(1))
  obtain response st2 where h: "handle_response ex inp endpoint parameters grp
      (sensitive_values request creds endpoint parameters) st1 response = (st2, Inr result)"
    using assms(1) x by (auto simp: execute_def Let_def split: send_outcome.splits prod.splits)
  then obtain body where "res_bind (sensitive_values request creds endpoint parameters) (\<lambda>hidden.
      res_map (\<lambda>envelope. \<lparr>er_status_code = hr_status response, er_envelope = envelope\<rparr>)
        (envelope_of inp endpoint parameters grp hidden response body)) = Inr result"
    by (auto simp: handle_response_def Let_def split: sum.splits option.splits)
  then show ?thesis using x(3) by (fastforce simp: res_bind_eq_Inr_iff res_map_eq_Inr_iff)
qed

lemma error_reply_not_trace [simp]: "error_reply e \<noteq> Trace_Reply status env"
  by (cases e) (simp_all add: error_reply_def)

lemma execute_request_trace:
  assumes "gc_reply (execute_request catalog ex expected st inp supplied endpoint_id parameters) = Some (Trace_Reply status env)"
  shows "\<exists>endpoint result. rest_endpoint_by_id catalog endpoint_id = Inr (Some endpoint) \<and>
    ex_result (execute ex st inp endpoint parameters) = Some (Inr result) \<and> er_envelope result = env"
proof (cases "require_rest_operator_token supplied expected")
  case (Inr u)
  show ?thesis
  proof (cases "rest_endpoint_by_id catalog endpoint_id")
    case (Inr found)
    obtain endpoint r where "found = Some endpoint" "ex_result (execute ex st inp endpoint parameters) = Some r"
        "(case r of Inl e \<Rightarrow> error_reply e | Inr result \<Rightarrow> Trace_Reply (er_status_code result) (er_envelope result)) =
          Trace_Reply status env"
      using assms Inr \<open>require_rest_operator_token supplied expected = Inr u\<close>
      by (cases found) (auto simp: execute_request_def Let_def split: if_splits)
    then show ?thesis using Inr by (cases r) auto
  qed (use assms Inr in \<open>simp add: execute_request_def split: if_splits\<close>)
qed (use assms in \<open>simp add: execute_request_def split: prod.splits\<close>)

text \<open>The keys of an object are left as they are: what the exchange echoes as a key is not masked.\<close>

lemma sanitize_keeps_keys:
  "\<exists>d'. sanitize sensitive (PyDict d) = PyDict d' \<and> map fst d' = map fst d"
  by (simp add: sanitize.simps [of sensitive "PyDict d"] comp_def)

section \<open>The limiter under execution\<close>

text \<open>Each execution is a sequence of passes through the lock of the limiter.\<close>

lemma acquire_run:
  assumes "limiter_run start t0 es st t" "sorted (t # readings)" "acquire st grp readings = Inr (st', waits, granted)"
  shows "\<exists>es' t'. limiter_run start t0 (es @ es') st' t' \<and> t \<le> t' \<and> t' \<in> set (t # readings) \<and>
    grants grp es' = (case granted of None \<Rightarrow> [] | Some u \<Rightarrow> [u]) \<and> (\<forall>g. g \<noteq> grp \<longrightarrow> grants g es' = []) \<and>
    (\<forall>g s u. Deferred g s u \<notin> set es')"
  using assms
proof (induction readings arbitrary: es st t waits)
  case Nil
  then show ?case by (intro exI [of _ "[]"] exI [of _ t]) auto
next
  case (Cons now readings)
  obtain s w where sec: "acquire_section st grp now = Inr (s, w)"
    using Cons.prems(3) by (auto simp: res_bind_eq_Inr_iff)
  have now: "t \<le> now" using Cons.prems(2) by simp
  show ?case
  proof (cases w)
    case None
    then have eq: "st' = s" "granted = Some now" using Cons.prems(3) sec by auto
    have "limiter_run start t0 (es @ [Granted grp now]) s now" using run_grant [OF Cons.prems(1) now] sec None by simp
    then show ?thesis using eq now by (intro exI [of _ "[Granted grp now]"] exI [of _ now]) simp
  next
    case (Some wait)
    then obtain ws where rest: "acquire s grp readings = Inr (st', ws, granted)"
      using Cons.prems(3) sec by (auto simp: res_map_eq_Inr_iff)
    have run: "limiter_run start t0 (es @ [Delayed grp now wait]) s now" using run_delay [OF Cons.prems(1) now] sec Some by simp
    have "sorted (now # readings)" using Cons.prems(2) by simp
    from Cons.IH [OF run this rest] obtain es' t' where ih: "limiter_run start t0 ((es @ [Delayed grp now wait]) @ es') st' t'"
        "now \<le> t'" "t' \<in> set (now # readings)" "grants grp es' = (case granted of None \<Rightarrow> [] | Some u \<Rightarrow> [u])"
        "\<forall>g. g \<noteq> grp \<longrightarrow> grants g es' = []" "\<forall>g s u. Deferred g s u \<notin> set es'"
      by blast
    then show ?thesis using now by (intro exI [of _ "Delayed grp now wait # es'"] exI [of _ t']) auto
  qed
qed

lemma handle_response_run:
  assumes "limiter_run start t0 es st t" "t \<le> ei_observed_at inp" "ei_observed_at inp \<le> ei_deferred_at inp"
  shows "\<exists>es' t'. limiter_run start t0 (es @ es')
      (fst (handle_response ex inp endpoint parameters grp sensitive st response)) t' \<and> (\<forall>g. grants g es' = []) \<and>
    es' = Observed (hr_remaining_req response) (ei_observed_at inp) #
      (case penalty_of ex inp response of Inr (Some seconds) \<Rightarrow> [Deferred grp seconds (ei_deferred_at inp)] | _ \<Rightarrow> [])"
proof -
  have grp: "response_group_of grp response = grp" by (auto simp: response_group_of_def split: option.splits)
  let ?o = "Observed (hr_remaining_req response) (ei_observed_at inp)"
  have obs: "limiter_run start t0 (es @ [?o]) (observe st (hr_remaining_req response) (ei_observed_at inp)) (ei_observed_at inp)"
    by (rule run_observe [OF assms(1,2)])
  show ?thesis
  proof (cases "penalty_of ex inp response")
    case (Inl e)
    then show ?thesis using obs by (intro exI [of _ "[?o]"] exI [of _ "ei_observed_at inp"]) (simp add: handle_response_def Let_def)
  next
    case (Inr penalty)
    show ?thesis
    proof (cases penalty)
      case None
      then show ?thesis
        using obs Inr by (intro exI [of _ "[?o]"] exI [of _ "ei_observed_at inp"]) (simp add: handle_response_def Let_def split: option.splits)
    next
      case (Some seconds)
      have "limiter_run start t0 ((es @ [?o]) @ [Deferred grp seconds (ei_deferred_at inp)])
          (defer_group (observe st (hr_remaining_req response) (ei_observed_at inp)) grp seconds (ei_deferred_at inp))
          (ei_deferred_at inp)"
        by (rule run_defer [OF obs assms(3)])
      then show ?thesis
        using Inr Some
        by (intro exI [of _ "[?o, Deferred grp seconds (ei_deferred_at inp)]"] exI [of _ "ei_deferred_at inp"])
           (simp add: handle_response_def Let_def grp split: option.splits)
    qed
  qed
qed

section \<open>Complete credentials\<close>

lemma read_secret_file_nonempty: "read_secret_file files path = Inr s \<Longrightarrow> s \<noteq> []"
  by (auto simp: read_secret_file_def Let_def split: if_splits)

lemma load_credentials_complete:
  "load_credentials files environ = Inr c \<Longrightarrow> cr_access_key c \<noteq> [] \<and> cr_secret_key c \<noteq> []"
  by (auto simp: load_credentials_def Let_def res_bind_eq_Inr_iff res_map_eq_Inr_iff dest: read_secret_file_nonempty split: if_splits)
section \<open>Examples\<close>

definition example_endpoint :: py_dict where
  "example_endpoint =
     [(''endpoint_id'', PyStr ''rest.accounts''), (''category'', PyStr ''exchange''), (''method'', PyStr ''GET''),
      (''path'', PyStr ''/v1/accounts''), (''parameters'', PyList []), (''rate_limit_group'', PyStr ''order''),
      (''safety'', PyStr ''read'')]"

definition example_executor :: executor where
  "example_executor =
     \<lparr>ex_env = \<lparr>ge_fromiso = (\<lambda>_. None),
        ge_urlparse = (\<lambda>s. Some \<lparr>up_scheme = [], up_hostname = None, up_path = [], up_query = [], up_fragment = [],
          up_username = None, up_password = None, up_port_ok = True\<rparr>),
        ge_is_loopback = (\<lambda>_. None), ge_jwt_encode = (\<lambda>payload key. ''signed'')\<rparr>,
      ex_parsers = no_parsers, ex_credentials = Inr \<lparr>cr_access_key = ''AK'', cr_secret_key = ''SK''\<rparr>,
      ex_base_url = ''https://api.upbit.com/'', ex_allow_loopback_test = False\<rparr>"

definition example_request :: upstream_request where
  "example_request = \<lparr>ur_method = ''GET'', ur_url = ''https://api.upbit.com/v1/accounts'', ur_json = None,
     ur_headers = [(''Accept'', ''application/json''), (''Authorization'', ''Bearer signed'')]\<rparr>"

definition example_response :: http_response where
  "example_response = \<lparr>hr_status = 429, hr_remaining_req = None, hr_retry_after = None,
     hr_json = Some (PyDict [(''message'', PyStr ''too many requests of AK'')])\<rparr>"

definition example_inputs :: execution_inputs where
  "example_inputs =
     \<lparr>ei_readings = [0], ei_observed_at = 0, ei_deferred_at = 0, ei_wall_clock = 0, ei_nonce = ''n'',
      ei_send = (\<lambda>_. Responded example_response),
      ei_trace_id = ''t'', ei_duration_ms = PyInt 1, ei_received_at = ''now''\<rparr>"

definition example_catalog :: py_dict where
  "example_catalog = [(''rest_endpoints'', PyList [PyDict example_endpoint])]"

lemma example_preflight: "preflight example_executor example_endpoint [] = Inr ''order''"
  by (simp add: preflight_def example_endpoint_def gw_item_def ensure_upstream_allowed_def hashable_def res_guard_def
      validate_parameters_def parameter_specifications_def gw_list_def required_missing_def name_lists_def
      dict_get_default_def validate_forbidden_value_combinations_def validate_parameter_ranges_def gw_text_item_def gw_text_def)

lemma example_prepared:
  "prepare_request example_executor example_inputs example_endpoint [] =
     Inr (Some \<lparr>cr_access_key = ''AK'', cr_secret_key = ''SK''\<rparr>, example_request)"
proof -
  have base: "rstrip_slashes ''https://api.upbit.com/'' = ''https://api.upbit.com''" by code_simp
  have "validate_parameters f example_endpoint [] = Inr ()" for f
    by (simp add: example_endpoint_def gw_item_def validate_parameters_def parameter_specifications_def gw_list_def
        required_missing_def name_lists_def dict_get_default_def validate_forbidden_value_combinations_def
        validate_parameter_ranges_def)
  moreover have "parameter_specifications example_endpoint = Inr []"
    by (simp add: example_endpoint_def gw_item_def parameter_specifications_def gw_list_def)
  ultimately show ?thesis
    by (simp add: prepare_request_def endpoint_credentials_def build_upstream_request_def build_query_strings_def
        query_tokens_def urlencode_def build_auth_query_string_def build_query_string_def auth_headers_def create_jwt_def
        validate_base_url_def OFFICIAL_BASE_URL_def base gw_text_item_def gw_text_def gw_item_def Let_def
        example_executor_def example_endpoint_def example_inputs_def example_request_def)
qed

lemma example_acquired: "\<exists>st. acquire (new_limiter example_limits) ''order'' (ei_readings example_inputs) = Inr (st, [], Some 0)"
  by (simp add: example_inputs_def acquire_section_def new_limiter_def)

lemma example_send: "ei_send example_inputs request = Responded example_response"
  by (simp add: example_inputs_def)

lemma example_execution:
  "ex_sent (execute example_executor (new_limiter example_limits) example_inputs example_endpoint []) = [example_request]"
  "\<exists>result. ex_result (execute example_executor (new_limiter example_limits) example_inputs example_endpoint []) = Some (Inr result)"
proof -
  obtain st where acq: "acquire (new_limiter example_limits) ''order'' (ei_readings example_inputs) = Inr (st, [], Some 0)"
    using example_acquired by blast
  note x = execute_def example_preflight acq example_prepared split_beta Let_def
  show "ex_sent (execute example_executor (new_limiter example_limits) example_inputs example_endpoint []) = [example_request]"
    by (simp add: x example_send)
  have specs: "parameter_specifications example_endpoint = Inr []"
    by (simp add: example_endpoint_def gw_item_def parameter_specifications_def gw_list_def)
  show "\<exists>result. ex_result (execute example_executor (new_limiter example_limits) example_inputs example_endpoint []) = Some (Inr result)"
    by (simp add: x example_send handle_response_def penalty_of_def example_response_def sensitive_values_def envelope_of_def
        build_auth_query_string_def specs, simp add: example_endpoint_def gw_item_def)
qed

abbreviation "example_call \<equiv> execute_request example_catalog example_executor ''op'' (new_limiter example_limits)
  example_inputs (Some ''op'') ''rest.accounts'' []"

lemma example_called:
  "gc_sent example_call = [example_request]" "\<exists>env. gc_reply example_call = Some (Trace_Reply 429 env)"
proof -
  have found: "rest_endpoint_by_id example_catalog ''rest.accounts'' = Inr (Some example_endpoint)"
    by (simp add: rest_endpoint_by_id_def example_catalog_def gw_item_def gw_list_def gw_dict_def example_endpoint_def)
  note defs = execute_request_def require_rest_operator_token_def found Let_def
  show "gc_sent example_call = [example_request]" using example_execution(1) by (simp add: defs)
  obtain result where "ex_result (execute example_executor (new_limiter example_limits) example_inputs example_endpoint []) = Some (Inr result)"
    using example_execution(2) by blast
  moreover have "er_status_code result = 429"
    using calculation example_acquired
    by (auto simp: execute_def example_preflight example_prepared split_beta Let_def example_send handle_response_def
        penalty_of_def example_response_def res_bind_eq_Inr_iff res_map_eq_Inr_iff)
  ultimately show "\<exists>env. gc_reply example_call = Some (Trace_Reply 429 env)" by (simp add: defs)
qed

theorem gateway_sends_safely_witness:
  "gc_sent example_call = [example_request] \<and> prefix ''https://api.upbit.com/'' (ur_url example_request) \<and>
    map fst (ur_headers example_request) = [''Accept'', ''Authorization'']"
proof -
  have mem: "example_request \<in> set (gc_sent example_call)" by (simp add: example_called(1))
  have "\<not> ex_allow_loopback_test example_executor" by (simp add: example_executor_def)
  moreover have "prefix ''/'' path" if "rest_endpoint_by_id example_catalog ''rest.accounts'' = Inr (Some endpoint)"
      "gw_text_item endpoint ''path'' = Inr path" for endpoint path
    using that by (auto simp: rest_endpoint_by_id_def example_catalog_def example_endpoint_def gw_text_item_def gw_text_def
        gw_item_def gw_list_def gw_dict_def)
  ultimately have "prefix ''https://api.upbit.com/'' (ur_url example_request)"
    using gateway_sends_safely [OF mem] by metis
  then show ?thesis using example_called(1) by (simp add: example_request_def)
qed



end
