(* ===== verification/Portfolio_Tables.thy ===== *)
theory Portfolio_Tables
  imports Upbit_Orders
begin

text \<open>
  The tables behind \<^verbatim>\<open>portfolio_bot_store.py\<close> and the rows its statements read and write. A table is
  the list of its rows in insertion order, a statement is a function of the tables, and a transaction
  that raises leaves them as they were, so every operation returns either an error or the new tables.
  Columns no statement of the module reads (display texts, creators) are left out. A
  \<^verbatim>\<open>NUMERIC(38, 18)\<close> column rounds what is written to eighteen decimals, half away from zero, and
  refuses what needs more than twenty digits before the point; a value read back carries eighteen
  decimals. Decimals are finite, times are instants in microseconds, and identifiers are natural numbers
  drawn from a sequence.
\<close>

section \<open>Errors\<close>

datatype store_error =
    Value_error string
  | Lease_lost
  | Idempotency_conflict
  | Cursor_mismatch
  | Check_violation string
  | Unique_violation string
  | Numeric_overflow
  | Decimal_signal dec_error
  | Not_serialisable

definition store_non_blank :: "string \<Rightarrow> string \<Rightarrow> store_error + string" where
  "store_non_blank v field = (if strip v = [] then Inl (Value_error field) else Inr (strip v))"

definition store_positive :: "dec \<Rightarrow> string \<Rightarrow> store_error + dec" where
  "store_positive a field = (if dec_le a dec_zero then Inl (Value_error field) else Inr a)"

definition store_non_negative :: "dec \<Rightarrow> string \<Rightarrow> store_error + dec" where
  "store_non_negative a field = (if dec_lt a dec_zero then Inl (Value_error field) else Inr a)"

definition store_text :: "py_value \<Rightarrow> string \<Rightarrow> store_error + string" where
  "store_text v field = (case v of PyStr s \<Rightarrow> store_non_blank s field | _ \<Rightarrow> Inl (Value_error field))"

definition store_hash :: "py_dict \<Rightarrow> store_error + string" where
  "store_hash payload = res_map (\<lambda>j. sha256_hex (json_dumps j)) (json_encode Not_serialisable (PyDict payload))"

section \<open>Numeric columns\<close>

definition round_half_away :: "rat \<Rightarrow> int" where
  "round_half_away x = (if x < 0 then - \<lfloor>- x + 1 / 2\<rfloor> else \<lfloor>x + 1 / 2\<rfloor>)"

definition numeric_38_18 :: "dec \<Rightarrow> store_error + dec" where
  "numeric_38_18 a =
     (let k = round_half_away (dec_val a * 10 ^ 18)
      in if 10 ^ 38 \<le> \<bar>k\<bar> then Inl Numeric_overflow else Inr (Dec (k < 0) (nat \<bar>k\<bar>) (- 18)))"

definition numeric_option :: "dec option \<Rightarrow> store_error + dec option" where
  "numeric_option v = (case v of None \<Rightarrow> Inr None | Some a \<Rightarrow> res_map Some (numeric_38_18 a))"

section \<open>Rows\<close>

datatype paper_job_status = Job_pending | Job_running | Job_retry_wait | Job_succeeded | Job_dead_letter

record paper_job =
  pj_id :: nat
  pj_intent :: nat
  pj_status :: paper_job_status
  pj_priority :: nat
  pj_attempts :: nat
  pj_max_attempts :: nat
  pj_next_retry :: int
  pj_owner :: "string option"
  pj_expires :: "int option"
  pj_generation :: nat
  pj_error :: "string option"
  pj_dead_reason :: "string option"
  pj_created :: int
  pj_updated :: int

datatype intent_status =
    Intent_created | Intent_risk_rejected | Intent_approved | Intent_paper_filled
  | Intent_shadow_observed | Intent_outcome_unknown | Intent_reconciled | Intent_cancelled
  | Intent_completed

record order_intent =
  oi_id :: nat
  oi_instance :: nat
  oi_instrument :: nat
  oi_side :: order_side
  oi_order_type :: string
  oi_quantity :: "dec option"
  oi_notional :: "dec option"
  oi_limit_price :: "dec option"
  oi_status :: intent_status
  oi_input_hash :: string
  oi_policy_version :: "nat option"
  oi_risk_reason :: "string option"
  oi_created :: int

datatype bot_stage = Stage_draft | Stage_backtest | Stage_paper | Stage_shadow | Stage_paused
  | Stage_stopped | Stage_faulted

datatype execution_mode = Mode_paper | Mode_shadow | Mode_live

record bot_instance =
  bi_id :: nat
  bi_definition :: nat
  bi_stage :: bot_stage
  bi_mode :: execution_mode

record bot_definition =
  bd_id :: nat
  bd_portfolio :: nat

record kill_switch =
  ks_id :: nat
  ks_scope :: "string \<times> string"
  ks_armed :: bool
  ks_sequence :: nat

record risk_limit =
  li_id :: nat
  li_scope :: "string \<times> string"
  li_type :: string
  li_version :: nat
  li_value :: dec
  li_active :: bool

record risk_event =
  re_intent :: nat
  re_instance :: nat
  re_scope :: "string \<times> string"
  re_type :: string
  re_severity :: string
  re_fingerprint :: string
  re_policy_version :: "nat option"
  re_evidence :: py_dict

record exchange_order =
  eo_id :: nat
  eo_intent :: nat
  eo_mode :: execution_mode
  eo_key :: string
  eo_status :: string
  eo_submitted :: "int option"
  eo_reconciled :: "int option"
  eo_payload :: py_dict

record order_fill =
  fi_id :: nat
  fi_order :: nat
  fi_sequence :: nat
  fi_source :: string
  fi_side :: order_side
  fi_quantity :: dec
  fi_price :: dec
  fi_fee :: dec
  fi_occurred :: int
  fi_knowledge :: int
  fi_evidence :: py_dict

record position_projection =
  pp_portfolio :: nat
  pp_instrument :: nat
  pp_quantity :: dec
  pp_average :: "dec option"
  pp_realized :: dec
  pp_updated :: int
  pp_source_fill :: nat

record reconciliation_run =
  rr_id :: nat
  rr_order :: nat
  rr_key :: string
  rr_status :: string
  rr_observed :: string
  rr_fill_count :: nat
  rr_hash :: string
  rr_actor :: string
  rr_reason :: string
  rr_evidence :: py_dict
  rr_completed :: int

record reconciliation_application =
  ra_id :: nat
  ra_order :: nat
  ra_run :: nat
  ra_request :: string
  ra_key :: string
  ra_hash :: string
  ra_payload :: py_dict

record portfolio_row =
  po_id :: nat
  po_owner :: string
  po_name :: string
  po_currency :: string
  po_key :: string
  po_hash :: string
  po_created :: int
  po_created_by :: string
  po_reason :: string
  po_request :: string
  po_requested :: datetime

record portfolio_db =
  db_jobs :: "paper_job list"
  db_intents :: "order_intent list"
  db_instances :: "bot_instance list"
  db_definitions :: "bot_definition list"
  db_switches :: "kill_switch list"
  db_limits :: "risk_limit list"
  db_events :: "risk_event list"
  db_orders :: "exchange_order list"
  db_fills :: "order_fill list"
  db_positions :: "position_projection list"
  db_runs :: "reconciliation_run list"
  db_applications :: "reconciliation_application list"
  db_portfolios :: "portfolio_row list"
  seq_jobs :: nat
  seq_orders :: nat
  seq_fills :: nat
  seq_runs :: nat
  seq_applications :: nat
  seq_portfolios :: nat

section \<open>Statements on a table\<close>

definition row_by :: "('a \<Rightarrow> 'k) \<Rightarrow> 'k \<Rightarrow> 'a list \<Rightarrow> 'a option" where
  "row_by key k rows = find (\<lambda>r. key r = k) rows"

definition rows_update :: "('a \<Rightarrow> bool) \<Rightarrow> ('a \<Rightarrow> 'a) \<Rightarrow> 'a list \<Rightarrow> 'a list" where
  "rows_update p f rows = map (\<lambda>r. if p r then f r else r) rows"

text \<open>\<^verbatim>\<open>ORDER BY key DESC LIMIT 1\<close>.\<close>

fun latest_by :: "('a \<Rightarrow> 'k::linorder) \<Rightarrow> 'a list \<Rightarrow> 'a option" where
  "latest_by key [] = None"
| "latest_by key (r # rows) =
     (case latest_by key rows of None \<Rightarrow> Some r | Some s \<Rightarrow> if key r < key s then Some s else Some r)"

lemma row_by_Some: "row_by key k rows = Some r \<Longrightarrow> r \<in> set rows \<and> key r = k"
  unfolding row_by_def by (induction rows) (auto split: if_splits)

lemma row_by_None: "row_by key k rows = None \<longleftrightarrow> k \<notin> key ` set rows"
  unfolding row_by_def find_None_iff by auto

lemma row_by_distinct: "distinct (map key rows) \<Longrightarrow> r \<in> set rows \<Longrightarrow> row_by key (key r) rows = Some r"
  unfolding row_by_def by (induction rows) auto

lemma row_by_append:
  "row_by key k (rows @ rows') = (case row_by key k rows of Some r \<Rightarrow> Some r | None \<Rightarrow> row_by key k rows')"
  unfolding row_by_def by (induction rows) auto

lemma row_by_update:
  assumes "\<And>r. key (f r) = key r"
  shows "row_by key k (rows_update p f rows) = map_option (\<lambda>r. if p r then f r else r) (row_by key k rows)"
  unfolding row_by_def rows_update_def by (induction rows) (auto simp: assms)

lemma row_by_upsert:
  "row_by key k (if row_by key (key row) rows = None then rows @ [row]
     else rows_update (\<lambda>r. key r = key row) (\<lambda>_. row) rows) =
   (if k = key row then Some row else row_by key k rows)"
proof -
  have "row_by key (key row) (rows_update (\<lambda>r. key r = key row) (\<lambda>_. row) rows) =
      (if row_by key (key row) rows = None then None else Some row)"
    by (induction rows) (auto simp: row_by_def rows_update_def)
  moreover have "row_by key k (rows_update (\<lambda>r. key r = key row) (\<lambda>_. row) rows) = row_by key k rows"
    if "k \<noteq> key row"
    using that by (induction rows) (auto simp: row_by_def rows_update_def)
  moreover have "row_by key k [row] = (if k = key row then Some row else None)" by (auto simp: row_by_def)
  ultimately show ?thesis by (auto simp: row_by_append split: option.splits)
qed

lemma set_rows_update: "set (rows_update p f rows) = (\<lambda>r. if p r then f r else r) ` set rows"
  by (simp add: rows_update_def)

lemma map_rows_update: "(\<And>r. g (f r) = g r) \<Longrightarrow> map g (rows_update p f rows) = map g rows"
  by (simp add: rows_update_def)

lemma rows_update_none: "\<forall>r\<in>set rows. \<not> p r \<Longrightarrow> rows_update p f rows = rows"
  by (induction rows) (auto simp: rows_update_def)

lemma latest_by_None [simp]: "latest_by key rows = None \<longleftrightarrow> rows = []"
  by (cases rows) (auto split: option.splits)

lemma latest_by_max: "latest_by key rows = Some r \<Longrightarrow> r \<in> set rows \<and> (\<forall>s\<in>set rows. key s \<le> key r)"
  by (induction rows arbitrary: r) (auto split: option.splits if_splits)

section \<open>Joins\<close>

text \<open>An order intent with its bot instance and the portfolio of the bot's definition.\<close>

definition intent_join :: "portfolio_db \<Rightarrow> order_intent \<Rightarrow> (bot_instance \<times> nat) option" where
  "intent_join db i =
     (case row_by bi_id (oi_instance i) (db_instances db) of
        None \<Rightarrow> None
      | Some b \<Rightarrow> map_option (\<lambda>d. (b, bd_portfolio d)) (row_by bd_id (bi_definition b) (db_definitions db)))"

definition intent_scope :: "portfolio_db \<Rightarrow> nat \<Rightarrow> (nat \<times> nat) option" where
  "intent_scope db k =
     (case row_by oi_id k (db_intents db) of None \<Rightarrow> None
      | Some i \<Rightarrow> map_option (\<lambda>(b, p). (p, oi_instrument i)) (intent_join db i))"

end
