(* ===== verification/Portfolio_Ledger.thy ===== *)
theory Portfolio_Ledger
  imports Portfolio_Tables
begin

text \<open>
  The fill ledger and the position projection of \<^verbatim>\<open>portfolio_bot_store.py\<close>: inserting a row of
  \<^verbatim>\<open>order_fills\<close> and \<^verbatim>\<open>_upsert_position_projection\<close>. The lemmas show that a holding is never
  negative and that, for quantities of eighteen decimals below ten billion, every holding is the sum of
  the signed fills behind it.
\<close>

section \<open>Operations\<close>

definition insert_fill ::
  "portfolio_db \<Rightarrow> nat \<Rightarrow> nat \<Rightarrow> string \<Rightarrow> order_side \<Rightarrow> dec \<Rightarrow> dec \<Rightarrow> dec \<Rightarrow> int \<Rightarrow> int \<Rightarrow> py_dict \<Rightarrow>
     store_error + nat \<times> portfolio_db" where
  "insert_fill db order_id sequence source side quantity price fee occurred knowledge evidence =
     res_bind (numeric_38_18 quantity) (\<lambda>q.
     res_bind (numeric_38_18 price) (\<lambda>p.
     res_bind (numeric_38_18 fee) (\<lambda>f.
     if \<not> (1 \<le> sequence \<and> dec_lt dec_zero q \<and> dec_lt dec_zero p \<and> dec_le dec_zero f \<and> occurred \<le> knowledge)
     then Inl (Check_violation ''order_fills'')
     else if (order_id, sequence) \<in> set (map (\<lambda>r. (fi_order r, fi_sequence r)) (db_fills db))
     then Inl (Unique_violation ''order_fills'')
     else Inr (seq_fills db,
       db\<lparr>db_fills := db_fills db @
            [\<lparr>fi_id = seq_fills db, fi_order = order_id, fi_sequence = sequence, fi_source = source,
              fi_side = side, fi_quantity = q, fi_price = p, fi_fee = f, fi_occurred = occurred,
              fi_knowledge = knowledge, fi_evidence = evidence\<rparr>],
          seq_fills := seq_fills db + 1\<rparr>))))"

definition position_after ::
  "position_projection option \<Rightarrow> order_side \<Rightarrow> dec \<Rightarrow> dec \<Rightarrow> store_error + dec \<times> dec option \<times> dec" where
  "position_after current side quantity price =
     (case current of
        None \<Rightarrow>
          if side = Sell_side then Inl (Value_error ''position'')
          else Inr (quantity, if dec_lt dec_zero quantity then Some price else None, dec_zero)
      | Some c \<Rightarrow>
          let previous = pp_quantity c;
              average = (case pp_average c of Some a \<Rightarrow> a | None \<Rightarrow> dec_zero)
          in if side = Buy_side then
               let net = dec_add PREC_DEFAULT previous quantity;
                   cost = dec_add PREC_DEFAULT (dec_mul PREC_DEFAULT previous average)
                            (dec_mul PREC_DEFAULT quantity price)
               in if dec_lt dec_zero net then
                    (case dec_div PREC_DEFAULT cost net of
                       Inl e \<Rightarrow> Inl (Decimal_signal e)
                     | Inr a \<Rightarrow> Inr (net, Some a, pp_realized c))
                  else Inr (net, None, pp_realized c)
             else if dec_lt previous quantity then Inl (Value_error ''quantity'')
             else
               let net = dec_sub PREC_DEFAULT previous quantity
               in Inr (net, if dec_lt dec_zero net then Some average else None,
                    dec_add PREC_DEFAULT (pp_realized c)
                      (dec_mul PREC_DEFAULT (dec_sub PREC_DEFAULT price average) quantity)))"

definition position_row :: "portfolio_db \<Rightarrow> nat \<Rightarrow> nat \<Rightarrow> position_projection option" where
  "position_row db portfolio instrument =
     row_by (\<lambda>r. (pp_portfolio r, pp_instrument r)) (portfolio, instrument) (db_positions db)"

definition upsert_position_projection ::
  "portfolio_db \<Rightarrow> int \<Rightarrow> nat \<Rightarrow> nat \<Rightarrow> order_side \<Rightarrow> dec \<Rightarrow> dec \<Rightarrow> nat \<Rightarrow> store_error + portfolio_db" where
  "upsert_position_projection db now portfolio instrument side quantity price source_fill =
     res_bind (position_after (position_row db portfolio instrument) side quantity price)
       (\<lambda>(net, average, realized).
     res_bind (numeric_38_18 net) (\<lambda>q.
     res_bind (numeric_option average) (\<lambda>a.
     res_bind (numeric_38_18 realized) (\<lambda>r.
     if (case a of Some x \<Rightarrow> dec_lt x dec_zero | None \<Rightarrow> False)
     then Inl (Check_violation ''position_projections'')
     else
       let row = \<lparr>pp_portfolio = portfolio, pp_instrument = instrument, pp_quantity = q, pp_average = a,
                  pp_realized = r, pp_updated = now, pp_source_fill = source_fill\<rparr>
       in Inr (db\<lparr>db_positions :=
            (if position_row db portfolio instrument = None then db_positions db @ [row]
             else rows_update (\<lambda>r. (pp_portfolio r, pp_instrument r) = (portfolio, instrument))
                    (\<lambda>_. row) (db_positions db))\<rparr>)))))"

section \<open>Numeric columns\<close>

lemma round_half_away_int [simp]: "round_half_away (of_int k) = k"
  by (simp add: round_half_away_def floor_eq_iff ceiling_def [symmetric])

lemma round_half_away_nonneg: "0 \<le> x \<Longrightarrow> 0 \<le> round_half_away x"
  by (simp add: round_half_away_def)

lemma round_half_away_error: "\<bar>of_int (round_half_away x) - x\<bar> \<le> 1 / 2"
proof (cases "x < 0")
  case True
  then have "of_int (round_half_away x) = (- of_int \<lfloor>- x + 1 / 2\<rfloor> :: rat)" by (simp add: round_half_away_def)
  then show ?thesis using floor_correct [of "- x + 1 / 2"] unfolding abs_le_iff by linarith
next
  case False
  then have "of_int (round_half_away x) = (of_int \<lfloor>x + 1 / 2\<rfloor> :: rat)" by (simp add: round_half_away_def)
  then show ?thesis using floor_correct [of "x + 1 / 2"] unfolding abs_le_iff by linarith
qed

lemma numeric_value:
  "numeric_38_18 a = Inr b \<Longrightarrow> dec_val b = of_int (round_half_away (dec_val a * 10 ^ 18)) * 10 powi (- 18)"
  by (auto simp: numeric_38_18_def Let_def dec_val_of_signed simp del: dec_val.simps split: if_splits)

lemma numeric_on_grid: "numeric_38_18 a = Inr b \<Longrightarrow> on_grid (- 18) (dec_val b)"
  unfolding on_grid_def by (blast dest: numeric_value)

lemma numeric_nonneg: "numeric_38_18 a = Inr b \<Longrightarrow> 0 \<le> dec_val a \<Longrightarrow> 0 \<le> dec_val b"
  by (simp add: numeric_value round_half_away_nonneg)

lemma numeric_pos: "numeric_38_18 a = Inr b \<Longrightarrow> 0 < dec_val b \<Longrightarrow> 0 < dec_val a"
proof (rule ccontr)
  assume n: "numeric_38_18 a = Inr b" "0 < dec_val b" and "\<not> 0 < dec_val a"
  then have "dec_val a * 10 ^ 18 < 1 / 2" by (simp add: mult_nonpos_nonneg order.strict_trans1 [of _ 0])
  then have "round_half_away (dec_val a * 10 ^ 18) \<le> 0"
    unfolding round_half_away_def by (auto simp: floor_less_iff [symmetric] le_floor_iff algebra_simps)
  then have "dec_val b \<le> 0" by (simp add: numeric_value [OF n(1)] mult_nonpos_nonneg)
  then show False using n(2) by simp
qed

lemma numeric_error: "numeric_38_18 a = Inr b \<Longrightarrow> \<bar>dec_val b - dec_val a\<bar> \<le> 10 powi (- 18) / 2"
  using round_half_away_error [of "dec_val a * 10 ^ 18"]
  by (simp add: numeric_value power_int_minus abs_le_iff field_simps)

lemma numeric_exact:
  assumes "numeric_38_18 a = Inr b" "on_grid (- 18) (dec_val a)"
  shows "dec_val b = dec_val a"
proof -
  obtain k :: int where k: "dec_val a = of_int k * 10 powi (- 18)" using assms(2) by (auto simp: on_grid_def)
  then have "dec_val a * 10 ^ 18 = of_int k" by (simp add: power_int_minus)
  then show ?thesis using numeric_value [OF assms(1)] k by simp
qed

section \<open>Holdings\<close>

definition holding :: "portfolio_db \<Rightarrow> nat \<Rightarrow> nat \<Rightarrow> rat" where
  "holding db p i = (case position_row db p i of None \<Rightarrow> 0 | Some r \<Rightarrow> dec_val (pp_quantity r))"

definition positions_ok :: "portfolio_db \<Rightarrow> bool" where
  "positions_ok db \<longleftrightarrow> (\<forall>r\<in>set (db_positions db). 0 \<le> dec_val (pp_quantity r) \<and> on_grid (- 18) (dec_val (pp_quantity r)))"

definition signed_change :: "order_side \<Rightarrow> rat \<Rightarrow> rat" where
  "signed_change side q = (if side = Buy_side then q else - q)"

lemma position_row_ok:
  "positions_ok db \<Longrightarrow> position_row db p i = Some r \<Longrightarrow> 0 \<le> dec_val (pp_quantity r) \<and> on_grid (- 18) (dec_val (pp_quantity r))"
  unfolding positions_ok_def position_row_def by (blast dest: row_by_Some)

lemma holding_ok: "positions_ok db \<Longrightarrow> 0 \<le> holding db p i \<and> on_grid (- 18) (holding db p i)"
  using position_row_ok [of db p i]
  by (auto simp: holding_def on_grid_def split: option.splits intro: exI [of _ 0])

lemma position_after_cases:
  assumes "position_after current side q price = Inr (net, average, realized)"
  shows "net = (case current of None \<Rightarrow> q
           | Some c \<Rightarrow> if side = Buy_side then dec_add PREC_DEFAULT (pp_quantity c) q
               else dec_sub PREC_DEFAULT (pp_quantity c) q)"
    and "side = Sell_side \<Longrightarrow> \<exists>c. current = Some c \<and> dec_val q \<le> dec_val (pp_quantity c)"
  using assms
  by (cases side; auto simp: position_after_def Let_def dec_lt_def split: option.splits if_splits sum.splits)+

lemma position_after_nonneg:
  assumes "position_after current side q price = Inr (net, average, realized)"
    and "0 \<le> dec_val q" "\<forall>c. current = Some c \<longrightarrow> 0 \<le> dec_val (pp_quantity c)"
  shows "0 \<le> dec_val net"
  using position_after_cases [OF assms(1)] assms(2,3)
  by (cases side) (auto intro: ctx28.add_nonneg ctx28.sub_nonneg split: option.splits)

lemma grid_add_exact:
  assumes "on_grid (- 18) (dec_val a)" "on_grid (- 18) (dec_val b)" "\<bar>dec_val a + dec_val b\<bar> < 10 ^ 10"
  shows "dec_val (dec_add PREC_DEFAULT a b) = dec_val a + dec_val b"
proof (rule ctx28.rounds_exact [OF ctx28.add_rounds grid_representable])
  show "on_grid (- 18) (dec_val a + dec_val b)" using assms on_grid_arith by blast
  show "\<bar>dec_val a + dec_val b\<bar> < 10 ^ PREC_DEFAULT * 10 powi - 18"
    using assms(3) by (simp add: PREC_DEFAULT_def power_int_minus)
qed

lemma grid_sub_exact:
  assumes "on_grid (- 18) (dec_val a)" "on_grid (- 18) (dec_val b)" "\<bar>dec_val a - dec_val b\<bar> < 10 ^ 10"
  shows "dec_val (dec_sub PREC_DEFAULT a b) = dec_val a - dec_val b"
proof (rule ctx28.rounds_exact [OF ctx28.sub_rounds grid_representable])
  show "on_grid (- 18) (dec_val a - dec_val b)"
    using on_grid_arith(1) [OF assms(1) on_grid_arith(2) [OF assms(2)]] by simp
  show "\<bar>dec_val a - dec_val b\<bar> < 10 ^ PREC_DEFAULT * 10 powi - 18"
    using assms(3) by (simp add: PREC_DEFAULT_def power_int_minus)
qed

lemma position_after_exact:
  assumes after: "position_after current side q price = Inr (net, average, realized)"
    and q: "on_grid (- 18) (dec_val q)" "0 < dec_val q"
    and ok: "\<forall>c. current = Some c \<longrightarrow> 0 \<le> dec_val (pp_quantity c) \<and> on_grid (- 18) (dec_val (pp_quantity c))"
    and bound: "(case current of None \<Rightarrow> 0 | Some c \<Rightarrow> dec_val (pp_quantity c)) + dec_val q < 10 ^ 10"
  shows "dec_val net = (case current of None \<Rightarrow> 0 | Some c \<Rightarrow> dec_val (pp_quantity c)) + signed_change side (dec_val q)"
proof (cases current)
  case None
  then have "side = Buy_side" using position_after_cases(2) [OF after] by (cases side) auto
  then show ?thesis using None position_after_cases(1) [OF after] by (simp add: signed_change_def)
next
  case (Some c)
  have c: "0 \<le> dec_val (pp_quantity c)" "on_grid (- 18) (dec_val (pp_quantity c))" using ok Some by auto
  show ?thesis
  proof (cases side)
    case Buy_side
    have "dec_val (dec_add PREC_DEFAULT (pp_quantity c) q) = dec_val (pp_quantity c) + dec_val q"
      by (rule grid_add_exact) (use c q bound Some in auto)
    then show ?thesis using position_after_cases(1) [OF after] Some Buy_side by (simp add: signed_change_def)
  next
    case Sell_side
    have "dec_val q \<le> dec_val (pp_quantity c)" using position_after_cases(2) [OF after Sell_side] Some by simp
    then have "dec_val (dec_sub PREC_DEFAULT (pp_quantity c) q) = dec_val (pp_quantity c) - dec_val q"
      by (intro grid_sub_exact) (use c q bound Some in auto)
    then show ?thesis using position_after_cases(1) [OF after] Some Sell_side by (simp add: signed_change_def)
  qed
qed

section \<open>Effect of the operations\<close>

lemma upsert_cases:
  assumes "upsert_position_projection db now p i side q price src = Inr db'"
  obtains net average realized row where
    "position_after (position_row db p i) side q price = Inr (net, average, realized)"
    "numeric_38_18 net = Inr (pp_quantity row)" "(pp_portfolio row, pp_instrument row) = (p, i)"
    "db' = db\<lparr>db_positions :=
       (if position_row db p i = None then db_positions db @ [row]
        else rows_update (\<lambda>r. (pp_portfolio r, pp_instrument r) = (p, i)) (\<lambda>_. row) (db_positions db))\<rparr>"
proof -
  obtain net average realized where after: "position_after (position_row db p i) side q price = Inr (net, average, realized)"
    using assms by (auto simp: upsert_position_projection_def res_simps)
  show thesis
    using assms unfolding upsert_position_projection_def after
    by (auto simp: res_simps Let_def split: if_splits intro!: that [OF after])
qed

lemma upsert_row:
  assumes "upsert_position_projection db now p i side q price src = Inr db'"
  obtains net average realized row where
    "position_after (position_row db p i) side q price = Inr (net, average, realized)"
    "numeric_38_18 net = Inr (pp_quantity row)"
    "\<And>p' i'. position_row db' p' i' = (if (p', i') = (p, i) then Some row else position_row db p' i')"
    "set (db_positions db') \<subseteq> insert row (set (db_positions db))"
    "db' = db\<lparr>db_positions := db_positions db'\<rparr>"
proof (rule upsert_cases [OF assms])
  fix net average realized row
  assume a: "position_after (position_row db p i) side q price = Inr (net, average, realized)"
    "numeric_38_18 net = Inr (pp_quantity row)"
    and key: "(pp_portfolio row, pp_instrument row) = (p, i)"
    and db': "db' = db\<lparr>db_positions := (if position_row db p i = None then db_positions db @ [row]
        else rows_update (\<lambda>r. (pp_portfolio r, pp_instrument r) = (p, i)) (\<lambda>_. row) (db_positions db))\<rparr>"
  let ?k = "\<lambda>r. (pp_portfolio r, pp_instrument r)"
  have pos: "db_positions db' = (if position_row db p i = None then db_positions db @ [row]
      else rows_update (\<lambda>r. ?k r = (p, i)) (\<lambda>_. row) (db_positions db))"
    by (simp add: db')
  have rows: "position_row db' p' i' = (if (p', i') = (p, i) then Some row else position_row db p' i')" for p' i'
    using row_by_upsert [of ?k "(p', i')" row "db_positions db"] unfolding position_row_def pos key .
  have "set (db_positions db') \<subseteq> insert row (set (db_positions db))"
    by (auto simp: db' set_rows_update)
  then show thesis using that [OF a rows] by (simp add: db')
qed

lemma upsert_positions_ok:
  assumes up: "upsert_position_projection db now p i side q price src = Inr db'"
    and ok: "positions_ok db" "0 \<le> dec_val q"
  shows "positions_ok db'"
proof (rule upsert_row [OF up])
  fix net average realized row
  assume a: "position_after (position_row db p i) side q price = Inr (net, average, realized)"
    "numeric_38_18 net = Inr (pp_quantity row)"
    and sub: "set (db_positions db') \<subseteq> insert row (set (db_positions db))"
  have "0 \<le> dec_val net" by (rule position_after_nonneg [OF a(1) ok(2)]) (use position_row_ok [OF ok(1)] in blast)
  then have "0 \<le> dec_val (pp_quantity row)" "on_grid (- 18) (dec_val (pp_quantity row))"
    using numeric_nonneg [OF a(2)] numeric_on_grid [OF a(2)] by auto
  then show ?thesis using ok(1) sub unfolding positions_ok_def by blast
qed

lemma upsert_holding:
  assumes up: "upsert_position_projection db now p i side q price src = Inr db'"
    and ok: "positions_ok db" "on_grid (- 18) (dec_val q)" "0 < dec_val q" "holding db p i + dec_val q < 10 ^ 10"
  shows "holding db' p' i' = holding db p' i' + (if (p', i') = (p, i) then signed_change side (dec_val q) else 0)"
proof (rule upsert_row [OF up])
  fix net average realized row
  assume a: "position_after (position_row db p i) side q price = Inr (net, average, realized)"
    "numeric_38_18 net = Inr (pp_quantity row)"
    and rows: "\<And>p' i'. position_row db' p' i' = (if (p', i') = (p, i) then Some row else position_row db p' i')"
  have net: "dec_val net = holding db p i + signed_change side (dec_val q)"
    unfolding holding_def
    by (rule position_after_exact [OF a(1) ok(2,3)])
       (use position_row_ok [OF ok(1)] ok(4) in \<open>auto simp: holding_def\<close>)
  have "on_grid (- 18) (dec_val net)"
    unfolding net signed_change_def using holding_ok [OF ok(1)] ok(2) by (auto intro: on_grid_arith simp del: add_uminus_conv_diff)
  then have "dec_val (pp_quantity row) = dec_val net" by (rule numeric_exact [OF a(2)])
  then show ?thesis using net by (auto simp: holding_def rows)
qed

section \<open>The ledger balances\<close>

definition order_scope :: "portfolio_db \<Rightarrow> nat \<Rightarrow> (nat \<times> nat) option" where
  "order_scope db k =
     (case row_by eo_id k (db_orders db) of None \<Rightarrow> None | Some r \<Rightarrow> intent_scope db (eo_intent r))"

definition signed_fill :: "order_fill \<Rightarrow> rat" where
  "signed_fill f = signed_change (fi_side f) (dec_val (fi_quantity f))"

definition ledger_total :: "portfolio_db \<Rightarrow> nat \<Rightarrow> nat \<Rightarrow> rat" where
  "ledger_total db p i =
     sum_list (map signed_fill (filter (\<lambda>f. order_scope db (fi_order f) = Some (p, i)) (db_fills db)))"

definition ledger_balanced :: "portfolio_db \<Rightarrow> bool" where
  "ledger_balanced db \<longleftrightarrow> (\<forall>p i. holding db p i = ledger_total db p i)"

lemma insert_fill_cases:
  assumes "insert_fill db k sequence source side q price fee occurred knowledge evidence = Inr (fid, db')"
  obtains f where "fi_order f = k" "fi_sequence f = sequence" "fi_side f = side" "fi_id f = fid"
    "fi_source f = source" "numeric_38_18 q = Inr (fi_quantity f)" "numeric_38_18 price = Inr (fi_price f)"
    "numeric_38_18 fee = Inr (fi_fee f)" "0 < dec_val (fi_quantity f)" "0 < dec_val (fi_price f)"
    "0 \<le> dec_val (fi_fee f)"
    "(k, sequence) \<notin> (\<lambda>r. (fi_order r, fi_sequence r)) ` set (db_fills db)" "fid = seq_fills db"
    "db' = db\<lparr>db_fills := db_fills db @ [f], seq_fills := seq_fills db + 1\<rparr>"
proof -
  obtain a b c where n: "numeric_38_18 q = Inr a" "numeric_38_18 price = Inr b" "numeric_38_18 fee = Inr c"
    using assms by (auto simp: insert_fill_def res_simps)
  show thesis
    by (rule that [of "\<lparr>fi_id = seq_fills db, fi_order = k, fi_sequence = sequence, fi_source = source,
              fi_side = side, fi_quantity = a, fi_price = b, fi_fee = c, fi_occurred = occurred,
              fi_knowledge = knowledge, fi_evidence = evidence\<rparr>"])
       (use assms n in \<open>auto simp: insert_fill_def dec_lt_def dec_le_def split: if_splits\<close>)
qed

lemma order_scope_frame:
  "order_scope (db\<lparr>db_fills := fs\<rparr>) = order_scope db" "order_scope (db\<lparr>db_positions := ps\<rparr>) = order_scope db"
  "order_scope (db\<lparr>seq_fills := n\<rparr>) = order_scope db"
  by (simp_all add: order_scope_def intent_scope_def intent_join_def fun_eq_iff cong: option.case_cong)

lemma post_fill_balanced:
  assumes ins: "insert_fill db k sequence source side q price fee occurred knowledge evidence = Inr (fid, db1)"
    and up: "upsert_position_projection db1 now p i side q price fid = Inr db2"
    and bal: "ledger_balanced db" "positions_ok db" "order_scope db k = Some (p, i)"
    and q: "on_grid (- 18) (dec_val q)" "0 < dec_val q" "holding db p i + dec_val q < 10 ^ 10"
  shows "ledger_balanced db2"
proof (rule insert_fill_cases [OF ins], rule upsert_row [OF up])
  fix f net average realized row
  assume f: "fi_order f = k" "fi_side f = side" "numeric_38_18 q = Inr (fi_quantity f)"
    and db1: "db1 = db\<lparr>db_fills := db_fills db @ [f], seq_fills := seq_fills db + 1\<rparr>"
    and db2: "db2 = db1\<lparr>db_positions := db_positions db2\<rparr>"
  have "dec_val (fi_quantity f) = dec_val q" using numeric_exact [OF f(3) q(1)] .
  then have sf: "signed_fill f = signed_change side (dec_val q)" by (simp add: signed_fill_def f)
  have same: "holding db1 = holding db" "positions_ok db1"
    using bal(2) by (simp_all add: db1 holding_def positions_ok_def position_row_def fun_eq_iff)
  have fills: "db_fills db2 = db_fills db @ [f]" by (subst db2) (simp add: db1)
  have scope: "order_scope db2 = order_scope db" by (subst db2) (simp add: db1 order_scope_frame)
  show ?thesis
    unfolding ledger_balanced_def
  proof (intro allI)
    fix p' i'
    have "holding db2 p' i' = holding db p' i' + (if (p', i') = (p, i) then signed_change side (dec_val q) else 0)"
      using upsert_holding [OF up same(2) q(1,2)] q(3) by (simp add: same)
    moreover have "ledger_total db2 p' i' = ledger_total db p' i' + (if (p', i') = (p, i) then signed_fill f else 0)"
      by (auto simp: ledger_total_def fills scope f(1) bal(3))
    ultimately show "holding db2 p' i' = ledger_total db2 p' i'"
      using bal(1) by (simp add: sf ledger_balanced_def)
  qed
qed

end
