(* ===== verification/Paper_Execution.thy ===== *)
theory Paper_Execution
  imports Portfolio_Ledger
begin

text \<open>
  Risk evaluation of order intents and the paper execution queue of \<^verbatim>\<open>portfolio_bot_store.py\<close>. An
  operation is one transaction on the tables: the table and advisory locks the code takes make its
  statements atomic. \<open>locked\<close> says which rows another transaction holds, so that \<^verbatim>\<open>SKIP LOCKED\<close> passes
  them over; \<open>now\<close> is the clock reading of the guards and \<open>upd\<close> the later one of the writes. Display
  messages are left out of decisions and events.
\<close>

section \<open>Kill switches and limits\<close>

definition risk_scopes :: "nat \<Rightarrow> nat \<Rightarrow> nat \<Rightarrow> bool \<Rightarrow> (string \<times> string) list" where
  "risk_scopes portfolio bot_instance instrument include_instrument =
     [(''global'', ''global''), (''portfolio'', nat_str portfolio), (''bot'', nat_str bot_instance)] @
     (if include_instrument then [(''instrument'', nat_str instrument)] else [])"

definition latest_switch :: "portfolio_db \<Rightarrow> string \<times> string \<Rightarrow> kill_switch option" where
  "latest_switch db scope = latest_by ks_sequence (filter (\<lambda>s. ks_scope s = scope) (db_switches db))"

definition active_kill_switch :: "portfolio_db \<Rightarrow> (string \<times> string) list \<Rightarrow> kill_switch option" where
  "active_kill_switch db scopes = find ks_armed (List.map_filter (latest_switch db) scopes)"

definition active_risk_limits :: "portfolio_db \<Rightarrow> (string \<times> string) list \<Rightarrow> risk_limit list" where
  "active_risk_limits db scopes =
     dedup_first (\<lambda>l. (li_scope l, li_type l))
       (sort_key (\<lambda>l. (li_scope l, li_type l, - int (li_version l), - int (li_id l)))
         (filter (\<lambda>l. li_active l \<and> li_scope l \<in> set scopes) (db_limits db)))"

definition order_notional :: "order_intent \<Rightarrow> store_error + dec option" where
  "order_notional intent =
     (case (oi_quantity intent, oi_limit_price intent) of
        (Some q, Some p) \<Rightarrow>
          res_bind (store_positive q ''requestedQuantity'') (\<lambda>q.
          res_bind (store_positive p ''limitPrice'') (\<lambda>p.
          let computed = dec_mul PREC_DEFAULT q p in
          (case oi_notional intent of
             None \<Rightarrow> Inr (Some computed)
           | Some n \<Rightarrow>
               res_map (\<lambda>n. if dec_eq n computed then Some computed else None)
                 (store_positive n ''requestedNotional''))))
      | _ \<Rightarrow>
          (case oi_notional intent of
             None \<Rightarrow> Inr None
           | Some n \<Rightarrow> res_map Some (store_positive n ''requestedNotional'')))"

section \<open>The decision\<close>

record risk_decision =
  rd_status :: intent_status
  rd_event_type :: string
  rd_severity :: string
  rd_scope :: "string \<times> string"
  rd_policy_version :: nat
  rd_reason :: string
  rd_notional :: "dec option"
  rd_evidence :: py_dict

definition limit_rejected_decision :: "risk_limit \<Rightarrow> nat \<Rightarrow> dec option \<Rightarrow> risk_decision" where
  "limit_rejected_decision l version notional =
     \<lparr>rd_status = Intent_risk_rejected, rd_event_type = ''limit_rejected'', rd_severity = ''warning'',
      rd_scope = li_scope l, rd_policy_version = version,
      rd_reason = ''risk limit rejected: '' @ li_type l, rd_notional = notional,
      rd_evidence = [(''limitId'', PyInt (int (li_id l))), (''limitType'', PyStr (li_type l)),
        (''limitValue'', PyStr (dec_str (li_value l)))]\<rparr>"

fun check_limits :: "nat \<Rightarrow> dec option \<Rightarrow> risk_limit list \<Rightarrow> risk_decision option" where
  "check_limits version notional [] = None"
| "check_limits version notional (l # ls) =
     (if li_type l \<noteq> ''max_order_notional'' then Some (limit_rejected_decision l version notional)
      else case notional of
        None \<Rightarrow> Some (limit_rejected_decision l version notional)
      | Some n \<Rightarrow> if dec_lt (li_value l) n then Some (limit_rejected_decision l version notional)
                  else check_limits version notional ls)"

definition mode_str :: "execution_mode \<Rightarrow> string" where
  "mode_str m = (case m of Mode_paper \<Rightarrow> ''paper'' | Mode_shadow \<Rightarrow> ''shadow'' | Mode_live \<Rightarrow> ''live'')"

definition risk_decision_of ::
  "portfolio_db \<Rightarrow> order_intent \<Rightarrow> execution_mode \<Rightarrow> (string \<times> string) list \<Rightarrow> store_error + risk_decision" where
  "risk_decision_of db intent mode scopes =
     (let limits = active_risk_limits db scopes;
          version = (if limits = [] then 1 else Max (li_version ` set limits))
      in res_map (\<lambda>notional.
           case active_kill_switch db (take 3 scopes) of
             Some s \<Rightarrow>
               \<lparr>rd_status = Intent_risk_rejected, rd_event_type = ''kill_switch_rejected'',
                rd_severity = ''critical'', rd_scope = ks_scope s, rd_policy_version = version,
                rd_reason = ''kill switch armed: '' @ fst (ks_scope s) @ '':'' @ snd (ks_scope s),
                rd_notional = notional,
                rd_evidence = [(''killSwitchId'', PyInt (int (ks_id s))),
                  (''sequence'', PyInt (int (ks_sequence s)))]\<rparr>
           | None \<Rightarrow>
               (case check_limits version notional limits of
                  Some d \<Rightarrow> d
                | None \<Rightarrow>
                    \<lparr>rd_status = Intent_approved, rd_event_type = ''policy_approved'', rd_severity = ''info'',
                     rd_scope = (''bot'', nat_str (oi_instance intent)), rd_policy_version = version,
                     rd_reason = ''risk approved for '' @ mode_str mode, rd_notional = notional,
                     rd_evidence = [(''limitCount'', PyInt (int (length limits))),
                       (''executionMode'', PyStr (mode_str mode))]\<rparr>))
         (order_notional intent))"

section \<open>Evaluating the next order intent\<close>

definition EPOCH :: int where "EPOCH = dt_combine 1970 1 1 0 0 0 0"

definition new_paper_job :: "nat \<Rightarrow> nat \<Rightarrow> int \<Rightarrow> paper_job" where
  "new_paper_job k intent now =
     \<lparr>pj_id = k, pj_intent = intent, pj_status = Job_pending, pj_priority = 100, pj_attempts = 0,
      pj_max_attempts = 3, pj_next_retry = EPOCH, pj_owner = None, pj_expires = None, pj_generation = 0,
      pj_error = None, pj_dead_reason = None, pj_created = now, pj_updated = now\<rparr>"

definition intent_evaluable :: "portfolio_db \<Rightarrow> order_intent \<Rightarrow> bool" where
  "intent_evaluable db i \<longleftrightarrow>
     oi_status i = Intent_created \<and>
     (case intent_join db i of None \<Rightarrow> False
      | Some (b, p) \<Rightarrow> bi_stage b \<in> {Stage_paper, Stage_shadow} \<and> bi_mode b \<in> {Mode_paper, Mode_shadow})"

definition evaluation_evidence :: "string \<Rightarrow> order_intent \<Rightarrow> risk_decision \<Rightarrow> py_dict" where
  "evaluation_evidence worker i d =
     [(''workerId'', PyStr worker), (''decisionInputHash'', PyStr (oi_input_hash i)),
      (''orderNotional'', case rd_notional d of None \<Rightarrow> PyNone | Some n \<Rightarrow> PyStr (dec_str n)),
      (''riskEvidence'', PyDict (rd_evidence d))]"

definition insert_risk_event :: "portfolio_db \<Rightarrow> risk_event \<Rightarrow> store_error + portfolio_db" where
  "insert_risk_event db e =
     (if (re_scope e, re_fingerprint e) \<in> set (map (\<lambda>r. (re_scope r, re_fingerprint r)) (db_events db))
      then Inl (Unique_violation ''risk_events'')
      else Inr (db\<lparr>db_events := db_events db @ [e]\<rparr>))"

text \<open>\<^verbatim>\<open>ON CONFLICT (order_intent_id) DO NOTHING\<close>.\<close>

definition enqueue_paper_job :: "portfolio_db \<Rightarrow> nat \<Rightarrow> int \<Rightarrow> portfolio_db" where
  "enqueue_paper_job db intent now =
     (if intent \<in> set (map pj_intent (db_jobs db)) then db
      else db\<lparr>db_jobs := db_jobs db @ [new_paper_job (seq_jobs db) intent now],
              seq_jobs := seq_jobs db + 1\<rparr>)"

definition evaluate_next_order_intent_risk ::
  "portfolio_db \<Rightarrow> string \<Rightarrow> (nat \<Rightarrow> bool) \<Rightarrow> int \<Rightarrow> store_error + (nat \<times> risk_decision) option \<times> portfolio_db" where
  "evaluate_next_order_intent_risk db worker_id locked upd =
     res_bind (store_non_blank worker_id ''workerId'') (\<lambda>worker.
     case sort_key (\<lambda>i. (oi_created i, oi_id i))
            (filter (\<lambda>i. intent_evaluable db i \<and> \<not> locked (oi_id i)) (db_intents db)) of
       [] \<Rightarrow> Inr (None, db)
     | i # _ \<Rightarrow>
         (case intent_join db i of
            None \<Rightarrow> Inr (None, db)
          | Some (b, portfolio) \<Rightarrow>
              res_bind (risk_decision_of db i (bi_mode b)
                  (risk_scopes portfolio (bi_id b) (oi_instrument i) True)) (\<lambda>d.
              let db1 = db\<lparr>db_intents := rows_update (\<lambda>r. oi_id r = oi_id i)
                    (\<lambda>r. r\<lparr>oi_status := rd_status d, oi_policy_version := Some (rd_policy_version d),
                           oi_risk_reason := Some (rd_reason d)\<rparr>) (db_intents db)\<rparr>
              in res_map (\<lambda>db2.
                   (Some (oi_id i, d),
                    if rd_status d = Intent_approved \<and> bi_mode b = Mode_paper
                    then enqueue_paper_job db2 (oi_id i) upd else db2))
                 (insert_risk_event db1
                    \<lparr>re_intent = oi_id i, re_instance = bi_id b, re_scope = rd_scope d,
                     re_type = rd_event_type d, re_severity = rd_severity d,
                     re_fingerprint = ''risk-evaluation-v1:'' @ nat_str (oi_id i),
                     re_policy_version = Some (rd_policy_version d),
                     re_evidence = evaluation_evidence worker i d\<rparr>))))"

section \<open>The paper execution queue\<close>

definition job_due :: "int \<Rightarrow> paper_job \<Rightarrow> bool" where
  "job_due now j \<longleftrightarrow>
     pj_status j = Job_pending \<or>
     (pj_status j = Job_retry_wait \<and> pj_next_retry j \<le> now) \<or>
     (pj_status j = Job_running \<and> (case pj_expires j of None \<Rightarrow> False | Some t \<Rightarrow> t \<le> now))"

definition switch_armed :: "portfolio_db \<Rightarrow> string \<times> string \<Rightarrow> bool" where
  "switch_armed db scope = (case latest_switch db scope of None \<Rightarrow> False | Some s \<Rightarrow> ks_armed s)"

definition job_claimable :: "portfolio_db \<Rightarrow> int \<Rightarrow> paper_job \<Rightarrow> bool" where
  "job_claimable db now j \<longleftrightarrow>
     job_due now j \<and>
     (case row_by oi_id (pj_intent j) (db_intents db) of None \<Rightarrow> False
      | Some i \<Rightarrow> oi_status i = Intent_approved \<and>
          (case intent_join db i of None \<Rightarrow> False
           | Some (b, p) \<Rightarrow> bi_stage b = Stage_paper \<and> bi_mode b = Mode_paper \<and>
               \<not> list_ex (switch_armed db)
                   [(''global'', ''global''), (''portfolio'', nat_str p), (''bot'', nat_str (bi_id b))]))"

definition claim_order :: "paper_job \<Rightarrow> int \<times> int \<times> nat" where
  "claim_order j = (- int (pj_priority j), pj_created j, pj_id j)"

definition claim_candidate :: "portfolio_db \<Rightarrow> int \<Rightarrow> (nat \<Rightarrow> bool) \<Rightarrow> paper_job option" where
  "claim_candidate db now locked =
     (case sort_key claim_order (filter (\<lambda>j. job_claimable db now j \<and> \<not> locked (pj_id j)) (db_jobs db)) of
        [] \<Rightarrow> None | j # _ \<Rightarrow> Some j)"

definition lease_job :: "string \<Rightarrow> nat \<Rightarrow> int \<Rightarrow> paper_job \<Rightarrow> paper_job" where
  "lease_job worker lease_seconds upd j =
     j\<lparr>pj_status := Job_running, pj_owner := Some worker,
       pj_expires := Some (upd + int lease_seconds * second_us), pj_generation := pj_generation j + 1,
       pj_attempts := pj_attempts j + 1, pj_updated := upd, pj_error := None\<rparr>"

record job_summary =
  js_job :: nat
  js_intent :: nat
  js_status :: paper_job_status
  js_owner :: "string option"
  js_generation :: nat
  js_attempts :: nat

definition paper_execution_job_summary :: "paper_job \<Rightarrow> job_summary" where
  "paper_execution_job_summary j =
     \<lparr>js_job = pj_id j, js_intent = pj_intent j, js_status = pj_status j, js_owner = pj_owner j,
      js_generation = pj_generation j, js_attempts = pj_attempts j\<rparr>"

record claim_response = job_summary +
  cr_instrument :: nat
  cr_portfolio :: nat
  cr_side :: order_side
  cr_order_type :: string
  cr_quantity :: "dec option"
  cr_notional :: "dec option"
  cr_limit_price :: "dec option"

definition paper_execution_job_response :: "portfolio_db \<Rightarrow> nat \<Rightarrow> claim_response option" where
  "paper_execution_job_response db job =
     (case row_by pj_id job (db_jobs db) of None \<Rightarrow> None
      | Some j \<Rightarrow>
          (case row_by oi_id (pj_intent j) (db_intents db) of None \<Rightarrow> None
           | Some i \<Rightarrow>
               map_option (\<lambda>(b, p).
                 job_summary.extend (paper_execution_job_summary j)
                   (claim_response.fields (oi_instrument i) p (oi_side i) (oi_order_type i) (oi_quantity i)
                      (oi_notional i) (oi_limit_price i)))
                 (intent_join db i)))"

text \<open>The \<^verbatim>\<open>UPDATE\<close> repeats the lease generation of the candidate and refuses a job whose attempts are
  used up; when it matches no row, the claim returns nothing.\<close>

definition claim_next_paper_execution_job ::
  "portfolio_db \<Rightarrow> string \<Rightarrow> nat \<Rightarrow> int \<Rightarrow> int \<Rightarrow> (nat \<Rightarrow> bool) \<Rightarrow>
     store_error + claim_response option \<times> portfolio_db" where
  "claim_next_paper_execution_job db worker_id lease_seconds now upd locked =
     res_bind (store_non_blank worker_id ''workerId'') (\<lambda>worker.
     case claim_candidate db now locked of
       None \<Rightarrow> Inr (None, db)
     | Some c \<Rightarrow>
         let hit = (\<lambda>j. pj_id j = pj_id c \<and> pj_generation j = pj_generation c \<and>
                        pj_attempts j < pj_max_attempts j)
         in if \<not> list_ex hit (db_jobs db) then Inr (None, db)
            else
              let db' = db\<lparr>db_jobs := rows_update hit (lease_job worker lease_seconds upd) (db_jobs db)\<rparr>
              in Inr (paper_execution_job_response db' (pj_id c), db'))"

section \<open>Completing and failing a claimed job\<close>

definition locked_claimed_paper_job ::
  "portfolio_db \<Rightarrow> int \<Rightarrow> nat \<Rightarrow> string \<Rightarrow> nat \<Rightarrow> store_error + paper_job" where
  "locked_claimed_paper_job db now job worker generation =
     (case find (\<lambda>j. pj_id j = job \<and> pj_status j = Job_running \<and> pj_owner j = Some worker \<and>
                     pj_generation j = generation \<and>
                     (case pj_expires j of None \<Rightarrow> False | Some t \<Rightarrow> now < t)) (db_jobs db) of
        None \<Rightarrow> Inl Lease_lost | Some j \<Rightarrow> Inr j)"

definition paper_intent_row :: "portfolio_db \<Rightarrow> nat \<Rightarrow> store_error + order_intent \<times> bot_instance \<times> nat" where
  "paper_intent_row db k =
     (case row_by oi_id k (db_intents db) of None \<Rightarrow> Inl Lease_lost
      | Some i \<Rightarrow>
          (case intent_join db i of None \<Rightarrow> Inl Lease_lost
           | Some (b, p) \<Rightarrow>
               if oi_status i = Intent_approved \<and> bi_stage b = Stage_paper \<and> bi_mode b = Mode_paper
               then Inr (i, b, p) else Inl Lease_lost))"

definition paper_fill_quantity :: "order_intent \<Rightarrow> dec \<Rightarrow> dec option \<Rightarrow> store_error + dec" where
  "paper_fill_quantity intent price filled =
     (case filled of Some q \<Rightarrow> store_positive q ''filledQuantity''
      | None \<Rightarrow>
          (case oi_quantity intent of Some q \<Rightarrow> store_positive q ''requestedQuantity''
           | None \<Rightarrow>
               (case oi_notional intent of None \<Rightarrow> Inl (Value_error ''requestedNotional'')
                | Some n \<Rightarrow>
                    res_bind (store_positive n ''requestedNotional'') (\<lambda>n.
                    case dec_div PREC_DEFAULT n price of
                      Inl e \<Rightarrow> Inl (Decimal_signal e) | Inr q \<Rightarrow> Inr q))))"

definition RETRY_DELAY :: int where "RETRY_DELAY = 30 * second_us"

definition update_job :: "nat \<Rightarrow> (paper_job \<Rightarrow> paper_job) \<Rightarrow> portfolio_db \<Rightarrow> portfolio_db" where
  "update_job k f db = db\<lparr>db_jobs := rows_update (\<lambda>j. pj_id j = k) f (db_jobs db)\<rparr>"

definition defer_job :: "int \<Rightarrow> paper_job \<Rightarrow> paper_job" where
  "defer_job upd j =
     j\<lparr>pj_status := Job_retry_wait, pj_owner := None, pj_expires := None,
       pj_next_retry := upd + RETRY_DELAY, pj_attempts := pj_attempts j - 1,
       pj_error := Some ''KILL_SWITCH_ARMED'', pj_updated := upd\<rparr>"

definition succeed_job :: "int \<Rightarrow> paper_job \<Rightarrow> paper_job" where
  "succeed_job upd j =
     j\<lparr>pj_status := Job_succeeded, pj_owner := None, pj_expires := None, pj_updated := upd\<rparr>"

definition paper_order_row :: "nat \<Rightarrow> nat \<Rightarrow> nat \<Rightarrow> nat \<Rightarrow> int \<Rightarrow> exchange_order" where
  "paper_order_row k intent job generation occurred =
     \<lparr>eo_id = k, eo_intent = intent, eo_mode = Mode_paper,
      eo_key = ''paper-'' @ nat_str job @ ''-'' @ nat_str generation, eo_status = ''done'',
      eo_submitted = Some occurred, eo_reconciled = None,
      eo_payload = [(''source'', PyStr ''paper_execution_worker''),
        (''paperExecutionJobId'', PyInt (int job)), (''leaseGeneration'', PyInt (int generation))]\<rparr>"

definition insert_paper_order :: "portfolio_db \<Rightarrow> nat \<Rightarrow> nat \<Rightarrow> nat \<Rightarrow> int \<Rightarrow> store_error + nat \<times> portfolio_db" where
  "insert_paper_order db intent job generation occurred =
     (let row = paper_order_row (seq_orders db) intent job generation occurred in
      if (eo_intent row, eo_key row) \<in> set (map (\<lambda>r. (eo_intent r, eo_key r)) (db_orders db))
      then Inl (Unique_violation ''exchange_orders'')
      else Inr (seq_orders db, db\<lparr>db_orders := db_orders db @ [row], seq_orders := seq_orders db + 1\<rparr>))"

definition set_intent_status :: "nat \<Rightarrow> intent_status \<Rightarrow> portfolio_db \<Rightarrow> portfolio_db" where
  "set_intent_status k s db =
     db\<lparr>db_intents := rows_update (\<lambda>r. oi_id r = k) (\<lambda>r. r\<lparr>oi_status := s\<rparr>) (db_intents db)\<rparr>"

definition complete_claimed_paper_execution_job ::
  "portfolio_db \<Rightarrow> int \<Rightarrow> int \<Rightarrow> nat \<Rightarrow> string \<Rightarrow> nat \<Rightarrow> dec \<Rightarrow> dec option \<Rightarrow> int \<Rightarrow> int \<Rightarrow> py_dict \<Rightarrow>
     store_error + job_summary \<times> portfolio_db" where
  "complete_claimed_paper_execution_job db now upd job worker_id generation price filled occurred knowledge
       evidence =
     (if knowledge < occurred then Inl (Value_error ''knowledgeAt'')
      else
        res_bind (store_non_blank worker_id ''workerId'') (\<lambda>worker.
        res_bind (locked_claimed_paper_job db now job worker generation) (\<lambda>claim.
        res_bind (paper_intent_row db (pj_intent claim)) (\<lambda>(intent, b, portfolio).
        if active_kill_switch db (risk_scopes portfolio (bi_id b) (oi_instrument intent) False) \<noteq> None
        then Inr (paper_execution_job_summary (defer_job upd claim), update_job (pj_id claim) (defer_job upd) db)
        else
          res_bind (paper_fill_quantity intent price filled) (\<lambda>quantity.
          res_bind (insert_paper_order db (oi_id intent) (pj_id claim) (pj_generation claim) occurred)
            (\<lambda>(order_id, db1).
          res_bind (insert_fill db1 order_id 1 ''paper_simulator'' (oi_side intent) quantity price dec_zero
              occurred knowledge evidence) (\<lambda>(fill_id, db2).
          res_map (\<lambda>db3.
              (paper_execution_job_summary (succeed_job upd claim),
               update_job (pj_id claim) (succeed_job upd)
                 (set_intent_status (oi_id intent) Intent_paper_filled db3)))
            (upsert_position_projection db2 upd portfolio (oi_instrument intent) (oi_side intent) quantity
               price fill_id))))))))"

definition fail_job :: "paper_job_status \<Rightarrow> string \<Rightarrow> string \<Rightarrow> int \<Rightarrow> paper_job \<Rightarrow> paper_job" where
  "fail_job next_status error_code message upd j =
     j\<lparr>pj_status := next_status, pj_owner := None, pj_expires := None,
       pj_next_retry := (if next_status = Job_retry_wait then upd + RETRY_DELAY else pj_next_retry j),
       pj_error := Some error_code,
       pj_dead_reason := (if next_status = Job_dead_letter then Some message else pj_dead_reason j),
       pj_updated := upd\<rparr>"

definition fail_claimed_paper_execution_job ::
  "portfolio_db \<Rightarrow> int \<Rightarrow> int \<Rightarrow> nat \<Rightarrow> string \<Rightarrow> nat \<Rightarrow> string \<Rightarrow> string \<Rightarrow> store_error + job_summary \<times> portfolio_db" where
  "fail_claimed_paper_execution_job db now upd job worker_id generation error_code message =
     res_bind (store_non_blank worker_id ''workerId'') (\<lambda>worker.
     res_bind (locked_claimed_paper_job db now job worker generation) (\<lambda>claim.
     let next_status = (if pj_max_attempts claim \<le> pj_attempts claim then Job_dead_letter else Job_retry_wait) in
     res_bind (store_non_blank error_code ''errorCode'') (\<lambda>code.
     res_map (\<lambda>text.
         (paper_execution_job_summary (fail_job next_status code text upd claim),
          update_job (pj_id claim) (fail_job next_status code text upd) db))
       (store_non_blank message ''message''))))"

section \<open>Kill switches\<close>

lemma active_kill_switch_iff:
  "active_kill_switch db scopes \<noteq> None \<longleftrightarrow> list_ex (switch_armed db) scopes"
  by (induction scopes)
     (auto simp: active_kill_switch_def switch_armed_def List.map_filter_simps split: option.splits)

lemma active_kill_switch_None: "active_kill_switch db scopes = None \<longleftrightarrow> \<not> list_ex (switch_armed db) scopes"
  using active_kill_switch_iff by blast

lemma take3_scopes: "take 3 (risk_scopes p b i True) = risk_scopes p b i False"
  by (simp add: risk_scopes_def)

lemma armed_latest:
  "switch_armed db scope \<longleftrightarrow>
     (\<exists>s. latest_switch db scope = Some s \<and> ks_armed s \<and> s \<in> set (db_switches db) \<and> ks_scope s = scope \<and>
        (\<forall>t\<in>set (db_switches db). ks_scope t = scope \<longrightarrow> ks_sequence t \<le> ks_sequence s))"
proof (cases "latest_switch db scope")
  case (Some s)
  then show ?thesis
    using latest_by_max [of ks_sequence "filter (\<lambda>s. ks_scope s = scope) (db_switches db)" s]
    by (auto simp: switch_armed_def latest_switch_def)
qed (simp add: switch_armed_def)

section \<open>Approval\<close>

lemma check_limits_None:
  "check_limits v n ls = None \<Longrightarrow> l \<in> set ls \<Longrightarrow>
     li_type l = ''max_order_notional'' \<and> (\<exists>x. n = Some x \<and> dec_val x \<le> dec_val (li_value l))"
  by (induction ls) (auto simp: dec_lt_def split: if_splits option.splits)

lemma check_limits_status: "check_limits v n ls = Some d \<Longrightarrow> rd_status d = Intent_risk_rejected"
  by (induction ls) (auto simp: limit_rejected_decision_def split: if_splits option.splits)

lemma decision_status: "risk_decision_of db i m scopes = Inr d \<Longrightarrow> rd_status d \<in> {Intent_approved, Intent_risk_rejected}"
  by (auto simp: risk_decision_of_def Let_def res_simps check_limits_status split: option.splits)

text \<open>For every limit of a scope that is active there is an active limit of the same scope and type with a
  version at least as high among those that are checked.\<close>

lemma dedup_first_sorted:
  "sorted (map h xs) \<Longrightarrow> x \<in> set xs \<Longrightarrow> \<exists>y\<in>set (dedup_first f xs). f y = f x \<and> h y \<le> h x"
proof (induction f xs rule: dedup_first.induct)
  case (2 f y ys)
  show ?case
  proof (cases "f x = f y")
    case True
    then show ?thesis using "2.prems" by auto
  next
    case False
    have "x \<in> set (filter (\<lambda>z. f z \<noteq> f y) ys)" using "2.prems" False by auto
    moreover have "sorted (map h (filter (\<lambda>z. f z \<noteq> f y) ys))" using "2.prems" by (simp add: sorted_filter)
    ultimately show ?thesis using "2.IH" by auto
  qed
qed simp

lemma active_limits_latest:
  assumes "l \<in> set (db_limits db)" "li_active l" "li_scope l \<in> set scopes"
  shows "\<exists>m\<in>set (active_risk_limits db scopes).
    li_scope m = li_scope l \<and> li_type m = li_type l \<and> li_version l \<le> li_version m"
proof -
  let ?h = "\<lambda>l. (li_scope l, li_type l, - int (li_version l), - int (li_id l))"
  have "\<exists>m\<in>set (active_risk_limits db scopes). (li_scope m, li_type m) = (li_scope l, li_type l) \<and> ?h m \<le> ?h l"
    unfolding active_risk_limits_def by (rule dedup_first_sorted) (use assms in auto)
  then show ?thesis by (force simp: less_eq_prod_def)
qed

lemma approved_limits:
  assumes "risk_decision_of db i m scopes = Inr d" "rd_status d = Intent_approved"
  shows "active_kill_switch db (take 3 scopes) = None"
    and "l \<in> set (active_risk_limits db scopes) \<Longrightarrow>
      li_type l = ''max_order_notional'' \<and> (\<exists>n. order_notional i = Inr (Some n) \<and> dec_val n \<le> dec_val (li_value l))"
proof -
  obtain n where n: "order_notional i = Inr n" using assms(1) by (auto simp: risk_decision_of_def Let_def res_simps)
  show "active_kill_switch db (take 3 scopes) = None"
    using assms n by (auto simp: risk_decision_of_def Let_def split: option.splits)
  then obtain v where "check_limits v n (active_risk_limits db scopes) = None"
    using assms n
    by (cases "check_limits (if active_risk_limits db scopes = [] then 1
          else Max (li_version ` set (active_risk_limits db scopes))) n (active_risk_limits db scopes)")
       (auto simp: risk_decision_of_def Let_def check_limits_status simp del: check_limits.simps)
  then show "l \<in> set (active_risk_limits db scopes) \<Longrightarrow>
      li_type l = ''max_order_notional'' \<and> (\<exists>n. order_notional i = Inr (Some n) \<and> dec_val n \<le> dec_val (li_value l))"
    using check_limits_None n by blast
qed

section \<open>Effects of the operations\<close>


section \<open>Candidates\<close>

lemma sort_key_head:
  "sort_key h xs = y # ys \<Longrightarrow> y \<in> set xs \<and> (\<forall>x\<in>set xs. h y \<le> h x)"
proof -
  assume eq: "sort_key h xs = y # ys"
  have "sorted (map h (y # ys))" using sorted_sort_key [of h xs] eq by simp
  moreover have "set xs = set (y # ys)" using set_sort [of h xs] eq by simp
  ultimately show ?thesis by auto
qed

lemma claim_candidate_Some:
  assumes "claim_candidate db now locked = Some c"
  shows "c \<in> set (db_jobs db)" "job_claimable db now c" "\<not> locked (pj_id c)"
    "\<And>j. j \<in> set (db_jobs db) \<Longrightarrow> job_claimable db now j \<Longrightarrow> \<not> locked (pj_id j) \<Longrightarrow> claim_order c \<le> claim_order j"
  using sort_key_head [of claim_order "filter (\<lambda>j. job_claimable db now j \<and> \<not> locked (pj_id j)) (db_jobs db)" c] assms
  by (auto simp: claim_candidate_def split: list.splits)

lemma claim_order_inj: "claim_order i = claim_order j \<Longrightarrow> pj_id i = pj_id j"
  by (simp add: claim_order_def)

lemma claim_candidate_least:
  assumes "c \<in> set (db_jobs db)" "distinct (map pj_id (db_jobs db))" "job_claimable db now c" "\<not> locked (pj_id c)"
    and "\<And>j. j \<in> set (db_jobs db) \<Longrightarrow> job_claimable db now j \<Longrightarrow> \<not> locked (pj_id j) \<Longrightarrow> claim_order c \<le> claim_order j"
  shows "claim_candidate db now locked = Some c"
proof (cases "claim_candidate db now locked")
  case None
  then have "filter (\<lambda>j. job_claimable db now j \<and> \<not> locked (pj_id j)) (db_jobs db) = []"
    by (auto simp: claim_candidate_def split: list.splits)
  then show ?thesis using assms by (auto simp: filter_empty_conv)
next
  case (Some d)
  note d = claim_candidate_Some [OF Some]
  have "claim_order c = claim_order d" using assms(5) [OF d(1,2,3)] d(4) [OF assms(1,3,4)] by (rule order.antisym)
  then have "pj_id c = pj_id d" by (rule claim_order_inj)
  then have "c = d" using assms(1,2) d(1) by (metis row_by_distinct option.inject)
  then show ?thesis using Some by simp
qed

section \<open>Effects of the operations\<close>

lemma claim_cases [consumes 1, case_names idle leased]:
  assumes "claim_next_paper_execution_job db worker_id secs now upd locked = Inr (r, db')"
  obtains "db' = db" "r = None"
  | c worker where "claim_candidate db now locked = Some c" "store_non_blank worker_id ''workerId'' = Inr worker"
      "\<exists>j\<in>set (db_jobs db). pj_id j = pj_id c \<and> pj_generation j = pj_generation c \<and> pj_attempts j < pj_max_attempts j"
      "db' = db\<lparr>db_jobs := rows_update (\<lambda>j. pj_id j = pj_id c \<and> pj_generation j = pj_generation c \<and>
         pj_attempts j < pj_max_attempts j) (lease_job worker secs upd) (db_jobs db)\<rparr>"
      "r = paper_execution_job_response db' (pj_id c)"
proof -
  obtain worker where w: "store_non_blank worker_id ''workerId'' = Inr worker"
    using assms by (auto simp: claim_next_paper_execution_job_def res_simps)
  show thesis
  proof (cases "claim_candidate db now locked")
    case None
    then show thesis using assms w that(1) by (simp add: claim_next_paper_execution_job_def)
  next
    case (Some c)
    let ?hit = "\<lambda>j. pj_id j = pj_id c \<and> pj_generation j = pj_generation c \<and> pj_attempts j < pj_max_attempts j"
    show thesis
    proof (cases "list_ex ?hit (db_jobs db)")
      case False
      then show thesis using assms w Some by (intro that(1)) (simp_all add: claim_next_paper_execution_job_def)
    next
      case True
      then have "\<exists>j\<in>set (db_jobs db). ?hit j" by (simp add: list_ex_iff)
      then show thesis using assms True
        by (intro that(2) [OF Some w]) (auto simp: claim_next_paper_execution_job_def w Some Let_def)
    qed
  qed
qed

lemma locked_claimed_paper_job_Inr:
  "locked_claimed_paper_job db now k worker g = Inr j \<Longrightarrow>
     j \<in> set (db_jobs db) \<and> pj_id j = k \<and> pj_status j = Job_running \<and> pj_owner j = Some worker \<and> pj_generation j = g \<and>
     (\<exists>t. pj_expires j = Some t \<and> now < t)"
  unfolding locked_claimed_paper_job_def
  using find_Some_iff [of "\<lambda>j. pj_id j = k \<and> pj_status j = Job_running \<and> pj_owner j = Some worker \<and>
      pj_generation j = g \<and> (case pj_expires j of None \<Rightarrow> False | Some t \<Rightarrow> now < t)" "db_jobs db" j]
  by (auto split: option.splits)

lemma paper_intent_row_Inr:
  "paper_intent_row db k = Inr (i, b, p) \<Longrightarrow>
     row_by oi_id k (db_intents db) = Some i \<and> i \<in> set (db_intents db) \<and> oi_id i = k \<and> intent_join db i = Some (b, p) \<and>
     oi_status i = Intent_approved \<and> bi_stage b = Stage_paper \<and> bi_mode b = Mode_paper"
  by (auto simp: paper_intent_row_def dest: row_by_Some split: option.splits if_splits)

lemma complete_cases [consumes 1, case_names deferred filled]:
  assumes "complete_claimed_paper_execution_job db now upd k worker_id g price filled occurred knowledge evidence = Inr (s, db')"
  obtains c worker i b p where "locked_claimed_paper_job db now k worker g = Inr c"
      "paper_intent_row db (pj_intent c) = Inr (i, b, p)"
      "active_kill_switch db (risk_scopes p (bi_id b) (oi_instrument i) False) \<noteq> None"
      "db' = update_job k (defer_job upd) db" "s = paper_execution_job_summary (defer_job upd c)"
  | c worker i b p q db1 db2 db3 where "locked_claimed_paper_job db now k worker g = Inr c"
      "paper_intent_row db (pj_intent c) = Inr (i, b, p)"
      "active_kill_switch db (risk_scopes p (bi_id b) (oi_instrument i) False) = None"
      "paper_fill_quantity i price filled = Inr q"
      "insert_paper_order db (oi_id i) k g occurred = Inr (seq_orders db, db1)"
      "insert_fill db1 (seq_orders db) 1 ''paper_simulator'' (oi_side i) q price dec_zero occurred knowledge evidence =
         Inr (seq_fills db1, db2)"
      "upsert_position_projection db2 upd p (oi_instrument i) (oi_side i) q price (seq_fills db1) = Inr db3"
      "db' = update_job k (succeed_job upd) (set_intent_status (oi_id i) Intent_paper_filled db3)"
      "s = paper_execution_job_summary (succeed_job upd c)"
proof -
  obtain worker c i b p where c: "locked_claimed_paper_job db now k worker g = Inr c"
    and i: "paper_intent_row db (pj_intent c) = Inr (i, b, p)" and w: "store_non_blank worker_id ''workerId'' = Inr worker"
    using assms by (auto simp: complete_claimed_paper_execution_job_def res_simps split: if_splits)
  have kg: "pj_id c = k" "pj_generation c = g" using locked_claimed_paper_job_Inr [OF c] by simp_all
  note d = assms [unfolded complete_claimed_paper_execution_job_def]
  show thesis
  proof (cases "active_kill_switch db (risk_scopes p (bi_id b) (oi_instrument i) False) = None")
    case False
    then show thesis using d by (intro that(1) [OF c i]) (auto simp: w c i kg split: if_splits)
  next
    case True
    then obtain q oid db1 fid db2 db3 where q: "paper_fill_quantity i price filled = Inr q"
      "insert_paper_order db (oi_id i) k g occurred = Inr (oid, db1)"
      "insert_fill db1 oid 1 ''paper_simulator'' (oi_side i) q price dec_zero occurred knowledge evidence = Inr (fid, db2)"
      "upsert_position_projection db2 upd p (oi_instrument i) (oi_side i) q price fid = Inr db3"
      "db' = update_job k (succeed_job upd) (set_intent_status (oi_id i) Intent_paper_filled db3)"
      "s = paper_execution_job_summary (succeed_job upd c)"
      using d by (auto simp: w c i kg res_simps split: if_splits)
    have "oid = seq_orders db" using q(2) by (auto simp: insert_paper_order_def Let_def split: if_splits)
    moreover have "fid = seq_fills db1" by (rule insert_fill_cases [OF q(3)])
    ultimately show thesis using that(2) [OF c i True] q by simp
  qed
qed

text \<open>The tables after a paper fill.\<close>

lemma complete_filled_tables:
  assumes "insert_paper_order db i k g occurred = Inr (seq_orders db, db1)"
    and ins: "insert_fill db1 (seq_orders db) 1 ''paper_simulator'' side q price fee occurred knowledge evidence = Inr (fid, db2)"
    and up: "upsert_position_projection db2 upd p n side q price fid = Inr db3"
  obtains r f ps where "eo_id r = seq_orders db" "eo_intent r = i" "eo_mode r = Mode_paper"
    "fi_order f = seq_orders db" "fi_source f = ''paper_simulator''" "fi_side f = side" "numeric_38_18 q = Inr (fi_quantity f)"
    "db3 = db\<lparr>db_orders := db_orders db @ [r], seq_orders := seq_orders db + 1, db_fills := db_fills db @ [f],
       seq_fills := seq_fills db + 1, db_positions := ps\<rparr>"
proof (rule insert_fill_cases [OF ins], rule upsert_row [OF up])
  fix f
  assume f: "fi_order f = seq_orders db" "fi_source f = ''paper_simulator''" "fi_side f = side" "numeric_38_18 q = Inr (fi_quantity f)"
    and db2: "db2 = db1\<lparr>db_fills := db_fills db1 @ [f], seq_fills := seq_fills db1 + 1\<rparr>"
    and db3: "db3 = db2\<lparr>db_positions := db_positions db3\<rparr>"
  let ?r = "paper_order_row (seq_orders db) i k g occurred"
  have r: "eo_id ?r = seq_orders db" "eo_intent ?r = i" "eo_mode ?r = Mode_paper" by (simp_all add: paper_order_row_def)
  have db1: "db1 = db\<lparr>db_orders := db_orders db @ [?r], seq_orders := seq_orders db + 1\<rparr>"
    using assms(1) by (auto simp: insert_paper_order_def Let_def split: if_splits)
  have "db3 = db\<lparr>db_orders := db_orders db @ [?r], seq_orders := seq_orders db + 1, db_fills := db_fills db @ [f],
       seq_fills := seq_fills db + 1, db_positions := db_positions db3\<rparr>"
    by (subst db3) (simp add: db2 db1)
  then show thesis using that r f by blast
qed

lemma fail_cases:
  assumes "fail_claimed_paper_execution_job db now upd k worker_id g code message = Inr (s, db')"
  obtains c worker st e m where "locked_claimed_paper_job db now k worker g = Inr c"
    "st = (if pj_max_attempts c \<le> pj_attempts c then Job_dead_letter else Job_retry_wait)"
    "db' = update_job k (fail_job st e m upd) db" "s = paper_execution_job_summary (fail_job st e m upd c)"
proof -
  obtain worker c e m where w: "store_non_blank worker_id ''workerId'' = Inr worker"
    and c: "locked_claimed_paper_job db now k worker g = Inr c"
    and e: "store_non_blank code ''errorCode'' = Inr e" "store_non_blank message ''message'' = Inr m"
    using assms by (auto simp: fail_claimed_paper_execution_job_def res_simps Let_def)
  have "pj_id c = k" using locked_claimed_paper_job_Inr [OF c] by simp
  then show thesis
    using assms by (intro that [OF c refl]) (auto simp: fail_claimed_paper_execution_job_def w c e Let_def)
qed

lemma evaluate_cases [consumes 1, case_names idle decided]:
  assumes "evaluate_next_order_intent_risk db worker_id locked upd = Inr (r, db')"
  obtains "r = None" "db' = db"
  | i b p d es where "i \<in> set (db_intents db)" "intent_evaluable db i" "intent_join db i = Some (b, p)"
      "risk_decision_of db i (bi_mode b) (risk_scopes p (bi_id b) (oi_instrument i) True) = Inr d" "r = Some (oi_id i, d)"
      "db' = (let db2 = db\<lparr>db_intents := rows_update (\<lambda>r. oi_id r = oi_id i)
             (\<lambda>r. r\<lparr>oi_status := rd_status d, oi_policy_version := Some (rd_policy_version d),
                     oi_risk_reason := Some (rd_reason d)\<rparr>) (db_intents db), db_events := es\<rparr>
         in if rd_status d = Intent_approved \<and> bi_mode b = Mode_paper then enqueue_paper_job db2 (oi_id i) upd else db2)"
proof -
  let ?c = "sort_key (\<lambda>i. (oi_created i, oi_id i)) (filter (\<lambda>i. intent_evaluable db i \<and> \<not> locked (oi_id i)) (db_intents db))"
  show thesis
  proof (cases ?c)
    case Nil
    then show thesis using assms that(1) by (auto simp: evaluate_next_order_intent_risk_def res_simps)
  next
    case (Cons i rest)
    have i: "i \<in> set (db_intents db)" "intent_evaluable db i" using sort_key_head [OF Cons] by auto
    then obtain b p where join: "intent_join db i = Some (b, p)" by (auto simp: intent_evaluable_def split: option.splits)
    obtain d where d: "risk_decision_of db i (bi_mode b) (risk_scopes p (bi_id b) (oi_instrument i) True) = Inr d"
      using assms by (auto simp: evaluate_next_order_intent_risk_def Cons join res_simps)
    show thesis
      using assms that(2) [OF i join d]
      by (fastforce simp: evaluate_next_order_intent_risk_def Cons join d Let_def res_simps insert_risk_event_def split: if_splits)
  qed
qed

end
