(* ===== verification/Order_Reconciliation.thy ===== *)
theory Order_Reconciliation
  imports Paper_Execution
begin

text \<open>
  Reconciliation of exchange orders and the live reconciliation applications of
  \<^verbatim>\<open>portfolio_bot_store.py\<close>. Observed fills are those the Upbit modules build (\<open>recon_fill\<close>), whose
  quantities may be infinite; a numeric column refuses an infinite value. The validation trigger of the
  table \<^verbatim>\<open>upbit_live_reconciliation_applications\<close> is SQL and enters as the parameter \<open>admissible\<close>; the
  deferred constraint that a successful run of a live order has an application is checked at commit.
\<close>

section \<open>Arguments\<close>

definition OBSERVED_STATUSES :: "string list" where
  "OBSERVED_STATUSES = [''done'', ''cancel'', ''prevented'', ''rejected'', ''outcome_unknown'', ''missing'']"

definition observed_reconciliation_status :: "py_value \<Rightarrow> store_error + string" where
  "observed_reconciliation_status v =
     res_bind (store_text v ''observedStatus'') (\<lambda>s.
     if s \<in> set OBSERVED_STATUSES then Inr s else Inl (Value_error ''observedStatus''))"

definition reconciliation_fill_payload :: "recon_fill \<Rightarrow> store_error + recon_fill" where
  "reconciliation_fill_payload f =
     (if rf_fill_sequence f < 1 then Inl (Value_error ''fillSequence'')
      else if rf_knowledge_at f < rf_occurred_at f then Inl (Value_error ''knowledgeAt'')
      else if \<not> x_lt x_zero (rf_filled_quantity f) then Inl (Value_error ''filledQuantity'')
      else if \<not> x_lt x_zero (rf_fill_price f) then Inl (Value_error ''fillPrice'')
      else if x_lt (rf_fee_paid f) x_zero then Inl (Value_error ''feePaid'')
      else Inr f)"

definition fill_hash_payload :: "recon_fill \<Rightarrow> py_value" where
  "fill_hash_payload f =
     PyDict [(''fillSequence'', PyInt (rf_fill_sequence f)), (''side'', PyStr (side_str (rf_side f))),
       (''filledQuantity'', PyStr (x_str (rf_filled_quantity f))),
       (''fillPrice'', PyStr (x_str (rf_fill_price f))), (''feePaid'', PyStr (x_str (rf_fee_paid f))),
       (''occurredAt'', PyStr (isoformat (utc (rf_occurred_at f)))),
       (''knowledgeAt'', PyStr (isoformat (utc (rf_knowledge_at f)))),
       (''evidence'', PyDict (rf_evidence f))]"

section \<open>Comparing observed fills with the ledger\<close>

definition x_eq :: "xdec \<Rightarrow> dec \<Rightarrow> bool" where
  "x_eq x a = (case x of Fin b \<Rightarrow> dec_eq a b | Inf _ \<Rightarrow> False)"

definition same_fill :: "order_fill \<Rightarrow> recon_fill \<Rightarrow> bool" where
  "same_fill e f \<longleftrightarrow>
     fi_side e = rf_side f \<and> x_eq (rf_filled_quantity f) (fi_quantity e) \<and>
     x_eq (rf_fill_price f) (fi_price e) \<and> x_eq (rf_fee_paid f) (fi_fee e)"

fun find_mismatch :: "order_fill list \<Rightarrow> int list \<Rightarrow> recon_fill list \<Rightarrow> py_dict option" where
  "find_mismatch existing seen [] = None"
| "find_mismatch existing seen (f # fs) =
     (let n = rf_fill_sequence f in
      if n \<in> set seen then
        Some [(''fillSequence'', PyInt n), (''reason'', PyStr ''duplicate observed fill'')]
      else case find (\<lambda>e. int (fi_sequence e) = n) existing of
        Some e \<Rightarrow>
          if \<not> same_fill e f then
            Some [(''fillSequence'', PyInt n), (''existingFillId'', PyInt (int (fi_id e)))]
          else find_mismatch existing (n # seen) fs
      | None \<Rightarrow>
          if list_ex (\<lambda>e. n < int (fi_sequence e)) existing then
            Some [(''fillSequence'', PyInt n),
              (''reason'', PyStr ''late fill before existing higher sequence'')]
          else find_mismatch existing (n # seen) fs)"

section \<open>Rows of a run\<close>

definition insert_reconciliation_run ::
  "portfolio_db \<Rightarrow> int \<Rightarrow> nat \<Rightarrow> string \<Rightarrow> string \<Rightarrow> string \<Rightarrow> nat \<Rightarrow> string \<Rightarrow> string \<Rightarrow> string \<Rightarrow> py_dict \<Rightarrow>
     reconciliation_run \<times> portfolio_db" where
  "insert_reconciliation_run db now order_id key status observed n request_hash actor reason evidence =
     (let run = \<lparr>rr_id = seq_runs db, rr_order = order_id, rr_key = key, rr_status = status,
                 rr_observed = observed, rr_fill_count = n, rr_hash = request_hash, rr_actor = actor,
                 rr_reason = reason, rr_evidence = evidence, rr_completed = now\<rparr>
      in (run, db\<lparr>db_runs := db_runs db @ [run], seq_runs := seq_runs db + 1\<rparr>))"

text \<open>\<^verbatim>\<open>ON CONFLICT DO NOTHING\<close>.\<close>

definition insert_reconciliation_risk_event ::
  "portfolio_db \<Rightarrow> nat \<Rightarrow> nat \<Rightarrow> nat \<Rightarrow> reconciliation_run \<Rightarrow> string \<Rightarrow> string \<Rightarrow> portfolio_db" where
  "insert_reconciliation_risk_event db order_id intent instance_id run event_type severity =
     (case insert_risk_event db
        \<lparr>re_intent = intent, re_instance = instance_id, re_scope = (''bot'', nat_str instance_id),
         re_type = event_type, re_severity = severity,
         re_fingerprint = ''reconciliation-v1:'' @ nat_str order_id @ '':'' @ rr_key run @ '':'' @ event_type,
         re_policy_version = None,
         re_evidence = [(''reconciliationRunId'', PyInt (int (rr_id run))),
           (''exchangeOrderId'', PyInt (int order_id)), (''runKey'', PyStr (rr_key run)),
           (''observedStatus'', PyStr (rr_observed run))]\<rparr> of
        Inl _ \<Rightarrow> db | Inr db' \<Rightarrow> db')"

definition reconciliation_run_summary :: "reconciliation_run \<Rightarrow> py_dict" where
  "reconciliation_run_summary r =
     [(''reconciliationRunId'', PyInt (int (rr_id r))), (''exchangeOrderId'', PyInt (int (rr_order r))),
      (''runKey'', PyStr (rr_key r)), (''status'', PyStr (rr_status r)),
      (''observedStatus'', PyStr (rr_observed r)), (''observedFillCount'', PyInt (int (rr_fill_count r))),
      (''completedAt'', PyDatetime (utc (rr_completed r)))]"

definition update_order :: "nat \<Rightarrow> string \<Rightarrow> int \<Rightarrow> portfolio_db \<Rightarrow> portfolio_db" where
  "update_order k status now db =
     db\<lparr>db_orders := rows_update (\<lambda>r. eo_id r = k)
          (\<lambda>r. r\<lparr>eo_status := status, eo_reconciled := Some now\<rparr>) (db_orders db)\<rparr>"

section \<open>The reconciliation transaction\<close>

definition order_for_reconciliation ::
  "portfolio_db \<Rightarrow> nat \<Rightarrow> store_error + exchange_order \<times> order_intent \<times> bot_instance \<times> nat" where
  "order_for_reconciliation db k =
     (case row_by eo_id k (db_orders db) of None \<Rightarrow> Inl Lease_lost
      | Some r \<Rightarrow>
          (case row_by oi_id (eo_intent r) (db_intents db) of None \<Rightarrow> Inl Lease_lost
           | Some i \<Rightarrow>
               (case intent_join db i of None \<Rightarrow> Inl Lease_lost
                | Some (b, p) \<Rightarrow> Inr (r, i, b, p))))"

definition x_fin :: "xdec \<Rightarrow> store_error + dec" where
  "x_fin x = (case x of Fin a \<Rightarrow> Inr a | Inf _ \<Rightarrow> Inl Numeric_overflow)"

definition post_observed_fill ::
  "nat \<Rightarrow> int \<Rightarrow> nat \<Rightarrow> nat \<Rightarrow> portfolio_db \<Rightarrow> recon_fill \<Rightarrow> store_error + portfolio_db" where
  "post_observed_fill order_id now portfolio instrument db f =
     res_bind (x_fin (rf_filled_quantity f)) (\<lambda>q.
     res_bind (x_fin (rf_fill_price f)) (\<lambda>p.
     res_bind (x_fin (rf_fee_paid f)) (\<lambda>fee.
     res_bind (insert_fill db order_id (nat (rf_fill_sequence f)) ''reconciliation'' (rf_side f) q p fee
         (rf_occurred_at f) (rf_knowledge_at f) (rf_evidence f)) (\<lambda>(fill_id, db1).
     upsert_position_projection db1 now portfolio instrument (rf_side f) q p fill_id))))"

definition order_fills :: "portfolio_db \<Rightarrow> nat \<Rightarrow> order_fill list" where
  "order_fills db k = filter (\<lambda>e. fi_order e = k) (db_fills db)"

definition unposted :: "order_fill list \<Rightarrow> recon_fill list \<Rightarrow> recon_fill list" where
  "unposted existing fs = filter (\<lambda>f. rf_fill_sequence f \<notin> set (map (\<lambda>e. int (fi_sequence e)) existing)) fs"

definition reconcile_exchange_order_in_connection ::
  "portfolio_db \<Rightarrow> int \<Rightarrow> nat \<Rightarrow> string \<Rightarrow> string \<Rightarrow> string \<Rightarrow> string \<Rightarrow> recon_fill list \<Rightarrow> py_dict \<Rightarrow> string \<Rightarrow>
     store_error + reconciliation_run \<times> portfolio_db" where
  "reconcile_exchange_order_in_connection db now order_id key actor reason observed fills evidence request_hash =
     (case find (\<lambda>r. rr_order r = order_id \<and> rr_key r = key) (db_runs db) of
        Some r \<Rightarrow> if rr_hash r \<noteq> request_hash then Inl Idempotency_conflict else Inr (r, db)
      | None \<Rightarrow>
          res_bind (order_for_reconciliation db order_id) (\<lambda>(r, intent, b, portfolio).
          if observed \<in> {''outcome_unknown'', ''missing''} \<and> fills = [] then
            (let (run, db1) = insert_reconciliation_run db now order_id key ''outcome_unknown'' observed 0
                   request_hash actor reason evidence
             in Inr (run, insert_reconciliation_risk_event
                  (set_intent_status (oi_id intent) Intent_outcome_unknown
                    (update_order order_id ''outcome_unknown'' now db1))
                  order_id (oi_id intent) (bi_id b) run ''outcome_unknown'' ''warning''))
          else
            (case find_mismatch (order_fills db order_id) [] fills of
               Some mismatch \<Rightarrow>
                 (let (run, db1) = insert_reconciliation_run db now order_id key ''mismatch'' observed
                        (length fills) request_hash actor reason
                        (dict_set evidence ''mismatch'' (PyDict mismatch))
                  in Inr (run, insert_reconciliation_risk_event db1 order_id (oi_id intent) (bi_id b) run
                       ''reconciliation_mismatch'' ''critical''))
             | None \<Rightarrow>
                 (let new = unposted (order_fills db order_id) fills in
                  res_map (\<lambda>db1.
                      insert_reconciliation_run
                        (set_intent_status (oi_id intent) Intent_reconciled
                          (update_order order_id ''reconciled'' now db1))
                        now order_id key ''succeeded'' observed (length fills) request_hash actor reason
                        (dict_set evidence ''insertedFillCount'' (PyInt (int (length new)))))
                    (res_foldM (post_observed_fill order_id now portfolio (oi_instrument intent)) db new)))))"

text \<open>The deferred constraint trigger on \<^verbatim>\<open>reconciliation_runs\<close>.\<close>

definition commit_ok :: "portfolio_db \<Rightarrow> reconciliation_run \<Rightarrow> bool" where
  "commit_ok db run \<longleftrightarrow>
     rr_status run \<noteq> ''succeeded'' \<or>
     (case row_by eo_id (rr_order run) (db_orders db) of None \<Rightarrow> True | Some r \<Rightarrow> eo_mode r \<noteq> Mode_live) \<or>
     list_ex (\<lambda>a. ra_run a = rr_id run \<and> ra_order a = rr_order run) (db_applications db)"

definition reconciliation_hash_payload :: "nat \<Rightarrow> string \<Rightarrow> string \<Rightarrow> recon_fill list \<Rightarrow> py_dict \<Rightarrow> py_dict" where
  "reconciliation_hash_payload order_id key observed fills evidence =
     [(''exchangeOrderId'', PyInt (int order_id)), (''runKey'', PyStr key), (''observedStatus'', PyStr observed),
      (''fills'', PyList (map fill_hash_payload fills)), (''evidence'', PyDict evidence)]"

text \<open>The validated arguments of a run: key, actor, reason, observed status, the fills in sequence order
  and the request hash.\<close>

definition reconciliation_arguments ::
  "nat \<Rightarrow> py_value \<Rightarrow> py_value \<Rightarrow> py_value \<Rightarrow> py_value \<Rightarrow> recon_fill list \<Rightarrow> py_dict \<Rightarrow>
     store_error + string \<times> string \<times> string \<times> string \<times> recon_fill list \<times> string" where
  "reconciliation_arguments order_id run_key actor_id reason observed_status fills evidence =
     res_bind (store_text run_key ''runKey'') (\<lambda>key.
     res_bind (store_text actor_id ''actorId'') (\<lambda>actor.
     res_bind (store_text reason ''reason'') (\<lambda>run_reason.
     res_bind (observed_reconciliation_status observed_status) (\<lambda>observed.
     res_bind (res_mapM reconciliation_fill_payload fills) (\<lambda>payloads.
     let ordered = sort_key rf_fill_sequence payloads in
     res_map (\<lambda>request_hash. (key, actor, run_reason, observed, ordered, request_hash))
       (store_hash (reconciliation_hash_payload order_id key observed ordered evidence)))))))"

definition reconcile_exchange_order ::
  "portfolio_db \<Rightarrow> int \<Rightarrow> nat \<Rightarrow> py_value \<Rightarrow> py_value \<Rightarrow> py_value \<Rightarrow> py_value \<Rightarrow> recon_fill list \<Rightarrow> py_dict \<Rightarrow>
     store_error + py_dict \<times> portfolio_db" where
  "reconcile_exchange_order db now order_id run_key actor_id reason observed_status fills evidence =
     res_bind (reconciliation_arguments order_id run_key actor_id reason observed_status fills evidence)
       (\<lambda>(key, actor, run_reason, observed, ordered, request_hash).
     res_bind (reconcile_exchange_order_in_connection db now order_id key actor run_reason observed ordered
         evidence request_hash) (\<lambda>(run, db').
     if db_runs db' = db_runs db \<or> commit_ok db' run then Inr (reconciliation_run_summary run, db')
     else Inl (Check_violation ''reconciliation_runs'')))"

section \<open>Posting observed fills\<close>

definition stored_as :: "xdec \<Rightarrow> dec \<Rightarrow> bool" where
  "stored_as x a \<longleftrightarrow> (\<exists>b. x = Fin b \<and> numeric_38_18 b = Inr a)"

definition posted_as :: "nat \<Rightarrow> recon_fill \<Rightarrow> order_fill \<Rightarrow> bool" where
  "posted_as k f e \<longleftrightarrow>
     fi_order e = k \<and> fi_sequence e = nat (rf_fill_sequence f) \<and> fi_side e = rf_side f \<and>
     fi_source e = ''reconciliation'' \<and> stored_as (rf_filled_quantity f) (fi_quantity e) \<and>
     stored_as (rf_fill_price f) (fi_price e) \<and> stored_as (rf_fee_paid f) (fi_fee e)"

lemma post_observed_fill_cases:
  assumes "post_observed_fill k now p i db f = Inr db'"
  obtains q price fee db1 where "rf_filled_quantity f = Fin q" "rf_fill_price f = Fin price" "rf_fee_paid f = Fin fee"
    "insert_fill db k (nat (rf_fill_sequence f)) ''reconciliation'' (rf_side f) q price fee (rf_occurred_at f)
       (rf_knowledge_at f) (rf_evidence f) = Inr (seq_fills db, db1)"
    "upsert_position_projection db1 now p i (rf_side f) q price (seq_fills db) = Inr db'"
proof -
  from assms obtain q price fee fid db1 where c: "x_fin (rf_filled_quantity f) = Inr q" "x_fin (rf_fill_price f) = Inr price"
      "x_fin (rf_fee_paid f) = Inr fee"
      "insert_fill db k (nat (rf_fill_sequence f)) ''reconciliation'' (rf_side f) q price fee (rf_occurred_at f)
       (rf_knowledge_at f) (rf_evidence f) = Inr (fid, db1)"
      "upsert_position_projection db1 now p i (rf_side f) q price fid = Inr db'"
    unfolding post_observed_fill_def by (auto simp: res_simps)
  moreover have "fid = seq_fills db" by (rule insert_fill_cases [OF c(4)])
  ultimately show thesis by (intro that) (auto simp: x_fin_def split: xdec.splits)
qed

lemma post_observed_fill_frame:
  assumes "post_observed_fill k now p i db f = Inr db'"
  obtains e ps where "posted_as k f e" "0 < dec_val (fi_quantity e)"
    "(k, fi_sequence e) \<notin> (\<lambda>r. (fi_order r, fi_sequence r)) ` set (db_fills db)"
    "db' = db\<lparr>db_fills := db_fills db @ [e], db_positions := ps, seq_fills := seq_fills db + 1\<rparr>"
proof (rule post_observed_fill_cases [OF assms])
  fix q price fee db1
  assume x: "rf_filled_quantity f = Fin q" "rf_fill_price f = Fin price" "rf_fee_paid f = Fin fee"
    and ins: "insert_fill db k (nat (rf_fill_sequence f)) ''reconciliation'' (rf_side f) q price fee (rf_occurred_at f)
       (rf_knowledge_at f) (rf_evidence f) = Inr (seq_fills db, db1)"
    and up: "upsert_position_projection db1 now p i (rf_side f) q price (seq_fills db) = Inr db'"
  show thesis
  proof (rule insert_fill_cases [OF ins], rule upsert_row [OF up])
    fix e
    assume e: "fi_order e = k" "fi_sequence e = nat (rf_fill_sequence f)" "fi_side e = rf_side f"
        "fi_source e = ''reconciliation''" "numeric_38_18 q = Inr (fi_quantity e)"
        "numeric_38_18 price = Inr (fi_price e)" "numeric_38_18 fee = Inr (fi_fee e)" "0 < dec_val (fi_quantity e)"
        "(k, nat (rf_fill_sequence f)) \<notin> (\<lambda>r. (fi_order r, fi_sequence r)) ` set (db_fills db)"
      and db1: "db1 = db\<lparr>db_fills := db_fills db @ [e], seq_fills := seq_fills db + 1\<rparr>"
      and db': "db' = db1\<lparr>db_positions := db_positions db'\<rparr>"
    have "posted_as k f e" using e x by (simp add: posted_as_def stored_as_def)
    moreover have "db' = db\<lparr>db_fills := db_fills db @ [e], db_positions := db_positions db', seq_fills := seq_fills db + 1\<rparr>"
      by (subst db') (simp add: db1)
    ultimately show thesis using e by (intro that) simp_all
  qed
qed

lemma post_fills_frame:
  "res_foldM (post_observed_fill k now p i) db fs = Inr db' \<Longrightarrow>
   \<exists>es ps. list_all2 (posted_as k) fs es \<and> (\<forall>e\<in>set es. 0 < dec_val (fi_quantity e)) \<and>
     db' = db\<lparr>db_fills := db_fills db @ es, db_positions := ps, seq_fills := seq_fills db + length es\<rparr>"
proof (induction fs arbitrary: db)
  case Nil
  then show ?case by (intro exI [of _ "[]"] exI [of _ "db_positions db"]) simp
next
  case (Cons f fs)
  then obtain db1 where step: "post_observed_fill k now p i db f = Inr db1"
    and rest: "res_foldM (post_observed_fill k now p i) db1 fs = Inr db'" by (auto simp: res_simps)
  obtain e ps where e: "posted_as k f e" "0 < dec_val (fi_quantity e)"
    "db1 = db\<lparr>db_fills := db_fills db @ [e], db_positions := ps, seq_fills := seq_fills db + 1\<rparr>"
    by (rule post_observed_fill_frame [OF step])
  obtain es ps' where "list_all2 (posted_as k) fs es" "\<forall>e\<in>set es. 0 < dec_val (fi_quantity e)"
    "db' = db1\<lparr>db_fills := db_fills db1 @ es, db_positions := ps', seq_fills := seq_fills db1 + length es\<rparr>"
    using Cons.IH [OF rest] by blast
  then show ?case using e by (intro exI [of _ "e # es"] exI [of _ ps']) simp
qed

lemma post_fills_positions:
  "res_foldM (post_observed_fill k now p i) db fs = Inr db' \<Longrightarrow> positions_ok db \<Longrightarrow> positions_ok db'"
proof (induction fs arbitrary: db)
  case (Cons f fs)
  then obtain db1 where step: "post_observed_fill k now p i db f = Inr db1"
    and rest: "res_foldM (post_observed_fill k now p i) db1 fs = Inr db'" by (auto simp: res_simps)
  have "positions_ok db1"
  proof (rule post_observed_fill_cases [OF step])
    fix q price fee db2
    assume ins: "insert_fill db k (nat (rf_fill_sequence f)) ''reconciliation'' (rf_side f) q price fee (rf_occurred_at f)
         (rf_knowledge_at f) (rf_evidence f) = Inr (seq_fills db, db2)"
      and up: "upsert_position_projection db2 now p i (rf_side f) q price (seq_fills db) = Inr db1"
    have "db_positions db2 = db_positions db" "0 < dec_val q"
      by (rule insert_fill_cases [OF ins], simp) (rule insert_fill_cases [OF ins], blast intro: numeric_pos)
    then show ?thesis using Cons.prems(2) by (intro upsert_positions_ok [OF up]) (simp_all add: positions_ok_def)
  qed
  then show ?case by (rule Cons.IH [OF rest])
qed simp

section \<open>What a run changes\<close>

lemma risk_event_frame:
  "\<exists>es. insert_reconciliation_risk_event db k i b run t s = db\<lparr>db_events := es\<rparr>"
proof -
  have "(case insert_risk_event db e of Inl _ \<Rightarrow> db | Inr d \<Rightarrow> d) =
      db\<lparr>db_events := (if (re_scope e, re_fingerprint e) \<in> set (map (\<lambda>r. (re_scope r, re_fingerprint r)) (db_events db))
        then db_events db else db_events db @ [e])\<rparr>" for e
    by (simp add: insert_risk_event_def)
  then show ?thesis unfolding insert_reconciliation_risk_event_def by (rule exI)
qed

text \<open>The four ways a run ends: replayed, unknown outcome, mismatch, success.\<close>

lemma reconcile_cases:
  assumes "reconcile_exchange_order_in_connection db now k key actor reason observed fills evidence h = Inr (run, db')"
  obtains
    (replayed) "find (\<lambda>r. rr_order r = k \<and> rr_key r = key) (db_runs db) = Some run" "rr_hash run = h" "db' = db"
  | (unknown) i es where "find (\<lambda>r. rr_order r = k \<and> rr_key r = key) (db_runs db) = None"
      "rr_status run = ''outcome_unknown''" "rr_order run = k" "rr_key run = key" "rr_hash run = h" "fills = []"
      "db' = (set_intent_status i Intent_outcome_unknown (update_order k ''outcome_unknown'' now
        (db\<lparr>db_runs := db_runs db @ [run], seq_runs := seq_runs db + 1\<rparr>)))\<lparr>db_events := es\<rparr>"
  | (mismatch) es m where "find (\<lambda>r. rr_order r = k \<and> rr_key r = key) (db_runs db) = None"
      "rr_status run = ''mismatch''" "rr_order run = k" "rr_key run = key" "rr_hash run = h"
      "find_mismatch (order_fills db k) [] fills = Some m"
      "db' = db\<lparr>db_runs := db_runs db @ [run], seq_runs := seq_runs db + 1, db_events := es\<rparr>"
  | (success) r i b p db1 where "find (\<lambda>r. rr_order r = k \<and> rr_key r = key) (db_runs db) = None"
      "rr_status run = ''succeeded''" "rr_order run = k" "rr_key run = key" "rr_hash run = h"
      "find_mismatch (order_fills db k) [] fills = None"
      "order_for_reconciliation db k = Inr (r, i, b, p)"
      "res_foldM (post_observed_fill k now p (oi_instrument i)) db (unposted (order_fills db k) fills) = Inr db1"
      "db' = (set_intent_status (oi_id i) Intent_reconciled (update_order k ''reconciled'' now
        db1))\<lparr>db_runs := db_runs db1 @ [run], seq_runs := seq_runs db1 + 1\<rparr>"
proof (cases "find (\<lambda>r. rr_order r = k \<and> rr_key r = key) (db_runs db)")
  case (Some r)
  then show thesis using assms replayed by (simp add: reconcile_exchange_order_in_connection_def split: if_splits)
next
  case None
  have "\<exists>x. order_for_reconciliation db k = Inr x"
    using assms None by (auto simp: reconcile_exchange_order_in_connection_def res_simps)
  then obtain r i b p where order: "order_for_reconciliation db k = Inr (r, i, b, p)" by auto
  note d = assms [unfolded reconcile_exchange_order_in_connection_def None order, simplified]
  show thesis
  proof (cases "observed \<in> {''outcome_unknown'', ''missing''} \<and> fills = []")
    case True
    let ?db = "set_intent_status (oi_id i) Intent_outcome_unknown (update_order k ''outcome_unknown'' now
        (db\<lparr>db_runs := db_runs db @ [run], seq_runs := seq_runs db + 1\<rparr>))"
    have "db' = insert_reconciliation_risk_event ?db k (oi_id i) (bi_id b) run ''outcome_unknown'' ''warning''"
      using d True by (auto simp: insert_reconciliation_run_def Let_def)
    moreover obtain es where "insert_reconciliation_risk_event ?db k (oi_id i) (bi_id b) run ''outcome_unknown'' ''warning'' =
        ?db\<lparr>db_events := es\<rparr>" using risk_event_frame by blast
    ultimately have "db' = ?db\<lparr>db_events := es\<rparr>" by (rule trans)
    then show thesis using d True
      by (intro unknown [OF None]) (auto simp: insert_reconciliation_run_def Let_def)
  next
    case not_unknown: False
    show thesis
    proof (cases "find_mismatch (order_fills db k) [] fills")
      case (Some m)
      note e = d [unfolded Some, simplified, unfolded insert_reconciliation_run_def Let_def]
      let ?db = "db\<lparr>db_runs := db_runs db @ [run], seq_runs := seq_runs db + 1\<rparr>"
      have "db' = insert_reconciliation_risk_event ?db k (oi_id i) (bi_id b) run ''reconciliation_mismatch'' ''critical''"
        using e not_unknown by (auto split: if_splits)
      moreover obtain es where "insert_reconciliation_risk_event ?db k (oi_id i) (bi_id b) run ''reconciliation_mismatch'' ''critical'' =
          ?db\<lparr>db_events := es\<rparr>" using risk_event_frame by blast
      ultimately have "db' = ?db\<lparr>db_events := es\<rparr>" by (rule trans)
      then show thesis using e not_unknown
        by (intro mismatch [OF None _ _ _ _ Some]) (auto split: if_splits)
    next
      case no: None
      obtain db1 where "res_foldM (post_observed_fill k now p (oi_instrument i)) db (unposted (order_fills db k) fills) = Inr db1"
        using d no not_unknown by (auto simp: Let_def res_simps)
      then show thesis using d no not_unknown
        by (intro success [OF None _ _ _ _ no order]) (auto simp: insert_reconciliation_run_def Let_def set_intent_status_def update_order_def)
    qed
  qed
qed

section \<open>Replays\<close>

lemma find_appended: "find P xs = None \<Longrightarrow> P x \<Longrightarrow> find P (xs @ [x]) = Some x"
  by (induction xs) (auto split: if_splits)

lemma post_fills_runs:
  "res_foldM (post_observed_fill k now p i) db fs = Inr db' \<Longrightarrow> db_runs db' = db_runs db \<and> seq_runs db' = seq_runs db"
  by (auto dest: post_fills_frame)

lemma reconcile_runs:
  assumes "reconcile_exchange_order_in_connection db now k key actor reason observed fills evidence h = Inr (run, db')"
  shows "find (\<lambda>r. rr_order r = k \<and> rr_key r = key) (db_runs db') = Some run" "rr_hash run = h"
  using assms
  by (rule reconcile_cases; auto simp: set_intent_status_def update_order_def find_appended dest: post_fills_runs)+

lemma reconcile_replay:
  assumes "reconcile_exchange_order_in_connection db now k key actor reason observed fills evidence h = Inr (run, db')"
  shows "reconcile_exchange_order_in_connection db' later k key actor' reason' observed' fills' evidence' h' =
    (if h' = h then Inr (run, db') else Inl Idempotency_conflict)"
  using reconcile_runs [OF assms] by (simp add: reconcile_exchange_order_in_connection_def)

lemma reconcile_exchange_order_cases:
  assumes "reconcile_exchange_order db now k run_key actor_id reason observed_status fills evidence = Inr (summary, db')"
  obtains key actor run_reason observed ordered h run where
    "reconciliation_arguments k run_key actor_id reason observed_status fills evidence =
       Inr (key, actor, run_reason, observed, ordered, h)"
    "reconcile_exchange_order_in_connection db now k key actor run_reason observed ordered evidence h = Inr (run, db')"
    "summary = reconciliation_run_summary run" "db_runs db' = db_runs db \<or> commit_ok db' run"
  using assms unfolding reconcile_exchange_order_def by (auto simp: res_simps split: if_splits)

text \<open>Reconciling an order is idempotent under its run key: repeating the request, at any later time,
  returns the recorded summary and changes no table, and a request with the same key whose canonical hash
  differs is refused.\<close>

theorem reconcile_idempotent:
  assumes "reconcile_exchange_order db now k run_key actor_id reason observed_status fills evidence = Inr (summary, db')"
  shows "reconcile_exchange_order db' later k run_key actor_id reason observed_status fills evidence = Inr (summary, db') \<and>
    (\<forall>fills' evidence' status'.
       case (reconciliation_arguments k run_key actor_id reason observed_status fills evidence,
             reconciliation_arguments k run_key actor_id reason status' fills' evidence') of
         (Inr (_, _, _, _, _, h), Inr (_, _, _, _, _, h')) \<Rightarrow>
           h = h' \<or> reconcile_exchange_order db' later k run_key actor_id reason status' fills' evidence' =
             Inl Idempotency_conflict
       | _ \<Rightarrow> True)"
proof (rule reconcile_exchange_order_cases [OF assms])
  fix key actor run_reason observed ordered h run
  assume args: "reconciliation_arguments k run_key actor_id reason observed_status fills evidence =
       Inr (key, actor, run_reason, observed, ordered, h)"
    and run: "reconcile_exchange_order_in_connection db now k key actor run_reason observed ordered evidence h = Inr (run, db')"
    and summary: "summary = reconciliation_run_summary run"
  have replay: "reconcile_exchange_order db' later k run_key actor_id reason status' fills' evidence' =
      (if h' = h then Inr (summary, db') else Inl Idempotency_conflict)"
    if "reconciliation_arguments k run_key actor_id reason status' fills' evidence' = Inr (key, x, y, z, o', h')"
    for status' fills' evidence' x y z o' h'
    by (simp add: reconcile_exchange_order_def that reconcile_replay [OF run] summary)
  have same_key: "key' = key" if "reconciliation_arguments k run_key actor_id reason status' fills' evidence' =
      Inr (key', x, y, z, o', h')" for status' fills' evidence' key' x y z o' h'
    using that args by (auto simp: reconciliation_arguments_def res_simps Let_def)
  show ?thesis
    using replay [OF args] replay same_key by (auto simp: args split: sum.splits)
qed

section \<open>What a successful run leaves behind\<close>

lemma find_mismatch_None:
  "find_mismatch existing seen fs = None \<Longrightarrow>
   (\<forall>f\<in>set fs. (\<exists>e\<in>set existing. int (fi_sequence e) = rf_fill_sequence f \<and> same_fill e f) \<or>
      rf_fill_sequence f \<notin> (\<lambda>e. int (fi_sequence e)) ` set existing) \<and>
   distinct (map rf_fill_sequence fs) \<and> set seen \<inter> rf_fill_sequence ` set fs = {}"
proof (induction fs arbitrary: seen)
  case (Cons f fs)
  have rest: "find_mismatch existing (rf_fill_sequence f # seen) fs = None" and new: "rf_fill_sequence f \<notin> set seen"
    using Cons.prems by (auto simp: Let_def split: if_splits option.splits)
  have "(\<exists>e\<in>set existing. int (fi_sequence e) = rf_fill_sequence f \<and> same_fill e f) \<or>
      rf_fill_sequence f \<notin> (\<lambda>e. int (fi_sequence e)) ` set existing"
  proof (cases "find (\<lambda>e. int (fi_sequence e) = rf_fill_sequence f) existing")
    case None
    then show ?thesis by (auto simp: find_None_iff)
  next
    case (Some e)
    then have "e \<in> set existing \<and> int (fi_sequence e) = rf_fill_sequence f"
      using row_by_Some [of "\<lambda>e. int (fi_sequence e)"] by (simp add: row_by_def)
    moreover have "same_fill e f" using Cons.prems Some by (auto simp: Let_def split: if_splits)
    ultimately show ?thesis by blast
  qed
  then show ?case using Cons.IH [OF rest] new by auto
qed simp

lemma list_all2_exists: "list_all2 P xs ys \<Longrightarrow> x \<in> set xs \<Longrightarrow> \<exists>y\<in>set ys. P x y"
  by (induction rule: list_all2_induct) auto

lemma arguments_fills:
  assumes "reconciliation_arguments k run_key actor_id reason observed_status fills evidence =
    Inr (key, actor, run_reason, observed, ordered, h)"
  shows "ordered = sort_key rf_fill_sequence fills" "\<forall>f\<in>set fills. 1 \<le> rf_fill_sequence f"
proof -
  obtain ps where ps: "res_mapM reconciliation_fill_payload fills = Inr ps" "ordered = sort_key rf_fill_sequence ps"
    using assms by (auto simp: reconciliation_arguments_def res_simps Let_def)
  have ok: "1 \<le> rf_fill_sequence f \<and> g = f" if "reconciliation_fill_payload f = Inr g" for f g
    using that by (auto simp: reconciliation_fill_payload_def split: if_splits)
  have "list_all2 (\<lambda>f g. reconciliation_fill_payload f = Inr g) fills ps" using ps(1) by (simp add: res_mapM_Inr_iff)
  then have "ps = fills \<and> (\<forall>f\<in>set fills. 1 \<le> rf_fill_sequence f)"
    by (induction rule: list_all2_induct) (use ok in auto)
  then show "ordered = sort_key rf_fill_sequence fills" "\<forall>f\<in>set fills. 1 \<le> rf_fill_sequence f" using ps(2) by auto
qed

lemma reconcile_success_fills:
  assumes run: "reconcile_exchange_order_in_connection db now k key actor reason observed fills evidence h = Inr (run, db')"
    and new: "find (\<lambda>r. rr_order r = k \<and> rr_key r = key) (db_runs db) = None" and ok: "rr_status run = ''succeeded''"
    and seqs: "\<forall>f\<in>set fills. 1 \<le> rf_fill_sequence f"
  shows "\<exists>es. db_fills db' = db_fills db @ es \<and> list_all2 (posted_as k) (unposted (order_fills db k) fills) es \<and>
    (\<forall>f\<in>set fills. \<exists>e\<in>set (order_fills db' k). int (fi_sequence e) = rf_fill_sequence f \<and> (same_fill e f \<or> posted_as k f e))"
  using run
proof (cases rule: reconcile_cases)
  case (success r i b p db1)
  obtain es ps where es: "list_all2 (posted_as k) (unposted (order_fills db k) fills) es"
    "db1 = db\<lparr>db_fills := db_fills db @ es, db_positions := ps, seq_fills := seq_fills db + length es\<rparr>"
    using post_fills_frame [OF success(8)] by blast
  have fills': "db_fills db' = db_fills db @ es"
    using success(9) es(2) by (simp add: set_intent_status_def update_order_def)
  have "\<exists>e\<in>set (order_fills db' k). int (fi_sequence e) = rf_fill_sequence f \<and> (same_fill e f \<or> posted_as k f e)"
    if f: "f \<in> set fills" for f
  proof (cases "rf_fill_sequence f \<in> (\<lambda>e. int (fi_sequence e)) ` set (order_fills db k)")
    case True
    then obtain e where "e \<in> set (order_fills db k)" "int (fi_sequence e) = rf_fill_sequence f" "same_fill e f"
      using find_mismatch_None [OF success(6)] f by auto
    then show ?thesis by (auto simp: order_fills_def fills')
  next
    case False
    then have "f \<in> set (unposted (order_fills db k) fills)" using f by (auto simp: unposted_def)
    then obtain e where e: "e \<in> set es" "posted_as k f e" using list_all2_exists [OF es(1)] by blast
    then have "int (fi_sequence e) = rf_fill_sequence f" using seqs f by (auto simp: posted_as_def)
    moreover have "e \<in> set (order_fills db' k)" using e by (simp add: order_fills_def fills' posted_as_def)
    ultimately show ?thesis using e(2) by blast
  qed
  then show ?thesis using fills' es(1) by blast
qed (use new ok in auto)

text \<open>C24. A run that does not succeed posts nothing: whatever the observation, a run recorded as a mismatch
  or as an unknown outcome leaves every fill and every position as it was. A run that succeeds only
  appends: each observed fill then has a row of the order with its sequence number, either one that was
  there and agrees with it or a new one holding its amounts, and nothing is posted twice.\<close>

theorem reconcile_posts_fills:
  assumes "reconcile_exchange_order db now k run_key actor_id reason observed_status fills evidence = Inr (summary, db')"
    and "db_runs db' \<noteq> db_runs db"
  shows "case dict_get summary ''status'' of
      PyStr s \<Rightarrow>
        (if s = ''succeeded''
         then \<exists>es. db_fills db' = db_fills db @ es \<and>
           list_all2 (posted_as k) (unposted (order_fills db k) (sort_key rf_fill_sequence fills)) es \<and>
           (\<forall>f\<in>set fills. \<exists>e\<in>set (order_fills db' k).
              int (fi_sequence e) = rf_fill_sequence f \<and> (same_fill e f \<or> posted_as k f e))
         else db_fills db' = db_fills db \<and> db_positions db' = db_positions db)
    | _ \<Rightarrow> False"
proof (rule reconcile_exchange_order_cases [OF assms(1)])
  fix key actor run_reason observed ordered h run
  assume args: "reconciliation_arguments k run_key actor_id reason observed_status fills evidence =
       Inr (key, actor, run_reason, observed, ordered, h)"
    and run: "reconcile_exchange_order_in_connection db now k key actor run_reason observed ordered evidence h = Inr (run, db')"
    and summary: "summary = reconciliation_run_summary run"
  have status: "dict_get summary ''status'' = PyStr (rr_status run)"
    by (simp add: summary reconciliation_run_summary_def dict_get_def)
  have new: "find (\<lambda>r. rr_order r = k \<and> rr_key r = key) (db_runs db) = None"
    using run by (cases rule: reconcile_cases) (use assms(2) in auto)
  have other: "rr_status run \<noteq> ''succeeded'' \<Longrightarrow> db_fills db' = db_fills db \<and> db_positions db' = db_positions db"
    using run by (cases rule: reconcile_cases) (auto simp: set_intent_status_def update_order_def)
  have seqs: "\<forall>f\<in>set ordered. 1 \<le> rf_fill_sequence f" and ord: "ordered = sort_key rf_fill_sequence fills"
    using arguments_fills [OF args] by auto
  show ?thesis
    using reconcile_success_fills [OF run new _ seqs] other by (auto simp: status ord)
qed

section \<open>Reconciliation keeps the ledger balanced\<close>

text \<open>The quantity of a fill has at most eighteen decimals.\<close>

definition exact_fill :: "recon_fill \<Rightarrow> bool" where
  "exact_fill f = (case rf_filled_quantity f of Fin q \<Rightarrow> on_grid (- 18) (dec_val q) \<and> 0 < dec_val q | Inf _ \<Rightarrow> False)"

definition fill_amount :: "recon_fill \<Rightarrow> rat" where
  "fill_amount f = (case rf_filled_quantity f of Fin q \<Rightarrow> dec_val q | Inf _ \<Rightarrow> 0)"

lemma exact_fill_amount: "exact_fill f \<Longrightarrow> 0 \<le> fill_amount f"
  by (auto simp: exact_fill_def fill_amount_def split: xdec.splits)

lemma post_fill_ledger:
  assumes post: "post_observed_fill k now p i db f = Inr db'"
    and bal: "ledger_balanced db" "positions_ok db" "order_scope db k = Some (p, i)"
    and f: "exact_fill f" "holding db p i + fill_amount f < 10 ^ 10"
  shows "ledger_balanced db'" "positions_ok db'" "order_scope db' k = Some (p, i)"
    "holding db' p i \<le> holding db p i + fill_amount f"
proof -
  obtain q price fee db1 where x: "rf_filled_quantity f = Fin q" "rf_fill_price f = Fin price" "rf_fee_paid f = Fin fee"
    and ins: "insert_fill db k (nat (rf_fill_sequence f)) ''reconciliation'' (rf_side f) q price fee (rf_occurred_at f)
       (rf_knowledge_at f) (rf_evidence f) = Inr (seq_fills db, db1)"
    and up: "upsert_position_projection db1 now p i (rf_side f) q price (seq_fills db) = Inr db'"
    by (rule post_observed_fill_cases [OF post])
  have q: "on_grid (- 18) (dec_val q)" "0 < dec_val q" and amount: "fill_amount f = dec_val q"
    using f(1) x by (auto simp: exact_fill_def fill_amount_def)
  obtain e where db1: "db1 = db\<lparr>db_fills := db_fills db @ [e], seq_fills := seq_fills db + 1\<rparr>"
    by (rule insert_fill_cases [OF ins])
  have same: "holding db1 p i = holding db p i" "positions_ok db1" "order_scope db1 k = Some (p, i)"
    using bal by (simp_all add: db1 holding_def positions_ok_def position_row_def order_scope_frame)
  show "ledger_balanced db'" using post_fill_balanced [OF ins up bal q] f(2) amount by simp
  show "positions_ok db'" using upsert_positions_ok [OF up same(2)] q by simp
  show "order_scope db' k = Some (p, i)"
    by (rule upsert_row [OF up]) (metis same(3) order_scope_frame(2))
  have "holding db' p i = holding db1 p i + signed_change (rf_side f) (dec_val q)"
    using upsert_holding [OF up same(2) q, of p i] f(2) same(1) amount by simp
  then show "holding db' p i \<le> holding db p i + fill_amount f"
    using q(2) same(1) amount by (simp add: signed_change_def)
qed

lemma post_fills_ledger:
  "res_foldM (post_observed_fill k now p i) db fs = Inr db' \<Longrightarrow> ledger_balanced db \<Longrightarrow> positions_ok db \<Longrightarrow>
   order_scope db k = Some (p, i) \<Longrightarrow> \<forall>f\<in>set fs. exact_fill f \<Longrightarrow>
   holding db p i + sum_list (map fill_amount fs) < 10 ^ 10 \<Longrightarrow> ledger_balanced db' \<and> positions_ok db'"
proof (induction fs arbitrary: db)
  case (Cons f fs)
  then obtain db1 where step: "post_observed_fill k now p i db f = Inr db1"
    and rest: "res_foldM (post_observed_fill k now p i) db1 fs = Inr db'" by (auto simp: res_simps)
  have pos: "0 \<le> sum_list (map fill_amount fs)"
    using Cons.prems(5) by (intro sum_list_nonneg) (auto intro: exact_fill_amount)
  have now: "exact_fill f" "holding db p i + fill_amount f < 10 ^ 10" using Cons.prems(5,6) pos by auto
  note post = post_fill_ledger [OF step Cons.prems(2-4) now]
  show ?case
    by (rule Cons.IH [OF rest post(1-3)]) (use Cons.prems(5,6) post(4) in auto)
qed simp

end
