(* ===== verification/Lease_Protocol.thy ===== *)
theory Lease_Protocol
  imports Prelude
begin

text \<open>
  The contract of a queue whose jobs are leased to workers under a generation number. A step never lowers
  the generation of a job, and only the holder of the current generation can finish it; so a worker whose
  lease was taken over is fenced off for good, whatever happens afterwards.
\<close>

locale lease_protocol =
  fixes step :: "'s \<Rightarrow> 's \<Rightarrow> bool"
    and invar :: "'s \<Rightarrow> bool"
    and generation :: "'s \<Rightarrow> 'k \<Rightarrow> nat option"
    and finishes :: "'s \<Rightarrow> 'k \<Rightarrow> nat \<Rightarrow> bool"
  assumes invar_step: "step s t \<Longrightarrow> invar s \<Longrightarrow> invar t"
    and monotone: "step s t \<Longrightarrow> invar s \<Longrightarrow> generation s k = Some g \<Longrightarrow> \<exists>h. generation t k = Some h \<and> g \<le> h"
    and fence: "invar s \<Longrightarrow> finishes s k g \<Longrightarrow> generation s k = Some g"
begin

lemma reachable_invar: "step\<^sup>*\<^sup>* s t \<Longrightarrow> invar s \<Longrightarrow> invar t"
  by (induction rule: rtranclp_induct) (auto intro: invar_step)

lemma reachable_generation:
  "step\<^sup>*\<^sup>* s t \<Longrightarrow> invar s \<Longrightarrow> generation s k = Some g \<Longrightarrow> \<exists>h. generation t k = Some h \<and> g \<le> h"
proof (induction rule: rtranclp_induct)
  case (step t u)
  then obtain h where "generation t k = Some h" "g \<le> h" by blast
  moreover have "invar t" using reachable_invar step by blast
  ultimately show ?case using monotone [OF step.hyps(2)] by (meson order.trans)
qed auto

lemma stale_fenced:
  assumes "step\<^sup>*\<^sup>* s t" "invar s" "generation s k = Some g" "h < g"
  shows "\<not> finishes t k h"
  using reachable_generation [OF assms(1-3)] fence [OF reachable_invar [OF assms(1,2)], of k h] assms(4) by auto

end

end
