(* ===== verification/Portfolio_System.thy ===== *)
theory Portfolio_System
  imports Order_Reconciliation Lease_Protocol
begin

text \<open>
  The paper trading system as a transition system: workers claim, complete and fail paper jobs, the risk
  worker evaluates intents, orders are reconciled, and the rest of the program creates intents, switches,
  limits and exchange orders and moves bots between stages. A transaction that raises changes nothing and
  is not a step. The invariants hold in every reachable state, whatever the interleaving of workers and
  the clock readings.
\<close>

inductive portfolio_step :: "portfolio_db \<Rightarrow> portfolio_db \<Rightarrow> bool" where
  claim: "claim_next_paper_execution_job db worker secs now upd locked = Inr (r, db') \<Longrightarrow> portfolio_step db db'"
| complete: "complete_claimed_paper_execution_job db now upd k worker g price filled occurred knowledge evidence = Inr (s, db')
    \<Longrightarrow> portfolio_step db db'"
| fail: "fail_claimed_paper_execution_job db now upd k worker g code message = Inr (s, db') \<Longrightarrow> portfolio_step db db'"
| evaluate: "evaluate_next_order_intent_risk db worker locked upd = Inr (d, db') \<Longrightarrow> portfolio_step db db'"
| reconcile: "reconcile_exchange_order db now k run_key actor reason observed fills evidence = Inr (summary, db')
    \<Longrightarrow> portfolio_step db db'"
| new_intent: "oi_id i \<notin> oi_id ` set (db_intents db) \<Longrightarrow> oi_status i = Intent_created
    \<Longrightarrow> portfolio_step db (db\<lparr>db_intents := db_intents db @ [i]\<rparr>)"
| new_order: "eo_id r = seq_orders db \<Longrightarrow> eo_mode r \<noteq> Mode_paper
    \<Longrightarrow> portfolio_step db (db\<lparr>db_orders := db_orders db @ [r], seq_orders := seq_orders db + 1\<rparr>)"
| new_switch: "portfolio_step db (db\<lparr>db_switches := db_switches db @ [s]\<rparr>)"
| new_limit: "portfolio_step db (db\<lparr>db_limits := db_limits db @ [l]\<rparr>)"
| set_stage: "portfolio_step db
    (db\<lparr>db_instances := rows_update (\<lambda>b. bi_id b = k) (\<lambda>b. b\<lparr>bi_stage := st\<rparr>) (db_instances db)\<rparr>)"

definition initial_db :: "portfolio_db \<Rightarrow> bool" where
  "initial_db db \<longleftrightarrow> db_jobs db = [] \<and> db_orders db = [] \<and> db_fills db = [] \<and> db_positions db = [] \<and>
     distinct (map oi_id (db_intents db)) \<and> (\<forall>i\<in>set (db_intents db). oi_status i = Intent_created)"

section \<open>Invariant of the queue\<close>

definition job_ok :: "paper_job \<Rightarrow> bool" where
  "job_ok j \<longleftrightarrow>
     (pj_status j = Job_running \<longleftrightarrow> pj_owner j \<noteq> None) \<and> (pj_status j = Job_running \<longleftrightarrow> pj_expires j \<noteq> None) \<and>
     pj_attempts j \<le> pj_max_attempts j \<and> (pj_status j = Job_running \<longrightarrow> 1 \<le> pj_attempts j \<and> 1 \<le> pj_generation j)"

definition jobs_ok :: "portfolio_db \<Rightarrow> bool" where
  "jobs_ok db \<longleftrightarrow>
     list_all job_ok (db_jobs db) \<and> distinct (map pj_id (db_jobs db)) \<and> distinct (map pj_intent (db_jobs db)) \<and>
     (\<forall>j\<in>set (db_jobs db). pj_id j < seq_jobs db)"

text \<open>The intents with a paper order, the paper orders and the orders with a simulated fill.\<close>

definition paper_intents :: "portfolio_db \<Rightarrow> nat list" where
  "paper_intents db = map eo_intent (filter (\<lambda>r. eo_mode r = Mode_paper) (db_orders db))"

definition paper_orders :: "portfolio_db \<Rightarrow> nat list" where
  "paper_orders db = map eo_id (filter (\<lambda>r. eo_mode r = Mode_paper) (db_orders db))"

definition simulated_orders :: "portfolio_db \<Rightarrow> nat list" where
  "simulated_orders db = map fi_order (filter (\<lambda>f. fi_source f = ''paper_simulator'') (db_fills db))"

definition succeeded_intents :: "portfolio_db \<Rightarrow> nat set" where
  "succeeded_intents db = pj_intent ` {j \<in> set (db_jobs db). pj_status j = Job_succeeded}"

text \<open>The intents that are past execution.\<close>

definition closed_intents :: "portfolio_db \<Rightarrow> nat set" where
  "closed_intents db = oi_id ` {i \<in> set (db_intents db). oi_status i \<notin> {Intent_created, Intent_approved}}"

definition execution_ok :: "portfolio_db \<Rightarrow> bool" where
  "execution_ok db \<longleftrightarrow>
     jobs_ok db \<and> distinct (map oi_id (db_intents db)) \<and> simulated_orders db = paper_orders db \<and>
     distinct (paper_intents db) \<and> set (paper_intents db) = succeeded_intents db \<and>
     set (paper_intents db) \<subseteq> closed_intents db"

lemmas execution_projections = paper_intents_def paper_orders_def simulated_orders_def closed_intents_def

lemma execution_frame:
  "paper_intents (db\<lparr>db_jobs := js\<rparr>) = paper_intents db" "paper_orders (db\<lparr>db_jobs := js\<rparr>) = paper_orders db"
  "simulated_orders (db\<lparr>db_jobs := js\<rparr>) = simulated_orders db" "closed_intents (db\<lparr>db_jobs := js\<rparr>) = closed_intents db"
  by (simp_all add: paper_intents_def paper_orders_def simulated_orders_def closed_intents_def)

text \<open>Four kinds of change cover the steps: jobs are rewritten without touching their identity or whether
  they succeeded; an order and its simulated fill are added and the job succeeds; an intent that is only
  created gets its decision and perhaps a job; orders, fills and intents change without reaching the paper
  execution.\<close>

lemma jobs_ok_update:
  assumes "jobs_ok db" "\<And>j. j \<in> set (db_jobs db) \<Longrightarrow> P j \<Longrightarrow> job_ok (f j)"
    and "\<And>j. pj_id (f j) = pj_id j" "\<And>j. pj_intent (f j) = pj_intent j"
  shows "jobs_ok (db\<lparr>db_jobs := rows_update P f (db_jobs db)\<rparr>)"
  using assms
  by (auto simp: jobs_ok_def list_all_iff map_rows_update set_rows_update)

lemma execution_ok_jobs:
  assumes ok: "execution_ok db" and job: "\<And>j. j \<in> set (db_jobs db) \<Longrightarrow> P j \<Longrightarrow> job_ok (f j)"
    and keep: "\<And>j. pj_id (f j) = pj_id j" "\<And>j. pj_intent (f j) = pj_intent j"
    and status: "\<And>j. j \<in> set (db_jobs db) \<Longrightarrow> P j \<Longrightarrow> pj_status j \<noteq> Job_succeeded \<and> pj_status (f j) \<noteq> Job_succeeded"
  shows "execution_ok (db\<lparr>db_jobs := rows_update P f (db_jobs db)\<rparr>)"
proof -
  have "succeeded_intents (db\<lparr>db_jobs := rows_update P f (db_jobs db)\<rparr>) = succeeded_intents db"
    unfolding succeeded_intents_def using status by (force simp: set_rows_update)
  moreover have "jobs_ok (db\<lparr>db_jobs := rows_update P f (db_jobs db)\<rparr>)"
    by (rule jobs_ok_update [OF _ job keep]) (use ok in \<open>simp_all add: execution_ok_def\<close>)
  ultimately show ?thesis using ok unfolding execution_ok_def by (simp add: execution_frame) metis
qed

lemma rows_update_id: "distinct (map key rows) \<Longrightarrow> r \<in> set rows \<Longrightarrow> s \<in> set rows \<Longrightarrow> key s = key r \<Longrightarrow> s = r"
  by (metis row_by_distinct option.inject)

lemma execution_ok_claim:
  assumes ok: "execution_ok db" and c: "claim_next_paper_execution_job db worker secs now upd locked = Inr (r, db')"
  shows "execution_ok db'"
  using c
proof (cases rule: claim_cases)
  case (leased c w)
  have c: "c \<in> set (db_jobs db)" "job_due now c"
    using claim_candidate_Some [OF leased(1)] by (auto simp: job_claimable_def)
  have distinct: "distinct (map pj_id (db_jobs db))" using ok by (simp add: execution_ok_def jobs_ok_def)
  show ?thesis
    unfolding leased(4)
  proof (rule execution_ok_jobs [OF ok])
    fix j assume j: "j \<in> set (db_jobs db)"
      "pj_id j = pj_id c \<and> pj_generation j = pj_generation c \<and> pj_attempts j < pj_max_attempts j"
    then have "j = c" using rows_update_id [OF distinct c(1)] by auto
    then show "pj_status j \<noteq> Job_succeeded \<and> pj_status (lease_job w secs upd j) \<noteq> Job_succeeded"
      using c(2) by (auto simp: job_due_def lease_job_def)
    show "job_ok (lease_job w secs upd j)" using j by (simp add: job_ok_def lease_job_def)
  qed (simp_all add: lease_job_def)
qed (use ok in simp)

lemma execution_ok_update_job:
  assumes ok: "execution_ok db" and c: "c \<in> set (db_jobs db)" "pj_id c = k" "pj_status c = Job_running"
    and job: "job_ok (f c)" "pj_status (f c) \<noteq> Job_succeeded"
    and keep: "\<And>j. pj_id (f j) = pj_id j" "\<And>j. pj_intent (f j) = pj_intent j"
  shows "execution_ok (update_job k f db)"
  unfolding update_job_def
proof (rule execution_ok_jobs [OF ok])
  fix j assume "j \<in> set (db_jobs db)" "pj_id j = k"
  then have "j = c" using rows_update_id [of pj_id "db_jobs db" c j] ok c by (simp add: execution_ok_def jobs_ok_def)
  then show "job_ok (f j)" "pj_status j \<noteq> Job_succeeded \<and> pj_status (f j) \<noteq> Job_succeeded" using job c by auto
qed (use keep in auto)

lemma running_job_ok:
  "execution_ok db \<Longrightarrow> locked_claimed_paper_job db now k w g = Inr c \<Longrightarrow>
     c \<in> set (db_jobs db) \<and> pj_id c = k \<and> pj_status c = Job_running \<and> job_ok c"
  using locked_claimed_paper_job_Inr [of db now k w g c] by (auto simp: execution_ok_def jobs_ok_def list_all_iff)

lemma execution_ok_fail:
  assumes ok: "execution_ok db" and f: "fail_claimed_paper_execution_job db now upd k worker g code message = Inr (s, db')"
  shows "execution_ok db'"
proof (rule fail_cases [OF f])
  fix c w st e m
  assume c: "locked_claimed_paper_job db now k w g = Inr c"
    and st: "st = (if pj_max_attempts c \<le> pj_attempts c then Job_dead_letter else Job_retry_wait)"
    and db': "db' = update_job k (fail_job st e m upd) db"
  note r = running_job_ok [OF ok c]
  show ?thesis unfolding db'
    by (rule execution_ok_update_job [OF ok]) (use r st in \<open>auto simp: fail_job_def job_ok_def\<close>)
qed

text \<open>A paper fill: the intent was approved, so it had no paper order and its job had not succeeded.\<close>

lemma closed_intents_update:
  assumes "\<And>r. oi_id (f r) = oi_id r" "\<And>r. r \<in> set (db_intents db) \<Longrightarrow> P r \<Longrightarrow> oi_status r \<notin> {Intent_created, Intent_approved}
      \<Longrightarrow> oi_status (f r) \<notin> {Intent_created, Intent_approved}"
  shows "closed_intents db \<subseteq> closed_intents (db\<lparr>db_intents := rows_update P f (db_intents db)\<rparr>)"
proof
  fix k assume "k \<in> closed_intents db"
  then obtain r where r: "r \<in> set (db_intents db)" "oi_status r \<notin> {Intent_created, Intent_approved}" "k = oi_id r"
    by (auto simp: closed_intents_def)
  let ?r = "if P r then f r else r"
  have "?r \<in> set (rows_update P f (db_intents db))" using r(1) by (auto simp: set_rows_update)
  moreover have "oi_id ?r = k" "oi_status ?r \<notin> {Intent_created, Intent_approved}" using assms r by auto
  ultimately show "k \<in> closed_intents (db\<lparr>db_intents := rows_update P f (db_intents db)\<rparr>)"
    unfolding closed_intents_def by (intro image_eqI [of _ _ ?r]) auto
qed

lemma approved_not_paper:
  assumes ok: "execution_ok db" and i: "i \<in> set (db_intents db)" "oi_status i \<in> {Intent_created, Intent_approved}"
  shows "oi_id i \<notin> set (paper_intents db)"
proof
  assume "oi_id i \<in> set (paper_intents db)"
  then obtain i' where "i' \<in> set (db_intents db)" "oi_id i' = oi_id i" "oi_status i' \<notin> {Intent_created, Intent_approved}"
    using ok by (auto simp: execution_ok_def closed_intents_def)
  then show False using rows_update_id [of oi_id "db_intents db" i i'] ok i by (simp add: execution_ok_def)
qed

lemma image_at: "c \<in> A \<Longrightarrow> (\<lambda>j. if j = c then d else j) ` A = insert d (A - {c})"
  by auto

lemma filter_replace: "P d \<Longrightarrow> \<not> P c \<Longrightarrow> {j \<in> insert d (A - {c}). P j} = insert d {j \<in> A. P j}"
  by auto

lemma execution_ok_complete:
  assumes ok: "execution_ok db"
    and c: "complete_claimed_paper_execution_job db now upd k worker g price filled occurred knowledge evidence = Inr (s, db')"
  shows "execution_ok db'"
  using c
proof (cases rule: complete_cases)
  case (deferred c w i b p)
  note r = running_job_ok [OF ok deferred(1)]
  show ?thesis unfolding deferred(4)
    by (rule execution_ok_update_job [OF ok]) (use r in \<open>auto simp: defer_job_def job_ok_def\<close>)
next
  case (filled c w i b p q db1 db2 db3)
  note r = running_job_ok [OF ok filled(1)]
  obtain o' f ps where o': "eo_id o' = seq_orders db" "eo_intent o' = oi_id i" "eo_mode o' = Mode_paper"
    "fi_order f = seq_orders db" "fi_source f = ''paper_simulator''"
    and db3: "db3 = db\<lparr>db_orders := db_orders db @ [o'], seq_orders := seq_orders db + 1, db_fills := db_fills db @ [f],
       seq_fills := seq_fills db + 1, db_positions := ps\<rparr>"
    by (rule complete_filled_tables [OF filled(5-7)])
  have i: "i \<in> set (db_intents db)" "oi_status i = Intent_approved" "oi_id i = pj_intent c"
    using paper_intent_row_Inr [OF filled(2)] by auto
  have new: "oi_id i \<notin> set (paper_intents db)" using approved_not_paper [OF ok i(1)] i(2) by simp
  let ?js = "rows_update (\<lambda>j. pj_id j = k) (succeed_job upd) (db_jobs db)"
  let ?is = "rows_update (\<lambda>r. oi_id r = oi_id i) (\<lambda>r. r\<lparr>oi_status := Intent_paper_filled\<rparr>) (db_intents db)"
  have tables: "db_jobs db' = ?js" "db_intents db' = ?is" "seq_jobs db' = seq_jobs db" "paper_intents db' = paper_intents db @ [oi_id i]"
    "paper_orders db' = paper_orders db @ [seq_orders db]" "simulated_orders db' = simulated_orders db @ [seq_orders db]"
    using o' by (simp_all add: filled(8) db3 update_job_def set_intent_status_def paper_intents_def paper_orders_def simulated_orders_def)
  have same: "j = c" if "j \<in> set (db_jobs db)" "pj_id j = k" for j
    using rows_update_id [of pj_id "db_jobs db" c j] ok r that by (simp add: execution_ok_def jobs_ok_def)
  have jobs: "jobs_ok db'"
  proof -
    have "jobs_ok (db\<lparr>db_jobs := ?js\<rparr>)"
      by (rule jobs_ok_update) (use ok r same in \<open>auto simp: execution_ok_def succeed_job_def job_ok_def\<close>)
    then show ?thesis by (simp add: jobs_ok_def tables)
  qed
  have succ: "succeeded_intents db' = insert (oi_id i) (succeeded_intents db)"
  proof -
    have eq: "(if pj_id j = k then succeed_job upd j else j) = (if j = c then succeed_job upd c else j)"
      if "j \<in> set (db_jobs db)" for j
    proof (cases "pj_id j = k")
      case True
      then show ?thesis using same [OF that True] by simp
    next
      case False
      then have "j \<noteq> c" using r by blast
      then show ?thesis using False by simp
    qed
    have "(\<lambda>j. if pj_id j = k then succeed_job upd j else j) ` set (db_jobs db) =
        (\<lambda>j. if j = c then succeed_job upd c else j) ` set (db_jobs db)"
      by (rule image_cong [OF refl eq])
    also have "\<dots> = insert (succeed_job upd c) (set (db_jobs db) - {c})" by (rule image_at) (use r in simp)
    finally have "set (db_jobs db') = insert (succeed_job upd c) (set (db_jobs db) - {c})"
      by (simp only: tables set_rows_update)
    moreover have "pj_status (succeed_job upd c) = Job_succeeded" "pj_status c \<noteq> Job_succeeded"
      using r by (simp_all add: succeed_job_def)
    ultimately have "{j \<in> set (db_jobs db'). pj_status j = Job_succeeded} =
        insert (succeed_job upd c) {j \<in> set (db_jobs db). pj_status j = Job_succeeded}"
      using filter_replace [of "\<lambda>j. pj_status j = Job_succeeded" "succeed_job upd c" c "set (db_jobs db)"] by (simp only: simp_thms not_False_eq_True)
    then show ?thesis by (simp add: succeeded_intents_def i succeed_job_def)
  qed
  have "closed_intents db' = closed_intents (db\<lparr>db_intents := ?is\<rparr>)" by (simp add: closed_intents_def tables)
  moreover have "closed_intents db \<subseteq> closed_intents (db\<lparr>db_intents := ?is\<rparr>)" by (rule closed_intents_update) simp_all
  moreover have "oi_id i \<in> closed_intents (db\<lparr>db_intents := ?is\<rparr>)"
    unfolding closed_intents_def using i(1) by (auto simp: set_rows_update image_iff)
  ultimately have closed: "insert (oi_id i) (closed_intents db) \<subseteq> closed_intents db'" by simp
  have ids: "distinct (map oi_id (db_intents db'))"
    using ok by (simp add: tables map_rows_update execution_ok_def)
  show ?thesis
    using ok jobs ids new succ closed unfolding execution_ok_def by (auto simp: tables)
qed

text \<open>An evaluated intent had no paper order, because it was only created; its job is new.\<close>

lemma execution_ok_same:
  assumes "execution_ok db" "db_jobs db' = db_jobs db" "seq_jobs db' = seq_jobs db" "distinct (map oi_id (db_intents db'))"
    "simulated_orders db' = simulated_orders db" "paper_orders db' = paper_orders db" "paper_intents db' = paper_intents db"
    "closed_intents db \<subseteq> closed_intents db'"
  shows "execution_ok db'"
proof -
  have "set (paper_intents db) \<subseteq> closed_intents db'" using assms(1,8) by (auto simp: execution_ok_def)
  then show ?thesis using assms by (simp add: execution_ok_def jobs_ok_def succeeded_intents_def)
qed

lemma execution_ok_enqueue:
  assumes ok: "execution_ok db"
  shows "execution_ok (enqueue_paper_job db i upd)"
proof (cases "i \<in> set (map pj_intent (db_jobs db))")
  case False
  let ?j = "new_paper_job (seq_jobs db) i upd"
  have j: "job_ok ?j" "pj_id ?j = seq_jobs db" "pj_intent ?j = i" "pj_status ?j \<noteq> Job_succeeded"
    by (simp_all add: new_paper_job_def job_ok_def)
  have "jobs_ok db" using ok by (simp add: execution_ok_def)
  then have "jobs_ok (enqueue_paper_job db i upd)"
    using False j by (fastforce simp: enqueue_paper_job_def jobs_ok_def list_all_iff)
  moreover have "succeeded_intents (enqueue_paper_job db i upd) = succeeded_intents db"
    using False j(4) by (auto simp: enqueue_paper_job_def succeeded_intents_def)
  ultimately show ?thesis
    using ok False by (auto simp: execution_ok_def enqueue_paper_job_def paper_intents_def paper_orders_def
      simulated_orders_def closed_intents_def)
qed (use ok in \<open>auto simp: enqueue_paper_job_def\<close>)

lemma execution_ok_evaluate:
  assumes ok: "execution_ok db" and e: "evaluate_next_order_intent_risk db worker locked upd = Inr (d, db')"
  shows "execution_ok db'"
  using e
proof (cases rule: evaluate_cases)
  case (decided i b p dec es)
  let ?f = "\<lambda>r. r\<lparr>oi_status := rd_status dec, oi_policy_version := Some (rd_policy_version dec),
      oi_risk_reason := Some (rd_reason dec)\<rparr>"
  let ?is = "rows_update (\<lambda>r. oi_id r = oi_id i) ?f (db_intents db)"
  let ?db = "db\<lparr>db_intents := ?is, db_events := es\<rparr>"
  have i: "oi_status i = Intent_created" using decided(2) by (simp add: intent_evaluable_def)
  have unique: "r = i" if "r \<in> set (db_intents db)" "oi_id r = oi_id i" for r
    using rows_update_id [of oi_id "db_intents db" i r] ok decided(1) that by (simp add: execution_ok_def)
  have "closed_intents db \<subseteq> closed_intents (db\<lparr>db_intents := ?is\<rparr>)"
    by (rule closed_intents_update) (use unique i in auto)
  then have "closed_intents db \<subseteq> closed_intents ?db" by (simp add: closed_intents_def)
  then have "execution_ok ?db"
    by (intro execution_ok_same [OF ok])
       (use ok in \<open>auto simp: execution_ok_def map_rows_update paper_intents_def paper_orders_def simulated_orders_def\<close>)
  then show ?thesis
    using execution_ok_enqueue [of ?db "oi_id i" upd] unfolding decided(6) Let_def
    by (cases "rd_status dec = Intent_approved \<and> bi_mode b = Mode_paper") (simp_all only: simp_thms if_True if_False)
qed (use ok in simp)

text \<open>Reconciliation rewrites statuses and appends fills of another source.\<close>

lemma execution_ok_reconcile:
  assumes ok: "execution_ok db"
    and r: "reconcile_exchange_order_in_connection db now k key actor reason observed fills evidence h = Inr (run, db')"
  shows "execution_ok db'"
proof -
  have orders: "paper_intents (update_order k st now d) = paper_intents d" "paper_orders (update_order k st now d) = paper_orders d"
    for st d
    by (auto simp: paper_intents_def paper_orders_def update_order_def rows_update_def filter_map o_def intro!: map_cong filter_cong)
  have status: "execution_ok ((set_intent_status i st d)\<lparr>db_events := es\<rparr>)" "execution_ok (set_intent_status i st d)"
    if "execution_ok d" "st \<in> {Intent_outcome_unknown, Intent_reconciled}" for i st d es
    by (rule execution_ok_same [OF that(1)];
        (use that closed_intents_update [of "\<lambda>r. r\<lparr>oi_status := st\<rparr>" d "\<lambda>r. oi_id r = i"] in
          \<open>auto simp: set_intent_status_def execution_ok_def map_rows_update paper_intents_def paper_orders_def
            simulated_orders_def closed_intents_def\<close>))+
  have upd: "execution_ok (update_order k st now d)" if "execution_ok d" for st d
    by (rule execution_ok_same [OF that])
       (use that in \<open>auto simp: orders, auto simp: execution_ok_def update_order_def simulated_orders_def closed_intents_def\<close>)
  show ?thesis
    using r
  proof (cases rule: reconcile_cases)
    case (unknown i es)
    have "execution_ok (db\<lparr>db_runs := db_runs db @ [run], seq_runs := seq_runs db + 1\<rparr>)"
      by (rule execution_ok_same [OF ok])
         (use ok in \<open>auto simp: execution_ok_def execution_projections\<close>)
    then show ?thesis unfolding unknown(7) by (intro status(1) upd) simp_all
  next
    case (mismatch es m)
    show ?thesis unfolding mismatch(7)
      by (rule execution_ok_same [OF ok])
         (use ok in \<open>auto simp: execution_ok_def execution_projections\<close>)
  next
    case (success r i b p db1)
    obtain es ps where es: "list_all2 (posted_as k) (unposted (order_fills db k) fills) es"
      "db1 = db\<lparr>db_fills := db_fills db @ es, db_positions := ps, seq_fills := seq_fills db + length es\<rparr>"
      using post_fills_frame [OF success(8)] by blast
    have "\<forall>e\<in>set es. fi_source e \<noteq> ''paper_simulator''"
      using es(1) by (induction rule: list_all2_induct) (auto simp: posted_as_def)
    then have "simulated_orders db1 = simulated_orders db"
      by (simp add: es(2) simulated_orders_def filter_empty_conv)
    then have "execution_ok db1"
      by (intro execution_ok_same [OF ok])
         (use ok es(2) in \<open>auto simp: execution_ok_def paper_intents_def paper_orders_def closed_intents_def\<close>)
    then have ok': "execution_ok (set_intent_status (oi_id i) Intent_reconciled (update_order k ''reconciled'' now db1))"
      by (intro status(2) upd) simp_all
    show ?thesis unfolding success(9)
      by (rule execution_ok_same [OF ok'])
         (use ok' in \<open>auto simp: execution_ok_def execution_projections\<close>)
  qed (use ok in simp)
qed

section \<open>Every reachable state\<close>

lemma execution_ok_step: "portfolio_step db db' \<Longrightarrow> execution_ok db \<Longrightarrow> execution_ok db'"
proof (induction rule: portfolio_step.induct)
  case (claim db worker secs now upd locked r db')
  show ?case by (rule execution_ok_claim [OF claim.prems claim.hyps])
next
  case (complete db now upd k worker g price filled occurred knowledge evidence s db')
  show ?case by (rule execution_ok_complete [OF complete.prems complete.hyps])
next
  case (fail db now upd k worker g code message s db')
  show ?case by (rule execution_ok_fail [OF fail.prems fail.hyps])
next
  case (evaluate db worker locked upd d db')
  show ?case by (rule execution_ok_evaluate [OF evaluate.prems evaluate.hyps])
next
  case (reconcile db now k run_key actor reason observed fills evidence summary db')
  show ?case
    by (rule reconcile_exchange_order_cases [OF reconcile.hyps]) (rule execution_ok_reconcile [OF reconcile.prems])
next
  case (new_intent i db)
  show ?case
    by (rule execution_ok_same [OF new_intent.prems])
       (use new_intent in \<open>auto simp: execution_ok_def execution_projections\<close>)
next
  case (new_order r db)
  show ?case
    by (rule execution_ok_same [OF new_order.prems])
       (use new_order in \<open>auto simp: execution_ok_def execution_projections\<close>)
next
  case (new_switch db s)
  show ?case
    by (rule execution_ok_same [OF new_switch.prems])
       (use new_switch in \<open>auto simp: execution_ok_def execution_projections\<close>)
next
  case (new_limit db l)
  show ?case
    by (rule execution_ok_same [OF new_limit.prems])
       (use new_limit in \<open>auto simp: execution_ok_def execution_projections\<close>)
next
  case (set_stage db k st)
  show ?case
    by (rule execution_ok_same [OF set_stage.prems])
       (use set_stage in \<open>auto simp: execution_ok_def execution_projections\<close>)
qed

lemma execution_ok_initial: "initial_db db \<Longrightarrow> execution_ok db"
  by (simp add: initial_db_def execution_ok_def jobs_ok_def paper_intents_def paper_orders_def simulated_orders_def
      succeeded_intents_def)

lemma execution_ok_reachable: "portfolio_step\<^sup>*\<^sup>* db0 db \<Longrightarrow> execution_ok db0 \<Longrightarrow> execution_ok db"
  by (induction rule: rtranclp_induct) (auto intro: execution_ok_step)

lemma count_list_distinct: "distinct xs \<Longrightarrow> count_list xs k = (if k \<in> set xs then 1 else 0)"
  by (induction xs) auto

lemma succeeded_count:
  assumes ok: "execution_ok db" and j: "j \<in> set (db_jobs db)"
  shows "count_list (paper_intents db) (pj_intent j) = (if pj_status j = Job_succeeded then 1 else 0)"
proof -
  have "pj_intent j \<in> set (paper_intents db) \<longleftrightarrow> pj_status j = Job_succeeded"
  proof
    assume "pj_intent j \<in> set (paper_intents db)"
    then obtain j' where "j' \<in> set (db_jobs db)" "pj_status j' = Job_succeeded" "pj_intent j' = pj_intent j"
      using ok by (auto simp: execution_ok_def succeeded_intents_def)
    moreover have "distinct (map pj_intent (db_jobs db))" using ok by (simp add: execution_ok_def jobs_ok_def)
    ultimately show "pj_status j = Job_succeeded" using rows_update_id [of pj_intent "db_jobs db" j j'] j by simp
  next
    assume "pj_status j = Job_succeeded"
    then show "pj_intent j \<in> set (paper_intents db)" using ok j by (auto simp: execution_ok_def succeeded_intents_def)
  qed
  moreover have "distinct (paper_intents db)" using ok by (simp add: execution_ok_def)
  ultimately show ?thesis by (simp add: count_list_distinct)
qed

text \<open>C1. An order intent is executed on paper exactly once. From any initial database and along any
  interleaving of claims, completions, failures, evaluations and reconciliations, a job that succeeded has
  exactly one paper order of its intent and a job that did not has none, every paper order carries exactly one
  simulated fill, in the order they were made, and no two jobs share an intent.\<close>

theorem exactly_once_paper_execution:
  assumes "initial_db db0" "portfolio_step\<^sup>*\<^sup>* db0 db"
  shows "(\<forall>j\<in>set (db_jobs db). count_list (paper_intents db) (pj_intent j) = (if pj_status j = Job_succeeded then 1 else 0)) \<and>
    simulated_orders db = paper_orders db \<and> distinct (map pj_intent (db_jobs db))"
proof -
  have ok: "execution_ok db" using execution_ok_reachable [OF assms(2) execution_ok_initial [OF assms(1)]] .
  then show ?thesis using succeeded_count [OF ok] by (auto simp: execution_ok_def jobs_ok_def)
qed

section \<open>Leases\<close>

definition job_generation :: "portfolio_db \<Rightarrow> nat \<Rightarrow> nat option" where
  "job_generation db k = map_option pj_generation (row_by pj_id k (db_jobs db))"

definition finishes_job :: "portfolio_db \<Rightarrow> nat \<Rightarrow> nat \<Rightarrow> bool" where
  "finishes_job db k g \<longleftrightarrow>
     (\<exists>now upd worker price filled occurred knowledge evidence r.
        complete_claimed_paper_execution_job db now upd k worker g price filled occurred knowledge evidence = Inr r) \<or>
     (\<exists>now upd worker code message r. fail_claimed_paper_execution_job db now upd k worker g code message = Inr r)"

lemma generation_update:
  assumes "job_generation db k = Some g" "db_jobs db' = rows_update P f (db_jobs db)"
    and "\<And>j. pj_id (f j) = pj_id j" "\<And>j. pj_generation j \<le> pj_generation (f j)"
  shows "\<exists>h. job_generation db' k = Some h \<and> g \<le> h"
proof -
  obtain j where j: "row_by pj_id k (db_jobs db) = Some j" "g = pj_generation j"
    using assms(1) by (auto simp: job_generation_def)
  have "job_generation db' k = Some (pj_generation (if P j then f j else j))"
    by (simp add: job_generation_def assms(2) row_by_update [of pj_id f, OF assms(3)] j)
  then show ?thesis using assms(4) j(2) by auto
qed

lemma generation_step:
  assumes "portfolio_step db db'" "job_generation db k = Some g"
  shows "\<exists>h. job_generation db' k = Some h \<and> g \<le> h"
proof -
  obtain j where j: "row_by pj_id k (db_jobs db) = Some j" "g = pj_generation j"
    using assms(2) by (auto simp: job_generation_def)
  note gen = generation_update [OF assms(2)]
  from assms(1) show ?thesis
  proof (cases rule: portfolio_step.cases)
    case (claim worker secs now upd locked r)
    then show ?thesis
    proof (cases rule: claim_cases)
      case (leased c w)
      have "db_jobs db' = rows_update (\<lambda>j. pj_id j = pj_id c \<and> pj_generation j = pj_generation c \<and>
         pj_attempts j < pj_max_attempts j) (lease_job w secs upd) (db_jobs db)" by (simp add: leased(4))
      then show ?thesis by (rule gen) (simp_all add: lease_job_def)
    qed (use assms(2) in simp)
  next
    case (complete now upd k' worker g' price filled occurred knowledge evidence s)
    then show ?thesis
    proof (cases rule: complete_cases)
      case (filled c w i b p q db1 db2 db3)
      have "db_jobs db3 = db_jobs db" by (rule complete_filled_tables [OF filled(5-7)]) simp
      then have "db_jobs db' = rows_update (\<lambda>j. pj_id j = k') (succeed_job upd) (db_jobs db)"
        by (simp add: filled(8) update_job_def set_intent_status_def)
      then show ?thesis by (rule gen) (simp_all add: succeed_job_def)
    next
      case (deferred c w i b p)
      then have "db_jobs db' = rows_update (\<lambda>j. pj_id j = k') (defer_job upd) (db_jobs db)" by (simp add: update_job_def)
      then show ?thesis by (rule gen) (simp_all add: defer_job_def)
    qed
  next
    case (fail now upd k' worker g' code message s)
    show ?thesis
    proof (rule fail_cases [OF fail])
      fix c w st e m
      assume "db' = update_job k' (fail_job st e m upd) db"
      then have "db_jobs db' = rows_update (\<lambda>j. pj_id j = k') (fail_job st e m upd) (db_jobs db)" by (simp add: update_job_def)
      then show ?thesis by (rule gen) (simp_all add: fail_job_def)
    qed
  next
    case (evaluate worker locked upd d)
    then show ?thesis
      by (cases rule: evaluate_cases)
         (auto simp: job_generation_def Let_def enqueue_paper_job_def row_by_append j)
  next
    case (reconcile now k' run_key actor reason observed fills evidence summary)
    show ?thesis
    proof (rule reconcile_exchange_order_cases [OF reconcile])
      fix key actor' run_reason observed' ordered h run
      assume "reconcile_exchange_order_in_connection db now k' key actor' run_reason observed' ordered evidence h = Inr (run, db')"
      then have "db_jobs db' = db_jobs db"
        by (cases rule: reconcile_cases) (auto simp: set_intent_status_def update_order_def dest: post_fills_frame)
      then show ?thesis using j by (simp add: job_generation_def)
    qed
  qed (use j in \<open>auto simp: job_generation_def\<close>)
qed

lemma finishes_current:
  assumes ok: "execution_ok db" and "finishes_job db k g"
  shows "job_generation db k = Some g"
proof -
  obtain now w c where "locked_claimed_paper_job db now k w g = Inr c"
    using assms(2) unfolding finishes_job_def
  proof (elim disjE exE)
    fix now upd worker price filled occurred knowledge evidence r
    assume "complete_claimed_paper_execution_job db now upd k worker g price filled occurred knowledge evidence = Inr r"
    then have "complete_claimed_paper_execution_job db now upd k worker g price filled occurred knowledge evidence =
        Inr (fst r, snd r)" by simp
    then show thesis by (cases rule: complete_cases) (use that in blast)+
  next
    fix now upd worker code message r
    assume "fail_claimed_paper_execution_job db now upd k worker g code message = Inr r"
    then have "fail_claimed_paper_execution_job db now upd k worker g code message = Inr (fst r, snd r)" by simp
    then show thesis by (rule fail_cases) (use that in blast)
  qed
  then have "c \<in> set (db_jobs db)" "pj_id c = k" "pj_generation c = g" using locked_claimed_paper_job_Inr by auto
  then show ?thesis
    using row_by_distinct [of pj_id "db_jobs db" c] ok by (auto simp: job_generation_def execution_ok_def jobs_ok_def)
qed

interpretation paper_lease: lease_protocol portfolio_step execution_ok job_generation finishes_job
  by unfold_locales (auto intro: execution_ok_step generation_step finishes_current)

text \<open>C3. A worker whose lease was taken over is fenced off for good: once a job carries a higher generation,
  every later attempt to complete or fail it under the old generation is refused and changes nothing,
  whatever steps happen in between.\<close>

theorem stale_lease_fenced:
  assumes "initial_db db0" "portfolio_step\<^sup>*\<^sup>* db0 db" "portfolio_step\<^sup>*\<^sup>* db db'"
    and "job_generation db k = Some g" "h < g"
  shows "(\<exists>e. complete_claimed_paper_execution_job db' now upd k worker h price filled occurred knowledge evidence = Inl e) \<and>
    (\<exists>e. fail_claimed_paper_execution_job db' now upd k worker h code message = Inl e)"
proof -
  have "execution_ok db" by (rule execution_ok_reachable [OF assms(2) execution_ok_initial [OF assms(1)]])
  then have "\<not> finishes_job db' k h" using paper_lease.stale_fenced assms(3-5) by blast
  then show ?thesis unfolding finishes_job_def by (metis sum.exhaust)
qed

section \<open>Holdings never go negative\<close>

lemma positions_step:
  assumes "portfolio_step db db'" and ok: "positions_ok db"
  shows "positions_ok db'"
  using assms(1)
proof (cases rule: portfolio_step.cases)
  case (claim worker secs now upd locked r)
  then show ?thesis using ok by (cases rule: claim_cases) (auto simp: positions_ok_def)
next
  case (complete now upd k worker g price filled occurred knowledge evidence s)
  then show ?thesis
  proof (cases rule: complete_cases)
    case (filled c w i b p q db1 db2 db3)
    have db1: "db_positions db1 = db_positions db"
      using filled(5) by (auto simp: insert_paper_order_def Let_def split: if_splits)
    have "db_positions db2 = db_positions db1" by (rule insert_fill_cases [OF filled(6)]) simp
    then have "positions_ok db2" using ok db1 by (simp add: positions_ok_def)
    moreover have "0 < dec_val q" by (rule insert_fill_cases [OF filled(6)]) (blast intro: numeric_pos)
    ultimately have "positions_ok db3" by (intro upsert_positions_ok [OF filled(7)]) simp_all
    then show ?thesis by (simp add: filled(8) positions_ok_def update_job_def set_intent_status_def)
  qed (use ok in \<open>auto simp: positions_ok_def update_job_def\<close>)
next
  case (fail now upd k worker g code message s)
  show ?thesis by (rule fail_cases [OF fail]) (use ok in \<open>auto simp: positions_ok_def update_job_def\<close>)
next
  case (evaluate worker locked upd d)
  then show ?thesis using ok by (cases rule: evaluate_cases) (auto simp: positions_ok_def Let_def enqueue_paper_job_def)
next
  case (reconcile now k run_key actor reason observed fills evidence summary)
  show ?thesis
  proof (rule reconcile_exchange_order_cases [OF reconcile])
    fix key actor' run_reason observed' ordered h run
    assume "reconcile_exchange_order_in_connection db now k key actor' run_reason observed' ordered evidence h = Inr (run, db')"
    then show ?thesis
    proof (cases rule: reconcile_cases)
      case (success r i b p db1)
      have "positions_ok db1" using success(8) ok by (rule post_fills_positions)
      then show ?thesis by (simp add: success(9) positions_ok_def update_order_def set_intent_status_def)
    qed (use ok in \<open>auto simp: positions_ok_def update_order_def set_intent_status_def\<close>)
  qed
qed (use ok in \<open>auto simp: positions_ok_def\<close>)

text \<open>C4. No sequence of steps drives a holding below zero: in every state reachable from an initial
  database each position projection has a quantity of at least zero with eighteen decimals, so a sell that
  exceeds the holding never reaches the table.\<close>

theorem positions_never_negative:
  assumes "initial_db db0" "portfolio_step\<^sup>*\<^sup>* db0 db" "r \<in> set (db_positions db)"
  shows "0 \<le> dec_val (pp_quantity r) \<and> on_grid (- 18) (dec_val (pp_quantity r))"
proof -
  have "positions_ok db0" using assms(1) by (simp add: initial_db_def positions_ok_def)
  with assms(2) have "positions_ok db" by (induction rule: rtranclp_induct) (auto intro: positions_step)
  then show ?thesis using assms(3) by (simp add: positions_ok_def)
qed

section \<open>Kill switches stop execution\<close>

lemma claim_response_intent:
  assumes ok: "execution_ok db" and claim: "claim_next_paper_execution_job db worker secs now upd locked = Inr (Some r, db')"
  shows "\<exists>c\<in>set (db_jobs db). job_claimable db now c \<and> js_intent r = pj_intent c \<and> js_job r = pj_id c \<and>
    pj_attempts c < pj_max_attempts c \<and> js_generation r = pj_generation c + 1"
  using claim
proof (cases rule: claim_cases)
  case (leased c w)
  note c = claim_candidate_Some [OF leased(1)]
  have distinct: "distinct (map pj_id (db_jobs db))" using ok by (simp add: execution_ok_def jobs_ok_def)
  let ?hit = "\<lambda>j. pj_id j = pj_id c \<and> pj_generation j = pj_generation c \<and> pj_attempts j < pj_max_attempts j"
  have hit: "?hit c" using leased(3) rows_update_id [OF distinct c(1)] by blast
  have "row_by pj_id (pj_id c) (db_jobs db') = map_option (\<lambda>j. if ?hit j then lease_job w secs upd j else j)
      (row_by pj_id (pj_id c) (db_jobs db))"
  proof -
    have "db_jobs db' = rows_update ?hit (lease_job w secs upd) (db_jobs db)" by (simp add: leased(4))
    then show ?thesis by (simp only:) (rule row_by_update, simp add: lease_job_def)
  qed
  then have row: "row_by pj_id (pj_id c) (db_jobs db') = Some (lease_job w secs upd c)"
    using row_by_distinct [OF distinct c(1)] hit by simp
  have "paper_execution_job_response db' (pj_id c) = Some r" using leased(5) by simp
  then have "js_intent r = pj_intent c \<and> js_job r = pj_id c \<and> js_generation r = pj_generation c + 1"
    unfolding paper_execution_job_response_def row
    by (auto simp: lease_job_def paper_execution_job_summary_def job_summary.defs claim_response.defs split: option.splits)
  then show ?thesis using c hit by blast
qed simp

text \<open>C2. An armed kill switch in the global scope, the portfolio or the bot of an intent stops it everywhere:
  the risk worker rejects it and queues nothing, its job is not handed out, and a worker that already holds
  the job sees it deferred, without an order, a fill or a change of position.\<close>

theorem kill_switch_stops_execution:
  assumes ok: "execution_ok db"
    and i: "row_by oi_id k (db_intents db) = Some i" "intent_join db i = Some (b, p)"
    and armed: "list_ex (switch_armed db) (risk_scopes p (bi_id b) (oi_instrument i) False)"
  shows "(evaluate_next_order_intent_risk db worker locked upd = Inr (Some (k, d), db1) \<longrightarrow>
       rd_status d = Intent_risk_rejected \<and> db_jobs db1 = db_jobs db) \<and>
    (claim_next_paper_execution_job db worker secs now upd locked = Inr (Some r, db2) \<longrightarrow> js_intent r \<noteq> k) \<and>
    (complete_claimed_paper_execution_job db now upd job worker g price filled occurred knowledge evidence = Inr (s, db3)
       \<and> js_intent s = k \<longrightarrow>
       js_status s = Job_retry_wait \<and> db_orders db3 = db_orders db \<and> db_fills db3 = db_fills db \<and>
       db_positions db3 = db_positions db)"
proof (intro conjI impI)
  assume "evaluate_next_order_intent_risk db worker locked upd = Inr (Some (k, d), db1)"
  then have "rd_status d = Intent_risk_rejected \<and> db_jobs db1 = db_jobs db"
  proof (cases rule: evaluate_cases)
    case (decided j c q e es)
    have "j = i" using row_by_Some [OF i(1)] decided ok rows_update_id [of oi_id "db_intents db" i j] by (simp add: execution_ok_def)
    then have jc: "c = b" "q = p" "e = d" using decided i(2) by auto
    have "rd_status d \<noteq> Intent_approved"
      using approved_limits(1) [OF decided(4)] armed \<open>j = i\<close> jc by (auto simp: take3_scopes active_kill_switch_None)
    then have "rd_status d = Intent_risk_rejected" using decision_status [OF decided(4)] jc by auto
    with decided(6) jc show ?thesis by (simp add: Let_def)
  qed simp
  then show "rd_status d = Intent_risk_rejected" "db_jobs db1 = db_jobs db" by simp_all
next
  assume "claim_next_paper_execution_job db worker secs now upd locked = Inr (Some r, db2)"
  then obtain c where c: "job_claimable db now c" "js_intent r = pj_intent c" using claim_response_intent [OF ok] by blast
  then show "js_intent r \<noteq> k"
    using i armed by (auto simp: job_claimable_def risk_scopes_def)
next
  assume a: "complete_claimed_paper_execution_job db now upd job worker g price filled occurred knowledge evidence = Inr (s, db3)
       \<and> js_intent s = k"
  then have "complete_claimed_paper_execution_job db now upd job worker g price filled occurred knowledge evidence = Inr (s, db3)" ..
  then have "js_status s = Job_retry_wait \<and> db_orders db3 = db_orders db \<and> db_fills db3 = db_fills db \<and> db_positions db3 = db_positions db"
  proof (cases rule: complete_cases)
    case (deferred c w j c' q)
    then show ?thesis by (simp add: update_job_def paper_execution_job_summary_def defer_job_def)
  next
    case (filled c w j c' q x db1 db2 db3')
    have "pj_intent c = k" using a filled(9) by (simp add: paper_execution_job_summary_def succeed_job_def)
    then have "j = i" "c' = b" "q = p" using paper_intent_row_Inr [OF filled(2)] i by auto
    then show ?thesis using filled(3) armed by (simp add: active_kill_switch_None)
  qed
  then show "js_status s = Job_retry_wait" "db_orders db3 = db_orders db" "db_fills db3 = db_fills db"
    "db_positions db3 = db_positions db" by simp_all
qed

section \<open>Approved intents are within the limits\<close>


section \<open>A crashed job that used up its attempts blocks the queue\<close>


section \<open>The holdings are the sums of the fills\<close>

lemma intent_join_status: "intent_join db (i\<lparr>oi_status := st\<rparr>) = intent_join db i"
  by (simp add: intent_join_def)

lemma order_scope_status: "order_scope (set_intent_status k st db) = order_scope db"
proof -
  have "row_by oi_id i (rows_update (\<lambda>r. oi_id r = k) (\<lambda>r. r\<lparr>oi_status := st\<rparr>) (db_intents db)) =
      map_option (\<lambda>r. if oi_id r = k then r\<lparr>oi_status := st\<rparr> else r) (row_by oi_id i (db_intents db))" for i
    by (rule row_by_update) simp
  moreover have "intent_join (set_intent_status k st db) = intent_join db"
    by (simp add: intent_join_def set_intent_status_def fun_eq_iff cong: option.case_cong)
  ultimately have "intent_scope (set_intent_status k st db) = intent_scope db"
    by (auto simp: intent_scope_def set_intent_status_def fun_eq_iff intent_join_status split: option.splits)
  then show ?thesis by (simp add: order_scope_def set_intent_status_def fun_eq_iff cong: option.case_cong)
qed

lemma order_scope_update: "order_scope (update_order k st now db) = order_scope db"
proof -
  have "row_by eo_id i (rows_update (\<lambda>r. eo_id r = k) (\<lambda>r. r\<lparr>eo_status := st, eo_reconciled := Some now\<rparr>) (db_orders db)) =
      map_option (\<lambda>r. if eo_id r = k then r\<lparr>eo_status := st, eo_reconciled := Some now\<rparr> else r) (row_by eo_id i (db_orders db))" for i
    by (rule row_by_update) simp
  moreover have "intent_scope (update_order k st now db) = intent_scope db"
    by (simp add: intent_scope_def intent_join_def update_order_def fun_eq_iff cong: option.case_cong)
  ultimately show ?thesis by (auto simp: order_scope_def update_order_def fun_eq_iff split: option.splits)
qed

lemma order_scope_tables:
  "order_scope (db\<lparr>db_jobs := js\<rparr>) = order_scope db" "order_scope (db\<lparr>db_runs := rs\<rparr>) = order_scope db"
  "order_scope (db\<lparr>seq_runs := n\<rparr>) = order_scope db" "order_scope (db\<lparr>db_events := es\<rparr>) = order_scope db"
  by (simp_all add: order_scope_def intent_scope_def intent_join_def fun_eq_iff cong: option.case_cong)

lemma ledger_balanced_cong:
  assumes "order_scope db' = order_scope db" "db_fills db' = db_fills db" "db_positions db' = db_positions db"
  shows "ledger_balanced db' = ledger_balanced db" "positions_ok db' = positions_ok db"
  using assms by (simp_all add: ledger_balanced_def holding_def ledger_total_def position_row_def positions_ok_def)

text \<open>Rows of orders are numbered from the sequence and every fill belongs to one.\<close>

definition orders_ok :: "portfolio_db \<Rightarrow> bool" where
  "orders_ok db \<longleftrightarrow>
     (\<forall>k\<in>set (map eo_id (db_orders db)) \<union> set (map fi_order (db_fills db)). k < seq_orders db)"

definition ledger_ok :: "portfolio_db \<Rightarrow> bool" where
  "ledger_ok db \<longleftrightarrow> orders_ok db \<and> positions_ok db \<and> ledger_balanced db"

lemma ledger_ok_cong:
  assumes "order_scope db' = order_scope db" "db_fills db' = db_fills db" "db_positions db' = db_positions db"
    and "map eo_id (db_orders db') = map eo_id (db_orders db)" "seq_orders db' = seq_orders db"
  shows "ledger_ok db' = ledger_ok db"
  using assms ledger_balanced_cong [OF assms(1-3)] by (simp only: ledger_ok_def orders_ok_def)

lemma new_order_scope:
  assumes "orders_ok db" "eo_id r = seq_orders db"
  shows "order_scope (db\<lparr>db_orders := db_orders db @ [r], seq_orders := n\<rparr>) k =
    (if k = seq_orders db then intent_scope db (eo_intent r) else order_scope db k)"
proof -
  have "row_by eo_id (seq_orders db) (db_orders db) = None" using assms(1) by (auto simp: row_by_None orders_ok_def)
  moreover have "row_by eo_id k [r] = (if k = seq_orders db then Some r else None)" using assms(2) by (auto simp: row_by_def)
  moreover have "intent_scope (db\<lparr>db_orders := db_orders db @ [r], seq_orders := n\<rparr>) = intent_scope db"
    by (simp add: intent_scope_def intent_join_def fun_eq_iff cong: option.case_cong)
  ultimately show ?thesis by (auto simp: order_scope_def row_by_append split: option.splits)
qed

lemma sum_list_filter_le:
  "(\<And>x. x \<in> set xs \<Longrightarrow> 0 \<le> g x) \<Longrightarrow> sum_list (map g (filter P xs)) \<le> (sum_list (map g xs) :: rat)"
  by (induction xs) (auto simp: add_increasing)

text \<open>C23. Reconciling an order keeps every holding equal to the signed sum of the fills behind it, provided
  the observed quantities have at most eighteen decimals and keep the holding below ten billion.\<close>

theorem reconcile_keeps_ledger:
  assumes "reconcile_exchange_order db now k run_key actor_id reason observed_status fills evidence = Inr (summary, db')"
    and ok: "ledger_ok db" and exact: "\<forall>f\<in>set fills. exact_fill f"
    and bound: "\<forall>p i. holding db p i + sum_list (map fill_amount fills) < 10 ^ 10"
  shows "ledger_ok db'"
proof (rule reconcile_exchange_order_cases [OF assms(1)])
  fix key actor run_reason observed ordered h run
  assume args: "reconciliation_arguments k run_key actor_id reason observed_status fills evidence =
       Inr (key, actor, run_reason, observed, ordered, h)"
    and run: "reconcile_exchange_order_in_connection db now k key actor run_reason observed ordered evidence h = Inr (run, db')"
  have ids: "map eo_id (db_orders (update_order k st now d)) = map eo_id (db_orders d)" for st d
    by (simp add: update_order_def map_rows_update)
  have same: "ledger_ok (set_intent_status i st' (update_order k st now d)) = ledger_ok d" for i st st' d
    by (rule ledger_ok_cong)
       (simp_all only: order_scope_status order_scope_update, simp_all add: set_intent_status_def ids, simp_all add: update_order_def)
  have extra: "ledger_ok (d\<lparr>db_events := es\<rparr>) = ledger_ok d" "ledger_ok (d\<lparr>db_runs := rs, seq_runs := n\<rparr>) = ledger_ok d"
    for d es rs n
    by (rule ledger_ok_cong; simp add: order_scope_tables)+
  show ?thesis
    using run
  proof (cases rule: reconcile_cases)
    case (unknown i es)
    then show ?thesis using ok by (simp only: extra same)
  next
    case (mismatch es m)
    have "ledger_ok (db\<lparr>db_runs := db_runs db @ [run], seq_runs := seq_runs db + 1\<rparr>\<lparr>db_events := es\<rparr>)"
      using ok by (simp only: extra)
    then show ?thesis by (simp only: mismatch)
  next
    case (success r i b p db1)
    let ?new = "unposted (order_fills db k) ordered"
    have ord: "ordered = sort_key rf_fill_sequence fills" using arguments_fills [OF args] by simp
    have "order_scope db k = Some (p, oi_instrument i)"
      using success(7) by (auto simp: order_for_reconciliation_def order_scope_def intent_scope_def split: option.splits)
    moreover have "sum_list (map fill_amount ?new) \<le> sum_list (map fill_amount fills)"
    proof -
      have "sum_list (map fill_amount ?new) \<le> sum_list (map fill_amount ordered)"
        unfolding unposted_def using exact
        by (intro sum_list_filter_le) (auto simp: ord intro: exact_fill_amount)
      also have "\<dots> = sum_list (map fill_amount fills)"
        by (simp only: ord sum_mset_sum_list [symmetric] mset_map mset_sort)
      finally show ?thesis .
    qed
    then have "holding db p (oi_instrument i) + sum_list (map fill_amount ?new) < 10 ^ 10"
      using bound by (meson add_left_mono le_less_trans)
    moreover have "\<forall>f\<in>set ?new. exact_fill f" using exact by (auto simp: unposted_def ord)
    ultimately have "ledger_balanced db1 \<and> positions_ok db1"
      using post_fills_ledger [OF success(8)] ok by (simp add: ledger_ok_def)
    moreover obtain es ps where es: "list_all2 (posted_as k) ?new es"
      "db1 = db\<lparr>db_fills := db_fills db @ es, db_positions := ps, seq_fills := seq_fills db + length es\<rparr>"
      using post_fills_frame [OF success(8)] by blast
    have "fi_order e = k" if "e \<in> set es" for e
      using es(1) that by (induction rule: list_all2_induct) (auto simp: posted_as_def)
    moreover have "k \<in> set (map eo_id (db_orders db))"
      using success(7) by (auto simp: order_for_reconciliation_def dest: row_by_Some split: option.splits)
    ultimately have "ledger_ok db1" using ok es(2) by (auto simp: ledger_ok_def orders_ok_def)
    then show ?thesis unfolding success(9) by (simp only: extra same)
  qed (use ok in simp)
qed

text \<open>So does a paper fill.\<close>

theorem complete_keeps_ledger:
  assumes c: "complete_claimed_paper_execution_job db now upd k worker g price filled occurred knowledge evidence = Inr (s, db')"
    and ok: "ledger_ok db"
    and exact: "\<forall>i\<in>set (db_intents db). \<forall>q. paper_fill_quantity i price filled = Inr q \<longrightarrow>
      on_grid (- 18) (dec_val q) \<and> (\<forall>p n. holding db p n + dec_val q < 10 ^ 10)"
  shows "ledger_ok db'"
  using c
proof (cases rule: complete_cases)
  case (deferred c w i b p)
  have "ledger_ok (update_job k (defer_job upd) db) = ledger_ok db"
    by (rule ledger_ok_cong; simp add: update_job_def order_scope_tables)
  then show ?thesis using ok deferred(4) by simp
next
  case (filled c w i b p q db1 db2 db3)
  have i: "i \<in> set (db_intents db)" "row_by oi_id (oi_id i) (db_intents db) = Some i" "intent_join db i = Some (b, p)"
    using paper_intent_row_Inr [OF filled(2)] by auto
  let ?r = "paper_order_row (seq_orders db) (oi_id i) k g occurred"
  have db1: "db1 = db\<lparr>db_orders := db_orders db @ [?r], seq_orders := seq_orders db + 1\<rparr>"
    using filled(5) by (auto simp: insert_paper_order_def Let_def split: if_splits)
  have r: "eo_id ?r = seq_orders db" "eo_intent ?r = oi_id i" by (simp_all add: paper_order_row_def)
  have orders: "orders_ok db" "positions_ok db" "ledger_balanced db" using ok by (simp_all add: ledger_ok_def)
  note scope = new_order_scope [OF orders(1) r(1), where n = "seq_orders db + 1", folded db1]
  have hold: "holding db1 = holding db" "positions_ok db1"
    using orders(2) by (simp_all add: db1 holding_def position_row_def positions_ok_def fun_eq_iff)
  have "ledger_total db1 p' n = ledger_total db p' n" for p' n
  proof -
    have "fi_order f \<noteq> seq_orders db" if "f \<in> set (db_fills db)" for f using orders(1) that by (force simp: orders_ok_def)
    then have "filter (\<lambda>f. order_scope db1 (fi_order f) = Some (p', n)) (db_fills db) =
        filter (\<lambda>f. order_scope db (fi_order f) = Some (p', n)) (db_fills db)"
      by (intro filter_cong) (simp_all add: scope)
    then show ?thesis by (simp add: ledger_total_def db1)
  qed
  then have bal1: "ledger_balanced db1" using orders(3) by (simp add: ledger_balanced_def hold)
  have scope1: "order_scope db1 (seq_orders db) = Some (p, oi_instrument i)"
    using i by (simp add: scope r intent_scope_def)
  have q: "on_grid (- 18) (dec_val q)" "holding db1 p (oi_instrument i) + dec_val q < 10 ^ 10"
    using exact i(1) filled(4) by (auto simp: hold)
  have q0: "0 < dec_val q" by (rule insert_fill_cases [OF filled(6)]) (blast intro: numeric_pos)
  have "ledger_balanced db3" by (rule post_fill_balanced [OF filled(6,7) bal1 hold(2) scope1 q(1) q0 q(2)])
  moreover obtain f where f: "fi_order f = seq_orders db" "db2 = db1\<lparr>db_fills := db_fills db1 @ [f], seq_fills := seq_fills db1 + 1\<rparr>"
    by (rule insert_fill_cases [OF filled(6)]) blast
  have "positions_ok db2" using hold(2) by (simp add: f(2) positions_ok_def)
  then have "positions_ok db3" using q0 by (intro upsert_positions_ok [OF filled(7)]) simp_all
  moreover obtain ps where "db3 = db2\<lparr>db_positions := ps\<rparr>" by (rule upsert_row [OF filled(7)]) blast
  then have "db_orders db3 = db_orders db1" "seq_orders db3 = seq_orders db1" "db_fills db3 = db_fills db @ [f]"
    by (simp_all add: db1 f)
  then have "orders_ok db3" using orders(1) f(1) by (auto simp: orders_ok_def db1 r ball_Un intro: less_SucI)
  ultimately have "ledger_ok db3" by (simp add: ledger_ok_def)
  moreover have "ledger_ok (update_job k (succeed_job upd) (set_intent_status (oi_id i) Intent_paper_filled db3)) = ledger_ok db3"
    by (rule ledger_ok_cong)
       (simp_all only: update_job_def order_scope_tables order_scope_status, simp_all add: set_intent_status_def)
  ultimately show ?thesis using filled(8) by simp
qed

end
