(* ===== verification/Portfolio_Runs.thy ===== *)
theory Portfolio_Runs
  imports Portfolio_System
begin

text \<open>
  A concrete run of the paper trading system: an intent is evaluated, claimed and filled, a switch is armed
  in between, a job crashes on its last attempt, and a shadow order is reconciled. The run instantiates the
  properties of \<^verbatim>\<open>Portfolio_System\<close> and \<^verbatim>\<open>Order_Reconciliation\<close> and exhibits two defects of the code.
\<close>

section \<open>A run\<close>

definition example_intent :: order_intent where
  "example_intent =
     \<lparr>oi_id = 1, oi_instance = 1, oi_instrument = 1, oi_side = Buy_side, oi_order_type = ''market'',
      oi_quantity = Some (Dec False 1000 0), oi_notional = Some (Dec False 1 0), oi_limit_price = None,
      oi_status = Intent_created, oi_input_hash = '''', oi_policy_version = None, oi_risk_reason = None,
      oi_created = 0\<rparr>"

definition example_limit :: risk_limit where
  "example_limit =
     \<lparr>li_id = 1, li_scope = (''global'', ''global''), li_type = ''max_order_notional'', li_version = 1,
      li_value = Dec False 10 0, li_active = True\<rparr>"

definition example_db :: portfolio_db where
  "example_db =
     \<lparr>db_jobs = [], db_intents = [example_intent],
      db_instances = [\<lparr>bi_id = 1, bi_definition = 1, bi_stage = Stage_paper, bi_mode = Mode_paper\<rparr>],
      db_definitions = [\<lparr>bd_id = 1, bd_portfolio = 1\<rparr>], db_switches = [], db_limits = [example_limit],
      db_events = [], db_orders = [], db_fills = [], db_positions = [], db_runs = [], db_applications = [],
      db_portfolios = [], seq_jobs = 1, seq_orders = 1, seq_fills = 1, seq_runs = 1, seq_applications = 1,
      seq_portfolios = 1\<rparr>"

lemma example_names: "strip ''risk'' = ''risk''" "strip ''worker'' = ''worker''"
  by (simp_all add: strip_def is_space_def)

lemmas example_defs = example_db_def example_intent_def example_limit_def

definition example_job :: paper_job where
  "example_job = new_paper_job 1 1 0"

definition example_decision :: risk_decision where
  "example_decision =
     \<lparr>rd_status = Intent_approved, rd_event_type = ''policy_approved'', rd_severity = ''info'',
      rd_scope = (''bot'', nat_str 1), rd_policy_version = 1, rd_reason = ''risk approved for paper'',
      rd_notional = Some (Dec False 1 0),
      rd_evidence = [(''limitCount'', PyInt 1), (''executionMode'', PyStr ''paper'')]\<rparr>"

definition example_evaluated :: portfolio_db where
  "example_evaluated = example_db\<lparr>
     db_intents := [example_intent\<lparr>oi_status := Intent_approved, oi_policy_version := Some 1,
       oi_risk_reason := Some ''risk approved for paper''\<rparr>],
     db_events := [\<lparr>re_intent = 1, re_instance = 1, re_scope = (''bot'', nat_str 1), re_type = ''policy_approved'',
       re_severity = ''info'', re_fingerprint = ''risk-evaluation-v1:'' @ nat_str 1, re_policy_version = Some 1,
       re_evidence = evaluation_evidence ''risk'' example_intent example_decision\<rparr>],
     db_jobs := [example_job], seq_jobs := 2\<rparr>"

lemma example_evaluate:
  "evaluate_next_order_intent_risk example_db ''risk'' (\<lambda>_. False) 0 = Inr (Some (1, example_decision), example_evaluated)"
  by (simp add: evaluate_next_order_intent_risk_def store_non_blank_def example_names example_defs
    intent_evaluable_def intent_join_def row_by_def risk_scopes_def risk_decision_of_def active_risk_limits_def
    order_notional_def active_kill_switch_def latest_switch_def List.map_filter_simps store_positive_def dec_le_def dec_lt_def Let_def
    insert_risk_event_def enqueue_paper_job_def rows_update_def mode_str_def example_evaluated_def example_job_def example_decision_def)

definition example_claimed :: portfolio_db where
  "example_claimed = example_evaluated\<lparr>db_jobs := [lease_job ''worker'' 90 0 example_job]\<rparr>"

lemma example_claim:
  "\<exists>r. claim_next_paper_execution_job example_evaluated ''worker'' 90 0 0 (\<lambda>_. False) = Inr (Some r, example_claimed)"
  by (simp add: claim_next_paper_execution_job_def store_non_blank_def example_names claim_candidate_def job_claimable_def
    example_evaluated_def example_job_def new_paper_job_def example_defs job_due_def row_by_def intent_join_def switch_armed_def
    latest_switch_def rows_update_def lease_job_def Let_def example_claimed_def paper_execution_job_response_def)

definition example_order :: exchange_order where
  "example_order = paper_order_row 1 1 1 1 0"

definition example_fill :: order_fill where
  "example_fill =
     \<lparr>fi_id = 1, fi_order = 1, fi_sequence = 1, fi_source = ''paper_simulator'', fi_side = Buy_side,
      fi_quantity = Dec False 1000000000000000000000 (- 18), fi_price = Dec False 100000000000000000000 (- 18),
      fi_fee = Dec False 0 (- 18), fi_occurred = 0, fi_knowledge = 0, fi_evidence = []\<rparr>"

definition example_position :: position_projection where
  "example_position =
     \<lparr>pp_portfolio = 1, pp_instrument = 1, pp_quantity = Dec False 1000000000000000000000 (- 18),
      pp_average = Some (Dec False 100000000000000000000 (- 18)), pp_realized = Dec False 0 (- 18), pp_updated = 1,
      pp_source_fill = 1\<rparr>"

definition example_done :: portfolio_db where
  "example_done = example_claimed\<lparr>db_jobs := [succeed_job 1 (lease_job ''worker'' 90 0 example_job)],
     db_intents := map (\<lambda>i. i\<lparr>oi_status := Intent_paper_filled\<rparr>) (db_intents example_claimed),
     db_orders := [example_order], db_fills := [example_fill], db_positions := [example_position],
     seq_orders := 2, seq_fills := 2\<rparr>"

lemma numeric_whole: "n < 10 ^ 20 \<Longrightarrow> numeric_38_18 (Dec False n 0) = Inr (Dec False (n * 10 ^ 18) (- 18))"
proof -
  assume n: "n < 10 ^ 20"
  have "round_half_away (dec_val (Dec False n 0) * 10 ^ 18) = int n * 10 ^ 18"
    using round_half_away_int [of "int n * 10 ^ 18"] by simp
  moreover have "int n * 10 ^ 18 < 10 ^ 38" using n by simp
  ultimately show ?thesis by (simp add: numeric_38_18_def Let_def nat_mult_distrib nat_power_eq del: dec_val.simps)
qed

lemma example_complete:
  "complete_claimed_paper_execution_job example_claimed 1 1 1 ''worker'' 1 (Dec False 100 0) None 0 0 [] =
   Inr (paper_execution_job_summary (succeed_job 1 (lease_job ''worker'' 90 0 example_job)), example_done)"
  by (simp add: complete_claimed_paper_execution_job_def store_non_blank_def example_names locked_claimed_paper_job_def
    example_claimed_def example_evaluated_def example_job_def new_paper_job_def lease_job_def example_defs second_us_def
    paper_intent_row_def row_by_def intent_join_def active_kill_switch_def risk_scopes_def latest_switch_def List.map_filter_simps
    paper_fill_quantity_def store_positive_def dec_le_def insert_paper_order_def paper_order_row_def Let_def
    insert_fill_def numeric_whole dec_lt_def upsert_position_projection_def position_after_def position_row_def
    numeric_option_def update_job_def set_intent_status_def rows_update_def succeed_job_def paper_execution_job_summary_def
    example_done_def example_order_def example_fill_def example_position_def)

lemma example_paper_run: "portfolio_step example_db example_evaluated" "portfolio_step example_evaluated example_claimed"
  "portfolio_step example_claimed example_done"
  using portfolio_step.evaluate [OF example_evaluate] example_claim portfolio_step.claim
    portfolio_step.complete [OF example_complete] by blast+

lemma example_initial: "initial_db example_db"
  by (simp add: initial_db_def example_defs)

lemma example_reachable: "portfolio_step\<^sup>*\<^sup>* example_db example_claimed" "portfolio_step\<^sup>*\<^sup>* example_db example_done"
  using example_paper_run by (meson converse_rtranclp_into_rtranclp rtranclp.rtrancl_refl)+

text \<open>The limit on an order's notional does not bound what is executed. A market order that states both a
  quantity and a notional is judged by its notional, because it has no limit price, and filled by its
  quantity: under a limit of ten, an order of notional one is approved, executed on paper, and spends one
  hundred thousand.\<close>

theorem notional_limit_bypassed:
  "dec_val (li_value example_limit) = 10 \<and> db_limits example_db = [example_limit] \<and>
   evaluate_next_order_intent_risk example_db ''risk'' (\<lambda>_. False) 0 = Inr (Some (1, example_decision), example_evaluated) \<and>
   rd_status example_decision = Intent_approved \<and>
   (\<exists>r s. claim_next_paper_execution_job example_evaluated ''worker'' 90 0 0 (\<lambda>_. False) = Inr (Some r, example_claimed) \<and>
      complete_claimed_paper_execution_job example_claimed 1 1 1 ''worker'' 1 (Dec False 100 0) None 0 0 [] = Inr (s, example_done)) \<and>
   map (\<lambda>f. dec_val (fi_quantity f) * dec_val (fi_price f)) (db_fills example_done) = [100000]"
proof -
  have "map (\<lambda>f. dec_val (fi_quantity f) * dec_val (fi_price f)) (db_fills example_done) = [100000]"
    by (simp add: example_done_def example_fill_def power_int_minus)
  moreover have "dec_val (li_value example_limit) = 10" "db_limits example_db = [example_limit]" "rd_status example_decision = Intent_approved"
    by (simp_all add: example_limit_def example_db_def example_decision_def)
  ultimately show ?thesis using example_evaluate example_claim example_complete by blast
qed

theorem exactly_once_paper_execution_witness:
  "count_list (paper_intents example_done) 1 = 1 \<and> simulated_orders example_done = paper_orders example_done"
proof -
  have "db_jobs example_done = [succeed_job 1 (lease_job ''worker'' 90 0 example_job)]" by (simp add: example_done_def)
  then show ?thesis
    using exactly_once_paper_execution [OF example_initial example_reachable(2)]
    by (simp add: succeed_job_def lease_job_def example_job_def new_paper_job_def)
qed

theorem stale_lease_fenced_witness:
  "\<exists>e. complete_claimed_paper_execution_job example_done 2 2 1 ''worker'' 0 (Dec False 100 0) None 0 0 [] = Inl e"
proof -
  have "job_generation example_claimed 1 = Some 1"
    by (simp add: job_generation_def example_claimed_def lease_job_def example_job_def new_paper_job_def row_by_def)
  moreover have "portfolio_step\<^sup>*\<^sup>* example_claimed example_done" using example_paper_run(3) by blast
  ultimately show ?thesis
    by (intro stale_lease_fenced [THEN conjunct1, OF example_initial example_reachable(1)]) (assumption+, simp)
qed

theorem positions_never_negative_witness:
  "0 \<le> dec_val (pp_quantity example_position) \<and> on_grid (- 18) (dec_val (pp_quantity example_position))"
  using positions_never_negative [OF example_initial example_reachable(2), of example_position]
  by (simp add: example_done_def)


text \<open>A global switch is armed while the worker holds the job.\<close>

definition example_armed :: portfolio_db where
  "example_armed = example_claimed\<lparr>db_switches := [\<lparr>ks_id = 1, ks_scope = (''global'', ''global''), ks_armed = True, ks_sequence = 1\<rparr>]\<rparr>"

lemma example_armed_complete:
  "complete_claimed_paper_execution_job example_armed 1 1 1 ''worker'' 1 (Dec False 100 0) None 0 0 [] =
   Inr (paper_execution_job_summary (defer_job 1 (lease_job ''worker'' 90 0 example_job)),
     update_job 1 (defer_job 1) example_armed)"
  by (simp add: complete_claimed_paper_execution_job_def store_non_blank_def example_names locked_claimed_paper_job_def
    example_armed_def example_claimed_def example_evaluated_def example_job_def new_paper_job_def lease_job_def example_defs second_us_def
    paper_intent_row_def row_by_def intent_join_def active_kill_switch_def risk_scopes_def latest_switch_def List.map_filter_simps)

theorem kill_switch_stops_execution_witness:
  "js_status (paper_execution_job_summary (defer_job 1 (lease_job ''worker'' 90 0 example_job))) = Job_retry_wait \<and>
   db_fills (update_job 1 (defer_job 1) example_armed) = []"
proof -
  have "portfolio_step example_claimed example_armed" unfolding example_armed_def
    using portfolio_step.new_switch [of example_claimed] by (simp add: example_claimed_def example_evaluated_def example_db_def)
  then have ok: "execution_ok example_armed"
    using execution_ok_step execution_ok_reachable [OF example_reachable(1) execution_ok_initial [OF example_initial]] by blast
  let ?i = "example_intent\<lparr>oi_status := Intent_approved, oi_policy_version := Some 1, oi_risk_reason := Some ''risk approved for paper''\<rparr>"
  let ?b = "\<lparr>bi_id = 1, bi_definition = 1, bi_stage = Stage_paper, bi_mode = Mode_paper\<rparr>"
  have i: "row_by oi_id 1 (db_intents example_armed) = Some ?i" "intent_join example_armed ?i = Some (?b, 1)"
    by (simp_all add: example_armed_def example_claimed_def example_evaluated_def example_defs row_by_def intent_join_def)
  have armed: "list_ex (switch_armed example_armed) (risk_scopes 1 (bi_id ?b) (oi_instrument ?i) False)"
    by (simp add: risk_scopes_def switch_armed_def latest_switch_def example_armed_def)
  have "js_intent (paper_execution_job_summary (defer_job 1 (lease_job ''worker'' 90 0 example_job))) = 1"
    by (simp add: paper_execution_job_summary_def defer_job_def lease_job_def example_job_def new_paper_job_def)
  moreover have "db_fills example_armed = []" by (simp add: example_armed_def example_claimed_def example_evaluated_def example_db_def)
  ultimately show ?thesis
    using kill_switch_stops_execution [OF ok i armed] example_armed_complete by metis
qed

text \<open>A job that crashed on its third attempt, and another waiting behind it.\<close>

definition example_crashed :: paper_job where
  "example_crashed = (new_paper_job 1 1 0)\<lparr>pj_status := Job_running, pj_attempts := 3, pj_generation := 3,
     pj_owner := Some ''gone'', pj_expires := Some 90\<rparr>"

definition example_blocked :: portfolio_db where
  "example_blocked = example_evaluated\<lparr>
     db_intents := [example_intent\<lparr>oi_status := Intent_approved\<rparr>, example_intent\<lparr>oi_id := 2, oi_status := Intent_approved\<rparr>],
     db_jobs := [example_crashed, new_paper_job 2 2 5], seq_jobs := 3\<rparr>"


section \<open>A reconciliation\<close>

text \<open>A shadow order of the same intent, and the fill the exchange reports for it.\<close>

definition example_shadow :: portfolio_db where
  "example_shadow = example_evaluated\<lparr>
     db_orders := [\<lparr>eo_id = 1, eo_intent = 1, eo_mode = Mode_shadow, eo_key = ''shadow'', eo_status = ''wait'',
                    eo_submitted = None, eo_reconciled = None, eo_payload = []\<rparr>], seq_orders := 2\<rparr>"

definition example_observed :: "dec \<Rightarrow> recon_fill" where
  "example_observed fee =
     \<lparr>rf_fill_sequence = 1, rf_side = Buy_side, rf_filled_quantity = Fin (Dec False 400 0),
      rf_fill_price = Fin (Dec False 110 0), rf_fee_paid = Fin fee, rf_occurred_at = 3, rf_knowledge_at = 4,
      rf_evidence = []\<rparr>"

lemma example_arguments:
  assumes "strip key = key" "key \<noteq> []" "0 \<le> dec_val fee"
  obtains h where "reconciliation_arguments 1 (PyStr key) (PyStr ''ops'') (PyStr ''check'') (PyStr ''done'') [example_observed fee] [] =
    Inr (key, ''ops'', ''check'', ''done'', [example_observed fee], h)"
proof -
  have "strip ''ops'' = ''ops''" "strip ''check'' = ''check''" "strip ''done'' = ''done''"
    by (simp_all add: strip_def is_space_def)
  then show thesis
    using assms that by (simp add: reconciliation_arguments_def store_text_def store_non_blank_def observed_reconciliation_status_def
      OBSERVED_STATUSES_def reconciliation_fill_payload_def example_observed_def x_zero_def dec_lt_def store_hash_def
      reconciliation_hash_payload_def fill_hash_payload_def)
qed

definition example_reconciled :: "string \<Rightarrow> string \<Rightarrow> dec \<Rightarrow> portfolio_db" where
  "example_reconciled key h fee =
     (let f = \<lparr>fi_id = 1, fi_order = 1, fi_sequence = 1, fi_source = ''reconciliation'', fi_side = Buy_side,
               fi_quantity = Dec False 400000000000000000000 (- 18), fi_price = Dec False 110000000000000000000 (- 18),
               fi_fee = fee, fi_occurred = 3, fi_knowledge = 4, fi_evidence = []\<rparr>;
          p = \<lparr>pp_portfolio = 1, pp_instrument = 1, pp_quantity = Dec False 400000000000000000000 (- 18),
               pp_average = Some (Dec False 110000000000000000000 (- 18)), pp_realized = Dec False 0 (- 18),
               pp_updated = 5, pp_source_fill = 1\<rparr>
      in snd (insert_reconciliation_run
        (set_intent_status 1 Intent_reconciled (update_order 1 ''reconciled'' 5
          (example_shadow\<lparr>db_fills := [f], seq_fills := 2, db_positions := [p]\<rparr>)))
        5 1 key ''succeeded'' ''done'' 1 h ''ops'' ''check'' [(''insertedFillCount'', PyInt 1)]))"

lemmas example_shadow_defs = example_shadow_def example_evaluated_def example_defs

lemma example_reconcile:
  assumes fee: "numeric_38_18 fee = Inr stored" "0 \<le> dec_val stored"
  shows "\<exists>run. reconcile_exchange_order_in_connection example_shadow 5 1 key ''ops'' ''check'' ''done'' [example_observed fee] [] h =
    Inr (run, example_reconciled key h stored) \<and> rr_status run = ''succeeded'' \<and> rr_order run = 1"
proof -
  have order: "order_for_reconciliation example_shadow 1 =
      Inr (hd (db_orders example_shadow), hd (db_intents example_shadow), hd (db_instances example_shadow), 1)"
    by (simp add: order_for_reconciliation_def example_shadow_defs row_by_def intent_join_def)
  have none: "find_mismatch (order_fills example_shadow 1) [] [example_observed fee] = None"
    "unposted (order_fills example_shadow 1) [example_observed fee] = [example_observed fee]"
    by (simp_all add: order_fills_def unposted_def example_shadow_defs)
  have post: "post_observed_fill 1 5 1 1 example_shadow (example_observed fee) =
      Inr (example_shadow\<lparr>db_fills := db_fills (example_reconciled key h stored), seq_fills := 2,
         db_positions := db_positions (example_reconciled key h stored)\<rparr>)"
    using fee by (simp add: post_observed_fill_def example_observed_def x_fin_def insert_fill_def numeric_whole dec_lt_def dec_le_def
      example_shadow_defs upsert_position_projection_def position_row_def row_by_def position_after_def numeric_option_def
      example_reconciled_def insert_reconciliation_run_def set_intent_status_def update_order_def Let_def)
  have hd: "oi_instrument (hd (db_intents example_shadow)) = 1" "oi_id (hd (db_intents example_shadow)) = 1" "db_runs example_shadow = []"
    by (simp_all add: example_shadow_defs)
  show ?thesis
    by (simp add: reconcile_exchange_order_in_connection_def order none hd post del: One_nat_def find_mismatch.simps)
       (simp add: example_reconciled_def insert_reconciliation_run_def Let_def set_intent_status_def update_order_def)
qed

lemma example_reconcile_order:
  assumes "numeric_38_18 fee = Inr stored" "0 \<le> dec_val stored" "0 \<le> dec_val fee" "strip key = key" "key \<noteq> []"
  obtains h summary where
    "reconcile_exchange_order example_shadow 5 1 (PyStr key) (PyStr ''ops'') (PyStr ''check'') (PyStr ''done'') [example_observed fee] [] =
       Inr (summary, example_reconciled key h stored)" "dict_get summary ''status'' = PyStr ''succeeded''"
proof -
  obtain h where h: "reconciliation_arguments 1 (PyStr key) (PyStr ''ops'') (PyStr ''check'') (PyStr ''done'') [example_observed fee] [] =
    Inr (key, ''ops'', ''check'', ''done'', [example_observed fee], h)"
    by (rule example_arguments [OF assms(4,5,3)])
  obtain run where run: "reconcile_exchange_order_in_connection example_shadow 5 1 key ''ops'' ''check'' ''done'' [example_observed fee] [] h =
    Inr (run, example_reconciled key h stored)" "rr_status run = ''succeeded''" "rr_order run = 1"
    using example_reconcile [OF assms(1,2)] by blast
  have "commit_ok (example_reconciled key h stored) run"
    by (simp add: commit_ok_def run example_reconciled_def insert_reconciliation_run_def set_intent_status_def update_order_def
        rows_update_def row_by_def example_shadow_def Let_def)
  then have "reconcile_exchange_order example_shadow 5 1 (PyStr key) (PyStr ''ops'') (PyStr ''check'') (PyStr ''done'')
      [example_observed fee] [] = Inr (reconciliation_run_summary run, example_reconciled key h stored)"
    unfolding reconcile_exchange_order_def h using run(1) by (simp del: One_nat_def)
  then show thesis
    by (rule that) (simp add: run reconciliation_run_summary_def dict_get_def)
qed

lemma numeric_zero: "numeric_38_18 (Dec False 0 0) = Inr (Dec False 0 (- 18))"
  using numeric_whole [of 0] by simp

lemma example_key: "strip ''run'' = ''run''" "''run'' \<noteq> []"
  by (simp_all add: strip_def is_space_def)

theorem reconcile_idempotent_witness:
  "\<exists>db' summary. reconcile_exchange_order db' 9 1 (PyStr ''run'') (PyStr ''ops'') (PyStr ''check'') (PyStr ''done'')
     [example_observed (Dec False 0 0)] [] = Inr (summary, db') \<and> length (db_fills db') = 1"
proof -
  obtain h summary where r: "reconcile_exchange_order example_shadow 5 1 (PyStr ''run'') (PyStr ''ops'') (PyStr ''check'') (PyStr ''done'')
      [example_observed (Dec False 0 0)] [] = Inr (summary, example_reconciled ''run'' h (Dec False 0 (- 18)))"
    by (rule example_reconcile_order [OF numeric_zero _ _ example_key]) simp_all
  have "length (db_fills (example_reconciled ''run'' h (Dec False 0 (- 18)))) = 1"
    by (simp add: example_reconciled_def insert_reconciliation_run_def set_intent_status_def update_order_def Let_def)
  then show ?thesis using reconcile_idempotent [OF r, of 9] by blast
qed

theorem reconcile_posts_fills_witness:
  "\<exists>db'. \<exists>e\<in>set (order_fills db' 1). int (fi_sequence e) = 1"
proof -
  obtain h summary where r: "reconcile_exchange_order example_shadow 5 1 (PyStr ''run'') (PyStr ''ops'') (PyStr ''check'') (PyStr ''done'')
      [example_observed (Dec False 0 0)] [] = Inr (summary, example_reconciled ''run'' h (Dec False 0 (- 18)))"
    "dict_get summary ''status'' = PyStr ''succeeded''"
    by (rule example_reconcile_order [OF numeric_zero _ _ example_key]) simp_all
  have "db_runs (example_reconciled ''run'' h (Dec False 0 (- 18))) \<noteq> db_runs example_shadow"
    by (simp add: example_reconciled_def insert_reconciliation_run_def set_intent_status_def update_order_def Let_def)
  from reconcile_posts_fills [OF r(1) this]
  have "\<exists>e\<in>set (order_fills (example_reconciled ''run'' h (Dec False 0 (- 18))) 1).
      int (fi_sequence e) = rf_fill_sequence (example_observed (Dec False 0 0))"
    by (auto simp: r(2))
  then show ?thesis by (auto simp: example_observed_def)
qed

lemma example_ledger: "ledger_ok example_shadow" "ledger_ok example_claimed"
  by (simp_all add: ledger_ok_def orders_ok_def positions_ok_def ledger_balanced_def holding_def ledger_total_def position_row_def
      row_by_def example_claimed_def example_shadow_defs)

lemma grid_whole: "on_grid (- 18) (of_nat n)"
  unfolding on_grid_def by (intro exI [of _ "int n * 10 ^ 18"]) (simp add: power_int_minus)

theorem reconcile_keeps_ledger_witness: "\<exists>h. ledger_ok (example_reconciled ''run'' h (Dec False 0 (- 18)))"
proof -
  obtain h summary where r: "reconcile_exchange_order example_shadow 5 1 (PyStr ''run'') (PyStr ''ops'') (PyStr ''check'') (PyStr ''done'')
      [example_observed (Dec False 0 0)] [] = Inr (summary, example_reconciled ''run'' h (Dec False 0 (- 18)))"
    by (rule example_reconcile_order [OF numeric_zero _ _ example_key]) simp_all
  have "ledger_ok (example_reconciled ''run'' h (Dec False 0 (- 18)))"
    by (rule reconcile_keeps_ledger [OF r example_ledger(1)])
       (use grid_whole [of 400] in \<open>simp_all add: exact_fill_def fill_amount_def example_observed_def holding_def
          position_row_def row_by_def example_shadow_defs\<close>)
  then show ?thesis by blast
qed

theorem complete_keeps_ledger_witness: "ledger_ok example_done"
  by (rule complete_keeps_ledger [OF example_complete example_ledger(2)])
     (use grid_whole [of 1000] in \<open>simp add: paper_fill_quantity_def store_positive_def dec_le_def holding_def position_row_def
        row_by_def example_claimed_def example_evaluated_def example_defs\<close>)

text \<open>A fee below the resolution of the column is lost when it is stored, and the comparison of the next run
  is made with the unrounded observation: the order that was just reconciled is reported as a critical
  mismatch.\<close>

theorem reconciliation_rejects_own_fill:
  "\<exists>s1 db1 s2 db2.
     reconcile_exchange_order example_shadow 5 1 (PyStr ''first'') (PyStr ''ops'') (PyStr ''check'') (PyStr ''done'')
       [example_observed (Dec False 1 (- 19))] [] = Inr (s1, db1) \<and> dict_get s1 ''status'' = PyStr ''succeeded'' \<and>
     reconcile_exchange_order db1 6 1 (PyStr ''second'') (PyStr ''ops'') (PyStr ''check'') (PyStr ''done'')
       [example_observed (Dec False 1 (- 19))] [] = Inr (s2, db2) \<and> dict_get s2 ''status'' = PyStr ''mismatch''"
proof -
  let ?f = "example_observed (Dec False 1 (- 19))"
  have tiny: "numeric_38_18 (Dec False 1 (- 19)) = Inr (Dec False 0 (- 18))"
    by (simp add: numeric_38_18_def round_half_away_def power_int_minus Let_def)
  have pos: "0 \<le> dec_val (Dec False 1 (- 19))" by simp
  have k: "strip ''first'' = ''first''" "''first'' \<noteq> []" "strip ''second'' = ''second''" "''second'' \<noteq> []"
    by (simp_all add: strip_def is_space_def)
  obtain h s1 where r: "reconcile_exchange_order example_shadow 5 1 (PyStr ''first'') (PyStr ''ops'') (PyStr ''check'') (PyStr ''done'')
      [?f] [] = Inr (s1, example_reconciled ''first'' h (Dec False 0 (- 18)))" "dict_get s1 ''status'' = PyStr ''succeeded''"
    by (rule example_reconcile_order [OF tiny _ pos k(1,2)]) simp_all
  obtain h2 where h2: "reconciliation_arguments 1 (PyStr ''second'') (PyStr ''ops'') (PyStr ''check'') (PyStr ''done'') [?f] [] =
    Inr (''second'', ''ops'', ''check'', ''done'', [?f], h2)"
    by (rule example_arguments [OF k(3,4) pos])
  let ?db = "example_reconciled ''first'' h (Dec False 0 (- 18))"
  note unfold = example_reconciled_def insert_reconciliation_run_def set_intent_status_def update_order_def Let_def
  have order: "order_for_reconciliation ?db 1 = Inr (hd (db_orders ?db), hd (db_intents ?db), hd (db_instances ?db), 1)"
    by (simp add: unfold order_for_reconciliation_def row_by_def rows_update_def intent_join_def example_shadow_defs)
  have runs: "find (\<lambda>r. rr_order r = 1 \<and> rr_key r = ''second'') (db_runs ?db) = None"
    by (simp add: unfold example_shadow_defs)
  obtain m where m: "find_mismatch (order_fills ?db 1) [] [?f] = Some m"
    by (simp add: unfold order_fills_def same_fill_def x_eq_def dec_eq_def example_observed_def power_int_minus)
  obtain run db2 where run: "reconcile_exchange_order_in_connection ?db 6 1 ''second'' ''ops'' ''check'' ''done'' [?f] [] h2 = Inr (run, db2)"
    "rr_status run = ''mismatch''"
    by (simp add: reconcile_exchange_order_in_connection_def order runs m insert_reconciliation_run_def Let_def
      del: One_nat_def find_mismatch.simps)
  have "reconcile_exchange_order ?db 6 1 (PyStr ''second'') (PyStr ''ops'') (PyStr ''check'') (PyStr ''done'') [?f] [] =
      Inr (reconciliation_run_summary run, db2)"
    unfolding reconcile_exchange_order_def h2 using run by (simp add: commit_ok_def del: One_nat_def)
  moreover have "dict_get (reconciliation_run_summary run) ''status'' = PyStr ''mismatch''"
    by (simp add: run reconciliation_run_summary_def dict_get_def)
  ultimately show ?thesis using r by blast
qed

end
