(* ===== verification/Keyset_Pages.thy ===== *)
theory Keyset_Pages
  imports Prelude
begin

text \<open>
  Listing a table page by page, newest row first, the way the stores do it: the first call fixes a ceiling,
  the greatest identifier of the moment, and every cursor carries the ceiling and the last identifier
  delivered. The locale states what a listing owes its client; in it, following the cursors delivers every
  row that existed at the first call exactly once, whatever is appended meanwhile.
\<close>

definition keyset_bounds :: "('r \<Rightarrow> nat) \<Rightarrow> 'r list \<Rightarrow> (nat \<times> nat) option \<Rightarrow> nat \<times> nat" where
  "keyset_bounds key rows cursor =
     (case cursor of Some c \<Rightarrow> c
      | None \<Rightarrow> (Max (insert 0 (key ` set rows)), Max (insert 0 (key ` set rows)) + 1))"

definition keyset_page :: "('r \<Rightarrow> nat) \<Rightarrow> 'r list \<Rightarrow> nat \<Rightarrow> (nat \<times> nat) option \<Rightarrow> 'r list \<times> (nat \<times> nat) option" where
  "keyset_page key rows limit cursor =
     (case keyset_bounds key rows cursor of (ceil, last_id) \<Rightarrow>
        let found = take (limit + 1) (rev (sort_key key (filter (\<lambda>r. key r \<le> ceil \<and> key r < last_id) rows)));
            page = take limit found
        in (page, if limit < length found \<and> page \<noteq> [] then Some (ceil, key (last page)) else None))"

text \<open>A client that follows the cursor; each call sees the table of its own moment.\<close>

fun follow_pages ::
  "('db \<Rightarrow> nat \<Rightarrow> (nat \<times> nat) option \<Rightarrow> 'r list \<times> (nat \<times> nat) option) \<Rightarrow> 'db list \<Rightarrow> nat \<Rightarrow> (nat \<times> nat) option \<Rightarrow>
     'r list \<times> (nat \<times> nat) option" where
  "follow_pages list_page [] limit cursor = ([], cursor)"
| "follow_pages list_page (db # dbs) limit cursor =
     (case list_page db limit cursor of (page, next_cursor) \<Rightarrow>
        if next_cursor = None then (page, None)
        else case follow_pages list_page dbs limit next_cursor of (rows, end_cursor) \<Rightarrow> (page @ rows, end_cursor))"

section \<open>One page\<close>

lemma filter_keys_below:
  assumes "sorted_wrt (<) (map key rows)" "k < length rows"
  shows "filter (\<lambda>r. key r < (key (rows ! k) :: nat)) rows = take k rows"
proof -
  have cut: "rows = take k rows @ rows ! k # drop (Suc k) rows" using assms(2) by (rule id_take_nth_drop)
  have "sorted_wrt (<) (map key (take k rows @ rows ! k # drop (Suc k) rows))" using assms(1) cut by simp
  then have "\<forall>r\<in>set (take k rows). key r < key (rows ! k)" "\<forall>r\<in>set (drop (Suc k) rows). key (rows ! k) < key r"
    by (auto simp: sorted_wrt_append)
  then have "filter (\<lambda>r. key r < key (rows ! k)) (take k rows) = take k rows"
    "filter (\<lambda>r. key r < key (rows ! k)) (rows ! k # drop (Suc k) rows) = []"
    by (auto simp: filter_empty_conv)
  then show ?thesis using cut by (metis append_Nil2 filter_append)
qed

definition page_ceiling :: "('r \<Rightarrow> nat) \<Rightarrow> 'r list \<Rightarrow> nat" where
  "page_ceiling key rows = (if rows = [] then 0 else key (last rows))"

lemma page_ceiling_greatest:
  assumes "sorted_wrt (<) (map key rows)" "r \<in> set rows"
  shows "key r \<le> page_ceiling key rows"
proof -
  obtain xs x where "rows = xs @ [x]" using assms(2) by (cases rows rule: rev_cases) auto
  then show ?thesis using assms by (auto simp: page_ceiling_def sorted_wrt_append)
qed

lemma page_ceiling_Max:
  assumes "sorted_wrt (<) (map key rows)"
  shows "Max (insert 0 (key ` set rows)) = page_ceiling key rows"
proof (rule Max_eqI)
  show "page_ceiling key rows \<in> insert 0 (key ` set rows)" by (auto simp: page_ceiling_def)
qed (use page_ceiling_greatest [OF assms] in auto)

lemma rows_at_ceiling:
  assumes "sorted_wrt (<) (map key (rows @ newer))" "\<And>r. r \<in> set newer \<Longrightarrow> 0 < key r"
  shows "filter (\<lambda>r. key r \<le> page_ceiling key rows) (rows @ newer) = rows"
proof -
  have "\<forall>r\<in>set newer. \<not> key r \<le> page_ceiling key rows" using assms
    by (auto simp: page_ceiling_def sorted_wrt_append not_le)
  then have "filter (\<lambda>r. key r \<le> page_ceiling key rows) newer = []" by (simp add: filter_empty_conv)
  moreover have "filter (\<lambda>r. key r \<le> page_ceiling key rows) rows = rows"
    using page_ceiling_greatest [of key rows] assms(1) by (auto simp: sorted_wrt_append filter_id_conv)
  ultimately show ?thesis by simp
qed

lemma page_last:
  assumes "limit < k" "k \<le> length rows" "0 < limit"
  shows "last (take limit (rev (take k rows))) = rows ! (k - limit)"
proof -
  have "last (take limit (rev (take k rows))) = rev (take k rows) ! (limit - 1)"
    using assms by (subst last_conv_nth) auto
  then show ?thesis using assms by (simp add: rev_nth)
qed

definition cursor_at :: "('r \<Rightarrow> nat) \<Rightarrow> 'r list \<Rightarrow> nat \<Rightarrow> nat \<times> nat" where
  "cursor_at key rows k = (page_ceiling key rows, key (rows ! k))"

lemma keyset_page_at:
  assumes sorted: "sorted_wrt (<) (map key (rows @ newer))" and pos: "\<And>r. r \<in> set newer \<Longrightarrow> 0 < key r"
    and limit: "0 < limit"
    and at: "c = None \<and> newer = [] \<and> k = length rows \<or> c = Some (cursor_at key rows k) \<and> k < length rows"
  shows "keyset_page key (rows @ newer) limit c =
    (take limit (rev (take k rows)), if limit < k then Some (cursor_at key rows (k - limit)) else None)"
proof -
  define last_id where "last_id = (case c of None \<Rightarrow> page_ceiling key rows + 1 | Some c \<Rightarrow> snd c)"
  have sorted': "sorted_wrt (<) (map key rows)" using sorted by (simp add: sorted_wrt_append)
  have k: "k \<le> length rows" using at by auto
  have bound: "keyset_bounds key (rows @ newer) c = (page_ceiling key rows, last_id)"
    using at page_ceiling_Max [OF sorted'] by (auto simp: keyset_bounds_def last_id_def cursor_at_def)
  have "filter (\<lambda>r. key r < last_id) rows = take k rows"
    using at page_ceiling_greatest [OF sorted'] filter_keys_below [OF sorted', of k]
    by (auto simp: last_id_def cursor_at_def less_Suc_eq_le filter_id_conv)
  moreover have "filter (\<lambda>r. key r < last_id) (filter (\<lambda>r. key r \<le> page_ceiling key rows) (rows @ newer)) =
      filter (\<lambda>r. key r < last_id) rows"
    using rows_at_ceiling [OF sorted pos] by (rule arg_cong)
  ultimately have chosen: "filter (\<lambda>r. key r \<le> page_ceiling key rows \<and> key r < last_id) (rows @ newer) = take k rows"
    by (simp add: filter_filter conj_commute del: filter_append)
  have "sorted (map key (take k rows))"
    using sorted' by (metis sorted_wrt_take strict_sorted_imp_sorted take_map)
  then have in_order: "sort_key key (take k rows) = take k rows" by (rule sort_key_id_if_sorted)
  have empty: "take limit (rev (take k rows)) = [] \<longleftrightarrow> k = 0" using limit k by auto
  have "keyset_page key (rows @ newer) limit c =
    (let found = take (limit + 1) (rev (take k rows)); page = take limit found
     in (page, if limit < length found \<and> page \<noteq> [] then Some (page_ceiling key rows, key (last page)) else None))"
    unfolding keyset_page_def bound prod.case Let_def chosen in_order ..
  moreover have "take limit (take (limit + 1) (rev (take k rows))) = take limit (rev (take k rows))" by (simp add: min_def)
  moreover have "limit < length (take (limit + 1) (rev (take k rows))) \<longleftrightarrow> limit < k" using k by auto
  ultimately show ?thesis using empty page_last [OF _ k limit] limit k unfolding Let_def cursor_at_def by fastforce
qed

section \<open>All pages\<close>

locale keyset_listing =
  fixes key :: "'r \<Rightarrow> nat"
    and rows_of :: "'db \<Rightarrow> 'r list"
    and list_page :: "'db \<Rightarrow> nat \<Rightarrow> (nat \<times> nat) option \<Rightarrow> 'r list \<times> (nat \<times> nat) option"
    and ok :: "'db \<Rightarrow> bool"
    and extends :: "'db \<Rightarrow> 'db \<Rightarrow> bool"
  assumes page: "list_page db limit c = keyset_page key (rows_of db) limit c"
    and ascending: "ok db \<Longrightarrow> sorted_wrt (<) (map key (rows_of db))"
    and positive: "ok db \<Longrightarrow> r \<in> set (rows_of db) \<Longrightarrow> 0 < key r"
    and appended: "extends db db' \<Longrightarrow> \<exists>newer. rows_of db' = rows_of db @ newer"
begin

lemma later_page:
  assumes "ok db'" "rows_of db' = rows @ newer" "0 < limit"
    and "c = None \<and> newer = [] \<and> k = length rows \<or> c = Some (cursor_at key rows k) \<and> k < length rows"
  shows "list_page db' limit c =
    (take limit (rev (take k rows)), if limit < k then Some (cursor_at key rows (k - limit)) else None)"
  unfolding page assms(2)
proof (rule keyset_page_at)
  show "sorted_wrt (<) (map key (rows @ newer))" using ascending [OF assms(1)] assms(2) by simp
  show "\<And>r. r \<in> set newer \<Longrightarrow> 0 < key r" using positive [OF assms(1)] assms(2) by simp
qed (use assms in auto)

lemma pages_from:
  assumes "\<forall>db\<in>set dbs. ok db \<and> (\<exists>newer. rows_of db = rows @ newer)" "0 < limit" "k < length rows" "0 < k"
  shows "follow_pages list_page dbs limit (Some (cursor_at key rows k)) =
    (take (limit * length dbs) (rev (take k rows)),
      if limit * length dbs < k then Some (cursor_at key rows (k - limit * length dbs)) else None)"
  using assms
proof (induction dbs arbitrary: k)
  case (Cons db dbs)
  obtain newer where newer: "rows_of db = rows @ newer" using Cons.prems(1) by auto
  have first: "list_page db limit (Some (cursor_at key rows k)) =
    (take limit (rev (take k rows)), if limit < k then Some (cursor_at key rows (k - limit)) else None)"
    using Cons.prems newer by (intro later_page) auto
  show ?case
  proof (cases "limit < k")
    case True
    have rest: "follow_pages list_page dbs limit (Some (cursor_at key rows (k - limit))) =
      (take (limit * length dbs) (rev (take (k - limit) rows)),
        if limit * length dbs < k - limit then Some (cursor_at key rows (k - limit - limit * length dbs)) else None)"
      using Cons.prems True by (intro Cons.IH) auto
    have "take limit (rev (take k rows)) @ take (limit * length dbs) (rev (take (k - limit) rows)) =
        take (limit * length (db # dbs)) (rev (take k rows))"
      using True Cons.prems(3) by (simp add: take_add drop_rev min_def)
    then show ?thesis using first rest True by (simp add: less_diff_conv add.commute diff_diff_eq)
  qed (use first in simp)
qed simp

lemma pages_complete:
  assumes "ok db" "\<forall>db'\<in>set dbs. ok db' \<and> extends db db'" "0 < limit"
  shows "\<exists>c. follow_pages list_page (db # dbs) limit None =
      (take (limit * (1 + length dbs)) (rev (rows_of db)), c) \<and>
    (c = None \<longleftrightarrow> length (rows_of db) \<le> limit * (1 + length dbs))"
proof -
  let ?rows = "rows_of db"
  have first: "list_page db limit None =
    (take limit (rev (take (length ?rows) ?rows)),
      if limit < length ?rows then Some (cursor_at key ?rows (length ?rows - limit)) else None)"
    using assms by (intro later_page [where newer = "[]"]) auto
  show ?thesis
  proof (cases "limit < length ?rows")
    case True
    have rest: "follow_pages list_page dbs limit (Some (cursor_at key ?rows (length ?rows - limit))) =
      (take (limit * length dbs) (rev (take (length ?rows - limit) ?rows)),
        if limit * length dbs < length ?rows - limit
        then Some (cursor_at key ?rows (length ?rows - limit - limit * length dbs)) else None)"
      using assms True appended by (intro pages_from) auto
    have "take limit (rev ?rows) @ take (limit * length dbs) (rev (take (length ?rows - limit) ?rows)) =
        take (limit * (1 + length dbs)) (rev ?rows)"
      by (simp add: take_add drop_rev)
    then show ?thesis using first rest True by (simp add: less_diff_conv add.commute not_less)
  qed (use first in \<open>auto simp: trans_le_add1\<close>)
qed

end

end
