(* ===== verification/Portfolio_Commands.thy ===== *)
theory Portfolio_Commands
  imports Portfolio_Runs Live_Orders Keyset_Pages
begin

text \<open>
  The remaining commands of \<^verbatim>\<open>portfolio_bot_store.py\<close>: creating and listing portfolios and recording and
  applying live reconciliation applications, and the worker loops of \<^verbatim>\<open>paper_execution_worker.py\<close>
  and \<^verbatim>\<open>risk_evaluation_worker.py\<close>. A cursor is the mapping its text decodes to; the retry after a
  serialization failure disappears because a transaction is one atomic step.
\<close>

section \<open>Creating a portfolio\<close>

definition base_currency :: "py_value \<Rightarrow> store_error + string" where
  "base_currency v =
     res_bind (store_text v ''baseCurrency'') (\<lambda>c.
     if c \<in> {''KRW'', ''BTC'', ''USDT''} then Inr c else Inl (Value_error ''baseCurrency''))"

record portfolio_request =
  pq_request_id :: py_value
  pq_idempotency_key :: py_value
  pq_actor_id :: py_value
  pq_requested_at :: datetime
  pq_reason :: py_value
  pq_owner_id :: py_value
  pq_name :: py_value
  pq_base_currency :: py_value

definition create_portfolio :: "portfolio_db \<Rightarrow> int \<Rightarrow> portfolio_request \<Rightarrow> store_error + portfolio_row \<times> portfolio_db" where
  "create_portfolio db now q =
     res_bind (store_text (pq_request_id q) ''requestId'') (\<lambda>request_id.
     res_bind (store_text (pq_idempotency_key q) ''idempotencyKey'') (\<lambda>key.
     res_bind (store_text (pq_actor_id q) ''actorId'') (\<lambda>actor.
     res_bind (store_text (pq_reason q) ''reason'') (\<lambda>reason.
     res_bind (store_text (pq_owner_id q) ''ownerId'') (\<lambda>owner.
     res_bind (store_text (pq_name q) ''name'') (\<lambda>name.
     res_bind (base_currency (pq_base_currency q)) (\<lambda>currency.
     res_bind (store_hash
        [(''requestId'', PyStr request_id), (''idempotencyKey'', PyStr key), (''actorId'', PyStr actor),
         (''requestedAt'', PyStr (isoformat (pq_requested_at q))), (''reason'', PyStr reason),
         (''ownerId'', PyStr owner), (''name'', PyStr name), (''baseCurrency'', PyStr currency)]) (\<lambda>request_hash.
     case row_by po_key key (db_portfolios db) of
       Some row \<Rightarrow> if po_hash row \<noteq> request_hash then Inl Idempotency_conflict else Inr (row, db)
     | None \<Rightarrow>
         if (owner, name) \<in> set (map (\<lambda>r. (po_owner r, po_name r)) (db_portfolios db))
         then Inl (Value_error ''duplicate'')
         else
           let row = \<lparr>po_id = seq_portfolios db, po_owner = owner, po_name = name, po_currency = currency,
                      po_key = key, po_hash = request_hash, po_created = now, po_created_by = actor,
                      po_reason = reason, po_request = request_id, po_requested = pq_requested_at q\<rparr>
           in Inr (row, db\<lparr>db_portfolios := db_portfolios db @ [row], seq_portfolios := seq_portfolios db + 1\<rparr>)))))))))"

section \<open>Listing portfolios\<close>

record portfolio_cursor =
  pc_owner :: string
  pc_ceiling :: nat
  pc_last :: nat

definition owner_rows :: "portfolio_db \<Rightarrow> string \<Rightarrow> portfolio_row list" where
  "owner_rows db owner = filter (\<lambda>r. po_owner r = owner) (db_portfolios db)"

definition list_portfolios ::
  "portfolio_db \<Rightarrow> py_value \<Rightarrow> nat \<Rightarrow> portfolio_cursor option \<Rightarrow> store_error + portfolio_row list \<times> portfolio_cursor option" where
  "list_portfolios db owner_id limit cursor =
     res_bind (store_text owner_id ''ownerId'') (\<lambda>owner.
     if (case cursor of Some c \<Rightarrow> pc_owner c \<noteq> owner | None \<Rightarrow> False) then Inl Cursor_mismatch
     else
       case keyset_page po_id (owner_rows db owner) limit (map_option (\<lambda>c. (pc_ceiling c, pc_last c)) cursor) of
         (page, next_page) \<Rightarrow>
           Inr (page, map_option (\<lambda>(ceil, last_id). \<lparr>pc_owner = owner, pc_ceiling = ceil, pc_last = last_id\<rparr>) next_page))"

section \<open>Live reconciliation applications\<close>

definition must_be_false :: "bool \<Rightarrow> string \<Rightarrow> store_error + bool" where
  "must_be_false v field = (if v then Inl (Value_error field) else Inr False)"

definition live_application_payload :: "live_application \<Rightarrow> int \<Rightarrow> store_error + py_dict" where
  "live_application_payload a run_id =
     res_bind (store_non_blank (la_source a) ''source'') (\<lambda>source.
     res_bind (store_non_blank (la_source_endpoint a) ''sourceEndpoint'') (\<lambda>endpoint.
     res_bind (store_non_blank (la_observed_upbit_order_uuid a) ''observedUpbitOrderUuid'') (\<lambda>uuid.
     res_bind (store_text (opt_str (la_observed_upbit_identifier a)) ''observedUpbitIdentifier'') (\<lambda>identifier.
     res_bind (store_non_blank (la_observed_state a) ''observedState'') (\<lambda>state.
     res_bind (must_be_false (la_can_resubmit a) ''canResubmit'') (\<lambda>resubmit.
     res_bind (must_be_false (la_actual_request_sent a) ''actualRequestSent'') (\<lambda>sent.
     res_bind (must_be_false (la_actual_order_cancel_sent a) ''actualOrderCancelSent'') (\<lambda>cancelled.
     res_bind (store_text (la_actor_id a) ''actorId'') (\<lambda>actor.
     res_bind (store_text (la_reason a) ''reason'') (\<lambda>reason.
     res_bind (store_non_blank (la_request_id a) ''requestId'') (\<lambda>request_id.
     res_map (\<lambda>key.
       [(''exchangeAccountId'', PyInt (la_exchange_account_id a)), (''orderIntentId'', PyInt (la_order_intent_id a)),
        (''exchangeOrderId'', PyInt (la_exchange_order_id a)),
        (''liveExchangeOrderBindingId'', PyInt (la_live_exchange_order_binding_id a)),
        (''reconciliationRunId'', PyInt run_id), (''source'', PyStr source), (''sourceEndpoint'', PyStr endpoint),
        (''observedUpbitOrderUuid'', PyStr uuid), (''observedUpbitIdentifier'', PyStr identifier),
        (''observedState'', PyStr state), (''appliedAt'', PyStr (isoformat (la_applied_at a))),
        (''canResubmit'', PyBool resubmit), (''actualRequestSent'', PyBool sent),
        (''actualOrderCancelSent'', PyBool cancelled), (''evidence'', PyDict (la_application_evidence a)),
        (''actorId'', PyStr actor), (''reason'', PyStr reason), (''requestId'', PyStr request_id),
        (''idempotencyKey'', PyStr key)])
       (store_non_blank (la_idempotency_key a) ''idempotencyKey''))))))))))))"

definition dict_text :: "py_dict \<Rightarrow> string \<Rightarrow> string" where
  "dict_text d k = (case dict_get d k of PyStr s \<Rightarrow> s | _ \<Rightarrow> [])"

definition dict_nat :: "py_dict \<Rightarrow> string \<Rightarrow> nat" where
  "dict_nat d k = (case dict_get d k of PyInt i \<Rightarrow> nat i | _ \<Rightarrow> 0)"

definition record_application_in_connection ::
  "(portfolio_db \<Rightarrow> py_dict \<Rightarrow> bool) \<Rightarrow> portfolio_db \<Rightarrow> py_dict \<Rightarrow> store_error + reconciliation_application \<times> portfolio_db" where
  "record_application_in_connection admissible db payload =
     res_bind (store_hash payload) (\<lambda>request_hash.
     case row_by ra_key (dict_text payload ''idempotencyKey'') (db_applications db) of
       Some row \<Rightarrow> if ra_hash row \<noteq> request_hash then Inl Idempotency_conflict else Inr (row, db)
     | None \<Rightarrow>
         let row = \<lparr>ra_id = seq_applications db, ra_order = dict_nat payload ''exchangeOrderId'',
                    ra_run = dict_nat payload ''reconciliationRunId'', ra_request = dict_text payload ''requestId'',
                    ra_key = dict_text payload ''idempotencyKey'', ra_hash = request_hash, ra_payload = payload\<rparr>
         in if \<not> admissible db payload then Inl (Check_violation ''upbit_live_reconciliation_applications'')
            else if ra_run row \<in> set (map ra_run (db_applications db)) \<or>
                    ra_request row \<in> set (map ra_request (db_applications db))
            then Inl (Unique_violation ''upbit_live_reconciliation_applications'')
            else Inr (row, db\<lparr>db_applications := db_applications db @ [row],
                              seq_applications := seq_applications db + 1\<rparr>))"

definition record_upbit_live_reconciliation_application ::
  "(portfolio_db \<Rightarrow> py_dict \<Rightarrow> bool) \<Rightarrow> portfolio_db \<Rightarrow> live_application \<Rightarrow> int \<Rightarrow>
     store_error + reconciliation_application \<times> portfolio_db" where
  "record_upbit_live_reconciliation_application admissible db a run_id =
     res_bind (live_application_payload a run_id) (record_application_in_connection admissible db)"

definition apply_upbit_live_reconciliation_application ::
  "(portfolio_db \<Rightarrow> py_dict \<Rightarrow> bool) \<Rightarrow> int \<Rightarrow> portfolio_db \<Rightarrow> live_application \<Rightarrow> store_error + py_dict \<times> portfolio_db" where
  "apply_upbit_live_reconciliation_application admissible now db a =
     (let order_id = nat (la_exchange_order_id a) in
     res_bind (reconciliation_arguments order_id (la_run_key a) (la_actor_id a) (la_reason a)
         (PyStr (la_observed_status a)) (la_fills a) (la_reconciliation_evidence a))
       (\<lambda>(key, actor, run_reason, observed, ordered, request_hash).
     res_bind (reconcile_exchange_order_in_connection db now order_id key actor run_reason observed ordered
         (la_reconciliation_evidence a) request_hash) (\<lambda>(run, db1).
     if rr_status run \<noteq> ''succeeded'' then
       Inr (reconciliation_run_summary run @
          [(''liveReconciliationApplicationId'', PyNone), (''liveReconciliationApplicationStatus'', PyStr ''not_recorded'')], db1)
     else
       res_bind (live_application_payload a (int (rr_id run))) (\<lambda>payload.
       res_bind (record_application_in_connection admissible db1 payload) (\<lambda>(row, db2).
       if db_runs db2 = db_runs db \<or> commit_ok db2 run then
         Inr (reconciliation_run_summary run @
           [(''liveReconciliationApplicationId'', PyInt (int (ra_id row))),
            (''liveReconciliationApplicationStatus'', PyStr ''recorded'')], db2)
       else Inl (Check_violation ''reconciliation_runs''))))))"

section \<open>The workers\<close>

datatype run_result = Ran nat | Raised

record paper_fill =
  pf_price :: dec
  pf_quantity :: "dec option"
  pf_occurred :: int
  pf_knowledge :: int
  pf_evidence :: py_dict

text \<open>
  \<^verbatim>\<open>PaperExecutionWorker.run_once\<close>. The executor gives a fill or raises an exception with a name and a
  text; \<open>during\<close> and \<open>after\<close> are what other transactions do to the tables while the executor runs and
  before a failure is recorded, and the clock is read at every transaction.
\<close>

definition record_failure :: "portfolio_db \<Rightarrow> int \<Rightarrow> nat \<Rightarrow> string \<Rightarrow> nat \<Rightarrow> string \<Rightarrow> string \<Rightarrow> portfolio_db" where
  "record_failure db now job worker g name message =
     (case fail_claimed_paper_execution_job db now now job worker g name (if message = [] then name else message) of
        Inl _ \<Rightarrow> db | Inr (_, db') \<Rightarrow> db')"

definition paper_worker_run_once ::
  "(claim_response \<Rightarrow> (string \<times> string) + paper_fill) \<Rightarrow> (store_error \<Rightarrow> string \<times> string) \<Rightarrow>
     (portfolio_db \<Rightarrow> portfolio_db) \<Rightarrow> (portfolio_db \<Rightarrow> portfolio_db) \<Rightarrow> string \<Rightarrow> int \<times> int \<times> int \<Rightarrow> portfolio_db \<Rightarrow>
     run_result \<times> portfolio_db" where
  "paper_worker_run_once executor error_text during after worker clock db =
     (case clock of (t1, t2, t3) \<Rightarrow>
     (case claim_next_paper_execution_job db worker 90 t1 t1 (\<lambda>_. False) of
        Inl _ \<Rightarrow> (Raised, db)
      | Inr (None, db1) \<Rightarrow> (Ran 0, db1)
      | Inr (Some claim, db1) \<Rightarrow>
          (case executor claim of
             Inl (name, message) \<Rightarrow>
               if name \<in> {''PaperExecutionBlockedError'', ''PaperExecutionLeaseLostError''} then (Ran 0, during db1)
               else (Raised, record_failure (during db1) t3 (js_job claim) worker (js_generation claim) name message)
           | Inr fill \<Rightarrow>
               let db2 = during db1 in
               (case complete_claimed_paper_execution_job db2 t2 t2 (js_job claim) worker (js_generation claim)
                   (pf_price fill) (pf_quantity fill) (pf_occurred fill) (pf_knowledge fill) (pf_evidence fill) of
                  Inr (summary, db3) \<Rightarrow> (Ran (if js_status summary = Job_succeeded then 1 else 0), db3)
                | Inl Lease_lost \<Rightarrow> (Ran 0, db2)
                | Inl e \<Rightarrow>
                    (case error_text e of (name, message) \<Rightarrow>
                       (Raised, record_failure (after db2) t3 (js_job claim) worker (js_generation claim) name message))))))"

definition risk_worker_run_once :: "string \<Rightarrow> int \<Rightarrow> portfolio_db \<Rightarrow> run_result \<times> portfolio_db" where
  "risk_worker_run_once worker now db =
     (case evaluate_next_order_intent_risk db worker (\<lambda>_. False) now of
        Inl _ \<Rightarrow> (Raised, db) | Inr (None, db') \<Rightarrow> (Ran 0, db') | Inr (Some _, db') \<Rightarrow> (Ran 1, db'))"

section \<open>Portfolios are created once\<close>

definition portfolios_ok :: "portfolio_db \<Rightarrow> bool" where
  "portfolios_ok db \<longleftrightarrow>
     sorted_wrt (<) (map po_id (db_portfolios db)) \<and>
     (\<forall>r\<in>set (db_portfolios db). 0 < po_id r \<and> po_id r < seq_portfolios db) \<and> 0 < seq_portfolios db \<and>
     distinct (map po_key (db_portfolios db)) \<and>
     distinct (map (\<lambda>r. (po_owner r, po_name r)) (db_portfolios db))"

definition extends_portfolios :: "portfolio_db \<Rightarrow> portfolio_db \<Rightarrow> bool" where
  "extends_portfolios db db' \<longleftrightarrow> (\<exists>more. db_portfolios db' = db_portfolios db @ more)"

lemma create_portfolio_cases:
  assumes "create_portfolio db now q = Inr (row, db')"
  obtains "row_by po_key (po_key row) (db_portfolios db) = Some row" "db' = db"
  | "row_by po_key (po_key row) (db_portfolios db) = None" "po_id row = seq_portfolios db"
    "(po_owner row, po_name row) \<notin> set (map (\<lambda>r. (po_owner r, po_name r)) (db_portfolios db))"
    "db' = db\<lparr>db_portfolios := db_portfolios db @ [row], seq_portfolios := seq_portfolios db + 1\<rparr>"
  using assms row_by_Some unfolding create_portfolio_def res_bind_eq_Inr_iff
  by (fastforce simp: Let_def split: option.splits if_splits)

lemma create_portfolio_keeps:
  assumes "create_portfolio db now q = Inr (row, db')" "portfolios_ok db"
  shows "portfolios_ok db' \<and> extends_portfolios db db'"
  using assms(1)
proof (cases rule: create_portfolio_cases)
  case 1
  then show ?thesis using assms(2) by (simp add: extends_portfolios_def)
next
  case 2
  have "po_key row \<notin> po_key ` set (db_portfolios db)" using 2(1) by (simp add: row_by_None)
  then show ?thesis using assms(2) 2 unfolding portfolios_ok_def extends_portfolios_def
    by (auto simp: sorted_wrt_append less_Suc_eq)
qed

lemma create_portfolio_again:
  assumes "create_portfolio db now q = Inr (row, db1)" "portfolios_ok db2" "extends_portfolios db1 db2"
  shows "create_portfolio db2 later q = Inr (row, db2)"
proof -
  have stored: "row \<in> set (db_portfolios db1)"
    using assms(1) by (cases rule: create_portfolio_cases) (auto dest: row_by_Some)
  then have "row \<in> set (db_portfolios db2)" using assms(3) by (auto simp: extends_portfolios_def)
  then have found: "row_by po_key (po_key row) (db_portfolios db2) = Some row"
    using assms(2) by (intro row_by_distinct) (auto simp: portfolios_ok_def)
  show ?thesis using assms(1) found row_by_Some unfolding create_portfolio_def res_bind_eq_Inr_iff
    by (fastforce simp: Let_def split: option.splits if_splits)
qed

section \<open>Pagination is complete\<close>

interpretation portfolio_pages: keyset_listing po_id "\<lambda>db. owner_rows db owner"
    "\<lambda>db. keyset_page po_id (owner_rows db owner)" portfolios_ok extends_portfolios for owner
  by unfold_locales
     (auto simp: portfolios_ok_def owner_rows_def extends_portfolios_def sorted_wrt_map sorted_wrt_filter)

text \<open>A client that follows the cursor; each call sees the tables of its own moment.\<close>

fun read_pages ::
  "portfolio_db list \<Rightarrow> py_value \<Rightarrow> nat \<Rightarrow> portfolio_cursor option \<Rightarrow> store_error + portfolio_row list \<times> portfolio_cursor option" where
  "read_pages [] owner_id limit cursor = Inr ([], cursor)"
| "read_pages (db # dbs) owner_id limit cursor =
     res_bind (list_portfolios db owner_id limit cursor) (\<lambda>(page, next_cursor).
     if next_cursor = None then Inr (page, None)
     else res_map (\<lambda>(rows, end_cursor). (page @ rows, end_cursor)) (read_pages dbs owner_id limit next_cursor))"

definition owner_cursor :: "string \<Rightarrow> nat \<times> nat \<Rightarrow> portfolio_cursor" where
  "owner_cursor owner c = \<lparr>pc_owner = owner, pc_ceiling = fst c, pc_last = snd c\<rparr>"

lemma read_pages_follow:
  assumes "store_text owner_id ''ownerId'' = Inr owner"
  shows "read_pages dbs owner_id limit (map_option (owner_cursor owner) c) =
    Inr (map_prod id (map_option (owner_cursor owner))
      (follow_pages (\<lambda>db. keyset_page po_id (owner_rows db owner)) dbs limit c))"
proof (induction dbs arbitrary: c)
  case (Cons db dbs)
  have [simp]: "map_option (\<lambda>c. (pc_ceiling c, pc_last c)) (map_option (owner_cursor owner) c) = c"
    by (cases c) (simp_all add: owner_cursor_def)
  have [simp]: "pc_owner (owner_cursor owner x) = owner" for x by (simp add: owner_cursor_def)
  have own: "\<not> (case map_option (owner_cursor owner) c of Some c \<Rightarrow> pc_owner c \<noteq> owner | None \<Rightarrow> False)"
    by (cases c) simp_all
  obtain page n where page: "keyset_page po_id (owner_rows db owner) limit c = (page, n)" by fastforce
  then have "list_portfolios db owner_id limit (map_option (owner_cursor owner) c) =
      Inr (page, map_option (owner_cursor owner) n)"
    using assms own by (cases n) (simp_all add: list_portfolios_def owner_cursor_def split_def)
  then show ?case using page Cons.IH [of n]
    by (cases "follow_pages (\<lambda>db. keyset_page po_id (owner_rows db owner)) dbs limit n") (cases n, auto)
qed simp

text \<open>
  Following the cursor lists every portfolio of the owner that existed at the first call, newest first,
  each once, whatever is created between the calls: with enough calls the pages end and together are
  exactly those rows, and a prefix of them before that.
\<close>
theorem pages_are_complete:
  assumes "portfolios_ok db" "\<forall>db'\<in>set dbs. portfolios_ok db' \<and> extends_portfolios db db'"
    "store_text owner_id ''ownerId'' = Inr owner" "0 < limit"
  shows "\<exists>c. read_pages (db # dbs) owner_id limit None =
      Inr (take (limit * (1 + length dbs)) (rev (owner_rows db owner)), c) \<and>
    (c = None \<longleftrightarrow> length (owner_rows db owner) \<le> limit * (1 + length dbs))"
  using portfolio_pages.pages_complete [OF assms(1,2,4), where owner = owner]
    read_pages_follow [OF assms(3), of "db # dbs" limit None] by fastforce

definition example_portfolio :: "nat \<Rightarrow> portfolio_row" where
  "example_portfolio k = \<lparr>po_id = k, po_owner = ''owner'', po_name = nat_str k, po_currency = ''KRW'', po_key = nat_str k,
     po_hash = [], po_created = 0, po_created_by = ''owner'', po_reason = ''test'', po_request = nat_str k,
     po_requested = \<lparr>wall = 0, utcoffset = Some 0\<rparr>\<rparr>"

definition example_shelf :: "portfolio_row list \<Rightarrow> portfolio_db" where
  "example_shelf rows =
     \<lparr>db_jobs = [], db_intents = [], db_instances = [], db_definitions = [], db_switches = [], db_limits = [],
      db_events = [], db_orders = [], db_fills = [], db_positions = [], db_runs = [], db_applications = [],
      db_portfolios = rows, seq_jobs = 1, seq_orders = 1, seq_fills = 1, seq_runs = 1, seq_applications = 1,
      seq_portfolios = length rows + 1\<rparr>"

lemmas example_shelf_simps = example_shelf_def example_portfolio_def portfolios_ok_def extends_portfolios_def
  owner_rows_def

lemma example_owner: "store_text (PyStr ''owner'') ''ownerId'' = Inr ''owner''"
  by (simp add: store_text_def store_non_blank_def strip_def is_space_def)

lemma example_shelf_ok:
  "portfolios_ok (example_shelf [example_portfolio 1, example_portfolio 2])"
  "portfolios_ok (example_shelf [example_portfolio 1, example_portfolio 2, example_portfolio 3])"
  "extends_portfolios (example_shelf [example_portfolio 1, example_portfolio 2])
     (example_shelf [example_portfolio 1, example_portfolio 2, example_portfolio 3])"
  by (simp_all add: example_shelf_simps nat_str.simps [of "Suc 0"] nat_str.simps [of 2] nat_str.simps [of 3] digit_char_def)

lemma pages_are_complete_witness:
  "\<exists>c. read_pages [example_shelf [example_portfolio 1, example_portfolio 2],
       example_shelf [example_portfolio 1, example_portfolio 2, example_portfolio 3]] (PyStr ''owner'') 1 None =
     Inr ([example_portfolio 2, example_portfolio 1], c) \<and> c = None"
  using pages_are_complete [OF example_shelf_ok(1),
      of "[example_shelf [example_portfolio 1, example_portfolio 2, example_portfolio 3]]" "PyStr ''owner''" "''owner''" 1]
    example_shelf_ok example_owner by (simp add: example_shelf_def owner_rows_def example_portfolio_def)

section \<open>The workers only take steps of the system\<close>

text \<open>
  Creating a portfolio twice with the same request creates it once: the second call returns the row of the
  first and changes nothing, even after other portfolios were created, and the keys and the names of an
  owner stay distinct.
\<close>
theorem create_portfolio_idempotent:
  assumes "create_portfolio db now q = Inr (row, db1)" "portfolios_ok db"
  shows "portfolios_ok db1 \<and> row \<in> set (db_portfolios db1) \<and>
    (\<forall>db2 later. portfolios_ok db2 \<longrightarrow> extends_portfolios db1 db2 \<longrightarrow> create_portfolio db2 later q = Inr (row, db2))"
proof -
  have "row \<in> set (db_portfolios db1)"
    using assms(1) by (cases rule: create_portfolio_cases) (auto dest: row_by_Some)
  then show ?thesis using create_portfolio_keeps [OF assms] create_portfolio_again [OF assms(1)] by blast
qed

lemma record_failure_step: "portfolio_step\<^sup>*\<^sup>* db (record_failure db now job worker g name message)"
  unfolding record_failure_def by (auto split: sum.split intro: portfolio_step.fail)

text \<open>The claimed job, and only one fill, was executed between two tables.\<close>

definition executed_claim :: "claim_response \<Rightarrow> portfolio_db \<Rightarrow> portfolio_db \<Rightarrow> bool" where
  "executed_claim claim db db' \<longleftrightarrow>
     (\<exists>j\<in>set (db_jobs db). pj_id j = js_job claim \<and> pj_status j = Job_running \<and> pj_generation j = js_generation claim) \<and>
     (\<exists>j\<in>set (db_jobs db'). pj_id j = js_job claim) \<and>
     (\<forall>j\<in>set (db_jobs db'). pj_id j = js_job claim \<longrightarrow> pj_status j = Job_succeeded) \<and>
     (\<exists>f. db_fills db' = db_fills db @ [f])"

lemma completion_leaves_success:
  assumes "complete_claimed_paper_execution_job db now upd k worker g price filled occurred knowledge evidence = Inr (s, db')"
    "js_status s = Job_succeeded"
  shows "(\<exists>j\<in>set (db_jobs db). pj_id j = k \<and> pj_status j = Job_running \<and> pj_generation j = g) \<and>
    (\<exists>j\<in>set (db_jobs db'). pj_id j = k) \<and> (\<forall>j\<in>set (db_jobs db'). pj_id j = k \<longrightarrow> pj_status j = Job_succeeded) \<and>
    (\<exists>f. db_fills db' = db_fills db @ [f])"
  using assms(1)
proof (cases rule: complete_cases)
  case (deferred c worker i b p)
  then show ?thesis using assms(2) by (simp add: paper_execution_job_summary_def defer_job_def)
next
  case (filled c worker i b p q db1 db2 db3)
  obtain r f ps where "db3 = db\<lparr>db_orders := db_orders db @ [r], seq_orders := seq_orders db + 1,
      db_fills := db_fills db @ [f], seq_fills := seq_fills db + 1, db_positions := ps\<rparr>"
    by (rule complete_filled_tables [OF filled(5-7)])
  then have tables: "db_jobs db' = rows_update (\<lambda>j. pj_id j = k) (succeed_job upd) (db_jobs db)" "db_fills db' = db_fills db @ [f]"
    using filled(8) by (simp_all add: update_job_def set_intent_status_def)
  have c: "c \<in> set (db_jobs db)" "pj_id c = k" "pj_status c = Job_running" "pj_generation c = g"
    using locked_claimed_paper_job_Inr [OF filled(1)] by simp_all
  have stored: "succeed_job upd c \<in> set (rows_update (\<lambda>j. pj_id j = k) (succeed_job upd) (db_jobs db))"
    using c by (auto simp: rows_update_def image_iff intro!: bexI [of _ c])
  have same: "pj_id (succeed_job upd c) = k" using c by (simp add: succeed_job_def)
  have all: "\<forall>j\<in>set (rows_update (\<lambda>j. pj_id j = k) (succeed_job upd) (db_jobs db)). pj_id j = k \<longrightarrow> pj_status j = Job_succeeded"
  proof (intro ballI impI)
    fix j assume "j \<in> set (rows_update (\<lambda>j. pj_id j = k) (succeed_job upd) (db_jobs db))" "pj_id j = k"
    then obtain x where "j = (if pj_id x = k then succeed_job upd x else x)" "pj_id j = k" unfolding rows_update_def set_map by blast
    then show "pj_status j = Job_succeeded" by (simp add: succeed_job_def split: if_splits)
  qed
  show ?thesis unfolding tables
  proof (intro conjI)
    show "\<exists>j\<in>set (db_jobs db). pj_id j = k \<and> pj_status j = Job_running \<and> pj_generation j = g" using c by blast
    show "\<exists>j\<in>set (rows_update (\<lambda>j. pj_id j = k) (succeed_job upd) (db_jobs db)). pj_id j = k" using same stored by (rule bexI)
  qed (rule all, blast)
qed

lemma risk_worker_steps: "portfolio_step\<^sup>*\<^sup>* db (snd (risk_worker_run_once worker now db))"
  unfolding risk_worker_run_once_def by (auto split: sum.split option.split intro: portfolio_step.evaluate)

lemma paper_worker_steps:
  assumes during: "\<And>s. portfolio_step\<^sup>*\<^sup>* s (during s)" and after: "\<And>s. portfolio_step\<^sup>*\<^sup>* s (after s)"
    and run: "paper_worker_run_once executor error_text during after worker (t1, t2, t3) db = (r, db')"
  shows "portfolio_step\<^sup>*\<^sup>* db db' \<and> (r = Ran 1 \<longrightarrow>
    (\<exists>claim db1. claim_next_paper_execution_job db worker 90 t1 t1 (\<lambda>_. False) = Inr (Some claim, db1) \<and>
       executed_claim claim (during db1) db'))"
proof (cases "claim_next_paper_execution_job db worker 90 t1 t1 (\<lambda>_. False)")
  case (Inr claimed)
  obtain c db1 where c: "claimed = (c, db1)" by fastforce
  have claimed: "claim_next_paper_execution_job db worker 90 t1 t1 (\<lambda>_. False) = Inr (c, db1)" using Inr c by simp
  have claim: "portfolio_step\<^sup>*\<^sup>* db db1" using portfolio_step.claim [OF claimed] by blast
  note d = run [unfolded paper_worker_run_once_def prod.case claimed sum.case]
  show ?thesis
  proof (cases c)
    case (Some cl)
    have moved: "portfolio_step\<^sup>*\<^sup>* db (during db1)" "portfolio_step\<^sup>*\<^sup>* db (after (during db1))"
      using claim during after by (meson rtranclp_trans)+
    have failed: "portfolio_step\<^sup>*\<^sup>* db (record_failure s t3 j w g n m)" if "portfolio_step\<^sup>*\<^sup>* db s" for s j w g n m
      using that record_failure_step by (rule rtranclp_trans)
    show ?thesis
    proof (cases "executor cl")
      case (Inl e)
      then show ?thesis using d Some moved failed by (auto split: if_splits prod.splits)
    next
      case (Inr fill)
      let ?done = "complete_claimed_paper_execution_job (during db1) t2 t2 (js_job cl) worker (js_generation cl)
        (pf_price fill) (pf_quantity fill) (pf_occurred fill) (pf_knowledge fill) (pf_evidence fill)"
      show ?thesis
      proof (cases ?done)
        case (Inl e)
        then show ?thesis using d Some Inr moved failed by (cases e) (auto split: prod.splits)
      next
        case (Inr completed)
        obtain s db3 where s: "?done = Inr (s, db3)" using Inr by (cases completed) auto
        have "portfolio_step\<^sup>*\<^sup>* db db3" using moved(1) portfolio_step.complete [OF s] by (rule rtranclp.rtrancl_into_rtrancl)
        then show ?thesis using d Some \<open>executor cl = Inr fill\<close> s completion_leaves_success [OF s] claimed
          by (auto simp: executed_claim_def split: if_splits)
      qed
    qed
  qed (use d claim in auto)
qed (use run in \<open>auto simp: paper_worker_run_once_def\<close>)

text \<open>C25. 
  A pass of the paper worker or of the risk worker, whatever the executor answers or raises and whatever
  other transactions do to the tables meanwhile, is a sequence of steps of the system, so the invariants of the
  system hold for the workers. A pass that reports one execution claimed a job at its start, found this very job
  running under the generation of its claim when it completed it, left this job succeeded, and added exactly one fill.
\<close>
theorem workers_take_steps:
  assumes "\<And>s. portfolio_step\<^sup>*\<^sup>* s (during s)" "\<And>s. portfolio_step\<^sup>*\<^sup>* s (after s)"
    "paper_worker_run_once executor error_text during after worker (t1, t2, t3) db = (r, db')"
  shows "portfolio_step\<^sup>*\<^sup>* db db' \<and>
    (r = Ran 1 \<longrightarrow>
      (\<exists>claim db1. claim_next_paper_execution_job db worker 90 t1 t1 (\<lambda>_. False) = Inr (Some claim, db1) \<and>
        (\<exists>j\<in>set (db_jobs (during db1)). pj_id j = js_job claim \<and> pj_status j = Job_running \<and>
           pj_generation j = js_generation claim) \<and>
        (\<exists>j\<in>set (db_jobs db'). pj_id j = js_job claim) \<and>
        (\<forall>j\<in>set (db_jobs db'). pj_id j = js_job claim \<longrightarrow> pj_status j = Job_succeeded) \<and>
        (\<exists>f. db_fills db' = db_fills (during db1) @ [f]))) \<and>
    portfolio_step\<^sup>*\<^sup>* db (snd (risk_worker_run_once evaluator now db))"
  using paper_worker_steps [OF assms] risk_worker_steps by (simp add: executed_claim_def)

definition example_creation :: portfolio_request where
  "example_creation = \<lparr>pq_request_id = PyStr ''r'', pq_idempotency_key = PyStr ''k'', pq_actor_id = PyStr ''a'',
     pq_requested_at = \<lparr>wall = 0, utcoffset = Some 0\<rparr>, pq_reason = PyStr ''why'', pq_owner_id = PyStr ''owner'',
     pq_name = PyStr ''main'', pq_base_currency = PyStr ''KRW''\<rparr>"

lemma create_portfolio_idempotent_witness:
  "\<exists>row db1. row \<in> set (db_portfolios db1) \<and> po_owner row = ''owner'' \<and> portfolios_ok db1 \<and>
     create_portfolio db1 9 example_creation = Inr (row, db1)"
proof -
  obtain row db1 where created: "create_portfolio (example_shelf []) 5 example_creation = Inr (row, db1)" "po_owner row = ''owner''"
    by (simp add: create_portfolio_def example_creation_def example_shelf_def store_text_def store_non_blank_def strip_def
        is_space_def base_currency_def store_hash_def row_by_def Let_def)
  have "portfolios_ok (example_shelf [])" by (simp add: example_shelf_simps)
  note result = create_portfolio_idempotent [OF created(1) this]
  have "create_portfolio db1 9 example_creation = Inr (row, db1)" using result by (auto simp: extends_portfolios_def)
  then show ?thesis using result created(2) by blast
qed

lemma example_claimed_job:
  "\<exists>r. claim_next_paper_execution_job example_evaluated ''worker'' 90 0 0 (\<lambda>_. False) = Inr (Some r, example_claimed) \<and>
     js_job r = 1 \<and> js_generation r = 1"
proof -
  obtain r where r: "claim_next_paper_execution_job example_evaluated ''worker'' 90 0 0 (\<lambda>_. False) = Inr (Some r, example_claimed)"
    using example_claim by blast
  from r have "js_job r = 1 \<and> js_generation r = 1"
  proof (cases rule: claim_cases)
    case (leased c worker)
    have "c = example_job" using claim_candidate_Some(1) [OF leased(1)] by (simp add: example_evaluated_def)
    then have "paper_execution_job_response example_claimed 1 = Some r"
      using leased(5) by (simp add: example_job_def new_paper_job_def)
    then show ?thesis
      by (auto simp: paper_execution_job_response_def row_by_def example_claimed_def lease_job_def example_job_def
          new_paper_job_def paper_execution_job_summary_def job_summary.extend_def split: option.splits if_splits)
  qed simp
  then show ?thesis using r by blast
qed

lemma workers_take_steps_witness:
  "paper_worker_run_once (\<lambda>_. Inr \<lparr>pf_price = Dec False 100 0, pf_quantity = None, pf_occurred = 0, pf_knowledge = 0, pf_evidence = []\<rparr>)
     (\<lambda>_. (''E'', ''m'')) id id ''worker'' (0, 1, 2) example_evaluated = (Ran 1, example_done) \<and>
   portfolio_step\<^sup>*\<^sup>* example_evaluated example_done \<and>
   (\<exists>j\<in>set (db_jobs example_done). pj_id j = 1 \<and> pj_status j = Job_succeeded) \<and>
   (\<exists>f. db_fills example_done = db_fills example_claimed @ [f])"
proof -
  obtain r where r: "claim_next_paper_execution_job example_evaluated ''worker'' 90 0 0 (\<lambda>_. False) = Inr (Some r, example_claimed)"
      "js_job r = 1" "js_generation r = 1"
    using example_claimed_job by blast
  have run: "paper_worker_run_once (\<lambda>_. Inr \<lparr>pf_price = Dec False 100 0, pf_quantity = None, pf_occurred = 0, pf_knowledge = 0, pf_evidence = []\<rparr>)
     (\<lambda>_. (''E'', ''m'')) id id ''worker'' (0, 1, 2) example_evaluated = (Ran 1, example_done)"
    using r example_complete
    by (simp add: paper_worker_run_once_def paper_execution_job_summary_def succeed_job_def del: One_nat_def)
  from workers_take_steps [OF _ _ run, of "''w''" 7] show ?thesis using run r(1,2) by auto
qed

end
