(* ===== verification/Strategy_Store.thy ===== *)
theory Strategy_Store
  imports Strategy_Graph Portfolio_Tables Keyset_Pages Py_Float
begin

text \<open>
  The strategy store (\<^verbatim>\<open>strategy_store.py\<close>): definitions, the versions published under them and their
  graphs. An operation is one transaction on the tables; a request is recognised by its idempotency key and the
  hash of its canonical payload. Columns with a constant value (schema version, status) are left out, a cursor is the
  mapping its text decodes to, and \<open>row_created\<close> columns are the clock reading of the insert.

  A graph passes through a \<^verbatim>\<open>JSONB\<close> column and the check of its schema version.

  Shown: whatever is created and published, every version of the store holds the stored form of a graph that validated
  under the hash it is stored with, the versions of a strategy are numbered from one without gaps, a request repeated under its key
  returns the row of the first, and listing page by page is complete.
\<close>

section \<open>Tables\<close>

datatype strategy_store_error = Strategy_store store_error | Strategy_graph strategy_exception

definition lift_store :: "store_error + 'a \<Rightarrow> strategy_store_error + 'a" where
  "lift_store r = (case r of Inl e \<Rightarrow> Inl (Strategy_store e) | Inr x \<Rightarrow> Inr x)"

definition lift_graph :: "strategy_exception + 'a \<Rightarrow> strategy_store_error + 'a" where
  "lift_graph r = (case r of Inl e \<Rightarrow> Inl (Strategy_graph e) | Inr x \<Rightarrow> Inr x)"

lemma lift_Inr [simp]: "lift_store r = Inr x \<longleftrightarrow> r = Inr x" "lift_graph s = Inr x \<longleftrightarrow> s = Inr x"
  by (auto simp: lift_store_def lift_graph_def split: sum.splits)

lemma lift_apply [simp]: "lift_store (Inr x) = Inr x" "lift_graph (Inr x) = Inr x"
  by (simp_all add: lift_store_def lift_graph_def)

record strategy_definition =
  sd_id :: nat
  sd_owner :: string
  sd_name :: string
  sd_key :: string
  sd_request :: string
  sd_actor :: string
  sd_requested :: datetime
  sd_reason :: string
  sd_hash :: string
  sd_created :: int

record strategy_version =
  vn_id :: nat
  vn_strategy :: nat
  vn_version :: nat
  vn_graph_hash :: string
  vn_validation :: strategy_validation_result
  vn_key :: string
  vn_request :: string
  vn_actor :: string
  vn_requested :: datetime
  vn_reason :: string
  vn_hash :: string
  vn_created :: int
  vn_published :: datetime

record strategy_graph_row =
  gr_version :: nat
  gr_graph :: py_dict
  gr_hash :: string

record strategy_db =
  sb_definitions :: "strategy_definition list"
  sb_versions :: "strategy_version list"
  sb_graphs :: "strategy_graph_row list"
  seq_definitions :: nat
  seq_versions :: nat

section \<open>The JSONB column\<close>

text \<open>
  A JSON document written to a \<^verbatim>\<open>JSONB\<close> column and read back with \<^verbatim>\<open>json.loads\<close>. A number becomes a
  \<^verbatim>\<open>numeric\<close>, which keeps the digits after its point but neither its exponent nor the sign of a zero, so a float
  written with a positive exponent comes back as an integer; NaN, the infinities and the character zero are no JSON of the database; the keys
  of an object come back ordered by length and then by bytes. The bounds of \<^verbatim>\<open>numeric\<close> are left out.
\<close>

function jsonb_read :: "json \<Rightarrow> store_error + py_value" where
  "jsonb_read JNull = Inr PyNone"
| "jsonb_read (JBool b) = Inr (PyBool b)"
| "jsonb_read (JInt i) = Inr (PyInt i)"
| "jsonb_read (JFloat r) =
     (case parse_decimal r of
        Some (NFin (Dec s c e)) \<Rightarrow>
          Inr (if 0 \<le> e then PyInt ((if s then -1 else 1) * int c * 10 ^ nat e)
               else if c = 0 then PyFloat ''0.0'' (Some 0)
               else PyFloat r (to_float (dec_val (Dec s c e))))
      | _ \<Rightarrow> Inl (Value_error ''json''))"
| "jsonb_read (JStr s) = (if CHR 0x00 \<in> set s then Inl (Value_error ''json'') else Inr (PyStr s))"
| "jsonb_read (JArr xs) = res_map PyList (res_mapM jsonb_read xs)"
| "jsonb_read (JObj d) =
     (if \<exists>kv\<in>set d. CHR 0x00 \<in> set (fst kv) then Inl (Value_error ''json'')
      else res_map (\<lambda>kvs. PyDict (sort_key (\<lambda>kv. (length (fst kv), fst kv)) kvs))
             (res_mapM (\<lambda>kv. res_map (Pair (fst kv)) (jsonb_read (snd kv))) d))"
  by pat_completeness auto
termination
  by (relation "measure size") (auto intro: size_list_mem size_dict_mem)

text \<open>What is read back from a column written with \<^verbatim>\<open>Jsonb(dict(graph))\<close>.\<close>

definition jsonb_document :: "py_dict \<Rightarrow> store_error + py_dict" where
  "jsonb_document g =
     res_bind (json_encode Not_serialisable (PyDict g)) (\<lambda>j. res_map as_mapping (jsonb_read j))"

text \<open>\<^verbatim>\<open>CHECK (graph_json->>'schema_version' = 'strategy-graph-v1')\<close>: a missing or null entry gives \<^verbatim>\<open>NULL\<close>,
  which a check does not refuse.\<close>

definition schema_admitted :: "py_dict \<Rightarrow> bool" where
  "schema_admitted document \<longleftrightarrow> dict_get document ''schema_version'' \<in> {PyNone, PyStr ''strategy-graph-v1''}"

section \<open>Creating a strategy\<close>

record strategy_request =
  rq_request_id :: py_value
  rq_idempotency_key :: py_value
  rq_actor_id :: py_value
  rq_requested_at :: datetime
  rq_reason :: py_value

definition create_strategy ::
  "strategy_db \<Rightarrow> int \<Rightarrow> strategy_request \<Rightarrow> py_value \<Rightarrow> py_value \<Rightarrow> store_error + strategy_definition \<times> strategy_db" where
  "create_strategy db now q owner_id name_arg =
     res_bind (store_text (rq_request_id q) ''requestId'') (\<lambda>request_id.
     res_bind (store_text (rq_idempotency_key q) ''idempotencyKey'') (\<lambda>key.
     res_bind (store_text (rq_actor_id q) ''actorId'') (\<lambda>actor.
     res_bind (store_text (rq_reason q) ''reason'') (\<lambda>reason.
     res_bind (store_text owner_id ''ownerId'') (\<lambda>owner.
     res_bind (store_text name_arg ''name'') (\<lambda>name.
     res_bind (store_hash
        [(''requestId'', PyStr request_id), (''idempotencyKey'', PyStr key), (''actorId'', PyStr actor),
         (''requestedAt'', PyStr (isoformat (rq_requested_at q))), (''reason'', PyStr reason),
         (''ownerId'', PyStr owner), (''name'', PyStr name)]) (\<lambda>request_hash.
     case row_by sd_key key (sb_definitions db) of
       Some row \<Rightarrow> if sd_hash row \<noteq> request_hash then Inl Idempotency_conflict else Inr (row, db)
     | None \<Rightarrow>
         if (owner, name) \<in> set (map (\<lambda>r. (sd_owner r, sd_name r)) (sb_definitions db))
         then Inl (Unique_violation ''strategy_definitions'')
         else
           let row = \<lparr>sd_id = seq_definitions db, sd_owner = owner, sd_name = name, sd_key = key,
                      sd_request = request_id, sd_actor = actor, sd_requested = rq_requested_at q,
                      sd_reason = reason, sd_hash = request_hash, sd_created = now\<rparr>
           in Inr (row, db\<lparr>sb_definitions := sb_definitions db @ [row], seq_definitions := seq_definitions db + 1\<rparr>))))))))"

section \<open>Publishing a version\<close>

definition next_version :: "strategy_db \<Rightarrow> nat \<Rightarrow> nat" where
  "next_version db strategy_id =
     Max (insert 0 (vn_version ` {r \<in> set (sb_versions db). vn_strategy r = strategy_id})) + 1"

record version_response =
  vr_version :: strategy_version
  vr_graph :: py_dict

definition version_response_of :: "strategy_db \<Rightarrow> strategy_version \<Rightarrow> version_response" where
  "version_response_of db row =
     \<lparr>vr_version = row,
      vr_graph = (case row_by gr_version (vn_id row) (sb_graphs db) of Some g \<Rightarrow> gr_graph g | None \<Rightarrow> [])\<rparr>"

definition publish_version ::
  "strategy_db \<Rightarrow> int \<Rightarrow> nat \<Rightarrow> strategy_request \<Rightarrow> py_value \<Rightarrow> strategy_store_error + version_response \<times> strategy_db" where
  "publish_version db now strategy_id q graph =
     (case graph of
        PyDict g \<Rightarrow>
          res_bind (lift_graph (validate_strategy_graph g)) (\<lambda>validation.
          if \<not> sv_valid validation
          then Inl (Strategy_store (Value_error (join '','' (map se_code (sv_errors validation)))))
          else
          res_bind (lift_store (store_text (rq_request_id q) ''requestId'')) (\<lambda>request_id.
          res_bind (lift_store (store_text (rq_idempotency_key q) ''idempotencyKey'')) (\<lambda>key.
          res_bind (lift_store (store_text (rq_actor_id q) ''actorId'')) (\<lambda>actor.
          res_bind (lift_store (store_text (rq_reason q) ''reason'')) (\<lambda>reason.
          res_bind (lift_store (store_hash
             [(''strategyId'', PyInt (int strategy_id)), (''requestId'', PyStr request_id),
              (''idempotencyKey'', PyStr key), (''actorId'', PyStr actor),
              (''requestedAt'', PyStr (isoformat (rq_requested_at q))), (''reason'', PyStr reason),
              (''graphHash'', PyStr (sv_graph_hash validation))])) (\<lambda>request_hash.
          case row_by vn_key key (sb_versions db) of
            Some row \<Rightarrow>
              if vn_hash row \<noteq> request_hash then Inl (Strategy_store Idempotency_conflict)
              else Inr (version_response_of db row, db)
          | None \<Rightarrow>
              if strategy_id \<notin> set (map sd_id (sb_definitions db)) then Inl (Strategy_store (Value_error ''strategy''))
              else if (strategy_id, sv_graph_hash validation)
                        \<in> set (map (\<lambda>r. (vn_strategy r, vn_graph_hash r)) (sb_versions db))
              then Inl (Strategy_store (Unique_violation ''strategy_versions''))
              else
                res_bind (lift_store (jsonb_document g)) (\<lambda>document.
                if \<not> schema_admitted document then Inl (Strategy_store (Check_violation ''strategy_graphs''))
                else
                let row = \<lparr>vn_id = seq_versions db, vn_strategy = strategy_id,
                           vn_version = next_version db strategy_id, vn_graph_hash = sv_graph_hash validation,
                           vn_validation = validation, vn_key = key, vn_request = request_id, vn_actor = actor,
                           vn_requested = rq_requested_at q, vn_reason = reason, vn_hash = request_hash,
                           vn_created = now, vn_published = rq_requested_at q\<rparr>;
                    db' = db\<lparr>sb_versions := sb_versions db @ [row],
                             sb_graphs := sb_graphs db @
                               [\<lparr>gr_version = seq_versions db, gr_graph = document, gr_hash = sv_graph_hash validation\<rparr>],
                             seq_versions := seq_versions db + 1\<rparr>
                in Inr (version_response_of db' row, db'))))))))
      | _ \<Rightarrow> Inl (Strategy_store (Value_error ''graph'')))"

section \<open>Reading versions\<close>

definition get_version :: "strategy_db \<Rightarrow> nat \<Rightarrow> version_response option" where
  "get_version db version_id = map_option (version_response_of db) (row_by vn_id version_id (sb_versions db))"

record version_cursor =
  vc_context :: string
  vc_strategy :: nat
  vc_ceiling :: nat
  vc_last :: nat

definition VERSION_CONTEXT :: string where "VERSION_CONTEXT = ''strategy-version-list-v1''"

definition versions_of :: "strategy_db \<Rightarrow> nat \<Rightarrow> strategy_version list" where
  "versions_of db strategy_id = filter (\<lambda>r. vn_strategy r = strategy_id) (sb_versions db)"

definition list_versions ::
  "strategy_db \<Rightarrow> nat \<Rightarrow> nat \<Rightarrow> version_cursor option \<Rightarrow> store_error + version_response list \<times> version_cursor option" where
  "list_versions db strategy_id limit cursor =
     (if (case cursor of Some c \<Rightarrow> vc_context c \<noteq> VERSION_CONTEXT \<or> vc_strategy c \<noteq> strategy_id | None \<Rightarrow> False)
      then Inl Cursor_mismatch
      else
        case keyset_page vn_id (versions_of db strategy_id) limit (map_option (\<lambda>c. (vc_ceiling c, vc_last c)) cursor) of
          (page, next_page) \<Rightarrow>
            Inr (map (version_response_of db) page,
              map_option (\<lambda>(ceil, last_id).
                \<lparr>vc_context = VERSION_CONTEXT, vc_strategy = strategy_id, vc_ceiling = ceil, vc_last = last_id\<rparr>) next_page))"

section \<open>Documents without floats come back equal\<close>

function plain_document :: "py_value \<Rightarrow> bool" where
  "plain_document v =
     (case v of
        PyFloat r x \<Rightarrow> False
      | PyList xs \<Rightarrow> list_all plain_document xs
      | PyDict d \<Rightarrow> distinct (map fst d) \<and> list_all (\<lambda>kv. plain_document (snd kv)) d
      | _ \<Rightarrow> True)"
  by pat_completeness auto
termination
  by (relation "measure size") (auto intro: size_list_mem size_dict_mem)

declare plain_document.simps [simp del]

lemma map_of_sort_key: "distinct (map fst d) \<Longrightarrow> map_of (sort_key f d) = map_of d"
proof -
  assume d: "distinct (map fst d)"
  have "distinct (map fst (sort_key f d))" using d by (metis distinct_map distinct_sort set_sort)
  then show ?thesis using d by (intro map_of_inject_set [THEN iffD2]) simp_all
qed

lemma jsonb_keeps_equal:
  "plain_document v \<Longrightarrow> json_encode err v = Inr j \<Longrightarrow> jsonb_read j = Inr w \<Longrightarrow> py_eq v w"
proof (induction err v arbitrary: j w rule: json_encode.induct)
  case (8 err xs)
  obtain js where js: "j = JArr js" "list_all2 (\<lambda>x j. json_encode err x = Inr j) xs js"
    using "8.prems"(2) by (auto simp: res_map_eq_Inr_iff res_mapM_Inr_iff)
  obtain ws where ws: "w = PyList ws" "list_all2 (\<lambda>j w. jsonb_read j = Inr w) js ws"
    using "8.prems"(3) js(1) by (auto simp: res_map_eq_Inr_iff res_mapM_Inr_iff)
  have plain: "\<forall>x\<in>set xs. plain_document x" using "8.prems"(1) by (simp add: plain_document.simps [of "PyList _"] list_all_iff)
  have "list_all2 py_eq xs ws"
    unfolding list_all2_conv_all_nth
  proof (intro conjI allI impI)
    show "length xs = length ws" using js(2) ws(2) by (simp add: list_all2_lengthD)
    fix i assume i: "i < length xs"
    then have "json_encode err (xs ! i) = Inr (js ! i)" "jsonb_read (js ! i) = Inr (ws ! i)"
      using js(2) ws(2) by (auto simp: list_all2_conv_all_nth)
    then show "py_eq (xs ! i) (ws ! i)" using "8.IH" plain i by auto
  qed
  then show ?case by (simp add: ws(1) py_eq.simps [of "PyList _"] list_all2_iff list_all_iff split_def)
next
  case (9 err d)
  obtain js where js: "j = JObj js" "list_all2 (\<lambda>kv kj. res_map (Pair (fst kv)) (json_encode err (snd kv)) = Inr kj) d js"
    using "9.prems"(2) unfolding json_encode.simps res_map_eq_Inr_iff res_mapM_Inr_iff by blast
  obtain ws where ws: "w = PyDict (sort_key (\<lambda>kv. (length (fst kv), fst kv)) ws)"
      "list_all2 (\<lambda>kj kw. res_map (Pair (fst kj)) (jsonb_read (snd kj)) = Inr kw) js ws"
    using "9.prems"(3) unfolding js(1) by (auto simp: res_map_eq_Inr_iff [of PyDict] res_map_eq_Inr_iff [of "\<lambda>kvs. PyDict (f kvs)" for f] res_mapM_Inr_iff split: if_splits)
  have plain: "distinct (map fst d)" "\<forall>kv\<in>set d. plain_document (snd kv)"
    using "9.prems"(1) by (simp_all add: plain_document.simps [of "PyDict _"] list_all_iff)
  have len: "length d = length ws" using js(2) ws(2) by (simp add: list_all2_lengthD)
  have each: "fst (ws ! i) = fst (d ! i) \<and> py_eq (snd (d ! i)) (snd (ws ! i))" if i: "i < length d" for i
  proof -
    have "i < length js" using i js(2) by (simp add: list_all2_lengthD)
    then have "res_map (Pair (fst (d ! i))) (json_encode err (snd (d ! i))) = Inr (js ! i)"
      "res_map (Pair (fst (js ! i))) (jsonb_read (snd (js ! i))) = Inr (ws ! i)"
      using i list_all2_nthD [OF js(2)] list_all2_nthD [OF ws(2)] by blast+
    then have "fst (ws ! i) = fst (d ! i)" "json_encode err (snd (d ! i)) = Inr (snd (js ! i))"
      "jsonb_read (snd (js ! i)) = Inr (snd (ws ! i))"
      by (auto simp: res_map_eq_Inr_iff)
    then show ?thesis using "9.IH" plain(2) i by (metis nth_mem)
  qed
  have keys: "map fst ws = map fst d" using len each by (intro nth_equalityI) auto
  have "case map_of ws (fst kv) of None \<Rightarrow> False | Some x \<Rightarrow> py_eq (snd kv) x" if kv: "kv \<in> set d" for kv
  proof -
    obtain i where i: "i < length d" "kv = d ! i" using kv by (metis in_set_conv_nth)
    have "map_of ws (fst (ws ! i)) = Some (snd (ws ! i))"
      using keys plain(1) i len by (intro map_of_is_SomeI) (auto simp: in_set_conv_nth)
    then show ?thesis using each [OF i(1)] i(2) by simp
  qed
  moreover have "map_of (sort_key (\<lambda>kv. (length (fst kv), fst kv)) ws) = map_of ws"
    using keys plain(1) by (intro map_of_sort_key) simp
  ultimately show ?case by (simp add: ws(1) py_eq.simps [of "PyDict _"] len list_all_iff)
qed (auto simp: plain_document.simps py_eq.simps split: if_splits)

lemma jsonb_document_equal:
  assumes "jsonb_document g = Inr document" "plain_document (PyDict g)"
  shows "py_eq (PyDict g) (PyDict document)"
proof -
  obtain j w where j: "json_encode Not_serialisable (PyDict g) = Inr j" "jsonb_read j = Inr w" "document = as_mapping w"
    using assms(1) by (auto simp: jsonb_document_def res_bind_eq_Inr_iff res_map_eq_Inr_iff)
  have "w = PyDict document" using j by (auto simp: res_map_eq_Inr_iff as_mapping_def split: if_splits)
  then show ?thesis using jsonb_keeps_equal [OF assms(2) j(1,2)] by simp
qed

section \<open>The store keeps its promises\<close>

definition version_graph :: "strategy_db \<Rightarrow> strategy_version \<Rightarrow> py_dict" where
  "version_graph db row = vr_graph (version_response_of db row)"

definition graph_checked :: "strategy_db \<Rightarrow> strategy_version \<Rightarrow> bool" where
  "graph_checked db row \<longleftrightarrow>
     (\<exists>g v. validate_strategy_graph g = Inr v \<and> sv_valid v \<and> sv_graph_hash v = vn_graph_hash row \<and>
        jsonb_document g = Inr (version_graph db row) \<and> schema_admitted (version_graph db row))"

definition strategies_ok :: "strategy_db \<Rightarrow> bool" where
  "strategies_ok db \<longleftrightarrow>
     sorted_wrt (<) (map vn_id (sb_versions db)) \<and>
     (\<forall>r\<in>set (sb_versions db). 0 < vn_id r \<and> vn_id r < seq_versions db) \<and> 0 < seq_versions db \<and>
     distinct (map vn_key (sb_versions db)) \<and> map gr_version (sb_graphs db) = map vn_id (sb_versions db) \<and>
     (\<forall>s. map vn_version (versions_of db s) = [1..<Suc (length (versions_of db s))]) \<and>
     (\<forall>r\<in>set (sb_versions db). graph_checked db r)"

definition extends_versions :: "strategy_db \<Rightarrow> strategy_db \<Rightarrow> bool" where
  "extends_versions db db' \<longleftrightarrow>
     (\<exists>rows graphs. sb_versions db' = sb_versions db @ rows \<and> sb_graphs db' = sb_graphs db @ graphs)"

lemma next_version_consecutive:
  assumes "map vn_version (versions_of db s) = [1..<Suc (length (versions_of db s))]"
  shows "next_version db s = Suc (length (versions_of db s))"
proof -
  have "vn_version ` {r \<in> set (sb_versions db). vn_strategy r = s} = set (map vn_version (versions_of db s))"
    by (auto simp: versions_of_def)
  also have "\<dots> = {1..<Suc (length (versions_of db s))}" unfolding assms by auto
  finally have "insert 0 (vn_version ` {r \<in> set (sb_versions db). vn_strategy r = s}) = {..length (versions_of db s)}"
    by auto
  moreover have "Max {..n} = n" for n :: nat by (rule Max_eqI) auto
  ultimately show ?thesis by (simp add: next_version_def)
qed

lemma publish_version_cases [consumes 1, case_names known new]:
  assumes "publish_version db now s q graph = Inr (r, db')"
  obtains row where "row \<in> set (sb_versions db)" "r = version_response_of db row" "db' = db"
  | row g document v where "graph = PyDict g" "jsonb_document g = Inr document" "schema_admitted document" "validate_strategy_graph g = Inr v" "sv_valid v" "vn_graph_hash row = sv_graph_hash v"
      "vn_key row \<notin> vn_key ` set (sb_versions db)" "vn_id row = seq_versions db" "vn_strategy row = s"
      "vn_version row = next_version db s"
      "db' = db\<lparr>sb_versions := sb_versions db @ [row],
         sb_graphs := sb_graphs db @ [\<lparr>gr_version = seq_versions db, gr_graph = document, gr_hash = sv_graph_hash v\<rparr>],
         seq_versions := seq_versions db + 1\<rparr>"
      "r = version_response_of db' row"
proof (cases graph)
  case (PyDict g)
  obtain v request_id key actor reason h where v: "validate_strategy_graph g = Inr v" "sv_valid v"
    and args: "store_text (rq_request_id q) ''requestId'' = Inr request_id"
      "store_text (rq_idempotency_key q) ''idempotencyKey'' = Inr key"
      "store_text (rq_actor_id q) ''actorId'' = Inr actor" "store_text (rq_reason q) ''reason'' = Inr reason"
      "store_hash [(''strategyId'', PyInt (int s)), (''requestId'', PyStr request_id), (''idempotencyKey'', PyStr key),
         (''actorId'', PyStr actor), (''requestedAt'', PyStr (isoformat (rq_requested_at q))), (''reason'', PyStr reason),
         (''graphHash'', PyStr (sv_graph_hash v))] = Inr h"
    using assms PyDict by (auto simp: publish_version_def res_bind_eq_Inr_iff split: if_splits)
  note d = assms [unfolded publish_version_def PyDict]
  show thesis
  proof (cases "row_by vn_key key (sb_versions db)")
    case None
    then have "key \<notin> vn_key ` set (sb_versions db)" by (simp add: row_by_None)
    let ?row = "\<lparr>vn_id = seq_versions db, vn_strategy = s, vn_version = next_version db s, vn_graph_hash = sv_graph_hash v,
       vn_validation = v, vn_key = key, vn_request = request_id, vn_actor = actor, vn_requested = rq_requested_at q,
       vn_reason = reason, vn_hash = h, vn_created = now, vn_published = rq_requested_at q\<rparr>"
    obtain document where document: "jsonb_document g = Inr document" "schema_admitted document"
      using d v None by (auto simp: args Let_def res_bind_eq_Inr_iff split: if_splits)
    have "db' = db\<lparr>sb_versions := sb_versions db @ [?row],
         sb_graphs := sb_graphs db @ [\<lparr>gr_version = seq_versions db, gr_graph = document, gr_hash = sv_graph_hash v\<rparr>],
         seq_versions := seq_versions db + 1\<rparr> \<and> r = version_response_of db' ?row"
      using d v None document by (auto simp: args Let_def split: if_splits)
    then show thesis using PyDict v document \<open>key \<notin> _\<close> by (intro that(2) [where row = ?row]) simp_all
  next
    case (Some row)
    then have "row \<in> set (sb_versions db)" by (auto dest: row_by_Some)
    then show thesis using d v Some by (intro that(1)) (auto simp: args split: if_splits)
  qed
qed (use assms in \<open>auto simp: publish_version_def\<close>)

lemma row_by_append_new: "key r = k \<Longrightarrow> k \<notin> key ` set rows \<Longrightarrow> row_by key k (rows @ [r]) = Some r"
  unfolding row_by_def by (induction rows) auto

lemma row_by_append_old: "k \<in> key ` set rows \<Longrightarrow> row_by key k (rows @ newer) = row_by key k rows"
  unfolding row_by_def by (induction rows) auto

lemma version_graph_extends:
  assumes "strategies_ok db" "extends_versions db db'" "r \<in> set (sb_versions db)"
  shows "version_response_of db' r = version_response_of db r"
proof -
  have "vn_id r \<in> gr_version ` set (sb_graphs db)"
    using assms(1,3) unfolding strategies_ok_def by (metis image_eqI image_set)
  then show ?thesis using assms(2) by (auto simp: extends_versions_def version_response_of_def row_by_append_old)
qed

lemma publish_version_extends: "publish_version db now s q graph = Inr (r, db') \<Longrightarrow> extends_versions db db'"
  by (cases rule: publish_version_cases) (auto simp: extends_versions_def)

lemma versions_of_snoc:
  "versions_of (db\<lparr>sb_versions := sb_versions db @ [row], sb_graphs := gs, seq_versions := n\<rparr>) s =
     versions_of db s @ (if vn_strategy row = s then [row] else [])"
  by (simp add: versions_of_def)

lemma publish_version_ok:
  assumes "publish_version db now s q graph = Inr (r, db')" and ok: "strategies_ok db"
  shows "strategies_ok db'"
  using assms(1)
proof (cases rule: publish_version_cases)
  case (new row g document v)
  have ids: "map gr_version (sb_graphs db) = map vn_id (sb_versions db)"
    and below: "\<forall>r\<in>set (sb_versions db). 0 < vn_id r \<and> vn_id r < seq_versions db"
    using ok by (simp_all add: strategies_ok_def)
  have fresh: "seq_versions db \<notin> gr_version ` set (sb_graphs db)"
    using below by (metis ids image_set image_iff less_irrefl)
  have old: "graph_checked db' r" if "r \<in> set (sb_versions db)" for r
    using version_graph_extends [OF ok publish_version_extends [OF assms(1)] that] ok that
    by (simp add: strategies_ok_def graph_checked_def version_graph_def)
  have "version_graph db' row = document"
    using row_by_append_new [OF _ fresh] new(8) by (simp add: version_graph_def version_response_of_def new(11))
  then have "graph_checked db' row" using new(2-6) by (auto simp: graph_checked_def)
  moreover have "map vn_version (versions_of db' t) = [1..<Suc (length (versions_of db' t))]" for t
  proof -
    have "map vn_version (versions_of db t) = [1..<Suc (length (versions_of db t))]"
      using ok by (simp add: strategies_ok_def)
    then show ?thesis using next_version_consecutive [of db t] new(9,10) by (auto simp: new(11) versions_of_snoc)
  qed
  ultimately show ?thesis using ok old new(7,8) ids
    unfolding strategies_ok_def by (auto simp: new(11) sorted_wrt_append less_Suc_eq)
qed (use ok in simp)

lemma publish_version_new_graph:
  assumes "publish_version db now s q graph = Inr (r, db')" "strategies_ok db" "db' \<noteq> db"
  shows "\<exists>g. graph = PyDict g \<and> jsonb_document g = Inr (vr_graph r)"
  using assms(1)
proof (cases rule: publish_version_cases)
  case (new row g document v)
  have "seq_versions db \<notin> gr_version ` set (sb_graphs db)"
    using assms(2) unfolding strategies_ok_def by (metis image_set image_iff less_irrefl)
  then have "vr_graph r = document"
    using row_by_append_new [of gr_version "\<lparr>gr_version = seq_versions db, gr_graph = document, gr_hash = sv_graph_hash v\<rparr>"
        "seq_versions db"] new(8) by (simp add: new(12) version_response_of_def new(11))
  then show ?thesis using new(1,2) by simp
qed (use assms(3) in simp)


interpretation version_pages: keyset_listing vn_id "\<lambda>db. versions_of db s"
    "\<lambda>db. keyset_page vn_id (versions_of db s)" strategies_ok extends_versions for s
  by unfold_locales
     (auto simp: strategies_ok_def versions_of_def extends_versions_def sorted_wrt_map sorted_wrt_filter)

text \<open>
  Publishing is idempotent under its key: the request repeated later, after whatever was published
  meanwhile, answers with the version of the first call and changes nothing, and no request under the same key, whatever its
  strategy and graph, is ever answered with another version.
\<close>
theorem publish_version_idempotent:
  assumes "publish_version db now s q graph = Inr (r, db1)" "strategies_ok db1"
    "strategies_ok db2" "extends_versions db1 db2"
  shows "publish_version db2 later s q graph = Inr (r, db2) \<and>
    (\<forall>s' graph' r' db3. publish_version db2 later s' q graph' = Inr (r', db3) \<longrightarrow> r' = r \<and> db3 = db2)"
proof -
  obtain key where key: "store_text (rq_idempotency_key q) ''idempotencyKey'' = Inr key"
    using assms(1) by (cases graph) (auto simp: publish_version_def res_bind_eq_Inr_iff split: if_splits)
  have row: "vr_version r \<in> set (sb_versions db1) \<and> vn_key (vr_version r) = key \<and> r = version_response_of db1 (vr_version r)"
    using assms(1) row_by_Some key
    by (cases graph) (fastforce simp: publish_version_def res_bind_eq_Inr_iff version_response_of_def Let_def
        split: if_splits option.splits)+
  then have "vr_version r \<in> set (sb_versions db2)" using assms(4) by (auto simp: extends_versions_def)
  then have found: "row_by vn_key key (sb_versions db2) = Some (vr_version r)"
    using assms(3) row by (metis row_by_distinct strategies_ok_def)
  have same: "version_response_of db2 (vr_version r) = r"
    using version_graph_extends [OF assms(2,4)] row by simp
  have "publish_version db2 later s q graph = Inr (r, db2)"
    using assms(1) found same row_by_Some key
    by (cases graph) (fastforce simp: publish_version_def res_bind_eq_Inr_iff Let_def version_response_of_def
        split: if_splits option.splits)+
  moreover have "r' = r \<and> db3 = db2" if "publish_version db2 later s' q graph' = Inr (r', db3)" for s' graph' r' db3
    using that found same key by (cases graph') (auto simp: publish_version_def res_bind_eq_Inr_iff split: if_splits)
  ultimately show ?thesis by blast
qed

section \<open>Listing versions\<close>

text \<open>A call of \<^verbatim>\<open>list_versions\<close> is a page of the versions of the strategy, so the listing inherits completeness.\<close>

definition version_cursor_of :: "nat \<Rightarrow> nat \<times> nat \<Rightarrow> version_cursor" where
  "version_cursor_of s c = \<lparr>vc_context = VERSION_CONTEXT, vc_strategy = s, vc_ceiling = fst c, vc_last = snd c\<rparr>"

lemma list_versions_page:
  "list_versions db s limit (map_option (version_cursor_of s) c) =
    (case keyset_page vn_id (versions_of db s) limit c of (page, n) \<Rightarrow>
       Inr (map (version_response_of db) page, map_option (version_cursor_of s) n))"
proof -
  have [simp]: "map_option (\<lambda>c. (vc_ceiling c, vc_last c)) (map_option (version_cursor_of s) c) = c"
    by (cases c) (simp_all add: version_cursor_of_def)
  have [simp]: "vc_strategy (version_cursor_of s x) = s" "vc_context (version_cursor_of s x) = VERSION_CONTEXT" for x
    by (simp_all add: version_cursor_of_def)
  have own: "\<not> (case map_option (version_cursor_of s) c of
      Some c \<Rightarrow> vc_context c \<noteq> VERSION_CONTEXT \<or> vc_strategy c \<noteq> s | None \<Rightarrow> False)" by (cases c) simp_all
  obtain page n where page: "keyset_page vn_id (versions_of db s) limit c = (page, n)" by fastforce
  then show ?thesis using own
    by (cases n) (simp_all add: list_versions_def version_cursor_of_def split_def)
qed

section \<open>An example\<close>

definition example_strategies :: strategy_db where
  "example_strategies =
     \<lparr>sb_definitions = [\<lparr>sd_id = 1, sd_owner = ''o'', sd_name = ''n'', sd_key = ''k'', sd_request = ''r'', sd_actor = ''a'',
        sd_requested = utc 0, sd_reason = ''why'', sd_hash = [], sd_created = 0\<rparr>],
      sb_versions = [], sb_graphs = [], seq_definitions = 2, seq_versions = 1\<rparr>"

definition example_publication :: strategy_request where
  "example_publication = \<lparr>rq_request_id = PyStr ''r'', rq_idempotency_key = PyStr ''k'', rq_actor_id = PyStr ''a'',
     rq_requested_at = utc 0, rq_reason = PyStr ''why''\<rparr>"

lemma example_document: "\<exists>document. jsonb_document example_graph = Inr document \<and> schema_admitted document"
  by (simp add: jsonb_document_def example_graph_def schema_admitted_def as_mapping_def dict_get_def map_of_sort_key
      del: sort_key_simps)

text \<open>A float written with a positive exponent comes back as an integer, whose JSON text, which is hashed, is another.\<close>

lemma large_float_changes: "jsonb_read (JFloat ''1e+16'') = Inr (PyInt (10 ^ 16))"
proof -
  have "parse_decimal ''1e+16'' = Some (NFin (Dec False 1 16))"
    by (simp add: parse_decimal_def parse_finite_def parse_exponent_def take_sign_def strip_def is_space_def to_lower_def
        is_digit_def digits_val_def Let_def)
  then show ?thesis by simp
qed

lemma example_published:
  "\<exists>r db'. publish_version example_strategies 5 1 example_publication (PyDict example_graph) = Inr (r, db') \<and>
     vn_version (vr_version r) = 1 \<and> strategies_ok example_strategies"
proof -
  obtain h where "validate_strategy_graph example_graph = Inr \<lparr>sv_valid = True, sv_errors = [], sv_graph_hash = h\<rparr>"
    using example_graph_returns by blast
  moreover obtain document where "jsonb_document example_graph = Inr document" "schema_admitted document"
    using example_document by blast
  ultimately show ?thesis
    by (simp add: publish_version_def example_publication_def example_strategies_def store_text_def store_non_blank_def
        strip_def is_space_def store_hash_def row_by_def Let_def next_version_def version_response_of_def
        strategies_ok_def versions_of_def)
qed


lemma publish_version_idempotent_witness:
  "\<exists>r db'. publish_version db' 9 1 example_publication (PyDict example_graph) = Inr (r, db')"
proof -
  obtain r db' where r: "publish_version example_strategies 5 1 example_publication (PyDict example_graph) = Inr (r, db')"
    "strategies_ok example_strategies" using example_published by blast
  have ok: "strategies_ok db'" by (rule publish_version_ok [OF r])
  have "extends_versions db' db'" by (simp add: extends_versions_def)
  then show ?thesis using publish_version_idempotent [OF r(1) ok ok] by blast
qed

end
