(* ===== verification/Backtest_Store.thy ===== *)
theory Backtest_Store
  imports Backtest_Engine Strategy_Store
begin

text \<open>
  The backtest store (\<^verbatim>\<open>backtest_store.py\<close>): runs with the candles of their data set and the published
  version of their strategy, and the rows of a result. An operation is one transaction on the tables and checks
  the constraints of the schema; timestamps of the tables are instants. The text of a decimal reads back to the
  decimal, so \<^verbatim>\<open>Decimal(str(x))\<close> is \<open>x\<close>; text in the database is ordered by its bytes. A cursor is modelled
  up to the JSON envelope with its keyed digest; its base64 transport is left out.
\<close>

section \<open>Tables\<close>

datatype run_status = Run_queued | Run_running | Run_retry_wait | Run_succeeded | Run_failed | Run_cancelled | Run_dead_letter

record backtest_run =
  bk_id :: nat
  bk_strategy :: nat
  bk_graph_hash :: string
  bk_dataset :: nat
  bk_dataset_hash :: string
  bk_engine :: string
  bk_status :: run_status
  bk_input_hash :: string
  bk_input :: py_dict
  bk_result_hash :: "string option"
  bk_parameter_hash :: string
  bk_seed :: int
  bk_assumptions :: "string list"
  bk_key :: string
  bk_request :: string
  bk_actor :: string
  bk_requested :: int
  bk_reason :: string
  bk_request_hash :: string
  bk_started :: "int option"
  bk_finished :: "int option"
  bk_attempts :: nat
  bk_max_attempts :: nat
  bk_next_retry :: "int option"
  bk_owner :: "string option"
  bk_expires :: "int option"
  bk_generation :: nat
  bk_error_code :: "string option"
  bk_error_message :: "string option"
  bk_dead_reason :: "string option"

record trade_row =
  bt_run :: nat
  bt_sequence :: nat
  bt_side :: backtest_side
  bt_requested :: dec
  bt_filled :: dec
  bt_remaining :: dec
  bt_price :: dec
  bt_fee :: dec
  bt_status :: backtest_trade_status
  bt_occurred :: int
  bt_knowledge :: int

record equity_row =
  bq_run :: nat
  bq_sequence :: nat
  bq_occurred :: int
  bq_knowledge :: int
  bq_cash :: dec
  bq_position :: dec
  bq_equity :: dec

record metric_row =
  bm_run :: nat
  bm_name :: string
  bm_value :: dec

record artifact_row =
  ba_run :: nat
  ba_type :: string
  ba_hash :: string
  ba_uri :: py_value
  ba_json :: py_value

record dataset_row =
  dv_id :: nat
  dv_hash :: string
  dv_as_of :: int
  dv_from :: int
  dv_to :: int
  dv_fill :: string
  dv_missing :: string
  dv_sealed :: bool

record candle_prices =
  cp_open :: dec
  cp_high :: dec
  cp_low :: dec
  cp_close :: dec
  cp_volume :: dec

record dataset_candle =
  dc_dataset :: nat
  dc_instrument :: nat
  dc_market :: string
  dc_occurred :: int
  dc_knowledge :: int
  dc_revision :: "(nat \<times> candle_prices) option"
  dc_rollup :: "(nat \<times> candle_prices) option"
  dc_quality :: string
  dc_hash :: string

record backtest_db =
  bd_runs :: "backtest_run list"
  bd_trades :: "trade_row list"
  bd_points :: "equity_row list"
  bd_metrics :: "metric_row list"
  bd_artifacts :: "artifact_row list"
  bd_strategies :: strategy_db
  bd_datasets :: "dataset_row list"
  bd_candles :: "dataset_candle list"
  seq_backtests :: nat

datatype backtest_error = Bk_store store_error | Bk_not_ready | Bk_engine bt_error

definition bk_lift :: "store_error + 'a \<Rightarrow> backtest_error + 'a" where
  "bk_lift r = (case r of Inl e \<Rightarrow> Inl (Bk_store e) | Inr x \<Rightarrow> Inr x)"

definition bk_lift_engine :: "bt_error + 'a \<Rightarrow> backtest_error + 'a" where
  "bk_lift_engine r = (case r of Inl e \<Rightarrow> Inl (Bk_engine e) | Inr x \<Rightarrow> Inr x)"

lemma bk_lift_simps [simp]:
  "bk_lift (Inr x) = Inr x" "bk_lift (Inl e) = Inl (Bk_store e)" "bk_lift r = Inr x \<longleftrightarrow> r = Inr x"
  "bk_lift_engine (Inr x) = Inr x" "bk_lift_engine (Inl e') = Inl (Bk_engine e')" "bk_lift_engine s = Inr x \<longleftrightarrow> s = Inr x"
  by (auto simp: bk_lift_def bk_lift_engine_def split: sum.splits)

section \<open>Arguments\<close>

definition positive_int :: "py_value \<Rightarrow> string \<Rightarrow> store_error + nat" where
  "positive_int v field =
     (case v of PyInt i \<Rightarrow> if i < 1 then Inl (Value_error field) else Inr (nat i) | _ \<Rightarrow> Inl (Value_error field))"

definition seed_of :: "py_value \<Rightarrow> store_error + int" where
  "seed_of v = (case v of PyInt i \<Rightarrow> Inr i | _ \<Rightarrow> Inl (Value_error ''seed''))"

definition decimal_argument :: "py_value \<Rightarrow> string \<Rightarrow> store_error + dec" where
  "decimal_argument v field = (case v of PyDecimal a \<Rightarrow> Inr a | _ \<Rightarrow> Inl (Value_error field))"

definition parameter_entry :: "py_dict \<Rightarrow> string \<times> py_value \<Rightarrow> store_error + py_dict" where
  "parameter_entry acc kv =
     (case kv of (key, v) \<Rightarrow>
        if strip key = [] then Inl (Value_error ''parameters'')
        else (case v of
            PyNone \<Rightarrow> Inr (dict_set acc (strip key) v) | PyStr _ \<Rightarrow> Inr (dict_set acc (strip key) v)
          | PyInt _ \<Rightarrow> Inr (dict_set acc (strip key) v) | PyBool _ \<Rightarrow> Inr (dict_set acc (strip key) v)
          | _ \<Rightarrow> Inl (Value_error ''parameters'')))"

definition parameter_payload :: "py_value \<Rightarrow> store_error + py_dict" where
  "parameter_payload v =
     (case v of PyDict d \<Rightarrow> res_foldM parameter_entry [] d | _ \<Rightarrow> Inl (Value_error ''parameters''))"

definition execution_arguments :: "py_value \<Rightarrow> store_error + dec \<times> dec \<times> int \<times> dec" where
  "execution_arguments v =
     (case v of
        PyDict d \<Rightarrow>
          (case (dict_get d ''feeRate'', dict_get d ''slippageBps'', dict_get d ''maxParticipationRate'') of
             (PyDecimal fee, PyDecimal slippage, PyDecimal participation) \<Rightarrow>
               (case dict_get d ''latencySeconds'' of
                  PyInt latency \<Rightarrow>
                    if latency < 0 then Inl (Value_error ''execution'') else Inr (fee, slippage, latency, participation)
                | _ \<Rightarrow> Inl (Value_error ''execution''))
           | _ \<Rightarrow> Inl (Value_error ''execution''))
      | _ \<Rightarrow> Inl (Value_error ''execution''))"

definition execution_payload :: "dec \<times> dec \<times> int \<times> dec \<Rightarrow> py_value" where
  "execution_payload x =
     (case x of (fee, slippage, latency, participation) \<Rightarrow> PyDict
        [(''feeRate'', PyStr (dec_str fee)), (''slippageBps'', PyStr (dec_str slippage)),
         (''latencySeconds'', PyInt latency), (''maxParticipationRate'', PyStr (dec_str participation))])"

definition artifact_inputs :: "py_value \<Rightarrow> store_error + py_dict list" where
  "artifact_inputs v =
     (case v of
        PyNone \<Rightarrow> Inr []
      | PyList xs \<Rightarrow> res_mapM (\<lambda>x. case x of PyDict d \<Rightarrow> Inr d | _ \<Rightarrow> Inl (Value_error ''artifact'')) xs
      | _ \<Rightarrow> Inl (Value_error ''artifact''))"

text \<open>\<^verbatim>\<open>value.isoformat().replace("+00:00", "Z")\<close> of a timestamp read in UTC.\<close>

definition json_time :: "int \<Rightarrow> string" where
  "json_time t = iso_z (utc t)"

section \<open>The rows of a result\<close>

text \<open>The constraints of \<^verbatim>\<open>backtest_trades\<close>, on the values as the columns round them.\<close>

definition insert_trade :: "nat \<Rightarrow> trade_row list \<Rightarrow> nat \<times> backtest_trade \<Rightarrow> store_error + trade_row list" where
  "insert_trade run rows x =
     (case x of (index, t) \<Rightarrow>
        res_bind (numeric_38_18 (tr_requested_quantity t)) (\<lambda>requested.
        res_bind (numeric_38_18 (tr_filled_quantity t)) (\<lambda>filled.
        res_bind (numeric_38_18 (tr_remaining_quantity t)) (\<lambda>remaining.
        res_bind (numeric_38_18 (tr_fill_price t)) (\<lambda>price.
        res_bind (numeric_38_18 (tr_fee_paid t)) (\<lambda>fee.
        if \<not> (dec_le dec_zero requested \<and> dec_le dec_zero filled \<and> dec_le dec_zero remaining \<and>
              dec_le dec_zero price \<and> dec_le dec_zero fee \<and>
              dec_val filled + dec_val remaining = dec_val requested \<and>
              instant (tr_occurred_at t) \<le> instant (tr_knowledge_at t))
        then Inl (Check_violation ''backtest_trades'')
        else if (run, index) \<in> set (map (\<lambda>r. (bt_run r, bt_sequence r)) rows)
        then Inl (Unique_violation ''backtest_trades'')
        else Inr (rows @
          [\<lparr>bt_run = run, bt_sequence = index, bt_side = tr_side t, bt_requested = requested, bt_filled = filled,
            bt_remaining = remaining, bt_price = price, bt_fee = fee, bt_status = tr_status t,
            bt_occurred = instant (tr_occurred_at t), bt_knowledge = instant (tr_knowledge_at t)\<rparr>])))))))"

definition insert_equity_point :: "nat \<Rightarrow> equity_row list \<Rightarrow> nat \<times> backtest_equity_point \<Rightarrow> store_error + equity_row list" where
  "insert_equity_point run rows x =
     (case x of (index, p) \<Rightarrow>
        res_bind (numeric_38_18 (ep_cash p)) (\<lambda>cash.
        res_bind (numeric_38_18 (ep_base_position p)) (\<lambda>position.
        res_bind (numeric_38_18 (ep_equity p)) (\<lambda>equity.
        if \<not> instant (ep_occurred_at p) \<le> instant (ep_knowledge_at p)
        then Inl (Check_violation ''backtest_equity_points'')
        else if (run, index) \<in> set (map (\<lambda>r. (bq_run r, bq_sequence r)) rows) \<or>
                (run, instant (ep_occurred_at p)) \<in> set (map (\<lambda>r. (bq_run r, bq_occurred r)) rows)
        then Inl (Unique_violation ''backtest_equity_points'')
        else Inr (rows @
          [\<lparr>bq_run = run, bq_sequence = index, bq_occurred = instant (ep_occurred_at p),
            bq_knowledge = instant (ep_knowledge_at p), bq_cash = cash, bq_position = position, bq_equity = equity\<rparr>])))))"

definition insert_metric :: "nat \<Rightarrow> metric_row list \<Rightarrow> string \<times> dec \<Rightarrow> store_error + metric_row list" where
  "insert_metric run rows x =
     (case x of (name, v) \<Rightarrow>
        res_bind (numeric_38_18 v) (\<lambda>n.
        if strip name = [] then Inl (Check_violation ''backtest_metrics'')
        else if (run, name) \<in> set (map (\<lambda>r. (bm_run r, bm_name r)) rows)
        then Inl (Unique_violation ''backtest_metrics'')
        else Inr (rows @ [\<lparr>bm_run = run, bm_name = name, bm_value = n\<rparr>])))"

definition is_hash :: "string \<Rightarrow> bool" where
  "is_hash s \<longleftrightarrow> length s = 64 \<and> list_all (\<lambda>c. c \<in> set HEX_DIGITS) s"

text \<open>An artifact without a type or a content hash raises; a value that is no text is refused by the column.\<close>

definition insert_artifact :: "nat \<Rightarrow> artifact_row list \<Rightarrow> py_dict \<Rightarrow> store_error + artifact_row list" where
  "insert_artifact run rows a =
     (case (map_of a ''artifactType'', map_of a ''contentHash'') of
        (Some (PyStr t), Some (PyStr h)) \<Rightarrow>
          if strip t = [] \<or> \<not> is_hash h then Inl (Check_violation ''backtest_artifacts'')
          else if (run, t, h) \<in> set (map (\<lambda>r. (ba_run r, ba_type r, ba_hash r)) rows)
          then Inl (Unique_violation ''backtest_artifacts'')
          else Inr (rows @
            [\<lparr>ba_run = run, ba_type = t, ba_hash = h, ba_uri = dict_get a ''storageUri'',
              ba_json = dict_get_default a ''metadata'' (PyDict [])\<rparr>])
      | (None, _) \<Rightarrow> Inl (Value_error ''artifactType'')
      | (_, None) \<Rightarrow> Inl (Value_error ''contentHash'')
      | _ \<Rightarrow> Inl (Check_violation ''backtest_artifacts''))"

definition insert_trades :: "nat \<Rightarrow> backtest_result \<Rightarrow> backtest_db \<Rightarrow> store_error + backtest_db" where
  "insert_trades run result db =
     res_map (\<lambda>rows. db\<lparr>bd_trades := rows\<rparr>)
       (res_foldM (insert_trade run) (bd_trades db) (enumerate 1 (br_trades result)))"

definition insert_equity_points :: "nat \<Rightarrow> backtest_result \<Rightarrow> backtest_db \<Rightarrow> store_error + backtest_db" where
  "insert_equity_points run result db =
     res_map (\<lambda>rows. db\<lparr>bd_points := rows\<rparr>)
       (res_foldM (insert_equity_point run) (bd_points db) (enumerate 1 (br_equity_points result)))"

definition insert_metrics :: "nat \<Rightarrow> backtest_result \<Rightarrow> backtest_db \<Rightarrow> store_error + backtest_db" where
  "insert_metrics run result db =
     res_map (\<lambda>rows. db\<lparr>bd_metrics := rows\<rparr>)
       (res_foldM (insert_metric run) (bd_metrics db) (sort_key fst (br_metrics result)))"

definition insert_artifacts :: "nat \<Rightarrow> py_dict list \<Rightarrow> backtest_db \<Rightarrow> store_error + backtest_db" where
  "insert_artifacts run artifacts db =
     res_map (\<lambda>rows. db\<lparr>bd_artifacts := rows\<rparr>)
       (res_foldM (insert_artifact run) (bd_artifacts db) artifacts)"

definition insert_result :: "nat \<Rightarrow> backtest_result \<Rightarrow> py_dict list \<Rightarrow> backtest_db \<Rightarrow> store_error + backtest_db" where
  "insert_result run result artifacts db =
     res_bind (insert_trades run result db) (\<lambda>db1.
     res_bind (insert_equity_points run result db1) (\<lambda>db2.
     res_bind (insert_metrics run result db2) (\<lambda>db3. insert_artifacts run artifacts db3)))"

section \<open>Reading a run\<close>

definition run_status_view :: "run_status \<Rightarrow> string" where
  "run_status_view s =
     (case s of Run_queued \<Rightarrow> ''pending'' | Run_retry_wait \<Rightarrow> ''pending'' | Run_dead_letter \<Rightarrow> ''failed''
      | Run_running \<Rightarrow> ''running'' | Run_succeeded \<Rightarrow> ''succeeded'' | Run_failed \<Rightarrow> ''failed''
      | Run_cancelled \<Rightarrow> ''cancelled'')"

record run_summary =
  rs_id :: nat
  rs_strategy :: nat
  rs_dataset :: nat
  rs_engine :: string
  rs_status :: string
  rs_input_hash :: string
  rs_result_hash :: "string option"
  rs_requested :: int
  rs_started :: "int option"
  rs_finished :: "int option"

definition run_summary_of :: "backtest_run \<Rightarrow> run_summary" where
  "run_summary_of r =
     \<lparr>rs_id = bk_id r, rs_strategy = bk_strategy r, rs_dataset = bk_dataset r, rs_engine = bk_engine r,
      rs_status = run_status_view (bk_status r), rs_input_hash = bk_input_hash r, rs_result_hash = bk_result_hash r,
      rs_requested = bk_requested r, rs_started = bk_started r, rs_finished = bk_finished r\<rparr>"

record run_view =
  rv_run :: backtest_run
  rv_status :: string
  rv_metrics :: "metric_row list"
  rv_trades :: "trade_row list"
  rv_artifacts :: "artifact_row list"

definition get_run :: "backtest_db \<Rightarrow> nat \<Rightarrow> run_view option" where
  "get_run db k =
     map_option (\<lambda>r.
       \<lparr>rv_run = r, rv_status = run_status_view (bk_status r),
        rv_metrics = sort_key bm_name (filter (\<lambda>m. bm_run m = k) (bd_metrics db)),
        rv_trades = sort_key bt_sequence (filter (\<lambda>t. bt_run t = k) (bd_trades db)),
        rv_artifacts = sort_key ba_type (filter (\<lambda>a. ba_run a = k) (bd_artifacts db))\<rparr>)
       (row_by bk_id k (bd_runs db))"

definition get_run_summary :: "backtest_db \<Rightarrow> py_value \<Rightarrow> store_error + run_summary option" where
  "get_run_summary db v =
     res_map (\<lambda>k. map_option run_summary_of (row_by bk_id k (bd_runs db))) (positive_int v ''backtestRunId'')"

section \<open>Creating a run\<close>

definition stable_sequence :: "dataset_candle \<Rightarrow> string" where
  "stable_sequence c =
     (case dc_revision c of Some (k, _) \<Rightarrow> ''source:'' @ nat_str k
      | None \<Rightarrow> (case dc_rollup c of Some (k, _) \<Rightarrow> ''rollup:'' @ nat_str k | None \<Rightarrow> ''None''))"

text \<open>\<^verbatim>\<open>COALESCE(revision.column, rollup.column)\<close>.\<close>

definition candle_price :: "(candle_prices \<Rightarrow> dec) \<Rightarrow> dataset_candle \<Rightarrow> py_value" where
  "candle_price column c =
     (case dc_revision c of Some (_, p) \<Rightarrow> PyDecimal (column p)
      | None \<Rightarrow> (case dc_rollup c of Some (_, p) \<Rightarrow> PyDecimal (column p) | None \<Rightarrow> PyNone))"

definition candle_event :: "dataset_candle \<Rightarrow> backtest_candle_event" where
  "candle_event c =
     \<lparr>ce_instrument_id = int (dc_instrument c), ce_market_code = dc_market c, ce_occurred_at = utc (dc_occurred c),
      ce_knowledge_at = utc (dc_knowledge c), ce_stable_sequence = stable_sequence c,
      ce_open = candle_price cp_open c, ce_high = candle_price cp_high c, ce_low = candle_price cp_low c,
      ce_close = candle_price cp_close c, ce_volume = candle_price cp_volume c, ce_quality = dc_quality c,
      ce_content_hash = dc_hash c, ce_source_priority = 20\<rparr>"

definition load_candle_events :: "backtest_db \<Rightarrow> nat \<Rightarrow> backtest_candle_event list" where
  "load_candle_events db dataset =
     map candle_event (sort_key (\<lambda>c. (dc_knowledge c, stable_sequence c))
       (filter (\<lambda>c. dc_dataset c = dataset) (bd_candles db)))"

definition engine_spec_payload :: "backtest_engine_spec \<Rightarrow> py_value" where
  "engine_spec_payload s = PyDict
     [(''datasetVersionId'', PyInt (es_dataset_version_id s)), (''datasetContentHash'', PyStr (es_dataset_content_hash s)),
      (''strategyVersionId'', PyInt (es_strategy_version_id s)), (''strategyGraphHash'', PyStr (es_strategy_graph_hash s)),
      (''engineVersion'', PyStr (es_engine_version s)), (''parameterHash'', PyStr (es_parameter_hash s)),
      (''seed'', PyInt (es_seed s)), (''initialCash'', PyStr (py_str (es_initial_cash s))),
      (''execution'', PyDict
         [(''fee_rate'', PyStr (py_str (ex_fee_rate (es_execution s)))),
          (''slippage_bps'', PyStr (py_str (ex_slippage_bps (es_execution s)))),
          (''latency_seconds'', PyInt (ex_latency_seconds (es_execution s))),
          (''max_participation_rate'', PyStr (py_str (ex_max_participation_rate (es_execution s))))])]"

definition engine_event_payload :: "backtest_candle_event \<Rightarrow> py_value" where
  "engine_event_payload e = PyDict
     [(''instrumentId'', PyInt (ce_instrument_id e)), (''marketCode'', PyStr (ce_market_code e)),
      (''occurredAt'', PyStr (json_time (instant (ce_occurred_at e)))),
      (''knowledgeAt'', PyStr (json_time (instant (ce_knowledge_at e)))),
      (''stableSequence'', PyStr (ce_stable_sequence e)), (''sourcePriority'', PyInt (ce_source_priority e)),
      (''open'', PyStr (py_str (ce_open e))), (''high'', PyStr (py_str (ce_high e))),
      (''low'', PyStr (py_str (ce_low e))), (''close'', PyStr (py_str (ce_close e))),
      (''volume'', PyStr (py_str (ce_volume e))), (''quality'', PyStr (ce_quality e)),
      (''contentHash'', PyStr (ce_content_hash e))]"

definition run_input_payload :: "dataset_row \<Rightarrow> backtest_engine_spec \<Rightarrow> backtest_candle_event list \<Rightarrow> string list \<Rightarrow> py_dict" where
  "run_input_payload d spec candles assumptions =
     [(''kind'', PyStr ''backtest-run-input-v1''), (''spec'', engine_spec_payload spec),
      (''events'', PyList (map engine_event_payload candles)), (''signals'', PyList []),
      (''assumptions'', PyList (map PyStr assumptions)),
      (''dataset'', PyDict
         [(''asOf'', PyStr (json_time (dv_as_of d))), (''from'', PyStr (json_time (dv_from d))),
          (''to'', PyStr (json_time (dv_to d))), (''fillPolicy'', PyStr (dv_fill d)),
          (''missingPolicy'', PyStr (dv_missing d))])]"

text \<open>The inputs a run may be created from: a published version with its graph, and a sealed data set.\<close>

definition run_material :: "backtest_db \<Rightarrow> nat \<Rightarrow> nat \<Rightarrow> (strategy_version \<times> dataset_row) option" where
  "run_material db strategy dataset =
     (case row_by vn_id strategy (sb_versions (bd_strategies db)) of None \<Rightarrow> None
      | Some v \<Rightarrow>
          if \<not> list_ex (\<lambda>g. gr_version g = vn_id v \<and> gr_hash g = vn_graph_hash v) (sb_graphs (bd_strategies db)) then None
          else (case row_by dv_id dataset (bd_datasets db) of None \<Rightarrow> None
                | Some d \<Rightarrow> if dv_sealed d then Some (v, d) else None))"

definition MAX_BIGINT :: int where "MAX_BIGINT = 9223372036854775807"
definition MAX_INTEGER :: nat where "MAX_INTEGER = 2147483647"

text \<open>The constraints and triggers of an insert into \<^verbatim>\<open>backtest_runs\<close>.\<close>

definition run_identity :: "backtest_run \<Rightarrow> nat \<times> nat \<times> string \<times> string \<times> int" where
  "run_identity r = (bk_strategy r, bk_dataset r, bk_engine r, bk_parameter_hash r, bk_seed r)"

definition inputs_valid :: "backtest_db \<Rightarrow> backtest_run \<Rightarrow> bool" where
  "inputs_valid db r \<longleftrightarrow>
     list_ex (\<lambda>v. vn_id v = bk_strategy r \<and> vn_graph_hash v = bk_graph_hash r) (sb_versions (bd_strategies db)) \<and>
     list_ex (\<lambda>d. dv_id d = bk_dataset r \<and> dv_hash d = bk_dataset_hash r \<and> dv_sealed d) (bd_datasets db)"

definition run_columns_valid :: "backtest_run \<Rightarrow> bool" where
  "run_columns_valid r \<longleftrightarrow>
     list_all is_hash [bk_graph_hash r, bk_dataset_hash r, bk_input_hash r, bk_parameter_hash r, bk_request_hash r] \<and>
     (case bk_result_hash r of None \<Rightarrow> True | Some h \<Rightarrow> is_hash h) \<and> strip (bk_engine r) \<noteq> []"

definition insert_run :: "backtest_db \<Rightarrow> backtest_run \<Rightarrow> store_error + backtest_db" where
  "insert_run db r =
     (if bk_seed r < - MAX_BIGINT - 1 \<or> MAX_BIGINT < bk_seed r \<or> MAX_INTEGER < bk_max_attempts r then Inl Numeric_overflow
      else if \<not> inputs_valid db r \<or> \<not> run_columns_valid r then Inl (Check_violation ''backtest_runs'')
      else if run_identity r \<in> set (map run_identity (bd_runs db)) \<or>
              bk_input_hash r \<in> set (map bk_input_hash (bd_runs db)) \<or> bk_key r \<in> set (map bk_key (bd_runs db))
      then Inl (Unique_violation ''backtest_runs'')
      else Inr (db\<lparr>bd_runs := bd_runs db @ [r], seq_backtests := seq_backtests db + 1\<rparr>))"

record run_request =
  rn_request_id :: py_value
  rn_idempotency_key :: py_value
  rn_actor_id :: py_value
  rn_requested_at :: datetime
  rn_reason :: py_value
  rn_strategy :: py_value
  rn_dataset :: py_value
  rn_engine :: py_value
  rn_parameters :: py_value
  rn_seed :: py_value
  rn_initial_cash :: py_value
  rn_execution :: py_value
  rn_max_attempts :: py_value

record run_command =
  rc_request :: string
  rc_key :: string
  rc_actor :: string
  rc_reason_text :: string
  rc_strategy :: nat
  rc_dataset :: nat
  rc_engine :: string
  rc_parameters :: py_dict
  rc_seed :: int
  rc_cash :: dec
  rc_execution :: "dec \<times> dec \<times> int \<times> dec"
  rc_max_attempts :: nat

definition run_command_of :: "run_request \<Rightarrow> store_error + run_command" where
  "run_command_of q =
     res_bind (store_text (rn_request_id q) ''requestId'') (\<lambda>request_id.
     res_bind (store_text (rn_idempotency_key q) ''idempotencyKey'') (\<lambda>key.
     res_bind (store_text (rn_actor_id q) ''actorId'') (\<lambda>actor.
     res_bind (store_text (rn_reason q) ''reason'') (\<lambda>reason.
     res_bind (positive_int (rn_strategy q) ''strategyVersionId'') (\<lambda>strategy.
     res_bind (positive_int (rn_dataset q) ''datasetVersionId'') (\<lambda>dataset.
     res_bind (store_text (rn_engine q) ''engineVersion'') (\<lambda>engine.
     res_bind (parameter_payload (rn_parameters q)) (\<lambda>parameters.
     res_bind (seed_of (rn_seed q)) (\<lambda>seed.
     res_bind (decimal_argument (rn_initial_cash q) ''initialCash'') (\<lambda>cash.
     res_bind (execution_arguments (rn_execution q)) (\<lambda>execution.
     res_map (\<lambda>max_attempts.
        \<lparr>rc_request = request_id, rc_key = key, rc_actor = actor, rc_reason_text = reason, rc_strategy = strategy,
         rc_dataset = dataset, rc_engine = engine, rc_parameters = parameters, rc_seed = seed, rc_cash = cash,
         rc_execution = execution, rc_max_attempts = max_attempts\<rparr>)
       (positive_int (rn_max_attempts q) ''maxAttempts''))))))))))))"

definition command_payload :: "run_command \<Rightarrow> datetime \<Rightarrow> py_dict" where
  "command_payload c requested_at =
     [(''requestId'', PyStr (rc_request c)), (''idempotencyKey'', PyStr (rc_key c)), (''actorId'', PyStr (rc_actor c)),
      (''requestedAt'', PyStr (isoformat requested_at)), (''reason'', PyStr (rc_reason_text c)),
      (''strategyVersionId'', PyInt (int (rc_strategy c))), (''datasetVersionId'', PyInt (int (rc_dataset c))),
      (''engineVersion'', PyStr (rc_engine c)), (''parameters'', PyDict (rc_parameters c)), (''seed'', PyInt (rc_seed c)),
      (''initialCash'', PyStr (dec_str (rc_cash c))), (''execution'', execution_payload (rc_execution c)),
      (''maxAttempts'', PyInt (int (rc_max_attempts c)))]"

definition engine_spec_of :: "run_command \<Rightarrow> strategy_version \<Rightarrow> dataset_row \<Rightarrow> string \<Rightarrow> backtest_engine_spec" where
  "engine_spec_of c v d parameter_hash =
     (case rc_execution c of (fee, slippage, latency, participation) \<Rightarrow>
       \<lparr>es_dataset_version_id = int (dv_id d), es_dataset_content_hash = dv_hash d,
        es_strategy_version_id = int (vn_id v), es_strategy_graph_hash = vn_graph_hash v,
        es_engine_version = rc_engine c, es_parameter_hash = parameter_hash, es_seed = rc_seed c,
        es_initial_cash = PyDecimal (rc_cash c),
        es_execution = \<lparr>ex_fee_rate = PyDecimal fee, ex_slippage_bps = PyDecimal slippage,
          ex_latency_seconds = latency, ex_max_participation_rate = PyDecimal participation\<rparr>\<rparr>)"

definition new_run :: "backtest_db \<Rightarrow> run_command \<Rightarrow> int \<Rightarrow> strategy_version \<Rightarrow> dataset_row \<Rightarrow> string \<Rightarrow> string \<Rightarrow>
    string \<Rightarrow> py_dict \<Rightarrow> string list \<Rightarrow> backtest_run" where
  "new_run db c requested v d inh parameter_hash request_hash payload assumptions =
     \<lparr>bk_id = seq_backtests db, bk_strategy = vn_id v, bk_graph_hash = vn_graph_hash v, bk_dataset = dv_id d,
      bk_dataset_hash = dv_hash d, bk_engine = rc_engine c, bk_status = Run_queued, bk_input_hash = inh,
      bk_input = payload, bk_result_hash = None, bk_parameter_hash = parameter_hash, bk_seed = rc_seed c,
      bk_assumptions = assumptions, bk_key = rc_key c, bk_request = rc_request c, bk_actor = rc_actor c,
      bk_requested = requested, bk_reason = rc_reason_text c, bk_request_hash = request_hash, bk_started = None,
      bk_finished = None, bk_attempts = 0, bk_max_attempts = rc_max_attempts c, bk_next_retry = None,
      bk_owner = None, bk_expires = None, bk_generation = 0, bk_error_code = None, bk_error_message = None,
      bk_dead_reason = None\<rparr>"

definition create_run :: "backtest_db \<Rightarrow> run_request \<Rightarrow> backtest_error + run_summary \<times> backtest_db" where
  "create_run db q =
     res_bind (bk_lift (run_command_of q)) (\<lambda>c.
     res_bind (bk_lift (store_hash (command_payload c (rn_requested_at q)))) (\<lambda>request_hash.
     res_bind (bk_lift (store_hash (rc_parameters c))) (\<lambda>parameter_hash.
     case row_by bk_key (rc_key c) (bd_runs db) of
       Some r \<Rightarrow>
         if bk_request_hash r \<noteq> request_hash then Inl (Bk_store Idempotency_conflict) else Inr (run_summary_of r, db)
     | None \<Rightarrow>
         (case run_material db (rc_strategy c) (rc_dataset c) of
            None \<Rightarrow> Inl Bk_not_ready
          | Some (v, d) \<Rightarrow>
              let spec = engine_spec_of c v d parameter_hash;
                  candles = load_candle_events db (dv_id d)
              in res_bind (bk_lift_engine (run_candle_backtest spec candles [])) (\<lambda>preview.
                 if br_input_hash preview \<in> set (map bk_input_hash (bd_runs db))
                 then Inl (Bk_store Idempotency_conflict)
                 else
                   let r = new_run db c (instant (rn_requested_at q)) v d (br_input_hash preview) parameter_hash
                         request_hash (run_input_payload d spec candles (br_assumptions preview)) (br_assumptions preview)
                   in res_map (\<lambda>db'. (run_summary_of r, db')) (bk_lift (insert_run db r)))))))"

section \<open>Storing a finished run\<close>

record save_request =
  sr_request_id :: py_value
  sr_idempotency_key :: py_value
  sr_actor_id :: py_value
  sr_requested_at :: datetime
  sr_reason :: py_value
  sr_started_at :: "datetime option"
  sr_completed_at :: "datetime option"
  sr_artifacts :: py_value

definition persist_completed_run ::
  "backtest_db \<Rightarrow> save_request \<Rightarrow> backtest_engine_spec \<Rightarrow> backtest_result \<Rightarrow> store_error + run_view \<times> backtest_db" where
  "persist_completed_run db q spec result =
     res_bind (artifact_inputs (sr_artifacts q)) (\<lambda>artifacts.
     res_bind (store_text (sr_request_id q) ''requestId'') (\<lambda>request_id.
     res_bind (store_text (sr_idempotency_key q) ''idempotencyKey'') (\<lambda>key.
     res_bind (store_text (sr_actor_id q) ''actorId'') (\<lambda>actor.
     res_bind (store_text (sr_reason q) ''reason'') (\<lambda>reason.
     res_bind (store_hash
        [(''requestId'', PyStr request_id), (''idempotencyKey'', PyStr key), (''actorId'', PyStr actor),
         (''requestedAt'', PyStr (isoformat (sr_requested_at q))), (''reason'', PyStr reason),
         (''inputHash'', PyStr (br_input_hash result)), (''resultHash'', PyStr (br_result_hash result))]) (\<lambda>request_hash.
     let requested = instant (sr_requested_at q);
         or_requested = (\<lambda>t. Some (case t of None \<Rightarrow> requested | Some d \<Rightarrow> instant d))
     in case row_by bk_key key (bd_runs db) of
       Some r \<Rightarrow>
         if bk_request_hash r \<noteq> request_hash then Inl Idempotency_conflict
         else (case get_run db (bk_id r) of None \<Rightarrow> Inl (Value_error ''run'') | Some view \<Rightarrow> Inr (view, db))
     | None \<Rightarrow>
         let k = seq_backtests db;
             r = \<lparr>bk_id = k, bk_strategy = nat (es_strategy_version_id spec), bk_graph_hash = es_strategy_graph_hash spec,
                  bk_dataset = nat (es_dataset_version_id spec), bk_dataset_hash = es_dataset_content_hash spec,
                  bk_engine = es_engine_version spec, bk_status = Run_succeeded, bk_input_hash = br_input_hash result,
                  bk_input = [], bk_result_hash = Some (br_result_hash result),
                  bk_parameter_hash = es_parameter_hash spec, bk_seed = es_seed spec,
                  bk_assumptions = br_assumptions result, bk_key = key, bk_request = request_id, bk_actor = actor,
                  bk_requested = requested, bk_reason = reason, bk_request_hash = request_hash,
                  bk_started = or_requested (sr_started_at q), bk_finished = or_requested (sr_completed_at q),
                  bk_attempts = 0, bk_max_attempts = 3, bk_next_retry = None, bk_owner = None, bk_expires = None,
                  bk_generation = 0, bk_error_code = None, bk_error_message = None, bk_dead_reason = None\<rparr>
         in res_bind (insert_run db r) (\<lambda>db1.
            res_bind (insert_result k result artifacts db1) (\<lambda>db2.
            case get_run db2 k of None \<Rightarrow> Inl (Value_error ''run'') | Some view \<Rightarrow> Inr (view, db2)))))))))"

section \<open>Listing\<close>

definition list_runs ::
  "backtest_db \<Rightarrow> nat \<Rightarrow> (nat \<times> nat) option \<Rightarrow> store_error + run_summary list \<times> (nat \<times> nat) option" where
  "list_runs db page_size cursor =
     (if page_size < 1 then Inl (Value_error ''pageSize'')
      else case keyset_page bk_id (bd_runs db) page_size cursor of
        (page, next_page) \<Rightarrow> Inr (map run_summary_of page, next_page))"

text \<open>The rows of a run are numbered from one and read in that order.\<close>

definition child_page :: "('r \<Rightarrow> nat) \<Rightarrow> 'r list \<Rightarrow> nat \<Rightarrow> (nat \<times> nat) option \<Rightarrow> 'r list \<times> (nat \<times> nat) option" where
  "child_page key rows page_size cursor =
     (let bounds = (case cursor of Some c \<Rightarrow> c | None \<Rightarrow> (Max (insert 0 (key ` set rows)), 0));
          found = take (page_size + 1)
            (sort_key key (filter (\<lambda>r. key r \<le> fst bounds \<and> snd bounds < key r) rows));
          page = take page_size found
      in (page, if page_size < length found \<and> page \<noteq> [] then Some (fst bounds, key (last page)) else None))"

record result_cursor =
  rx_run :: nat
  rx_ceiling :: nat
  rx_last :: nat

definition list_child_rows ::
  "('r \<Rightarrow> nat) \<Rightarrow> 'r list \<Rightarrow> backtest_db \<Rightarrow> nat \<Rightarrow> nat \<Rightarrow> result_cursor option \<Rightarrow>
     store_error + ('r list \<times> result_cursor option) option" where
  "list_child_rows key rows db run page_size cursor =
     (if page_size < 1 then Inl (Value_error ''pageSize'')
      else if run \<notin> set (map bk_id (bd_runs db)) then Inr None
      else if (case cursor of Some c \<Rightarrow> rx_run c \<noteq> run | None \<Rightarrow> False) then Inl Cursor_mismatch
      else
        case child_page key rows page_size (map_option (\<lambda>c. (rx_ceiling c, rx_last c)) cursor) of
          (page, next_page) \<Rightarrow>
            Inr (Some (page, map_option (\<lambda>(ceil, last_seq). \<lparr>rx_run = run, rx_ceiling = ceil, rx_last = last_seq\<rparr>) next_page)))"

definition list_run_trades ::
  "backtest_db \<Rightarrow> py_value \<Rightarrow> py_value \<Rightarrow> result_cursor option \<Rightarrow> store_error + (trade_row list \<times> result_cursor option) option" where
  "list_run_trades db run_id page_size cursor =
     res_bind (positive_int run_id ''backtestRunId'') (\<lambda>run.
     res_bind (positive_int page_size ''pageSize'') (\<lambda>size.
     list_child_rows bt_sequence (filter (\<lambda>t. bt_run t = run) (bd_trades db)) db run size cursor))"

definition list_run_equity_points ::
  "backtest_db \<Rightarrow> py_value \<Rightarrow> py_value \<Rightarrow> result_cursor option \<Rightarrow> store_error + (equity_row list \<times> result_cursor option) option" where
  "list_run_equity_points db run_id page_size cursor =
     res_bind (positive_int run_id ''backtestRunId'') (\<lambda>run.
     res_bind (positive_int page_size ''pageSize'') (\<lambda>size.
     list_child_rows bq_sequence (filter (\<lambda>p. bq_run p = run) (bd_points db)) db run size cursor))"

section \<open>Signed cursors\<close>

definition word_bytes :: "w32 \<Rightarrow> w32 list" where
  "word_bytes w = map (\<lambda>i. take_bit 8 (drop_bit (8 * (3 - i)) w)) [0..<4]"

text \<open>\<^verbatim>\<open>hmac.new(key, message, hashlib.sha256).hexdigest()\<close> (RFC 2104).\<close>

definition hmac_sha256 :: "string \<Rightarrow> string \<Rightarrow> string" where
  "hmac_sha256 secret message =
     (let bytes = map of_char secret;
          short = (if 64 < length bytes then concat (map word_bytes (sha256_words bytes)) else bytes);
          block = short @ replicate (64 - length short) 0;
          inner = sha256_words (map (xor 0x36) block @ map of_char message)
      in concat (map hex_word (sha256_words (map (xor 0x5c) block @ concat (map word_bytes inner)))))"

definition cursor_digest :: "string \<Rightarrow> py_dict \<Rightarrow> store_error + string" where
  "cursor_digest secret payload =
     res_map (\<lambda>j. hmac_sha256 secret (json_dumps j)) (json_encode Not_serialisable (PyDict payload))"

definition cursor_envelope :: "string \<Rightarrow> string \<Rightarrow> py_dict \<Rightarrow> store_error + py_dict" where
  "cursor_envelope secret kind payload =
     res_map (\<lambda>d. [(''kind'', PyStr kind), (''payload'', PyDict payload), (''digest'', PyStr d)])
       (cursor_digest secret payload)"

definition open_envelope :: "string \<Rightarrow> string \<Rightarrow> py_value \<Rightarrow> store_error + py_dict" where
  "open_envelope secret kind v =
     (case v of
        PyDict envelope \<Rightarrow>
          if dict_get envelope ''kind'' \<noteq> PyStr kind then Inl Cursor_mismatch
          else (case (dict_get envelope ''payload'', dict_get envelope ''digest'') of
              (PyDict payload, PyStr digest) \<Rightarrow>
                if cursor_digest secret payload = Inr digest then Inr payload else Inl Cursor_mismatch
            | _ \<Rightarrow> Inl Cursor_mismatch)
      | _ \<Rightarrow> Inl Cursor_mismatch)"

definition LIST_CURSOR_KIND :: string where "LIST_CURSOR_KIND = ''backtest-run-list-v1''"
definition TRADE_CURSOR_KIND :: string where "TRADE_CURSOR_KIND = ''backtest-trade-list-v1''"
definition EQUITY_CURSOR_KIND :: string where "EQUITY_CURSOR_KIND = ''backtest-equity-list-v1''"

definition encode_list_cursor :: "string \<Rightarrow> nat \<times> nat \<Rightarrow> store_error + py_dict" where
  "encode_list_cursor secret c =
     cursor_envelope secret LIST_CURSOR_KIND [(''ceiling'', PyInt (int (fst c))), (''lastId'', PyInt (int (snd c)))]"

definition decode_list_cursor :: "string \<Rightarrow> py_value \<Rightarrow> store_error + nat \<times> nat" where
  "decode_list_cursor secret v =
     res_bind (open_envelope secret LIST_CURSOR_KIND v) (\<lambda>payload.
     case (dict_get payload ''ceiling'', dict_get payload ''lastId'') of
       (PyInt c, PyInt l) \<Rightarrow>
         if c < 0 \<or> l < 1 \<or> c + 1 < l then Inl Cursor_mismatch else Inr (nat c, nat l)
     | _ \<Rightarrow> Inl Cursor_mismatch)"

definition encode_result_cursor :: "string \<Rightarrow> string \<Rightarrow> result_cursor \<Rightarrow> store_error + py_dict" where
  "encode_result_cursor secret kind c =
     cursor_envelope secret kind
       [(''backtestRunId'', PyInt (int (rx_run c))), (''ceiling'', PyInt (int (rx_ceiling c))),
        (''lastSequence'', PyInt (int (rx_last c)))]"

definition decode_result_cursor :: "string \<Rightarrow> string \<Rightarrow> py_value \<Rightarrow> store_error + result_cursor" where
  "decode_result_cursor secret kind v =
     res_bind (open_envelope secret kind v) (\<lambda>payload.
     case (dict_get payload ''backtestRunId'', dict_get payload ''ceiling'', dict_get payload ''lastSequence'') of
       (PyInt r, PyInt c, PyInt l) \<Rightarrow>
         if r < 1 \<or> c < 0 \<or> l < 0 \<or> c < l then Inl Cursor_mismatch
         else Inr \<lparr>rx_run = nat r, rx_ceiling = nat c, rx_last = nat l\<rparr>
     | _ \<Rightarrow> Inl Cursor_mismatch)"

lemma cursor_digest_numbers:
  "\<exists>d. cursor_digest secret [(a, PyInt x), (b, PyInt y)] = Inr d"
  "\<exists>d. cursor_digest secret [(a, PyInt x), (b, PyInt y), (c, PyInt z)] = Inr d"
  by (simp_all add: cursor_digest_def)

text \<open>C40. 
  A cursor reads back to the position it was made for, and a cursor that is accepted carries the keyed digest
  of its own payload under the kind that was asked for: a changed number or another run is refused unless the
  digest was made with the secret. (The kind itself is not part of the digest, see below.)
\<close>
theorem result_cursor_roundtrip:
  assumes "1 \<le> rx_run c" "rx_last c \<le> rx_ceiling c"
  shows "(\<exists>e. encode_result_cursor secret kind c = Inr e \<and> decode_result_cursor secret kind (PyDict e) = Inr c \<and>
      (\<forall>other. other \<noteq> kind \<longrightarrow> decode_result_cursor secret other (PyDict e) = Inl Cursor_mismatch)) \<and>
    (\<forall>v c'. decode_result_cursor secret kind v = Inr c' \<longrightarrow>
      (\<exists>envelope payload digest. v = PyDict envelope \<and> dict_get envelope ''kind'' = PyStr kind \<and>
         dict_get envelope ''payload'' = PyDict payload \<and> dict_get envelope ''digest'' = PyStr digest \<and>
         cursor_digest secret payload = Inr digest \<and>
         dict_get payload ''backtestRunId'' = PyInt (int (rx_run c')) \<and>
         dict_get payload ''ceiling'' = PyInt (int (rx_ceiling c')) \<and>
         dict_get payload ''lastSequence'' = PyInt (int (rx_last c'))))"
proof (intro conjI allI impI)
  let ?payload = "[(''backtestRunId'', PyInt (int (rx_run c))), (''ceiling'', PyInt (int (rx_ceiling c))),
        (''lastSequence'', PyInt (int (rx_last c)))]"
  obtain d where d: "cursor_digest secret ?payload = Inr d" using cursor_digest_numbers(2) by blast
  then show "\<exists>e. encode_result_cursor secret kind c = Inr e \<and> decode_result_cursor secret kind (PyDict e) = Inr c \<and>
      (\<forall>other. other \<noteq> kind \<longrightarrow> decode_result_cursor secret other (PyDict e) = Inl Cursor_mismatch)"
    using assms
    by (simp add: encode_result_cursor_def decode_result_cursor_def cursor_envelope_def open_envelope_def dict_get_def)
next
  fix v c' assume accepted: "decode_result_cursor secret kind v = Inr c'"
  then obtain payload where "open_envelope secret kind v = Inr payload" by (auto simp: decode_result_cursor_def res_bind_eq_Inr_iff)
  moreover from this obtain envelope digest where "v = PyDict envelope" "dict_get envelope ''kind'' = PyStr kind"
    "dict_get envelope ''payload'' = PyDict payload" "dict_get envelope ''digest'' = PyStr digest"
    "cursor_digest secret payload = Inr digest"
    by (auto simp: open_envelope_def split: py_value.splits if_splits)
  moreover have "dict_get payload ''backtestRunId'' = PyInt (int (rx_run c')) \<and>
      dict_get payload ''ceiling'' = PyInt (int (rx_ceiling c')) \<and>
      dict_get payload ''lastSequence'' = PyInt (int (rx_last c'))"
    using accepted calculation(1) by (auto simp: decode_result_cursor_def split: py_value.splits if_splits)
  ultimately show "\<exists>envelope payload digest. v = PyDict envelope \<and> dict_get envelope ''kind'' = PyStr kind \<and>
         dict_get envelope ''payload'' = PyDict payload \<and> dict_get envelope ''digest'' = PyStr digest \<and>
         cursor_digest secret payload = Inr digest \<and>
         dict_get payload ''backtestRunId'' = PyInt (int (rx_run c')) \<and>
         dict_get payload ''ceiling'' = PyInt (int (rx_ceiling c')) \<and>
         dict_get payload ''lastSequence'' = PyInt (int (rx_last c'))" by blast
qed

text \<open>Relabelling a cursor of one listing as a cursor of another goes unnoticed.\<close>

lemma cursor_kind_not_signed:
  assumes "encode_result_cursor secret kind c = Inr e" "1 \<le> rx_run c" "rx_last c \<le> rx_ceiling c"
  shows "decode_result_cursor secret other (PyDict (map (\<lambda>(k, v). (k, if k = ''kind'' then PyStr other else v)) e)) = Inr c"
  using assms by (auto simp: encode_result_cursor_def decode_result_cursor_def cursor_envelope_def open_envelope_def
      dict_get_def res_map_eq_Inr_iff)

lemma result_cursor_roundtrip_witness:
  "\<exists>e. encode_result_cursor ''secret'' TRADE_CURSOR_KIND \<lparr>rx_run = 3, rx_ceiling = 9, rx_last = 4\<rparr> = Inr e \<and>
     decode_result_cursor ''secret'' TRADE_CURSOR_KIND (PyDict e) = Inr \<lparr>rx_run = 3, rx_ceiling = 9, rx_last = 4\<rparr> \<and>
     decode_result_cursor ''secret'' EQUITY_CURSOR_KIND (PyDict e) = Inl Cursor_mismatch"
  using result_cursor_roundtrip [of "\<lparr>rx_run = 3, rx_ceiling = 9, rx_last = 4\<rparr>" "''secret''" TRADE_CURSOR_KIND]
  by (auto simp: TRADE_CURSOR_KIND_def EQUITY_CURSOR_KIND_def)

end
