(* ===== verification/Backtest_Queue.thy ===== *)
theory Backtest_Queue
  imports Backtest_Store Lease_Protocol
begin

text \<open>
  The queue of backtest runs (\<^verbatim>\<open>claim_next_run\<close>, \<^verbatim>\<open>complete_claimed_run\<close> and
  \<^verbatim>\<open>fail_claimed_run\<close> of \<^verbatim>\<open>backtest_store.py\<close>) and its worker (\<^verbatim>\<open>backtest_worker.py\<close>), as a step
  relation on the tables. \<open>now\<close> is the clock reading of the guards, \<open>upd\<close> the later one of what a
  statement writes.

  Shown: a worker that lost its lease is fenced off for good, a finished run never changes again and its rows
  are those of one result, an exhausted run cannot block the queue; and a correct result with two executions at
  one time is refused by the schema.
\<close>

section \<open>Operations\<close>

text \<open>
  An \<^verbatim>\<open>UPDATE\<close> of \<^verbatim>\<open>backtest_runs\<close>: the triggers refuse a run whose inputs are not valid and a finished
  one; of the columns with constraints only the result hash takes a value from outside.
\<close>

definition run_sealed :: "backtest_run \<Rightarrow> bool" where
  "run_sealed r \<longleftrightarrow> bk_status r \<in> {Run_succeeded, Run_failed, Run_cancelled, Run_dead_letter}"

definition result_hash_valid :: "backtest_run \<Rightarrow> backtest_run \<Rightarrow> bool" where
  "result_hash_valid r r' \<longleftrightarrow>
     bk_result_hash r' = bk_result_hash r \<or> (case bk_result_hash r' of None \<Rightarrow> True | Some h \<Rightarrow> is_hash h)"

definition update_runs ::
  "(backtest_run \<Rightarrow> bool) \<Rightarrow> (backtest_run \<Rightarrow> backtest_run) \<Rightarrow> backtest_db \<Rightarrow> store_error + backtest_db" where
  "update_runs hit f db =
     (if list_ex (\<lambda>r. hit r \<and> (run_sealed r \<or> \<not> inputs_valid db r \<or> \<not> result_hash_valid r (f r))) (bd_runs db)
      then Inl (Check_violation ''backtest_runs'')
      else Inr (db\<lparr>bd_runs := rows_update hit f (bd_runs db)\<rparr>))"

definition lease_expired :: "int \<Rightarrow> backtest_run \<Rightarrow> bool" where
  "lease_expired now r \<longleftrightarrow> bk_status r = Run_running \<and> (case bk_expires r of None \<Rightarrow> False | Some t \<Rightarrow> t \<le> now)"

definition run_due :: "int \<Rightarrow> backtest_run \<Rightarrow> bool" where
  "run_due now r \<longleftrightarrow>
     bk_attempts r < bk_max_attempts r \<and>
     (bk_status r = Run_queued \<or>
      (bk_status r = Run_retry_wait \<and> (case bk_next_retry r of None \<Rightarrow> False | Some t \<Rightarrow> t \<le> now)) \<or>
      lease_expired now r)"

definition bury_run :: "int \<Rightarrow> backtest_run \<Rightarrow> backtest_run" where
  "bury_run upd r =
     r\<lparr>bk_status := Run_dead_letter, bk_owner := None, bk_expires := None, bk_next_retry := None,
       bk_dead_reason := Some ''retry_attempts_exhausted'', bk_finished := Some upd\<rparr>"

definition lease_run :: "string \<Rightarrow> nat \<Rightarrow> int \<Rightarrow> backtest_run \<Rightarrow> backtest_run" where
  "lease_run owner lease_seconds upd r =
     r\<lparr>bk_status := Run_running, bk_owner := Some owner,
       bk_expires := Some (upd + int lease_seconds * second_us), bk_generation := bk_generation r + 1,
       bk_attempts := bk_attempts r + 1, bk_next_retry := None, bk_dead_reason := None,
       bk_started := Some (case bk_started r of None \<Rightarrow> upd | Some t \<Rightarrow> t), bk_finished := None\<rparr>"

definition claim_next_run ::
  "backtest_db \<Rightarrow> string \<Rightarrow> nat \<Rightarrow> int \<Rightarrow> int \<Rightarrow> (nat \<Rightarrow> bool) \<Rightarrow> store_error + backtest_run option \<times> backtest_db" where
  "claim_next_run db worker_id lease_seconds now upd locked =
     res_bind (store_non_blank worker_id ''workerId'') (\<lambda>owner.
     if lease_seconds < 1 then Inl (Value_error ''leaseSeconds'')
     else
     res_bind (update_runs (\<lambda>r. lease_expired now r \<and> bk_max_attempts r \<le> bk_attempts r) (bury_run upd) db) (\<lambda>db1.
     case sort_key (\<lambda>r. (bk_requested r, bk_id r))
            (filter (\<lambda>r. run_due now r \<and> \<not> locked (bk_id r)) (bd_runs db1)) of
       [] \<Rightarrow> Inr (None, db1)
     | c # _ \<Rightarrow>
         let hit = (\<lambda>r. bk_id r = bk_id c \<and> bk_generation r = bk_generation c)
         in res_map (\<lambda>db2. (row_by bk_id (bk_id c) (bd_runs db2), db2))
              (update_runs hit (lease_run owner lease_seconds upd) db1)))"

definition run_held :: "int \<Rightarrow> nat \<Rightarrow> string \<Rightarrow> nat \<Rightarrow> backtest_run \<Rightarrow> bool" where
  "run_held now k owner g r \<longleftrightarrow>
     bk_id r = k \<and> bk_status r = Run_running \<and> bk_owner r = Some owner \<and> bk_generation r = g \<and>
     (case bk_expires r of None \<Rightarrow> False | Some t \<Rightarrow> now < t)"

definition result_status :: "backtest_run_status \<Rightarrow> run_status" where
  "result_status s = (case s of Succeeded \<Rightarrow> Run_succeeded | Failed \<Rightarrow> Run_failed)"

definition finish_run :: "backtest_result \<Rightarrow> int \<Rightarrow> backtest_run \<Rightarrow> backtest_run" where
  "finish_run result at_time r =
     r\<lparr>bk_status := result_status (br_status result), bk_result_hash := Some (br_result_hash result),
       bk_assumptions := br_assumptions result, bk_owner := None, bk_expires := None, bk_finished := Some at_time\<rparr>"

definition complete_claimed_run ::
  "backtest_db \<Rightarrow> int \<Rightarrow> int \<Rightarrow> nat \<Rightarrow> string \<Rightarrow> nat \<Rightarrow> backtest_result \<Rightarrow> py_value \<Rightarrow> datetime option \<Rightarrow>
     store_error + run_view \<times> backtest_db" where
  "complete_claimed_run db now upd k worker_id g result artifacts completed_at =
     res_bind (store_non_blank worker_id ''workerId'') (\<lambda>owner.
     if k < 1 then Inl (Value_error ''backtestRunId'')
     else if g < 1 then Inl (Value_error ''leaseGeneration'')
     else
     res_bind (artifact_inputs artifacts) (\<lambda>artifact_rows.
     case find (run_held now k owner g) (bd_runs db) of
       None \<Rightarrow> Inl Lease_lost
     | Some r \<Rightarrow>
         if bk_input_hash r \<noteq> br_input_hash result then Inl (Value_error ''input_hash'')
         else
           res_bind (insert_result k result artifact_rows db) (\<lambda>db1.
           if find (run_held upd k owner g) (bd_runs db1) = None then Inl Lease_lost
           else
             res_bind (update_runs (run_held upd k owner g)
                 (finish_run result (case completed_at of None \<Rightarrow> upd | Some d \<Rightarrow> instant d)) db1) (\<lambda>db2.
             case get_run db2 k of None \<Rightarrow> Inl (Value_error ''run'') | Some view \<Rightarrow> Inr (view, db2)))))"

text \<open>\<^verbatim>\<open>LEAST(300, power(2, attempt_count)::integer)\<close>: the cast to a 32-bit integer comes first.\<close>

definition retry_seconds :: "nat \<Rightarrow> store_error + int" where
  "retry_seconds attempts = (if 2 ^ 31 \<le> (2 ^ attempts :: int) then Inl Numeric_overflow else Inr (min 300 (2 ^ attempts)))"

definition retry_run :: "string \<Rightarrow> string \<Rightarrow> int \<Rightarrow> int \<Rightarrow> backtest_run \<Rightarrow> backtest_run" where
  "retry_run code message upd seconds r =
     r\<lparr>bk_status := Run_retry_wait, bk_owner := None, bk_expires := None, bk_next_retry := Some (upd + seconds * second_us),
       bk_error_code := Some code, bk_error_message := Some message, bk_dead_reason := None, bk_finished := None\<rparr>"

definition give_up_run :: "string \<Rightarrow> string \<Rightarrow> int \<Rightarrow> backtest_run \<Rightarrow> backtest_run" where
  "give_up_run code message upd r =
     r\<lparr>bk_status := Run_dead_letter, bk_owner := None, bk_expires := None, bk_next_retry := None,
       bk_error_code := Some code, bk_error_message := Some message, bk_dead_reason := Some code, bk_finished := Some upd\<rparr>"

definition fail_claimed_run ::
  "backtest_db \<Rightarrow> int \<Rightarrow> int \<Rightarrow> nat \<Rightarrow> string \<Rightarrow> nat \<Rightarrow> string \<Rightarrow> string \<Rightarrow> store_error + backtest_run \<times> backtest_db" where
  "fail_claimed_run db now upd k worker_id g error_code message_text =
     res_bind (store_non_blank worker_id ''workerId'') (\<lambda>owner.
     res_bind (store_non_blank error_code ''errorCode'') (\<lambda>code.
     res_bind (store_non_blank message_text ''message'') (\<lambda>message.
     if k < 1 then Inl (Value_error ''backtestRunId'')
     else if g < 1 then Inl (Value_error ''leaseGeneration'')
     else
     case find (run_held now k owner g) (bd_runs db) of
       None \<Rightarrow> Inl Lease_lost
     | Some r \<Rightarrow>
         res_bind (if bk_max_attempts r \<le> bk_attempts r then Inr 0 else retry_seconds (bk_attempts r)) (\<lambda>seconds.
         let f = (if bk_max_attempts r \<le> bk_attempts r then give_up_run code message upd
                  else retry_run code message upd seconds)
         in res_map (\<lambda>db'. (f r, db')) (update_runs (run_held now k owner g) f db)))))"

section \<open>The worker\<close>

datatype backtest_pass = Pass nat | Pass_raised

record execution_output =
  xo_result :: backtest_result
  xo_artifacts :: py_value

definition record_run_failure ::
  "backtest_db \<Rightarrow> int \<Rightarrow> nat \<Rightarrow> string \<Rightarrow> nat \<Rightarrow> string \<Rightarrow> string \<Rightarrow> backtest_db" where
  "record_run_failure db now k worker g name message =
     (case fail_claimed_run db now now k worker g name (if message = [] then name else message) of
        Inl _ \<Rightarrow> db | Inr (_, db') \<Rightarrow> db')"

definition backtest_run_once ::
  "(backtest_run \<Rightarrow> (string \<times> string) + execution_output) \<Rightarrow> (store_error \<Rightarrow> string \<times> string) \<Rightarrow>
     (backtest_db \<Rightarrow> backtest_db) \<Rightarrow> (backtest_db \<Rightarrow> backtest_db) \<Rightarrow> string \<Rightarrow> int \<times> int \<times> int \<times> int \<Rightarrow> backtest_db \<Rightarrow>
     backtest_pass \<times> backtest_db" where
  "backtest_run_once executor error_text during after worker clock db =
     (case clock of (t1, t2, t3, t4) \<Rightarrow>
     (case claim_next_run db worker 120 t1 t1 (\<lambda>_. False) of
        Inl _ \<Rightarrow> (Pass_raised, db)
      | Inr (None, db1) \<Rightarrow> (Pass 0, db1)
      | Inr (Some claim, db1) \<Rightarrow>
          (case executor claim of
             Inl (name, message) \<Rightarrow>
               if name = ''BacktestLeaseLostError'' then (Pass 0, during db1)
               else (Pass_raised, record_run_failure (during db1) t4 (bk_id claim) worker (bk_generation claim) name message)
           | Inr output \<Rightarrow>
               let db2 = during db1 in
               (case complete_claimed_run db2 t2 t3 (bk_id claim) worker (bk_generation claim)
                   (xo_result output) (xo_artifacts output) None of
                  Inr (_, db3) \<Rightarrow> (Pass 1, db3)
                | Inl Lease_lost \<Rightarrow> (Pass 0, db2)
                | Inl e \<Rightarrow>
                    (case error_text e of (name, message) \<Rightarrow>
                       (Pass_raised, record_run_failure (after db2) t4 (bk_id claim) worker (bk_generation claim) name message))))))"

section \<open>Steps\<close>

inductive backtest_step :: "backtest_db \<Rightarrow> backtest_db \<Rightarrow> bool" where
  create: "create_run db q = Inr (s, db') \<Longrightarrow> backtest_step db db'"
| save: "persist_completed_run db q spec result = Inr (v, db') \<Longrightarrow> backtest_step db db'"
| claim: "claim_next_run db worker secs now upd locked = Inr (r, db') \<Longrightarrow> backtest_step db db'"
| complete: "complete_claimed_run db now upd k worker g result artifacts t = Inr (v, db') \<Longrightarrow> backtest_step db db'"
| fail: "fail_claimed_run db now upd k worker g code message = Inr (r, db') \<Longrightarrow> backtest_step db db'"
| other: "bd_runs db' = bd_runs db \<Longrightarrow> bd_trades db' = bd_trades db \<Longrightarrow> bd_points db' = bd_points db \<Longrightarrow>
    bd_metrics db' = bd_metrics db \<Longrightarrow> bd_artifacts db' = bd_artifacts db \<Longrightarrow> seq_backtests db' = seq_backtests db \<Longrightarrow>
    backtest_step db db'"

section \<open>What the operations change\<close>

definition runs_ok :: "backtest_db \<Rightarrow> bool" where
  "runs_ok db \<longleftrightarrow> distinct (map bk_id (bd_runs db)) \<and> (\<forall>r\<in>set (bd_runs db). bk_id r < seq_backtests db)"

text \<open>A run and the rows of its result.\<close>

definition result_rows ::
  "backtest_db \<Rightarrow> nat \<Rightarrow> trade_row list \<times> equity_row list \<times> metric_row list \<times> artifact_row list" where
  "result_rows db k =
     (filter (\<lambda>t. bt_run t = k) (bd_trades db), filter (\<lambda>p. bq_run p = k) (bd_points db),
      filter (\<lambda>m. bm_run m = k) (bd_metrics db), filter (\<lambda>a. ba_run a = k) (bd_artifacts db))"

definition run_after :: "backtest_run \<Rightarrow> backtest_run \<Rightarrow> bool" where
  "run_after r r' \<longleftrightarrow> bk_id r' = bk_id r \<and> bk_input_hash r' = bk_input_hash r \<and> bk_generation r \<le> bk_generation r' \<and> (run_sealed r \<longrightarrow> r' = r)"

definition runs_advance :: "backtest_db \<Rightarrow> backtest_db \<Rightarrow> bool" where
  "runs_advance db db' \<longleftrightarrow>
     (runs_ok db \<longrightarrow> runs_ok db') \<and> (\<forall>r\<in>set (bd_runs db). \<exists>r'\<in>set (bd_runs db'). run_after r r')"

lemma run_after_refl [simp, intro]: "run_after r r"
  by (simp add: run_after_def)

lemma run_after_trans: "run_after a b \<Longrightarrow> run_after b c \<Longrightarrow> run_after a c"
  by (auto simp: run_after_def)

lemma runs_advance_refl [simp]: "runs_advance db db"
  by (auto simp: runs_advance_def intro: run_after_refl)

lemma runs_advance_trans: "runs_advance a b \<Longrightarrow> runs_advance b c \<Longrightarrow> runs_advance a c"
  unfolding runs_advance_def by (meson run_after_trans)

lemma runs_advance_same: "bd_runs db' = bd_runs db \<Longrightarrow> seq_backtests db' = seq_backtests db \<Longrightarrow> runs_advance db db'"
  by (auto simp: runs_advance_def runs_ok_def intro: run_after_refl)

lemma update_runs_Inr:
  assumes "update_runs hit f db = Inr db'"
  shows "db' = db\<lparr>bd_runs := rows_update hit f (bd_runs db)\<rparr>" "\<And>r. r \<in> set (bd_runs db) \<Longrightarrow> hit r \<Longrightarrow> \<not> run_sealed r"
  using assms by (auto simp: update_runs_def list_ex_iff split: if_splits)

lemma rows_update_ids: "(\<And>r. bk_id (f r) = bk_id r) \<Longrightarrow> map bk_id (rows_update hit f rs) = map bk_id rs"
  by (auto simp: rows_update_def)

lemma update_runs_advance:
  assumes "update_runs hit f db = Inr db'" "\<And>r. bk_id (f r) = bk_id r" "\<And>r. bk_generation r \<le> bk_generation (f r)"
    "\<And>r. bk_input_hash (f r) = bk_input_hash r"
  shows "runs_advance db db'"
proof -
  have ids: "map bk_id (rows_update hit f (bd_runs db)) = map bk_id (bd_runs db)"
    using assms(2) by (rule rows_update_ids)
  have "\<exists>r'\<in>set (rows_update hit f (bd_runs db)). run_after r r'" if "r \<in> set (bd_runs db)" for r
    using that assms(2-4) update_runs_Inr(2) [OF assms(1) that]
    by (intro bexI [of _ "if hit r then f r else r"]) (auto simp: rows_update_def run_after_def)
  moreover have "\<forall>r\<in>set (rows_update hit f (bd_runs db)). bk_id r < seq_backtests db"
    if "\<forall>r\<in>set (bd_runs db). bk_id r < seq_backtests db" using that assms(2) by (auto simp: rows_update_def)
  ultimately show ?thesis using ids by (simp add: runs_advance_def runs_ok_def update_runs_Inr(1) [OF assms(1)])
qed

lemma insert_run_Inr:
  assumes "insert_run db r = Inr db'"
  shows "db' = db\<lparr>bd_runs := bd_runs db @ [r], seq_backtests := seq_backtests db + 1\<rparr>"
  using assms by (auto simp: insert_run_def split: if_splits)

lemma insert_run_advance:
  assumes "insert_run db r = Inr db'" "bk_id r = seq_backtests db"
  shows "runs_advance db db'"
  using assms(2) run_after_refl by (fastforce simp: runs_advance_def runs_ok_def insert_run_Inr [OF assms(1)])

lemma foldM_appends:
  assumes "\<And>acc x acc'. f acc x = Inr acc' \<Longrightarrow> \<exists>y. acc' = acc @ [y] \<and> P x y" "res_foldM f acc xs = Inr acc'"
  shows "\<exists>ys. acc' = acc @ ys \<and> list_all2 P xs ys"
  using assms(2)
proof (induction xs arbitrary: acc)
  case (Cons x xs)
  obtain acc1 where acc1: "f acc x = Inr acc1" "res_foldM f acc1 xs = Inr acc'"
    using Cons.prems by (auto simp: res_bind_eq_Inr_iff)
  obtain y where y: "acc1 = acc @ [y]" "P x y" using assms(1) [OF acc1(1)] by blast
  obtain ys where "acc' = acc1 @ ys" "list_all2 P xs ys" using Cons.IH [OF acc1(2)] by blast
  then show ?case using y by (intro exI [of _ "y # ys"]) simp
qed simp

text \<open>How a row stores its trade: every amount rounded to eighteen decimals.\<close>

definition trade_stored :: "nat \<Rightarrow> nat \<times> backtest_trade \<Rightarrow> trade_row \<Rightarrow> bool" where
  "trade_stored k x row \<longleftrightarrow>
     bt_run row = k \<and> bt_sequence row = fst x \<and> bt_side row = tr_side (snd x) \<and> bt_status row = tr_status (snd x) \<and>
     numeric_38_18 (tr_requested_quantity (snd x)) = Inr (bt_requested row) \<and>
     numeric_38_18 (tr_filled_quantity (snd x)) = Inr (bt_filled row) \<and>
     numeric_38_18 (tr_fill_price (snd x)) = Inr (bt_price row) \<and> numeric_38_18 (tr_fee_paid (snd x)) = Inr (bt_fee row)"

definition point_stored :: "nat \<Rightarrow> nat \<times> backtest_equity_point \<Rightarrow> equity_row \<Rightarrow> bool" where
  "point_stored k x row \<longleftrightarrow>
     bq_run row = k \<and> bq_sequence row = fst x \<and> bq_occurred row = instant (ep_occurred_at (snd x)) \<and>
     numeric_38_18 (ep_cash (snd x)) = Inr (bq_cash row) \<and> numeric_38_18 (ep_base_position (snd x)) = Inr (bq_position row) \<and>
     numeric_38_18 (ep_equity (snd x)) = Inr (bq_equity row)"

definition metric_stored :: "nat \<Rightarrow> string \<times> dec \<Rightarrow> metric_row \<Rightarrow> bool" where
  "metric_stored k x row \<longleftrightarrow> bm_run row = k \<and> bm_name row = fst x \<and> numeric_38_18 (snd x) = Inr (bm_value row)"

definition artifact_stored :: "nat \<Rightarrow> py_dict \<Rightarrow> artifact_row \<Rightarrow> bool" where
  "artifact_stored k a row \<longleftrightarrow>
     ba_run row = k \<and> map_of a ''artifactType'' = Some (PyStr (ba_type row)) \<and> map_of a ''contentHash'' = Some (PyStr (ba_hash row))"

lemma insert_result_Inr:
  assumes "insert_result k result artifacts db = Inr db'"
  obtains ts ps ms as where
    "db' = db\<lparr>bd_trades := bd_trades db @ ts, bd_points := bd_points db @ ps, bd_metrics := bd_metrics db @ ms,
       bd_artifacts := bd_artifacts db @ as\<rparr>"
    "list_all2 (trade_stored k) (enumerate 1 (br_trades result)) ts"
    "list_all2 (point_stored k) (enumerate 1 (br_equity_points result)) ps"
    "list_all2 (metric_stored k) (sort_key fst (br_metrics result)) ms"
    "list_all2 (artifact_stored k) artifacts as"
proof -
  obtain t p m a where rows:
    "res_foldM (insert_trade k) (bd_trades db) (enumerate 1 (br_trades result)) = Inr t"
    "res_foldM (insert_equity_point k) (bd_points db) (enumerate 1 (br_equity_points result)) = Inr p"
    "res_foldM (insert_metric k) (bd_metrics db) (sort_key fst (br_metrics result)) = Inr m"
    "res_foldM (insert_artifact k) (bd_artifacts db) artifacts = Inr a"
    and db': "db' = db\<lparr>bd_trades := t, bd_points := p, bd_metrics := m, bd_artifacts := a\<rparr>"
    using assms by (auto simp: insert_result_def insert_trades_def insert_equity_points_def insert_metrics_def
        insert_artifacts_def res_bind_eq_Inr_iff res_map_eq_Inr_iff)
  have "\<exists>ts. t = bd_trades db @ ts \<and> list_all2 (trade_stored k) (enumerate 1 (br_trades result)) ts"
    by (rule foldM_appends [OF _ rows(1)])
       (auto simp: insert_trade_def trade_stored_def res_bind_eq_Inr_iff split: prod.splits if_splits)
  moreover have "\<exists>ps. p = bd_points db @ ps \<and> list_all2 (point_stored k) (enumerate 1 (br_equity_points result)) ps"
    by (rule foldM_appends [OF _ rows(2)])
       (auto simp: insert_equity_point_def point_stored_def res_bind_eq_Inr_iff split: prod.splits if_splits)
  moreover have "\<exists>ms. m = bd_metrics db @ ms \<and> list_all2 (metric_stored k) (sort_key fst (br_metrics result)) ms"
    by (rule foldM_appends [OF _ rows(3)])
       (auto simp: insert_metric_def metric_stored_def res_bind_eq_Inr_iff split: prod.splits if_splits)
  moreover have "\<exists>as. a = bd_artifacts db @ as \<and> list_all2 (artifact_stored k) artifacts as"
    by (rule foldM_appends [OF _ rows(4)])
       (auto simp: insert_artifact_def artifact_stored_def split: option.splits py_value.splits if_splits)
  ultimately show thesis using that db' by blast
qed

lemma find_run_held:
  "find (run_held now k owner g) rows = Some r \<Longrightarrow>
     r \<in> set rows \<and> bk_id r = k \<and> bk_status r = Run_running \<and> bk_owner r = Some owner \<and> bk_generation r = g"
  by (auto simp: find_Some_iff run_held_def)

lemma claim_next_run_cases [consumes 1, case_names idle leased]:
  assumes "claim_next_run db worker secs now upd locked = Inr (x, db')"
  obtains db1 where "update_runs (\<lambda>r. lease_expired now r \<and> bk_max_attempts r \<le> bk_attempts r) (bury_run upd) db = Inr db1"
      "filter (\<lambda>r. run_due now r \<and> \<not> locked (bk_id r)) (bd_runs db1) = []" "x = None" "db' = db1"
  | db1 c cs owner where
      "update_runs (\<lambda>r. lease_expired now r \<and> bk_max_attempts r \<le> bk_attempts r) (bury_run upd) db = Inr db1"
      "sort_key (\<lambda>r. (bk_requested r, bk_id r)) (filter (\<lambda>r. run_due now r \<and> \<not> locked (bk_id r)) (bd_runs db1)) = c # cs"
      "update_runs (\<lambda>r. bk_id r = bk_id c \<and> bk_generation r = bk_generation c) (lease_run owner secs upd) db1 = Inr db'"
      "x = row_by bk_id (bk_id c) (bd_runs db')"
proof -
  obtain db1 owner where db1: "update_runs (\<lambda>r. lease_expired now r \<and> bk_max_attempts r \<le> bk_attempts r) (bury_run upd) db = Inr db1"
    and rest: "(case sort_key (\<lambda>r. (bk_requested r, bk_id r))
            (filter (\<lambda>r. run_due now r \<and> \<not> locked (bk_id r)) (bd_runs db1)) of
       [] \<Rightarrow> Inr (None, db1)
     | c # _ \<Rightarrow>
         let hit = (\<lambda>r. bk_id r = bk_id c \<and> bk_generation r = bk_generation c)
         in res_map (\<lambda>db2. (row_by bk_id (bk_id c) (bd_runs db2), db2))
              (update_runs hit (lease_run owner secs upd) db1)) = Inr (x, db')"
    using assms by (auto simp: claim_next_run_def res_bind_eq_Inr_iff split: if_splits)
  show thesis
  proof (cases "sort_key (\<lambda>r. (bk_requested r, bk_id r)) (filter (\<lambda>r. run_due now r \<and> \<not> locked (bk_id r)) (bd_runs db1))")
    case Nil
    then have "filter (\<lambda>r. run_due now r \<and> \<not> locked (bk_id r)) (bd_runs db1) = []" by simp
    then show thesis using that(1) [OF db1] rest by simp
  next
    case (Cons c cs)
    then show thesis using that(2) [OF db1 Cons] rest by (auto simp: Let_def res_map_eq_Inr_iff)
  qed
qed

lemma complete_claimed_run_cases [consumes 1, case_names completed]:
  assumes "complete_claimed_run db now upd k worker g result artifacts t = Inr (v, db')"
  obtains owner rows r db1 at_time where
    "store_non_blank worker ''workerId'' = Inr owner" "artifact_inputs artifacts = Inr rows"
    "find (run_held now k owner g) (bd_runs db) = Some r" "bk_input_hash r = br_input_hash result"
    "insert_result k result rows db = Inr db1" "find (run_held upd k owner g) (bd_runs db1) \<noteq> None"
    "update_runs (run_held upd k owner g) (finish_run result at_time) db1 = Inr db'" "get_run db' k = Some v"
  using assms by (auto simp: complete_claimed_run_def res_bind_eq_Inr_iff split: if_splits option.splits)

lemma fail_claimed_run_cases [consumes 1, case_names failed]:
  assumes "fail_claimed_run db now upd k worker g code message = Inr (x, db')"
  obtains owner c m r seconds f where
    "find (run_held now k owner g) (bd_runs db) = Some r"
    "f = give_up_run c m upd \<or> f = retry_run c m upd seconds" "update_runs (run_held now k owner g) f db = Inr db'"
  using assms
  by (auto simp: fail_claimed_run_def res_bind_eq_Inr_iff res_map_eq_Inr_iff Let_def split: if_splits option.splits) blast+

lemma create_run_cases [consumes 1, case_names known new]:
  assumes "create_run db q = Inr (s, db')"
  obtains "db' = db" "\<exists>r\<in>set (bd_runs db). s = run_summary_of r"
  | r spec preview where "bk_id r = seq_backtests db" "bk_status r = Run_queued" "insert_run db r = Inr db'" "s = run_summary_of r"
      "es_strategy_version_id spec = int (bk_strategy r)" "es_dataset_version_id spec = int (bk_dataset r)"
      "es_engine_version spec = bk_engine r"
      "run_candle_backtest spec (load_candle_events db (bk_dataset r)) [] = Inr preview" "bk_input_hash r = br_input_hash preview"
proof -
  obtain c h p where args: "run_command_of q = Inr c" "store_hash (command_payload c (rn_requested_at q)) = Inr h"
      "store_hash (rc_parameters c) = Inr p"
    using assms by (auto simp: create_run_def res_bind_eq_Inr_iff)
  note d = assms [unfolded create_run_def args bk_lift_simps res_bind_Inr]
  show thesis
  proof (cases "row_by bk_key (rc_key c) (bd_runs db)")
    case (Some r)
    then have "r \<in> set (bd_runs db)" using row_by_Some by fastforce
    then show thesis using Some d by (intro that(1)) (auto split: if_splits)
  next
    case None
    then obtain v dr where material: "run_material db (rc_strategy c) (rc_dataset c) = Some (v, dr)"
      using d by (auto split: option.splits)
    obtain preview where preview: "run_candle_backtest (engine_spec_of c v dr p) (load_candle_events db (dv_id dr)) [] = Inr preview"
      using d None material by (auto simp: res_bind_eq_Inr_iff Let_def)
    let ?r = "new_run db c (instant (rn_requested_at q)) v dr (br_input_hash preview) p h
        (run_input_payload dr (engine_spec_of c v dr p) (load_candle_events db (dv_id dr)) (br_assumptions preview))
        (br_assumptions preview)"
    have "insert_run db ?r = Inr db' \<and> s = run_summary_of ?r"
      using d None material preview by (simp add: Let_def res_map_eq_Inr_iff split: if_splits)
    then show thesis using preview
      by (intro that(2) [of ?r "engine_spec_of c v dr p" preview]) (simp_all add: new_run_def engine_spec_of_def split: prod.split)
  qed
qed

lemma persist_completed_run_cases [consumes 1, case_names known new]:
  assumes "persist_completed_run db q spec result = Inr (v, db')"
  obtains "db' = db" | r rows db1 where "bk_id r = seq_backtests db" "bk_status r = Run_succeeded"
    "bk_result_hash r = Some (br_result_hash result)" "insert_run db r = Inr db1"
    "insert_result (seq_backtests db) result rows db1 = Inr db'" "get_run db' (seq_backtests db) = Some v"
proof -
  let ?hashed = "\<lambda>request_id key actor reason.
        [(''requestId'', PyStr request_id), (''idempotencyKey'', PyStr key), (''actorId'', PyStr actor),
         (''requestedAt'', PyStr (isoformat (sr_requested_at q))), (''reason'', PyStr reason),
         (''inputHash'', PyStr (br_input_hash result)), (''resultHash'', PyStr (br_result_hash result))]"
  obtain rows request_id key actor reason h where args: "artifact_inputs (sr_artifacts q) = Inr rows"
      "store_text (sr_request_id q) ''requestId'' = Inr request_id"
      "store_text (sr_idempotency_key q) ''idempotencyKey'' = Inr key"
      "store_text (sr_actor_id q) ''actorId'' = Inr actor" "store_text (sr_reason q) ''reason'' = Inr reason"
      "store_hash (?hashed request_id key actor reason) = Inr h"
    using assms by (auto simp: persist_completed_run_def res_bind_eq_Inr_iff)
  note d = assms [unfolded persist_completed_run_def args res_bind_Inr Let_def]
  show thesis
  proof (cases "row_by bk_key key (bd_runs db)")
    case (Some r)
    then show thesis using d that(1) by (auto split: if_splits option.splits)
  next
    case None
    then show thesis using d by (auto simp: res_bind_eq_Inr_iff split: option.splits intro!: that(2))
  qed
qed

lemma insert_result_runs:
  assumes "insert_result k result artifacts db = Inr db'"
  shows "bd_runs db' = bd_runs db \<and> seq_backtests db' = seq_backtests db"
  by (rule insert_result_Inr [OF assms]) simp

lemma keeps_identity [simp]:
  "bk_id (bury_run upd r) = bk_id r" "bk_generation (bury_run upd r) = bk_generation r"
  "bk_id (lease_run owner secs upd r) = bk_id r" "bk_generation (lease_run owner secs upd r) = Suc (bk_generation r)"
  "bk_id (finish_run result t r) = bk_id r" "bk_generation (finish_run result t r) = bk_generation r"
  "bk_id (give_up_run c m upd r) = bk_id r" "bk_generation (give_up_run c m upd r) = bk_generation r"
  "bk_id (retry_run c m upd s r) = bk_id r" "bk_generation (retry_run c m upd s r) = bk_generation r"
  "bk_input_hash (bury_run upd r) = bk_input_hash r" "bk_input_hash (lease_run owner secs upd r) = bk_input_hash r"
  "bk_input_hash (finish_run result t r) = bk_input_hash r" "bk_input_hash (give_up_run c m upd r) = bk_input_hash r"
  "bk_input_hash (retry_run c m upd s r) = bk_input_hash r"
  by (simp_all add: bury_run_def lease_run_def finish_run_def give_up_run_def retry_run_def)

lemma step_advances: "backtest_step db db' \<Longrightarrow> runs_advance db db'"
proof (induction rule: backtest_step.induct)
  case (create db q s db')
  then show ?case by (cases rule: create_run_cases) (auto intro: insert_run_advance)
next
  case (save db q spec result v db')
  then show ?case
  proof (cases rule: persist_completed_run_cases)
    case (new r rows db1)
    then show ?thesis
      using insert_run_advance [OF new(4,1)] insert_result_runs [OF new(5)] runs_advance_same runs_advance_trans by metis
  qed simp
next
  case (claim db worker secs now upd locked r db')
  then show ?case
  proof (cases rule: claim_next_run_cases)
    case (idle db1)
    then show ?thesis using update_runs_advance [OF idle(1)] by simp
  next
    case (leased db1 c cs owner)
    then show ?thesis using update_runs_advance [OF leased(1)] update_runs_advance [OF leased(3)]
      by (auto intro: runs_advance_trans)
  qed
next
  case (complete db now upd k worker g result artifacts t v db')
  then show ?case
  proof (cases rule: complete_claimed_run_cases)
    case (completed owner rows r db1 at_time)
    have "runs_advance db db1" using insert_result_runs [OF completed(5)] by (intro runs_advance_same) auto
    then show ?thesis using update_runs_advance [OF completed(7)] by (auto intro: runs_advance_trans)
  qed
next
  case (fail db now upd k worker g code message r db')
  then show ?case
  proof (cases rule: fail_claimed_run_cases)
    case (failed owner c m r seconds f)
    then show ?thesis using update_runs_advance [OF failed(3)] by auto
  qed
next
  case (other db' db)
  then show ?case by (simp add: runs_advance_same)
qed

section \<open>Leases\<close>

definition run_generation :: "backtest_db \<Rightarrow> nat \<Rightarrow> nat option" where
  "run_generation db k = map_option bk_generation (row_by bk_id k (bd_runs db))"

definition finishes_run :: "backtest_db \<Rightarrow> nat \<Rightarrow> nat \<Rightarrow> bool" where
  "finishes_run db k g \<longleftrightarrow>
     (\<exists>now upd worker result artifacts t out. complete_claimed_run db now upd k worker g result artifacts t = Inr out) \<or>
     (\<exists>now upd worker code message out. fail_claimed_run db now upd k worker g code message = Inr out)"

lemma run_generation_mem:
  "runs_ok db \<Longrightarrow> r \<in> set (bd_runs db) \<Longrightarrow> run_generation db (bk_id r) = Some (bk_generation r)"
  by (simp add: run_generation_def runs_ok_def row_by_distinct)

lemma generation_advances:
  assumes "backtest_step db db'" "runs_ok db" "run_generation db k = Some g"
  shows "\<exists>h. run_generation db' k = Some h \<and> g \<le> h"
proof -
  obtain r where r: "r \<in> set (bd_runs db)" "bk_id r = k" "bk_generation r = g"
    using assms(3) row_by_Some by (fastforce simp: run_generation_def)
  obtain r' where "r' \<in> set (bd_runs db')" "run_after r r'" "runs_ok db'"
    using step_advances [OF assms(1)] assms(2) r(1) by (auto simp: runs_advance_def)
  then show ?thesis using run_generation_mem [of db' r'] r by (auto simp: run_after_def)
qed

lemma finishing_is_current:
  assumes "runs_ok db" "finishes_run db k g"
  shows "run_generation db k = Some g"
proof -
  obtain now owner r where "find (run_held now k owner g) (bd_runs db) = Some r"
    using assms(2) unfolding finishes_run_def
    by (metis complete_claimed_run_cases fail_claimed_run_cases prod.exhaust)
  then show ?thesis using find_run_held run_generation_mem [OF assms(1)] by fastforce
qed

lemma step_runs_ok: "backtest_step db db' \<Longrightarrow> runs_ok db \<Longrightarrow> runs_ok db'"
  using step_advances by (simp add: runs_advance_def)

interpretation run_lease: lease_protocol backtest_step runs_ok run_generation finishes_run
  by unfold_locales (auto intro: step_runs_ok generation_advances finishing_is_current)

text \<open>C11. 
  A backtest worker that lost its lease is fenced off for good: once a run carries a higher generation, no
  later attempt to complete or fail it under the old generation succeeds, whatever steps happen in between.
\<close>
theorem stale_backtest_fenced:
  assumes "runs_ok db" "backtest_step\<^sup>*\<^sup>* db db'" "run_generation db k = Some g" "h < g"
  shows "(\<exists>e. complete_claimed_run db' now upd k worker h result artifacts t = Inl e) \<and>
    (\<exists>e. fail_claimed_run db' now upd k worker h code message = Inl e)"
proof -
  have "\<not> finishes_run db' k h" using run_lease.stale_fenced assms by blast
  then show ?thesis unfolding finishes_run_def by (metis sum.exhaust)
qed

section \<open>Finished runs are final\<close>

lemma insert_result_rows:
  assumes "insert_result k result artifacts db = Inr db'" "k' \<noteq> k"
  shows "result_rows db' k' = result_rows db k'"
proof (rule insert_result_Inr [OF assms(1)])
  fix ts ps ms as
  assume db': "db' = db\<lparr>bd_trades := bd_trades db @ ts, bd_points := bd_points db @ ps, bd_metrics := bd_metrics db @ ms,
       bd_artifacts := bd_artifacts db @ as\<rparr>"
    and rows: "list_all2 (trade_stored k) (enumerate 1 (br_trades result)) ts"
      "list_all2 (point_stored k) (enumerate 1 (br_equity_points result)) ps"
      "list_all2 (metric_stored k) (sort_key fst (br_metrics result)) ms" "list_all2 (artifact_stored k) artifacts as"
  have "\<forall>t\<in>set ts. bt_run t = k" "\<forall>p\<in>set ps. bq_run p = k" "\<forall>m\<in>set ms. bm_run m = k" "\<forall>a\<in>set as. ba_run a = k"
    using rows by (auto simp: list_all2_conv_all_nth in_set_conv_nth trade_stored_def point_stored_def metric_stored_def
        artifact_stored_def)
  then show ?thesis using assms(2) by (auto simp: result_rows_def db' filter_empty_conv)
qed

lemma result_rows_same [simp]: "result_rows (db\<lparr>bd_runs := x, seq_backtests := n\<rparr>) k = result_rows db k"
  "result_rows (db\<lparr>bd_runs := x\<rparr>) k = result_rows db k"
  by (simp_all add: result_rows_def)

lemma update_runs_rows: "update_runs hit f db = Inr db' \<Longrightarrow> result_rows db' k = result_rows db k"
  using update_runs_Inr(1) by (metis result_rows_same(2))

definition settles :: "backtest_db \<Rightarrow> backtest_db \<Rightarrow> nat \<Rightarrow> bool" where
  "settles db db' k \<longleftrightarrow>
     (\<forall>r\<in>set (bd_runs db). bk_id r = k \<longrightarrow> \<not> run_sealed r) \<and> (\<exists>r\<in>set (bd_runs db'). bk_id r = k \<and> run_sealed r) \<and>
     (\<forall>k'. k' \<noteq> k \<longrightarrow> result_rows db' k' = result_rows db k')"

lemma step_rows: "backtest_step db db' \<Longrightarrow> runs_ok db \<Longrightarrow> (\<forall>k. result_rows db' k = result_rows db k) \<or> (\<exists>k. settles db db' k)"
proof (induction rule: backtest_step.induct)
  case (create db q s db')
  from create(1) show ?case by (cases rule: create_run_cases) (auto dest: insert_run_Inr)
next
  case (save db q spec result v db')
  from save(1) show ?case
  proof (cases rule: persist_completed_run_cases)
    case (new r rows db1)
    have "\<forall>r\<in>set (bd_runs db). bk_id r \<noteq> seq_backtests db" using save(2) by (auto simp: runs_ok_def)
    moreover have "r \<in> set (bd_runs db') \<and> bk_id r = seq_backtests db \<and> run_sealed r"
      using insert_result_runs [OF new(5)] insert_run_Inr [OF new(4)] new(1,2) by (simp add: run_sealed_def)
    moreover have "result_rows db' k' = result_rows db k'" if "k' \<noteq> seq_backtests db" for k'
      using insert_result_rows [OF new(5) that] insert_run_Inr [OF new(4)] by simp
    ultimately show ?thesis unfolding settles_def by blast
  qed simp
next
  case (claim db worker secs now upd locked r db')
  from claim(1) show ?case by (cases rule: claim_next_run_cases) (metis update_runs_rows)+
next
  case (complete db now upd k worker g result artifacts t v db')
  from complete(1) show ?case
  proof (cases rule: complete_claimed_run_cases)
    case (completed owner rows r db1 at_time)
    have r: "r \<in> set (bd_runs db)" "bk_id r = k" "bk_status r = Run_running" using find_run_held [OF completed(3)] by simp_all
    have "inj_on bk_id (set (bd_runs db))" using complete(2) by (simp add: runs_ok_def distinct_map)
    moreover have "\<not> run_sealed r" using r(3) by (simp add: run_sealed_def)
    ultimately have open_run: "\<forall>x\<in>set (bd_runs db). bk_id x = k \<longrightarrow> \<not> run_sealed x" using r(1,2) by (metis inj_onD)
    obtain x where x: "find (run_held upd k owner g) (bd_runs db1) = Some x" using completed(6) by auto
    have "x \<in> set (bd_runs db1) \<and> run_held upd k owner g x \<and> bk_id x = k"
      using x by (auto simp: find_Some_iff run_held_def)
    then have "finish_run result at_time x \<in> set (bd_runs db') \<and> bk_id (finish_run result at_time x) = k"
      by (auto simp: update_runs_Inr(1) [OF completed(7)] rows_update_def)
    moreover have "run_sealed (finish_run result at_time x)"
      by (auto simp: run_sealed_def finish_run_def result_status_def split: backtest_run_status.split)
    moreover have "result_rows db' k' = result_rows db k'" if "k' \<noteq> k" for k'
      using insert_result_rows [OF completed(5) that] update_runs_rows [OF completed(7)] by simp
    ultimately show ?thesis using open_run unfolding settles_def by blast
  qed
next
  case (fail db now upd k worker g code message r db')
  from fail(1) show ?case by (cases rule: fail_claimed_run_cases) (auto dest: update_runs_rows)
next
  case (other db' db)
  then show ?case by (simp add: result_rows_def)
qed

definition no_rows :: "trade_row list \<times> equity_row list \<times> metric_row list \<times> artifact_row list" where
  "no_rows = ([], [], [], [])"

definition results_ok :: "backtest_db \<Rightarrow> bool" where
  "results_ok db \<longleftrightarrow>
     runs_ok db \<and> (\<forall>k. result_rows db k \<noteq> no_rows \<longrightarrow> (\<exists>r\<in>set (bd_runs db). bk_id r = k \<and> run_sealed r))"

lemma sealed_survives:
  assumes "backtest_step db db'" "r \<in> set (bd_runs db)" "run_sealed r"
  shows "r \<in> set (bd_runs db')"
  using step_advances [OF assms(1)] assms(2,3) by (auto simp: runs_advance_def run_after_def)

lemma results_step:
  assumes step: "backtest_step db db'" and ok: "results_ok db"
  shows "results_ok db' \<and> (\<forall>r\<in>set (bd_runs db). run_sealed r \<longrightarrow> r \<in> set (bd_runs db') \<and>
    result_rows db' (bk_id r) = result_rows db (bk_id r))"
proof -
  have runs: "runs_ok db" "runs_ok db'" using ok step_runs_ok [OF step] by (auto simp: results_ok_def)
  from step_rows [OF step runs(1)] show ?thesis
  proof
    assume "\<forall>k. result_rows db' k = result_rows db k"
    then show ?thesis using ok runs sealed_survives [OF step] unfolding results_ok_def by metis
  next
    assume "\<exists>k. settles db db' k"
    then show ?thesis using ok runs sealed_survives [OF step] unfolding results_ok_def settles_def by metis
  qed
qed

text \<open>C10. 
  Finished runs are final: in every state reachable from one without stray rows, only a finished run has
  rows, and once a run is finished (succeeded, failed, cancelled or given up) neither its row nor any row of its
  result ever changes, whatever is claimed, completed, failed, created or saved later.
\<close>
theorem finished_runs_final:
  assumes "results_ok db0" "backtest_step\<^sup>*\<^sup>* db0 db" "backtest_step\<^sup>*\<^sup>* db db'" "r \<in> set (bd_runs db)" "run_sealed r"
  shows "r \<in> set (bd_runs db') \<and> result_rows db' (bk_id r) = result_rows db (bk_id r) \<and>
    (\<forall>x\<in>set (bd_runs db'). \<not> run_sealed x \<longrightarrow> result_rows db' (bk_id x) = no_rows)"
proof -
  have ok: "results_ok db" using assms(2,1) by (induction rule: rtranclp_induct) (auto dest: results_step)
  have "results_ok db' \<and> r \<in> set (bd_runs db') \<and> result_rows db' (bk_id r) = result_rows db (bk_id r)"
    using assms(3)
  proof (induction rule: rtranclp_induct)
    case (step y z)
    then show ?case using results_step [OF step(2)] assms(5) by fastforce
  qed (use ok assms(4) in simp)
  moreover have "\<forall>x\<in>set (bd_runs db'). \<not> run_sealed x \<longrightarrow> result_rows db' (bk_id x) = no_rows" if "results_ok db'"
    using that unfolding results_ok_def runs_ok_def distinct_map inj_on_def by metis
  ultimately show ?thesis by blast
qed

section \<open>A pass of the worker takes steps\<close>

lemma record_failure_steps:
  "backtest_step\<^sup>*\<^sup>* db d \<Longrightarrow> backtest_step\<^sup>*\<^sup>* db (record_run_failure d now k worker g name message)"
  by (auto simp: record_run_failure_def split: sum.split intro: rtranclp.rtrancl_into_rtrancl backtest_step.fail)

lemma run_once_steps:
  assumes "\<And>d. backtest_step\<^sup>*\<^sup>* d (during d)" "\<And>d. backtest_step\<^sup>*\<^sup>* d (after d)"
  shows "backtest_step\<^sup>*\<^sup>* db (snd (backtest_run_once executor error_text during after worker clock db))"
proof -
  obtain t1 t2 t3 t4 where clock: "clock = (t1, t2, t3, t4)" by (cases clock)
  show ?thesis
  proof (cases "claim_next_run db worker 120 t1 t1 (\<lambda>_. False)")
    case (Inr x)
    obtain c db1 where x: "x = (c, db1)" by (cases x)
    have one: "backtest_step\<^sup>*\<^sup>* db db1" using backtest_step.claim [OF Inr [unfolded x]] by blast
    have two: "backtest_step\<^sup>*\<^sup>* db (during db1)" "backtest_step\<^sup>*\<^sup>* db (after (during db1))"
      using one assms by (meson rtranclp_trans)+
    show ?thesis
      using one two by (auto simp: backtest_run_once_def clock Inr x Let_def
          split: option.split sum.split store_error.split prod.split
          intro: record_failure_steps rtranclp.rtrancl_into_rtrancl backtest_step.complete)
  qed (simp add: backtest_run_once_def clock)
qed

section \<open>No run blocks the queue\<close>

lemma inputs_valid_same [simp]:
  "inputs_valid db (bury_run upd r) = inputs_valid db r" "inputs_valid (db\<lparr>bd_runs := rows\<rparr>) r = inputs_valid db r"
  by (simp_all add: inputs_valid_def bury_run_def)

lemma update_runs_ok:
  assumes "\<And>r. r \<in> set (bd_runs db) \<Longrightarrow> hit r \<Longrightarrow> \<not> run_sealed r \<and> inputs_valid db r \<and> bk_result_hash (f r) = bk_result_hash r"
  shows "update_runs hit f db = Inr (db\<lparr>bd_runs := rows_update hit f (bd_runs db)\<rparr>)"
  using assms by (auto simp: update_runs_def list_ex_iff result_hash_valid_def)

lemma sort_key_head_least:
  assumes "sort_key f xs = y # ys" "x \<in> set xs"
  shows "f y \<le> f x"
proof -
  have "sorted (map f (y # ys))" using sorted_sort_key [of f xs] assms(1) by simp
  moreover have "x \<in> set (y # ys)" using assms by (metis set_sort)
  ultimately show ?thesis by auto
qed

lemma bury_keeps_due:
  "filter (run_due now) (rows_update (\<lambda>r. lease_expired now r \<and> bk_max_attempts r \<le> bk_attempts r) (bury_run upd) xs) =
     filter (run_due now) xs"
proof (induction xs)
  case (Cons x xs)
  have "\<not> run_due now (bury_run upd x)" by (simp add: run_due_def bury_run_def lease_expired_def)
  moreover have "lease_expired now x \<and> bk_max_attempts x \<le> bk_attempts x \<Longrightarrow> \<not> run_due now x"
    by (auto simp: run_due_def)
  ultimately show ?case using Cons by (auto simp: rows_update_def)
qed (simp add: rows_update_def)

text \<open>C12. 
  An exhausted run never blocks the queue: whenever a run is due, a claim hands out the due run that was
  requested first, under a new lease generation, and afterwards no run is left whose lease has expired with no
  attempt remaining. (The paper queue lacks the first statement, and there such a job blocks all others.)
\<close>
theorem backtest_queue_progress:
  assumes ok: "runs_ok db" and valid: "\<forall>r\<in>set (bd_runs db). inputs_valid db r"
    and args: "strip worker \<noteq> []" "1 \<le> secs" "now \<le> upd" and due: "r \<in> set (bd_runs db)" "run_due now r"
  shows "\<exists>c c0 db'. claim_next_run db worker secs now upd (\<lambda>_. False) = Inr (Some c, db') \<and>
    c0 \<in> set (bd_runs db) \<and> run_due now c0 \<and> bk_id c = bk_id c0 \<and> bk_status c = Run_running \<and>
    bk_generation c = bk_generation c0 + 1 \<and>
    (\<forall>x\<in>set (bd_runs db). run_due now x \<longrightarrow> (bk_requested c0, bk_id c0) \<le> (bk_requested x, bk_id x)) \<and>
    (\<forall>x\<in>set (bd_runs db'). \<not> (lease_expired now x \<and> bk_max_attempts x \<le> bk_attempts x))"
proof -
  let ?bury = "\<lambda>r. lease_expired now r \<and> bk_max_attempts r \<le> bk_attempts r"
  define rows where "rows = rows_update ?bury (bury_run upd) (bd_runs db)"
  define db1 where "db1 = db\<lparr>bd_runs := rows\<rparr>"
  have buried: "update_runs ?bury (bury_run upd) db = Inr db1"
    unfolding db1_def rows_def using valid by (intro update_runs_ok) (auto simp: lease_expired_def run_sealed_def bury_run_def)
  have same: "filter (run_due now) rows = filter (run_due now) (bd_runs db)" by (simp add: rows_def bury_keeps_due)
  have rows: "x \<in> set rows \<Longrightarrow> inputs_valid db x" "x \<in> set rows \<Longrightarrow> \<not> ?bury x" for x
    using valid by (auto simp: rows_def rows_update_def lease_expired_def bury_run_def inputs_valid_def split: if_splits)
  obtain c0 cs where head: "sort_key (\<lambda>r. (bk_requested r, bk_id r)) (filter (run_due now) (bd_runs db)) = c0 # cs"
    using due by (metis (mono_tags, lifting) filter_empty_conv neq_Nil_conv set_empty set_sort)
  have "c0 \<in> set (filter (run_due now) (bd_runs db))" using head by (metis list.set_intros(1) set_sort)
  then have c0: "c0 \<in> set (bd_runs db)" "run_due now c0" "c0 \<in> set rows" using same by (simp, simp, metis filter_is_subset subsetD)
  let ?hit = "\<lambda>r. bk_id r = bk_id c0 \<and> bk_generation r = bk_generation c0"
  let ?f = "lease_run (strip worker) secs upd"
  have inj: "x = c0" if "x \<in> set rows" "bk_id x = bk_id c0" for x
  proof -
    have "map bk_id rows = map bk_id (bd_runs db)" by (simp add: rows_def rows_update_ids bury_run_def)
    then have "inj_on bk_id (set rows)" using ok by (metis distinct_map runs_ok_def)
    then show ?thesis using that c0(3) by (auto dest: inj_onD)
  qed
  have "\<not> run_sealed c0" using c0(2) by (auto simp: run_due_def run_sealed_def lease_expired_def)
  then have "\<not> run_sealed x \<and> inputs_valid db1 x" if "x \<in> set (bd_runs db1)" "?hit x" for x
    using that inj rows(1) by (auto simp: db1_def)
  then have leased: "update_runs ?hit ?f db1 = Inr (db1\<lparr>bd_runs := rows_update ?hit ?f rows\<rparr>)"
    using update_runs_ok [of db1 ?hit ?f] by (simp add: db1_def lease_run_def)
  let ?db' = "db1\<lparr>bd_runs := rows_update ?hit ?f rows\<rparr>"
  have new: "?f c0 \<in> set (bd_runs ?db')" using c0(3) by (auto simp: rows_update_def)
  have "map bk_id (bd_runs ?db') = map bk_id (bd_runs db)"
    by (simp add: rows_def rows_update_ids lease_run_def bury_run_def)
  then have "distinct (map bk_id (bd_runs ?db'))" using ok by (simp add: runs_ok_def)
  then have found: "row_by bk_id (bk_id c0) (bd_runs ?db') = Some (?f c0)"
    using row_by_distinct [OF _ new, of bk_id] by (simp add: lease_run_def)
  have claimed: "claim_next_run db worker secs now upd (\<lambda>_. False) = Inr (Some (?f c0), ?db')"
    using args buried head same leased found
    by (simp add: claim_next_run_def store_non_blank_def db1_def Let_def)
  have none: "\<forall>x\<in>set (bd_runs ?db'). \<not> ?bury x"
    using rows(2) args by (auto simp: rows_update_def lease_run_def lease_expired_def second_us_def)
  have least: "\<forall>x\<in>set (bd_runs db). run_due now x \<longrightarrow> (bk_requested c0, bk_id c0) \<le> (bk_requested x, bk_id x)"
    using sort_key_head_least [OF head] by auto
  show ?thesis using claimed c0 least none
    by (intro exI [of _ "?f c0"] exI [of _ c0] exI [of _ ?db']) (simp add: lease_run_def)
qed


section \<open>A result with two executions on one candle\<close>

lemma execute_points: "map ep_occurred_at (st_points (foldl (execute spec) st xs)) =
    map ep_occurred_at (st_points st) @ map (\<lambda>x. ce_occurred_at (snd x)) xs"
proof (induction xs arbitrary: st)
  case (Cons x xs)
  have "map ep_occurred_at (st_points (execute spec st x)) = map ep_occurred_at (st_points st) @ [ce_occurred_at (snd x)]"
    by (cases x) (simp add: execute_def apply_trade_def make_trade_def Let_def)
  then show ?case by (simp add: Cons)
qed simp

lemma stored_points_distinct:
  assumes "res_foldM (insert_equity_point run) rows xs = Inr out"
  shows "distinct (map (\<lambda>x. instant (ep_occurred_at (snd x))) xs) \<and>
    (\<forall>x\<in>set xs. (run, instant (ep_occurred_at (snd x))) \<notin> set (map (\<lambda>r. (bq_run r, bq_occurred r)) rows))"
  using assms
proof (induction xs arbitrary: rows)
  case (Cons x xs)
  obtain rows1 where rows1: "insert_equity_point run rows x = Inr rows1" "res_foldM (insert_equity_point run) rows1 xs = Inr out"
    using Cons.prems by (auto simp: res_bind_eq_Inr_iff)
  have one: "set (map (\<lambda>r. (bq_run r, bq_occurred r)) rows1) =
      insert (run, instant (ep_occurred_at (snd x))) (set (map (\<lambda>r. (bq_run r, bq_occurred r)) rows))"
    "(run, instant (ep_occurred_at (snd x))) \<notin> set (map (\<lambda>r. (bq_run r, bq_occurred r)) rows)"
    using rows1(1) by (auto simp: insert_equity_point_def res_bind_eq_Inr_iff split: prod.splits if_splits)
  show ?case using Cons.IH [OF rows1(2)] one by auto
qed simp

lemma map_snd_enumerate: "map (\<lambda>x. f (snd x)) (enumerate n xs) = map f xs"
proof -
  have "map (\<lambda>x. f (snd x)) (enumerate n xs) = map f (map snd (enumerate n xs))" unfolding map_map comp_def ..
  then show ?thesis by simp
qed

text \<open>C14. 
  A correct result that the schema refuses: when two signals of a successful run execute on candles of the same
  time, every attempt to complete the run with its result raises, on whatever tables and under whatever lease,
  since \<^verbatim>\<open>backtest_equity_points\<close> admits one point for each time of a run.
\<close>
theorem same_candle_result_refused:
  assumes run: "run_candle_backtest spec candles signals = Inr r" "br_status r = Succeeded"
    and same: "\<not> distinct (map (\<lambda>x. instant (ce_occurred_at (snd x)))
      (executions spec (sort_key event_sort_key candles) (ordered_signals signals)))"
  shows "\<exists>e. complete_claimed_run db now upd k worker g r artifacts t = Inl e"
proof (rule ccontr)
  assume "\<nexists>e. complete_claimed_run db now upd k worker g r artifacts t = Inl e"
  then obtain v db' where "complete_claimed_run db now upd k worker g r artifacts t = Inr (v, db')"
    by (metis sum.exhaust surj_pair)
  then obtain rows db1 where "insert_result k r rows db = Inr db1" by (rule complete_claimed_run_cases)
  then obtain ps out where "res_foldM (insert_equity_point k) ps (enumerate 1 (br_equity_points r)) = Inr out"
    by (auto simp: insert_result_def insert_equity_points_def res_bind_eq_Inr_iff res_map_eq_Inr_iff)
  then have "distinct (map (\<lambda>x. instant (ep_occurred_at (snd x))) (enumerate 1 (br_equity_points r)))"
    by (rule stored_points_distinct [THEN conjunct1])
  moreover have "map (\<lambda>x. instant (ep_occurred_at (snd x))) (enumerate 1 (br_equity_points r)) =
      map instant (map ep_occurred_at (br_equity_points r))"
    using map_snd_enumerate [of "\<lambda>p. instant (ep_occurred_at p)" 1 "br_equity_points r"] by simp
  moreover have "map ep_occurred_at (br_equity_points r) =
      map (\<lambda>x. ce_occurred_at (snd x)) (executions spec (sort_key event_sort_key candles) (ordered_signals signals))"
    using run_succeeded(1,5) [OF run] by (simp add: execute_points initial_state_def)
  ultimately show False using same by (simp add: comp_def)
qed

text \<open>Neither does a failure of a run with many attempts reach the tables.\<close>

lemma late_failure_raises:
  assumes "find (run_held now k (strip worker) g) (bd_runs db) = Some r" "31 \<le> bk_attempts r" "bk_attempts r < bk_max_attempts r"
  shows "\<exists>e. fail_claimed_run db now upd k worker g code message = Inl e"
proof -
  have "(2::int) ^ 31 \<le> 2 ^ bk_attempts r" using assms(2) by (intro power_increasing) auto
  then have "retry_seconds (bk_attempts r) = Inl Numeric_overflow" by (simp add: retry_seconds_def)
  then show ?thesis using assms(1,3) by (auto simp: fail_claimed_run_def store_non_blank_def res_bind_def)
qed

text \<open>A failed result is stored as a succeeded run.\<close>

lemma failed_result_saved_as_succeeded:
  assumes "persist_completed_run db q spec result = Inr (v, db')" "bd_runs db' \<noteq> bd_runs db"
  shows "\<exists>r\<in>set (bd_runs db'). bk_result_hash r = Some (br_result_hash result) \<and> bk_status r = Run_succeeded"
  using assms(1)
proof (cases rule: persist_completed_run_cases)
  case (new r rows db1)
  then show ?thesis using insert_result_runs [OF new(5)] insert_run_Inr [OF new(4)] by auto
qed (use assms(2) in simp)


section \<open>Witnesses\<close>

text \<open>Three runs: the first holds its third and last lease and has let it expire, the second waits, the third failed.\<close>

definition example_run :: "nat \<Rightarrow> run_status \<Rightarrow> nat \<Rightarrow> backtest_run" where
  "example_run k status attempts =
     \<lparr>bk_id = k, bk_strategy = 1, bk_graph_hash = example_hash, bk_dataset = 1, bk_dataset_hash = example_hash,
      bk_engine = ''v1'', bk_status = status, bk_input_hash = nat_str k, bk_input = [], bk_result_hash = None,
      bk_parameter_hash = example_hash, bk_seed = int k, bk_assumptions = [], bk_key = nat_str k, bk_request = ''q'',
      bk_actor = ''a'', bk_requested = int k, bk_reason = ''r'', bk_request_hash = example_hash, bk_started = None,
      bk_finished = None, bk_attempts = attempts, bk_max_attempts = 3, bk_next_retry = None,
      bk_owner = (if status = Run_running then Some ''w'' else None),
      bk_expires = (if status = Run_running then Some 5 else None), bk_generation = attempts,
      bk_error_code = None, bk_error_message = None, bk_dead_reason = None\<rparr>"

definition example_backtest_db :: backtest_db where
  "example_backtest_db =
     \<lparr>bd_runs = [example_run 1 Run_running 3, example_run 2 Run_queued 0, example_run 3 Run_failed 1],
      bd_trades = [], bd_points = [], bd_metrics = [], bd_artifacts = [],
      bd_strategies = \<lparr>sb_definitions = [],
        sb_versions = [\<lparr>vn_id = 1, vn_strategy = 1, vn_version = 1, vn_graph_hash = example_hash,
          vn_validation = \<lparr>sv_valid = True, sv_errors = [], sv_graph_hash = example_hash\<rparr>, vn_key = ''k'', vn_request = ''q'', vn_actor = ''a'',
          vn_requested = utc 0, vn_reason = ''r'', vn_hash = example_hash, vn_created = 0, vn_published = utc 0\<rparr>],
        sb_graphs = [], seq_definitions = 1, seq_versions = 2\<rparr>,
      bd_datasets = [\<lparr>dv_id = 1, dv_hash = example_hash, dv_as_of = 0, dv_from = 0, dv_to = 1, dv_fill = ''none'',
        dv_missing = ''keep'', dv_sealed = True\<rparr>],
      bd_candles = [], seq_backtests = 4\<rparr>"

lemma example_backtest_ok:
  "runs_ok example_backtest_db" "\<forall>r\<in>set (bd_runs example_backtest_db). inputs_valid example_backtest_db r"
  "results_ok example_backtest_db" "example_run 2 Run_queued 0 \<in> set (bd_runs example_backtest_db)"
  "example_run 3 Run_failed 1 \<in> set (bd_runs example_backtest_db)" "run_due 10 (example_run 2 Run_queued 0)"
  "run_sealed (example_run 3 Run_failed 1)" "run_generation example_backtest_db 1 = Some 3"
  by (simp_all add: runs_ok_def results_ok_def result_rows_def no_rows_def inputs_valid_def example_backtest_db_def
      example_run_def run_due_def run_sealed_def run_generation_def row_by_def)

lemma stale_backtest_fenced_witness:
  "(\<exists>e. complete_claimed_run example_backtest_db 2 3 1 ''w'' 2 \<lparr>br_status = Failed, br_input_hash = ''1'', br_result_hash = [],
      br_assumptions = [], br_replay_events = [], br_trades = [], br_equity_points = [], br_metrics = [],
      br_golden_replay_signals = [], br_errors = []\<rparr> PyNone None = Inl e) \<and>
   (\<exists>e. fail_claimed_run example_backtest_db 2 3 1 ''w'' 2 ''code'' ''text'' = Inl e)"
  using stale_backtest_fenced [OF example_backtest_ok(1) rtranclp.rtrancl_refl example_backtest_ok(8), of 2] by simp

lemma example_texts: "store_non_blank ''w'' f = Inr ''w''" "store_non_blank ''code'' f = Inr ''code''"
  "store_non_blank ''text'' f = Inr ''text''"
  by (simp_all add: store_non_blank_def strip_def is_space_def)

lemma example_failure:
  "\<exists>r db'. fail_claimed_run example_backtest_db 2 3 1 ''w'' 3 ''code'' ''text'' = Inr (r, db')"
proof -
  have held: "find (run_held 2 1 ''w'' 3) (bd_runs example_backtest_db) = Some (example_run 1 Run_running 3)"
    by (simp add: example_backtest_db_def example_run_def run_held_def)
  have attempts: "bk_attempts (example_run 1 Run_running 3) = 3" "bk_max_attempts (example_run 1 Run_running 3) = 3"
    by (simp_all add: example_run_def)
  have "update_runs (run_held 2 1 ''w'' 3) f example_backtest_db =
      Inr (example_backtest_db\<lparr>bd_runs := rows_update (run_held 2 1 ''w'' 3) f (bd_runs example_backtest_db)\<rparr>)"
    if "f = give_up_run ''code'' ''text'' 3" for f
    using that example_backtest_ok(2) by (intro update_runs_ok) (auto simp: run_held_def run_sealed_def give_up_run_def)
  then show ?thesis by (simp add: fail_claimed_run_def example_texts held attempts Let_def del: One_nat_def)
qed

lemma finished_runs_final_witness:
  "\<exists>r db'. fail_claimed_run example_backtest_db 2 3 1 ''w'' 3 ''code'' ''text'' = Inr (r, db') \<and>
     example_run 3 Run_failed 1 \<in> set (bd_runs db') \<and> result_rows db' 3 = no_rows"
proof -
  obtain r db' where failed: "fail_claimed_run example_backtest_db 2 3 1 ''w'' 3 ''code'' ''text'' = Inr (r, db')"
    using example_failure by blast
  then have "backtest_step\<^sup>*\<^sup>* example_backtest_db db'" by (blast intro: backtest_step.fail)
  then have "example_run 3 Run_failed 1 \<in> set (bd_runs db') \<and>
      result_rows db' (bk_id (example_run 3 Run_failed 1)) =
      result_rows example_backtest_db (bk_id (example_run 3 Run_failed 1))"
    using finished_runs_final [OF example_backtest_ok(3) rtranclp.rtrancl_refl _ example_backtest_ok(5,7)] by blast
  then show ?thesis using failed
    by (auto simp: result_rows_def no_rows_def example_backtest_db_def example_run_def)
qed

lemma backtest_queue_progress_witness:
  "\<exists>c db'. claim_next_run example_backtest_db ''w'' 120 10 11 (\<lambda>_. False) = Inr (Some c, db') \<and>
     bk_status c = Run_running \<and> bk_id c = 2"
proof -
  obtain c c0 db' where c: "claim_next_run example_backtest_db ''w'' 120 10 11 (\<lambda>_. False) = Inr (Some c, db')"
      "c0 \<in> set (bd_runs example_backtest_db)" "run_due 10 c0" "bk_id c = bk_id c0" "bk_status c = Run_running"
    using backtest_queue_progress [OF example_backtest_ok(1,2) _ _ _ example_backtest_ok(4,6), of "''w''" 120 11]
    by (auto simp: strip_def is_space_def)
  have "bk_id c0 = 2" using c(2,3) by (auto simp: example_backtest_db_def example_run_def run_due_def lease_expired_def)
  then show ?thesis using c by auto
qed

text \<open>Two signals of one run that execute on the same candle.\<close>

lemma same_candle_result_refused_witness:
  "\<exists>r. run_candle_backtest example_bt_spec example_candles [example_signal 0 Buy, example_signal 1 Buy] = Inr r \<and>
     br_status r = Succeeded \<and> (\<exists>e. complete_claimed_run example_backtest_db 2 3 1 ''w'' 3 r PyNone None = Inl e)"
proof -
  let ?sigs = "[example_signal 0 Buy, example_signal 1 Buy]"
  have utc: "all_utc example_bt_spec example_candles ?sigs" by (simp add: all_utc_def validated_values_def example_bt_defs)
  have "\<forall>v\<in>set (validated_values example_bt_spec example_candles ?sigs). is_decimal v"
    "\<forall>s\<in>set ?sigs. \<not> instant (sg_knowledge_at s) < instant (sg_occurred_at s)"
    by (simp_all add: validated_values_def is_decimal_def example_bt_defs)
  moreover have "\<not> replay_overflows example_bt_spec example_candles ?sigs"
    by (simp add: replay_overflows_def target_overflows_def example_bt_defs minute_us_def second_us_def day_us_def hour_us_def utc_def)
  ultimately obtain r where r: "run_candle_backtest example_bt_spec example_candles ?sigs = Inr r" "br_status r = Succeeded"
    using run_utc [OF utc] by auto
  have evs: "sort_key event_sort_key example_candles =
      [example_candle 1 ''missing'' 90, example_candle 2 ''available'' 100, example_candle 3 ''available'' 120]"
    by (simp add: event_sort_key_def example_bt_defs minute_us_def second_us_def)
  have sigs: "ordered_signals ?sigs = ?sigs"
    by (simp add: ordered_signals_def signal_sort_key_def example_bt_defs minute_us_def second_us_def)
  have "executions example_bt_spec (sort_key event_sort_key example_candles) (ordered_signals ?sigs) =
      [(example_signal 0 Buy, example_candle 2 ''available'' 100), (example_signal 1 Buy, example_candle 2 ''available'' 100)]"
    unfolding evs sigs
    by (simp add: executions_def map_filter_simps execution_event_def example_bt_defs minute_us_def second_us_def)
  then show ?thesis using same_candle_result_refused [OF r] r by auto
qed

end
