(* ===== verification/Backtest_Runs.thy ===== *)
theory Backtest_Runs
  imports Backtest_Queue
begin

text \<open>
  The life of a run from its creation to its completion. A run is created with the input hash of a replay
  without signals, and only a result with this very input hash completes it.
\<close>

section \<open>What the input hash commits to\<close>

text \<open>The document whose digest is the input hash of a backtest.\<close>

definition hashed_input :: "backtest_engine_spec \<Rightarrow> backtest_candle_event list \<Rightarrow> backtest_signal list \<Rightarrow> py_value" where
  "hashed_input spec candles signals =
     (case decimal_validation_error spec (sort_key event_sort_key candles) signals of
        None \<Rightarrow> input_payload spec (sort_key event_sort_key candles) signals ASSUMPTIONS
      | Some err \<Rightarrow> PyDict
          [(''engineVersion'', PyStr (es_engine_version spec)),
           (''datasetVersionId'', PyInt (es_dataset_version_id spec)),
           (''strategyVersionId'', PyInt (es_strategy_version_id spec)), (''error'', PyStr err)])"

lemma bt_result_fields:
  "bt_result status inh assumptions evs trades points metrics signals errs = Inr r \<Longrightarrow>
     br_input_hash r = inh \<and> br_trades r = trades \<and> br_status r = status"
  by (auto simp: bt_result_def lift_ds_def res_map_eq_Inr_iff split: sum.splits)

lemma sorted_events_Inr: "sorted_events candles = Inr evs \<Longrightarrow> evs = sort_key event_sort_key candles"
  by (auto simp: sorted_events_def split: if_splits)

lemma hash_text: "lift_ds (canonical_payload_hash p) = Inr h \<Longrightarrow> \<exists>x. canonical_json_bytes p = Inr x \<and> h = sha256_hex x"
  by (auto simp: lift_ds_def canonical_payload_hash_def res_map_eq_Inr_iff split: sum.splits)

lemma run_input_text:
  assumes "run_candle_backtest spec candles signals = Inr r"
  shows "\<exists>x. canonical_json_bytes (hashed_input spec candles signals) = Inr x \<and> br_input_hash r = sha256_hex x"
    and "decimal_validation_error spec (sort_key event_sort_key candles) signals \<noteq> None \<Longrightarrow> br_trades r = []"
    and "signals = [] \<Longrightarrow> br_trades r = []"
proof -
  obtain evs where "sorted_events candles = Inr evs" using assms by (auto simp: run_candle_backtest_def res_bind_eq_Inr_iff)
  then have evs: "sorted_events candles = Inr (sort_key event_sort_key candles)" using sorted_events_Inr by metis
  note R = assms [unfolded run_candle_backtest_def evs res_bind_Inr]
  show "\<exists>x. canonical_json_bytes (hashed_input spec candles signals) = Inr x \<and> br_input_hash r = sha256_hex x"
    using R by (auto simp: hashed_input_def res_bind_eq_Inr_iff input_hash_def invalid_input_hash_def
        dest!: bt_result_fields hash_text split: option.splits if_splits)
  show "decimal_validation_error spec (sort_key event_sort_key candles) signals \<noteq> None \<Longrightarrow> br_trades r = []"
    using R by (auto simp: res_bind_eq_Inr_iff dest!: bt_result_fields)
  show "signals = [] \<Longrightarrow> br_trades r = []"
    using R by (auto simp: res_bind_eq_Inr_iff replay_signals_eq ordered_signals_def executions_def map_filter_simps initial_state_def
        dest!: bt_result_fields split: option.splits if_splits)
qed


lemma decimal_values:
  "decimal_validation_error spec evs signals = None \<longleftrightarrow> list_all is_decimal (validated_values spec evs signals)"
  by (simp add: decimal_validation_error_def list_ex_iff list_all_iff)

lemma is_decimal_plain: "is_decimal v \<Longrightarrow> py_plain v"
  by (cases v) (auto simp: is_decimal_def)

lemma payload_plain:
  assumes "decimal_validation_error spec evs signals = None"
  shows "py_plain (input_payload spec evs signals assumptions)"
proof -
  have "is_decimal (es_initial_cash spec)" "is_decimal (ex_fee_rate (es_execution spec))"
    "is_decimal (ex_slippage_bps (es_execution spec))" "is_decimal (ex_max_participation_rate (es_execution spec))"
    "\<forall>e\<in>set evs. is_decimal (ce_open e) \<and> is_decimal (ce_high e) \<and> is_decimal (ce_low e) \<and> is_decimal (ce_close e) \<and>
       is_decimal (ce_volume e)" "\<forall>s\<in>set signals. is_decimal (sg_base_quantity s)"
    using assms by (auto simp: decimal_values validated_values_def list_all_iff)
  then show ?thesis
    by (auto simp: input_payload_def spec_payload_def event_payload_def signal_payload_def str_list_def list_all_iff
        is_decimal_plain in_set_enumerate_eq)
qed

lemma hashed_input_plain: "py_plain (hashed_input spec candles signals)"
  by (auto simp: hashed_input_def payload_plain split: option.split)

lemma same_text_canonical:
  assumes "canonical_json_bytes v = Inr x" "canonical_json_bytes w = Inr x" "py_plain v" "py_plain w"
  shows "\<exists>j. ds_canonical_value v = Inr j \<and> ds_canonical_value w = Inr j"
  using assms ds_canonical_value_canonical [OF assms(3)] ds_canonical_value_canonical [OF assms(4)]
  by (auto simp: canonical_json_bytes_def res_map_eq_Inr_iff json_dumps_inject)

lemma mapM_empty: "res_mapM f xs = Inr [] \<longleftrightarrow> xs = []"
  by (cases xs) (auto simp: res_bind_eq_Inr_iff res_map_eq_Inr_iff)

lemma enumerate_empty [simp]: "enumerate n xs = [] \<longleftrightarrow> xs = []"
  by (cases xs) auto

text \<open>A document of an input with signals is not that of an input without.\<close>

lemma same_text_no_signals:
  assumes "canonical_json_bytes (hashed_input spec candles signals) = Inr x"
    and "canonical_json_bytes (hashed_input spec0 candles0 []) = Inr x"
  shows "decimal_validation_error spec (sort_key event_sort_key candles) signals \<noteq> None \<or> signals = []"
proof (rule ccontr)
  assume *: "\<not> ?thesis"
  obtain j where j: "ds_canonical_value (hashed_input spec candles signals) = Inr j"
      "ds_canonical_value (hashed_input spec0 candles0 []) = Inr j"
    using same_text_canonical [OF assms hashed_input_plain hashed_input_plain] by blast
  have real: "hashed_input spec candles signals = input_payload spec (sort_key event_sort_key candles) signals ASSUMPTIONS"
    using * by (simp add: hashed_input_def)
  show False
  proof (cases "decimal_validation_error spec0 (sort_key event_sort_key candles0) []")
    case (Some err)
    then show ?thesis using j unfolding real
      by (auto simp: hashed_input_def input_payload_def res_map_eq_Inr_iff res_bind_eq_Inr_iff)
  next
    case None
    then show ?thesis using j * unfolding real
      by (auto simp: hashed_input_def input_payload_def res_map_eq_Inr_iff res_bind_eq_Inr_iff mapM_empty)
  qed
qed


section \<open>From creation to completion\<close>

lemma steps_advance:
  assumes "backtest_step\<^sup>*\<^sup>* db db'" "runs_ok db"
  shows "runs_ok db' \<and> (\<forall>r\<in>set (bd_runs db). \<exists>r'\<in>set (bd_runs db'). run_after r r')"
  using assms
proof (induction rule: rtranclp_induct)
  case (step y z)
  then show ?case using step_advances [OF step(2)] unfolding runs_advance_def by (meson run_after_trans)
qed auto

text \<open>C13. 
  A run of the queue has no trades. Whatever a worker computes for a run that was created by
  \<^verbatim>\<open>create_run\<close>, its result is only accepted when its input hash is that of the replay of the same data
  without any signal; so the accepted result of the engine has no trade, unless the two canonical input documents,
  one with signals and one without, happen to be a collision of SHA-256.
\<close>
theorem queued_run_has_no_trades:
  assumes created: "create_run db q = Inr (s, db1)" "rs_id s \<notin> set (map bk_id (bd_runs db))" and ok: "runs_ok db"
    and later: "backtest_step\<^sup>*\<^sup>* db1 db2"
    and completed: "complete_claimed_run db2 now upd (rs_id s) worker g r artifacts t = Inr out"
    and engine: "run_candle_backtest spec candles signals = Inr r"
  shows "\<exists>spec0 x y. es_strategy_version_id spec0 = int (rs_strategy s) \<and> es_dataset_version_id spec0 = int (rs_dataset s) \<and>
    es_engine_version spec0 = rs_engine s \<and>
    canonical_json_bytes (hashed_input spec0 (load_candle_events db (rs_dataset s)) []) = Inr x \<and>
    canonical_json_bytes (hashed_input spec candles signals) = Inr y \<and> sha256_hex x = sha256_hex y \<and>
    (x = y \<longrightarrow> br_trades r = [])"
  using created(1)
proof (cases rule: create_run_cases)
  case known
  then show ?thesis using created(2) by (auto simp: run_summary_of_def)
next
  case (new row spec0 preview)
  have s: "rs_id s = bk_id row" "rs_strategy s = bk_strategy row" "rs_dataset s = bk_dataset row" "rs_engine s = bk_engine row"
    by (simp_all add: new(4) run_summary_of_def)
  have "row \<in> set (bd_runs db1)" using insert_run_Inr [OF new(3)] by simp
  moreover have "runs_ok db1" using insert_run_advance [OF new(3,1)] ok by (simp add: runs_advance_def)
  ultimately obtain row' where row': "row' \<in> set (bd_runs db2)" "run_after row row'" "runs_ok db2"
    using steps_advance [OF later] by blast
  obtain out_view db3 where "out = (out_view, db3)" by (cases out)
  then obtain owner held where held: "find (run_held now (rs_id s) owner g) (bd_runs db2) = Some held"
      "bk_input_hash held = br_input_hash r"
    using completed by (metis complete_claimed_run_cases)
  have "bk_id held = bk_id row'" "held \<in> set (bd_runs db2)"
    using find_run_held [OF held(1)] row'(2) by (simp_all add: s run_after_def)
  then have "held = row'" using row'(1,3) by (metis distinct_map inj_onD runs_ok_def)
  then have "br_input_hash preview = br_input_hash r" using held(2) new(9) row'(2) by (simp add: run_after_def)
  moreover obtain x where x: "canonical_json_bytes (hashed_input spec0 (load_candle_events db (rs_dataset s)) []) = Inr x"
      "br_input_hash preview = sha256_hex x"
    using run_input_text(1) [OF new(8)] by (auto simp: s)
  moreover obtain y where y: "canonical_json_bytes (hashed_input spec candles signals) = Inr y" "br_input_hash r = sha256_hex y"
    using run_input_text(1) [OF engine] by blast
  moreover have "br_trades r = []" if "x = y"
    using same_text_no_signals [OF y(1), of spec0] x(1) that run_input_text(2,3) [OF engine] by blast
  ultimately show ?thesis using new(5-7) by (intro exI [of _ spec0] exI [of _ x] exI [of _ y]) (auto simp: s)
qed


section \<open>A run from creation to completion\<close>

lemma digest_is_hash [simp]: "is_hash (sha256_hex x)"
  using sha256_hex_digits [of x] by (auto simp: is_hash_def list_all_iff)

lemma bt_result_hashed: "bt_result status inh assumptions evs trades points metrics signals errs = Inr r \<Longrightarrow>
    is_hash (br_result_hash r) \<and> br_equity_points r = points \<and> br_metrics r = metrics"
  by (auto simp: bt_result_def res_map_eq_Inr_iff dest: hash_text)

lemma empty_replay:
  assumes "run_candle_backtest spec [] [] = Inr r"
  shows "is_hash (br_result_hash r) \<and> is_hash (br_input_hash r) \<and> br_trades r = [] \<and> br_equity_points r = [] \<and>
    br_metrics r = [(''finalEquity'', dec_of (es_initial_cash spec))]"
proof -
  have "br_trades r = []" "is_hash (br_input_hash r)" using run_input_text(1,3) [OF assms] by auto
  moreover have "is_hash (br_result_hash r) \<and> br_equity_points r = [] \<and>
      br_metrics r = [(''finalEquity'', dec_of (es_initial_cash spec))]"
    using assms by (auto simp: run_candle_backtest_def sorted_events_def res_bind_eq_Inr_iff replay_signals_eq
        ordered_signals_def executions_def map_filter_simps initial_state_def final_equity_def
        dest!: bt_result_hashed split: option.splits if_splits)
  ultimately show ?thesis by blast
qed

definition fresh_backtest_db :: backtest_db where
  "fresh_backtest_db = example_backtest_db
     \<lparr>bd_runs := [], seq_backtests := 1, bd_strategies := (bd_strategies example_backtest_db)
        \<lparr>sb_graphs := [\<lparr>gr_version = 1, gr_graph = [], gr_hash = example_hash\<rparr>]\<rparr>\<rparr>"

definition example_run_request :: run_request where
  "example_run_request =
     \<lparr>rn_request_id = PyStr ''q'', rn_idempotency_key = PyStr ''key'', rn_actor_id = PyStr ''a'', rn_requested_at = utc 0,
      rn_reason = PyStr ''r'', rn_strategy = PyInt 1, rn_dataset = PyInt 1, rn_engine = PyStr ''v1'',
      rn_parameters = PyDict [], rn_seed = PyInt 7, rn_initial_cash = PyDecimal (Dec False 1000 0),
      rn_execution = PyDict [(''feeRate'', PyDecimal (Dec False 5 (-4))), (''slippageBps'', PyDecimal (Dec False 10 0)),
        (''latencySeconds'', PyInt 60), (''maxParticipationRate'', PyDecimal (Dec False 1 (-1)))],
      rn_max_attempts = PyInt 3\<rparr>"

definition example_run_command :: run_command where
  "example_run_command =
     \<lparr>rc_request = ''q'', rc_key = ''key'', rc_actor = ''a'', rc_reason_text = ''r'', rc_strategy = 1, rc_dataset = 1,
      rc_engine = ''v1'', rc_parameters = [], rc_seed = 7, rc_cash = Dec False 1000 0,
      rc_execution = (Dec False 5 (-4), Dec False 10 0, 60, Dec False 1 (-1)), rc_max_attempts = 3\<rparr>"

lemma example_command: "run_command_of example_run_request = Inr example_run_command"
  by (simp add: run_command_of_def example_run_request_def example_run_command_def store_text_def store_non_blank_def
      strip_def is_space_def positive_int_def seed_of_def decimal_argument_def parameter_payload_def execution_arguments_def
      dict_get_def)

lemma store_hash_is_hash: "store_hash p = Inr h \<Longrightarrow> is_hash h"
  using sha256_hex_digits by (auto simp: store_hash_def res_map_eq_Inr_iff is_hash_def list_all_iff)

lemma example_hashes:
  "\<exists>h. store_hash (command_payload example_run_command (utc 0)) = Inr h" "\<exists>h. store_hash [] = Inr h"
  by (simp_all add: store_hash_def command_payload_def example_run_command_def execution_payload_def)

lemma example_created:
  "\<exists>row. create_run fresh_backtest_db example_run_request =
       Inr (run_summary_of row, fresh_backtest_db\<lparr>bd_runs := [row], seq_backtests := 2\<rparr>) \<and>
     bk_id row = 1 \<and> bk_status row = Run_queued \<and> bk_attempts row = 0 \<and> bk_max_attempts row = 3 \<and> bk_generation row = 0 \<and>
     bk_result_hash row = None \<and> inputs_valid fresh_backtest_db row \<and>
     (\<exists>spec r. es_initial_cash spec = PyDecimal (Dec False 1000 0) \<and>
        run_candle_backtest spec [] [] = Inr r \<and> bk_input_hash row = br_input_hash r)"
proof -
  obtain h p where hashes: "store_hash (command_payload example_run_command (utc 0)) = Inr h" "store_hash [] = Inr p"
    using example_hashes by blast
  obtain v d where material: "run_material fresh_backtest_db 1 1 = Some (v, d)" "vn_id v = 1" "dv_id d = 1"
      "vn_graph_hash v = example_hash" "dv_hash d = example_hash"
    by (simp add: run_material_def fresh_backtest_db_def example_backtest_db_def row_by_def)
  let ?spec = "engine_spec_of example_run_command v d p"
  have cash: "es_initial_cash ?spec = PyDecimal (Dec False 1000 0)"
    by (simp add: engine_spec_of_def example_run_command_def)
  have "all_utc ?spec [] []"
    by (simp add: all_utc_def validated_values_def engine_spec_of_def example_run_command_def)
  then obtain preview where preview: "run_candle_backtest ?spec [] [] = Inr preview"
    using run_utc [of ?spec "[]" "[]"] by (auto simp: replay_overflows_def)
  have candles: "load_candle_events fresh_backtest_db 1 = []"
    by (simp add: load_candle_events_def fresh_backtest_db_def example_backtest_db_def)
  have args: "rn_requested_at example_run_request = utc 0" "rc_key example_run_command = ''key''"
    "rc_strategy example_run_command = 1" "rc_dataset example_run_command = 1" "rc_parameters example_run_command = []"
    "bd_runs fresh_backtest_db = []"
    by (simp_all add: example_run_request_def example_run_command_def fresh_backtest_db_def)
  let ?row = "new_run fresh_backtest_db example_run_command 0 v d (br_input_hash preview) p h
        (run_input_payload d ?spec [] (br_assumptions preview)) (br_assumptions preview)"
  have valid: "inputs_valid fresh_backtest_db ?row"
    by (simp add: inputs_valid_def new_run_def material(2-5)) (simp add: fresh_backtest_db_def example_backtest_db_def)
  have "is_hash example_hash" by (simp add: is_hash_def example_hash_def HEX_DIGITS_def list_all_iff)
  then have "run_columns_valid ?row" using empty_replay [OF preview] hashes store_hash_is_hash
    by (simp add: run_columns_valid_def new_run_def material(2-5) example_run_command_def strip_def is_space_def)
  then have "insert_run fresh_backtest_db ?row = Inr (fresh_backtest_db\<lparr>bd_runs := [?row], seq_backtests := 2\<rparr>)"
    using valid by (simp add: insert_run_def new_run_def example_run_command_def MAX_BIGINT_def MAX_INTEGER_def)
      (simp add: fresh_backtest_db_def)
  then have "create_run fresh_backtest_db example_run_request =
      Inr (run_summary_of ?row, fresh_backtest_db\<lparr>bd_runs := [?row], seq_backtests := 2\<rparr>)"
    using hashes material(1-3) candles preview args
    by (simp add: create_run_def example_command row_by_def Let_def)
  then show ?thesis using cash preview empty_replay [OF preview] valid
    by (intro exI [of _ ?row]) (auto simp: new_run_def fresh_backtest_db_def example_run_command_def)
qed


lemma claim_single:
  assumes "bd_runs db = [r]" "bk_status r = Run_queued" "bk_attempts r < bk_max_attempts r" "inputs_valid db r"
  shows "claim_next_run db ''w'' 120 10 10 (\<lambda>_. False) =
    Inr (Some (lease_run ''w'' 120 10 r), db\<lparr>bd_runs := [lease_run ''w'' 120 10 r]\<rparr>)"
proof -
  have none: "\<not> lease_expired 10 r" using assms(2) by (simp add: lease_expired_def)
  have due: "run_due 10 r" using assms(2,3) by (simp add: run_due_def)
  have "update_runs (\<lambda>x. bk_id x = bk_id r \<and> bk_generation x = bk_generation r) (lease_run ''w'' 120 10) db =
      Inr (db\<lparr>bd_runs := [lease_run ''w'' 120 10 r]\<rparr>)"
    using update_runs_ok [of db "\<lambda>x. bk_id x = bk_id r \<and> bk_generation x = bk_generation r" "lease_run ''w'' 120 10"] assms
    by (simp add: run_sealed_def rows_update_def lease_run_def)
  moreover have "update_runs (\<lambda>x. lease_expired 10 x \<and> bk_max_attempts x \<le> bk_attempts x) (bury_run 10) db = Inr db"
    using assms(1) none by (simp add: update_runs_def rows_update_def)
  ultimately show ?thesis using assms(1) due
    by (simp add: claim_next_run_def example_texts row_by_def Let_def)
qed

lemma complete_single:
  assumes "bd_runs db = [r]" "run_held 20 1 ''w'' 1 r" "inputs_valid db r" "bd_metrics db = []"
    and "run_candle_backtest spec [] [] = Inr result" "es_initial_cash spec = PyDecimal (Dec False 1000 0)"
    and "bk_input_hash r = br_input_hash result"
  shows "\<exists>out. complete_claimed_run db 20 20 1 ''w'' 1 result PyNone None = Inr out"
proof -
  note res = empty_replay [OF assms(5)]
  obtain n where n: "numeric_38_18 (Dec False 1000 0) = Inr n" by (simp add: numeric_38_18_def round_half_away_def)
  define db1 where "db1 = db\<lparr>bd_metrics := [\<lparr>bm_run = 1, bm_name = ''finalEquity'', bm_value = n\<rparr>]\<rparr>"
  have inserted: "insert_result 1 result [] db = Inr db1"
    unfolding db1_def
    using res n assms(4,6)
    by (simp add: insert_result_def insert_trades_def insert_equity_points_def insert_metrics_def insert_artifacts_def
        insert_metric_def dec_of_def strip_def is_space_def)
  have held: "run_held 20 1 ''w'' 1 r" "bk_id r = 1" "bk_status r = Run_running" using assms(2) by (simp_all add: run_held_def)
  define f where "f = finish_run result 20"
  have "inputs_valid db1 r" using assms(3) by (simp add: db1_def inputs_valid_def)
  then have "update_runs (run_held 20 1 ''w'' 1) f db1 = Inr (db1\<lparr>bd_runs := [f r]\<rparr>)"
    using assms(1) held res
    by (simp add: update_runs_def db1_def run_sealed_def result_hash_valid_def rows_update_def f_def finish_run_def)
  moreover have "\<exists>v. get_run (db1\<lparr>bd_runs := [f r]\<rparr>) 1 = Some v" using held by (simp add: get_run_def row_by_def f_def)
  moreover have "bd_runs db1 = [r]" using assms(1) by (simp add: db1_def)
  ultimately show ?thesis using held assms(1,7) inserted
    by (auto simp: complete_claimed_run_def example_texts artifact_inputs_def f_def)
qed

lemma queued_run_has_no_trades_witness:
  "\<exists>s db1 db2 spec r out. create_run fresh_backtest_db example_run_request = Inr (s, db1) \<and> backtest_step\<^sup>*\<^sup>* db1 db2 \<and>
     run_candle_backtest spec [] [] = Inr r \<and>
     complete_claimed_run db2 20 20 (rs_id s) ''w'' 1 r PyNone None = Inr out \<and> rs_dataset s = 1 \<and>
     (\<exists>spec0 x. es_dataset_version_id spec0 = 1 \<and>
       canonical_json_bytes (hashed_input spec0 (load_candle_events fresh_backtest_db 1) []) = Inr x)"
proof -
  obtain row spec r where created: "create_run fresh_backtest_db example_run_request =
       Inr (run_summary_of row, fresh_backtest_db\<lparr>bd_runs := [row], seq_backtests := 2\<rparr>)"
    and row: "bk_id row = 1" "bk_status row = Run_queued" "bk_attempts row = 0" "bk_max_attempts row = 3" "bk_generation row = 0"
      "bk_result_hash row = None" "inputs_valid fresh_backtest_db row" "bk_input_hash row = br_input_hash r"
    and spec: "es_initial_cash spec = PyDecimal (Dec False 1000 0)" "run_candle_backtest spec [] [] = Inr r"
    using example_created by blast
  let ?db1 = "fresh_backtest_db\<lparr>bd_runs := [row], seq_backtests := 2\<rparr>" and ?leased = "lease_run ''w'' 120 10 row"
  let ?db2 = "?db1\<lparr>bd_runs := [?leased]\<rparr>"
  have valid: "inputs_valid ?db1 row" "inputs_valid ?db2 ?leased" using row(7) by (simp_all add: inputs_valid_def lease_run_def)
  have "claim_next_run ?db1 ''w'' 120 10 10 (\<lambda>_. False) = Inr (Some ?leased, ?db2)"
    using claim_single [of ?db1 row] row valid(1) by simp
  then have steps: "backtest_step\<^sup>*\<^sup>* ?db1 ?db2" by (blast intro: backtest_step.claim)
  have "run_held 20 1 ''w'' 1 ?leased" using row by (simp add: run_held_def lease_run_def second_us_def)
  moreover have "bd_metrics ?db2 = []" by (simp add: fresh_backtest_db_def example_backtest_db_def)
  ultimately obtain out where out: "complete_claimed_run ?db2 20 20 1 ''w'' 1 r PyNone None = Inr out"
    using complete_single [OF _ _ valid(2) _ spec(2,1)] row(8) by auto
  have s: "rs_id (run_summary_of row) = 1" using row(1) by (simp add: run_summary_of_def)
  have fresh: "rs_id (run_summary_of row) \<notin> set (map bk_id (bd_runs fresh_backtest_db))" "runs_ok fresh_backtest_db"
    by (simp_all add: fresh_backtest_db_def runs_ok_def)
  have "bk_dataset row = 1" using row(7) by (simp add: inputs_valid_def fresh_backtest_db_def example_backtest_db_def)
  then have data: "rs_dataset (run_summary_of row) = 1" by (simp add: run_summary_of_def)
  have out': "complete_claimed_run ?db2 20 20 (rs_id (run_summary_of row)) ''w'' 1 r PyNone None = Inr out"
    using out s by simp
  obtain spec0 x where "es_dataset_version_id spec0 = 1"
      "canonical_json_bytes (hashed_input spec0 (load_candle_events fresh_backtest_db 1) []) = Inr x"
    using queued_run_has_no_trades [OF created fresh steps out' spec(2)] data by auto
  then show ?thesis using created steps out' spec(2) data by blast
qed

end
