(* ===== verification/Spec2Isabelle.thy ===== *)
theory Spec2Isabelle
  imports Coverage_Transition Strategy_Graph Backtest_Engine Microstructure Live_Orders Market_Statistics Gateway
    Portfolio_Runs Portfolio_Commands Backtest_Runs
begin

text \<open>
  \<^bold>\<open>goodmoneying: a verification library of the trading platform's core.\<close>

  The platform collects candles, trades and order books of the Upbit exchange, keeps track of what it has
  collected, derives candles, indicators and statistics from it, freezes data sets, backtests strategies on
  them and trades on paper, and keeps live trading behind a series of gates. The Python code lies under
  \<^verbatim>\<open>src/packages/shared/goodmoneying_shared\<close> (the core, called \<^verbatim>\<open>shared\<close> below),
  \<^verbatim>\<open>src/apps/upbit_gateway/goodmoneying_upbit_gateway\<close> (the only program that talks to the exchange,
  \<^verbatim>\<open>gateway\<close>), \<^verbatim>\<open>src/apps/worker/goodmoneying_worker\<close> (background workers, \<^verbatim>\<open>worker\<close>) and
  \<^verbatim>\<open>src/apps/api/goodmoneying_api\<close> (the HTTP interface). The schema of the database is
  \<^verbatim>\<open>src/docs/contracts/db\<close>.

  \<^bold>\<open>Conventions.\<close> A function that may raise returns \<open>error + value\<close>: \<open>Inl\<close> is the exception,
  and every raise, early return and validation of the source is a branch. Human readable message texts are left
  out; the error constructors name the check. A Python mapping handled as a document is a \<open>py_dict\<close>, an
  association list in insertion order; a dataclass is a record; an enumeration a datatype. Text is the byte
  string of its UTF-8 encoding, where byte order and code point order agree; the character classes of
  \<^verbatim>\<open>strip\<close>, \<^verbatim>\<open>lower\<close> and \<^verbatim>\<open>isdigit\<close> are those of ASCII.
  Timestamps are microseconds with their UTC offset (\<open>datetime\<close>) where the code inspects the zone, and
  instants in microseconds where it has already been normalised. A \<^verbatim>\<open>Decimal\<close> is sign, coefficient and
  exponent with the exact arithmetic of a context of precision 28 or 50, ROUND_HALF_EVEN; infinities appear only
  where the code accepts their text (\<open>xdec\<close>), NaN and exponent limits not at all. A \<^verbatim>\<open>float\<close> is a
  rational and every operation rounds to 53 bits. A database table is the list of its rows in insertion order, a
  transaction is one atomic function of the tables with the constraints of the schema checked, and one that
  raises leaves them unchanged; the locks the code takes are what makes this view sound. A clock is an argument:
  one reading for the guards of a statement and one for what it writes, unless a definition says otherwise.

  \<^bold>\<open>Python and the standard library.\<close>
  \<^item> \<open>Prelude\<close>: the result type and its combinators, stable sorting, deduplication, dictionaries.
  \<^item> \<open>Py_Datetime\<close>: the proleptic calendar (\<^verbatim>\<open>ymd2ord\<close> and its inverse), \<^verbatim>\<open>combine\<close>,
    weekdays, months, \<^verbatim>\<open>isoformat\<close>.
  \<^item> \<open>Py_Decimal\<close>, \<open>Decimal_Value\<close>: decimal arithmetic; the locale \<open>decimal_context\<close>
    (results are correctly rounded, exact on a grid) is interpreted at 28 and 50 digits; values do not depend on
    trailing zeros, and canonical text reads back to the same value.
  \<^item> \<open>Py_Float\<close>: binary64 rounding, locale \<open>float_rounding\<close> (monotone, exact on integers).
  \<^item> \<open>Py_Value\<close>, \<open>Json_Injective\<close>: Python values and \<^verbatim>\<open>json.dumps\<close>; canonical text
    determines the document.
  \<^item> \<open>Sha256\<close>, \<open>Sha512\<close>: the digests, on 32 and 64 bit words, executable.

  \<^bold>\<open>Data: what was collected and what follows from it.\<close>
  \<^item> \<open>Data_Foundation\<close> (\<^verbatim>\<open>shared/data_foundation.py\<close>): policies, default targets, coverage
    classification, the minutes missing from a page, claiming of durable jobs.
  \<^item> \<open>Rollup_Grid\<close> (\<^verbatim>\<open>shared/aggregation.py\<close>, \<^verbatim>\<open>shared/incremental_aggregation.py\<close>):
    bucket starts and ends of every unit; locale \<open>bucket_grid\<close>, interpreted on every unit; the
    recomputation ranges cover exactly the buckets of the changed times, in ranges of at most 512 buckets.
  \<^item> \<open>Coverage_Transition\<close> (\<^verbatim>\<open>shared/coverage_transition.py\<close>): replacing the coverage of an
    interval; it refines overwriting a function from instants to states, never violates the exclusion
    constraint, and records exactly the instants whose state changed.
  \<^item> \<open>Candle_Aggregation\<close> (\<^verbatim>\<open>shared/aggregation.py\<close>, \<^verbatim>\<open>shared/models.py\<close>): the candle of a
    bucket, its completeness and quality; the result does not depend on the order of the input.
  \<^item> \<open>Indicators\<close>, \<open>Market_Statistics\<close> (\<^verbatim>\<open>shared/versioned_indicators.py\<close>,
    \<^verbatim>\<open>shared/versioned_market_statistics.py\<close>): series with a checkpoint in every point. Locale
    \<open>checkpointed_series\<close>, interpreted on both: continuing from a stored checkpoint equals the
    uninterrupted computation. Each value is its textbook formula over the candles since the last gap.
  \<^item> \<open>Microstructure\<close> (\<^verbatim>\<open>shared/versioned_microstructure.py\<close>): one-minute order book and flow
    values; locale \<open>scoped_selection\<close>, interpreted on order books and trades.
  \<^item> \<open>Dataset_Versions\<close> (\<^verbatim>\<open>shared/dataset_versions.py\<close>): validation, canonical JSON, the
    incremental digest, which equals the digest of the whole document, and the five hashes of a data set.

  \<^bold>\<open>Strategies and backtests.\<close>
  \<^item> \<open>Strategy_Graph\<close> (\<^verbatim>\<open>shared/strategy_graph.py\<close>): validation reports exactly the faults of a
    graph; the worklist decides acyclicity; the hash is independent of the order of nodes and edges.
  \<^item> \<open>Backtest_Engine\<close> (\<^verbatim>\<open>shared/backtest_engine.py\<close>): the replay never looks ahead, fills
    respect the volume share and the cash and position ledgers balance.
  \<^item> \<open>Keyset_Pages\<close>: listing a table page by page; locale \<open>keyset_listing\<close>, interpreted on portfolios
    and strategy versions: following the cursors delivers every row of the first call exactly once.
  \<^item> \<open>Strategy_Store\<close> (\<^verbatim>\<open>shared/strategy_store.py\<close>): every published version holds a graph that
    validates under its hash, versions are numbered without gaps, and a repeated request returns the first row.
  \<^item> \<open>Backtest_Store\<close>, \<open>Backtest_Queue\<close>, \<open>Backtest_Runs\<close> (\<^verbatim>\<open>shared/backtest_store.py\<close>,
    \<^verbatim>\<open>worker/backtest_worker.py\<close>): runs, their results and the queue of runs as the step relation
    \<open>backtest_step\<close>. A finished run is final, a stale lease is fenced off (second interpretation of
    \<open>lease_protocol\<close>), no run blocks the queue, keyed cursors read back; and what the code does not intend:
    a run of the queue never has a trade, and a result with two executions at one time cannot be stored.

  \<^bold>\<open>Paper trading.\<close> The tables and the transactions of \<^verbatim>\<open>shared/portfolio_bot_store.py\<close>.
  \<^item> \<open>Portfolio_Tables\<close>, \<open>Portfolio_Ledger\<close>: rows, \<^verbatim>\<open>NUMERIC(38,18)\<close> columns, the fill
    ledger and the position projection. A holding is never negative; with observed amounts of at most eighteen
    decimals and holdings below ten billion (where a context of 28 digits is exact) it is the signed sum of its
    fills.
  \<^item> \<open>Paper_Execution\<close>: risk evaluation, kill switches, and the job queue with its leases.
  \<^item> \<open>Order_Reconciliation\<close>: reconciling an order with observed fills.
  \<^item> \<open>Portfolio_System\<close>: all of them as one step relation \<open>portfolio_step\<close>; in every reachable
    state an intent is executed at most once, a stale lease is fenced off (locale \<open>lease_protocol\<close> of
    \<open>Lease_Protocol\<close>, interpreted on the job queue), a kill switch stops execution, and approved orders
    respect their limits. \<open>Portfolio_Runs\<close> is a concrete run.
  \<^item> \<open>Portfolio_Commands\<close>: creating and listing portfolios, live reconciliation applications, and the
    loops of \<^verbatim>\<open>worker/paper_execution_worker.py\<close> and \<^verbatim>\<open>worker/risk_evaluation_worker.py\<close>, which are
    shown to be sequences of steps of the system.

  \<^bold>\<open>Live orders and the exchange.\<close>
  \<^item> \<open>Upbit_Orders\<close> (\<^verbatim>\<open>shared/upbit_rest_reconciliation.py\<close>, \<^verbatim>\<open>shared/upbit_myorder.py\<close>):
    parsing, planning, and splitting the paid fee over the trades, which conserves it.
  \<^item> \<open>Live_Orders\<close> (\<^verbatim>\<open>shared/live_capability.py\<close>, \<^verbatim>\<open>upbit_safe_order_adapter.py\<close>,
    \<^verbatim>\<open>live_order_identity.py\<close>, \<^verbatim>\<open>upbit_live_order_binding.py\<close>,
    \<^verbatim>\<open>upbit_order_submit_rehearsal.py\<close>, \<^verbatim>\<open>upbit_live_reconciliation.py\<close>): every gate fails
    closed, and a snapshot is only applied to the order it is bound to.
  \<^item> \<open>Rate_Limit\<close> (\<^verbatim>\<open>gateway/rate_limit.py\<close>): the limiter never admits more calls in a window than
    the limit. \<open>acquire\<close> recurses over the list of its clock readings, so it needs no fuel; that it
    returns is a theorem.
  \<^item> \<open>Gateway_Client\<close>, \<open>Gateway\<close> (\<^verbatim>\<open>client.py\<close>, \<^verbatim>\<open>auth.py\<close>, \<^verbatim>\<open>safety.py\<close>,
    \<^verbatim>\<open>trace.py\<close>, \<^verbatim>\<open>executor.py\<close>, \<^verbatim>\<open>catalog.py\<close> and the request handler of \<^verbatim>\<open>main.py\<close>):
    what is sent upstream passed the safety policy, the parameter schema and the limiter, and traces hide
    secrets.

  \<^bold>\<open>Parameters.\<close> Code that is not in the repository is an argument: the ISO 8601 and mail date parsers,
  the zone of naive timestamps, the JWT encoder, \<^verbatim>\<open>urlparse\<close> and \<^verbatim>\<open>ipaddress\<close>, the HTTP client,
  the executor of paper orders, the rows other transactions hold locked (\<open>locked\<close>), and the SQL trigger
  that admits a live application (\<open>admissible\<close>).

  \<^bold>\<open>Not modelled.\<close> The HTTP interface (request routing, pydantic schemas and response shaping), the
  repositories \<^verbatim>\<open>postgres_repository.py\<close>, \<^verbatim>\<open>sqlite_repository.py\<close> and
  \<^verbatim>\<open>data_foundation_repository.py\<close>, the stores of data sets, indicators and microstructure, which
  assemble SQL around the modelled computations, the realtime stream and readiness checks, the web socket relay and
  live verification of the gateway, the collecting workers and their entry points, scripts and the web frontend. Serialization retries, connection handling
  and logging have no counterpart.
\<close>

end
